(* ===== verification/Prelude.thy ===== *)
theory Prelude
  imports Main "HOL-Library.Word" "HOL-Library.Monad_Syntax"
begin

text \<open>
  Shared material of the development: the machine types of the Go sources, Go's
  slice primitives with their run-time panics, the big- and little-endian codecs of
  \<^verbatim>\<open>encoding/binary\<close>, and the list and word lemmas the component theories rest on.

  Conventions.
  \<^item> \<open>uint8\<close> to \<open>uint64\<close> are words of that width; \<open>+\<close>, \<open>-\<close> wrap as in Go.
  \<^item> A \<open>[]byte\<close> is a list of 8-bit words. Lengths and offsets (Go \<open>int\<close>, 64 bit) that are
    lengths of slices in memory are natural numbers.
  \<^item> A function that indexes or slices returns an \<open>option\<close>: \<open>None\<close> is a run-time panic
    (index or slice bounds out of range). A high slice bound is compared with the length
    rather than the capacity, so \<open>None\<close> over-approximates Go's panics.
  \<^item> A function with an \<open>error\<close> result returns \<open>error + 'a\<close>, with \<open>Inl\<close> the error.
\<close>

unbundle bit_operations_syntax

section \<open>Machine types\<close>

type_synonym u8 = "8 word"
type_synonym u16 = "16 word"
type_synonym u32 = "32 word"
type_synonym u64 = "64 word"
type_synonym bytes = "u8 list"
type_synonym 'a go = "'a option"

named_theorems go_simps \<open>evaluation of slice reads and writes whose bounds are known\<close>
named_theorems byte_lens \<open>lengths of encoded byte sequences\<close>

section \<open>Slices\<close>

definition idx :: "'a list \<Rightarrow> nat \<Rightarrow> 'a go" where
  "idx xs i = (if i < length xs then Some (xs ! i) else None)"

definition slice :: "'a list \<Rightarrow> nat \<Rightarrow> nat \<Rightarrow> 'a list go" where
  "slice xs i j = (if i \<le> j \<and> j \<le> length xs then Some (take (j - i) (drop i xs)) else None)"

definition slice_from :: "'a list \<Rightarrow> nat \<Rightarrow> 'a list go" where
  "slice_from xs i = slice xs i (length xs)"

text \<open>Storing a run of elements at an offset: the fixed-width \<open>binary.Put\<close> functions.\<close>

definition write_at :: "'a list \<Rightarrow> nat \<Rightarrow> 'a list \<Rightarrow> 'a list go" where
  "write_at buf off v =
     (if off + length v \<le> length buf then Some (take off buf @ v @ drop (off + length v) buf) else None)"

text \<open>The builtin \<open>copy(dst[off:], src)\<close>: copies as much as fits, panics when \<open>off\<close> is past the end.\<close>

definition copy_at :: "'a list \<Rightarrow> nat \<Rightarrow> 'a list \<Rightarrow> 'a list go" where
  "copy_at dst off src =
     (if off \<le> length dst
      then Some (let n = min (length dst - off) (length src)
                 in take off dst @ take n src @ drop (off + n) dst)
      else None)"

section \<open>Endianness\<close>

definition be16 :: "u16 \<Rightarrow> bytes" where
  "be16 w = [ucast (drop_bit 8 w), ucast w]"

definition be32 :: "u32 \<Rightarrow> bytes" where
  "be32 w = [ucast (drop_bit 24 w), ucast (drop_bit 16 w), ucast (drop_bit 8 w), ucast w]"

definition be64 :: "u64 \<Rightarrow> bytes" where
  "be64 w = be32 (ucast (drop_bit 32 w)) @ be32 (ucast w)"

definition join16 :: "u8 \<Rightarrow> u8 \<Rightarrow> u16" where
  "join16 a b = push_bit 8 (ucast a) OR ucast b"

definition join32 :: "u8 \<Rightarrow> u8 \<Rightarrow> u8 \<Rightarrow> u8 \<Rightarrow> u32" where
  "join32 a b c d = push_bit 24 (ucast a) OR push_bit 16 (ucast b) OR push_bit 8 (ucast c) OR ucast d"

definition join64 :: "u32 \<Rightarrow> u32 \<Rightarrow> u64" where
  "join64 hi lo = push_bit 32 (ucast hi) OR ucast lo"

text \<open>\<open>binary.BigEndian.Uint16(buf[off:])\<close> and its relatives.\<close>

definition be_uint16 :: "bytes \<Rightarrow> nat \<Rightarrow> u16 go" where
  "be_uint16 bs off = (case drop off bs of a # b # _ \<Rightarrow> Some (join16 a b) | _ \<Rightarrow> None)"

definition be_uint32 :: "bytes \<Rightarrow> nat \<Rightarrow> u32 go" where
  "be_uint32 bs off = (case drop off bs of a # b # c # d # _ \<Rightarrow> Some (join32 a b c d) | _ \<Rightarrow> None)"

definition be_uint64 :: "bytes \<Rightarrow> nat \<Rightarrow> u64 go" where
  "be_uint64 bs off = do { hi \<leftarrow> be_uint32 bs off; lo \<leftarrow> be_uint32 bs (off + 4); Some (join64 hi lo) }"

definition le16 :: "u16 \<Rightarrow> bytes" where
  "le16 w = rev (be16 w)"

definition le32 :: "u32 \<Rightarrow> bytes" where
  "le32 w = rev (be32 w)"

definition le_uint16 :: "bytes \<Rightarrow> nat \<Rightarrow> u16 go" where
  "le_uint16 bs off = (case drop off bs of a # b # _ \<Rightarrow> Some (join16 b a) | _ \<Rightarrow> None)"

definition le_uint32 :: "bytes \<Rightarrow> nat \<Rightarrow> u32 go" where
  "le_uint32 bs off = (case drop off bs of a # b # c # d # _ \<Rightarrow> Some (join32 d c b a) | _ \<Rightarrow> None)"

section \<open>Slice lemmas\<close>

lemma idx_Some [go_simps]: "i < length xs \<Longrightarrow> idx xs i = Some (xs ! i)"
  by (simp add: idx_def)

lemma idx_eq_Some_iff: "idx xs i = Some x \<longleftrightarrow> i < length xs \<and> x = xs ! i"
  by (auto simp: idx_def)

lemma idx_Cons_0 [simp]: "idx (x # xs) 0 = Some x"
  by (simp add: idx_def)

lemma idx_Cons_Suc [simp]: "idx (x # xs) (Suc i) = idx xs i"
  by (simp add: idx_def)

lemma slice_Some [go_simps]: "i \<le> j \<Longrightarrow> j \<le> length xs \<Longrightarrow> slice xs i j = Some (take (j - i) (drop i xs))"
  by (simp add: slice_def)

lemma slice_eq_Some_iff: "slice xs i j = Some ys \<longleftrightarrow> i \<le> j \<and> j \<le> length xs \<and> ys = take (j - i) (drop i xs)"
  by (auto simp: slice_def)

lemma slice_from_Some [go_simps]: "i \<le> length xs \<Longrightarrow> slice_from xs i = Some (drop i xs)"
  by (simp add: slice_from_def slice_def)

lemma slice_from_eq_Some_iff: "slice_from xs i = Some ys \<longleftrightarrow> i \<le> length xs \<and> ys = drop i xs"
  by (auto simp: slice_from_def slice_def)

lemma slice_append_mid:
  "i = length xs \<Longrightarrow> j = length xs + length ys \<Longrightarrow> slice (xs @ ys @ zs) i j = Some ys"
  by (simp add: slice_def)

lemma slice_from_append: "i = length xs \<Longrightarrow> slice_from (xs @ ys) i = Some ys"
  by (simp add: slice_from_def slice_def)

lemma write_at_Some [go_simps]:
  "off + length v \<le> length buf \<Longrightarrow> write_at buf off v = Some (take off buf @ v @ drop (off + length v) buf)"
  by (simp add: write_at_def)

text \<open>Writing right behind an already written prefix extends the prefix.\<close>

lemma write_at_append:
  "length pre = off \<Longrightarrow> length v \<le> length rest \<Longrightarrow>
   write_at (pre @ rest) off v = Some ((pre @ v) @ drop (length v) rest)"
  by (auto simp: write_at_def)

lemma write_at_head:
  "length v \<le> length buf \<Longrightarrow> write_at buf 0 v = Some (v @ drop (length v) buf)"
  by (simp add: write_at_def)

lemma length_write_at: "write_at buf off v = Some b \<Longrightarrow> length b = length buf"
  by (auto simp: write_at_def split: if_splits)

lemma copy_at_append:
  "length pre = off \<Longrightarrow> length v \<le> length rest \<Longrightarrow>
   copy_at (pre @ rest) off v = Some ((pre @ v) @ drop (length v) rest)"
  by (auto simp: copy_at_def Let_def min_def)

lemma length_copy_at: "copy_at dst off src = Some b \<Longrightarrow> length b = length dst"
  by (auto simp: copy_at_def Let_def min_def split: if_splits)

section \<open>Endianness lemmas\<close>

lemma length_be16 [simp, byte_lens]: "length (be16 w) = 2" by (simp add: be16_def)
lemma length_be32 [simp, byte_lens]: "length (be32 w) = 4" by (simp add: be32_def)
lemma length_be64 [simp, byte_lens]: "length (be64 w) = 8" by (simp add: be64_def)
lemma length_le16 [simp, byte_lens]: "length (le16 w) = 2" by (simp add: le16_def)
lemma length_le32 [simp, byte_lens]: "length (le32 w) = 4" by (simp add: le32_def)

lemma join16_split: "join16 (ucast (drop_bit 8 w)) (ucast w) = w" for w :: u16
  unfolding join16_def by (rule bit_word_eqI) (auto simp: bit_simps)

lemma join32_split:
  "join32 (ucast (drop_bit 24 w)) (ucast (drop_bit 16 w)) (ucast (drop_bit 8 w)) (ucast w) = w"
  for w :: u32
  unfolding join32_def
proof (rule bit_word_eqI, goal_cases)
  case (1 n)
  then consider "n < 8" | "8 \<le> n" "n < 16" | "16 \<le> n" "n < 24" | "24 \<le> n" "n < 32" by fastforce
  then show ?case by cases (auto simp: bit_simps)
qed

lemma join64_split: "join64 (ucast (drop_bit 32 w)) (ucast w) = w" for w :: u64
  unfolding join64_def by (rule bit_word_eqI) (auto simp: bit_simps)

lemma be_uint16_be16 [go_simps]: "be_uint16 (be16 w @ r) 0 = Some w"
  by (simp add: be_uint16_def be16_def join16_split)

lemma be_uint32_be32 [go_simps]: "be_uint32 (be32 w @ r) 0 = Some w"
  by (simp add: be_uint32_def be32_def join32_split)

lemma be_uint64_be64 [go_simps]: "be_uint64 (be64 w @ r) 0 = Some w"
  by (simp add: be_uint64_def be64_def be_uint32_def be32_def join32_split join64_split)

lemma le_uint16_le16 [go_simps]: "le_uint16 (le16 w @ r) 0 = Some w"
  by (simp add: le_uint16_def le16_def be16_def join16_split)

lemma le_uint32_le32 [go_simps]: "le_uint32 (le32 w @ r) 0 = Some w"
  by (simp add: le_uint32_def le32_def be32_def join32_split)

text \<open>A read at an offset sees only what lies behind it.\<close>

lemma be_uint16_drop: "be_uint16 bs off = be_uint16 (drop off bs) 0"
  by (simp add: be_uint16_def)

lemma be_uint32_drop: "be_uint32 bs off = be_uint32 (drop off bs) 0"
  by (simp add: be_uint32_def)

lemma be_uint64_drop: "be_uint64 bs off = be_uint64 (drop off bs) 0"
  by (simp add: be_uint64_def be_uint32_def add.commute)

lemma le_uint16_drop: "le_uint16 bs off = le_uint16 (drop off bs) 0"
  by (simp add: le_uint16_def)

lemma le_uint32_drop: "le_uint32 bs off = le_uint32 (drop off bs) 0"
  by (simp add: le_uint32_def)

text \<open>A fixed-width read succeeds exactly when enough bytes remain.\<close>

lemma drop_eq_Nil_or_nth: "i < length xs \<Longrightarrow> drop i xs = xs ! i # drop (Suc i) xs"
  by (simp add: Cons_nth_drop_Suc)

lemma be_uint16_nth [go_simps]:
  "off + 2 \<le> length bs \<Longrightarrow> be_uint16 bs off = Some (join16 (bs ! off) (bs ! (off + 1)))"
  by (simp add: be_uint16_def drop_eq_Nil_or_nth)

lemma be_uint32_nth [go_simps]:
  "off + 4 \<le> length bs \<Longrightarrow>
   be_uint32 bs off = Some (join32 (bs ! off) (bs ! (off + 1)) (bs ! (off + 2)) (bs ! (off + 3)))"
  by (simp add: be_uint32_def drop_eq_Nil_or_nth eval_nat_numeral)

lemma be_uint64_nth [go_simps]:
  "off + 8 \<le> length bs \<Longrightarrow>
   be_uint64 bs off = Some (join64 (join32 (bs ! off) (bs ! (off + 1)) (bs ! (off + 2)) (bs ! (off + 3)))
     (join32 (bs ! (off + 4)) (bs ! (off + 5)) (bs ! (off + 6)) (bs ! (off + 7))))"
  by (simp add: be_uint64_def be_uint32_nth add.commute add.left_commute)

lemma le_uint16_nth [go_simps]:
  "off + 2 \<le> length bs \<Longrightarrow> le_uint16 bs off = Some (join16 (bs ! (off + 1)) (bs ! off))"
  by (simp add: le_uint16_def drop_eq_Nil_or_nth)

lemma le_uint32_nth [go_simps]:
  "off + 4 \<le> length bs \<Longrightarrow>
   le_uint32 bs off = Some (join32 (bs ! (off + 3)) (bs ! (off + 2)) (bs ! (off + 1)) (bs ! off))"
  by (simp add: le_uint32_def drop_eq_Nil_or_nth eval_nat_numeral)

text \<open>Encodings are injective.\<close>

lemma be16_inject [simp]: "be16 v = be16 w \<longleftrightarrow> v = w"
  by (metis append_Nil2 be_uint16_be16 option.inject)

lemma be32_inject [simp]: "be32 v = be32 w \<longleftrightarrow> v = w"
  by (metis append_Nil2 be_uint32_be32 option.inject)

lemma be64_inject [simp]: "be64 v = be64 w \<longleftrightarrow> v = w"
  by (metis append_Nil2 be_uint64_be64 option.inject)

section \<open>Bit fields\<close>

lemma and_masks:
  "w AND 1 = take_bit 1 w" "w AND 3 = take_bit 2 w" "w AND 7 = take_bit 3 w"
  "w AND 0x0f = take_bit 4 w" "w AND 0x1f = take_bit 5 w" "w AND 0x3f = take_bit 6 w"
  "w AND 0x7f = take_bit 7 w" "w AND 0xff = take_bit 8 w" "w AND 0xffff = take_bit 16 w"
  "w AND 0x7fffffff = take_bit 31 w"
  for w :: "'a :: len word"
  by (simp_all add: take_bit_eq_mask mask_numeral)

lemma and_1_nonzero_iff: "w AND 1 \<noteq> 0 \<longleftrightarrow> bit w 0" for w :: "'a :: len word"
  by (simp add: and_one_eq odd_iff_mod_2_eq_one bit_0 flip: even_iff_mod_2_eq_zero)

lemma take_bit_word_small: "unat w < 2 ^ n \<Longrightarrow> take_bit n w = w" for w :: "'a :: len word"
  by (simp add: word_eq_iff_unsigned [where 'a = nat] unsigned_take_bit_eq take_bit_nat_eq_self)

lemma unat_of_nat16: "n < 65536 \<Longrightarrow> unat (of_nat n :: u16) = n"
  by (simp add: unat_of_nat take_bit_nat_eq_self)

lemma unat_of_nat32: "n < 2 ^ 32 \<Longrightarrow> unat (of_nat n :: u32) = n"
  by (simp add: unat_of_nat take_bit_nat_eq_self)

section \<open>Extended sequence numbers\<close>

text \<open>Advancing by less than \<open>2^15\<close> either stays in the same cycle of \<open>2^16\<close> or enters the next.\<close>

lemma index_step:
  fixes r s R Q :: nat
  assumes "s < 65536" "Q < 65536" "r * 65536 + s < R * 65536 + Q" "R * 65536 + Q < r * 65536 + s + 32768"
  shows "R = r \<and> s < Q \<and> Q < s + 32768 \<or> R = r + 1 \<and> Q + 32768 < s"
proof -
  have "r \<le> R" "R \<le> r + 1" using assms by linarith+
  then consider "R = r" | "R = r + 1" by linarith
  then show ?thesis using assms by cases auto
qed

section \<open>Reachable states and invariants\<close>

text \<open>
  Stateful components are step relations. The states reachable from the initial ones are the
  least closed set, and a component supplies its invariant by interpreting the locale below.
\<close>

inductive reach :: "('s \<Rightarrow> bool) \<Rightarrow> ('s \<Rightarrow> 's \<Rightarrow> bool) \<Rightarrow> 's \<Rightarrow> bool"
  for init :: "'s \<Rightarrow> bool" and step :: "'s \<Rightarrow> 's \<Rightarrow> bool" where
  reach_init [intro]: "init s \<Longrightarrow> reach init step s"
| reach_step: "reach init step s \<Longrightarrow> step s t \<Longrightarrow> reach init step t"

locale invariant_system =
  fixes init :: "'s \<Rightarrow> bool"
    and step :: "'s \<Rightarrow> 's \<Rightarrow> bool"
    and inv :: "'s \<Rightarrow> bool"
  assumes init_inv: "init s \<Longrightarrow> inv s"
    and step_inv: "inv s \<Longrightarrow> step s t \<Longrightarrow> inv t"
begin

lemma reach_inv: "reach init step s \<Longrightarrow> inv s"
  by (induction rule: reach.induct) (auto intro: init_inv step_inv)

lemma steps_inv: "step\<^sup>*\<^sup>* s t \<Longrightarrow> inv s \<Longrightarrow> inv t"
  by (induction rule: rtranclp_induct) (auto intro: step_inv)

lemma reach_steps: "reach init step s \<Longrightarrow> step\<^sup>*\<^sup>* s t \<Longrightarrow> inv t"
  using reach_inv steps_inv by blast

end

section \<open>Fallible operations that may also panic\<close>

text \<open>A Go function with an \<open>error\<close> result that indexes slices: the outer option is the panic,
  the sum the error. \<open>go_try\<close> is the idiom \<open>if err != nil { return err }\<close>.\<close>

definition go_try :: "('e + 'a) go \<Rightarrow> ('a \<Rightarrow> ('e + 'b) go) \<Rightarrow> ('e + 'b) go" where
  "go_try r f = (case r of None \<Rightarrow> None | Some (Inl e) \<Rightarrow> Some (Inl e) | Some (Inr x) \<Rightarrow> f x)"

lemma go_try_simps [simp]:
  "go_try None f = None" "go_try (Some (Inl e)) f = Some (Inl e)" "go_try (Some (Inr x)) f = f x"
  by (simp_all add: go_try_def)

lemma go_cases:
  fixes r :: "('e + 'a) go"
  obtains "r = None" | e where "r = Some (Inl e)" | x where "r = Some (Inr x)"
  by (cases r; cases "the r") auto

lemma go_try_eq_None_iff: "go_try r f = None \<longleftrightarrow> r = None \<or> (\<exists>x. r = Some (Inr x) \<and> f x = None)"
  by (auto simp: go_try_def split: option.splits sum.splits)

lemma go_try_eq_Inr_iff: "go_try r f = Some (Inr y) \<longleftrightarrow> (\<exists>x. r = Some (Inr x) \<and> f x = Some (Inr y))"
  by (auto simp: go_try_def split: option.splits sum.splits)

end
