(* ===== verification/Core_Types.thy ===== *)
theory Core_Types
  imports Prelude
begin

text \<open>
  The domain types of \<^verbatim>\<open>internal/voip/core/types.go\<close>: call states, directions, media types,
  end reasons, SRTP constants, and the relay description records shared by signaling,
  transport and the call manager.
\<close>

section \<open>Call life cycle constants\<close>

datatype CallState =
    CallStateInitiating
  | CallStateRinging
  | CallStateIncomingRinging
  | CallStateConnecting
  | CallStateActive
  | CallStateOnHold
  | CallStateReconnecting
  | CallStateEnded

datatype CallDirection = CallDirectionOutgoing | CallDirectionIncoming

datatype CallMediaType = CallMediaTypeAudio | CallMediaTypeVideo

text \<open>An end reason is a Go string type: besides the declared constants, a terminate stanza can
  carry any other string.\<close>

type_synonym EndCallReason = string

definition EndCallReasonUserEnded :: EndCallReason where "EndCallReasonUserEnded = ''user_ended''"
definition EndCallReasonDeclined :: EndCallReason where "EndCallReasonDeclined = ''declined''"
definition EndCallReasonTimeout :: EndCallReason where "EndCallReasonTimeout = ''timeout''"
definition EndCallReasonBusy :: EndCallReason where "EndCallReasonBusy = ''busy''"
definition EndCallReasonCancelled :: EndCallReason where "EndCallReasonCancelled = ''cancelled''"
definition EndCallReasonFailed :: EndCallReason where "EndCallReasonFailed = ''failed''"
definition EndCallReasonDoNotDisturb :: EndCallReason where "EndCallReasonDoNotDisturb = ''do_not_disturb''"
definition EndCallReasonUnknown :: EndCallReason where "EndCallReasonUnknown = ''unknown''"

section \<open>Media constants\<close>

definition PayloadTypeWhatsAppOpus :: u8 where "PayloadTypeWhatsAppOpus = 120"
definition PayloadTypeWhatsAppH264 :: u8 where "PayloadTypeWhatsAppH264 = 97"

definition SRTPSendAuthTagLen :: nat where "SRTPSendAuthTagLen = 4"
definition SRTPRecvAuthTagLen :: nat where "SRTPRecvAuthTagLen = 4"
definition SRTPAuthTagLen :: nat where "SRTPAuthTagLen = 4"

definition SRTPLabelEncryption :: u8 where "SRTPLabelEncryption = 0"
definition SRTPLabelAuth :: u8 where "SRTPLabelAuth = 1"
definition SRTPLabelSalt :: u8 where "SRTPLabelSalt = 2"

definition WARelayPort :: int where "WARelayPort = 3480"

record SrtpKeyingMaterial =
  km_MasterKey :: bytes
  km_MasterSalt :: bytes

section \<open>Relay description\<close>

text \<open>A byte slice that may be \<open>nil\<close> is an option; a pointer field is an option.\<close>

record RelayEndpoint =
  ep_IP :: string
  ep_Port :: int
  ep_Token :: string
  ep_AuthToken :: string
  ep_RawAuthToken :: "bytes option"
  ep_RawToken :: "bytes option"
  ep_Key :: string
  ep_RelayID :: int
  ep_Protocol :: int
  ep_C2RRtt :: "int option"
  ep_RelayName :: string
  ep_AddressBytes :: bytes
  ep_AuthTokenID :: string

record RelayData =
  rd_Endpoints :: "RelayEndpoint list"
  rd_ParticipantJids :: "string list"
  rd_UUID :: string
  rd_SelfPid :: "int option"
  rd_PeerPid :: "int option"
  rd_HbhKey :: "bytes option"

end
