(* ===== verification/Call_State.thy ===== *)
theory Call_State
  imports Core_Types
begin

text \<open>
  The life cycle of one call: \<^verbatim>\<open>internal/voip/call/callstate.go\<close> (call record, transitions) and
  \<open>phaseDeadline\<close> of \<^verbatim>\<open>callmanager_timeout.go\<close>. \<open>ApplyTransition\<close> is a function of the call,
  the transition and the clock reading it takes; instants and durations are integers in
  nanoseconds. The lemmas give the transition graph, the invariant of every call reachable by
  any sequence of transitions under a clock that does not run backwards, and which live calls
  the watchdog has a deadline for.
\<close>

type_synonym time = int

section \<open>The call record\<close>

record CallStateData =
  sd_State :: CallState
  sd_ConnectedAt :: "time option"
  sd_AcceptedAt :: "time option"
  sd_EndedAt :: "time option"
  sd_MediaLostAt :: "time option"
  sd_AudioMuted :: bool
  sd_VideoOff :: bool
  sd_Silenced :: bool
  sd_EndReason :: EndCallReason
  sd_DurationSecs :: int

record CallInfo =
  ci_CallID :: string
  ci_PeerJid :: string
  ci_CallCreator :: string
  ci_Direction :: CallDirection
  ci_MediaType :: CallMediaType
  ci_StateData :: CallStateData
  ci_CreatedAt :: time
  ci_GroupJid :: string
  ci_IsOffline :: bool
  ci_CallerPn :: string
  ci_EncryptionKey :: "bytes option"
  ci_RelayData :: "RelayData option"
  ci_ElectedRelayIdx :: "int option"

definition initialStateData :: "CallState \<Rightarrow> CallStateData" where
  "initialStateData st =
     \<lparr>sd_State = st, sd_ConnectedAt = None, sd_AcceptedAt = None, sd_EndedAt = None,
      sd_MediaLostAt = None, sd_AudioMuted = False, sd_VideoOff = True, sd_Silenced = False,
      sd_EndReason = '''', sd_DurationSecs = 0\<rparr>"

definition NewOutgoingCall :: "string \<Rightarrow> string \<Rightarrow> string \<Rightarrow> CallMediaType \<Rightarrow> time \<Rightarrow> CallInfo" where
  "NewOutgoingCall callID peerJid ourJid mediaType now =
     \<lparr>ci_CallID = callID, ci_PeerJid = peerJid, ci_CallCreator = ourJid,
      ci_Direction = CallDirectionOutgoing, ci_MediaType = mediaType,
      ci_StateData = initialStateData CallStateInitiating, ci_CreatedAt = now,
      ci_GroupJid = '''', ci_IsOffline = False, ci_CallerPn = '''',
      ci_EncryptionKey = None, ci_RelayData = None, ci_ElectedRelayIdx = None\<rparr>"

definition NewIncomingCall ::
  "string \<Rightarrow> string \<Rightarrow> string \<Rightarrow> string \<Rightarrow> CallMediaType \<Rightarrow> time \<Rightarrow> CallInfo" where
  "NewIncomingCall callID peerJid callCreator callerPn mediaType now =
     \<lparr>ci_CallID = callID, ci_PeerJid = peerJid, ci_CallCreator = callCreator,
      ci_Direction = CallDirectionIncoming, ci_MediaType = mediaType,
      ci_StateData = initialStateData CallStateIncomingRinging, ci_CreatedAt = now,
      ci_GroupJid = '''', ci_IsOffline = False, ci_CallerPn = callerPn,
      ci_EncryptionKey = None, ci_RelayData = None, ci_ElectedRelayIdx = None\<rparr>"

abbreviation call_state :: "CallInfo \<Rightarrow> CallState" where
  "call_state c \<equiv> sd_State (ci_StateData c)"

definition IsInitiator :: "CallInfo \<Rightarrow> bool" where
  "IsInitiator c \<longleftrightarrow> ci_Direction c = CallDirectionOutgoing"

definition IsActive :: "CallInfo \<Rightarrow> bool" where
  "IsActive c \<longleftrightarrow> call_state c = CallStateActive"

definition IsRinging :: "CallInfo \<Rightarrow> bool" where
  "IsRinging c \<longleftrightarrow> call_state c = CallStateRinging \<or> call_state c = CallStateIncomingRinging"

definition IsEnded :: "CallInfo \<Rightarrow> bool" where
  "IsEnded c \<longleftrightarrow> call_state c = CallStateEnded"

definition CanAccept :: "CallInfo \<Rightarrow> bool" where
  "CanAccept c \<longleftrightarrow> call_state c = CallStateIncomingRinging"

definition CanReject :: "CallInfo \<Rightarrow> bool" where
  "CanReject c \<longleftrightarrow> call_state c = CallStateIncomingRinging \<or> call_state c = CallStateRinging"

section \<open>Transitions\<close>

text \<open>\<open>TransitionOther\<close> stands for any string that is none of the declared constants; it takes
  the \<open>default\<close> branch.\<close>

datatype TransitionType =
    TransitionOfferSent
  | TransitionOfferReceived
  | TransitionLocalAccepted
  | TransitionRemoteAccepted
  | TransitionLocalRejected
  | TransitionRemoteRejected
  | TransitionMediaConnected
  | TransitionMediaLost
  | TransitionMediaRestored
  | TransitionTerminated
  | TransitionHold
  | TransitionResume
  | TransitionAudioMuteChanged
  | TransitionOther string

record Transition =
  tr_Type :: TransitionType
  tr_Reason :: EndCallReason
  tr_Muted :: bool
  tr_Silenced :: bool

datatype InvalidTransition = InvalidTransition (it_CurrentState: CallState) (it_Attempted: TransitionType)

text \<open>Go's integer division and \<open>int(d.Seconds())\<close> truncate towards zero.\<close>

definition go_quot :: "int \<Rightarrow> int \<Rightarrow> int" where
  "go_quot a b = sgn a * sgn b * (\<bar>a\<bar> div \<bar>b\<bar>)"

definition duration_secs :: "time \<Rightarrow> time \<Rightarrow> int" where
  "duration_secs now start = go_quot (now - start) 1000000000"

definition ApplyTransition_data ::
  "CallStateData \<Rightarrow> Transition \<Rightarrow> time \<Rightarrow> InvalidTransition + CallStateData" where
  "ApplyTransition_data s t now =
     (let st = sd_State s; invalid = Inl (InvalidTransition st (tr_Type t)) in
      case tr_Type t of
        TransitionOfferSent \<Rightarrow>
          if st \<noteq> CallStateInitiating then invalid
          else Inr (s\<lparr>sd_State := CallStateRinging\<rparr>)
      | TransitionOfferReceived \<Rightarrow>
          if st \<noteq> CallStateInitiating then invalid
          else Inr (s\<lparr>sd_State := CallStateIncomingRinging, sd_Silenced := tr_Silenced t\<rparr>)
      | TransitionRemoteAccepted \<Rightarrow>
          if st \<noteq> CallStateRinging then invalid
          else Inr (s\<lparr>sd_State := CallStateConnecting, sd_AcceptedAt := Some now\<rparr>)
      | TransitionLocalAccepted \<Rightarrow>
          if st \<noteq> CallStateIncomingRinging then invalid
          else Inr (s\<lparr>sd_State := CallStateConnecting, sd_AcceptedAt := Some now\<rparr>)
      | TransitionRemoteRejected \<Rightarrow>
          if st \<noteq> CallStateRinging then invalid
          else Inr (s\<lparr>sd_State := CallStateEnded, sd_EndedAt := Some now, sd_EndReason := tr_Reason t\<rparr>)
      | TransitionLocalRejected \<Rightarrow>
          if st \<noteq> CallStateIncomingRinging then invalid
          else Inr (s\<lparr>sd_State := CallStateEnded, sd_EndedAt := Some now, sd_EndReason := tr_Reason t\<rparr>)
      | TransitionMediaConnected \<Rightarrow>
          if st = CallStateOnHold then Inr (s\<lparr>sd_ConnectedAt := Some now, sd_VideoOff := True\<rparr>)
          else if st \<noteq> CallStateConnecting then invalid
          else Inr (s\<lparr>sd_State := CallStateActive, sd_ConnectedAt := Some now, sd_VideoOff := True\<rparr>)
      | TransitionMediaLost \<Rightarrow>
          if st \<noteq> CallStateActive \<and> st \<noteq> CallStateOnHold then invalid
          else Inr (s\<lparr>sd_State := CallStateReconnecting, sd_MediaLostAt := Some now\<rparr>)
      | TransitionMediaRestored \<Rightarrow>
          if st \<noteq> CallStateReconnecting then invalid
          else Inr (s\<lparr>sd_State := CallStateActive, sd_MediaLostAt := None\<rparr>)
      | TransitionTerminated \<Rightarrow>
          if st = CallStateEnded then invalid
          else
            let s1 = (case sd_ConnectedAt s of
                        Some at \<Rightarrow>
                          if st = CallStateActive \<or> st = CallStateOnHold \<or> st = CallStateReconnecting
                          then s\<lparr>sd_DurationSecs := duration_secs now at\<rparr> else s
                      | None \<Rightarrow> s)
            in Inr (s1\<lparr>sd_State := CallStateEnded, sd_EndedAt := Some now, sd_EndReason := tr_Reason t\<rparr>)
      | TransitionHold \<Rightarrow>
          if st \<noteq> CallStateActive \<and> st \<noteq> CallStateConnecting then invalid
          else Inr (s\<lparr>sd_State := CallStateOnHold\<rparr>)
      | TransitionResume \<Rightarrow>
          if st \<noteq> CallStateOnHold then invalid
          else Inr (s\<lparr>sd_State := CallStateActive\<rparr>)
      | TransitionAudioMuteChanged \<Rightarrow>
          if st \<noteq> CallStateActive then invalid
          else Inr (s\<lparr>sd_AudioMuted := tr_Muted t\<rparr>)
      | TransitionOther _ \<Rightarrow> invalid)"

definition ApplyTransition :: "CallInfo \<Rightarrow> Transition \<Rightarrow> time \<Rightarrow> InvalidTransition + CallInfo" where
  "ApplyTransition c t now =
     (case ApplyTransition_data (ci_StateData c) t now of
        Inl e \<Rightarrow> Inl e
      | Inr s \<Rightarrow> Inr (c\<lparr>ci_StateData := s\<rparr>))"

abbreviation transition :: "TransitionType \<Rightarrow> Transition" where
  "transition ty \<equiv> \<lparr>tr_Type = ty, tr_Reason = '''', tr_Muted = False, tr_Silenced = False\<rparr>"

abbreviation transition_reason :: "TransitionType \<Rightarrow> EndCallReason \<Rightarrow> Transition" where
  "transition_reason ty r \<equiv> \<lparr>tr_Type = ty, tr_Reason = r, tr_Muted = False, tr_Silenced = False\<rparr>"

section \<open>Phase deadlines\<close>

record Timeouts =
  to_Ring :: int
  to_Answer :: int
  to_MediaConnect :: int
  to_MediaInactivity :: int
  to_ReconnectGrace :: int
  to_MaxDuration :: int

abbreviation second :: int where "second \<equiv> 1000000000"

definition DefaultTimeouts :: Timeouts where
  "DefaultTimeouts =
     \<lparr>to_Ring = 60 * second, to_Answer = 60 * second, to_MediaConnect = 30 * second,
      to_MediaInactivity = 5 * second, to_ReconnectGrace = 75 * second,
      to_MaxDuration = 4 * 3600 * second\<rparr>"

definition phaseDeadline :: "CallInfo \<Rightarrow> Timeouts \<Rightarrow> time option" where
  "phaseDeadline c t =
     (let s = ci_StateData c in
      case sd_State s of
        CallStateInitiating \<Rightarrow> if to_Answer t \<le> 0 then None else Some (ci_CreatedAt c + to_Answer t)
      | CallStateRinging \<Rightarrow> if to_Answer t \<le> 0 then None else Some (ci_CreatedAt c + to_Answer t)
      | CallStateIncomingRinging \<Rightarrow> if to_Ring t \<le> 0 then None else Some (ci_CreatedAt c + to_Ring t)
      | CallStateConnecting \<Rightarrow>
          (case sd_AcceptedAt s of None \<Rightarrow> None
           | Some at \<Rightarrow> if to_MediaConnect t \<le> 0 then None else Some (at + to_MediaConnect t))
      | CallStateReconnecting \<Rightarrow>
          (case sd_MediaLostAt s of None \<Rightarrow> None
           | Some at \<Rightarrow> if to_ReconnectGrace t \<le> 0 then None else Some (at + to_ReconnectGrace t))
      | CallStateActive \<Rightarrow>
          (case sd_ConnectedAt s of None \<Rightarrow> None
           | Some at \<Rightarrow> if to_MaxDuration t \<le> 0 then None else Some (at + to_MaxDuration t))
      | CallStateOnHold \<Rightarrow>
          (case sd_ConnectedAt s of None \<Rightarrow> None
           | Some at \<Rightarrow> if to_MaxDuration t \<le> 0 then None else Some (at + to_MaxDuration t))
      | CallStateEnded \<Rightarrow> None)"

section \<open>Reachable calls\<close>

text \<open>A configuration is a call and the latest clock reading; any transition may be attempted at
  any later instant, and a rejected attempt leaves the call as it is.\<close>

type_synonym call_cfg = "CallInfo \<times> time"

inductive call_init :: "call_cfg \<Rightarrow> bool" where
  outgoing: "call_init (NewOutgoingCall cid peer our mt now, now)"
| incoming: "call_init (NewIncomingCall cid peer cr pn mt now, now)"

inductive call_step :: "call_cfg \<Rightarrow> call_cfg \<Rightarrow> bool" where
  applied: "now \<le> now' \<Longrightarrow> ApplyTransition c t now' = Inr c' \<Longrightarrow> call_step (c, now) (c', now')"
| rejected: "now \<le> now' \<Longrightarrow> ApplyTransition c t now' = Inl e \<Longrightarrow> call_step (c, now) (c, now')"

text \<open>The edges of the life cycle graph.\<close>

inductive call_edge :: "CallState \<Rightarrow> CallState \<Rightarrow> bool" where
  "call_edge CallStateInitiating CallStateRinging"
| "call_edge CallStateInitiating CallStateIncomingRinging"
| "call_edge CallStateRinging CallStateConnecting"
| "call_edge CallStateIncomingRinging CallStateConnecting"
| "call_edge CallStateConnecting CallStateActive"
| "call_edge CallStateConnecting CallStateOnHold"
| "call_edge CallStateActive CallStateOnHold"
| "call_edge CallStateOnHold CallStateActive"
| "call_edge CallStateActive CallStateReconnecting"
| "call_edge CallStateOnHold CallStateReconnecting"
| "call_edge CallStateReconnecting CallStateActive"
| "s \<noteq> CallStateEnded \<Longrightarrow> call_edge s CallStateEnded"
| "call_edge CallStateActive CallStateActive"
| "call_edge CallStateOnHold CallStateOnHold"

inductive_simps call_edge_from_Ended [simp]: "call_edge CallStateEnded s"

text \<open>The life cycle as a relation: one rule per successful branch of \<open>ApplyTransition\<close>, with
  what it writes.\<close>

inductive data_step :: "CallStateData \<Rightarrow> Transition \<Rightarrow> time \<Rightarrow> CallStateData \<Rightarrow> bool" where
  Ring: "sd_State s = CallStateInitiating \<Longrightarrow> data_step s t now (s\<lparr>sd_State := CallStateRinging\<rparr>)"
| Incoming: "sd_State s = CallStateInitiating \<Longrightarrow>
    data_step s t now (s\<lparr>sd_State := CallStateIncomingRinging, sd_Silenced := tr_Silenced t\<rparr>)"
| Accepted: "sd_State s \<in> {CallStateRinging, CallStateIncomingRinging} \<Longrightarrow>
    data_step s t now (s\<lparr>sd_State := CallStateConnecting, sd_AcceptedAt := Some now\<rparr>)"
| Rejected: "sd_State s \<in> {CallStateRinging, CallStateIncomingRinging} \<Longrightarrow>
    data_step s t now (s\<lparr>sd_State := CallStateEnded, sd_EndedAt := Some now, sd_EndReason := tr_Reason t\<rparr>)"
| ConnectedHeld: "sd_State s = CallStateOnHold \<Longrightarrow>
    data_step s t now (s\<lparr>sd_ConnectedAt := Some now, sd_VideoOff := True\<rparr>)"
| Connected: "sd_State s = CallStateConnecting \<Longrightarrow>
    data_step s t now (s\<lparr>sd_State := CallStateActive, sd_ConnectedAt := Some now, sd_VideoOff := True\<rparr>)"
| Lost: "sd_State s \<in> {CallStateActive, CallStateOnHold} \<Longrightarrow>
    data_step s t now (s\<lparr>sd_State := CallStateReconnecting, sd_MediaLostAt := Some now\<rparr>)"
| Restored: "sd_State s = CallStateReconnecting \<Longrightarrow>
    data_step s t now (s\<lparr>sd_State := CallStateActive, sd_MediaLostAt := None\<rparr>)"
| EndedConnected: "sd_State s \<noteq> CallStateEnded \<Longrightarrow> sd_ConnectedAt s = Some at \<Longrightarrow>
    data_step s t now (s\<lparr>sd_DurationSecs := duration_secs now at, sd_State := CallStateEnded,
      sd_EndedAt := Some now, sd_EndReason := tr_Reason t\<rparr>)"
| Ended: "sd_State s \<noteq> CallStateEnded \<Longrightarrow>
    data_step s t now (s\<lparr>sd_State := CallStateEnded, sd_EndedAt := Some now, sd_EndReason := tr_Reason t\<rparr>)"
| Held: "sd_State s \<in> {CallStateActive, CallStateConnecting} \<Longrightarrow>
    data_step s t now (s\<lparr>sd_State := CallStateOnHold\<rparr>)"
| Resumed: "sd_State s = CallStateOnHold \<Longrightarrow> data_step s t now (s\<lparr>sd_State := CallStateActive\<rparr>)"
| Muted: "sd_State s = CallStateActive \<Longrightarrow> data_step s t now (s\<lparr>sd_AudioMuted := tr_Muted t\<rparr>)"

definition opt_between :: "time \<Rightarrow> time option \<Rightarrow> time \<Rightarrow> bool" where
  "opt_between a x b = (case x of None \<Rightarrow> True | Some t \<Rightarrow> a \<le> t \<and> t \<le> b)"

definition opt_leq :: "time option \<Rightarrow> time option \<Rightarrow> bool" where
  "opt_leq x y = (case x of None \<Rightarrow> True | Some a \<Rightarrow> (case y of None \<Rightarrow> True | Some b \<Rightarrow> a \<le> b))"

text \<open>What holds of every reachable call: the time stamps a state promises are set
  (\<open>stamps_inv\<close>), they are ordered (\<open>order_inv\<close>), and only ended calls have a duration.\<close>

definition stamps_inv :: "CallStateData \<Rightarrow> bool" where
  "stamps_inv s \<longleftrightarrow>
     (sd_ConnectedAt s \<noteq> None \<longrightarrow> sd_AcceptedAt s \<noteq> None) \<and>
     (case sd_State s of
        CallStateInitiating \<Rightarrow> sd_AcceptedAt s = None \<and> sd_ConnectedAt s = None \<and> sd_EndedAt s = None
      | CallStateRinging \<Rightarrow> sd_AcceptedAt s = None \<and> sd_ConnectedAt s = None \<and> sd_EndedAt s = None
      | CallStateIncomingRinging \<Rightarrow> sd_AcceptedAt s = None \<and> sd_ConnectedAt s = None \<and> sd_EndedAt s = None
      | CallStateConnecting \<Rightarrow> sd_AcceptedAt s \<noteq> None \<and> sd_ConnectedAt s = None \<and> sd_EndedAt s = None
      | CallStateActive \<Rightarrow> sd_AcceptedAt s \<noteq> None \<and> sd_EndedAt s = None
      | CallStateOnHold \<Rightarrow> sd_AcceptedAt s \<noteq> None \<and> sd_EndedAt s = None
      | CallStateReconnecting \<Rightarrow> sd_AcceptedAt s \<noteq> None \<and> sd_MediaLostAt s \<noteq> None \<and> sd_EndedAt s = None
      | CallStateEnded \<Rightarrow> sd_EndedAt s \<noteq> None)"

definition order_inv :: "time \<Rightarrow> CallStateData \<Rightarrow> time \<Rightarrow> bool" where
  "order_inv created s now \<longleftrightarrow>
     created \<le> now \<and>
     opt_between created (sd_AcceptedAt s) now \<and>
     opt_between created (sd_ConnectedAt s) now \<and>
     opt_between created (sd_MediaLostAt s) now \<and>
     opt_between created (sd_EndedAt s) now \<and>
     opt_leq (sd_AcceptedAt s) (sd_ConnectedAt s) \<and>
     opt_leq (sd_AcceptedAt s) (sd_EndedAt s) \<and>
     opt_leq (sd_ConnectedAt s) (sd_EndedAt s)"

definition duration_inv :: "CallStateData \<Rightarrow> bool" where
  "duration_inv s \<longleftrightarrow> 0 \<le> sd_DurationSecs s \<and> (sd_State s \<noteq> CallStateEnded \<longrightarrow> sd_DurationSecs s = 0)"

definition call_inv :: "call_cfg \<Rightarrow> bool" where
  "call_inv cfg \<longleftrightarrow>
     stamps_inv (ci_StateData (fst cfg)) \<and>
     order_inv (ci_CreatedAt (fst cfg)) (ci_StateData (fst cfg)) (snd cfg) \<and>
     duration_inv (ci_StateData (fst cfg))"

section \<open>Lemmas\<close>

lemmas apply_defs = ApplyTransition_def ApplyTransition_data_def Let_def

lemma go_quot_nonneg: "0 \<le> a \<Longrightarrow> 0 < b \<Longrightarrow> 0 \<le> go_quot a b"
  by (cases "a = 0") (auto simp: go_quot_def pos_imp_zdiv_nonneg_iff)

lemma duration_secs_nonneg: "start \<le> now \<Longrightarrow> 0 \<le> duration_secs now start"
  by (simp add: duration_secs_def go_quot_nonneg)

lemma ApplyTransition_frame:
  "ApplyTransition c t now = Inr c' \<Longrightarrow> c' = c\<lparr>ci_StateData := ci_StateData c'\<rparr>"
  by (auto simp: ApplyTransition_def split: sum.splits)

lemma ApplyTransition_data_step:
  "ApplyTransition_data s t now = Inr s' \<Longrightarrow> data_step s t now s'"
  by (cases "tr_Type t")
     (simp_all add: ApplyTransition_data_def Let_def split: if_split_asm option.split_asm;
      auto intro: data_step.intros)+

lemma ApplyTransition_InrE:
  assumes "ApplyTransition c t now = Inr c'"
  obtains s' where "ApplyTransition_data (ci_StateData c) t now = Inr s'" "c' = c\<lparr>ci_StateData := s'\<rparr>"
  using assms by (auto simp: ApplyTransition_def split: sum.splits)

lemma ApplyTransition_edge:
  assumes "ApplyTransition c t now = Inr c'"
  shows "call_edge (call_state c) (call_state c')"
  using assms
  by (elim ApplyTransition_InrE) (auto dest!: ApplyTransition_data_step elim!: data_step.cases intro: call_edge.intros)

lemma ApplyTransition_Ended: "call_state c = CallStateEnded \<Longrightarrow>
   ApplyTransition c t now = Inl (InvalidTransition CallStateEnded (tr_Type t))"
  by (cases "tr_Type t") (simp_all add: apply_defs)

lemma ApplyTransition_error:
  "ApplyTransition c t now = Inl e \<Longrightarrow> e = InvalidTransition (call_state c) (tr_Type t)"
  by (cases "tr_Type t") (simp_all add: apply_defs split: if_splits option.splits)

lemma ApplyTransition_Terminated:
  "call_state c \<noteq> CallStateEnded \<Longrightarrow> tr_Type t = TransitionTerminated \<Longrightarrow>
   \<exists>c'. ApplyTransition c t now = Inr c' \<and> call_state c' = CallStateEnded \<and>
        sd_EndedAt (ci_StateData c') = Some now \<and> sd_EndReason (ci_StateData c') = tr_Reason t"
  by (auto simp: apply_defs split: option.splits)

section \<open>The invariant of reachable calls\<close>

lemma opt_between_simps [simp]:
  "opt_between a None b" "opt_between a (Some t) b \<longleftrightarrow> a \<le> t \<and> t \<le> b"
  by (simp_all add: opt_between_def)

lemma opt_leq_simps [simp]:
  "opt_leq None y" "opt_leq x None" "opt_leq (Some a) (Some b) \<longleftrightarrow> a \<le> b"
  by (auto simp: opt_leq_def split: option.split)

lemma opt_between_leq: "opt_between a x b \<Longrightarrow> opt_leq x (Some b)"
  by (auto simp: opt_between_def opt_leq_def split: option.splits)

lemma call_inv_init: "call_init cfg \<Longrightarrow> call_inv cfg"
  by (induction rule: call_init.induct)
     (simp_all add: call_inv_def stamps_inv_def order_inv_def duration_inv_def
        NewOutgoingCall_def NewIncomingCall_def initialStateData_def)

lemma order_inv_later: "order_inv cr s now \<Longrightarrow> now \<le> now' \<Longrightarrow> order_inv cr s now'"
  by (auto simp: order_inv_def opt_between_def split: option.splits)

lemma stamps_live: "stamps_inv s \<Longrightarrow> sd_State s \<noteq> CallStateEnded \<Longrightarrow> sd_EndedAt s = None"
  by (auto simp: stamps_inv_def split: CallState.split_asm)

lemma stamps_ringing:
  "stamps_inv s \<Longrightarrow> sd_State s \<in> {CallStateRinging, CallStateIncomingRinging} \<Longrightarrow>
   sd_ConnectedAt s = None \<and> sd_AcceptedAt s = None"
  by (auto simp: stamps_inv_def)

lemma stamps_inv_step: "data_step s t now s' \<Longrightarrow> stamps_inv s \<Longrightarrow> stamps_inv s'"
  by (induction rule: data_step.induct) (auto simp: stamps_inv_def)

lemma order_inv_step: "data_step s t now s' \<Longrightarrow> stamps_inv s \<Longrightarrow> order_inv cr s now \<Longrightarrow> order_inv cr s' now"
  by (induction rule: data_step.induct)
     (auto simp: order_inv_def stamps_live stamps_ringing opt_between_leq)

lemma duration_inv_step:
  "data_step s t now s' \<Longrightarrow> order_inv cr s now \<Longrightarrow> duration_inv s \<Longrightarrow> duration_inv s'"
  by (induction rule: data_step.induct)
     (auto simp: duration_inv_def order_inv_def opt_between_def duration_secs_nonneg)

lemma call_inv_apply:
  assumes "call_inv (c, now)" "now \<le> now'" "ApplyTransition c t now' = Inr c'"
  shows "call_inv (c', now')"
proof -
  from assms(3) obtain s' where s': "data_step (ci_StateData c) t now' s'" "c' = c\<lparr>ci_StateData := s'\<rparr>"
    by (auto elim!: ApplyTransition_InrE dest: ApplyTransition_data_step)
  have "order_inv (ci_CreatedAt c) (ci_StateData c) now'"
    using assms(1,2) by (auto simp: call_inv_def intro: order_inv_later)
  with assms(1) s' show ?thesis
    by (auto simp: call_inv_def intro: stamps_inv_step order_inv_step duration_inv_step)
qed

lemma call_inv_step: "call_inv cfg \<Longrightarrow> call_step cfg cfg' \<Longrightarrow> call_inv cfg'"
  by (erule call_step.cases) (auto intro: call_inv_apply, auto simp: call_inv_def intro: order_inv_later)

interpretation call_fsm: invariant_system call_init call_step call_inv
  by unfold_locales (fact call_inv_init, fact call_inv_step)

lemma call_step_Ended:
  "call_step (c, now) (c', now') \<Longrightarrow> IsEnded c \<Longrightarrow> c' = c"
  by (erule call_step.cases) (auto simp: IsEnded_def ApplyTransition_Ended)

lemma call_steps_Ended:
  "call_step\<^sup>*\<^sup>* cfg cfg' \<Longrightarrow> IsEnded (fst cfg) \<Longrightarrow> fst cfg' = fst cfg"
proof (induction rule: rtranclp_induct)
  case (step cfg1 cfg2)
  then show ?case by (cases cfg1; cases cfg2) (auto dest: call_step_Ended)
qed simp

lemma phaseDeadline_None_iff:
  assumes "stamps_inv (ci_StateData c)"
  shows "phaseDeadline c DefaultTimeouts = None \<longleftrightarrow>
     IsEnded c \<or> (call_state c \<in> {CallStateActive, CallStateOnHold} \<and> sd_ConnectedAt (ci_StateData c) = None)"
  using assms
  by (cases "call_state c")
     (auto simp: phaseDeadline_def DefaultTimeouts_def IsEnded_def stamps_inv_def split: option.split)

text \<open>An accepted call that is held and resumed before its media connects.\<close>

definition resumed_before_media :: call_cfg where
  "resumed_before_media =
     (let c0 = NewIncomingCall ''id'' ''peer@s'' ''peer@s'' '''' CallMediaTypeAudio 0 in
      (c0\<lparr>ci_StateData := (ci_StateData c0)\<lparr>sd_AcceptedAt := Some 1, sd_State := CallStateActive\<rparr>\<rparr>, 3))"

lemma reach_resumed_before_media: "reach call_init call_step resumed_before_media"
proof -
  let ?c0 = "NewIncomingCall ''id'' ''peer@s'' ''peer@s'' '''' CallMediaTypeAudio 0"
  let ?c1 = "?c0\<lparr>ci_StateData := (ci_StateData ?c0)\<lparr>sd_State := CallStateConnecting, sd_AcceptedAt := Some 1\<rparr>\<rparr>"
  let ?c2 = "?c1\<lparr>ci_StateData := (ci_StateData ?c1)\<lparr>sd_State := CallStateOnHold\<rparr>\<rparr>"
  have "reach call_init call_step (?c0, 0)" by (intro reach_init call_init.incoming)
  moreover have "call_step (?c0, 0) (?c1, 1)"
    by (rule call_step.applied [where t = "transition TransitionLocalAccepted"])
       (simp_all add: apply_defs NewIncomingCall_def initialStateData_def)
  moreover have "call_step (?c1, 1) (?c2, 2)"
    by (rule call_step.applied [where t = "transition TransitionHold"])
       (simp_all add: apply_defs NewIncomingCall_def initialStateData_def)
  moreover have "call_step (?c2, 2) resumed_before_media"
    unfolding resumed_before_media_def Let_def
    by (rule call_step.applied [where t = "transition TransitionResume"])
       (simp_all add: apply_defs NewIncomingCall_def initialStateData_def)
  ultimately show ?thesis by (blast intro: reach_step)
qed

section \<open>Properties\<close>

text \<open>
  Claim C36. Every call record reachable by any sequence of attempted transitions, under a clock
  that does not run backwards, satisfies the life cycle invariant: exactly the ended calls have
  an end time, a connecting or connected call has an accept time, no call is connected before it
  was accepted, created, accepted, connected and ended times are in that order and not in the
  future, and the duration is zero until the call ends and never negative.
\<close>

theorem call_lifecycle_invariant: "reach call_init call_step cfg \<Longrightarrow> call_inv cfg"
  by (rule call_fsm.reach_inv)

theorem call_lifecycle_invariant_witness:
  "reach call_init call_step resumed_before_media \<and> call_inv resumed_before_media"
  using reach_resumed_before_media call_lifecycle_invariant [OF reach_resumed_before_media] by simp

text \<open>
  An ended call is final: whatever transitions are attempted afterwards, the record,
  with its end reason, end time and duration, never changes again.
\<close>

theorem ended_call_is_final:
  "IsEnded c \<Longrightarrow> call_step\<^sup>*\<^sup>* (c, now) (c', now') \<Longrightarrow> c' = c"
  using call_steps_Ended by fastforce

theorem ended_call_is_final_witness:
  "\<exists>d. IsEnded d \<and> call_step\<^sup>*\<^sup>* (d, 0) (d, 5)"
proof -
  define d where "d = (let c = NewOutgoingCall ''id'' ''p'' ''o'' CallMediaTypeAudio 0
     in c\<lparr>ci_StateData := (ci_StateData c)\<lparr>sd_State := CallStateEnded\<rparr>\<rparr>)"
  have e: "IsEnded d" by (simp add: d_def IsEnded_def Let_def NewOutgoingCall_def initialStateData_def)
  obtain d' where st: "call_step (d, 0) (d', 5)"
    using call_step.rejected [of 0 5 d "transition TransitionHold"] e
    by (auto simp: IsEnded_def ApplyTransition_Ended)
  then have "d' = d" using ended_call_is_final [OF e] by blast
  with e st show ?thesis by blast
qed

text \<open>
  With the default timeouts the watchdog has a deadline for a reachable call exactly
  unless the call has ended, or is active or on hold without ever having had its media connected.
\<close>

theorem watchdog_deadline_coverage:
  "reach call_init call_step (c, now) \<Longrightarrow>
   phaseDeadline c DefaultTimeouts = None \<longleftrightarrow>
     IsEnded c \<or> (call_state c \<in> {CallStateActive, CallStateOnHold} \<and> sd_ConnectedAt (ci_StateData c) = None)"
  using call_fsm.reach_inv phaseDeadline_None_iff by (fastforce simp: call_inv_def)

theorem watchdog_deadline_coverage_witness:
  "reach call_init call_step resumed_before_media \<and>
   phaseDeadline (fst resumed_before_media) DefaultTimeouts = None"
  using reach_resumed_before_media
    watchdog_deadline_coverage [of "fst resumed_before_media" "snd resumed_before_media"]
  by (simp add: resumed_before_media_def Let_def NewIncomingCall_def initialStateData_def)

text \<open>
  Hold followed by resume while a call is still connecting makes it active although no
  media ever connected: such a call is reachable, it has no connect time, the watchdog has no
  deadline for it, and the later media-connected transition is refused, so it stays without one.
\<close>

theorem hold_resume_before_media_is_unbounded:
  "\<exists>c now. reach call_init call_step (c, now) \<and> IsActive c \<and>
     sd_ConnectedAt (ci_StateData c) = None \<and> phaseDeadline c DefaultTimeouts = None \<and>
     (\<forall>now'. ApplyTransition c (transition TransitionMediaConnected) now' =
        Inl (InvalidTransition CallStateActive TransitionMediaConnected))"
proof (intro exI conjI)
  show "reach call_init call_step (fst resumed_before_media, snd resumed_before_media)"
    using reach_resumed_before_media by simp
qed (simp_all add: resumed_before_media_def Let_def IsActive_def phaseDeadline_def apply_defs
       NewIncomingCall_def initialStateData_def)

end
