(* ===== verification/Rtp.thy ===== *)
theory Rtp
  imports Core_Types
begin

text \<open>
  RTP packets and sessions: \<^verbatim>\<open>internal/voip/media/rtp.go\<close>. The header codec is modelled on the
  caller's buffer, store by store. The lemmas give the bytes an encoded packet consists of, the
  encode/decode round trip of well-formed packets, which inputs make the packet decoder panic,
  and the sequence numbers and timestamps a session hands out, with their wrap-around.
\<close>

section \<open>Headers\<close>

definition rtpVersion :: u8 where "rtpVersion = 2"
definition rtpMinHeaderSize :: nat where "rtpMinHeaderSize = 12"

record RtpHeader =
  rh_Version :: u8
  rh_Padding :: bool
  rh_Extension :: bool
  rh_CsrcCount :: u8
  rh_Marker :: bool
  rh_PayloadType :: u8
  rh_SequenceNumber :: u16
  rh_Timestamp :: u32
  rh_Ssrc :: u32
  rh_Csrc :: "u32 list"
  rh_ExtensionProfile :: u16
  rh_ExtensionData :: bytes

datatype RtpError = HeaderBufferTooSmall | InvalidRtpVersion | CsrcBufferTooSmall

definition boolBit :: "bool \<Rightarrow> u8" where
  "boolBit b = (if b then 1 else 0)"

definition NewRtpHeader :: "u8 \<Rightarrow> u16 \<Rightarrow> u32 \<Rightarrow> u32 \<Rightarrow> RtpHeader" where
  "NewRtpHeader payloadType seq ts ssrc =
     \<lparr>rh_Version = rtpVersion, rh_Padding = False, rh_Extension = False, rh_CsrcCount = 0,
      rh_Marker = False, rh_PayloadType = payloadType, rh_SequenceNumber = seq,
      rh_Timestamp = ts, rh_Ssrc = ssrc, rh_Csrc = [], rh_ExtensionProfile = 0,
      rh_ExtensionData = []\<rparr>"

definition RtpHeader_Size :: "RtpHeader \<Rightarrow> nat" where
  "RtpHeader_Size h =
     rtpMinHeaderSize + unat (rh_CsrcCount h) * 4 +
     (if rh_Extension h then 4 + length (rh_ExtensionData h) else 0)"

definition rtp_byte0 :: "RtpHeader \<Rightarrow> u8" where
  "rtp_byte0 h = push_bit 6 (rh_Version h AND 3) OR push_bit 5 (boolBit (rh_Padding h)) OR
     push_bit 4 (boolBit (rh_Extension h)) OR (rh_CsrcCount h AND 0x0f)"

definition rtp_byte1 :: "RtpHeader \<Rightarrow> u8" where
  "rtp_byte1 h = push_bit 7 (boolBit (rh_Marker h)) OR (rh_PayloadType h AND 0x7f)"

text \<open>The loop storing the CSRC list; it returns the buffer and the offset behind the list.\<close>

fun put_uint32s :: "bytes \<Rightarrow> nat \<Rightarrow> u32 list \<Rightarrow> (bytes \<times> nat) go" where
  "put_uint32s buf off [] = Some (buf, off)"
| "put_uint32s buf off (c # cs) = do { buf \<leftarrow> write_at buf off (be32 c); put_uint32s buf (off + 4) cs }"

definition put_extension :: "RtpHeader \<Rightarrow> bytes \<Rightarrow> nat \<Rightarrow> bytes go" where
  "put_extension h buf offset = do {
     buf \<leftarrow> write_at buf offset (be16 (rh_ExtensionProfile h));
     buf \<leftarrow> write_at buf (offset + 2) (be16 (of_nat (length (rh_ExtensionData h) div 4)));
     copy_at buf (offset + 4) (rh_ExtensionData h) }"

definition RtpHeader_Encode :: "RtpHeader \<Rightarrow> bytes \<Rightarrow> (RtpError + bytes \<times> nat) go" where
  "RtpHeader_Encode h buf =
     (if length buf < RtpHeader_Size h then Some (Inl HeaderBufferTooSmall)
      else do {
        buf \<leftarrow> write_at buf 0 [rtp_byte0 h];
        buf \<leftarrow> write_at buf 1 [rtp_byte1 h];
        buf \<leftarrow> write_at buf 2 (be16 (rh_SequenceNumber h));
        buf \<leftarrow> write_at buf 4 (be32 (rh_Timestamp h));
        buf \<leftarrow> write_at buf 8 (be32 (rh_Ssrc h));
        (buf, offset) \<leftarrow> put_uint32s buf 12 (rh_Csrc h);
        buf \<leftarrow> (if rh_Extension h then put_extension h buf offset else Some buf);
        Some (Inr (buf, RtpHeader_Size h))
      })"

fun get_uint32s :: "bytes \<Rightarrow> nat \<Rightarrow> nat \<Rightarrow> u32 list go" where
  "get_uint32s buf off 0 = Some []"
| "get_uint32s buf off (Suc n) = do {
     c \<leftarrow> be_uint32 buf off; cs \<leftarrow> get_uint32s buf (off + 4) n; Some (c # cs) }"

definition decode_extension :: "bytes \<Rightarrow> nat \<Rightarrow> RtpHeader \<Rightarrow> RtpHeader go" where
  "decode_extension buf offset h =
     (if rh_Extension h \<and> offset + 4 \<le> length buf then do {
        profile \<leftarrow> be_uint16 buf offset;
        extWords \<leftarrow> be_uint16 buf (offset + 2);
        let extBytes = unat extWords * 4;
        let h = h\<lparr>rh_ExtensionProfile := profile\<rparr>;
        if offset + 4 + extBytes \<le> length buf then do {
          d \<leftarrow> slice buf (offset + 4) (offset + 4 + extBytes);
          Some (h\<lparr>rh_ExtensionData := d\<rparr>)
        } else Some h
      } else Some h)"

definition DecodeRtpHeader :: "bytes \<Rightarrow> (RtpError + RtpHeader) go" where
  "DecodeRtpHeader buf =
     (if length buf < rtpMinHeaderSize then Some (Inl HeaderBufferTooSmall)
      else do {
        b0 \<leftarrow> idx buf 0;
        let version = drop_bit 6 b0 AND 3;
        if version \<noteq> rtpVersion then Some (Inl InvalidRtpVersion)
        else do {
          b1 \<leftarrow> idx buf 1;
          seq \<leftarrow> be_uint16 buf 2;
          ts \<leftarrow> be_uint32 buf 4;
          ssrc \<leftarrow> be_uint32 buf 8;
          let h = \<lparr>rh_Version = version, rh_Padding = (drop_bit 5 b0 AND 1 \<noteq> 0),
                   rh_Extension = (drop_bit 4 b0 AND 1 \<noteq> 0), rh_CsrcCount = b0 AND 0x0f,
                   rh_Marker = (drop_bit 7 b1 AND 1 \<noteq> 0), rh_PayloadType = b1 AND 0x7f,
                   rh_SequenceNumber = seq, rh_Timestamp = ts, rh_Ssrc = ssrc, rh_Csrc = [],
                   rh_ExtensionProfile = 0, rh_ExtensionData = []\<rparr>;
          let n = unat (rh_CsrcCount h);
          if length buf < rtpMinHeaderSize + n * 4 then Some (Inl CsrcBufferTooSmall)
          else do {
            cs \<leftarrow> get_uint32s buf 12 n;
            let h = h\<lparr>rh_Csrc := cs\<rparr>;
            h \<leftarrow> decode_extension buf (12 + n * 4) h;
            Some (Inr h)
          }
        }
      })"

section \<open>Packets\<close>

record RtpPacket =
  rp_Header :: RtpHeader
  rp_Payload :: bytes

definition RtpPacket_Size :: "RtpPacket \<Rightarrow> nat" where
  "RtpPacket_Size p = RtpHeader_Size (rp_Header p) + length (rp_Payload p)"

definition RtpPacket_Encode :: "RtpPacket \<Rightarrow> (RtpError + bytes) go" where
  "RtpPacket_Encode p =
     go_try (RtpHeader_Encode (rp_Header p) (replicate (RtpPacket_Size p) 0))
       (\<lambda>(buf, headerSize). do { buf \<leftarrow> copy_at buf headerSize (rp_Payload p); Some (Inr buf) })"

definition DecodeRtpPacket :: "bytes \<Rightarrow> (RtpError + RtpPacket) go" where
  "DecodeRtpPacket buf =
     go_try (DecodeRtpHeader buf)
       (\<lambda>header. do {
          payload \<leftarrow> slice_from buf (RtpHeader_Size header);
          Some (Inr \<lparr>rp_Header = header, rp_Payload = payload\<rparr>) })"

definition RTPSsrc :: "bytes \<Rightarrow> u32 go" where
  "RTPSsrc data = do {
     a \<leftarrow> idx data 8; b \<leftarrow> idx data 9; c \<leftarrow> idx data 10; d \<leftarrow> idx data 11;
     Some (push_bit 24 (ucast a) OR push_bit 16 (ucast b) OR push_bit 8 (ucast c) OR ucast d) }"

section \<open>Sessions\<close>

record RtpSession =
  rs_ssrc :: u32
  rs_payloadType :: u8
  rs_sequenceNumber :: u16
  rs_sampleRate :: int
  rs_timestamp :: u32
  rs_samplesPerPacket :: int

text \<open>The two random draws of \<open>NewRtpSession\<close> are arguments.\<close>

definition NewRtpSession :: "u32 \<Rightarrow> u8 \<Rightarrow> int \<Rightarrow> int \<Rightarrow> u16 \<Rightarrow> u32 \<Rightarrow> RtpSession" where
  "NewRtpSession ssrc payloadType sampleRate samplesPerPacket randSeq randTs =
     \<lparr>rs_ssrc = ssrc, rs_payloadType = payloadType, rs_sequenceNumber = randSeq,
      rs_sampleRate = sampleRate, rs_timestamp = randTs, rs_samplesPerPacket = samplesPerPacket\<rparr>"

definition NewWhatsAppOpusSession :: "u32 \<Rightarrow> u16 \<Rightarrow> u32 \<Rightarrow> RtpSession" where
  "NewWhatsAppOpusSession ssrc = NewRtpSession ssrc PayloadTypeWhatsAppOpus 16000 960"

definition NewWhatsAppH264Session :: "u32 \<Rightarrow> u16 \<Rightarrow> u32 \<Rightarrow> RtpSession" where
  "NewWhatsAppH264Session ssrc = NewRtpSession ssrc PayloadTypeWhatsAppH264 90000 0"

definition CreatePacketAt :: "RtpSession \<Rightarrow> bytes \<Rightarrow> u32 \<Rightarrow> bool \<Rightarrow> RtpPacket \<times> RtpSession" where
  "CreatePacketAt s payload ts marker =
     (let header = NewRtpHeader (rs_payloadType s) (rs_sequenceNumber s) ts (rs_ssrc s);
          header = header\<lparr>rh_Marker := marker\<rparr>
      in (\<lparr>rp_Header = header, rp_Payload = payload\<rparr>,
          s\<lparr>rs_sequenceNumber := rs_sequenceNumber s + 1\<rparr>))"

definition CreatePacketWithDuration ::
  "RtpSession \<Rightarrow> bytes \<Rightarrow> int \<Rightarrow> bool \<Rightarrow> RtpPacket \<times> RtpSession" where
  "CreatePacketWithDuration s payload durationSamples marker =
     (let header = NewRtpHeader (rs_payloadType s) (rs_sequenceNumber s) (rs_timestamp s) (rs_ssrc s);
          header = header\<lparr>rh_Marker := marker\<rparr>
      in (\<lparr>rp_Header = header, rp_Payload = payload\<rparr>,
          s\<lparr>rs_sequenceNumber := rs_sequenceNumber s + 1,
            rs_timestamp := rs_timestamp s + of_int durationSamples\<rparr>))"

definition CreatePacket :: "RtpSession \<Rightarrow> bytes \<Rightarrow> bool \<Rightarrow> RtpPacket \<times> RtpSession" where
  "CreatePacket s payload marker = CreatePacketWithDuration s payload (rs_samplesPerPacket s) marker"

definition AdvanceTimestamp :: "RtpSession \<Rightarrow> u32 \<Rightarrow> RtpSession" where
  "AdvanceTimestamp s samples = s\<lparr>rs_timestamp := rs_timestamp s + samples\<rparr>"

section \<open>The bytes of a well-formed packet\<close>

definition rtp_wf :: "RtpHeader \<Rightarrow> bool" where
  "rtp_wf h \<longleftrightarrow>
     rh_Version h = rtpVersion \<and> unat (rh_CsrcCount h) = length (rh_Csrc h) \<and> length (rh_Csrc h) < 16 \<and>
     unat (rh_PayloadType h) < 128 \<and>
     (if rh_Extension h
      then length (rh_ExtensionData h) mod 4 = 0 \<and> length (rh_ExtensionData h) div 4 < 65536
      else rh_ExtensionProfile h = 0 \<and> rh_ExtensionData h = [])"

definition rtp_fixed_bytes :: "RtpHeader \<Rightarrow> bytes" where
  "rtp_fixed_bytes h = [rtp_byte0 h, rtp_byte1 h] @ be16 (rh_SequenceNumber h) @
     be32 (rh_Timestamp h) @ be32 (rh_Ssrc h)"

definition rtp_ext_bytes :: "RtpHeader \<Rightarrow> bytes" where
  "rtp_ext_bytes h = (if rh_Extension h then be16 (rh_ExtensionProfile h) @
     be16 (of_nat (length (rh_ExtensionData h) div 4)) @ rh_ExtensionData h else [])"

definition rtp_header_bytes :: "RtpHeader \<Rightarrow> bytes" where
  "rtp_header_bytes h = rtp_fixed_bytes h @ concat (map be32 (rh_Csrc h)) @ rtp_ext_bytes h"

lemma length_rtp_fixed_bytes [simp, byte_lens]: "length (rtp_fixed_bytes h) = 12"
  by (simp add: rtp_fixed_bytes_def)

lemma length_rtp_ext_bytes [simp, byte_lens]:
  "length (rtp_ext_bytes h) = (if rh_Extension h then 4 + length (rh_ExtensionData h) else 0)"
  by (simp add: rtp_ext_bytes_def)

lemma length_concat_be32 [simp, byte_lens]: "length (concat (map be32 cs)) = 4 * length cs"
  by (induction cs) auto

lemma length_rtp_header_bytes:
  "unat (rh_CsrcCount h) = length (rh_Csrc h) \<Longrightarrow> length (rtp_header_bytes h) = RtpHeader_Size h"
  by (simp add: rtp_header_bytes_def RtpHeader_Size_def rtpMinHeaderSize_def)

lemma put_uint32s_append:
  "length pre = off \<Longrightarrow> 4 * length cs \<le> length rest \<Longrightarrow>
   put_uint32s (pre @ rest) off cs =
     Some ((pre @ concat (map be32 cs)) @ drop (4 * length cs) rest, off + 4 * length cs)"
proof (induction cs arbitrary: pre off rest)
  case (Cons c cs)
  have "write_at (pre @ rest) off (be32 c) = Some ((pre @ be32 c) @ drop 4 rest)"
    using Cons.prems by (subst write_at_append) auto
  then show ?case using Cons.prems Cons.IH [of "pre @ be32 c" "off + 4" "drop 4 rest"]
    by (simp add: add.commute)
qed simp

lemma rtp_fixed_stores:
  assumes "12 \<le> length buf"
  shows "do { buf \<leftarrow> write_at buf 0 [rtp_byte0 h]; buf \<leftarrow> write_at buf 1 [rtp_byte1 h];
              buf \<leftarrow> write_at buf 2 (be16 (rh_SequenceNumber h));
              buf \<leftarrow> write_at buf 4 (be32 (rh_Timestamp h));
              buf \<leftarrow> write_at buf 8 (be32 (rh_Ssrc h)); f buf }
         = f (rtp_fixed_bytes h @ drop 12 buf)"
  using assms
  by (simp add: write_at_head write_at_append rtp_fixed_bytes_def del: append_assoc append.simps)
     (simp add: add.commute)

lemma put_extension_append:
  "length pre = off \<Longrightarrow> length (rh_ExtensionData h) + 4 \<le> length rest \<Longrightarrow>
   put_extension h (pre @ rest) off = Some ((pre @ be16 (rh_ExtensionProfile h) @
     be16 (of_nat (length (rh_ExtensionData h) div 4)) @ rh_ExtensionData h) @
     drop (length (rh_ExtensionData h) + 4) rest)"
  unfolding put_extension_def
  by (simp add: write_at_append copy_at_append add.commute add.left_commute flip: append_assoc)

lemma RtpHeader_Encode_bytes:
  assumes "unat (rh_CsrcCount h) = length (rh_Csrc h)" "RtpHeader_Size h \<le> length buf"
  shows "RtpHeader_Encode h buf =
    Some (Inr (rtp_header_bytes h @ drop (RtpHeader_Size h) buf, RtpHeader_Size h))"
proof -
  let ?c = "concat (map be32 (rh_Csrc h))" and ?n = "4 * length (rh_Csrc h)"
  have csrc: "put_uint32s (rtp_fixed_bytes h @ drop 12 buf) 12 (rh_Csrc h) =
     Some ((rtp_fixed_bytes h @ ?c) @ drop (12 + ?n) buf, 12 + ?n)"
    using assms by (subst put_uint32s_append) (auto simp: RtpHeader_Size_def rtpMinHeaderSize_def add.commute)
  have n: "RtpHeader_Size h = 12 + ?n + length (rtp_ext_bytes h)"
    using assms by (simp add: RtpHeader_Size_def rtpMinHeaderSize_def)
  have "(if rh_Extension h then put_extension h ((rtp_fixed_bytes h @ ?c) @ drop (12 + ?n) buf) (12 + ?n)
         else Some ((rtp_fixed_bytes h @ ?c) @ drop (12 + ?n) buf))
     = Some (rtp_header_bytes h @ drop (RtpHeader_Size h) buf)"
    using assms unfolding n
    by (cases "rh_Extension h")
       (simp_all add: put_extension_append [where pre = "rtp_fixed_bytes h @ ?c", simplified] rtp_header_bytes_def rtp_ext_bytes_def add.commute add.left_commute)
  with assms show ?thesis unfolding RtpHeader_Encode_def
    by (subst rtp_fixed_stores) (auto simp: csrc n)
qed

lemma RtpPacket_Encode_bytes:
  assumes "unat (rh_CsrcCount (rp_Header p)) = length (rh_Csrc (rp_Header p))"
  shows "RtpPacket_Encode p = Some (Inr (rtp_header_bytes (rp_Header p) @ rp_Payload p))"
  using assms length_rtp_header_bytes [OF assms]
  by (simp add: RtpPacket_Encode_def RtpHeader_Encode_bytes RtpPacket_Size_def copy_at_append)

lemma get_uint32s_append:
  "get_uint32s (pre @ concat (map be32 cs) @ rest) (length pre) (length cs) = Some cs"
proof (induction cs arbitrary: pre)
  case (Cons c cs)
  have "be_uint32 (pre @ be32 c @ concat (map be32 cs) @ rest) (length pre) = Some c"
    by (subst be_uint32_drop) (simp add: be_uint32_be32)
  then show ?case using Cons.IH [of "pre @ be32 c"] by simp
qed simp

lemma get_uint32s_total: "off + 4 * n \<le> length buf \<Longrightarrow> \<exists>cs. get_uint32s buf off n = Some cs \<and> length cs = n"
proof (induction n arbitrary: off)
  case (Suc n)
  from Suc.prems obtain cs where "get_uint32s buf (off + 4) n = Some cs" "length cs = n"
    using Suc.IH [of "off + 4"] by auto
  with Suc.prems show ?case by (simp add: be_uint32_nth)
qed simp

lemma rtp_byte0_fields:
  assumes "rh_Version h = rtpVersion" "unat (rh_CsrcCount h) < 16"
  shows "drop_bit 6 (rtp_byte0 h) AND 3 = rtpVersion"
    and "drop_bit 5 (rtp_byte0 h) AND 1 \<noteq> 0 \<longleftrightarrow> rh_Padding h"
    and "drop_bit 4 (rtp_byte0 h) AND 1 \<noteq> 0 \<longleftrightarrow> rh_Extension h"
    and "rtp_byte0 h AND 0x0f = rh_CsrcCount h"
proof -
  have c: "take_bit 4 (rh_CsrcCount h) = rh_CsrcCount h"
    using assms(2) by (simp add: take_bit_word_small)
  have v: "take_bit 2 rtpVersion = rtpVersion" "bit rtpVersion (Suc 0)" "\<not> bit rtpVersion 0"
    by (simp_all add: rtpVersion_def)
  have b: "bit (rtp_byte0 h) n \<longleftrightarrow> n < 8 \<and> (if n < 4 then bit (rh_CsrcCount h) n else
     if n = 4 then rh_Extension h else if n = 5 then rh_Padding h else bit rtpVersion (n - 6))" for n
    using assms(1) by (auto simp: rtp_byte0_def and_masks bit_simps boolBit_def)
  show "drop_bit 6 (rtp_byte0 h) AND 3 = rtpVersion"
    by (subst v(1) [symmetric], rule bit_word_eqI) (auto simp: and_masks bit_simps b)
  show "drop_bit 5 (rtp_byte0 h) AND 1 \<noteq> 0 \<longleftrightarrow> rh_Padding h"
    by (simp add: and_1_nonzero_iff bit_simps b)
  show "drop_bit 4 (rtp_byte0 h) AND 1 \<noteq> 0 \<longleftrightarrow> rh_Extension h"
    by (simp add: and_1_nonzero_iff bit_simps b)
  show "rtp_byte0 h AND 0x0f = rh_CsrcCount h"
    by (subst c [symmetric], rule bit_word_eqI) (auto simp: and_masks bit_simps b)
qed

lemma rtp_byte1_fields:
  assumes "unat (rh_PayloadType h) < 128"
  shows "drop_bit 7 (rtp_byte1 h) AND 1 \<noteq> 0 \<longleftrightarrow> rh_Marker h"
    and "rtp_byte1 h AND 0x7f = rh_PayloadType h"
proof -
  have c: "take_bit 7 (rh_PayloadType h) = rh_PayloadType h"
    using assms by (simp add: take_bit_word_small)
  have b: "bit (rtp_byte1 h) n \<longleftrightarrow> n < 8 \<and> (if n < 7 then bit (rh_PayloadType h) n else rh_Marker h)" for n
    by (auto simp: rtp_byte1_def and_masks bit_simps boolBit_def)
  show "drop_bit 7 (rtp_byte1 h) AND 1 \<noteq> 0 \<longleftrightarrow> rh_Marker h"
    by (simp add: and_1_nonzero_iff bit_simps b)
  show "rtp_byte1 h AND 0x7f = rh_PayloadType h"
    by (subst c [symmetric], rule bit_word_eqI) (auto simp: and_masks bit_simps b)
qed

section \<open>Decoding\<close>

lemma rtp_fixed_bytes_reads:
  "idx (rtp_fixed_bytes h @ r) 0 = Some (rtp_byte0 h)"
  "idx (rtp_fixed_bytes h @ r) (Suc 0) = Some (rtp_byte1 h)"
  "be_uint16 (rtp_fixed_bytes h @ r) 2 = Some (rh_SequenceNumber h)"
  "be_uint32 (rtp_fixed_bytes h @ r) 4 = Some (rh_Timestamp h)"
  "be_uint32 (rtp_fixed_bytes h @ r) 8 = Some (rh_Ssrc h)"
  unfolding rtp_fixed_bytes_def
  by (simp_all add: be_uint16_drop [of _ 2] be_uint32_drop [of _ 4] be_uint32_drop [of _ 8]
        be_uint16_be16 be_uint32_be32 idx_def)

lemma be_uint16_append: "length pre = off \<Longrightarrow> be_uint16 (pre @ be16 w @ r) off = Some w"
  by (subst be_uint16_drop) (simp add: be_uint16_be16)

lemma decode_extension_bytes:
  assumes "rtp_wf h"
  shows "decode_extension (pre @ rtp_ext_bytes h @ rest) (length pre)
    (h\<lparr>rh_ExtensionProfile := 0, rh_ExtensionData := []\<rparr>) = Some h"
proof (cases "rh_Extension h")
  case False
  with assms show ?thesis by (cases h) (simp add: decode_extension_def rtp_wf_def)
next
  case True
  let ?w = "of_nat (length (rh_ExtensionData h) div 4) :: u16"
  let ?buf = "pre @ be16 (rh_ExtensionProfile h) @ be16 ?w @ rh_ExtensionData h @ rest"
  from True assms have w: "unat ?w * 4 = length (rh_ExtensionData h)"
    by (simp add: rtp_wf_def unat_of_nat16) (metis dvd_div_mult_self mod_0_imp_dvd)
  have q: "be_uint16 ?buf (Suc (Suc (length pre))) = Some ?w"
    using be_uint16_append [of "pre @ be16 (rh_ExtensionProfile h)"] by simp
  have d: "slice ?buf (length pre + 4) (length pre + 4 + length (rh_ExtensionData h)) = Some (rh_ExtensionData h)"
    using slice_append_mid [of "length pre + 4" "pre @ be16 (rh_ExtensionProfile h) @ be16 ?w"] by simp
  from True show ?thesis
    by (simp add: decode_extension_def rtp_ext_bytes_def be_uint16_append q w d)
qed

text \<open>Decoding the bytes of a well-formed header followed by anything gives back the header.\<close>

lemma DecodeRtpHeader_bytes:
  assumes "rtp_wf h"
  shows "DecodeRtpHeader (rtp_header_bytes h @ rest) = Some (Inr h)"
proof -
  let ?c = "concat (map be32 (rh_Csrc h))"
  from assms have wf: "rh_Version h = rtpVersion" "unat (rh_CsrcCount h) = length (rh_Csrc h)"
      "length (rh_Csrc h) < 16" "unat (rh_PayloadType h) < 128"
    by (auto simp: rtp_wf_def)
  note f0 = rtp_byte0_fields [OF wf(1), unfolded wf(2), OF wf(3)] and f1 = rtp_byte1_fields [OF wf(4)]
  have cs: "get_uint32s (rtp_fixed_bytes h @ ?c @ r) 12 (length (rh_Csrc h)) = Some (rh_Csrc h)" for r
    using get_uint32s_append [of "rtp_fixed_bytes h" "rh_Csrc h" r] by simp
  have ext: "decode_extension (rtp_header_bytes h @ rest) (12 + length (rh_Csrc h) * 4)
      (h\<lparr>rh_ExtensionProfile := 0, rh_ExtensionData := []\<rparr>) = Some h"
    using decode_extension_bytes [OF assms, of "rtp_fixed_bytes h @ ?c" rest]
    by (simp add: rtp_header_bytes_def mult.commute)
  have h: "\<lparr>rh_Version = rtpVersion, rh_Padding = rh_Padding h, rh_Extension = rh_Extension h,
    rh_CsrcCount = rh_CsrcCount h, rh_Marker = rh_Marker h, rh_PayloadType = rh_PayloadType h,
    rh_SequenceNumber = rh_SequenceNumber h, rh_Timestamp = rh_Timestamp h, rh_Ssrc = rh_Ssrc h,
    rh_Csrc = rh_Csrc h, rh_ExtensionProfile = 0, rh_ExtensionData = []\<rparr>
    = h\<lparr>rh_ExtensionProfile := 0, rh_ExtensionData := []\<rparr>"
    using wf(1) by (cases h) simp
  show ?thesis
    using ext unfolding DecodeRtpHeader_def rtp_header_bytes_def append_assoc
    by (simp add: rtp_fixed_bytes_reads f0 f1 wf(2) cs rtpMinHeaderSize_def h)
qed

lemma rtp_wf_NewRtpHeader [simp]:
  "unat pt < 128 \<Longrightarrow> rtp_wf ((NewRtpHeader pt seq ts ssrc)\<lparr>rh_Marker := m\<rparr>)"
  by (simp add: rtp_wf_def NewRtpHeader_def rtpVersion_def)

text \<open>What the header decoder does on any buffer.\<close>

lemma decode_extension_cases:
  obtains h' where "decode_extension buf off h = Some h'" "rh_CsrcCount h' = rh_CsrcCount h"
    "rh_Extension h' = rh_Extension h" "rh_Csrc h' = rh_Csrc h"
    "rh_ExtensionData h' = rh_ExtensionData h \<or> off + 4 + length (rh_ExtensionData h') \<le> length buf"
proof (cases "rh_Extension h \<and> off + 4 \<le> length buf")
  case False
  then show thesis by (intro that [of h]) (auto simp: decode_extension_def)
next
  case True
  then obtain p w where pw: "be_uint16 buf off = Some p" "be_uint16 buf (off + 2) = Some w"
    using be_uint16_nth [of off buf] be_uint16_nth [of "off + 2" buf] by auto
  show thesis
  proof (cases "off + 4 + unat w * 4 \<le> length buf")
    case fits: True
    show thesis
      using True pw fits
      by (intro that [of "h\<lparr>rh_ExtensionProfile := p, rh_ExtensionData := take (unat w * 4) (drop (off + 4) buf)\<rparr>"])
         (simp_all add: decode_extension_def slice_def)
  next
    case False
    with True pw show thesis
      by (intro that [of "h\<lparr>rh_ExtensionProfile := p\<rparr>"]) (simp_all add: decode_extension_def)
  qed
qed

lemma rtp_reads_total:
  assumes "12 \<le> length buf"
  shows "\<exists>seq ts ssrc. be_uint16 buf 2 = Some seq \<and> be_uint32 buf 4 = Some ts \<and>
    be_uint32 buf 8 = Some ssrc \<and> idx buf 0 = Some (buf ! 0) \<and> idx buf (Suc 0) = Some (buf ! 1)"
proof -
  from assms have "buf \<noteq> []" by auto
  with assms show ?thesis by (simp add: be_uint16_nth be_uint32_nth idx_def)
qed

lemma DecodeRtpHeader_cases:
  obtains (short) "DecodeRtpHeader buf = Some (Inl HeaderBufferTooSmall)" "length buf < 12"
  | (version) "DecodeRtpHeader buf = Some (Inl InvalidRtpVersion)" "12 \<le> length buf"
      "drop_bit 6 (buf ! 0) AND 3 \<noteq> rtpVersion"
  | (csrc) "DecodeRtpHeader buf = Some (Inl CsrcBufferTooSmall)" "12 \<le> length buf"
      "drop_bit 6 (buf ! 0) AND 3 = rtpVersion"
      "length buf < 12 + unat (buf ! 0 AND 0x0f) * 4"
  | (ok) h where "DecodeRtpHeader buf = Some (Inr h)" "12 + unat (buf ! 0 AND 0x0f) * 4 \<le> length buf"
      "drop_bit 6 (buf ! 0) AND 3 = rtpVersion"
      "rh_CsrcCount h = buf ! 0 AND 0x0f" "rh_Extension h \<longleftrightarrow> drop_bit 4 (buf ! 0) AND 1 \<noteq> 0"
      "length (rh_Csrc h) = unat (rh_CsrcCount h)"
      "rh_ExtensionData h = [] \<or> RtpHeader_Size h \<le> length buf"
proof -
  let ?n = "unat (buf ! 0 AND 0x0f)"
  consider "length buf < 12"
    | "12 \<le> length buf" "drop_bit 6 (buf ! 0) AND 3 \<noteq> rtpVersion"
    | "12 \<le> length buf" "drop_bit 6 (buf ! 0) AND 3 = rtpVersion" "length buf < 12 + ?n * 4"
    | "drop_bit 6 (buf ! 0) AND 3 = rtpVersion" "12 + ?n * 4 \<le> length buf"
    by linarith
  then show thesis
  proof cases
    case 4
    then have len: "12 \<le> length buf" by linarith
    from 4 obtain cs where cs: "get_uint32s buf 12 ?n = Some cs" "length cs = ?n"
      using get_uint32s_total [of 12 ?n buf] by auto
    obtain seq ts ssrc where rd: "be_uint16 buf 2 = Some seq" "be_uint32 buf 4 = Some ts"
        "be_uint32 buf 8 = Some ssrc" "idx buf 0 = Some (buf ! 0)" "idx buf (Suc 0) = Some (buf ! 1)"
      using rtp_reads_total [OF len] by blast
    define h0 where "h0 = \<lparr>rh_Version = rtpVersion, rh_Padding = (drop_bit 5 (buf ! 0) AND 1 \<noteq> 0),
      rh_Extension = (drop_bit 4 (buf ! 0) AND 1 \<noteq> 0), rh_CsrcCount = buf ! 0 AND 0x0f,
      rh_Marker = (drop_bit 7 (buf ! 1) AND 1 \<noteq> 0), rh_PayloadType = buf ! 1 AND 0x7f,
      rh_SequenceNumber = seq, rh_Timestamp = ts, rh_Ssrc = ssrc, rh_Csrc = cs,
      rh_ExtensionProfile = 0, rh_ExtensionData = []\<rparr>"
    have d: "DecodeRtpHeader buf = (decode_extension buf (12 + ?n * 4) h0 \<bind> (\<lambda>h. Some (Inr h)))"
      using 4 len cs(1) by (simp add: DecodeRtpHeader_def rtpMinHeaderSize_def rd h0_def)
    obtain h where h: "decode_extension buf (12 + ?n * 4) h0 = Some h" "rh_CsrcCount h = rh_CsrcCount h0"
      "rh_Extension h = rh_Extension h0" "rh_Csrc h = rh_Csrc h0"
      "rh_ExtensionData h = rh_ExtensionData h0 \<or> 12 + ?n * 4 + 4 + length (rh_ExtensionData h) \<le> length buf"
      by (rule decode_extension_cases)
    with 4 d cs(2) show ?thesis
      by (intro ok [of h]) (auto simp: RtpHeader_Size_def rtpMinHeaderSize_def h0_def)
  next
    case 3
    obtain seq ts ssrc where "be_uint16 buf 2 = Some seq" "be_uint32 buf 4 = Some ts"
        "be_uint32 buf 8 = Some ssrc" "idx buf 0 = Some (buf ! 0)" "idx buf (Suc 0) = Some (buf ! 1)"
      using rtp_reads_total [OF 3(1)] by blast
    with 3 show ?thesis
      by (intro csrc) (simp_all add: DecodeRtpHeader_def rtpMinHeaderSize_def)
  next
    case 2
    with rtp_reads_total [OF 2(1)] show ?thesis
      by (intro version) (auto simp: DecodeRtpHeader_def rtpMinHeaderSize_def)
  qed (auto simp: DecodeRtpHeader_def rtpMinHeaderSize_def intro: short)
qed

lemma RtpHeader_Size_min: "12 \<le> RtpHeader_Size h"
  by (simp add: RtpHeader_Size_def rtpMinHeaderSize_def)

lemma DecodeRtpHeader_total: "DecodeRtpHeader buf \<noteq> None"
  by (cases rule: DecodeRtpHeader_cases [of buf]) auto

section \<open>Sessions\<close>

text \<open>The packets of a sequence of \<open>CreatePacket\<close> calls.\<close>

fun session_packets :: "RtpSession \<Rightarrow> (bytes \<times> bool) list \<Rightarrow> RtpPacket list \<times> RtpSession" where
  "session_packets s [] = ([], s)"
| "session_packets s ((payload, marker) # ps) =
     (let (p, s) = CreatePacket s payload marker; (qs, s) = session_packets s ps in (p # qs, s))"

lemma session_packets_state:
  "rs_sequenceNumber (snd (session_packets s ps)) = rs_sequenceNumber s + of_nat (length ps)"
  "rs_timestamp (snd (session_packets s ps)) = rs_timestamp s + of_nat (length ps) * of_int (rs_samplesPerPacket s)"
  by (induction s ps rule: session_packets.induct)
     (simp_all add: CreatePacket_def CreatePacketWithDuration_def Let_def case_prod_unfold algebra_simps)

lemma session_packets_nth:
  "i < length ps \<Longrightarrow>
   fst (session_packets s ps) ! i =
     \<lparr>rp_Header = (NewRtpHeader (rs_payloadType s) (rs_sequenceNumber s + of_nat i)
         (rs_timestamp s + of_nat i * of_int (rs_samplesPerPacket s)) (rs_ssrc s))\<lparr>rh_Marker := snd (ps ! i)\<rparr>,
      rp_Payload = fst (ps ! i)\<rparr>"
proof (induction ps arbitrary: s i)
  case (Cons a ps)
  obtain payload marker where a: "a = (payload, marker)" by fastforce
  show ?case
  proof (cases i)
    case (Suc j)
    with Cons.prems show ?thesis
      by (simp add: a CreatePacket_def CreatePacketWithDuration_def Let_def case_prod_unfold Cons.IH algebra_simps)
  qed (simp add: a CreatePacket_def CreatePacketWithDuration_def Let_def case_prod_unfold)
qed simp

lemma length_session_packets [simp]: "length (fst (session_packets s ps)) = length ps"
  by (induction s ps rule: session_packets.induct) (auto simp: Let_def split: prod.splits)

section \<open>Properties\<close>

text \<open>
  Claim C25. An RTP packet with a well-formed header (version 2, at most fifteen CSRCs as counted,
  a 7-bit payload type, extension data of whole words) encodes without error into exactly
  \<open>Size\<close> bytes, and decoding those bytes gives back the packet, field by field.
\<close>

theorem rtp_packet_roundtrip:
  assumes "rtp_wf (rp_Header p)"
  shows "\<exists>bs. RtpPacket_Encode p = Some (Inr bs) \<and> length bs = RtpPacket_Size p \<and>
           DecodeRtpPacket bs = Some (Inr p)"
proof -
  from assms have c: "unat (rh_CsrcCount (rp_Header p)) = length (rh_Csrc (rp_Header p))"
    by (simp add: rtp_wf_def)
  note len = length_rtp_header_bytes [OF c]
  show ?thesis
    using RtpPacket_Encode_bytes [OF c] DecodeRtpHeader_bytes [OF assms, of "rp_Payload p"] len
    by (auto simp: DecodeRtpPacket_def RtpPacket_Size_def slice_from_append)
qed

theorem rtp_packet_roundtrip_witness:
  "\<exists>bs. RtpPacket_Encode \<lparr>rp_Header = NewRtpHeader 120 65535 7 42, rp_Payload = [1, 2, 3]\<rparr> = Some (Inr bs) \<and>
     length bs = 15 \<and>
     DecodeRtpPacket bs = Some (Inr \<lparr>rp_Header = NewRtpHeader 120 65535 7 42, rp_Payload = [1, 2, 3]\<rparr>)"
  using rtp_packet_roundtrip [of "\<lparr>rp_Header = NewRtpHeader 120 65535 7 42, rp_Payload = [1, 2, 3]\<rparr>"]
  by (simp add: rtp_wf_def NewRtpHeader_def rtpVersion_def RtpPacket_Size_def RtpHeader_Size_def rtpMinHeaderSize_def)

text \<open>
  The exact inputs on which decoding a packet panics: version 2, the extension bit set,
  a complete CSRC list, and fewer than four bytes behind it. The header decoder accepts such a
  buffer while the header size it reports then exceeds the buffer.
\<close>

theorem DecodeRtpPacket_panics_iff:
  "DecodeRtpPacket buf = None \<longleftrightarrow>
     12 \<le> length buf \<and> drop_bit 6 (buf ! 0) AND 3 = rtpVersion \<and> drop_bit 4 (buf ! 0) AND 1 \<noteq> 0 \<and>
     12 + unat (buf ! 0 AND 0x0f) * 4 \<le> length buf \<and> length buf < 16 + unat (buf ! 0 AND 0x0f) * 4"
proof (cases rule: DecodeRtpHeader_cases [of buf])
  case (ok h)
  then have "DecodeRtpPacket buf = None \<longleftrightarrow> length buf < RtpHeader_Size h"
    by (auto simp: DecodeRtpPacket_def slice_from_def slice_def)
  with ok show ?thesis
    by (auto simp: RtpHeader_Size_def rtpMinHeaderSize_def)
qed (auto simp: DecodeRtpPacket_def)

text \<open>
  The i-th packet a session creates carries the session's SSRC and payload type, the
  initial sequence number plus i modulo \<open>2^16\<close> and the initial timestamp plus i times the samples
  per packet modulo \<open>2^32\<close>, also across wrap-around.
\<close>

theorem session_numbering:
  "i < length ps \<Longrightarrow>
   unat (rh_SequenceNumber (rp_Header (fst (session_packets s ps) ! i))) =
     (unat (rs_sequenceNumber s) + i) mod 65536 \<and>
   uint (rh_Timestamp (rp_Header (fst (session_packets s ps) ! i))) =
     (uint (rs_timestamp s) + int i * rs_samplesPerPacket s) mod 2 ^ 32 \<and>
   rh_Ssrc (rp_Header (fst (session_packets s ps) ! i)) = rs_ssrc s \<and>
   rh_PayloadType (rp_Header (fst (session_packets s ps) ! i)) = rs_payloadType s \<and>
   rp_Payload (fst (session_packets s ps) ! i) = fst (ps ! i)"
proof -
  assume "i < length ps"
  moreover have "unat (q + of_nat i) = (unat q + i) mod 65536" for q :: u16
    by (simp add: unat_word_ariths unat_of_nat mod_add_right_eq take_bit_eq_mod)
  moreover have "uint (q + of_nat i * of_int n) = (uint q + int i * n) mod 2 ^ 32" for q :: u32 and n
    by (simp add: uint_word_ariths unsigned_of_nat unsigned_of_int take_bit_eq_mod of_nat_mod mod_simps)
  ultimately show ?thesis by (simp add: session_packets_nth NewRtpHeader_def)
qed

theorem session_numbering_witness:
  "unat (rh_SequenceNumber (rp_Header (fst (session_packets (NewWhatsAppOpusSession 5 65535 0xFFFFFFFF)
      [([1], True), ([2], False)]) ! 1))) = 0 \<and>
   uint (rh_Timestamp (rp_Header (fst (session_packets (NewWhatsAppOpusSession 5 65535 0xFFFFFFFF)
      [([1], True), ([2], False)]) ! 1))) = 959"
  using session_numbering [of 1 "[([1], True), ([2], False)]" "NewWhatsAppOpusSession 5 65535 0xFFFFFFFF"]
  by (simp add: NewWhatsAppOpusSession_def NewRtpSession_def)

end
