(* ===== verification/Crypto.thy ===== *)
theory Crypto
  imports Prelude
begin

text \<open>
  What the media code uses of Go's standard library: SHA-1 and HMAC (\<^verbatim>\<open>crypto/sha1\<close>,
  \<^verbatim>\<open>crypto/hmac\<close>), the AES block cipher (\<^verbatim>\<open>crypto/aes\<close>) and counter mode
  (\<^verbatim>\<open>cipher.NewCTR\<close>). The definitions are executable. The rest of the development uses only
  the lengths of tags and blocks and that counter mode with one key and initial value is its own
  inverse; no theorem relies on a cryptographic assumption.
\<close>

section \<open>SHA-1 and HMAC\<close>

definition rotl32 :: "nat \<Rightarrow> u32 \<Rightarrow> u32" where
  "rotl32 n w = push_bit n w OR drop_bit (32 - n) w"

text \<open>Padding to whole blocks: a one bit, zeros, the bit length as 64 bits.\<close>

definition sha_pad :: "bytes \<Rightarrow> bytes" where
  "sha_pad m = m @ [0x80] @ replicate ((55 + 64 - length m mod 64) mod 64) 0 @ be64 (of_nat (8 * length m))"

fun words_of :: "bytes \<Rightarrow> u32 list" where
  "words_of (a # b # c # d # r) = join32 a b c d # words_of r"
| "words_of _ = []"

text \<open>The message schedule, kept in reverse: each new word is the rotated exclusive or of the words
  3, 8, 14 and 16 back.\<close>

fun sha1_schedule :: "nat \<Rightarrow> u32 list \<Rightarrow> u32 list" where
  "sha1_schedule 0 ws = rev ws"
| "sha1_schedule (Suc n) ws =
     sha1_schedule n (rotl32 1 (ws ! 2 XOR ws ! 7 XOR ws ! 13 XOR ws ! 15) # ws)"

type_synonym sha1_state = "u32 \<times> u32 \<times> u32 \<times> u32 \<times> u32"

definition sha1_round :: "nat \<Rightarrow> u32 \<Rightarrow> sha1_state \<Rightarrow> sha1_state" where
  "sha1_round t w s =
     (let (a, b, c, d, e) = s;
          (f, k) = (if t < 20 then ((b AND c) OR (NOT b AND d), 0x5A827999)
                    else if t < 40 then (b XOR c XOR d, 0x6ED9EBA1)
                    else if t < 60 then ((b AND c) OR (b AND d) OR (c AND d), 0x8F1BBCDC)
                    else (b XOR c XOR d, 0xCA62C1D6))
      in (rotl32 5 a + f + e + k + w, a, rotl32 30 b, c, d))"

fun sha1_rounds :: "nat \<Rightarrow> u32 list \<Rightarrow> sha1_state \<Rightarrow> sha1_state" where
  "sha1_rounds t [] s = s"
| "sha1_rounds t (w # ws) s = sha1_rounds (Suc t) ws (sha1_round t w s)"

definition sha1_block :: "bytes \<Rightarrow> sha1_state \<Rightarrow> sha1_state" where
  "sha1_block blk s =
     (let (a, b, c, d, e) = s;
          (a', b', c', d', e') = sha1_rounds 0 (sha1_schedule 64 (rev (words_of blk))) s
      in (a + a', b + b', c + c', d + d', e + e'))"

function sha1_blocks :: "bytes \<Rightarrow> sha1_state \<Rightarrow> sha1_state" where
  "sha1_blocks m s = (if m = [] then s else sha1_blocks (drop 64 m) (sha1_block (take 64 m) s))"
  by pat_completeness auto
termination by (relation "measure (\<lambda>(m, s). length m)") auto

declare sha1_blocks.simps [simp del]

definition sha1 :: "bytes \<Rightarrow> bytes" where
  "sha1 m = (case sha1_blocks (sha_pad m) (0x67452301, 0xEFCDAB89, 0x98BADCFE, 0x10325476, 0xC3D2E1F0) of
     (a, b, c, d, e) \<Rightarrow> be32 a @ be32 b @ be32 c @ be32 d @ be32 e)"

definition hmac_sha1 :: "bytes \<Rightarrow> bytes \<Rightarrow> bytes" where
  "hmac_sha1 key m =
     (let k = (if 64 < length key then sha1 key else key);
          k = k @ replicate (64 - length k) 0
      in sha1 (map (\<lambda>b. b XOR 0x5c) k @ sha1 (map (\<lambda>b. b XOR 0x36) k @ m)))"

section \<open>AES\<close>

definition aes_sbox :: "u8 list" where
  "aes_sbox =
     [0x63, 0x7c, 0x77, 0x7b, 0xf2, 0x6b, 0x6f, 0xc5, 0x30, 0x01, 0x67, 0x2b, 0xfe, 0xd7, 0xab, 0x76,
      0xca, 0x82, 0xc9, 0x7d, 0xfa, 0x59, 0x47, 0xf0, 0xad, 0xd4, 0xa2, 0xaf, 0x9c, 0xa4, 0x72, 0xc0,
      0xb7, 0xfd, 0x93, 0x26, 0x36, 0x3f, 0xf7, 0xcc, 0x34, 0xa5, 0xe5, 0xf1, 0x71, 0xd8, 0x31, 0x15,
      0x04, 0xc7, 0x23, 0xc3, 0x18, 0x96, 0x05, 0x9a, 0x07, 0x12, 0x80, 0xe2, 0xeb, 0x27, 0xb2, 0x75,
      0x09, 0x83, 0x2c, 0x1a, 0x1b, 0x6e, 0x5a, 0xa0, 0x52, 0x3b, 0xd6, 0xb3, 0x29, 0xe3, 0x2f, 0x84,
      0x53, 0xd1, 0x00, 0xed, 0x20, 0xfc, 0xb1, 0x5b, 0x6a, 0xcb, 0xbe, 0x39, 0x4a, 0x4c, 0x58, 0xcf,
      0xd0, 0xef, 0xaa, 0xfb, 0x43, 0x4d, 0x33, 0x85, 0x45, 0xf9, 0x02, 0x7f, 0x50, 0x3c, 0x9f, 0xa8,
      0x51, 0xa3, 0x40, 0x8f, 0x92, 0x9d, 0x38, 0xf5, 0xbc, 0xb6, 0xda, 0x21, 0x10, 0xff, 0xf3, 0xd2,
      0xcd, 0x0c, 0x13, 0xec, 0x5f, 0x97, 0x44, 0x17, 0xc4, 0xa7, 0x7e, 0x3d, 0x64, 0x5d, 0x19, 0x73,
      0x60, 0x81, 0x4f, 0xdc, 0x22, 0x2a, 0x90, 0x88, 0x46, 0xee, 0xb8, 0x14, 0xde, 0x5e, 0x0b, 0xdb,
      0xe0, 0x32, 0x3a, 0x0a, 0x49, 0x06, 0x24, 0x5c, 0xc2, 0xd3, 0xac, 0x62, 0x91, 0x95, 0xe4, 0x79,
      0xe7, 0xc8, 0x37, 0x6d, 0x8d, 0xd5, 0x4e, 0xa9, 0x6c, 0x56, 0xf4, 0xea, 0x65, 0x7a, 0xae, 0x08,
      0xba, 0x78, 0x25, 0x2e, 0x1c, 0xa6, 0xb4, 0xc6, 0xe8, 0xdd, 0x74, 0x1f, 0x4b, 0xbd, 0x8b, 0x8a,
      0x70, 0x3e, 0xb5, 0x66, 0x48, 0x03, 0xf6, 0x0e, 0x61, 0x35, 0x57, 0xb9, 0x86, 0xc1, 0x1d, 0x9e,
      0xe1, 0xf8, 0x98, 0x11, 0x69, 0xd9, 0x8e, 0x94, 0x9b, 0x1e, 0x87, 0xe9, 0xce, 0x55, 0x28, 0xdf,
      0x8c, 0xa1, 0x89, 0x0d, 0xbf, 0xe6, 0x42, 0x68, 0x41, 0x99, 0x2d, 0x0f, 0xb0, 0x54, 0xbb, 0x16]"

definition sub_byte :: "u8 \<Rightarrow> u8" where
  "sub_byte b = aes_sbox ! unat b"

definition xtime :: "u8 \<Rightarrow> u8" where
  "xtime b = (if bit b 7 then push_bit 1 b XOR 0x1b else push_bit 1 b)"

definition xor_bytes :: "bytes \<Rightarrow> bytes \<Rightarrow> bytes" where
  "xor_bytes xs ys = map2 (XOR) xs ys"

text \<open>Key expansion on four-byte words, kept in reverse; \<open>nk\<close> is the key length in words.\<close>

fun aes_expand :: "nat \<Rightarrow> nat \<Rightarrow> nat \<Rightarrow> u8 \<Rightarrow> bytes list \<Rightarrow> bytes list" where
  "aes_expand nk i 0 rcon ws = rev ws"
| "aes_expand nk i (Suc n) rcon ws =
     (let w = hd ws;
          (t, rcon) = (if i mod nk = 0
                       then (xor_bytes (map sub_byte (rotate1 w)) [rcon, 0, 0, 0], xtime rcon)
                       else if 6 < nk \<and> i mod nk = 4 then (map sub_byte w, rcon)
                       else (w, rcon))
      in aes_expand nk (Suc i) n rcon (xor_bytes (ws ! (nk - 1)) t # ws))"

fun chunks4 :: "bytes \<Rightarrow> bytes list" where
  "chunks4 (a # b # c # d # r) = [a, b, c, d] # chunks4 r"
| "chunks4 _ = []"

definition aes_key_schedule :: "bytes \<Rightarrow> bytes list" where
  "aes_key_schedule key =
     (let nk = length key div 4
      in aes_expand nk nk (4 * (nk + 7) - nk) 1 (rev (chunks4 key)))"

text \<open>The state is its 16 bytes, column by column.\<close>

definition shift_rows :: "bytes \<Rightarrow> bytes" where
  "shift_rows s = map (\<lambda>i. s ! i) [0, 5, 10, 15, 4, 9, 14, 3, 8, 13, 2, 7, 12, 1, 6, 11]"

fun mix_columns :: "bytes \<Rightarrow> bytes" where
  "mix_columns (a # b # c # d # r) =
     (let t = a XOR b XOR c XOR d
      in (a XOR t XOR xtime (a XOR b)) # (b XOR t XOR xtime (b XOR c)) #
         (c XOR t XOR xtime (c XOR d)) # (d XOR t XOR xtime (d XOR a)) # mix_columns r)"
| "mix_columns _ = []"

fun aes_rounds :: "nat \<Rightarrow> bytes list \<Rightarrow> bytes \<Rightarrow> bytes" where
  "aes_rounds 0 ks s = xor_bytes (shift_rows (map sub_byte s)) (concat (take 4 ks))"
| "aes_rounds (Suc n) ks s =
     aes_rounds n (drop 4 ks) (xor_bytes (mix_columns (shift_rows (map sub_byte s))) (concat (take 4 ks)))"

definition aes_encrypt :: "bytes \<Rightarrow> bytes \<Rightarrow> bytes" where
  "aes_encrypt key blk =
     (let ks = aes_key_schedule key; nr = length key div 4 + 6
      in aes_rounds (nr - 1) (drop 4 ks) (xor_bytes blk (concat (take 4 ks))))"

text \<open>\<open>aes.NewCipher\<close> accepts keys of 16, 24 and 32 bytes.\<close>

definition aes_key_ok :: "bytes \<Rightarrow> bool" where
  "aes_key_ok key \<longleftrightarrow> length key \<in> {16, 24, 32}"

section \<open>Counter mode\<close>

fun inc_le :: "bytes \<Rightarrow> bytes" where
  "inc_le [] = []"
| "inc_le (b # bs) = (if b + 1 = 0 then 0 # inc_le bs else (b + 1) # bs)"

definition inc_be :: "bytes \<Rightarrow> bytes" where
  "inc_be bs = rev (inc_le (rev bs))"

function ctr_xor :: "(bytes \<Rightarrow> bytes) \<Rightarrow> bytes \<Rightarrow> bytes \<Rightarrow> bytes" where
  "ctr_xor f iv src =
     (if src = [] then [] else xor_bytes (take 16 src) (f iv) @ ctr_xor f (inc_be iv) (drop 16 src))"
  by pat_completeness auto
termination by (relation "measure (\<lambda>(f, iv, src). length src)") auto

declare ctr_xor.simps [simp del]

section \<open>Lengths\<close>

lemma length_sha1 [simp, byte_lens]: "length (sha1 m) = 20"
  by (simp add: sha1_def split: prod.split)

lemma length_hmac_sha1 [simp, byte_lens]: "length (hmac_sha1 k m) = 20"
  by (simp add: hmac_sha1_def Let_def)

lemma length_xor_bytes [simp, byte_lens]: "length (xor_bytes xs ys) = min (length xs) (length ys)"
  by (simp add: xor_bytes_def)

lemma length_shift_rows [simp, byte_lens]: "length (shift_rows s) = 16"
  by (simp add: shift_rows_def)

lemma length_mix_columns [simp, byte_lens]: "length (mix_columns s) = 4 * (length s div 4)"
  by (induction s rule: mix_columns.induct) (simp_all add: Let_def, presburger)

definition words4 :: "bytes list \<Rightarrow> bool" where
  "words4 ws \<longleftrightarrow> list_all (\<lambda>w. length w = 4) ws"

lemma words4_simps [simp]:
  "words4 []" "words4 (w # ws) \<longleftrightarrow> length w = 4 \<and> words4 ws" "words4 (rev ws) \<longleftrightarrow> words4 ws"
  by (simp_all add: words4_def)

lemma words4_take_drop: "words4 ws \<Longrightarrow> words4 (take n ws)" "words4 ws \<Longrightarrow> words4 (drop n ws)"
  by (auto simp: words4_def list_all_iff dest: in_set_takeD in_set_dropD)

lemma words4_nth: "words4 ws \<Longrightarrow> i < length ws \<Longrightarrow> length (ws ! i) = 4"
  by (simp add: words4_def list_all_length)

lemma words4_concat: "words4 ws \<Longrightarrow> length (concat ws) = 4 * length ws"
  by (induction ws) auto

lemma aes_expand_words:
  "words4 ws \<Longrightarrow> 0 < nk \<Longrightarrow> nk \<le> length ws \<Longrightarrow>
   length (aes_expand nk i n rcon ws) = length ws + n \<and> words4 (aes_expand nk i n rcon ws)"
proof (induction n arbitrary: i rcon ws)
  case (Suc n)
  have "length (hd ws) = 4" using Suc.prems by (cases ws) auto
  moreover have "length (ws ! (nk - 1)) = 4" using Suc.prems by (intro words4_nth) auto
  ultimately show ?case using Suc.prems by (simp add: Let_def Suc.IH)
qed simp

lemma chunks4_words: "words4 (chunks4 k)" "length (chunks4 k) = length k div 4"
  by (induction k rule: chunks4.induct) auto

lemma aes_key_schedule_words:
  assumes "aes_key_ok key"
  shows "length (aes_key_schedule key) = 4 * (length key div 4 + 7) \<and> words4 (aes_key_schedule key)"
proof -
  have "0 < length key div 4" using assms by (auto simp: aes_key_ok_def)
  from aes_expand_words [OF _ this, of "rev (chunks4 key)"] show ?thesis
    by (simp add: aes_key_schedule_def Let_def chunks4_words del: aes_expand.simps)
qed

lemma length_round_key: "words4 ks \<Longrightarrow> 4 \<le> length ks \<Longrightarrow> length (concat (take 4 ks)) = 16"
  by (simp add: words4_concat words4_take_drop)

lemma length_aes_rounds:
  "words4 ks \<Longrightarrow> 4 * Suc n \<le> length ks \<Longrightarrow> length s = 16 \<Longrightarrow> length (aes_rounds n ks s) = 16"
  by (induction n ks s rule: aes_rounds.induct) (simp_all add: length_round_key words4_take_drop)

lemma length_aes_encrypt:
  assumes "aes_key_ok key" "length blk = 16"
  shows "length (aes_encrypt key blk) = 16"
  unfolding aes_encrypt_def Let_def using assms aes_key_schedule_words [OF assms(1)]
  by (intro length_aes_rounds) (auto simp: length_round_key aes_key_ok_def words4_take_drop)

section \<open>Counter mode is an involution\<close>

lemma length_inc_le [simp]: "length (inc_le bs) = length bs"
  by (induction bs) auto

lemma length_inc_be [simp, byte_lens]: "length (inc_be bs) = length bs"
  by (simp add: inc_be_def)

lemma ctr_xor_Nil [simp]: "ctr_xor f iv [] = []"
  by (simp add: ctr_xor.simps)

lemma xor_bytes_twice: "length xs \<le> length ys \<Longrightarrow> xor_bytes (xor_bytes xs ys) ys = xs"
  by (rule nth_equalityI) (auto simp: xor_bytes_def xor.assoc)

lemma xor_bytes_append:
  "length a = length c \<Longrightarrow> xor_bytes (a @ b) (c @ d) = xor_bytes a c @ xor_bytes b d"
  by (simp add: xor_bytes_def)

text \<open>The interface of a block cipher: blocks keep their length under an accepted key.\<close>

locale block_cipher =
  fixes key_ok :: "'k \<Rightarrow> bool"
    and enc :: "'k \<Rightarrow> bytes \<Rightarrow> bytes"
  assumes length_enc: "key_ok k \<Longrightarrow> length b = 16 \<Longrightarrow> length (enc k b) = 16"
begin

lemma length_ctr: "key_ok k \<Longrightarrow> length iv = 16 \<Longrightarrow> length (ctr_xor (enc k) iv src) = length src"
proof (induction src arbitrary: iv rule: length_induct)
  case (1 src)
  show ?case
  proof (cases "src = []")
    case False
    then have "length (drop 16 src) < length src" by simp
    with 1 have "length (ctr_xor (enc k) (inc_be iv) (drop 16 src)) = length (drop 16 src)" by auto
    then show ?thesis using 1(2,3) False by (subst ctr_xor.simps) (simp add: length_enc)
  qed simp
qed

lemma ctr_twice: "key_ok k \<Longrightarrow> length iv = 16 \<Longrightarrow> ctr_xor (enc k) iv (ctr_xor (enc k) iv src) = src"
proof (induction src arbitrary: iv rule: length_induct)
  case (1 src)
  show ?case
  proof (cases "src = []")
    case False
    let ?a = "xor_bytes (take 16 src) (enc k iv)" and ?b = "ctr_xor (enc k) (inc_be iv) (drop 16 src)"
    have e: "ctr_xor (enc k) iv src = ?a @ ?b"
      using False by (subst ctr_xor.simps) simp
    have l: "length ?a = min 16 (length src)" "length ?b = length src - 16"
      using 1(2,3) by (simp_all add: length_enc length_ctr)
    then have td: "take 16 (?a @ ?b) = ?a" "drop 16 (?a @ ?b) = ?b"
      by (cases "length src \<le> 16"; simp)+
    have "?a @ ?b \<noteq> []" using l False by (metis append_is_Nil_conv length_0_conv min_0L min_def zero_neq_numeral)
    then have "ctr_xor (enc k) iv (?a @ ?b) = xor_bytes ?a (enc k iv) @ ctr_xor (enc k) (inc_be iv) ?b"
      using ctr_xor.simps [of "enc k" iv "?a @ ?b", unfolded td] by (simp only: if_False)
    also have "\<dots> = take 16 src @ drop 16 src"
      using 1 False by (simp add: xor_bytes_twice length_enc)
    finally show ?thesis using e by simp
  qed simp
qed

end

interpretation aes: block_cipher aes_key_ok aes_encrypt
  by unfold_locales (rule length_aes_encrypt)

end
