(* ===== verification/Srtp.thy ===== *)
theory Srtp
  imports Rtp Crypto
begin

text \<open>
  SRTP protection of media packets: \<^verbatim>\<open>internal/voip/media/srtp.go\<close>. Contexts are records passed
  through \<open>Protect\<close> and \<open>Unprotect\<close>; an operation returns its result together with the context it
  leaves behind. Error messages are dropped, error types kept. The lemmas show that the replay
  window implements the set of accepted packet indices, that a rejected packet leaves no trace,
  that the initial counter block determines SSRC and packet index, and that a lossy in-order
  stream is decrypted packet by packet across sequence number roll-over.
\<close>

section \<open>Contexts\<close>

datatype SrtpErrorType =
  SrtpErrPacketTooShort | SrtpErrAuthFailed | SrtpErrEncryption | SrtpErrDecryption | SrtpErrReplay

datatype CipherError = KeySizeError nat

definition srtpReplayWindowSize :: u64 where "srtpReplayWindowSize = 64"

record SrtpContext =
  sc_sessionKey :: bytes
  sc_sessionSalt :: bytes
  sc_authKey :: bytes
  sc_roc :: u32
  sc_lastSeq :: u16
  sc_initialized :: bool
  sc_authTagLen :: nat
  sc_replayHighest :: u64
  sc_replayWindow :: u64
  sc_replaySeen :: bool

definition aesCtrXor :: "bytes \<Rightarrow> bytes \<Rightarrow> bytes \<Rightarrow> CipherError + bytes" where
  "aesCtrXor key iv src =
     (if aes_key_ok key then Inr (ctr_xor (aes_encrypt key) iv src) else Inl (KeySizeError (length key)))"

definition deriveSrtpKey :: "bytes \<Rightarrow> bytes \<Rightarrow> u8 \<Rightarrow> nat \<Rightarrow> (CipherError + bytes) go" where
  "deriveSrtpKey masterKey masterSalt label len = do {
     salt \<leftarrow> slice masterSalt 0 14;
     iv \<leftarrow> copy_at (replicate 16 0) 0 salt;
     let iv = iv[7 := iv ! 7 XOR label];
     Some (aesCtrXor masterKey iv (replicate len 0)) }"

definition NewSrtpContext :: "SrtpKeyingMaterial \<Rightarrow> int \<Rightarrow> (CipherError + SrtpContext) go" where
  "NewSrtpContext keying authTagLen =
     (let authTagLen = (if authTagLen \<le> 0 then SRTPAuthTagLen else nat authTagLen) in
      go_try (deriveSrtpKey (km_MasterKey keying) (km_MasterSalt keying) SRTPLabelEncryption 16) (\<lambda>sk.
      go_try (deriveSrtpKey (km_MasterKey keying) (km_MasterSalt keying) SRTPLabelAuth 20) (\<lambda>ak.
      go_try (deriveSrtpKey (km_MasterKey keying) (km_MasterSalt keying) SRTPLabelSalt 14) (\<lambda>ss.
        Some (Inr \<lparr>sc_sessionKey = sk, sc_sessionSalt = ss, sc_authKey = ak, sc_roc = 0, sc_lastSeq = 0,
          sc_initialized = False, sc_authTagLen = authTagLen, sc_replayHighest = 0,
          sc_replayWindow = 0, sc_replaySeen = False\<rparr>)))))"

definition SetAuthKeying :: "SrtpContext \<Rightarrow> SrtpKeyingMaterial \<Rightarrow> (CipherError + SrtpContext) go" where
  "SetAuthKeying c keying =
     go_try (deriveSrtpKey (km_MasterKey keying) (km_MasterSalt keying) SRTPLabelAuth 20)
       (\<lambda>ak. Some (Inr (c\<lparr>sc_authKey := ak\<rparr>)))"

section \<open>Packet indices\<close>

text \<open>Differences of sequence numbers are taken in \<open>int32\<close> and cannot overflow there.\<close>

definition updateRoc :: "SrtpContext \<Rightarrow> u16 \<Rightarrow> SrtpContext" where
  "updateRoc c seq =
     (if \<not> sc_initialized c then c\<lparr>sc_lastSeq := seq, sc_initialized := True\<rparr>
      else let c = (if uint seq - uint (sc_lastSeq c) < -32768 then c\<lparr>sc_roc := sc_roc c + 1\<rparr> else c)
           in c\<lparr>sc_lastSeq := seq\<rparr>)"

definition estimateRoc :: "SrtpContext \<Rightarrow> u16 \<Rightarrow> u32" where
  "estimateRoc c seq =
     (if \<not> sc_initialized c then sc_roc c
      else if sc_lastSeq c < 0x8000 then
        (if uint seq - uint (sc_lastSeq c) > 0x8000 then sc_roc c - 1 else sc_roc c)
      else if uint (sc_lastSeq c) - uint seq > 0x8000 then sc_roc c + 1
      else sc_roc c)"

definition commitRoc :: "SrtpContext \<Rightarrow> u32 \<Rightarrow> u16 \<Rightarrow> SrtpContext" where
  "commitRoc c v seq =
     (if \<not> sc_initialized c then c\<lparr>sc_lastSeq := seq, sc_initialized := True\<rparr>
      else if v = sc_roc c then (if seq > sc_lastSeq c then c\<lparr>sc_lastSeq := seq\<rparr> else c)
      else if v = sc_roc c + 1 then c\<lparr>sc_roc := v, sc_lastSeq := seq\<rparr>
      else c)"

definition rocIndex :: "u32 \<Rightarrow> u16 \<Rightarrow> u64" where
  "rocIndex roc seq = push_bit 16 (ucast roc) OR ucast seq"

definition packetIndex :: "SrtpContext \<Rightarrow> u16 \<Rightarrow> u64" where
  "packetIndex c seq = rocIndex (sc_roc c) seq"

section \<open>Replay window\<close>

definition replayCheck :: "SrtpContext \<Rightarrow> u64 \<Rightarrow> SrtpErrorType option" where
  "replayCheck c index =
     (if \<not> sc_replaySeen c \<or> index > sc_replayHighest c then None
      else let delta = sc_replayHighest c - index in
        if delta \<ge> srtpReplayWindowSize then Some SrtpErrReplay
        else if sc_replayWindow c AND push_bit (unat delta) 1 \<noteq> 0 then Some SrtpErrReplay
        else None)"

definition replayUpdate :: "SrtpContext \<Rightarrow> u64 \<Rightarrow> SrtpContext" where
  "replayUpdate c index =
     (if \<not> sc_replaySeen c then c\<lparr>sc_replaySeen := True, sc_replayHighest := index, sc_replayWindow := 1\<rparr>
      else if index > sc_replayHighest c then
        let delta = index - sc_replayHighest c in
        c\<lparr>sc_replayWindow := (if delta \<ge> srtpReplayWindowSize then 1
                              else push_bit (unat delta) (sc_replayWindow c) OR 1),
          sc_replayHighest := index\<rparr>
      else c\<lparr>sc_replayWindow := sc_replayWindow c OR push_bit (unat (sc_replayHighest c - index)) 1\<rparr>)"

section \<open>Initial counter block and authentication tag\<close>

fun xor_loop :: "bytes \<Rightarrow> nat \<Rightarrow> bytes \<Rightarrow> bytes" where
  "xor_loop iv off [] = iv"
| "xor_loop iv off (b # bs) = xor_loop (iv[off := iv ! off XOR b]) (off + 1) bs"

definition generateIV :: "SrtpContext \<Rightarrow> u32 \<Rightarrow> u64 \<Rightarrow> bytes go" where
  "generateIV c ssrc index = do {
     salt \<leftarrow> slice (sc_sessionSalt c) 0 14;
     iv \<leftarrow> copy_at (replicate 16 0) 0 salt;
     let iv = xor_loop iv 4 (be32 ssrc);
     Some (xor_loop iv 8 (drop 2 (be64 index))) }"

definition computeAuthTag :: "SrtpContext \<Rightarrow> bytes \<Rightarrow> u32 \<Rightarrow> nat \<Rightarrow> bytes go" where
  "computeAuthTag c data roc tagLen = slice (hmac_sha1 (sc_authKey c) (data @ be32 roc)) 0 tagLen"

section \<open>Protect and Unprotect\<close>

type_synonym 'a srtp_res = "((SrtpErrorType + 'a) \<times> SrtpContext) go"

definition Protect :: "SrtpContext \<Rightarrow> RtpPacket \<Rightarrow> bytes srtp_res" where
  "Protect c packet = do {
     let h = rp_Header packet;
     let payload = rp_Payload packet;
     let c = updateRoc c (rh_SequenceNumber h);
     let index = packetIndex c (rh_SequenceNumber h);
     let headerSize = RtpHeader_Size h;
     r \<leftarrow> RtpHeader_Encode h (replicate (headerSize + length payload + sc_authTagLen c) 0);
     case r of
       Inl _ \<Rightarrow> Some (Inl SrtpErrEncryption, c)
     | Inr (output, _) \<Rightarrow> do {
         iv \<leftarrow> generateIV c (rh_Ssrc h) index;
         case aesCtrXor (sc_sessionKey c) iv payload of
           Inl _ \<Rightarrow> Some (Inl SrtpErrEncryption, c)
         | Inr enc \<Rightarrow> do {
             output \<leftarrow> copy_at output headerSize enc;
             output \<leftarrow> (if 0 < sc_authTagLen c then do {
                 authData \<leftarrow> slice output 0 (headerSize + length payload);
                 tag \<leftarrow> computeAuthTag c authData (sc_roc c) (sc_authTagLen c);
                 copy_at output (headerSize + length payload) tag
               } else Some output);
             Some (Inr output, c) } } }"

definition Unprotect :: "SrtpContext \<Rightarrow> bytes \<Rightarrow> RtpPacket srtp_res" where
  "Unprotect c data =
     (if length data < 12 then Some (Inl SrtpErrPacketTooShort, c)
      else do {
        r \<leftarrow> DecodeRtpHeader data;
        case r of
          Inl _ \<Rightarrow> Some (Inl SrtpErrDecryption, c)
        | Inr header \<Rightarrow>
            let headerSize = RtpHeader_Size header in
            if length data \<le> headerSize + sc_authTagLen c then Some (Inl SrtpErrPacketTooShort, c)
            else
              let payloadLen = length data - headerSize - sc_authTagLen c;
                  roc = estimateRoc c (rh_SequenceNumber header);
                  index = rocIndex roc (rh_SequenceNumber header) in
              case replayCheck c index of
                Some e \<Rightarrow> Some (Inl e, c)
              | None \<Rightarrow> do {
                  authData \<leftarrow> slice data 0 (headerSize + payloadLen);
                  expected \<leftarrow> computeAuthTag c authData roc (sc_authTagLen c);
                  received \<leftarrow> slice_from data (headerSize + payloadLen);
                  if expected \<noteq> received then Some (Inl SrtpErrAuthFailed, c)
                  else do {
                    let c = replayUpdate (commitRoc c roc (rh_SequenceNumber header)) index;
                    iv \<leftarrow> generateIV c (rh_Ssrc header) index;
                    enc \<leftarrow> slice data headerSize (headerSize + payloadLen);
                    case aesCtrXor (sc_sessionKey c) iv enc of
                      Inl _ \<Rightarrow> Some (Inl SrtpErrDecryption, c)
                    | Inr decrypted \<Rightarrow> Some (Inr \<lparr>rp_Header = header, rp_Payload = decrypted\<rparr>, c) } } })"

section \<open>Sessions\<close>

record SrtpSession =
  ss_sendCtx :: SrtpContext
  ss_recvCtx :: SrtpContext

definition NewSrtpSession ::
  "SrtpKeyingMaterial \<Rightarrow> SrtpKeyingMaterial \<Rightarrow> int \<Rightarrow> int \<Rightarrow> (CipherError + SrtpSession) go" where
  "NewSrtpSession sendKey recvKey sendAuthLen recvAuthLen =
     go_try (NewSrtpContext sendKey sendAuthLen) (\<lambda>sc.
     go_try (NewSrtpContext recvKey recvAuthLen) (\<lambda>rc.
       Some (Inr \<lparr>ss_sendCtx = sc, ss_recvCtx = rc\<rparr>)))"

definition SrtpSession_Protect :: "SrtpSession \<Rightarrow> RtpPacket \<Rightarrow> ((SrtpErrorType + bytes) \<times> SrtpSession) go" where
  "SrtpSession_Protect s packet = do {
     (r, c) \<leftarrow> Protect (ss_sendCtx s) packet; Some (r, s\<lparr>ss_sendCtx := c\<rparr>) }"

definition SrtpSession_Unprotect :: "SrtpSession \<Rightarrow> bytes \<Rightarrow> ((SrtpErrorType + RtpPacket) \<times> SrtpSession) go" where
  "SrtpSession_Unprotect s data = do {
     (r, c) \<leftarrow> Unprotect (ss_recvCtx s) data; Some (r, s\<lparr>ss_recvCtx := c\<rparr>) }"

definition SetSendAuthKeying :: "SrtpSession \<Rightarrow> SrtpKeyingMaterial \<Rightarrow> (CipherError + SrtpSession) go" where
  "SetSendAuthKeying s keying =
     go_try (SetAuthKeying (ss_sendCtx s) keying) (\<lambda>c. Some (Inr (s\<lparr>ss_sendCtx := c\<rparr>)))"

section \<open>The replay window implements the set of accepted indices\<close>

text \<open>\<open>replay_rep c S\<close>: the window of \<open>c\<close> represents the set \<open>S\<close> of indices accepted so far: the
  highest one, and bit \<open>d\<close> tells whether the index \<open>d\<close> below the highest is a member.\<close>

definition replay_rep :: "SrtpContext \<Rightarrow> u64 set \<Rightarrow> bool" where
  "replay_rep c S \<longleftrightarrow>
     (if sc_replaySeen c
      then sc_replayHighest c \<in> S \<and> (\<forall>i\<in>S. i \<le> sc_replayHighest c) \<and>
           (\<forall>d<64. bit (sc_replayWindow c) d \<longleftrightarrow> (\<exists>i\<in>S. unat i + d = unat (sc_replayHighest c)))
      else S = {})"

lemma unat_diff: "j \<le> i \<Longrightarrow> unat (i - j) = unat i - unat j" for i j :: "'a :: len word"
  by (rule unat_sub)

lemma replayCheck_None_iff:
  assumes "replay_rep c S"
  shows "replayCheck c i = None \<longleftrightarrow> S = {} \<or> i \<notin> S \<and> (\<forall>j\<in>S. unat j < unat i + 64)"
proof (cases "sc_replaySeen c")
  case False
  with assms show ?thesis by (simp add: replayCheck_def replay_rep_def)
next
  case True
  with assms have h: "sc_replayHighest c \<in> S" and le: "\<And>j. j \<in> S \<Longrightarrow> unat j \<le> unat (sc_replayHighest c)"
    and b: "\<And>d. d < 64 \<Longrightarrow> bit (sc_replayWindow c) d \<longleftrightarrow> (\<exists>i\<in>S. unat i + d = unat (sc_replayHighest c))"
    by (auto simp: replay_rep_def word_le_nat_alt)
  have all: "(\<forall>j\<in>S. unat j < unat i + 64) \<longleftrightarrow> unat (sc_replayHighest c) < unat i + 64"
    using h le by force
  show ?thesis
  proof (cases "i > sc_replayHighest c")
    case gt: True
    then have "i \<notin> S" using le [of i] by (auto simp: word_less_nat_alt)
    with gt True all show ?thesis by (simp add: replayCheck_def word_less_nat_alt)
  next
    case False
    then have d: "unat (sc_replayHighest c - i) = unat (sc_replayHighest c) - unat i"
      and ile: "unat i \<le> unat (sc_replayHighest c)"
      by (simp_all add: unat_diff word_le_nat_alt not_less)
    have mem: "(\<exists>j\<in>S. unat j + (unat (sc_replayHighest c) - unat i) = unat (sc_replayHighest c)) \<longleftrightarrow> i \<in> S"
    proof -
      have "unat j + (unat (sc_replayHighest c) - unat i) = unat (sc_replayHighest c) \<longleftrightarrow> j = i" for j :: u64
        using ile by (auto simp: word_unat_eq_iff)
      then show ?thesis by auto
    qed
    have "replayCheck c i = None \<longleftrightarrow> unat (sc_replayHighest c) - unat i < 64 \<and>
        \<not> bit (sc_replayWindow c) (unat (sc_replayHighest c) - unat i)"
      using True False d
      by (auto simp: replayCheck_def Let_def and_exp_eq_0_iff_not_bit srtpReplayWindowSize_def word_le_nat_alt)
    also have "\<dots> \<longleftrightarrow> i \<notin> S \<and> unat (sc_replayHighest c) < unat i + 64"
    proof -
      have lt: "unat (sc_replayHighest c) - unat i < 64 \<longleftrightarrow> unat (sc_replayHighest c) < unat i + 64"
        using ile by arith
      show ?thesis
        by (cases "unat (sc_replayHighest c) < unat i + 64")
           (use b [of "unat (sc_replayHighest c) - unat i"] mem lt in simp_all)
    qed
    finally show ?thesis using all h by auto
  qed
qed

lemma replayUpdate_rep:
  assumes "replay_rep c S"
  shows "replay_rep (replayUpdate c i) (insert i S)"
proof (cases "sc_replaySeen c")
  case False
  with assms show ?thesis
    by (auto simp: replayUpdate_def replay_rep_def bit_1_iff)
next
  case True
  let ?h = "sc_replayHighest c"
  from True assms have h: "?h \<in> S" and le: "\<And>j. j \<in> S \<Longrightarrow> unat j \<le> unat ?h"
    and b: "\<And>d. d < 64 \<Longrightarrow> bit (sc_replayWindow c) d \<longleftrightarrow> (\<exists>i\<in>S. unat i + d = unat ?h)"
    by (auto simp: replay_rep_def word_le_nat_alt)
  show ?thesis
  proof (cases "i > ?h")
    case gt: True
    let ?d = "unat i - unat ?h"
    have lt: "unat ?h < unat i" using gt by (simp add: word_less_nat_alt)
    have d: "unat (i - ?h) = ?d" using gt by (simp add: unat_diff)
    have old: "(\<exists>j\<in>S. unat j + k = unat i) \<longleftrightarrow> ?d \<le> k \<and> (\<exists>j\<in>S. unat j + (k - ?d) = unat ?h)" for k
      using lt le by (force simp: Bex_def)
    have w: "bit (sc_replayWindow (replayUpdate c i)) k \<longleftrightarrow> (\<exists>j\<in>insert i S. unat j + k = unat i)"
      if "k < 64" for k
      using True gt d that b [of "k - ?d"] old [of k] lt
      by (auto simp: replayUpdate_def Let_def srtpReplayWindowSize_def word_le_nat_alt bit_simps not_le)
    have "sc_replayHighest (replayUpdate c i) = i" "sc_replaySeen (replayUpdate c i)"
      using True gt by (simp_all add: replayUpdate_def Let_def)
    with w le lt show ?thesis by (auto simp: replay_rep_def word_le_nat_alt dest: le)
  next
    case False
    then have d: "unat (?h - i) = unat ?h - unat i" and ile: "unat i \<le> unat ?h"
      by (simp_all add: unat_diff word_le_nat_alt not_less)
    with True False b h le show ?thesis
      by (auto simp: replayUpdate_def replay_rep_def word_le_nat_alt bit_simps)
  qed
qed

text \<open>
  The contract of a replay guard, independent of its implementation: what it remembers is a set,
  and it admits an index only if the index is not in the set.
\<close>

locale replay_guard =
  fixes rep :: "'s \<Rightarrow> 'i set \<Rightarrow> bool"
    and admits :: "'s \<Rightarrow> 'i \<Rightarrow> bool"
    and record_index :: "'s \<Rightarrow> 'i \<Rightarrow> 's"
  assumes admits_fresh: "rep s S \<Longrightarrow> admits s i \<Longrightarrow> i \<notin> S"
    and record_rep: "rep s S \<Longrightarrow> rep (record_index s i) (insert i S)"
begin

text \<open>A client that interleaves admissions with steps that keep the represented set never admits
  an index twice.\<close>

inductive admission :: "'s \<Rightarrow> 'i list \<Rightarrow> 's \<Rightarrow> bool" where
  nothing: "admission s [] s"
| other: "(\<And>S. rep s S \<Longrightarrow> rep s' S) \<Longrightarrow> admission s' xs t \<Longrightarrow> admission s xs t"
| admit: "admits s i \<Longrightarrow> admission (record_index s i) xs t \<Longrightarrow> admission s (i # xs) t"

lemma admission_distinct:
  "admission s xs t \<Longrightarrow> rep s S \<Longrightarrow> distinct xs \<and> set xs \<inter> S = {} \<and> rep t (S \<union> set xs)"
proof (induction arbitrary: S rule: admission.induct)
  case (admit s i xs t)
  from admit.IH [OF record_rep [OF admit.prems]] admits_fresh [OF admit.prems admit.hyps(1)]
  show ?case by auto
qed auto

end

interpretation srtp_replay: replay_guard replay_rep "\<lambda>c i. replayCheck c i = None" replayUpdate
  by unfold_locales (auto simp: replayCheck_None_iff replayUpdate_rep)

section \<open>Initial counter blocks\<close>

lemma xor_loop_append:
  "length mid = length bs \<Longrightarrow> xor_loop (pre @ mid @ post) (length pre) bs = pre @ xor_bytes mid bs @ post"
proof (induction bs arbitrary: pre mid)
  case (Cons b bs)
  then obtain m ms where m: "mid = m # ms" by (cases mid) auto
  with Cons.prems Cons.IH [of ms "pre @ [m XOR b]"] show ?case
    by (simp add: nth_append list_update_append xor_bytes_def)
qed (simp add: xor_bytes_def)

lemma length_xor_loop [simp]: "length (xor_loop iv off bs) = length iv"
  by (induction iv off bs rule: xor_loop.induct) auto

lemma xor_bytes_inject:
  "length xs = length ys \<Longrightarrow> length zs = length ys \<Longrightarrow> xor_bytes ys xs = xor_bytes ys zs \<longleftrightarrow> xs = zs"
proof (induction ys arbitrary: xs zs)
  case (Cons y ys)
  then obtain a as c cs where "xs = a # as" "zs = c # cs" by (metis length_Suc_conv)
  moreover have "y XOR a = y XOR c \<longleftrightarrow> a = c" by (metis xor.assoc xor.left_neutral xor_self_eq)
  ultimately show ?case using Cons by (simp add: xor_bytes_def)
qed (simp add: xor_bytes_def)

definition srtp_iv :: "bytes \<Rightarrow> u32 \<Rightarrow> u64 \<Rightarrow> bytes" where
  "srtp_iv salt ssrc index =
     take 4 salt @ xor_bytes (take 4 (drop 4 salt)) (be32 ssrc) @
     xor_bytes (take 6 (drop 8 salt)) (drop 2 (be64 index)) @ [0, 0]"

lemma length_srtp_iv [simp]: "14 \<le> length salt \<Longrightarrow> length (srtp_iv salt ssrc index) = 16"
  by (simp add: srtp_iv_def)

lemma xor_loops_iv:
  assumes "14 \<le> length salt"
  shows "xor_loop (xor_loop (take 14 salt @ [0, 0]) 4 (be32 ssrc)) 8 (drop 2 (be64 index)) = srtp_iv salt ssrc index"
proof -
  let ?a = "take 4 salt" and ?b = "take 4 (drop 4 salt)" and ?c = "take 6 (drop 8 salt)"
  have "take 14 salt = ?a @ ?b @ ?c"
    using take_add [of 4 "4 + 6" salt] take_add [of 4 6 "drop 4 salt"] by simp
  then have "take 14 salt @ [0, 0] = ?a @ ?b @ ?c @ [0, 0]" by simp
  moreover have "xor_loop (?a @ ?b @ ?c @ [0, 0]) 4 (be32 ssrc) = ?a @ xor_bytes ?b (be32 ssrc) @ ?c @ [0, 0]"
    using assms xor_loop_append [of ?b "be32 ssrc" ?a "?c @ [0, 0]"] by simp
  moreover have "xor_loop (?a @ xor_bytes ?b (be32 ssrc) @ ?c @ [0, 0]) 8 (drop 2 (be64 index)) = srtp_iv salt ssrc index"
    using assms xor_loop_append [of ?c "drop 2 (be64 index)" "?a @ xor_bytes ?b (be32 ssrc)" "[0, 0]"]
    by (simp add: srtp_iv_def)
  ultimately show ?thesis by simp
qed

lemma copy_salt: "length salt = 14 \<Longrightarrow> copy_at (replicate 16 0) 0 salt = Some (salt @ [0, 0])" for salt :: bytes
  by (simp add: copy_at_def numeral_2_eq_2)

lemma generateIV_iv:
  "14 \<le> length (sc_sessionSalt c) \<Longrightarrow> generateIV c ssrc index = Some (srtp_iv (sc_sessionSalt c) ssrc index)"
  using xor_loops_iv [of "sc_sessionSalt c"] copy_salt [of "take 14 (sc_sessionSalt c)"]
  by (simp add: generateIV_def slice_def)

lemma drop_2_be64_split: "drop 2 (be64 i) = be16 (ucast (drop_bit 32 i)) @ be32 (ucast i)"
proof -
  have "ucast (drop_bit 8 (ucast (drop_bit 32 i) :: u32)) = (ucast (drop_bit 8 (ucast (drop_bit 32 i) :: u16)) :: u8)"
    "(ucast (ucast (drop_bit 32 i) :: u32) :: u8) = ucast (ucast (drop_bit 32 i) :: u16)"
    by (rule bit_word_eqI; auto simp: bit_simps)+
  then show ?thesis by (simp add: be64_def be32_def [of "ucast (drop_bit 32 i)"] be16_def)
qed

lemma drop_2_be64: "drop 2 (be64 i) = drop 2 (be64 j) \<longleftrightarrow> take_bit 48 i = take_bit 48 j"
proof -
  have "drop 2 (be64 i) = drop 2 (be64 j) \<longleftrightarrow>
    (ucast (drop_bit 32 i) :: u16) = ucast (drop_bit 32 j) \<and> (ucast i :: u32) = ucast j"
    by (simp add: drop_2_be64_split)
  also have "\<dots> \<longleftrightarrow> take_bit 48 i = take_bit 48 j"
  proof (intro iffI conjI)
    assume e: "(ucast (drop_bit 32 i) :: u16) = ucast (drop_bit 32 j) \<and> (ucast i :: u32) = ucast j"
    have "bit i n \<longleftrightarrow> bit j n" if "n < 48" for n
    proof (cases "n < 32")
      case True
      have "bit (ucast i :: u32) n = bit (ucast j :: u32) n" using e by simp
      with True show ?thesis by (simp add: bit_simps)
    next
      case False
      have "bit (ucast (drop_bit 32 i) :: u16) (n - 32) = bit (ucast (drop_bit 32 j) :: u16) (n - 32)" using e by simp
      moreover from that have "n - 32 < 16" by arith
      ultimately show ?thesis using False by (simp add: bit_simps)
    qed
    then show "take_bit 48 i = take_bit 48 j" by (intro bit_word_eqI) (auto simp: bit_simps)
  next
    assume e: "take_bit 48 i = take_bit 48 j"
    then have b: "bit i n \<longleftrightarrow> bit j n" if "n < 48" for n
    proof -
      have "bit (take_bit 48 i) n = bit (take_bit 48 j) n" using e by simp
      with that show ?thesis by (simp add: bit_simps)
    qed
    show "(ucast (drop_bit 32 i) :: u16) = ucast (drop_bit 32 j)"
      by (intro bit_word_eqI) (auto simp: bit_simps b)
    show "(ucast i :: u32) = ucast j" by (intro bit_word_eqI) (auto simp: bit_simps b)
  qed
  finally show ?thesis .
qed

lemma srtp_iv_inject:
  assumes "14 \<le> length salt"
  shows "srtp_iv salt ssrc i = srtp_iv salt ssrc' j \<longleftrightarrow> ssrc = ssrc' \<and> take_bit 48 i = take_bit 48 j"
  using assms by (simp add: srtp_iv_def xor_bytes_inject drop_2_be64)

section \<open>Outcomes of Unprotect\<close>

text \<open>Contexts as \<open>NewSrtpContext\<close> builds them for tag lengths up to the length of the MAC.\<close>

definition ctx_ok :: "SrtpContext \<Rightarrow> bool" where
  "ctx_ok c \<longleftrightarrow> length (sc_sessionKey c) = 16 \<and> length (sc_sessionSalt c) = 14 \<and>
     0 < sc_authTagLen c \<and> sc_authTagLen c \<le> 20"

text \<open>The index under which a datagram is checked against the replay window.\<close>

definition rx_index :: "SrtpContext \<Rightarrow> RtpHeader \<Rightarrow> u64" where
  "rx_index c h = rocIndex (estimateRoc c (rh_SequenceNumber h)) (rh_SequenceNumber h)"

definition rx_commit :: "SrtpContext \<Rightarrow> RtpHeader \<Rightarrow> SrtpContext" where
  "rx_commit c h = replayUpdate
     (commitRoc c (estimateRoc c (rh_SequenceNumber h)) (rh_SequenceNumber h)) (rx_index c h)"

lemma commitRoc_fields [simp]:
  "sc_sessionKey (commitRoc c v q) = sc_sessionKey c" "sc_sessionSalt (commitRoc c v q) = sc_sessionSalt c"
  "sc_authKey (commitRoc c v q) = sc_authKey c" "sc_authTagLen (commitRoc c v q) = sc_authTagLen c"
  "sc_replaySeen (commitRoc c v q) = sc_replaySeen c" "sc_replayHighest (commitRoc c v q) = sc_replayHighest c"
  "sc_replayWindow (commitRoc c v q) = sc_replayWindow c"
  by (simp_all add: commitRoc_def)

lemma replayUpdate_fields [simp]:
  "sc_sessionKey (replayUpdate c i) = sc_sessionKey c" "sc_sessionSalt (replayUpdate c i) = sc_sessionSalt c"
  "sc_authKey (replayUpdate c i) = sc_authKey c" "sc_authTagLen (replayUpdate c i) = sc_authTagLen c"
  "sc_roc (replayUpdate c i) = sc_roc c" "sc_lastSeq (replayUpdate c i) = sc_lastSeq c"
  "sc_initialized (replayUpdate c i) = sc_initialized c"
  by (simp_all add: replayUpdate_def Let_def)

lemma updateRoc_fields [simp]:
  "sc_sessionKey (updateRoc c q) = sc_sessionKey c" "sc_sessionSalt (updateRoc c q) = sc_sessionSalt c"
  "sc_authKey (updateRoc c q) = sc_authKey c" "sc_authTagLen (updateRoc c q) = sc_authTagLen c"
  by (simp_all add: updateRoc_def Let_def)

lemma ctx_ok_updates [simp]:
  "ctx_ok (updateRoc c q) = ctx_ok c" "ctx_ok (rx_commit c h) = ctx_ok c"
  by (simp_all add: ctx_ok_def rx_commit_def)

lemma replay_rep_commitRoc [simp]: "replay_rep (commitRoc c v q) S = replay_rep c S"
  by (simp add: replay_rep_def)

lemma ctx_ok_key: "ctx_ok c \<Longrightarrow> aes_key_ok (sc_sessionKey c)"
  by (simp add: ctx_ok_def aes_key_ok_def)

lemma computeAuthTag_tag:
  "n \<le> 20 \<Longrightarrow> computeAuthTag c data roc n = Some (take n (hmac_sha1 (sc_authKey c) (data @ be32 roc)))"
  by (simp add: computeAuthTag_def slice_def)

definition decrypt :: "SrtpContext \<Rightarrow> RtpHeader \<Rightarrow> u64 \<Rightarrow> bytes \<Rightarrow> bytes" where
  "decrypt c h i enc = ctr_xor (aes_encrypt (sc_sessionKey c)) (srtp_iv (sc_sessionSalt c) (rh_Ssrc h) i) enc"

definition srtp_tag :: "SrtpContext \<Rightarrow> bytes \<Rightarrow> u32 \<Rightarrow> bytes" where
  "srtp_tag c body roc = take (sc_authTagLen c) (hmac_sha1 (sc_authKey c) (body @ be32 roc))"

text \<open>A datagram is split into the authenticated part and the tag; every outcome but acceptance
  returns an error and the context unchanged.\<close>

lemma Unprotect_cases:
  assumes "ctx_ok c"
  obtains (reject) e where "Unprotect c data = Some (Inl e, c)"
  | (accept) h enc body tag where
      "DecodeRtpHeader data = Some (Inr h)" "data = body @ tag" "length tag = sc_authTagLen c"
      "length body = RtpHeader_Size h + length enc" "enc \<noteq> []" "enc = drop (RtpHeader_Size h) body"
      "tag = srtp_tag c body (estimateRoc c (rh_SequenceNumber h))"
      "replayCheck c (rx_index c h) = None"
      "Unprotect c data = Some (Inr \<lparr>rp_Header = h, rp_Payload = decrypt c h (rx_index c h) enc\<rparr>, rx_commit c h)"
proof (cases "length data < 12")
  case True
  then show ?thesis by (intro reject) (simp add: Unprotect_def)
next
  case len: False
  obtain r where r: "DecodeRtpHeader data = Some r" using DecodeRtpHeader_total by blast
  show ?thesis
  proof (cases r)
    case (Inl e)
    with len r show ?thesis by (intro reject) (simp add: Unprotect_def)
  next
    case (Inr h)
    let ?n = "RtpHeader_Size h" and ?t = "sc_authTagLen c"
    let ?m = "length data - ?t" and ?roc = "estimateRoc c (rh_SequenceNumber h)"
    show ?thesis
    proof (cases "length data \<le> ?n + ?t \<or> replayCheck c (rx_index c h) \<noteq> None")
      case True
      with len r Inr have "\<exists>e. Unprotect c data = Some (Inl e, c)"
        by (cases "length data \<le> ?n + ?t") (auto simp: Unprotect_def Let_def rx_index_def)
      with reject show ?thesis by blast
    next
      case False
      then have m: "?n + (length data - ?n - ?t) = ?m" "?n < ?m" "?t \<le> length data" by auto
      let ?body = "take ?m data" and ?tag = "drop ?m data"
      have t20: "?t \<le> 20" using assms by (simp add: ctx_ok_def)
      have eq: "Unprotect c data =
        (if srtp_tag c ?body ?roc \<noteq> ?tag then Some (Inl SrtpErrAuthFailed, c)
         else Some (Inr \<lparr>rp_Header = h, rp_Payload = decrypt c h (rx_index c h) (drop ?n ?body)\<rparr>, rx_commit c h))"
        using len r Inr False m assms ctx_ok_key [OF assms]
        by (simp add: Unprotect_def Let_def rx_index_def rx_commit_def decrypt_def srtp_tag_def aesCtrXor_def
             computeAuthTag_tag [OF t20] slice_def slice_from_def generateIV_iv ctx_ok_def drop_take)
      show ?thesis
      proof (cases "srtp_tag c ?body ?roc = ?tag")
        case True
        with eq r Inr False m show ?thesis
          by (intro accept [of h ?body ?tag "drop ?n ?body"]) auto
      qed (auto intro: reject simp: eq)
    qed
  qed
qed

section \<open>Receiving any sequence of datagrams\<close>

text \<open>The indices of the packets a context accepts from a sequence of datagrams, in order, and the
  context afterwards; \<open>None\<close> if a call panics.\<close>

fun accepted :: "SrtpContext \<Rightarrow> bytes list \<Rightarrow> (u64 list \<times> SrtpContext) go" where
  "accepted c [] = Some ([], c)"
| "accepted c (d # ds) = do {
     (r, c') \<leftarrow> Unprotect c d;
     (is, t) \<leftarrow> accepted c' ds;
     Some (case r of Inl _ \<Rightarrow> (is, t) | Inr p \<Rightarrow> (rx_index c (rp_Header p) # is, t)) }"

lemma accepted_total:
  "ctx_ok c \<Longrightarrow> \<exists>is t. accepted c ds = Some (is, t) \<and> srtp_replay.admission c is t \<and> ctx_ok t"
proof (induction ds arbitrary: c)
  case Nil
  then show ?case by (auto intro: srtp_replay.nothing)
next
  case (Cons d ds)
  from Cons.prems show ?case
  proof (cases rule: Unprotect_cases [of c d])
    case (reject e)
    with Cons.IH [OF Cons.prems] show ?thesis by auto
  next
    case (accept h enc body tag)
    have "ctx_ok (rx_commit c h)" using Cons.prems by simp
    from Cons.IH [OF this] obtain xs t where
      t: "accepted (rx_commit c h) ds = Some (xs, t)" "srtp_replay.admission (rx_commit c h) xs t" "ctx_ok t"
      by auto
    have "srtp_replay.admission (replayUpdate c (rx_index c h)) xs t"
      using t(2) by (rule srtp_replay.other [rotated])
        (auto simp: rx_commit_def replay_rep_def replayUpdate_def Let_def)
    then have "srtp_replay.admission c (rx_index c h # xs) t"
      using accept(8) by (intro srtp_replay.admit)
    with accept(9) t show ?thesis by auto
  qed
qed

section \<open>In-order streams with losses\<close>

text \<open>Natural packet indices: roll-over counter and sequence number.\<close>

lemma unat_rocIndex: "unat (rocIndex roc seq) = unat roc * 65536 + unat seq"
proof -
  have "push_bit 16 (ucast roc :: u64) AND ucast seq = 0"
    by (rule bit_word_eqI) (auto simp: bit_simps dest: bit_imp_le_length)
  then have "rocIndex roc seq = push_bit 16 (ucast roc) + ucast seq"
    unfolding rocIndex_def by (rule disjunctive_add_eq_or [symmetric])
  moreover have r: "unat (ucast roc :: u64) = unat roc" "unat roc < 2 ^ 32"
    using unsigned_less [of roc, where ?'a = nat] by (simp_all add: unsigned_ucast_eq take_bit_nat_eq_self)
  moreover have q: "unat (ucast seq :: u64) = unat seq" "unat seq < 2 ^ 16"
    using unsigned_less [of seq, where ?'a = nat] by (simp_all add: unsigned_ucast_eq take_bit_nat_eq_self)
  moreover have "unat (push_bit 16 (ucast roc :: u64)) = unat roc * 65536"
    using r by (subst unsigned_push_bit_eq) (simp add: push_bit_eq_mult take_bit_nat_eq_self)
  ultimately show ?thesis
    by (simp add: unat_add_lem [THEN iffD1])
qed

text \<open>\<open>at_index i c\<close>: the last index the context processed is \<open>i\<close>, if any.\<close>

definition at_index :: "nat option \<Rightarrow> SrtpContext \<Rightarrow> bool" where
  "at_index io c \<longleftrightarrow>
     (case io of None \<Rightarrow> \<not> sc_initialized c \<and> sc_roc c = 0
      | Some i \<Rightarrow> sc_initialized c \<and> unat (sc_roc c) = i div 65536 \<and> unat (sc_lastSeq c) = i mod 65536)"

definition follows :: "nat option \<Rightarrow> nat \<Rightarrow> bool" where
  "follows io i \<longleftrightarrow> (case io of None \<Rightarrow> i < 65536 | Some l \<Rightarrow> l < i \<and> i < l + 32768)"

lemma index_split:
  assumes "unat seq = i mod 65536" "unat roc = i div 65536"
  shows "unat (rocIndex roc seq) = i"
  using assms by (simp add: unat_rocIndex)

lemma at_index_updateRoc:
  assumes "at_index io c" "follows io i" "i < 2 ^ 48" "unat seq = i mod 65536"
  shows "at_index (Some i) (updateRoc c seq)"
proof (cases io)
  case None
  with assms show ?thesis by (simp add: at_index_def follows_def updateRoc_def)
next
  case (Some l)
  let ?r = "unat (sc_roc c)" and ?s = "unat (sc_lastSeq c)"
  from Some assms have c: "sc_initialized c" "l = ?r * 65536 + ?s" "l < i" "i < l + 32768"
    by (auto simp: at_index_def follows_def)
  have s: "?s < 65536" using unsigned_less [of "sc_lastSeq c", where ?'a = nat] by simp
  have step: "i div 65536 = ?r \<and> ?s < i mod 65536 \<and> i mod 65536 < ?s + 32768 \<or>
     i div 65536 = ?r + 1 \<and> i mod 65536 + 32768 < ?s"
    using c s by (intro index_step) auto
  then have wrap: "uint seq - uint (sc_lastSeq c) < -32768 \<longleftrightarrow> i div 65536 = ?r + 1"
    "i div 65536 = ?r + 1 \<or> i div 65536 = ?r"
    unfolding uint_nat assms(4) by linarith+
  have "unat (sc_roc c + 1) = ?r + 1" if "i div 65536 = ?r + 1"
    using assms(3) that by (subst unat_add_lem [THEN iffD1]) auto
  with wrap c assms(4) show ?thesis
    by (auto simp: at_index_def updateRoc_def Let_def)
qed

lemma estimateRoc_next:
  assumes "at_index io c" "follows io i" "i < 2 ^ 48" "unat seq = i mod 65536"
  shows "unat (estimateRoc c seq) = i div 65536"
    and "at_index (Some i) (commitRoc c (estimateRoc c seq) seq)"
proof -
  have "unat (estimateRoc c seq) = i div 65536 \<and> at_index (Some i) (commitRoc c (estimateRoc c seq) seq)"
  proof (cases io)
    case None
    with assms show ?thesis by (simp add: at_index_def follows_def estimateRoc_def commitRoc_def)
  next
    case (Some l)
    let ?r = "unat (sc_roc c)" and ?s = "unat (sc_lastSeq c)"
    from Some assms have c: "sc_initialized c" "l = ?r * 65536 + ?s" "l < i" "i < l + 32768"
      by (auto simp: at_index_def follows_def)
    have s: "?s < 65536" using unsigned_less [of "sc_lastSeq c", where ?'a = nat] by simp
    have "i div 65536 = ?r \<and> ?s < i mod 65536 \<and> i mod 65536 < ?s + 32768 \<or>
       i div 65536 = ?r + 1 \<and> i mod 65536 + 32768 < ?s"
      using c s by (intro index_step) auto
    then consider (same) "i div 65536 = ?r" "?s < i mod 65536" "i mod 65536 < ?s + 32768"
      | (wrap) "i div 65536 = ?r + 1" "i mod 65536 + 32768 < ?s" by blast
    then show ?thesis
    proof cases
      case same
      then have "\<not> uint seq - uint (sc_lastSeq c) > 0x8000" "\<not> uint (sc_lastSeq c) - uint seq > 0x8000"
        unfolding uint_nat assms(4) by linarith+
      then have "estimateRoc c seq = sc_roc c" by (simp add: estimateRoc_def)
      with same c(1) assms(4) show ?thesis by (simp add: at_index_def commitRoc_def word_less_nat_alt)
    next
      case wrap
      then have "uint (sc_lastSeq c) - uint seq > 0x8000" "\<not> sc_lastSeq c < 0x8000"
        unfolding uint_nat assms(4) by (linarith, simp add: word_less_nat_alt)
      then have e: "estimateRoc c seq = sc_roc c + 1" using c(1) by (simp add: estimateRoc_def)
      have "unat (sc_roc c + 1) = ?r + 1"
        using assms(3) wrap by (subst unat_add_lem [THEN iffD1]) auto
      with e wrap c(1) assms(4) show ?thesis by (simp add: at_index_def commitRoc_def)
    qed
  qed
  then show "unat (estimateRoc c seq) = i div 65536"
    and "at_index (Some i) (commitRoc c (estimateRoc c seq) seq)" by auto
qed

text \<open>What \<open>Protect\<close> emits.\<close>

definition protected_body :: "SrtpContext \<Rightarrow> RtpPacket \<Rightarrow> u64 \<Rightarrow> bytes" where
  "protected_body c p i = rtp_header_bytes (rp_Header p) @ decrypt c (rp_Header p) i (rp_Payload p)"

lemma length_decrypt: "ctx_ok c \<Longrightarrow> length (decrypt c h i e) = length e"
  unfolding decrypt_def by (rule aes.length_ctr) (auto simp: ctx_ok_key ctx_ok_def)

lemma decrypt_twice: "ctx_ok c \<Longrightarrow> decrypt c h i (decrypt c h i e) = e"
  unfolding decrypt_def by (rule aes.ctr_twice) (auto simp: ctx_ok_key ctx_ok_def)

lemma length_srtp_tag: "ctx_ok c \<Longrightarrow> length (srtp_tag c b r) = sc_authTagLen c"
  by (simp add: srtp_tag_def ctx_ok_def)

lemma Protect_bytes:
  assumes "ctx_ok c" "unat (rh_CsrcCount (rp_Header p)) = length (rh_Csrc (rp_Header p))"
  defines "c' \<equiv> updateRoc c (rh_SequenceNumber (rp_Header p))"
  defines "i \<equiv> rocIndex (sc_roc c') (rh_SequenceNumber (rp_Header p))"
  shows "Protect c p = Some (Inr (protected_body c p i @ srtp_tag c (protected_body c p i) (sc_roc c')), c')"
proof -
  let ?h = "rp_Header p" and ?e = "decrypt c (rp_Header p) i (rp_Payload p)" and ?n = "RtpHeader_Size (rp_Header p)"
  let ?t = "sc_authTagLen c" and ?b = "protected_body c p i"
  have c': "sc_authTagLen c' = ?t" "sc_sessionKey c' = sc_sessionKey c" "sc_sessionSalt c' = sc_sessionSalt c"
    "sc_authKey c' = sc_authKey c"
    by (simp_all add: c'_def)
  have ok: "14 \<le> length (sc_sessionSalt c')" "aes_key_ok (sc_sessionKey c)" "0 < ?t" "?t \<le> 20"
    using assms(1) by (auto simp: c' ctx_ok_def aes_key_ok_def)
  have lh: "length (rtp_header_bytes ?h) = ?n" by (rule length_rtp_header_bytes [OF assms(2)])
  have le: "length ?e = length (rp_Payload p)" by (rule length_decrypt [OF assms(1)])
  have enc: "RtpHeader_Encode ?h (replicate (?n + length (rp_Payload p) + ?t) 0) =
     Some (Inr (rtp_header_bytes ?h @ replicate (length (rp_Payload p) + ?t) 0, ?n))"
    using assms(2) by (subst RtpHeader_Encode_bytes) simp_all
  have cp: "copy_at (rtp_header_bytes ?h @ replicate (length (rp_Payload p) + ?t) 0) ?n ?e = Some (?b @ replicate ?t 0)"
    using lh le by (simp add: copy_at_append protected_body_def)
  have lb: "length ?b = ?n + length (rp_Payload p)" by (simp add: protected_body_def lh le)
  have tag: "computeAuthTag c' ?b (sc_roc c') ?t = Some (srtp_tag c ?b (sc_roc c'))"
    using ok(4) by (simp add: computeAuthTag_tag srtp_tag_def c')
  have ct: "copy_at (?b @ replicate ?t 0) (?n + length (rp_Payload p)) (srtp_tag c ?b (sc_roc c')) =
     Some (?b @ srtp_tag c ?b (sc_roc c'))"
    using lb length_srtp_tag [OF assms(1)] by (simp add: copy_at_append)
  have sl: "slice (?b @ replicate ?t 0) 0 (?n + length (rp_Payload p)) = Some ?b"
    using lb by (simp add: slice_def)
  have ax: "aesCtrXor (sc_sessionKey c) (srtp_iv (sc_sessionSalt c) (rh_Ssrc ?h) i) (rp_Payload p) = Inr ?e"
    using ok(2) by (simp add: aesCtrXor_def decrypt_def)
  have pi: "packetIndex c' (rh_SequenceNumber ?h) = i" by (simp add: packetIndex_def i_def)
  show ?thesis
    using ok by (simp add: Protect_def flip: c'_def)
      (simp add: c' enc cp tag sl ct ax pi generateIV_iv [OF ok(1)])
qed

section \<open>Transmission\<close>

definition same_keys :: "SrtpContext \<Rightarrow> SrtpContext \<Rightarrow> bool" where
  "same_keys s r \<longleftrightarrow> sc_sessionKey s = sc_sessionKey r \<and> sc_sessionSalt s = sc_sessionSalt r \<and>
     sc_authKey s = sc_authKey r \<and> sc_authTagLen s = sc_authTagLen r"

lemma same_keys_funs:
  "same_keys s r \<Longrightarrow> srtp_tag s = srtp_tag r" "same_keys s r \<Longrightarrow> decrypt s = decrypt r"
  "same_keys s r \<Longrightarrow> protected_body s = protected_body r" "same_keys s r \<Longrightarrow> ctx_ok s \<longleftrightarrow> ctx_ok r"
  by (simp_all add: same_keys_def srtp_tag_def decrypt_def protected_body_def ctx_ok_def fun_eq_iff)

lemma same_keys_updates [simp]:
  "same_keys (updateRoc s q) r = same_keys s r" "same_keys s (rx_commit r h) = same_keys s r"
  by (simp_all add: same_keys_def rx_commit_def)

definition rx_at :: "nat option \<Rightarrow> SrtpContext \<Rightarrow> bool" where
  "rx_at io r \<longleftrightarrow> at_index io r \<and>
     (case io of None \<Rightarrow> \<not> sc_replaySeen r | Some i \<Rightarrow> sc_replaySeen r \<and> unat (sc_replayHighest r) = i)"

definition packet_ok :: "RtpPacket \<Rightarrow> bool" where
  "packet_ok p \<longleftrightarrow> rtp_wf (rp_Header p) \<and> rp_Payload p \<noteq> []"

text \<open>A protected packet with the next index is accepted and decrypted.\<close>

lemma Unprotect_protected:
  assumes "ctx_ok r" "packet_ok p" "rx_at lr r" "follows lr i" "i < 2 ^ 48"
    and "unat (rh_SequenceNumber (rp_Header p)) = i mod 65536" "unat roc = i div 65536"
  defines "ix \<equiv> rocIndex roc (rh_SequenceNumber (rp_Header p))"
  shows "Unprotect r (protected_body r p ix @ srtp_tag r (protected_body r p ix) roc) =
     Some (Inr p, rx_commit r (rp_Header p)) \<and> rx_at (Some i) (rx_commit r (rp_Header p))"
proof -
  let ?h = "rp_Header p" and ?b = "protected_body r p ix"
  let ?data = "?b @ srtp_tag r ?b roc"
  from assms(3) have at: "at_index lr r" by (simp add: rx_at_def)
  note est = estimateRoc_next [OF at assms(4-6)]
  have roc: "estimateRoc r (rh_SequenceNumber ?h) = roc"
    using est(1) assms(7) by (simp add: word_unat_eq_iff)
  then have ix: "rx_index r ?h = ix" by (simp add: rx_index_def ix_def)
  have uix: "unat ix = i" unfolding ix_def by (rule index_split [OF assms(6,7)])
  have new: "\<not> sc_replaySeen r \<or> ix > sc_replayHighest r"
    using assms(3,4) uix by (auto simp: rx_at_def follows_def word_less_nat_alt split: option.splits)
  then have chk: "replayCheck r ix = None" by (auto simp: replayCheck_def)
  have wf: "rtp_wf ?h" "unat (rh_CsrcCount ?h) = length (rh_Csrc ?h)" "rp_Payload p \<noteq> []"
    using assms(2) by (auto simp: packet_ok_def rtp_wf_def)
  have lb: "length ?b = RtpHeader_Size ?h + length (rp_Payload p)"
    using wf(2) by (simp add: protected_body_def length_rtp_header_bytes length_decrypt assms(1))
  have d: "DecodeRtpHeader ?data = Some (Inr ?h)"
    unfolding protected_body_def append_assoc by (rule DecodeRtpHeader_bytes [OF wf(1)])
  have db: "drop (RtpHeader_Size ?h) ?b = decrypt r ?h ix (rp_Payload p)"
    using wf(2) by (simp add: protected_body_def length_rtp_header_bytes)
  have lt: "length (srtp_tag r ?b roc) = sc_authTagLen r" by (rule length_srtp_tag [OF assms(1)])
  have "Unprotect r ?data = Some (Inr p, rx_commit r ?h)"
    using assms(1)
  proof (cases rule: Unprotect_cases [of r ?data])
    case (reject e)
    have "length ?data > RtpHeader_Size ?h + sc_authTagLen r" using lb lt wf(3) by simp
    with reject d chk roc ix lb lt assms(1) RtpHeader_Size_min [of ?h] show ?thesis
      by (simp add: Unprotect_def Let_def rx_index_def slice_def slice_from_def computeAuthTag_tag ctx_ok_def
           srtp_tag_def generateIV_iv aesCtrXor_def aes_key_ok_def split: if_splits)
  next
    case (accept h enc body tag)
    have "h = ?h" using accept(1) d by simp
    moreover have "body = ?b" using accept(2,3) lt by (metis append_eq_append_conv)
    ultimately show ?thesis using accept(6,9) ix db decrypt_twice [OF assms(1)] by simp
  qed
  moreover have "rx_at (Some i) (rx_commit r ?h)"
    using est(2) new uix roc ix
    by (auto simp: rx_at_def rx_commit_def at_index_def replayUpdate_def Let_def)
  ultimately show ?thesis by blast
qed

text \<open>A sender protects a sequence of packets, the flagged ones reach the receiver in order.\<close>

fun transmit :: "SrtpContext \<Rightarrow> SrtpContext \<Rightarrow> (RtpPacket \<times> bool \<times> nat) list \<Rightarrow> RtpPacket list go" where
  "transmit s r [] = Some []"
| "transmit s r ((p, delivered, _) # ps) = do {
     (res, s') \<leftarrow> Protect s p;
     case res of
       Inl _ \<Rightarrow> None
     | Inr data \<Rightarrow>
         if \<not> delivered then transmit s' r ps
         else do {
           (res, r') \<leftarrow> Unprotect r data;
           case res of
             Inl _ \<Rightarrow> None
           | Inr q \<Rightarrow> do { qs \<leftarrow> transmit s' r' ps; Some (q # qs) } } }"

text \<open>The packets carry increasing indices, each in sequence with the one sent and the one delivered
  before it: fewer than \<open>2^15\<close> ahead, the first below \<open>2^16\<close>, all below \<open>2^48\<close>.\<close>

fun stream_ok :: "nat option \<Rightarrow> nat option \<Rightarrow> (RtpPacket \<times> bool \<times> nat) list \<Rightarrow> bool" where
  "stream_ok ls lr [] \<longleftrightarrow> True"
| "stream_ok ls lr ((p, delivered, i) # ps) \<longleftrightarrow>
     packet_ok p \<and> i < 2 ^ 48 \<and> unat (rh_SequenceNumber (rp_Header p)) = i mod 65536 \<and>
     follows ls i \<and> (delivered \<longrightarrow> follows lr i) \<and>
     stream_ok (Some i) (if delivered then Some i else lr) ps"

lemma transmit_stream:
  "ctx_ok r \<Longrightarrow> same_keys s r \<Longrightarrow> at_index ls s \<Longrightarrow> rx_at lr r \<Longrightarrow> stream_ok ls lr ps \<Longrightarrow>
   transmit s r ps = Some (map fst (filter (\<lambda>x. fst (snd x)) ps))"
proof (induction ps arbitrary: s r ls lr)
  case (Cons a ps)
  obtain p d i where a: "a = (p, d, i)" by (cases a) auto
  let ?q = "rh_SequenceNumber (rp_Header p)"
  let ?s = "updateRoc s ?q"
  from Cons.prems(5) have st: "packet_ok p" "i < 2 ^ 48" "unat ?q = i mod 65536" "follows ls i"
      "d \<Longrightarrow> follows lr i" "stream_ok (Some i) (if d then Some i else lr) ps"
    by (auto simp: a)
  have at: "at_index (Some i) ?s" by (rule at_index_updateRoc [OF Cons.prems(3) st(4,2,3)])
  then have roc: "unat (sc_roc ?s) = i div 65536" by (simp add: at_index_def)
  have cnt: "unat (rh_CsrcCount (rp_Header p)) = length (rh_Csrc (rp_Header p))"
    using st(1) by (simp add: packet_ok_def rtp_wf_def)
  have ok: "ctx_ok s" using same_keys_funs(4) [OF Cons.prems(2)] Cons.prems(1) by simp
  let ?ix = "rocIndex (sc_roc ?s) ?q" and ?roc = "sc_roc ?s"
  have pr: "Protect s p = Some (Inr (protected_body r p ?ix @ srtp_tag r (protected_body r p ?ix) ?roc), ?s)"
    using Protect_bytes [OF ok cnt] same_keys_funs [OF Cons.prems(2)] by simp
  show ?case
  proof (cases d)
    case False
    with st(6) at pr Cons.prems Cons.IH [of r ?s "Some i" lr] show ?thesis by (simp add: a)
  next
    case True
    note un = Unprotect_protected [OF Cons.prems(1) st(1) Cons.prems(4) st(5) [OF True] st(2,3) roc]
    from un have "transmit ?s (rx_commit r (rp_Header p)) ps = Some (map fst (filter (\<lambda>x. fst (snd x)) ps))"
      using True st(6) at Cons.prems by (intro Cons.IH) auto
    with un True pr show ?thesis by (simp add: a)
  qed
qed simp

section \<open>New contexts\<close>

lemma deriveSrtpKey_ok:
  "length mk = 16 \<Longrightarrow> 14 \<le> length salt \<Longrightarrow> \<exists>k. deriveSrtpKey mk salt label n = Some (Inr k) \<and> length k = n"
  using copy_salt [of "take 14 salt"]
  by (auto simp: deriveSrtpKey_def slice_def aesCtrXor_def aes_key_ok_def aes.length_ctr)

definition keying_ok :: "SrtpKeyingMaterial \<Rightarrow> bool" where
  "keying_ok k \<longleftrightarrow> length (km_MasterKey k) = 16 \<and> 14 \<le> length (km_MasterSalt k)"

lemma deriveSrtpKey_length:
  "deriveSrtpKey mk salt label n = Some (Inr k) \<Longrightarrow> length k = n"
  using copy_salt [of "take 14 salt"]
  by (auto simp: deriveSrtpKey_def slice_def aesCtrXor_def aes.length_ctr split: if_splits)

lemma NewSrtpContext_new:
  assumes "NewSrtpContext keying tagLen = Some (Inr c)" "tagLen \<le> 20"
  shows "ctx_ok c" "at_index None c" "rx_at None c" "replay_rep c {}"
  using assms
  by (auto simp: NewSrtpContext_def go_try_eq_Inr_iff ctx_ok_def at_index_def rx_at_def replay_rep_def
      SRTPAuthTagLen_def dest!: deriveSrtpKey_length)

lemma NewSrtpContext_total:
  assumes "keying_ok keying"
  shows "\<exists>c. NewSrtpContext keying tagLen = Some (Inr c)"
proof -
  have "\<exists>k. deriveSrtpKey (km_MasterKey keying) (km_MasterSalt keying) label n = Some (Inr k)" for label n
    using assms deriveSrtpKey_ok [of "km_MasterKey keying" "km_MasterSalt keying" label n]
    by (auto simp: keying_ok_def)
  then obtain k where "deriveSrtpKey (km_MasterKey keying) (km_MasterSalt keying) label n = Some (Inr (k label n))"
    for label n by metis
  then show ?thesis by (simp add: NewSrtpContext_def Let_def)
qed

section \<open>Properties\<close>

text \<open>The keying material, packets and losses of the witnesses below.\<close>

definition sample_keying :: SrtpKeyingMaterial where
  "sample_keying = \<lparr>km_MasterKey = replicate 16 7, km_MasterSalt = replicate 14 9\<rparr>"

definition sample_packet :: "u16 \<Rightarrow> RtpPacket" where
  "sample_packet seq = \<lparr>rp_Header = NewRtpHeader 120 seq 0 42, rp_Payload = [1, 2, 3]\<rparr>"

lemma packet_ok_sample: "packet_ok (sample_packet seq)"
  by (simp add: packet_ok_def sample_packet_def rtp_wf_def NewRtpHeader_def rtpVersion_def)

lemma sample_context: "\<exists>c. NewSrtpContext sample_keying 4 = Some (Inr c)"
  by (rule NewSrtpContext_total) (simp add: keying_ok_def sample_keying_def)

text \<open>
  Claim C12. A stream of well-formed RTP packets with payload, sent in order with any losses in
  between, is decrypted exactly: the receiver, a context made from the same keying material,
  returns every delivered packet unchanged, across any number of 16-bit sequence number
  roll-overs, as long as successive sent packets and successive delivered packets are less than
  \<open>2^15\<close> sequence numbers apart and the packet index stays below \<open>2^48\<close>.
\<close>

theorem srtp_stream_roundtrip:
  assumes "NewSrtpContext keying tagLen = Some (Inr c)" "tagLen \<le> 20" "stream_ok None None ps"
  shows "transmit c c ps = Some (map fst (filter (\<lambda>x. fst (snd x)) ps))"
  using NewSrtpContext_new [OF assms(1,2)] assms(3)
  by (intro transmit_stream [where ls = None and lr = None]) (auto simp: same_keys_def)

theorem srtp_stream_roundtrip_witness:
  "\<exists>c. NewSrtpContext sample_keying 4 = Some (Inr c) \<and>
     transmit c c [(sample_packet 65534, True, 65534), (sample_packet 65535, False, 65535),
                   (sample_packet 0, True, 65536), (sample_packet 20000, True, 85536)] =
     Some [sample_packet 65534, sample_packet 0, sample_packet 20000]"
proof -
  obtain c where c: "NewSrtpContext sample_keying 4 = Some (Inr c)" using sample_context by blast
  have "stream_ok None None [(sample_packet 65534, True, 65534), (sample_packet 65535, False, 65535),
     (sample_packet 0, True, 65536), (sample_packet 20000, True, 85536)]"
    by (simp add: packet_ok_sample follows_def) (simp add: sample_packet_def NewRtpHeader_def)
  from srtp_stream_roundtrip [OF c _ this] c show ?thesis by auto
qed

text \<open>
  Claim C16. Whatever datagrams arrive, in whatever order and however often, a receiving context
  never panics and never accepts two packets under the same 48-bit packet index.
\<close>

theorem srtp_no_replay:
  assumes "NewSrtpContext keying tagLen = Some (Inr c)" "tagLen \<le> 20"
  shows "\<exists>ixs c'. accepted c ds = Some (ixs, c') \<and> distinct ixs"
proof -
  from accepted_total NewSrtpContext_new(1) [OF assms] obtain ixs t where
    "accepted c ds = Some (ixs, t)" "srtp_replay.admission c ixs t" by blast
  with srtp_replay.admission_distinct NewSrtpContext_new(4) [OF assms] show ?thesis by blast
qed

theorem srtp_no_replay_witness:
  "\<exists>c ixs c'. NewSrtpContext sample_keying 4 = Some (Inr c) \<and>
     accepted c [replicate 20 0x80, replicate 20 0x80] = Some (ixs, c') \<and> distinct ixs"
proof -
  obtain c where c: "NewSrtpContext sample_keying 4 = Some (Inr c)" using sample_context by blast
  with srtp_no_replay [OF c, of "[replicate 20 0x80, replicate 20 0x80]"] show ?thesis by auto
qed

text \<open>
  Claim C17. The 64-entry replay window implements the set of accepted indices exactly: an index
  passes the check if and only if nothing was accepted yet, or it was not accepted before and is
  less than 64 below the highest accepted one; recording it adds it to the set.
\<close>

theorem replay_window_refines_set:
  assumes "replay_rep c S"
  shows "(replayCheck c i = None \<longleftrightarrow> S = {} \<or> i \<notin> S \<and> (\<forall>j\<in>S. unat j < unat i + 64)) \<and>
         replay_rep (replayUpdate c i) (insert i S)"
  using replayCheck_None_iff [OF assms] replayUpdate_rep [OF assms] by blast

theorem replay_window_refines_set_witness:
  "\<exists>c. replay_rep c {} \<and> replayCheck c 5 = None \<and> replay_rep (replayUpdate c 5) {5} \<and>
       replayCheck (replayUpdate c 5) 5 \<noteq> None"
proof -
  obtain c where c: "NewSrtpContext sample_keying 4 = Some (Inr c)" using sample_context by blast
  then have r: "replay_rep c {}" by (rule NewSrtpContext_new) simp
  have r5: "replay_rep (replayUpdate c 5) {5}" using replay_window_refines_set [OF r] by blast
  show ?thesis
    using r r5 replay_window_refines_set [OF r, of 5] replay_window_refines_set [OF r5, of 5]
    by (intro exI [of _ c]) auto
qed

text \<open>
  Claim C20. A datagram that is rejected, for whatever reason, leaves the receiving context as it
  was; an accepted one carries the correct authentication tag for everything before the tag under
  the estimated roll-over counter, and its index was admitted by the replay window.
\<close>

theorem unprotect_rejects_without_effect:
  assumes "ctx_ok c" "Unprotect c data = Some (res, c')"
  shows "case res of
      Inl e \<Rightarrow> c' = c
    | Inr p \<Rightarrow> \<exists>body tag. data = body @ tag \<and> length tag = sc_authTagLen c \<and>
        computeAuthTag c body (estimateRoc c (rh_SequenceNumber (rp_Header p))) (sc_authTagLen c) = Some tag \<and>
        replayCheck c (rx_index c (rp_Header p)) = None \<and>
        RtpHeader_Size (rp_Header p) + length (rp_Payload p) = length body"
  using assms(1)
proof (cases rule: Unprotect_cases [of c data])
  case (accept h enc body tag)
  have "length (decrypt c h (rx_index c h) enc) = length enc" by (rule length_decrypt [OF assms(1)])
  with accept assms show ?thesis
    by (auto simp: computeAuthTag_tag srtp_tag_def ctx_ok_def)
qed (use assms(2) in auto)

theorem unprotect_rejects_without_effect_witness:
  "\<exists>c. ctx_ok c \<and> Unprotect c [] = Some (Inl SrtpErrPacketTooShort, c)"
proof -
  obtain c where c: "NewSrtpContext sample_keying 4 = Some (Inr c)" using sample_context by blast
  then have ok: "ctx_ok c" by (rule NewSrtpContext_new) simp
  have e: "Unprotect c [] = Some (Inl SrtpErrPacketTooShort, snd (the (Unprotect c [])))"
    by (simp add: Unprotect_def)
  from unprotect_rejects_without_effect [OF ok e] ok e show ?thesis by auto
qed

text \<open>
  Claim C28. Two packets protected under one context use the same initial counter block only if
  they have the same SSRC and the same 48-bit packet index.
\<close>

theorem srtp_counter_block_unique:
  assumes "ctx_ok c" "generateIV c ssrc i = Some iv" "generateIV c ssrc' j = Some iv" "i < 2 ^ 48" "j < 2 ^ 48"
  shows "ssrc = ssrc' \<and> i = j"
proof -
  from assms(1) have s: "14 \<le> length (sc_sessionSalt c)" by (simp add: ctx_ok_def)
  then have "ssrc = ssrc' \<and> take_bit 48 i = take_bit 48 j"
    using assms(2,3) by (simp add: generateIV_iv srtp_iv_inject [OF s, symmetric])
  moreover have "unat i < 2 ^ 48" "unat j < 2 ^ 48"
    using assms(4,5) by (simp_all add: word_less_nat_alt)
  ultimately show ?thesis by (simp add: take_bit_word_small)
qed

theorem srtp_counter_block_unique_witness:
  "\<exists>c. ctx_ok c \<and> generateIV c 1 2 \<noteq> None \<and> generateIV c 1 2 \<noteq> generateIV c 1 3"
proof -
  obtain c where c: "NewSrtpContext sample_keying 4 = Some (Inr c)" using sample_context by blast
  then have ok: "ctx_ok c" by (rule NewSrtpContext_new) simp
  then obtain a b where "generateIV c 1 2 = Some a" "generateIV c 1 3 = Some b"
    by (auto simp: generateIV_iv ctx_ok_def)
  with srtp_counter_block_unique [OF ok, of 1 2 a 1 3] ok show ?thesis by fastforce
qed

end
