(* ===== verification/Srtcp.thy ===== *)
theory Srtcp
  imports Srtp
begin

text \<open>
  SRTCP protection: \<^verbatim>\<open>internal/voip/media/srtcp.go\<close>. A context is immutable; the index of a
  packet is an argument of \<open>Protect\<close> and travels in the trailer. The lemmas give the bytes of a
  protected packet, the round trip, and that nothing is accepted without the correct tag.
\<close>

definition srtcpLabelEncryption :: u8 where "srtcpLabelEncryption = 3"
definition srtcpLabelAuth :: u8 where "srtcpLabelAuth = 4"
definition srtcpLabelSalt :: u8 where "srtcpLabelSalt = 5"
definition srtcpAuthTagLen :: nat where "srtcpAuthTagLen = 10"
definition srtcpEncryptedFlag :: u32 where "srtcpEncryptedFlag = 0x80000000"
definition srtcpMaxIndex :: u32 where "srtcpMaxIndex = 0x7fffffff"

record SrtcpContext =
  rc_sessionKey :: bytes
  rc_sessionSalt :: bytes
  rc_authKey :: bytes

definition NewSrtcpContext :: "SrtpKeyingMaterial \<Rightarrow> (CipherError + SrtcpContext) go" where
  "NewSrtcpContext keying =
     go_try (deriveSrtpKey (km_MasterKey keying) (km_MasterSalt keying) srtcpLabelEncryption 16) (\<lambda>sk.
     go_try (deriveSrtpKey (km_MasterKey keying) (km_MasterSalt keying) srtcpLabelAuth 20) (\<lambda>ak.
     go_try (deriveSrtpKey (km_MasterKey keying) (km_MasterSalt keying) srtcpLabelSalt 14) (\<lambda>ss.
       Some (Inr \<lparr>rc_sessionKey = sk, rc_sessionSalt = ss, rc_authKey = ak\<rparr>))))"

definition srtcpIV :: "bytes \<Rightarrow> u32 \<Rightarrow> u64 \<Rightarrow> bytes go" where
  "srtcpIV salt ssrc index = do {
     salt \<leftarrow> slice salt 0 14;
     iv \<leftarrow> copy_at (replicate 16 0) 0 salt;
     let iv = xor_loop iv 4 (be32 ssrc);
     Some (xor_loop iv 8 (drop 2 (be64 index))) }"

text \<open>Encrypting everything behind the 8-byte header into the output buffer.\<close>

definition srtcp_encrypt :: "SrtcpContext \<Rightarrow> bytes \<Rightarrow> u32 \<Rightarrow> u32 \<Rightarrow> bytes \<Rightarrow> (SrtpErrorType + bytes) go" where
  "srtcp_encrypt c rtcp senderSsrc index out =
     (if 8 < length rtcp then do {
        iv \<leftarrow> srtcpIV (rc_sessionSalt c) senderSsrc (ucast index);
        src \<leftarrow> slice_from rtcp 8;
        case aesCtrXor (rc_sessionKey c) iv src of
          Inl _ \<Rightarrow> Some (Inl SrtpErrEncryption)
        | Inr enc \<Rightarrow> do { out \<leftarrow> copy_at out 8 enc; Some (Inr out) } }
      else Some (Inr out))"

definition SrtcpContext_Protect :: "SrtcpContext \<Rightarrow> bytes \<Rightarrow> u32 \<Rightarrow> (SrtpErrorType + bytes) go" where
  "SrtcpContext_Protect c rtcp index =
     (if length rtcp < 8 then Some (Inl SrtpErrPacketTooShort)
      else do {
        senderSsrc \<leftarrow> be_uint32 rtcp 4;
        let n = length rtcp;
        head \<leftarrow> slice rtcp 0 8;
        out \<leftarrow> copy_at (replicate (n + 4 + srtcpAuthTagLen) 0) 0 head;
        go_try (srtcp_encrypt c rtcp senderSsrc index out) (\<lambda>out. do {
          out \<leftarrow> write_at out n (be32 (srtcpEncryptedFlag OR (index AND srtcpMaxIndex)));
          body \<leftarrow> slice out 0 (n + 4);
          tag \<leftarrow> slice (hmac_sha1 (rc_authKey c) body) 0 srtcpAuthTagLen;
          out \<leftarrow> copy_at out (n + 4) tag;
          Some (Inr out) }) })"

text \<open>Recovering the plaintext of an authenticated packet into the output buffer.\<close>

definition srtcp_decrypt :: "SrtcpContext \<Rightarrow> bytes \<Rightarrow> u32 \<Rightarrow> nat \<Rightarrow> bytes \<Rightarrow> (SrtpErrorType + bytes) go" where
  "srtcp_decrypt c protected word plainLen out =
     (if 8 < plainLen then do {
        src \<leftarrow> slice protected 8 plainLen;
        if word AND srtcpEncryptedFlag \<noteq> 0 then do {
          ssrc \<leftarrow> be_uint32 protected 4;
          iv \<leftarrow> srtcpIV (rc_sessionSalt c) ssrc (ucast (word AND srtcpMaxIndex));
          case aesCtrXor (rc_sessionKey c) iv src of
            Inl _ \<Rightarrow> Some (Inl SrtpErrDecryption)
          | Inr dec \<Rightarrow> do { out \<leftarrow> copy_at out 8 dec; Some (Inr out) } }
        else do { out \<leftarrow> copy_at out 8 src; Some (Inr out) } }
      else Some (Inr out))"

definition SrtcpContext_Unprotect :: "SrtcpContext \<Rightarrow> bytes \<Rightarrow> (SrtpErrorType + bytes) go" where
  "SrtcpContext_Unprotect c protected =
     (let n = length protected in
      if n < 8 + 4 + srtcpAuthTagLen then Some (Inl SrtpErrPacketTooShort)
      else do {
        body \<leftarrow> slice protected 0 (n - srtcpAuthTagLen);
        expected \<leftarrow> slice (hmac_sha1 (rc_authKey c) body) 0 srtcpAuthTagLen;
        received \<leftarrow> slice_from protected (n - srtcpAuthTagLen);
        if expected \<noteq> received then Some (Inl SrtpErrAuthFailed)
        else do {
          trailer \<leftarrow> slice protected (n - 14) (n - 10);
          word \<leftarrow> be_uint32 trailer 0;
          head \<leftarrow> slice protected 0 8;
          out \<leftarrow> copy_at (replicate (n - 14) 0) 0 head;
          srtcp_decrypt c protected word (n - 14) out } })"

section \<open>The bytes of a protected packet\<close>

definition srtcp_ok :: "SrtcpContext \<Rightarrow> bool" where
  "srtcp_ok c \<longleftrightarrow> length (rc_sessionKey c) = 16 \<and> length (rc_sessionSalt c) = 14"

definition srtcp_crypt :: "SrtcpContext \<Rightarrow> u32 \<Rightarrow> u32 \<Rightarrow> bytes \<Rightarrow> bytes" where
  "srtcp_crypt c ssrc index b =
     ctr_xor (aes_encrypt (rc_sessionKey c)) (srtp_iv (rc_sessionSalt c) ssrc (ucast index)) b"

definition srtcp_body :: "SrtcpContext \<Rightarrow> bytes \<Rightarrow> u32 \<Rightarrow> u32 \<Rightarrow> bytes" where
  "srtcp_body c rtcp ssrc index = take 8 rtcp @ srtcp_crypt c ssrc index (drop 8 rtcp) @
     be32 (srtcpEncryptedFlag OR (index AND srtcpMaxIndex))"

lemma srtcpIV_iv: "length salt = 14 \<Longrightarrow> srtcpIV salt ssrc index = Some (srtp_iv salt ssrc index)"
  using xor_loops_iv [of salt] copy_salt [of salt] by (simp add: srtcpIV_def slice_def)

lemma length_srtcp_crypt: "srtcp_ok c \<Longrightarrow> length (srtcp_crypt c ssrc i b) = length b"
  unfolding srtcp_crypt_def by (rule aes.length_ctr) (auto simp: srtcp_ok_def aes_key_ok_def)

lemma srtcp_crypt_twice: "srtcp_ok c \<Longrightarrow> srtcp_crypt c ssrc i (srtcp_crypt c ssrc i b) = b"
  unfolding srtcp_crypt_def by (rule aes.ctr_twice) (auto simp: srtcp_ok_def aes_key_ok_def)

lemma srtcp_crypt_Nil [simp]: "srtcp_crypt c ssrc i [] = []"
  by (simp add: srtcp_crypt_def)

lemma length_srtcp_body: "srtcp_ok c \<Longrightarrow> 8 \<le> length r \<Longrightarrow> length (srtcp_body c r ssrc i) = length r + 4"
  by (simp add: srtcp_body_def length_srtcp_crypt)

lemma aesCtrXor_srtcp:
  "srtcp_ok c \<Longrightarrow> aesCtrXor (rc_sessionKey c) (srtp_iv (rc_sessionSalt c) ssrc (ucast i)) b = Inr (srtcp_crypt c ssrc i b)"
  by (simp add: srtcp_ok_def aesCtrXor_def aes_key_ok_def srtcp_crypt_def)

lemma copy_head: "8 \<le> length r \<Longrightarrow> 8 \<le> n \<Longrightarrow> copy_at (replicate n 0) 0 (take 8 r) = Some (take 8 r @ replicate (n - 8) 0)"
  for r :: bytes
  using copy_at_append [of "[]" 0 "take 8 r" "replicate n (0::u8)"] by simp

lemma srtcp_encrypt_bytes:
  assumes "srtcp_ok c" "8 \<le> length rtcp"
  shows "srtcp_encrypt c rtcp ssrc index (take 8 rtcp @ replicate (length rtcp + 6) 0) =
    Some (Inr ((take 8 rtcp @ srtcp_crypt c ssrc index (drop 8 rtcp)) @ replicate 14 0))"
proof (cases "8 < length rtcp")
  case True
  let ?e = "srtcp_crypt c ssrc index (drop 8 rtcp)"
  have "copy_at (take 8 rtcp @ replicate (length rtcp + 6) 0) 8 ?e = Some ((take 8 rtcp @ ?e) @ replicate 14 0)"
    using assms by (subst copy_at_append) (auto simp: length_srtcp_crypt)
  with True assms show ?thesis
    by (simp add: srtcp_encrypt_def srtcpIV_iv srtcp_ok_def slice_from_Some aesCtrXor_srtcp)
next
  case False
  with assms(2) have "length rtcp = 8" by simp
  then show ?thesis by (simp add: srtcp_encrypt_def)
qed

lemma SrtcpContext_Protect_bytes:
  fixes index :: u32
  assumes "srtcp_ok c" "8 \<le> length rtcp" "be_uint32 rtcp 4 = Some ssrc"
  defines "b \<equiv> srtcp_body c rtcp ssrc index"
  shows "SrtcpContext_Protect c rtcp index = Some (Inr (b @ take 10 (hmac_sha1 (rc_authKey c) b)))"
proof -
  let ?n = "length rtcp" and ?h = "take 8 rtcp" and ?e = "srtcp_crypt c ssrc index (drop 8 rtcp)"
  let ?w = "be32 (srtcpEncryptedFlag OR (index AND srtcpMaxIndex))"
  have h: "copy_at (replicate (?n + 14) 0) 0 ?h = Some (?h @ replicate (?n + 6) 0)"
    using assms(2) by (simp add: copy_head)
  have w: "write_at ((?h @ ?e) @ replicate 14 0) ?n ?w = Some (b @ replicate 10 0)"
    using assms(1,2) write_at_append [of "?h @ ?e" ?n ?w "replicate 14 (0::u8)"]
    by (simp add: b_def srtcp_body_def length_srtcp_crypt)
  have lb: "length b = ?n + 4" using assms by (simp add: b_def length_srtcp_body)
  have sl: "slice (b @ replicate 10 0) 0 (?n + 4) = Some b" using lb by (simp add: slice_def)
  have t: "copy_at (b @ replicate 10 0) (?n + 4) (take 10 (hmac_sha1 (rc_authKey c) b)) =
      Some (b @ take 10 (hmac_sha1 (rc_authKey c) b))"
    using lb by (simp add: copy_at_append)
  have s1: "slice rtcp 0 8 = Some ?h" "slice (hmac_sha1 (rc_authKey c) b) 0 10 = Some (take 10 (hmac_sha1 (rc_authKey c) b))"
    using assms(2) by (simp_all add: slice_def)
  show ?thesis
    using assms(2,3) unfolding SrtcpContext_Protect_def srtcpAuthTagLen_def Let_def
    by (simp add: s1 h [unfolded add.commute [of _ 14]] srtcp_encrypt_bytes [OF assms(1,2)] w sl t del: append_assoc)
qed

lemma SrtcpContext_Unprotect_bytes:
  assumes "srtcp_ok c" "8 \<le> length p" "length t = 10"
    "t = take 10 (hmac_sha1 (rc_authKey c) (p @ be32 word))"
  shows "SrtcpContext_Unprotect c (p @ be32 word @ t) =
    srtcp_decrypt c (p @ be32 word @ t) word (length p) (take 8 p @ replicate (length p - 8) 0)"
proof -
  let ?d = "p @ be32 word @ t" and ?b = "p @ be32 word"
  have "slice ?d 0 (length p + 4) = Some ?b" "slice_from ?d (length p + 4) = Some t"
    "slice ?d (length p) (length p + 4) = Some (be32 word)" "slice ?d 0 8 = Some (take 8 p)"
    "slice (hmac_sha1 (rc_authKey c) ?b) 0 10 = Some t"
    "be_uint32 (be32 word) 0 = Some word"
    using assms be_uint32_be32 [of word "[]"] by (simp_all add: slice_def slice_from_def)
  moreover have "copy_at (replicate (length p) 0) 0 (take 8 p) = Some (take 8 p @ replicate (length p - 8) 0)"
    using assms(2) by (simp add: copy_head)
  ultimately show ?thesis
    using assms(2,3) by (simp add: SrtcpContext_Unprotect_def srtcpAuthTagLen_def Let_def add.commute [of 4])
qed

lemma srtcp_index_small: "unat i < 2 ^ 31 \<Longrightarrow> i AND srtcpMaxIndex = i" for i :: u32
  by (simp add: srtcpMaxIndex_def and_masks take_bit_word_small)

lemma srtcp_word:
  assumes "unat index < 2 ^ 31"
  shows "(srtcpEncryptedFlag OR (index AND srtcpMaxIndex)) AND srtcpEncryptedFlag \<noteq> 0"
    and "(srtcpEncryptedFlag OR (index AND srtcpMaxIndex)) AND srtcpMaxIndex = index"
proof -
  have i: "index AND srtcpMaxIndex = index"
    using assms by (rule srtcp_index_small)
  have f: "srtcpEncryptedFlag = 2 ^ 31" "srtcpMaxIndex = mask 31"
    by (simp_all add: srtcpEncryptedFlag_def srtcpMaxIndex_def mask_eq_exp_minus_1)
  show "(srtcpEncryptedFlag OR (index AND srtcpMaxIndex)) AND srtcpEncryptedFlag \<noteq> 0"
    unfolding f by (simp add: and_exp_eq_0_iff_not_bit bit_simps)
  have "srtcpEncryptedFlag AND srtcpMaxIndex = 0" by (simp add: srtcpEncryptedFlag_def srtcpMaxIndex_def)
  with i show "(srtcpEncryptedFlag OR (index AND srtcpMaxIndex)) AND srtcpMaxIndex = index"
    by (simp add: bit.conj_disj_distrib2)
qed

lemma be_uint32_take8: "8 \<le> length r \<Longrightarrow> be_uint32 (take 8 r @ x) 4 = be_uint32 r 4"
  by (simp add: be_uint32_nth nth_append)

lemma srtcp_decrypt_bytes:
  assumes "srtcp_ok c" "8 \<le> length rtcp" "be_uint32 rtcp 4 = Some ssrc" "unat index < 2 ^ 31"
  defines "e \<equiv> srtcp_crypt c ssrc index (drop 8 rtcp)"
  shows "srtcp_decrypt c ((take 8 rtcp @ e) @ x) (srtcpEncryptedFlag OR (index AND srtcpMaxIndex)) (length rtcp)
     (take 8 (take 8 rtcp @ e) @ replicate (length rtcp - 8) 0) = Some (Inr rtcp)"
proof (cases "8 < length rtcp")
  case True
  have le: "length e = length rtcp - 8" using assms(1) by (simp add: e_def length_srtcp_crypt)
  have t8: "take 8 (take 8 rtcp @ e) = take 8 rtcp" using assms(2) by simp
  have sl: "slice ((take 8 rtcp @ e) @ x) 8 (length rtcp) = Some e"
    using le assms(2) slice_append_mid [of 8 "take 8 rtcp" _ e x] by simp
  have ss: "be_uint32 ((take 8 rtcp @ e) @ x) 4 = Some ssrc"
    using be_uint32_take8 [OF assms(2)] assms(3) by simp
  have iv: "srtcpIV (rc_sessionSalt c) ssrc (ucast index) = Some (srtp_iv (rc_sessionSalt c) ssrc (ucast index))"
    using assms(1) by (simp add: srtcpIV_iv srtcp_ok_def)
  have cp: "copy_at (take 8 rtcp @ replicate (length rtcp - 8) 0) 8 (drop 8 rtcp) = Some rtcp"
    using assms(2) by (subst copy_at_append) auto
  have dd: "aesCtrXor (rc_sessionKey c) (srtp_iv (rc_sessionSalt c) ssrc (ucast index)) e = Inr (drop 8 rtcp)"
    using aesCtrXor_srtcp [OF assms(1)] srtcp_crypt_twice [OF assms(1)] by (simp add: e_def)
  show ?thesis
    unfolding srtcp_decrypt_def srtcp_word(2) [OF assms(4)] t8
    using True srtcp_word(1) [OF assms(4)] by (simp add: sl ss iv dd cp del: append_assoc)
next
  case False
  with assms(2) have "length rtcp = 8" by simp
  then show ?thesis by (simp add: srtcp_decrypt_def e_def)
qed

lemma NewSrtcpContext_ok: "NewSrtcpContext keying = Some (Inr c) \<Longrightarrow> srtcp_ok c"
  by (auto simp: NewSrtcpContext_def go_try_eq_Inr_iff srtcp_ok_def dest!: deriveSrtpKey_length)

lemma NewSrtcpContext_total:
  assumes "keying_ok keying"
  shows "\<exists>c. NewSrtcpContext keying = Some (Inr c)"
proof -
  have "\<exists>k. deriveSrtpKey (km_MasterKey keying) (km_MasterSalt keying) label n = Some (Inr k)" for label n
    using assms deriveSrtpKey_ok [of "km_MasterKey keying" "km_MasterSalt keying" label n]
    by (auto simp: keying_ok_def)
  then obtain k where "deriveSrtpKey (km_MasterKey keying) (km_MasterSalt keying) label n = Some (Inr (k label n))"
    for label n by metis
  then show ?thesis by (simp add: NewSrtcpContext_def)
qed

text \<open>Protecting and unprotecting under one context; the index word follows the packet in the clear.\<close>

lemma srtcp_protect_unprotect:
  assumes ok: "srtcp_ok c" and "8 \<le> length rtcp" and ui: "unat index < 2 ^ 31"
  shows "\<exists>out. SrtcpContext_Protect c rtcp index = Some (Inr out) \<and> length out = length rtcp + 14 \<and>
           take 8 out = take 8 rtcp \<and> be_uint32 out (length rtcp) = Some (srtcpEncryptedFlag OR index) \<and>
           SrtcpContext_Unprotect c out = Some (Inr rtcp)"
proof -
  obtain ssrc where ssrc: "be_uint32 rtcp 4 = Some ssrc" using assms(2) by (simp add: be_uint32_nth)
  let ?p = "take 8 rtcp @ srtcp_crypt c ssrc index (drop 8 rtcp)"
  let ?w = "srtcpEncryptedFlag OR (index AND srtcpMaxIndex)"
  let ?t = "take 10 (hmac_sha1 (rc_authKey c) (?p @ be32 ?w))"
  have lp: "length ?p = length rtcp" using assms(2) ok by (simp add: length_srtcp_crypt)
  have out: "SrtcpContext_Protect c rtcp index = Some (Inr (?p @ be32 ?w @ ?t))"
    using SrtcpContext_Protect_bytes [OF ok assms(2) ssrc] by (simp add: srtcp_body_def)
  have w: "be_uint32 (?p @ be32 ?w @ ?t) (length rtcp) = Some ?w" using lp be_uint32_drop [of "?p @ be32 ?w @ ?t" "length rtcp"]
    by (simp add: be_uint32_be32)
  have "SrtcpContext_Unprotect c (?p @ be32 ?w @ ?t) =
      srtcp_decrypt c (?p @ be32 ?w @ ?t) ?w (length rtcp) (take 8 ?p @ replicate (length rtcp - 8) 0)"
    by (rule SrtcpContext_Unprotect_bytes [OF ok, of ?p ?t ?w, unfolded lp]) (use assms(2) in simp_all)
  also have "\<dots> = Some (Inr rtcp)" by (rule srtcp_decrypt_bytes [OF ok assms(2) ssrc ui])
  finally show ?thesis using out w lp assms(2) by (auto simp: srtcp_index_small [OF ui])
qed

text \<open>Unprotecting arbitrary bytes stays inside the slices.\<close>

lemma srtcp_decrypt_total:
  assumes "srtcp_ok c" "n \<le> length d" "length out = n"
  shows "\<exists>r. srtcp_decrypt c d word n out = Some r"
  using assms aesCtrXor_srtcp [OF assms(1)]
  by (auto simp: srtcp_decrypt_def srtcpIV_iv srtcp_ok_def slice_Some be_uint32_nth copy_at_def Let_def split: sum.split)

lemma SrtcpContext_Unprotect_total: "srtcp_ok c \<Longrightarrow> SrtcpContext_Unprotect c d \<noteq> None"
  by (auto simp: SrtcpContext_Unprotect_def Let_def slice_Some slice_from_Some srtcpAuthTagLen_def be_uint32_nth
      copy_at_def srtcp_decrypt_total)

section \<open>Properties\<close>

text \<open>
  Claim C27. An RTCP packet of at least eight bytes protected under an index below \<open>2^31\<close> grows by
  exactly the 4-byte index word and the 10-byte tag, keeps its 8-byte header in the clear, carries
  the index with the encryption flag after the packet, and is recovered by \<open>Unprotect\<close> under a
  context made from the same keying material.
\<close>

theorem srtcp_roundtrip:
  assumes "NewSrtcpContext keying = Some (Inr c)" "8 \<le> length rtcp" "index < 2 ^ 31"
  shows "\<exists>out. SrtcpContext_Protect c rtcp index = Some (Inr out) \<and> length out = length rtcp + 14 \<and>
           take 8 out = take 8 rtcp \<and> be_uint32 out (length rtcp) = Some (srtcpEncryptedFlag OR index) \<and>
           SrtcpContext_Unprotect c out = Some (Inr rtcp)"
  using NewSrtcpContext_ok [OF assms(1)] assms(2,3) by (intro srtcp_protect_unprotect) (simp_all add: word_less_nat_alt)

theorem srtcp_roundtrip_witness:
  "\<exists>c out. NewSrtcpContext sample_keying = Some (Inr c) \<and>
     SrtcpContext_Protect c (replicate 20 5) 3 = Some (Inr out) \<and> length out = 34 \<and>
     SrtcpContext_Unprotect c out = Some (Inr (replicate 20 5))"
proof -
  obtain c where c: "NewSrtcpContext sample_keying = Some (Inr c)"
    using NewSrtcpContext_total [of sample_keying] by (auto simp: keying_ok_def sample_keying_def)
  from srtcp_roundtrip [OF c, of "replicate 20 5" 3] c show ?thesis by auto
qed

end
