(* ===== verification/Text_Format.thy ===== *)
theory Text_Format
  imports Prelude
begin

text \<open>
  The functions of Go's \<^verbatim>\<open>strconv\<close>, \<^verbatim>\<open>strings\<close> and \<^verbatim>\<open>encoding/base64\<close> that the signaling and
  application code calls: decimal formatting and parsing with their ranges, substring search and the
  standard base64 alphabet. The round-trip lemmas are what the stanza and cursor theorems use.
\<close>

section \<open>Decimal numbers\<close>

definition digit_char :: "nat \<Rightarrow> char" where
  "digit_char n = char_of (48 + n)"

definition digit_val :: "char \<Rightarrow> nat option" where
  "digit_val c = (let n = of_char c in if 48 \<le> n \<and> n \<le> 57 then Some (n - 48) else None)"

fun show_nat :: "nat \<Rightarrow> string" where
  "show_nat n = (if n < 10 then [digit_char n] else show_nat (n div 10) @ [digit_char (n mod 10)])"

declare show_nat.simps [simp del]

definition Itoa :: "int \<Rightarrow> string" where
  "Itoa i = (if i < 0 then ''-'' @ show_nat (nat (- i)) else show_nat (nat i))"

fun read_digits :: "nat \<Rightarrow> string \<Rightarrow> nat option" where
  "read_digits acc [] = Some acc"
| "read_digits acc (c # cs) = (case digit_val c of None \<Rightarrow> None | Some d \<Rightarrow> read_digits (10 * acc + d) cs)"

definition read_nat :: "string \<Rightarrow> nat option" where
  "read_nat s = (if s = [] then None else read_digits 0 s)"

text \<open>\<open>strconv.Atoi\<close> on a 64-bit platform: an optional sign, decimal digits, in range.\<close>

definition Atoi :: "string \<Rightarrow> int option" where
  "Atoi s = (case s of
      [] \<Rightarrow> None
    | c # cs \<Rightarrow>
        (let (neg, ds) = (if c = CHR ''-'' then (True, cs) else if c = CHR ''+'' then (False, cs) else (False, s)) in
         case read_nat ds of
           None \<Rightarrow> None
         | Some n \<Rightarrow> (let i = (if neg then - int n else int n)
                      in if - (2 ^ 63) \<le> i \<and> i < 2 ^ 63 then Some i else None)))"

text \<open>\<open>strconv.ParseUint(s, 10, bits)\<close>.\<close>

definition ParseUint :: "nat \<Rightarrow> string \<Rightarrow> nat option" where
  "ParseUint bits s = (case read_nat s of None \<Rightarrow> None | Some n \<Rightarrow> if n < 2 ^ bits then Some n else None)"

lemma digit_val_char [simp]: "n < 10 \<Longrightarrow> digit_val (digit_char n) = Some n"
  by (simp add: digit_val_def digit_char_def of_char_of Let_def)

lemma show_nat_digits: "set (show_nat n) \<subseteq> digit_char ` {..<10}"
  by (induction n rule: show_nat.induct) (subst show_nat.simps, auto)

lemma show_nat_nonempty [simp]: "show_nat n \<noteq> []"
  by (subst show_nat.simps) simp

lemma read_digits_append:
  "read_digits acc (xs @ ys) = (case read_digits acc xs of None \<Rightarrow> None | Some a \<Rightarrow> read_digits a ys)"
  by (induction xs arbitrary: acc) (auto split: option.split)

lemma read_show_nat [simp]: "read_nat (show_nat n) = Some n"
proof -
  have "read_digits 0 (show_nat n) = Some n"
  proof (induction n rule: show_nat.induct)
    case (1 n)
    show ?case
    proof (cases "n < 10")
      case False
      then show ?thesis using 1 by (subst show_nat.simps) (simp add: read_digits_append)
    qed (subst show_nat.simps, simp)
  qed
  then show ?thesis by (simp add: read_nat_def)
qed

lemma show_nat_head: "show_nat n = c # cs \<Longrightarrow> c \<noteq> CHR ''-'' \<and> c \<noteq> CHR ''+''"
proof -
  assume "show_nat n = c # cs"
  then obtain d where "d < 10" "c = digit_char d" using show_nat_digits [of n] by auto
  then have "digit_val c = Some d" by simp
  then show ?thesis by (auto simp: digit_val_def)
qed

lemma Atoi_Itoa: "- (2 ^ 63) \<le> i \<Longrightarrow> i < 2 ^ 63 \<Longrightarrow> Atoi (Itoa i) = Some i"
proof (cases "i < 0")
  case False
  assume i: "- (2 ^ 63) \<le> i" "i < 2 ^ 63"
  obtain c cs where c: "show_nat (nat i) = c # cs" by (cases "show_nat (nat i)") auto
  then have "read_nat (c # cs) = Some (nat i)" using read_show_nat [of "nat i"] by simp
  then show ?thesis using False i show_nat_head [OF c] by (simp add: Atoi_def Itoa_def c)
qed (simp add: Atoi_def Itoa_def)

lemma ParseUint_Itoa: "0 \<le> i \<Longrightarrow> i < 2 ^ bits \<Longrightarrow> ParseUint bits (Itoa i) = Some (nat i)"
  by (simp add: ParseUint_def Itoa_def nat_less_iff)

lemma Itoa_nonempty [simp]: "Itoa i \<noteq> []"
  by (simp add: Itoa_def)

section \<open>Substring search\<close>

text \<open>\<open>strings.Index(s, c)\<close> for a one-character pattern.\<close>

fun Index :: "string \<Rightarrow> char \<Rightarrow> nat option" where
  "Index [] c = None"
| "Index (x # xs) c = (if x = c then Some 0 else map_option Suc (Index xs c))"

lemma Index_Some: "Index s c = Some i \<Longrightarrow> i < length s \<and> s ! i = c \<and> c \<notin> set (take i s)"
  by (induction s arbitrary: i) (auto split: if_splits)

lemma Index_None: "Index s c = None \<longleftrightarrow> c \<notin> set s"
  by (induction s) auto

section \<open>Base64\<close>

text \<open>The alphabet: upper case, lower case, digits, plus and slash.\<close>

definition b64_code :: "nat \<Rightarrow> nat" where
  "b64_code n = (if n < 26 then 65 + n else if n < 52 then 71 + n else if n < 62 then n - 4 else if n = 62 then 43 else 47)"

definition b64_char :: "nat \<Rightarrow> char" where
  "b64_char n = char_of (b64_code n)"

definition b64_val :: "char \<Rightarrow> nat option" where
  "b64_val c = (let n = of_char c in
     if 65 \<le> n \<and> n \<le> 90 then Some (n - 65)
     else if 97 \<le> n \<and> n \<le> 122 then Some (n - 71)
     else if 48 \<le> n \<and> n \<le> 57 then Some (n + 4)
     else if n = 43 then Some 62 else if n = 47 then Some 63 else None)"

fun b64_encode :: "bytes \<Rightarrow> string" where
  "b64_encode [] = []"
| "b64_encode [a] = (let x = unat a in
     [b64_char (x div 4), b64_char (x mod 4 * 16), CHR ''='', CHR ''=''])"
| "b64_encode [a, b] = (let x = unat a; y = unat b in
     [b64_char (x div 4), b64_char (x mod 4 * 16 + y div 16), b64_char (y mod 16 * 4), CHR ''=''])"
| "b64_encode (a # b # c # r) = (let x = unat a; y = unat b; z = unat c in
     [b64_char (x div 4), b64_char (x mod 4 * 16 + y div 16), b64_char (y mod 16 * 4 + z div 64), b64_char (z mod 64)])
     @ b64_encode r"

fun b64_quads :: "string \<Rightarrow> bytes option" where
  "b64_quads [] = Some []"
| "b64_quads (p # q # r # s # rest) = do {
     w \<leftarrow> b64_val p; x \<leftarrow> b64_val q;
     let a = (of_nat (w * 4 + x div 16) :: u8);
     if r = CHR ''='' then (if s = CHR ''='' \<and> rest = [] then Some [a] else None)
     else do {
       y \<leftarrow> b64_val r;
       let b = (of_nat (x mod 16 * 16 + y div 4) :: u8);
       if s = CHR ''='' then (if rest = [] then Some [a, b] else None)
       else do {
         z \<leftarrow> b64_val s;
         tl \<leftarrow> b64_quads rest;
         Some (a # b # of_nat (y mod 4 * 64 + z) # tl) } } }"
| "b64_quads _ = None"

text \<open>The decoder skips line breaks.\<close>

definition b64_decode :: "string \<Rightarrow> bytes option" where
  "b64_decode s = b64_quads (filter (\<lambda>c. c \<noteq> CHR 0x0A \<and> c \<noteq> CHR 0x0D) s)"

lemma b64_char_facts [simp]:
  assumes "n < 64"
  shows "b64_val (b64_char n) = Some n" "b64_char n \<noteq> CHR ''=''" "b64_char n \<noteq> CHR 0x0A" "b64_char n \<noteq> CHR 0x0D"
proof -
  have c: "of_char (b64_char n) = b64_code n" using assms by (auto simp: b64_char_def of_char_of b64_code_def)
  show "b64_val (b64_char n) = Some n" using assms unfolding b64_val_def c by (auto simp: b64_code_def Let_def)
  have "b64_code n \<noteq> 61" "b64_code n \<noteq> 10" "b64_code n \<noteq> 13" using assms by (auto simp: b64_code_def)
  then have "of_char (b64_char n) \<noteq> (of_char (CHR ''='') :: nat)" "of_char (b64_char n) \<noteq> (of_char (CHR 0x0A) :: nat)"
    "of_char (b64_char n) \<noteq> (of_char (CHR 0x0D) :: nat)" by (simp_all add: c)
  then show "b64_char n \<noteq> CHR ''=''" "b64_char n \<noteq> CHR 0x0A" "b64_char n \<noteq> CHR 0x0D" by fastforce+
qed

lemma byte_parts: "unat a div 4 < 64" "unat a div 16 < 16" "unat a div 64 < 4" for a :: u8
proof -
  have "unat a < 256" using unsigned_less [of a, where 'a = nat] by simp
  then show "unat a div 4 < 64" "unat a div 16 < 16" "unat a div 64 < 4" by simp_all
qed

lemma b64_indices:
  "unat a mod 4 * 16 + unat b div 16 < 64" "unat b mod 16 * 4 + unat c div 64 < 64"
  "unat a mod 4 * 16 < 64" "unat b mod 16 * 4 < 64" "unat c mod 64 < 64"
  for a b c :: u8
proof -
  have "unat a mod 4 < 4" "unat b mod 16 < 16" by simp_all
  with byte_parts(2) [of b] byte_parts(3) [of c]
  show "unat a mod 4 * 16 + unat b div 16 < 64" "unat b mod 16 * 4 + unat c div 64 < 64"
    "unat a mod 4 * 16 < 64" "unat b mod 16 * 4 < 64" "unat c mod 64 < 64" by (linarith | simp)+
qed

lemma b64_encode_no_breaks:
  "filter (\<lambda>c. c \<noteq> CHR 0x0A \<and> c \<noteq> CHR 0x0D) (b64_encode bs) = b64_encode bs"
  by (induction bs rule: b64_encode.induct) (simp_all add: Let_def b64_indices byte_parts)

lemma digit_split: "q < k \<Longrightarrow> (p * k + q) div k = p" "q < k \<Longrightarrow> (p * k + q) mod k = q" for p q k :: nat
  by simp_all

lemma digit_drop: "p * 16 div 16 = p" "p * 4 div 4 = p" for p :: nat
  by simp_all

lemmas b64_recombine = digit_split [OF byte_parts(2)] digit_split [OF byte_parts(3)]

lemma word_div_mod: "of_nat (unat a div 4 * 4 + unat a mod 4) = a" "of_nat (unat a div 16 * 16 + unat a mod 16) = a"
  "of_nat (unat a div 64 * 64 + unat a mod 64) = a" for a :: u8
  by (simp_all only: div_mult_mod_eq of_nat_unat ucast_id)

lemma b64_quads_encode: "b64_quads (b64_encode bs) = Some bs"
  by (induction bs rule: b64_encode.induct)
     (simp_all only: b64_encode.simps Let_def append_Cons append_Nil b64_quads.simps b64_char_facts b64_indices
        byte_parts bind.bind_lunit b64_recombine digit_drop word_div_mod simp_thms if_False if_True)

lemma b64_roundtrip: "b64_decode (b64_encode bs) = Some bs"
  by (simp add: b64_decode_def b64_encode_no_breaks b64_quads_encode)

end
