(* ===== verification/Keying.thy ===== *)
theory Keying
  imports Srtp Srtcp Text_Format
begin

text \<open>
  Per-call keying: \<^verbatim>\<open>internal/voip/media/ssrc.go\<close> and \<^verbatim>\<open>encryption.go\<close>, with SHA-256, its HMAC and
  HKDF as in Go's \<^verbatim>\<open>crypto/sha256\<close> and \<^verbatim>\<open>crypto/hkdf\<close>. The definitions are executable; what the call
  manager relies on is that the derived keying material always has the sizes SRTP and SRTCP
  accept, so that deriving contexts from it cannot fail.
\<close>

section \<open>SHA-256\<close>

definition rotr32 :: "nat \<Rightarrow> u32 \<Rightarrow> u32" where
  "rotr32 n w = drop_bit n w OR push_bit (32 - n) w"

text \<open>The round constants, eight to a row.\<close>

definition words_of_row :: "int \<Rightarrow> u32 list" where
  "words_of_row row = map (\<lambda>i. of_int (drop_bit (32 * i) row)) [7, 6, 5, 4, 3, 2, 1, 0]"

definition sha256_k :: "u32 list" where
  "sha256_k = concat (map words_of_row
     [0x428a2f9871374491b5c0fbcfe9b5dba53956c25b59f111f1923f82a4ab1c5ed5,
      0xd807aa9812835b01243185be550c7dc372be5d7480deb1fe9bdc06a7c19bf174,
      0xe49b69c1efbe47860fc19dc6240ca1cc2de92c6f4a7484aa5cb0a9dc76f988da,
      0x983e5152a831c66db00327c8bf597fc7c6e00bf3d5a7914706ca635114292967,
      0x27b70a852e1b21384d2c6dfc53380d13650a7354766a0abb81c2c92e92722c85,
      0xa2bfe8a1a81a664bc24b8b70c76c51a3d192e819d6990624f40e3585106aa070,
      0x19a4c1161e376c082748774c34b0bcb5391c0cb34ed8aa4a5b9cca4f682e6ff3,
      0x748f82ee78a5636f84c878148cc7020890befffaa4506cebbef9a3f7c67178f2])"

fun sha256_schedule :: "nat \<Rightarrow> u32 list \<Rightarrow> u32 list" where
  "sha256_schedule 0 ws = rev ws"
| "sha256_schedule (Suc n) ws =
     (let a = ws ! 14; b = ws ! 1;
          s0 = rotr32 7 a XOR rotr32 18 a XOR drop_bit 3 a;
          s1 = rotr32 17 b XOR rotr32 19 b XOR drop_bit 10 b
      in sha256_schedule n ((ws ! 15 + s0 + ws ! 6 + s1) # ws))"

type_synonym sha256_state = "u32 \<times> u32 \<times> u32 \<times> u32 \<times> u32 \<times> u32 \<times> u32 \<times> u32"

definition sha256_round :: "u32 \<times> u32 \<Rightarrow> sha256_state \<Rightarrow> sha256_state" where
  "sha256_round kw s =
     (let (k, w) = kw; (a, b, c, d, e, f, g, h) = s;
          s1 = rotr32 6 e XOR rotr32 11 e XOR rotr32 25 e;
          ch = (e AND f) XOR (NOT e AND g);
          t1 = h + s1 + ch + k + w;
          s0 = rotr32 2 a XOR rotr32 13 a XOR rotr32 22 a;
          maj = (a AND b) XOR (a AND c) XOR (b AND c)
      in (t1 + s0 + maj, a, b, c, d + t1, e, f, g))"

definition sha256_block :: "bytes \<Rightarrow> sha256_state \<Rightarrow> sha256_state" where
  "sha256_block blk s =
     (let (a, b, c, d, e, f, g, h) = s;
          (a', b', c', d', e', f', g', h') =
            fold sha256_round (zip sha256_k (sha256_schedule 48 (rev (words_of blk)))) s
      in (a + a', b + b', c + c', d + d', e + e', f + f', g + g', h + h'))"

function sha256_blocks :: "bytes \<Rightarrow> sha256_state \<Rightarrow> sha256_state" where
  "sha256_blocks m s = (if m = [] then s else sha256_blocks (drop 64 m) (sha256_block (take 64 m) s))"
  by pat_completeness auto
termination by (relation "measure (\<lambda>(m, s). length m)") auto

declare sha256_blocks.simps [simp del]

definition sha256 :: "bytes \<Rightarrow> bytes" where
  "sha256 m = (case sha256_blocks (sha_pad m)
       (0x6a09e667, 0xbb67ae85, 0x3c6ef372, 0xa54ff53a, 0x510e527f, 0x9b05688c, 0x1f83d9ab, 0x5be0cd19) of
     (a, b, c, d, e, f, g, h) \<Rightarrow> be32 a @ be32 b @ be32 c @ be32 d @ be32 e @ be32 f @ be32 g @ be32 h)"

definition hmac_sha256 :: "bytes \<Rightarrow> bytes \<Rightarrow> bytes" where
  "hmac_sha256 key m =
     (let k = (if 64 < length key then sha256 key else key);
          k = k @ replicate (64 - length k) 0
      in sha256 (map (\<lambda>b. b XOR 0x5c) k @ sha256 (map (\<lambda>b. b XOR 0x36) k @ m)))"

section \<open>HKDF\<close>

fun hkdf_blocks :: "nat \<Rightarrow> u8 \<Rightarrow> bytes \<Rightarrow> bytes \<Rightarrow> bytes \<Rightarrow> bytes" where
  "hkdf_blocks 0 i prk info prev = []"
| "hkdf_blocks (Suc n) i prk info prev =
     (let t = hmac_sha256 prk (prev @ info @ [i]) in t @ hkdf_blocks n (i + 1) prk info t)"

text \<open>\<open>hkdf.Key\<close> fails only for lengths above 255 blocks; the code asks for at most 46 bytes.\<close>

definition hkdf_Key :: "bytes \<Rightarrow> bytes \<Rightarrow> bytes \<Rightarrow> nat \<Rightarrow> bytes" where
  "hkdf_Key secret salt info len =
     take len (hkdf_blocks ((len + 31) div 32) 1 (hmac_sha256 salt secret) info [])"

section \<open>SSRCs and keys\<close>

definition bytes_of_string :: "string \<Rightarrow> bytes" where
  "bytes_of_string s = map (\<lambda>c. of_nat (of_char c)) s"

definition GenerateSecureSsrc :: "string \<Rightarrow> string \<Rightarrow> u32 \<Rightarrow> u32" where
  "GenerateSecureSsrc callID selfJid counter =
     (case le_uint32 (hkdf_Key (bytes_of_string callID) (le32 counter) (bytes_of_string selfJid) 4) 0 of
        Some w \<Rightarrow> w | None \<Rightarrow> 0)"

definition DerivePerJidSrtpKey :: "bytes \<Rightarrow> string \<Rightarrow> SrtpKeyingMaterial" where
  "DerivePerJidSrtpKey callKey deviceJid =
     (let out = hkdf_Key callKey [] (bytes_of_string deviceJid) 46
      in \<lparr>km_MasterKey = take 16 out, km_MasterSalt = take 14 (drop 16 out)\<rparr>)"

section \<open>Sizes\<close>

lemma length_sha256 [simp, byte_lens]: "length (sha256 m) = 32"
  by (simp add: sha256_def split: prod.split)

lemma length_hmac_sha256 [simp, byte_lens]: "length (hmac_sha256 k m) = 32"
  by (simp add: hmac_sha256_def Let_def)

lemma length_hkdf_blocks: "length (hkdf_blocks n i prk info prev) = 32 * n"
  by (induction n arbitrary: i prev) (simp_all add: Let_def)

lemma length_hkdf_Key [simp, byte_lens]: "length (hkdf_Key secret salt info len) = len"
proof -
  have "len \<le> 32 * ((len + 31) div 32)" by presburger
  then show ?thesis by (simp add: hkdf_Key_def length_hkdf_blocks)
qed

text \<open>The four bytes read for an SSRC are always there.\<close>

lemma GenerateSecureSsrc_read:
  "\<exists>w. le_uint32 (hkdf_Key (bytes_of_string callID) (le32 counter) (bytes_of_string jid) 4) 0 = Some w"
proof -
  have "length bs = 4 \<Longrightarrow> \<exists>w. le_uint32 bs 0 = Some w" for bs
    by (auto simp: le_uint32_def length_Suc_conv eval_nat_numeral)
  then show ?thesis by simp
qed

lemma DerivePerJidSrtpKey_sizes [simp]:
  "length (km_MasterKey (DerivePerJidSrtpKey k j)) = 16" "length (km_MasterSalt (DerivePerJidSrtpKey k j)) = 14"
  by (simp_all add: DerivePerJidSrtpKey_def Let_def)

lemma keying_ok_derived [simp]: "keying_ok (DerivePerJidSrtpKey k j)"
  by (simp add: keying_ok_def)

section \<open>Property\<close>

text \<open>
  The keys derived for a device from any call key are a 16-byte master key and a 14-byte
  master salt, and creating the SRTP and SRTCP contexts from them always succeeds.
\<close>

theorem derived_keys_usable:
  "length (km_MasterKey (DerivePerJidSrtpKey callKey jid)) = 16 \<and>
   length (km_MasterSalt (DerivePerJidSrtpKey callKey jid)) = 14 \<and>
   (\<exists>c. NewSrtpContext (DerivePerJidSrtpKey callKey jid) (int SRTPSendAuthTagLen) = Some (Inr c)) \<and>
   (\<exists>c. NewSrtcpContext (DerivePerJidSrtpKey callKey jid) = Some (Inr c))"
  using NewSrtpContext_total [of "DerivePerJidSrtpKey callKey jid"] NewSrtcpContext_total [of "DerivePerJidSrtpKey callKey jid"]
  by auto

end
