(* ===== verification/Wanode.thy ===== *)
theory Wanode
  imports Text_Format
begin

text \<open>
  Protocol nodes and their accessors: \<^verbatim>\<open>internal/voip/wanode\<close>. A node of the binary XML library has a
  tag, attributes and a content that is empty, raw bytes or child nodes; its attribute values are
  of the dynamic types the accessor distinguishes. The address type of that library is opaque: a
  type variable with the operations the code calls collected in a record.
\<close>

section \<open>Addresses\<close>

record 'j jid_lib =
  jid_String :: "'j \<Rightarrow> string"
  jid_Parse :: "string \<Rightarrow> 'j option"
  jid_Empty :: 'j
  jid_IsEmpty :: "'j \<Rightarrow> bool"

definition MustJID :: "'j jid_lib \<Rightarrow> string \<Rightarrow> 'j" where
  "MustJID lib s = (case jid_Parse lib s of Some j \<Rightarrow> j | None \<Rightarrow> jid_Empty lib)"

definition CleanJID :: "string \<Rightarrow> string" where
  "CleanJID jid = (case Index jid (CHR '':'') of
      None \<Rightarrow> jid
    | Some i \<Rightarrow> (case Index jid (CHR ''@'') of
          None \<Rightarrow> jid
        | Some at \<Rightarrow> if i < at then take i jid @ drop at jid else jid))"

section \<open>Nodes\<close>

datatype 'j attr =
    AStr string
  | AStringer 'j
  | AInt64 int
  | AInt int
  | AUint64 nat
  | ABool bool
  | ANil
  | AOther string

datatype 'j node = Node (nd_Tag: string) (nd_Attrs: "(string \<times> 'j attr) list") (nd_Content: "'j content")
and 'j content = CNone | CBytes bytes | CNodes "'j node list"

definition NodeChildren :: "'j node option \<Rightarrow> 'j node list" where
  "NodeChildren n = (case n of None \<Rightarrow> [] | Some n \<Rightarrow> (case nd_Content n of CNodes cs \<Rightarrow> cs | _ \<Rightarrow> []))"

abbreviation children :: "'j node \<Rightarrow> 'j node list" where
  "children n \<equiv> NodeChildren (Some n)"

definition NodeBytes :: "'j node \<Rightarrow> bytes option" where
  "NodeBytes n = (case nd_Content n of CBytes b \<Rightarrow> Some b | _ \<Rightarrow> None)"

definition FormatBool :: "bool \<Rightarrow> string" where
  "FormatBool b = (if b then ''true'' else ''false'')"

definition AttrString :: "'j jid_lib \<Rightarrow> (string \<times> 'j attr) list \<Rightarrow> string \<Rightarrow> string" where
  "AttrString lib attrs key = (case map_of attrs key of
      None \<Rightarrow> ''''
    | Some v \<Rightarrow> (case v of
          ANil \<Rightarrow> ''''
        | AStr t \<Rightarrow> t
        | AStringer j \<Rightarrow> jid_String lib j
        | AInt64 i \<Rightarrow> Itoa i
        | AInt i \<Rightarrow> Itoa i
        | AUint64 n \<Rightarrow> Itoa (int n)
        | ABool b \<Rightarrow> FormatBool b
        | AOther s \<Rightarrow> s))"

definition AttrInt :: "'j jid_lib \<Rightarrow> (string \<times> 'j attr) list \<Rightarrow> string \<Rightarrow> int \<Rightarrow> int" where
  "AttrInt lib attrs key fallback =
     (let s = AttrString lib attrs key in
      if s = '''' then fallback else case Atoi s of None \<Rightarrow> fallback | Some n \<Rightarrow> n)"

definition HasAttr :: "'j jid_lib \<Rightarrow> (string \<times> 'j attr) list \<Rightarrow> string \<Rightarrow> bool" where
  "HasAttr lib attrs key = (case map_of attrs key of
      None \<Rightarrow> False | Some v \<Rightarrow> v \<noteq> ANil \<and> AttrString lib attrs key \<noteq> '''')"

section \<open>Facts\<close>

lemma NodeChildren_None [simp]: "NodeChildren None = []"
  by (simp add: NodeChildren_def)

lemma children_Node [simp]:
  "children (Node t a (CNodes cs)) = cs" "children (Node t a CNone) = []" "children (Node t a (CBytes b)) = []"
  by (simp_all add: NodeChildren_def)

lemma NodeBytes_Node [simp]:
  "NodeBytes (Node t a (CBytes b)) = Some b" "NodeBytes (Node t a CNone) = None" "NodeBytes (Node t a (CNodes cs)) = None"
  by (simp_all add: NodeBytes_def)

lemma children_smaller: "c \<in> set (children n) \<Longrightarrow> size c < size n"
  by (cases n; cases "nd_Content n")
     (auto simp: NodeChildren_def less_Suc_eq_le dest: size_list_estimation' [of c _ "size c" size])

lemma AttrString_cases [simp]:
  "AttrString lib ((key, AStr s) # as) key = s"
  "AttrString lib ((key, AStringer j) # as) key = jid_String lib j"
  "k \<noteq> key \<Longrightarrow> AttrString lib ((k, v) # as) key = AttrString lib as key"
  "AttrString lib [] key = ''''"
  by (simp_all add: AttrString_def)

lemma HasAttr_iff: "HasAttr lib as key \<longleftrightarrow> AttrString lib as key \<noteq> ''''"
  by (auto simp: HasAttr_def AttrString_def split: option.splits attr.splits)

lemma AttrInt_Itoa:
  "map_of as key = Some (AStr (Itoa i)) \<Longrightarrow> - (2 ^ 63) \<le> i \<Longrightarrow> i < 2 ^ 63 \<Longrightarrow> AttrInt lib as key d = i"
  by (simp add: AttrInt_def AttrString_def Atoi_Itoa)

text \<open>Cleaning an address strips the device part before the server and is idempotent.\<close>

lemma CleanJID_device:
  assumes "CHR '':'' \<notin> set user" "CHR ''@'' \<notin> set user" "CHR ''@'' \<notin> set dev"
  shows "CleanJID (user @ '':'' @ dev @ ''@'' @ server) = user @ ''@'' @ server"
proof -
  have idx: "x \<notin> set xs \<Longrightarrow> Index (xs @ x # ys) x = Some (length xs)" for xs ys and x :: char
    by (induction xs) auto
  have "Index (user @ '':'' @ dev @ ''@'' @ server) (CHR '':'') = Some (length user)"
    using idx [of "CHR '':''" user] assms by simp
  moreover have "Index ((user @ '':'' @ dev) @ CHR ''@'' # server) (CHR ''@'') = Some (length (user @ '':'' @ dev))"
    using assms by (intro idx) auto
  ultimately show ?thesis by (simp add: CleanJID_def)
qed

lemma CleanJID_bare: "CHR '':'' \<notin> set jid \<Longrightarrow> CleanJID jid = jid"
  by (simp add: CleanJID_def Index_None [THEN iffD2])

end
