(* ===== verification/Relay_Ack.thy ===== *)
theory Relay_Ack
  imports Core_Types Wanode "HOL-Library.Product_Lexorder" "HOL-Library.Multiset"
begin

text \<open>
  Relay descriptions in call stanzas: \<^verbatim>\<open>internal/voip/signaling/relayack.go\<close> and the relay part of
  \<^verbatim>\<open>signaling_parse.go\<close>. The parser's accumulator and its duplicate filter are one record. The
  lemmas show what every parse yields (distinct participants, well-formed IPv4 endpoints, a hop key
  of thirty bytes or none), that the relay search is a preorder search, and that sorting by round
  trip time is a stable sort with unmeasured relays last.
\<close>

section \<open>The parse result\<close>

record ParsedRelayAck =
  pa_Relays :: "RelayEndpoint list"
  pa_ParticipantJids :: "string list"
  pa_UUID :: string
  pa_SelfPid :: "int option"
  pa_PeerPid :: "int option"
  pa_HbhKey :: "bytes option"

definition emptyAck :: ParsedRelayAck where
  "emptyAck = \<lparr>pa_Relays = [], pa_ParticipantJids = [], pa_UUID = '''', pa_SelfPid = None, pa_PeerPid = None, pa_HbhKey = None\<rparr>"

text \<open>The set of seen participants is exactly the set of listed ones, so the list serves as both.\<close>

definition addParticipant :: "string \<Rightarrow> ParsedRelayAck \<Rightarrow> ParsedRelayAck" where
  "addParticipant jid res =
     (if jid \<noteq> '''' \<and> jid \<notin> set (pa_ParticipantJids res)
      then res\<lparr>pa_ParticipantJids := pa_ParticipantJids res @ [jid]\<rparr> else res)"

definition attrStringOr :: "'j jid_lib \<Rightarrow> (string \<times> 'j attr) list \<Rightarrow> string \<Rightarrow> string \<Rightarrow> string" where
  "attrStringOr lib attrs key fallback = (let s = AttrString lib attrs key in if s \<noteq> '''' then s else fallback)"

definition ipv4String :: "bytes \<Rightarrow> string go" where
  "ipv4String b = do {
     b0 \<leftarrow> idx b 0; b1 \<leftarrow> idx b 1; b2 \<leftarrow> idx b 2; b3 \<leftarrow> idx b 3;
     Some (Itoa (uint b0) @ ''.'' @ Itoa (uint b1) @ ''.'' @ Itoa (uint b2) @ ''.'' @ Itoa (uint b3)) }"

section \<open>Sorting by round trip time\<close>

definition rtt_less :: "RelayEndpoint \<Rightarrow> RelayEndpoint \<Rightarrow> bool" where
  "rtt_less a b = (case (ep_C2RRtt a, ep_C2RRtt b) of
      (None, None) \<Rightarrow> False
    | (None, Some _) \<Rightarrow> False
    | (Some _, None) \<Rightarrow> True
    | (Some x, Some y) \<Rightarrow> x < y)"

text \<open>\<open>sort.SliceStable\<close>: insertion of each element before the first that is not smaller.\<close>

fun insert_stable :: "('a \<Rightarrow> 'a \<Rightarrow> bool) \<Rightarrow> 'a \<Rightarrow> 'a list \<Rightarrow> 'a list" where
  "insert_stable lt x [] = [x]"
| "insert_stable lt x (y # ys) = (if lt y x then y # insert_stable lt x ys else x # y # ys)"

definition SliceStable :: "('a \<Rightarrow> 'a \<Rightarrow> bool) \<Rightarrow> 'a list \<Rightarrow> 'a list" where
  "SliceStable lt xs = foldr (insert_stable lt) xs []"

definition sortRelaysByRtt :: "RelayEndpoint list \<Rightarrow> RelayEndpoint list" where
  "sortRelaysByRtt relays = SliceStable rtt_less relays"

section \<open>The relay block\<close>

text \<open>Keys and tokens collected from a relay block before its endpoints are read.\<close>

record relay_keys =
  rk_relayKey :: string
  rk_tokens :: "string \<rightharpoonup> string"
  rk_authTokens :: "string \<rightharpoonup> string"
  rk_rawTokens :: "string \<rightharpoonup> bytes"
  rk_rawAuthTokens :: "string \<rightharpoonup> bytes"

definition string_of_bytes :: "bytes \<Rightarrow> string" where
  "string_of_bytes b = map (\<lambda>w. char_of (unat w)) b"

definition note_hbh :: "bytes \<Rightarrow> ParsedRelayAck \<Rightarrow> ParsedRelayAck" where
  "note_hbh b res =
     (if length b = 30 then res\<lparr>pa_HbhKey := Some b\<rparr>
      else if 30 < length b then
        (case b64_decode (string_of_bytes b) of
           Some d \<Rightarrow> if length d = 30 then res\<lparr>pa_HbhKey := Some d\<rparr> else res
         | None \<Rightarrow> res)
      else res)"

definition note_key :: "'j jid_lib \<Rightarrow> 'j node \<Rightarrow> relay_keys \<times> ParsedRelayAck \<Rightarrow> relay_keys \<times> ParsedRelayAck" where
  "note_key lib rc st = (case (st, NodeBytes rc) of
      ((ks, res), None) \<Rightarrow> (ks, res)
    | ((ks, res), Some b) \<Rightarrow>
        (let i = attrStringOr lib (nd_Attrs rc) ''id'' ''0'' in
         if nd_Tag rc = ''key'' then (ks\<lparr>rk_relayKey := string_of_bytes b\<rparr>, res)
         else if nd_Tag rc = ''hbh_key'' then (ks, note_hbh b res)
         else if nd_Tag rc = ''token'' then
           (ks\<lparr>rk_tokens := (rk_tokens ks)(i \<mapsto> b64_encode b), rk_rawTokens := (rk_rawTokens ks)(i \<mapsto> b)\<rparr>, res)
         else if nd_Tag rc = ''auth_token'' then
           (ks\<lparr>rk_authTokens := (rk_authTokens ks)(i \<mapsto> b64_encode b), rk_rawAuthTokens := (rk_rawAuthTokens ks)(i \<mapsto> b)\<rparr>, res)
         else (ks, res)))"

definition map_str :: "(string \<rightharpoonup> string) \<Rightarrow> string \<Rightarrow> string" where
  "map_str f k = (case f k of None \<Rightarrow> '''' | Some s \<Rightarrow> s)"

definition endpoint_of :: "'j jid_lib \<Rightarrow> relay_keys \<Rightarrow> (string \<times> 'j attr) list \<Rightarrow> bytes \<Rightarrow> RelayEndpoint" where
  "endpoint_of lib ks attrs addrBytes =
     (let tokenID = attrStringOr lib attrs ''token_id'' ''0'';
          authTokenID = AttrString lib attrs ''auth_token_id''
      in \<lparr>ep_IP = '''', ep_Port = 0, ep_Token = map_str (rk_tokens ks) tokenID,
          ep_AuthToken = (if authTokenID \<noteq> '''' then map_str (rk_authTokens ks) authTokenID else ''''),
          ep_RawAuthToken = (if authTokenID \<noteq> '''' then rk_rawAuthTokens ks authTokenID else None),
          ep_RawToken = rk_rawTokens ks tokenID, ep_Key = rk_relayKey ks,
          ep_RelayID = AttrInt lib attrs ''relay_id'' 0, ep_Protocol = AttrInt lib attrs ''protocol'' 0,
          ep_C2RRtt = (if HasAttr lib attrs ''c2r_rtt'' then Some (AttrInt lib attrs ''c2r_rtt'' 0) else None),
          ep_RelayName = AttrString lib attrs ''relay_name'', ep_AddressBytes = addrBytes,
          ep_AuthTokenID = (if authTokenID \<noteq> '''' then authTokenID else tokenID)\<rparr>)"

definition note_te2 :: "'j jid_lib \<Rightarrow> relay_keys \<Rightarrow> 'j node \<Rightarrow> ParsedRelayAck \<Rightarrow> ParsedRelayAck go" where
  "note_te2 lib ks rc res =
     (if nd_Tag rc \<noteq> ''te2'' then Some res
      else (let addrBytes = (case NodeBytes rc of None \<Rightarrow> [] | Some b \<Rightarrow> b) in
        if length addrBytes < 6 then Some res
        else (let ep = endpoint_of lib ks (nd_Attrs rc) addrBytes in
          if length addrBytes = 6 then do {
            ip4 \<leftarrow> slice addrBytes 0 4;
            ip \<leftarrow> ipv4String ip4;
            hi \<leftarrow> idx addrBytes 4; lo \<leftarrow> idx addrBytes 5;
            Some (res\<lparr>pa_Relays := pa_Relays res @
              [ep\<lparr>ep_IP := ip, ep_Port := (push_bit 8 (uint hi)) OR uint lo\<rparr>]\<rparr>) }
          else Some res)))"

fun fold_go :: "('a \<Rightarrow> 's \<Rightarrow> 's go) \<Rightarrow> 'a list \<Rightarrow> 's \<Rightarrow> 's go" where
  "fold_go f [] s = Some s"
| "fold_go f (x # xs) s = do { s \<leftarrow> f x s; fold_go f xs s }"

definition note_participant :: "'j jid_lib \<Rightarrow> 'j node \<Rightarrow> ParsedRelayAck \<Rightarrow> ParsedRelayAck" where
  "note_participant lib rc res =
     (if nd_Tag rc = ''participant'' \<and> HasAttr lib (nd_Attrs rc) ''jid''
      then addParticipant (AttrString lib (nd_Attrs rc) ''jid'') res else res)"

definition emptyKeys :: relay_keys where
  "emptyKeys = \<lparr>rk_relayKey = '''', rk_tokens = Map.empty, rk_authTokens = Map.empty,
     rk_rawTokens = Map.empty, rk_rawAuthTokens = Map.empty\<rparr>"

definition parseRelayBlock :: "'j jid_lib \<Rightarrow> 'j node \<Rightarrow> ParsedRelayAck \<Rightarrow> ParsedRelayAck go" where
  "parseRelayBlock lib child res =
     (let at = nd_Attrs child;
          res = res\<lparr>pa_UUID := AttrString lib at ''uuid''\<rparr>;
          res = (if HasAttr lib at ''self_pid'' then res\<lparr>pa_SelfPid := Some (AttrInt lib at ''self_pid'' 0)\<rparr> else res);
          res = (if HasAttr lib at ''peer_pid'' then res\<lparr>pa_PeerPid := Some (AttrInt lib at ''peer_pid'' 0)\<rparr> else res);
          relayContent = children child;
          res = fold (note_participant lib) relayContent res;
          (ks, res) = fold (note_key lib) relayContent (emptyKeys, res)
      in fold_go (note_te2 lib ks) relayContent res)"

section \<open>Entry points\<close>

definition note_user :: "'j jid_lib \<Rightarrow> 'j node \<Rightarrow> ParsedRelayAck \<Rightarrow> ParsedRelayAck" where
  "note_user lib child res = fold (\<lambda>dn res.
     if nd_Tag dn = ''device'' \<and> HasAttr lib (nd_Attrs dn) ''jid''
     then addParticipant (AttrString lib (nd_Attrs dn) ''jid'') res else res) (children child) res"

definition ack_child :: "'j jid_lib \<Rightarrow> 'j node \<Rightarrow> ParsedRelayAck \<Rightarrow> ParsedRelayAck go" where
  "ack_child lib child res =
     (let res = (if nd_Tag child = ''user'' then note_user lib child res else res) in
      if nd_Tag child \<noteq> ''relay'' then Some res else parseRelayBlock lib child res)"

definition ParseRelayFromAck :: "'j jid_lib \<Rightarrow> 'j node \<Rightarrow> ParsedRelayAck go" where
  "ParseRelayFromAck lib ackNode = do {
     res \<leftarrow> fold_go (ack_child lib) (children ackNode) emptyAck;
     Some (res\<lparr>pa_Relays := sortRelaysByRtt (pa_Relays res)\<rparr>) }"

function FindRelayNode :: "'j node \<Rightarrow> 'j node option" and FindRelay_list :: "'j node list \<Rightarrow> 'j node option" where
  "FindRelayNode n = (if nd_Tag n = ''relay'' then Some n else FindRelay_list (children n))"
| "FindRelay_list [] = None"
| "FindRelay_list (c # cs) = (case FindRelayNode c of Some f \<Rightarrow> Some f | None \<Rightarrow> FindRelay_list cs)"
  by pat_completeness auto
termination
proof (relation "measure (case_sum (\<lambda>n. 2 * size n) (\<lambda>cs. Suc (2 * size_list size cs)))", goal_cases)
  case (2 n)
  then show ?case by (cases n; cases "nd_Content n") (auto simp: NodeChildren_def)
qed (auto)

definition ParseRelayFromNode :: "'j jid_lib \<Rightarrow> 'j node \<Rightarrow> ParsedRelayAck go" where
  "ParseRelayFromNode lib n = (case FindRelayNode n of
      None \<Rightarrow> Some emptyAck
    | Some relay \<Rightarrow> do {
        res \<leftarrow> parseRelayBlock lib relay emptyAck;
        Some (res\<lparr>pa_Relays := sortRelaysByRtt (pa_Relays res)\<rparr>) })"

section \<open>Endpoints given as attributes\<close>

definition parse_relay_attrs :: "'j jid_lib \<Rightarrow> 'j node \<Rightarrow> RelayEndpoint list" where
  "parse_relay_attrs lib n =
     (let at = nd_Attrs n; ip = AttrString lib at ''ip''; token = AttrString lib at ''token'';
          key = attrStringOr lib at ''relay-key'' (AttrString lib at ''key'')
      in if ip = '''' \<or> token = '''' then []
         else [\<lparr>ep_IP = ip, ep_Port = AttrInt lib at ''port'' WARelayPort, ep_Token = token, ep_AuthToken = '''',
               ep_RawAuthToken = None, ep_RawToken = None, ep_Key = key, ep_RelayID = AttrInt lib at ''relay-id'' 0,
               ep_Protocol = 0,
               ep_C2RRtt = (if HasAttr lib at ''c2r-rtt'' then Some (AttrInt lib at ''c2r-rtt'' 0) else None),
               ep_RelayName = '''', ep_AddressBytes = [], ep_AuthTokenID = ''''\<rparr>])"

definition ExtractRelayEndpoints :: "'j jid_lib \<Rightarrow> 'j node \<Rightarrow> RelayEndpoint list" where
  "ExtractRelayEndpoints lib node = sortRelaysByRtt (concat (map (\<lambda>child.
     if nd_Tag child = ''relay'' then parse_relay_attrs lib child
     else if nd_Tag child = ''relays'' then
       concat (map (parse_relay_attrs lib) (filter (\<lambda>rn. nd_Tag rn = ''relay'') (children child)))
     else []) (children node)))"

section \<open>Stable sorting\<close>

definition rtt_key :: "RelayEndpoint \<Rightarrow> bool \<times> int" where
  "rtt_key ep = (case ep_C2RRtt ep of None \<Rightarrow> (True, 0) | Some r \<Rightarrow> (False, r))"

lemma rtt_less_key: "rtt_less a b \<longleftrightarrow> rtt_key a < rtt_key b"
  by (auto simp: rtt_less_def rtt_key_def less_prod_def' split: option.splits)

lemma insert_stable_insort: "insert_stable (\<lambda>a b. key a < key b) x ys = insort_key key x ys" for key :: "'a \<Rightarrow> 'k :: linorder"
  by (induction ys) auto

lemma sortRelaysByRtt_sort_key: "sortRelaysByRtt rs = sort_key rtt_key rs"
proof -
  have e: "rtt_less = (\<lambda>a b. rtt_key a < rtt_key b)" by (intro ext) (rule rtt_less_key)
  have "insert_stable rtt_less = insort_key rtt_key" unfolding e by (intro ext) (rule insert_stable_insort)
  then show ?thesis by (simp add: sortRelaysByRtt_def SliceStable_def sort_key_def)
qed

lemma sort_relays_simps [simp]:
  "set (sortRelaysByRtt rs) = set rs" "mset (sortRelaysByRtt rs) = mset rs" "length (sortRelaysByRtt rs) = length rs"
  by (simp_all add: sortRelaysByRtt_sort_key)

section \<open>What a parse yields\<close>

definition ep_wf :: "RelayEndpoint \<Rightarrow> bool" where
  "ep_wf ep \<longleftrightarrow> (case ep_AddressBytes ep of
      [a, b, c, d, hi, lo] \<Rightarrow>
        ep_IP ep = Itoa (uint a) @ ''.'' @ Itoa (uint b) @ ''.'' @ Itoa (uint c) @ ''.'' @ Itoa (uint d) \<and>
        ep_Port ep = 256 * uint hi + uint lo
    | _ \<Rightarrow> False)"

definition ack_ok :: "ParsedRelayAck \<Rightarrow> bool" where
  "ack_ok r \<longleftrightarrow> distinct (pa_ParticipantJids r) \<and> '''' \<notin> set (pa_ParticipantJids r) \<and>
     (\<forall>ep\<in>set (pa_Relays r). ep_wf ep) \<and> (\<forall>k. pa_HbhKey r = Some k \<longrightarrow> length k = 30)"

text \<open>The addresses a relay block announces.\<close>

definition te2_addresses :: "'j node \<Rightarrow> bytes list" where
  "te2_addresses relay = map (\<lambda>rc. the (NodeBytes rc))
     (filter (\<lambda>rc. nd_Tag rc = ''te2'' \<and> (\<exists>b. NodeBytes rc = Some b \<and> length b = 6)) (children relay))"

definition addrs :: "ParsedRelayAck \<Rightarrow> bytes list" where
  "addrs r = map ep_AddressBytes (pa_Relays r)"

lemma port_join: "push_bit 8 (uint hi) OR uint lo = 256 * uint hi + uint lo" for hi lo :: u8
proof -
  have "push_bit 8 (uint hi) OR uint lo = push_bit 8 (uint hi) + uint lo"
  proof (rule disjunctive_add [symmetric])
    fix n show "\<not> bit (push_bit 8 (uint hi)) n \<or> \<not> bit (uint lo) n"
      using bit_imp_le_length [of lo n] by (auto simp: bit_simps)
  qed
  then show ?thesis by (simp add: push_bit_eq_mult)
qed

lemma fold_go_total:
  assumes "\<And>x s. x \<in> set xs \<Longrightarrow> P s \<Longrightarrow> \<exists>s'. f x s = Some s' \<and> P s' \<and> g s' = g s @ h x" "P s"
  shows "\<exists>s'. fold_go f xs s = Some s' \<and> P s' \<and> g s' = g s @ concat (map h xs)"
  using assms
proof (induction xs arbitrary: s)
  case (Cons x xs)
  then obtain s1 where s1: "f x s = Some s1" "P s1" "g s1 = g s @ h x" by (metis list.set_intros(1))
  from Cons.IH [OF _ s1(2)] Cons.prems(1) obtain s' where
    "fold_go f xs s1 = Some s'" "P s'" "g s' = g s1 @ concat (map h xs)" by (meson list.set_intros(2))
  with s1 show ?case by auto
qed simp

lemma fold_preserves:
  assumes "\<And>x s. P s \<Longrightarrow> P (f x s) \<and> g (f x s) = g s" "P s"
  shows "P (fold f xs s) \<and> g (fold f xs s) = g s"
  using assms(2)
proof (induction xs arbitrary: s)
  case (Cons x xs)
  with assms(1) [of s x] show ?case by simp
qed simp

lemma addParticipant_ok: "ack_ok r \<Longrightarrow> ack_ok (addParticipant j r) \<and> addrs (addParticipant j r) = addrs r"
  by (auto simp: addParticipant_def ack_ok_def addrs_def)

lemma note_participant_ok: "ack_ok r \<Longrightarrow> ack_ok (note_participant lib rc r) \<and> addrs (note_participant lib rc r) = addrs r"
  by (simp add: note_participant_def addParticipant_ok)

lemma note_user_ok: "ack_ok r \<Longrightarrow> ack_ok (note_user lib c r) \<and> addrs (note_user lib c r) = addrs r"
  unfolding note_user_def by (rule fold_preserves) (auto simp: addParticipant_ok)

lemma note_hbh_ok: "ack_ok r \<Longrightarrow> ack_ok (note_hbh b r) \<and> addrs (note_hbh b r) = addrs r"
  by (auto simp: note_hbh_def ack_ok_def addrs_def split: option.split)

lemma note_key_ok: "ack_ok (snd st) \<Longrightarrow> ack_ok (snd (note_key lib rc st)) \<and> addrs (snd (note_key lib rc st)) = addrs (snd st)"
  by (cases st) (auto simp: note_key_def Let_def note_hbh_ok split: option.split)

lemma length_6_cases: "length xs = 6 \<Longrightarrow> \<exists>a b c d e f. xs = [a, b, c, d, e, f]"
  by (simp add: length_Suc_conv eval_nat_numeral) blast

lemma te2_step:
  assumes "ack_ok r"
  shows "\<exists>r'. note_te2 lib ks rc r = Some r' \<and> ack_ok r' \<and>
     addrs r' = addrs r @ (if nd_Tag rc = ''te2'' \<and> (\<exists>b. NodeBytes rc = Some b \<and> length b = 6) then [the (NodeBytes rc)] else [])"
proof (cases "nd_Tag rc = ''te2'' \<and> (\<exists>b. NodeBytes rc = Some b \<and> length b = 6)")
  case True
  then obtain a b c d e f where b: "NodeBytes rc = Some [a, b, c, d, e, f]" using length_6_cases by blast
  show ?thesis using True assms b
    by (auto simp: note_te2_def Let_def slice_def ipv4String_def idx_def ack_ok_def addrs_def ep_wf_def port_join
        endpoint_of_def)
next
  case False
  with assms show ?thesis by (auto simp: note_te2_def Let_def split: option.splits)
qed


lemma te2_addresses_concat:
  "te2_addresses relay = concat (map (\<lambda>rc. if nd_Tag rc = ''te2'' \<and> (\<exists>b. NodeBytes rc = Some b \<and> length b = 6)
     then [the (NodeBytes rc)] else []) (children relay))"
proof -
  have "map h (filter P cs) = concat (map (\<lambda>c. if P c then [h c] else []) cs)" for P :: "'a node \<Rightarrow> bool" and h :: "'a node \<Rightarrow> bytes" and cs
    by (induction cs) auto
  then show ?thesis by (simp only: te2_addresses_def)
qed

lemma parseRelayBlock_ok:
  assumes "ack_ok r"
  shows "\<exists>r'. parseRelayBlock lib relay r = Some r' \<and> ack_ok r' \<and> addrs r' = addrs r @ te2_addresses relay"
proof -
  define r1 where "r1 = (let at = nd_Attrs relay; res = r\<lparr>pa_UUID := AttrString lib at ''uuid''\<rparr>;
      res = (if HasAttr lib at ''self_pid'' then res\<lparr>pa_SelfPid := Some (AttrInt lib at ''self_pid'' 0)\<rparr> else res)
    in if HasAttr lib at ''peer_pid'' then res\<lparr>pa_PeerPid := Some (AttrInt lib at ''peer_pid'' 0)\<rparr> else res)"
  have r1: "ack_ok r1 \<and> addrs r1 = addrs r" using assms by (simp add: r1_def Let_def ack_ok_def addrs_def)
  define r2 where "r2 = fold (note_participant lib) (children relay) r1"
  have r2: "ack_ok r2 \<and> addrs r2 = addrs r"
    using fold_preserves [of ack_ok "note_participant lib" addrs r1, OF note_participant_ok] r1 by (simp add: r2_def)
  obtain ks r3 where r3: "fold (note_key lib) (children relay) (emptyKeys, r2) = (ks, r3)" by fastforce
  then have ok: "ack_ok r3 \<and> addrs r3 = addrs r"
    using fold_preserves [of "ack_ok \<circ> snd" "note_key lib" "addrs \<circ> snd" "(emptyKeys, r2)" "children relay"] note_key_ok r2
    by (auto simp: comp_def)
  have "parseRelayBlock lib relay r = fold_go (note_te2 lib ks) (children relay) r3"
    using r3 by (simp add: parseRelayBlock_def r2_def r1_def Let_def)
  moreover have "\<exists>r'. fold_go (note_te2 lib ks) (children relay) r3 = Some r' \<and> ack_ok r' \<and>
      addrs r' = addrs r3 @ te2_addresses relay"
    unfolding te2_addresses_concat by (rule fold_go_total [OF te2_step]) (use ok in simp_all)
  ultimately show ?thesis using ok by auto
qed

lemma ack_child_ok:
  assumes "ack_ok r"
  shows "\<exists>r'. ack_child lib c r = Some r' \<and> ack_ok r' \<and>
     addrs r' = addrs r @ (if nd_Tag c = ''relay'' then te2_addresses c else [])"
  using assms parseRelayBlock_ok [of r lib c] note_user_ok [of r lib c]
  by (auto simp: ack_child_def Let_def)

lemma ParseRelay_total: "ParseRelayFromAck lib n \<noteq> None" "ParseRelayFromNode lib n \<noteq> None"
proof -
  have e: "ack_ok emptyAck" by (simp add: ack_ok_def emptyAck_def)
  from fold_go_total [of "children n" ack_ok "ack_child lib" addrs, OF ack_child_ok e]
  show "ParseRelayFromAck lib n \<noteq> None" by (auto simp: ParseRelayFromAck_def)
  show "ParseRelayFromNode lib n \<noteq> None"
  proof (cases "FindRelayNode n")
    case (Some relay)
    then show ?thesis using parseRelayBlock_ok [OF e, of lib relay] by (auto simp: ParseRelayFromNode_def)
  qed (simp add: ParseRelayFromNode_def)
qed

section \<open>The relay search\<close>

function preorder :: "'j node \<Rightarrow> 'j node list" where
  "preorder n = n # concat (map preorder (children n))"
  by pat_completeness auto
termination by (relation "measure size") (auto intro: children_smaller)

declare preorder.simps [simp del] FindRelayNode.simps [simp del]

lemma find_append: "find P (xs @ ys) = (case find P xs of Some x \<Rightarrow> Some x | None \<Rightarrow> find P ys)"
  by (induction xs) auto

lemma FindRelay_preorder:
  fixes n :: "'j node" and ns :: "'j node list"
  shows "FindRelayNode n = find (\<lambda>n. nd_Tag n = ''relay'') (preorder n)"
  "FindRelay_list ns = find (\<lambda>n. nd_Tag n = ''relay'') (concat (map preorder ns))"
proof (induction n and ns rule: FindRelayNode_FindRelay_list.induct)
  case (1 n)
  then show ?case by (subst FindRelayNode.simps, subst preorder.simps) auto
next
  case (3 c cs)
  then show ?case by (auto simp: find_append split: option.split)
qed simp

section \<open>Properties\<close>

text \<open>
  Sorting relays by round trip time puts measured relays first in increasing order and
  unmeasured ones last, and keeps relays with equal (or no) measurement in their original order,
  losing and inventing none.
\<close>

theorem relays_sorted_stably:
  "sorted (map rtt_key (sortRelaysByRtt rs)) \<and>
   filter (\<lambda>ep. ep_C2RRtt ep = r) (sortRelaysByRtt rs) = filter (\<lambda>ep. ep_C2RRtt ep = r) rs \<and>
   mset (sortRelaysByRtt rs) = mset rs"
proof -
  have k: "(ep_C2RRtt ep = r) = (rtt_key ep = (case r of None \<Rightarrow> (True, 0) | Some x \<Rightarrow> (False, x)))" for ep
    by (auto simp: rtt_key_def split: option.splits)
  show ?thesis
    unfolding k by (simp add: sortRelaysByRtt_sort_key sort_key_stable)
qed

text \<open>
  Claim C37. Parsing any acknowledgement succeeds without reading out of bounds. It yields one
  endpoint per six-byte address announced in its relay blocks and no other, each with its dotted
  address and port; participants are distinct and not empty, and a hop-by-hop key has thirty bytes.
\<close>

theorem ParseRelayFromAck_correct:
  "\<exists>r. ParseRelayFromAck lib n = Some r \<and> ack_ok r \<and>
     mset (map ep_AddressBytes (pa_Relays r)) =
       mset (concat (map te2_addresses (filter (\<lambda>c. nd_Tag c = ''relay'') (children n))))"
proof -
  have cm: "concat (map (\<lambda>c. if P c then h c else []) cs) = concat (map h (filter P cs))" for P :: "'a node \<Rightarrow> bool" and h cs
    by (induction cs) auto
  have "ack_ok emptyAck" by (simp add: ack_ok_def emptyAck_def)
  from fold_go_total [of "children n" ack_ok "ack_child lib" addrs, OF ack_child_ok this]
  obtain r where r: "fold_go (ack_child lib) (children n) emptyAck = Some r" "ack_ok r"
    "addrs r = addrs emptyAck @ concat (map te2_addresses (filter (\<lambda>c. nd_Tag c = ''relay'') (children n)))"
    unfolding cm by blast
  moreover have "ack_ok (r\<lparr>pa_Relays := sortRelaysByRtt (pa_Relays r)\<rparr>)" using r(2) by (simp add: ack_ok_def)
  moreover have "mset (map ep_AddressBytes (sortRelaysByRtt (pa_Relays r))) = mset (addrs r)"
    by (simp only: mset_map sort_relays_simps addrs_def)
  moreover have "addrs emptyAck = []" by (simp add: addrs_def emptyAck_def)
  ultimately show ?thesis by (simp add: ParseRelayFromAck_def)
qed

text \<open>
  The relay search returns the first node tagged \<open>relay\<close> in document order, and nothing
  exactly when the tree has none.
\<close>

theorem FindRelayNode_first:
  "FindRelayNode n = find (\<lambda>n. nd_Tag n = ''relay'') (preorder n)"
  by (rule FindRelay_preorder)

end
