(* ===== verification/Signaling.thy ===== *)
theory Signaling
  imports Relay_Ack
begin

text \<open>
  Call stanzas: \<^verbatim>\<open>signaling_parse.go\<close>, \<^verbatim>\<open>signaling_build.go\<close>, \<^verbatim>\<open>video.go\<close> and \<^verbatim>\<open>callkey.go\<close> of
  \<^verbatim>\<open>internal/voip/signaling\<close>. Random stanza ids are arguments; the socket calls of the offer and
  accept builders are arguments that may fail. The lemmas relate what is built to what the parsers
  of the same package read.
\<close>

section \<open>Parsing\<close>

record 'j NodeInfo =
  ni_Tag :: string
  ni_PeerJid :: string
  ni_CallID :: string
  ni_PeerPlatform :: string
  ni_PeerAppVersion :: string
  ni_EpochID :: string
  ni_Timestamp :: string
  ni_InnerNode :: "'j node"

definition ExtractNodeInfo :: "'j jid_lib \<Rightarrow> 'j node \<Rightarrow> 'j NodeInfo option" where
  "ExtractNodeInfo lib node = (case children node of
      [] \<Rightarrow> None
    | inner # _ \<Rightarrow> Some \<lparr>ni_Tag = nd_Tag inner, ni_PeerJid = AttrString lib (nd_Attrs node) ''from'',
        ni_CallID = AttrString lib (nd_Attrs inner) ''call-id'',
        ni_PeerPlatform = AttrString lib (nd_Attrs node) ''platform'',
        ni_PeerAppVersion = AttrString lib (nd_Attrs node) ''version'',
        ni_EpochID = AttrString lib (nd_Attrs inner) ''e'',
        ni_Timestamp = AttrString lib (nd_Attrs inner) ''t'', ni_InnerNode = inner\<rparr>)"

definition is_enc :: "'j jid_lib \<Rightarrow> 'j node \<Rightarrow> bool" where
  "is_enc lib c \<longleftrightarrow> nd_Tag c = ''enc'' \<and> HasAttr lib (nd_Attrs c) ''type''"

definition findEncNode :: "'j jid_lib \<Rightarrow> 'j node \<Rightarrow> 'j node option" where
  "findEncNode lib inner = (case find (is_enc lib) (children inner) of
      Some c \<Rightarrow> Some c
    | None \<Rightarrow> find (is_enc lib) (concat (map children
        (filter (\<lambda>t. nd_Tag t = ''to'') (concat (map children
          (filter (\<lambda>c. nd_Tag c = ''destination'') (children inner))))))))"

definition NeedsDecryption :: "string \<Rightarrow> bool" where
  "NeedsDecryption tag \<longleftrightarrow> tag = ''preaccept'' \<or> tag = ''accept''"

text \<open>\<open>decrypt\<close> is the socket's \<open>DecryptCallKey\<close>; \<open>Inr None\<close> is a nil key without error.\<close>

definition DecryptCallKeyInNode ::
  "'j jid_lib \<Rightarrow> ('j \<Rightarrow> 'j node \<Rightarrow> 'e + bytes option) \<Rightarrow> 'j node \<Rightarrow> 'j \<Rightarrow> 'e + bytes option" where
  "DecryptCallKeyInNode lib decrypt inner peerJid = (case findEncNode lib inner of
      None \<Rightarrow> Inr None | Some encNode \<Rightarrow> decrypt peerJid encNode)"

section \<open>Video nodes\<close>

definition capabilityOffer :: bytes where "capabilityOffer = [0x01, 0x05, 0xf7, 0x09, 0xe4, 0xbb, 0x13]"
definition capabilityPreaccept :: bytes where "capabilityPreaccept = [0x01, 0x05, 0xf7, 0x09, 0xe4, 0xbb, 0x07]"
definition capabilityVideoOffer :: bytes where "capabilityVideoOffer = [0x01, 0x05, 0xf7, 0x09, 0xe4, 0xfa, 0x13]"
definition capabilityVideoPreaccept :: bytes where "capabilityVideoPreaccept = [0x01, 0x05, 0xff, 0x09, 0xe0, 0xfa, 0x13]"

definition videoOfferNode :: "'j node" where
  "videoOfferNode = Node ''video'' [(''enc'', AStr ''h.264''), (''dec'', AStr ''H264''), (''screen_width'', AStr ''1920''),
     (''screen_height'', AStr ''1080''), (''device_orientation'', AStr ''0'')] CNone"

definition videoAcceptNode :: "'j node" where
  "videoAcceptNode = Node ''video'' [(''dec'', AStr ''H264,H265,AV1'')] CNone"

definition OfferHasVideo :: "'j node option \<Rightarrow> bool" where
  "OfferHasVideo inner = (case inner of None \<Rightarrow> False | Some n \<Rightarrow> list_ex (\<lambda>c. nd_Tag c = ''video'') (children n))"

definition OfferVideoOrientation :: "'j jid_lib \<Rightarrow> 'j node option \<Rightarrow> int" where
  "OfferVideoOrientation lib inner = (case inner of None \<Rightarrow> 0 | Some n \<Rightarrow>
     (case find (\<lambda>c. nd_Tag c = ''video'') (children n) of
        None \<Rightarrow> 0 | Some c \<Rightarrow> AttrInt lib (nd_Attrs c) ''device_orientation'' 0))"

definition VideoStateDisabled :: int where "VideoStateDisabled = 0"
definition VideoStateEnabled :: int where "VideoStateEnabled = 1"
definition VideoStateUpgradeRequest :: int where "VideoStateUpgradeRequest = 3"
definition VideoStateUpgradeAccept :: int where "VideoStateUpgradeAccept = 4"
definition VideoStateUpgradeReject :: int where "VideoStateUpgradeReject = 5"
definition VideoStateStopped :: int where "VideoStateStopped = 6"
definition VideoStateUpgradeCancel :: int where "VideoStateUpgradeCancel = 8"
definition VideoStateUpgradeReqV2 :: int where "VideoStateUpgradeReqV2 = 11"

lemmas video_states = VideoStateDisabled_def VideoStateEnabled_def VideoStateUpgradeRequest_def
  VideoStateUpgradeAccept_def VideoStateUpgradeReject_def VideoStateStopped_def VideoStateUpgradeCancel_def
  VideoStateUpgradeReqV2_def

record 'j VideoStateParams =
  vp_PeerJid :: 'j
  vp_CallID :: string
  vp_CallCreator :: 'j
  vp_State :: int

definition BuildVideoStateStanza :: "string \<Rightarrow> 'j VideoStateParams \<Rightarrow> 'j node" where
  "BuildVideoStateStanza sid p = Node ''call'' [(''to'', AStringer (vp_PeerJid p)), (''id'', AStr sid)]
     (CNodes [Node ''video'' [(''call-id'', AStr (vp_CallID p)), (''call-creator'', AStringer (vp_CallCreator p)),
        (''state'', AStr (Itoa (vp_State p)))] CNone])"

definition BuildVideoAck :: "'j jid_lib \<Rightarrow> 'j node \<Rightarrow> 'j node" where
  "BuildVideoAck lib callNode = Node ''ack''
     [(''id'', AStr (AttrString lib (nd_Attrs callNode) ''id'')),
      (''to'', AStringer (MustJID lib (AttrString lib (nd_Attrs callNode) ''from''))),
      (''class'', AStr ''call''), (''type'', AStr ''video'')] CNone"

record ParsedVideoState =
  pv_CallID :: string
  pv_CallCreator :: string
  pv_State :: int
  pv_Found :: bool

definition ParseVideoState :: "'j jid_lib \<Rightarrow> 'j node \<Rightarrow> ParsedVideoState" where
  "ParseVideoState lib callNode = (case find (\<lambda>c. nd_Tag c = ''video'') (children callNode) of
      Some c \<Rightarrow> \<lparr>pv_CallID = AttrString lib (nd_Attrs c) ''call-id'',
        pv_CallCreator = AttrString lib (nd_Attrs c) ''call-creator'',
        pv_State = AttrInt lib (nd_Attrs c) ''state'' 0, pv_Found = True\<rparr>
    | None \<Rightarrow> \<lparr>pv_CallID = '''', pv_CallCreator = '''', pv_State = 0, pv_Found = False\<rparr>)"

section \<open>Building\<close>

definition callWrap :: "string \<Rightarrow> 'j \<Rightarrow> 'j node \<Rightarrow> 'j node" where
  "callWrap sid dest inner = Node ''call'' [(''to'', AStringer dest), (''id'', AStr sid)] (CNodes [inner])"

abbreviation call_attrs :: "string \<Rightarrow> 'j \<Rightarrow> (string \<times> 'j attr) list" where
  "call_attrs callID callCreator \<equiv> [(''call-id'', AStr callID), (''call-creator'', AStringer callCreator)]"

definition BuildTerminateStanza :: "string \<Rightarrow> 'j \<Rightarrow> string \<Rightarrow> 'j \<Rightarrow> 'j node" where
  "BuildTerminateStanza sid peerJid callID callCreator =
     callWrap sid peerJid (Node ''terminate'' (call_attrs callID callCreator) CNone)"

definition BuildTerminateElsewhereStanza :: "string \<Rightarrow> 'j \<Rightarrow> string \<Rightarrow> 'j \<Rightarrow> 'j list \<Rightarrow> 'j node" where
  "BuildTerminateElsewhereStanza sid peerJid callID callCreator devices =
     callWrap sid peerJid (Node ''terminate''
       (call_attrs callID callCreator @ [(''reason'', AStr ''accepted_elsewhere'')])
       (CNodes [Node ''destination'' [] (CNodes (map (\<lambda>jid. Node ''to'' [(''jid'', AStringer jid)] CNone) devices))]))"

definition BuildRejectStanza :: "string \<Rightarrow> 'j \<Rightarrow> string \<Rightarrow> 'j \<Rightarrow> 'j node" where
  "BuildRejectStanza sid peerJid callID callCreator =
     callWrap sid peerJid (Node ''reject'' (call_attrs callID callCreator) CNone)"

definition audio_node :: "string \<Rightarrow> 'j node" where
  "audio_node rate = Node ''audio'' [(''enc'', AStr ''opus''), (''rate'', AStr rate)] CNone"

definition encopt_node :: "'j node" where
  "encopt_node = Node ''encopt'' [(''keygen'', AStr ''2'')] CNone"

definition BuildPreacceptStanza :: "string \<Rightarrow> 'j \<Rightarrow> string \<Rightarrow> 'j \<Rightarrow> bool \<Rightarrow> 'j node" where
  "BuildPreacceptStanza sid peerJid callID callCreator video =
     Node ''call'' [(''to'', AStringer peerJid), (''id'', AStr sid)] (CNodes [Node ''preaccept''
       (call_attrs callID callCreator)
       (CNodes ([audio_node ''16000''] @ (if video then [videoAcceptNode] else []) @
         [encopt_node, Node ''capability'' [(''ver'', AStr ''1'')]
            (CBytes (if video then capabilityVideoPreaccept else capabilityPreaccept))]))])"

definition CreateCallAck :: "string \<Rightarrow> 'j \<Rightarrow> string \<Rightarrow> 'j node" where
  "CreateCallAck nodeID peerJid typ = Node ''ack''
     [(''id'', AStr nodeID), (''to'', AStringer peerJid), (''class'', AStr ''call''), (''type'', AStr typ)] CNone"

record RelayLatencyEntry =
  rl_RelayName :: string
  rl_Latency :: int
  rl_AddressBytes :: bytes

definition DecodeLatency :: "string \<Rightarrow> int" where
  "DecodeLatency enc = (case ParseUint 32 enc of
      None \<Rightarrow> 0 | Some v \<Rightarrow> if v < 0x2000000 then 0 else int v - 0x2000000)"

fun te_nodes :: "string list \<Rightarrow> RelayLatencyEntry list \<Rightarrow> 'j node list" where
  "te_nodes seen [] = []"
| "te_nodes seen (r # rs) =
     (if rl_RelayName r = '''' \<or> rl_RelayName r \<in> set seen then te_nodes seen rs
      else Node ''te'' [(''latency'', AStr (Itoa (0x2000000 + rl_Latency r))), (''relay_name'', AStr (rl_RelayName r))]
             (if rl_AddressBytes r \<noteq> [] then CBytes (rl_AddressBytes r) else CNone) #
           te_nodes (rl_RelayName r # seen) rs)"

definition BuildRelayLatencyStanza ::
  "'j jid_lib \<Rightarrow> string \<Rightarrow> 'j \<Rightarrow> string \<Rightarrow> 'j \<Rightarrow> RelayLatencyEntry list \<Rightarrow> 'j list \<Rightarrow> 'j node" where
  "BuildRelayLatencyStanza lib sid peerJid callID callCreator relays destinationJids =
     callWrap sid (MustJID lib (CleanJID (jid_String lib peerJid)))
       (Node ''relaylatency'' (call_attrs callID callCreator)
         (CNodes (te_nodes [] relays @
           (if destinationJids \<noteq> []
            then [Node ''destination'' [] (CNodes (map (\<lambda>jid. Node ''to'' [(''jid'', AStringer jid)] CNone) destinationJids))]
            else []))))"

definition net_node :: "(string \<times> 'j attr) list \<Rightarrow> 'j node" where
  "net_node attrs = Node ''net'' attrs CNone"

definition BuildTransportStanza :: "'j jid_lib \<Rightarrow> string \<Rightarrow> 'j \<Rightarrow> string \<Rightarrow> 'j \<Rightarrow> 'j node" where
  "BuildTransportStanza lib sid peerJid callID callCreator =
     callWrap sid (MustJID lib (CleanJID (jid_String lib peerJid)))
       (Node ''transport'' (call_attrs callID callCreator @
          [(''transport-message-type'', AStr ''0''), (''p2p-cand-round'', AStr ''0'')])
          (CNodes [net_node [(''medium'', AStr ''2''), (''protocol'', AStr ''0'')]]))"

definition BuildMuteV2Stanza :: "string \<Rightarrow> 'j \<Rightarrow> string \<Rightarrow> 'j \<Rightarrow> int \<Rightarrow> 'j node" where
  "BuildMuteV2Stanza sid peerDeviceJid callID callCreator muteState =
     Node ''call'' [(''to'', AStringer peerDeviceJid), (''id'', AStr sid)]
       (CNodes [Node ''mute_v2'' (call_attrs callID callCreator @ [(''mute-state'', AStr (Itoa muteState))]) CNone])"

definition BuildAcceptReceiptStanza :: "'j \<Rightarrow> string \<Rightarrow> string \<Rightarrow> 'j \<Rightarrow> 'j \<Rightarrow> 'j node" where
  "BuildAcceptReceiptStanza peerDeviceJid acceptMsgID callID callCreator ourJid =
     Node ''receipt'' [(''to'', AStringer peerDeviceJid), (''id'', AStr acceptMsgID), (''from'', AStringer ourJid)]
       (CNodes [Node ''accept'' (call_attrs callID callCreator) CNone])"

section \<open>Offer and accept\<close>

text \<open>The socket of \<^verbatim>\<open>core/voipsocket.go\<close>; its operations are parameters that may fail.\<close>

record ('j, 'e) VoipSocket =
  so_OwnPN :: 'j
  so_OwnLID :: 'j
  so_ResolveLIDForPN :: "'j \<Rightarrow> 'j"
  so_Query :: "'j node \<Rightarrow> 'e + 'j node option"
  so_SendNode :: "'j node \<Rightarrow> 'e option"
  so_AssertSessions :: "'j list \<Rightarrow> bool \<Rightarrow> 'e option"
  so_CreateParticipantNodes :: "'j list \<Rightarrow> bytes \<Rightarrow> (string \<times> 'j attr) list \<Rightarrow> 'e + 'j node list \<times> bool"
  so_GetUSyncDevices :: "'j list \<Rightarrow> 'e + 'j list"
  so_GetTCToken :: "'j \<Rightarrow> 'e + bytes"
  so_DecryptCallKey :: "'j \<Rightarrow> 'j node \<Rightarrow> 'e + bytes option"
  so_AccountDeviceIdentityNode :: "'j node option"

datatype 'e build_error = BuildErr string 'e | NoEncNode

definition own_jid :: "'j jid_lib \<Rightarrow> ('j, 'e) VoipSocket \<Rightarrow> 'j" where
  "own_jid lib sock = (if jid_IsEmpty lib (so_OwnLID sock) then so_OwnPN sock else so_OwnLID sock)"

definition device_identity :: "('j, 'e) VoipSocket \<Rightarrow> bool \<Rightarrow> 'j node list" where
  "device_identity sock include =
     (if include then (case so_AccountDeviceIdentityNode sock of Some di \<Rightarrow> [di] | None \<Rightarrow> []) else [])"

definition offer_content :: "('j, 'e) VoipSocket \<Rightarrow> 'e + bytes \<Rightarrow> 'j node list \<Rightarrow> bool \<Rightarrow> bool \<Rightarrow> 'j node list" where
  "offer_content sock token destinations includeDeviceIdentity video =
     (case token of Inr t \<Rightarrow> if t \<noteq> [] then [Node ''privacy'' [] (CBytes t)] else [] | Inl _ \<Rightarrow> []) @
     [audio_node ''8000'', audio_node ''16000''] @
     (if video then [videoOfferNode] else []) @
     [net_node [(''medium'', AStr ''3'')],
      Node ''capability'' [(''ver'', AStr ''1'')] (CBytes (if video then capabilityVideoOffer else capabilityOffer)),
      Node ''destination'' [] (CNodes destinations),
      encopt_node] @
     device_identity sock includeDeviceIdentity"

definition BuildOfferStanza ::
  "'j jid_lib \<Rightarrow> ('j, 'e) VoipSocket \<Rightarrow> string \<Rightarrow> string \<Rightarrow> bytes \<Rightarrow> 'j \<Rightarrow> bool \<Rightarrow> 'e build_error + 'j node \<times> 'j list" where
  "BuildOfferStanza lib sock sid callID callKey peerJid video =
     (case so_GetUSyncDevices sock [peerJid] of
        Inl e \<Rightarrow> Inl (BuildErr ''usync devices'' e)
      | Inr rawDevices \<Rightarrow>
        (case so_AssertSessions sock rawDevices False of
           Some e \<Rightarrow> Inl (BuildErr ''assert sessions'' e)
         | None \<Rightarrow>
           (case so_CreateParticipantNodes sock rawDevices callKey [(''count'', AStr ''0'')] of
              Inl e \<Rightarrow> Inl (BuildErr ''participant nodes'' e)
            | Inr (destinations, includeDeviceIdentity) \<Rightarrow>
                (let token = so_GetTCToken sock (MustJID lib (CleanJID (jid_String lib peerJid)))
                 in Inr (Node ''call'' [(''to'', AStringer peerJid), (''id'', AStr sid)]
                      (CNodes [Node ''offer'' (call_attrs callID (own_jid lib sock))
                         (CNodes (offer_content sock token destinations includeDeviceIdentity video))]),
                     rawDevices)))))"

fun extractEncFromParticipant :: "'j node list \<Rightarrow> 'j node option" where
  "extractEncFromParticipant [] = None"
| "extractEncFromParticipant (n # ns) =
     (if nd_Tag n = ''enc'' then Some n
      else case find (\<lambda>c. nd_Tag c = ''enc'') (children n) of
        Some c \<Rightarrow> Some c | None \<Rightarrow> extractEncFromParticipant ns)"

definition BuildAcceptStanza ::
  "'j jid_lib \<Rightarrow> ('j, 'e) VoipSocket \<Rightarrow> string \<Rightarrow> string \<Rightarrow> bytes \<Rightarrow> 'j \<Rightarrow> 'j \<Rightarrow> bool \<Rightarrow> 'e build_error + 'j node" where
  "BuildAcceptStanza lib sock sid callID callKey peerJid callCreator video =
     (case so_AssertSessions sock [callCreator] True of
        Some e \<Rightarrow> Inl (BuildErr ''assert creator session'' e)
      | None \<Rightarrow>
        (case so_CreateParticipantNodes sock [callCreator] callKey [(''count'', AStr ''0'')] of
           Inl e \<Rightarrow> Inl (BuildErr ''encrypt accept'' e)
         | Inr (nodes, includeDeviceIdentity) \<Rightarrow>
             (case extractEncFromParticipant nodes of
                None \<Rightarrow> Inl NoEncNode
              | Some encNode \<Rightarrow>
                  Inr (Node ''call'' [(''to'', AStringer (MustJID lib (CleanJID (jid_String lib peerJid)))), (''id'', AStr sid)]
                    (CNodes [Node ''accept'' (call_attrs callID callCreator)
                       (CNodes ([audio_node ''16000''] @ (if video then [videoAcceptNode] else []) @
                          [net_node [(''medium'', AStr ''3'')], encNode, encopt_node] @
                          device_identity sock includeDeviceIdentity))])))))"

section \<open>Lemmas\<close>

lemma ExtractNodeInfo_wrap [simp]:
  "ExtractNodeInfo lib (Node t a (CNodes (inner # rest))) =
     Some \<lparr>ni_Tag = nd_Tag inner, ni_PeerJid = AttrString lib a ''from'',
        ni_CallID = AttrString lib (nd_Attrs inner) ''call-id'', ni_PeerPlatform = AttrString lib a ''platform'',
        ni_PeerAppVersion = AttrString lib a ''version'', ni_EpochID = AttrString lib (nd_Attrs inner) ''e'',
        ni_Timestamp = AttrString lib (nd_Attrs inner) ''t'', ni_InnerNode = inner\<rparr>"
  by (simp add: ExtractNodeInfo_def)

lemma DecodeLatency_encode:
  "0 \<le> n \<Longrightarrow> n < 2 ^ 32 - 0x2000000 \<Longrightarrow> DecodeLatency (Itoa (0x2000000 + n)) = n"
  by (simp add: DecodeLatency_def ParseUint_Itoa nat_less_iff)

text \<open>Which latency entries survive: the first of every non-empty relay name.\<close>

fun first_named :: "string list \<Rightarrow> RelayLatencyEntry list \<Rightarrow> RelayLatencyEntry list" where
  "first_named seen [] = []"
| "first_named seen (r # rs) =
     (if rl_RelayName r = '''' \<or> rl_RelayName r \<in> set seen then first_named seen rs
      else r # first_named (rl_RelayName r # seen) rs)"

lemma first_named_names:
  "set (map rl_RelayName (first_named seen rs)) = set (map rl_RelayName rs) - {''''} - set seen"
  by (induction rs arbitrary: seen) auto

lemma first_named_distinct: "distinct (map rl_RelayName (first_named seen rs))"
proof (induction rs arbitrary: seen)
  case (Cons r rs)
  have "rl_RelayName r \<notin> set (map rl_RelayName (first_named (rl_RelayName r # seen) rs))"
    by (subst first_named_names) simp
  with Cons show ?case by simp
qed simp

definition read_te :: "'j jid_lib \<Rightarrow> 'j node \<Rightarrow> RelayLatencyEntry" where
  "read_te lib te = \<lparr>rl_RelayName = AttrString lib (nd_Attrs te) ''relay_name'',
     rl_Latency = DecodeLatency (AttrString lib (nd_Attrs te) ''latency''),
     rl_AddressBytes = (case NodeBytes te of None \<Rightarrow> [] | Some b \<Rightarrow> b)\<rparr>"

lemma te_nodes_tags: "t \<in> set (te_nodes seen rs) \<Longrightarrow> nd_Tag t = ''te''"
  by (induction rs arbitrary: seen) (auto split: if_splits)

lemma te_nodes_read:
  "\<forall>r\<in>set rs. 0 \<le> rl_Latency r \<and> rl_Latency r < 2 ^ 32 - 0x2000000 \<Longrightarrow>
   map (read_te lib) (te_nodes seen rs) = first_named seen rs"
  by (induction rs arbitrary: seen) (auto simp: read_te_def DecodeLatency_encode)

lemma find_enc_append:
  "find (is_enc lib) xs = None \<Longrightarrow> find (is_enc lib) (xs @ ys) = find (is_enc lib) ys"
  by (simp add: find_append)

section \<open>Properties\<close>

text \<open>
  Reading a video state stanza back gives the call id, the rendered creator and the state
  it was built with, for every state that fits a 64-bit integer.
\<close>

theorem video_state_roundtrip:
  assumes "- (2 ^ 63) \<le> vp_State p" "vp_State p < 2 ^ 63"
  shows "ParseVideoState lib (BuildVideoStateStanza sid p) =
     \<lparr>pv_CallID = vp_CallID p, pv_CallCreator = jid_String lib (vp_CallCreator p), pv_State = vp_State p, pv_Found = True\<rparr>"
  using assms by (simp add: ParseVideoState_def BuildVideoStateStanza_def AttrInt_Itoa)

definition sample_lib :: "string jid_lib" where
  "sample_lib = \<lparr>jid_String = (\<lambda>j. j), jid_Parse = (\<lambda>s. if CHR ''@'' \<in> set s then Some s else None),
     jid_Empty = '''', jid_IsEmpty = (\<lambda>j. j = '''')\<rparr>"

theorem video_state_roundtrip_witness:
  "pv_State (ParseVideoState sample_lib (BuildVideoStateStanza ''S''
     \<lparr>vp_PeerJid = ''1@w'', vp_CallID = ''C'', vp_CallCreator = ''2@w'', vp_State = VideoStateUpgradeRequest\<rparr>)) = 3"
  by (subst video_state_roundtrip) (simp_all add: video_states)

text \<open>
  The latency stanza carries one probe per distinct non-empty relay name, the first
  reported for that name, and a receiver decoding the probes recovers name, latency and address of
  each, for latencies representable above the protocol's offset.
\<close>

theorem relay_latency_roundtrip:
  assumes "\<forall>r\<in>set relays. 0 \<le> rl_Latency r \<and> rl_Latency r < 2 ^ 32 - 0x2000000"
  shows "\<exists>info. ExtractNodeInfo lib (BuildRelayLatencyStanza lib sid peer callID creator relays dests) = Some info \<and>
     ni_CallID info = callID \<and> ni_Tag info = ''relaylatency'' \<and>
     map (read_te lib) (filter (\<lambda>c. nd_Tag c = ''te'') (children (ni_InnerNode info))) = first_named [] relays \<and>
     distinct (map rl_RelayName (first_named [] relays)) \<and>
     set (map rl_RelayName (first_named [] relays)) = set (map rl_RelayName relays) - {''''}"
proof -
  have "filter (\<lambda>c. nd_Tag c = ''te'') (te_nodes [] relays) = (te_nodes [] relays :: 'a node list)"
    by (simp add: filter_id_conv te_nodes_tags)
  then show ?thesis
    using te_nodes_read [OF assms, of lib "[]"] first_named_distinct [of "[]" relays] first_named_names [of "[]" relays]
    by (auto simp: BuildRelayLatencyStanza_def callWrap_def)
qed

theorem relay_latency_roundtrip_witness:
  "\<exists>info. ExtractNodeInfo sample_lib (BuildRelayLatencyStanza sample_lib ''S'' ''1@w'' ''C'' ''2@w''
      [\<lparr>rl_RelayName = ''gru'', rl_Latency = 40, rl_AddressBytes = [1]\<rparr>, \<lparr>rl_RelayName = ''gru'', rl_Latency = 90, rl_AddressBytes = []\<rparr>] []) = Some info \<and>
     map (read_te sample_lib) (filter (\<lambda>c. nd_Tag c = ''te'') (children (ni_InnerNode info))) =
       [\<lparr>rl_RelayName = ''gru'', rl_Latency = 40, rl_AddressBytes = [1]\<rparr>]"
  using relay_latency_roundtrip [of "[\<lparr>rl_RelayName = ''gru'', rl_Latency = 40, rl_AddressBytes = [1]\<rparr>,
    \<lparr>rl_RelayName = ''gru'', rl_Latency = 90, rl_AddressBytes = []\<rparr>]" sample_lib "''S''" "''1@w''" "''C''" "''2@w''" "[]"]
  by auto


definition sample_enc :: "string node" where
  "sample_enc = Node ''enc'' [(''type'', AStr ''msg''), (''count'', AStr ''0'')] (CBytes [1, 2])"

definition sample_socket :: "(string, string) VoipSocket" where
  "sample_socket = \<lparr>so_OwnPN = ''1@s'', so_OwnLID = ''9@lid'', so_ResolveLIDForPN = (\<lambda>j. j),
     so_Query = (\<lambda>_. Inr None), so_SendNode = (\<lambda>_. None), so_AssertSessions = (\<lambda>_ _. None),
     so_CreateParticipantNodes = (\<lambda>js _ _. Inr (map (\<lambda>j. Node ''to'' [(''jid'', AStringer j)] (CNodes [sample_enc])) js, False)),
     so_GetUSyncDevices = (\<lambda>js. Inr (concat (map (\<lambda>j. [j, CHR ''2'' # j]) js))), so_GetTCToken = (\<lambda>_. Inr []),
     so_DecryptCallKey = (\<lambda>_ _. Inr None), so_AccountDeviceIdentityNode = None\<rparr>"


end
