(* ===== verification/Srtp_Manager.thy ===== *)
theory Srtp_Manager
  imports Srtp "HOL-Library.Mapping"
begin

text \<open>
  The per-SSRC SRTP contexts of a call: \<^verbatim>\<open>internal/voip/engine/srtpmanager.go\<close>. The manager
  creates a context the first time it sees an SSRC and accounts four KiB for it with the call
  observer. The observer is modelled by the trace of what it is told. The lemmas show that the
  accounting is exact and that interleaved streams do not influence one another.
\<close>

definition srtpContextBytes :: int where "srtpContextBytes = 4 * 1024"

datatype MemEvent = AddMem int | ReleaseMem int

text \<open>\<open>sm_observer\<close> is the observer in place, \<open>None\<close> the no-op observer; \<open>sm_trace\<close> what each
  observer was told, latest first.\<close>

record SrtpManager =
  sm_sendKM :: SrtpKeyingMaterial
  sm_recvKM :: SrtpKeyingMaterial
  sm_sendAuth :: int
  sm_recvAuth :: int
  sm_send :: "(u32, SrtpContext) mapping"
  sm_recv :: "(u32, SrtpContext) mapping"
  sm_observer :: "nat option"
  sm_mem :: int
  sm_trace :: "(nat option \<times> MemEvent) list"

datatype ManagerError = NilPacket | PacketTooShort | CipherFailed CipherError | SrtpFailed SrtpErrorType

definition NewSrtpManager :: "SrtpKeyingMaterial \<Rightarrow> SrtpKeyingMaterial \<Rightarrow> int \<Rightarrow> int \<Rightarrow> SrtpManager" where
  "NewSrtpManager sendKM recvKM sendAuth recvAuth =
     \<lparr>sm_sendKM = sendKM, sm_recvKM = recvKM, sm_sendAuth = sendAuth, sm_recvAuth = recvAuth,
      sm_send = Mapping.empty, sm_recv = Mapping.empty, sm_observer = None, sm_mem = 0, sm_trace = []\<rparr>"

definition SetObserver :: "SrtpManager \<Rightarrow> nat option \<Rightarrow> SrtpManager" where
  "SetObserver m ob = m\<lparr>sm_observer := ob\<rparr>"

definition tell :: "MemEvent \<Rightarrow> SrtpManager \<Rightarrow> SrtpManager" where
  "tell e m = m\<lparr>sm_trace := (sm_observer m, e) # sm_trace m\<rparr>"

definition mgr_err :: "(SrtpErrorType + 'a) \<Rightarrow> (ManagerError + 'a)" where
  "mgr_err r = (case r of Inl e \<Rightarrow> Inl (SrtpFailed e) | Inr x \<Rightarrow> Inr x)"

text \<open>Finding or creating the context of an SSRC.\<close>

definition sendContext :: "SrtpManager \<Rightarrow> u32 \<Rightarrow> (CipherError + SrtpContext \<times> SrtpManager) go" where
  "sendContext m ssrc =
     (case Mapping.lookup (sm_send m) ssrc of
        Some ctx \<Rightarrow> Some (Inr (ctx, m))
      | None \<Rightarrow>
          go_try (NewSrtpContext (sm_sendKM m) (sm_sendAuth m)) (\<lambda>c.
            Some (Inr (c, tell (AddMem srtpContextBytes)
              (m\<lparr>sm_send := Mapping.update ssrc c (sm_send m), sm_mem := sm_mem m + srtpContextBytes\<rparr>)))))"

definition recvContext :: "SrtpManager \<Rightarrow> u32 \<Rightarrow> (CipherError + SrtpContext \<times> SrtpManager) go" where
  "recvContext m ssrc =
     (case Mapping.lookup (sm_recv m) ssrc of
        Some ctx \<Rightarrow> Some (Inr (ctx, m))
      | None \<Rightarrow>
          go_try (NewSrtpContext (sm_recvKM m) (sm_recvAuth m)) (\<lambda>c.
            Some (Inr (c, tell (AddMem srtpContextBytes)
              (m\<lparr>sm_recv := Mapping.update ssrc c (sm_recv m), sm_mem := sm_mem m + srtpContextBytes\<rparr>)))))"

text \<open>Contexts are shared by pointer, so what an operation leaves of its context is what the map holds.\<close>

definition Manager_Protect :: "SrtpManager \<Rightarrow> RtpPacket option \<Rightarrow> ((ManagerError + bytes) \<times> SrtpManager) go" where
  "Manager_Protect m pkt =
     (case pkt of
        None \<Rightarrow> Some (Inl NilPacket, m)
      | Some p \<Rightarrow> do {
          r \<leftarrow> sendContext m (rh_Ssrc (rp_Header p));
          case r of
            Inl e \<Rightarrow> Some (Inl (CipherFailed e), m)
          | Inr (ctx, m) \<Rightarrow> do {
              (res, ctx) \<leftarrow> Protect ctx p;
              Some (mgr_err res, m\<lparr>sm_send := Mapping.update (rh_Ssrc (rp_Header p)) ctx (sm_send m)\<rparr>) } })"

definition Manager_Unprotect :: "SrtpManager \<Rightarrow> bytes \<Rightarrow> ((ManagerError + RtpPacket) \<times> SrtpManager) go" where
  "Manager_Unprotect m data =
     (if length data < 12 then Some (Inl PacketTooShort, m)
      else do {
        ssrc \<leftarrow> RTPSsrc data;
        r \<leftarrow> recvContext m ssrc;
        case r of
          Inl e \<Rightarrow> Some (Inl (CipherFailed e), m)
        | Inr (ctx, m) \<Rightarrow> do {
            (res, ctx) \<leftarrow> Unprotect ctx data;
            Some (mgr_err res, m\<lparr>sm_recv := Mapping.update ssrc ctx (sm_recv m)\<rparr>) } })"

definition RekeyRecv :: "SrtpManager \<Rightarrow> SrtpKeyingMaterial \<Rightarrow> SrtpManager" where
  "RekeyRecv m recvKM =
     (let released = int (Mapping.size (sm_recv m)) * srtpContextBytes;
          m = m\<lparr>sm_mem := sm_mem m - released, sm_recvKM := recvKM, sm_recv := Mapping.empty\<rparr>
      in if released > 0 then tell (ReleaseMem released) m else m)"

definition Manager_Close :: "SrtpManager \<Rightarrow> SrtpManager" where
  "Manager_Close m =
     (let released = sm_mem m;
          m = m\<lparr>sm_mem := 0, sm_send := Mapping.empty, sm_recv := Mapping.empty\<rparr>
      in if released > 0 then tell (ReleaseMem released) m else m)"

section \<open>Accounting\<close>

fun event_amount :: "MemEvent \<Rightarrow> int" where
  "event_amount (AddMem n) = n"
| "event_amount (ReleaseMem n) = - n"

text \<open>The net amount an observer has been told.\<close>

definition observed :: "nat option \<Rightarrow> SrtpManager \<Rightarrow> int" where
  "observed ob m = sum_list (map (event_amount \<circ> snd) (filter (\<lambda>x. fst x = ob) (sm_trace m)))"

definition mgr_inv :: "nat option \<Rightarrow> SrtpManager \<Rightarrow> bool" where
  "mgr_inv ob m \<longleftrightarrow> sm_observer m = ob \<and> finite (Mapping.keys (sm_send m)) \<and> finite (Mapping.keys (sm_recv m)) \<and>
     sm_mem m = srtpContextBytes * (int (Mapping.size (sm_send m)) + int (Mapping.size (sm_recv m))) \<and>
     observed ob m = sm_mem m"

inductive mgr_init :: "nat option \<Rightarrow> SrtpManager \<Rightarrow> bool" for ob where
  "mgr_init ob (SetObserver (NewSrtpManager sendKM recvKM sa ra) ob)"

inductive mgr_step :: "SrtpManager \<Rightarrow> SrtpManager \<Rightarrow> bool" where
  protect: "Manager_Protect m pkt = Some (r, m') \<Longrightarrow> mgr_step m m'"
| unprotect: "Manager_Unprotect m data = Some (q, m') \<Longrightarrow> mgr_step m m'"
| rekey: "mgr_step m (RekeyRecv m km)"
| close: "mgr_step m (Manager_Close m)"

lemma observed_simps [simp]:
  "observed ob (tell e m) = (if sm_observer m = ob then event_amount e else 0) + observed ob m"
  "observed ob (m\<lparr>sm_send := a\<rparr>) = observed ob m" "observed ob (m\<lparr>sm_recv := a\<rparr>) = observed ob m"
  "observed ob (m\<lparr>sm_mem := n\<rparr>) = observed ob m" "observed ob (m\<lparr>sm_recvKM := k\<rparr>) = observed ob m"
  by (simp_all add: observed_def tell_def)

lemma tell_simps [simp]:
  "sm_observer (tell e m) = sm_observer m" "sm_send (tell e m) = sm_send m" "sm_recv (tell e m) = sm_recv m"
  "sm_mem (tell e m) = sm_mem m" "sm_recvKM (tell e m) = sm_recvKM m" "sm_recvAuth (tell e m) = sm_recvAuth m"
  "sm_sendKM (tell e m) = sm_sendKM m" "sm_sendAuth (tell e m) = sm_sendAuth m"
  by (simp_all add: tell_def)

lemma size_update:
  "finite (Mapping.keys m) \<Longrightarrow>
   Mapping.size (Mapping.update k v m) = (if k \<in> Mapping.keys m then Mapping.size m else Suc (Mapping.size m))"
  by (simp add: Mapping.size_def insert_absorb)

lemma lookup_keys: "Mapping.lookup m k = None \<longleftrightarrow> k \<notin> Mapping.keys m"
  by (simp add: keys_is_none_rep Option.is_none_def)

lemma mgr_inv_init: "mgr_init ob m \<Longrightarrow> mgr_inv ob m"
  by (induction rule: mgr_init.induct)
     (simp add: mgr_inv_def SetObserver_def NewSrtpManager_def observed_def Mapping.size_def)

lemma size_nonneg_bytes: "0 < srtpContextBytes" by (simp add: srtpContextBytes_def)

lemma mgr_inv_update:
  "mgr_inv ob m \<Longrightarrow> k \<in> Mapping.keys (sm_send m) \<Longrightarrow> mgr_inv ob (m\<lparr>sm_send := Mapping.update k c (sm_send m)\<rparr>)"
  "mgr_inv ob m \<Longrightarrow> k \<in> Mapping.keys (sm_recv m) \<Longrightarrow> mgr_inv ob (m\<lparr>sm_recv := Mapping.update k c (sm_recv m)\<rparr>)"
  by (simp_all add: mgr_inv_def size_update)

lemma sendContext_inv:
  assumes "mgr_inv ob m" "sendContext m k = Some (Inr (c, m'))"
  shows "mgr_inv ob m' \<and> k \<in> Mapping.keys (sm_send m')"
proof (cases "Mapping.lookup (sm_send m) k")
  case None
  with assms show ?thesis
    by (auto simp: sendContext_def go_try_eq_Inr_iff mgr_inv_def size_update lookup_keys algebra_simps)
next
  case (Some c')
  with assms lookup_keys [of "sm_send m" k] show ?thesis by (auto simp: sendContext_def)
qed

lemma recvContext_inv:
  assumes "mgr_inv ob m" "recvContext m k = Some (Inr (c, m'))"
  shows "mgr_inv ob m' \<and> k \<in> Mapping.keys (sm_recv m')"
proof (cases "Mapping.lookup (sm_recv m) k")
  case None
  with assms show ?thesis
    by (auto simp: recvContext_def go_try_eq_Inr_iff mgr_inv_def size_update lookup_keys algebra_simps)
next
  case (Some c')
  with assms lookup_keys [of "sm_recv m" k] show ?thesis by (auto simp: recvContext_def)
qed

lemma mgr_inv_rekey: "mgr_inv ob m \<Longrightarrow> mgr_inv ob (RekeyRecv m km)"
  by (auto simp: mgr_inv_def RekeyRecv_def Let_def Mapping.size_def srtpContextBytes_def algebra_simps)

lemma mgr_inv_close: "mgr_inv ob m \<Longrightarrow> mgr_inv ob (Manager_Close m)"
  by (auto simp: mgr_inv_def Manager_Close_def Let_def Mapping.size_def srtpContextBytes_def)

lemma mgr_inv_step: "mgr_step m m' \<Longrightarrow> mgr_inv ob m \<Longrightarrow> mgr_inv ob m'"
proof (induction rule: mgr_step.induct)
  case (protect m pkt r m')
  show ?case
  proof (cases pkt)
    case (Some p)
    with protect show ?thesis
      by (cases rule: go_cases [of "sendContext m (rh_Ssrc (rp_Header p))"])
         (auto simp: Manager_Protect_def bind_eq_Some_conv dest: sendContext_inv intro!: mgr_inv_update)
  qed (use protect in \<open>simp add: Manager_Protect_def\<close>)
next
  case (unprotect m data q m')
  show ?case
  proof (cases "length data < 12")
    case False
    with unprotect obtain k where "RTPSsrc data = Some k"
      by (auto simp: Manager_Unprotect_def bind_eq_Some_conv)
    with unprotect False show ?thesis
      by (cases rule: go_cases [of "recvContext m k"])
         (auto simp: Manager_Unprotect_def bind_eq_Some_conv dest: recvContext_inv intro!: mgr_inv_update)
  qed (use unprotect in \<open>simp add: Manager_Unprotect_def\<close>)
qed (auto intro: mgr_inv_rekey mgr_inv_close)

interpretation mgr: invariant_system "mgr_init ob" mgr_step "mgr_inv ob"
  for ob
  by unfold_locales (auto intro: mgr_inv_init mgr_inv_step)

section \<open>Isolation of streams\<close>

text \<open>Results of a sequence of datagrams handed to a manager and to one context.\<close>

fun mgr_run :: "SrtpManager \<Rightarrow> bytes list \<Rightarrow> (ManagerError + RtpPacket) list go" where
  "mgr_run m [] = Some []"
| "mgr_run m (d # ds) = do { (r, m') \<leftarrow> Manager_Unprotect m d; rs \<leftarrow> mgr_run m' ds; Some (r # rs) }"

fun ctx_run :: "SrtpContext \<Rightarrow> bytes list \<Rightarrow> (SrtpErrorType + RtpPacket) list go" where
  "ctx_run c [] = Some []"
| "ctx_run c (d # ds) = do { (r, c') \<leftarrow> Unprotect c d; rs \<leftarrow> ctx_run c' ds; Some (r # rs) }"

definition has_ssrc :: "u32 \<Rightarrow> bytes \<Rightarrow> bool" where
  "has_ssrc ssrc d \<longleftrightarrow> 12 \<le> length d \<and> RTPSsrc d = Some ssrc"

definition recv_ok :: "SrtpManager \<Rightarrow> bool" where
  "recv_ok m \<longleftrightarrow> keying_ok (sm_recvKM m) \<and> sm_recvAuth m \<le> 20 \<and>
     (\<forall>k c. Mapping.lookup (sm_recv m) k = Some c \<longrightarrow> ctx_ok c)"

text \<open>The context a manager would use for an SSRC.\<close>

definition view :: "SrtpManager \<Rightarrow> u32 \<Rightarrow> SrtpContext" where
  "view m ssrc = (case Mapping.lookup (sm_recv m) ssrc of
      Some c \<Rightarrow> c
    | None \<Rightarrow> projr (the (NewSrtpContext (sm_recvKM m) (sm_recvAuth m))))"

lemma view_ok: "recv_ok m \<Longrightarrow> ctx_ok (view m ssrc)"
proof -
  assume ok: "recv_ok m"
  then obtain c where c: "NewSrtpContext (sm_recvKM m) (sm_recvAuth m) = Some (Inr c)"
    using NewSrtpContext_total [of "sm_recvKM m" "sm_recvAuth m"] by (auto simp: recv_ok_def)
  with ok have "ctx_ok c" by (intro NewSrtpContext_new(1)) (auto simp: recv_ok_def)
  with ok c show ?thesis by (auto simp: view_def recv_ok_def split: option.split)
qed

lemma Unprotect_total:
  assumes "ctx_ok c"
  obtains r c' where "Unprotect c d = Some (r, c')" "ctx_ok c'"
  using assms by (cases rule: Unprotect_cases [of c d]) (use assms that in auto)

lemma RTPSsrc_total: "12 \<le> length d \<Longrightarrow> \<exists>s. RTPSsrc d = Some s"
  by (simp add: RTPSsrc_def idx_def)

lemma Manager_Unprotect_step:
  assumes "recv_ok m" "has_ssrc ssrc d" "Unprotect (view m ssrc) d = Some (r, c')"
  shows "\<exists>m'. Manager_Unprotect m d = Some (mgr_err r, m') \<and> recv_ok m' \<and>
    view m' ssrc = c' \<and> (\<forall>k. k \<noteq> ssrc \<longrightarrow> view m' k = view m k)"
proof -
  obtain c where c: "NewSrtpContext (sm_recvKM m) (sm_recvAuth m) = Some (Inr c)"
    using NewSrtpContext_total [of "sm_recvKM m" "sm_recvAuth m"] assms(1) by (auto simp: recv_ok_def)
  have "ctx_ok c'"
    using assms(3) by (rule_tac Unprotect_total [OF view_ok [OF assms(1), of ssrc], of d]) simp
  then show ?thesis
    using assms c
    by (cases "Mapping.lookup (sm_recv m) ssrc")
       (auto simp: Manager_Unprotect_def has_ssrc_def recvContext_def view_def recv_ok_def lookup_update' split: option.split)
qed

text \<open>Whatever other datagrams are interleaved, the results of those of one SSRC are the results a
  single context would give for them alone.\<close>

lemma mgr_run_isolated:
  "recv_ok m \<Longrightarrow> \<exists>rs. mgr_run m ds = Some rs \<and> length rs = length ds \<and>
     ctx_run (view m ssrc) (filter (has_ssrc ssrc) ds) \<noteq> None \<and>
     map snd (filter (\<lambda>x. has_ssrc ssrc (fst x)) (zip ds rs)) =
       map mgr_err (the (ctx_run (view m ssrc) (filter (has_ssrc ssrc) ds)))"
proof (induction ds arbitrary: m)
  case (Cons d ds)
  show ?case
  proof (cases "12 \<le> length d")
    case False
    then have "\<not> has_ssrc ssrc d" "Manager_Unprotect m d = Some (Inl PacketTooShort, m)"
      by (auto simp: Manager_Unprotect_def has_ssrc_def)
    with Cons.IH [OF Cons.prems] show ?thesis by auto
  next
    case True
    then obtain k where k: "has_ssrc k d" using RTPSsrc_total by (auto simp: has_ssrc_def)
    obtain r c' where u: "Unprotect (view m k) d = Some (r, c')"
      by (rule Unprotect_total [OF view_ok [OF Cons.prems, of k], of d])
    from Manager_Unprotect_step [OF Cons.prems k u] obtain m' where
      m': "Manager_Unprotect m d = Some (mgr_err r, m')" "recv_ok m'" "view m' k = c'"
        "\<And>j. j \<noteq> k \<Longrightarrow> view m' j = view m j" by auto
    have same: "has_ssrc ssrc d \<longleftrightarrow> ssrc = k" using k by (auto simp: has_ssrc_def)
    from Cons.IH [OF m'(2)] m' u show ?thesis
      by (cases "ssrc = k") (auto simp: same k)
  qed
qed simp

section \<open>Properties\<close>

text \<open>
  Whatever packets are protected and unprotected and however often the receive side is
  rekeyed or the manager closed, the manager's memory figure is exactly four KiB per live context
  and equals the net amount its observer was told; right after closing it is zero and no context
  is left.
\<close>

theorem srtp_manager_accounting:
  assumes "reach (mgr_init ob) mgr_step m"
  shows "sm_mem m = 4096 * (int (Mapping.size (sm_send m)) + int (Mapping.size (sm_recv m))) \<and>
    observed ob m = sm_mem m \<and>
    observed ob (Manager_Close m) = 0 \<and> Mapping.size (sm_send (Manager_Close m)) = 0 \<and>
    Mapping.size (sm_recv (Manager_Close m)) = 0"
proof -
  have "mgr_inv ob m" "mgr_inv ob (Manager_Close m)"
    using mgr.reach_inv [OF assms] mgr_inv_close by auto
  then show ?thesis
    by (auto simp: mgr_inv_def srtpContextBytes_def)
       (auto simp: Manager_Close_def Let_def Mapping.size_def)
qed

theorem srtp_manager_accounting_witness:
  "let m = RekeyRecv (SetObserver (NewSrtpManager sample_keying sample_keying 4 4) (Some 1)) sample_keying in
   observed (Some 1) (Manager_Close m) = 0"
proof -
  let ?m0 = "SetObserver (NewSrtpManager sample_keying sample_keying 4 4) (Some 1)"
  have "reach (mgr_init (Some 1)) mgr_step (RekeyRecv ?m0 sample_keying)"
    using mgr_step.rekey by (rule reach_step [rotated]) (rule reach_init, rule mgr_init.intros)
  from srtp_manager_accounting [OF this] show ?thesis by (simp add: Let_def)
qed

text \<open>
  Claim C30. Streams are isolated: for any interleaving of datagrams, the results the manager gives
  for the datagrams of one SSRC are exactly the results a fresh context of its own would give for
  that stream alone, so packets of other SSRCs, valid or forged, cannot disturb it.
\<close>

theorem srtp_streams_isolated:
  assumes "keying_ok recvKM" "recvAuth \<le> 20" "NewSrtpContext recvKM recvAuth = Some (Inr c)"
  shows "\<exists>rs cs. mgr_run (NewSrtpManager sendKM recvKM sendAuth recvAuth) ds = Some rs \<and>
     ctx_run c (filter (has_ssrc ssrc) ds) = Some cs \<and>
     map snd (filter (\<lambda>x. has_ssrc ssrc (fst x)) (zip ds rs)) = map mgr_err cs"
proof -
  let ?m = "NewSrtpManager sendKM recvKM sendAuth recvAuth"
  have "recv_ok ?m" "view ?m ssrc = c"
    using assms by (auto simp: recv_ok_def view_def NewSrtpManager_def)
  with mgr_run_isolated [of ?m ds ssrc] show ?thesis by auto
qed

theorem srtp_streams_isolated_witness:
  "\<exists>rs. mgr_run (NewSrtpManager sample_keying sample_keying 4 4) [replicate 20 0x80, []] = Some rs"
proof -
  have k: "keying_ok sample_keying" by (simp add: keying_ok_def sample_keying_def)
  obtain c where "NewSrtpContext sample_keying 4 = Some (Inr c)" using NewSrtpContext_total [OF k] by blast
  from srtp_streams_isolated [OF k _ this] show ?thesis by fastforce
qed

end
