(* ===== verification/Rtcp.thy ===== *)
theory Rtcp
  imports Core_Types
begin

text \<open>
  RTCP reports: \<^verbatim>\<open>internal/voip/media/rtcp.go\<close>. Builders store into zeroed buffers; a Go array
  result of fixed size is the list of its bytes. A \<open>string\<close> is its bytes. The fractional NTP
  seconds are computed in \<open>float64\<close>: for a millisecond count below 1000 the quotient by 1000 is
  rounded by less than \<open>2^-53\<close> and no multiple of \<open>2^32/1000\<close> that is not itself an integer is
  nearer than 1/125 to one, so truncating the product gives the exact integer quotient used here.
  The lemmas show that the parser reads back what the builders write, that it never reads out of
  bounds, and how many blocks it can return.
\<close>

definition RTCPPayloadTypeSR :: u8 where "RTCPPayloadTypeSR = 200"
definition RTCPPayloadTypeRR :: u8 where "RTCPPayloadTypeRR = 201"
definition RTCPPayloadTypeSDES :: u8 where "RTCPPayloadTypeSDES = 202"
definition RTCPPayloadTypeCompact :: u8 where "RTCPPayloadTypeCompact = 208"
definition RTCPPayloadTypeCompact2 :: u8 where "RTCPPayloadTypeCompact2 = 209"
definition sdesItemCNAME :: u8 where "sdesItemCNAME = 1"
definition ntpUnixOffsetSecs :: u64 where "ntpUnixOffsetSecs = 2208988800"

record RTCPSenderStats =
  st_PacketsSent :: u32
  st_OctetsSent :: u32
  st_RtpTimestamp :: u32

record RTCPReportBlock =
  rb_SSRC :: u32
  rb_FractionLost :: u8
  rb_CumulativeLost :: u32
  rb_ExtHighSeq :: u32
  rb_Jitter :: u32
  rb_LSR :: u32
  rb_DLSR :: u32

section \<open>Builders\<close>

definition BuildCompact208 :: "u32 \<Rightarrow> u32 \<Rightarrow> bytes" where
  "BuildCompact208 local remote = [0x81, RTCPPayloadTypeCompact, 0, 2] @ be32 local @ be32 remote"

definition BuildCompact209 :: "u32 \<Rightarrow> bytes" where
  "BuildCompact209 local = [0x81, RTCPPayloadTypeCompact2, 0, 1] @ be32 local"

definition ntpSec :: "u64 \<Rightarrow> u32" where
  "ntpSec nowMs = ucast (nowMs div 1000 + ntpUnixOffsetSecs)"

definition ntpFrac :: "u64 \<Rightarrow> u32" where
  "ntpFrac nowMs = of_nat (unat (nowMs mod 1000) * 2 ^ 32 div 1000)"

definition BuildSenderReport :: "u32 \<Rightarrow> RTCPSenderStats \<Rightarrow> u64 \<Rightarrow> bytes" where
  "BuildSenderReport local s nowMs =
     [0x80, RTCPPayloadTypeSR, 0, 6] @ be32 local @ be32 (ntpSec nowMs) @ be32 (ntpFrac nowMs) @
     be32 (st_RtpTimestamp s) @ be32 (st_PacketsSent s) @ be32 (st_OctetsSent s)"

definition report_block_bytes :: "RTCPReportBlock \<Rightarrow> bytes" where
  "report_block_bytes rb =
     be32 (rb_SSRC rb) @
     [rb_FractionLost rb, ucast (drop_bit 16 (rb_CumulativeLost rb)),
      ucast (drop_bit 8 (rb_CumulativeLost rb)), ucast (rb_CumulativeLost rb)] @
     be32 (rb_ExtHighSeq rb) @ be32 (rb_Jitter rb) @ be32 (rb_LSR rb) @ be32 (rb_DLSR rb)"

definition BuildSenderReportWithBlock ::
  "u32 \<Rightarrow> RTCPSenderStats \<Rightarrow> RTCPReportBlock option \<Rightarrow> u64 \<Rightarrow> bytes" where
  "BuildSenderReportWithBlock local s rb nowMs =
     (let size = (if rb = None then 28 else 52);
          rc = (if rb = None then 0 else 1)
      in [0x80 OR rc, RTCPPayloadTypeSR] @ be16 (of_nat (size div 4 - 1)) @ be32 local @
         be32 (ntpSec nowMs) @ be32 (ntpFrac nowMs) @ be32 (st_RtpTimestamp s) @
         be32 (st_PacketsSent s) @ be32 (st_OctetsSent s) @
         (case rb of None \<Rightarrow> [] | Some b \<Rightarrow> report_block_bytes b))"

definition sdes_chunk :: "u32 \<Rightarrow> bytes \<Rightarrow> bytes" where
  "sdes_chunk ssrc cname =
     (let chunk = be32 ssrc @ [sdesItemCNAME, of_nat (length cname)] @ cname @ [0];
          pad = (4 - (4 + length chunk) mod 4) mod 4
      in chunk @ replicate pad 0)"

definition BuildSDES :: "u32 \<Rightarrow> bytes \<Rightarrow> bytes" where
  "BuildSDES ssrc cname =
     (let chunk = sdes_chunk ssrc cname
      in [0x81, RTCPPayloadTypeSDES] @ be16 (of_nat ((4 + length chunk) div 4 - 1)) @ chunk)"

definition BuildRTCPCompound ::
  "u32 \<Rightarrow> RTCPSenderStats \<Rightarrow> RTCPReportBlock option \<Rightarrow> bytes \<Rightarrow> u64 \<Rightarrow> bytes" where
  "BuildRTCPCompound local s rb cname nowMs =
     BuildSenderReportWithBlock local s rb nowMs @ BuildSDES local cname"

section \<open>Parser\<close>

definition ParseRTCPSenderSSRC :: "bytes \<Rightarrow> (u32 \<times> bool) go" where
  "ParseRTCPSenderSSRC data =
     (if length data < 8 then Some (0, False)
      else do {
        b0 \<leftarrow> idx data 0;
        if drop_bit 6 b0 AND 3 \<noteq> 2 then Some (0, False)
        else do { v \<leftarrow> be_uint32 data 4; Some (v, True) } })"

text \<open>\<open>InboundReportBlock\<close> has the fields of \<open>RTCPReportBlock\<close>; one record models both.\<close>

type_synonym InboundReportBlock = RTCPReportBlock

record InboundRTCP =
  in_HasSR :: bool
  in_SRNtpMid :: u32
  in_Blocks :: "InboundReportBlock list"

definition parse_block :: "bytes \<Rightarrow> InboundReportBlock go" where
  "parse_block p = do {
     ssrc \<leftarrow> be_uint32 p 0; fl \<leftarrow> idx p 4; c2 \<leftarrow> idx p 5; c1 \<leftarrow> idx p 6; c0 \<leftarrow> idx p 7;
     eh \<leftarrow> be_uint32 p 8; j \<leftarrow> be_uint32 p 12; lsr \<leftarrow> be_uint32 p 16; dlsr \<leftarrow> be_uint32 p 20;
     Some \<lparr>rb_SSRC = ssrc, rb_FractionLost = fl,
       rb_CumulativeLost = push_bit 16 (ucast c2) OR push_bit 8 (ucast c1) OR ucast c0,
       rb_ExtHighSeq = eh, rb_Jitter = j, rb_LSR = lsr, rb_DLSR = dlsr\<rparr> }"

text \<open>The loop of \<open>parseReportBlocks\<close> from block \<open>i\<close> on; \<open>k\<close> is \<open>rc - i\<close>.\<close>

fun parseReportBlocks :: "bytes \<Rightarrow> nat \<Rightarrow> nat \<Rightarrow> InboundReportBlock list go" where
  "parseReportBlocks b i 0 = Some []"
| "parseReportBlocks b i (Suc k) =
     (if (i + 1) * 24 \<le> length b then do {
        p \<leftarrow> slice_from b (i * 24);
        x \<leftarrow> parse_block p;
        xs \<leftarrow> parseReportBlocks b (i + 1) k;
        Some (x # xs) }
      else Some [])"

text \<open>One packet of the compound at \<open>off\<close>, whose bounds have been checked.\<close>

definition parse_packet :: "bytes \<Rightarrow> nat \<Rightarrow> u8 \<Rightarrow> nat \<Rightarrow> nat \<Rightarrow> InboundRTCP \<Rightarrow> InboundRTCP go" where
  "parse_packet data off pt rc pktLen out =
     (if pt = RTCPPayloadTypeSR then
        if 28 \<le> pktLen then do {
          mid \<leftarrow> slice data (off + 10) (off + 14);
          m \<leftarrow> be_uint32 mid 0;
          b \<leftarrow> slice data (off + 28) (off + pktLen);
          bs \<leftarrow> parseReportBlocks b 0 rc;
          Some (out\<lparr>in_HasSR := True, in_SRNtpMid := m, in_Blocks := in_Blocks out @ bs\<rparr>) }
        else Some out
      else if pt = RTCPPayloadTypeRR then
        if 8 \<le> pktLen then do {
          b \<leftarrow> slice data (off + 8) (off + pktLen);
          bs \<leftarrow> parseReportBlocks b 0 rc;
          Some (out\<lparr>in_Blocks := in_Blocks out @ bs\<rparr>) }
        else Some out
      else Some out)"

text \<open>The walk over the compound. The length field makes every step advance by at least four bytes.\<close>

function parse_compound :: "bytes \<Rightarrow> nat \<Rightarrow> InboundRTCP \<Rightarrow> InboundRTCP go" where
  "parse_compound data off out =
     (if off + 4 \<le> length data then do {
        b0 \<leftarrow> idx data off;
        if drop_bit 6 b0 AND 3 \<noteq> 2 then Some out
        else do {
          pt \<leftarrow> idx data (off + 1);
          len \<leftarrow> be_uint16 data (off + 2);
          let rc = unat (b0 AND 0x1f);
          let pktLen = (unat len + 1) * 4;
          if pktLen < 4 \<or> length data < off + pktLen then Some out
          else do {
            out \<leftarrow> parse_packet data off pt rc pktLen out;
            parse_compound data (off + pktLen) out } } }
      else Some out)"
  by pat_completeness auto
termination by (relation "measure (\<lambda>(data, off, out). length data - off)") auto

declare parse_compound.simps [simp del]

definition ParseRTCPCompound :: "bytes \<Rightarrow> InboundRTCP go" where
  "ParseRTCPCompound data = parse_compound data 0 \<lparr>in_HasSR = False, in_SRNtpMid = 0, in_Blocks = []\<rparr>"

section \<open>The parser never reads out of bounds\<close>

lemma parse_block_total: "24 \<le> length p \<Longrightarrow> \<exists>x. parse_block p = Some x"
  by (simp add: parse_block_def be_uint32_nth idx_def)

lemma parseReportBlocks_total:
  "\<exists>xs. parseReportBlocks b i k = Some xs \<and> length xs \<le> k \<and> (i + length xs) * 24 \<le> max (i * 24) (length b)"
proof (induction b i k rule: parseReportBlocks.induct)
  case (2 b i k)
  show ?case
  proof (cases "(i + 1) * 24 \<le> length b")
    case True
    then have "24 \<le> length (drop (i * 24) b)" by simp
    then obtain x where x: "parse_block (drop (i * 24) b) = Some x" using parse_block_total by blast
    from True have s: "slice_from b (i * 24) = Some (drop (i * 24) b)" by (simp add: slice_from_Some)
    from "2.IH" [OF True s x] obtain xs where "parseReportBlocks b (i + 1) k = Some xs" "length xs \<le> k"
      "(i + 1 + length xs) * 24 \<le> max ((i + 1) * 24) (length b)" by auto
    with True s x show ?thesis by auto
  qed auto
qed auto

lemma parse_packet_total:
  assumes "off + pktLen \<le> length data"
  shows "\<exists>out'. parse_packet data off pt rc pktLen out = Some out'"
proof -
  have "\<forall>b. \<exists>xs. parseReportBlocks b 0 rc = Some xs" using parseReportBlocks_total by blast
  then obtain xs where "parseReportBlocks b 0 rc = Some (xs b)" for b by metis
  with assms show ?thesis by (auto simp: parse_packet_def slice_def be_uint32_nth)
qed

lemma parse_compound_total: "\<exists>out'. parse_compound data off out = Some out'"
proof (induction data off out rule: parse_compound.induct)
  case (1 data off out)
  show ?case
  proof (cases "off + 4 \<le> length data")
    case True
    have rd: "idx data off = Some (data ! off)" "idx data (off + 1) = Some (data ! (off + 1))"
      "\<exists>l. be_uint16 data (off + 2) = Some l"
      using True by (auto simp: idx_def be_uint16_nth)
    then obtain l where l: "be_uint16 data (off + 2) = Some l" by blast
    let ?n = "(unat l + 1) * 4"
    show ?thesis
    proof (cases "drop_bit 6 (data ! off) AND 3 \<noteq> 2 \<or> length data < off + ?n")
      case False
      then obtain out' where p: "parse_packet data off (data ! (off + 1)) (unat (data ! off AND 0x1f)) ?n out = Some out'"
        using parse_packet_total [of off ?n data] by (meson not_less)
      from "1.IH" [OF True rd(1) _ rd(2) l refl refl _ p] False
      obtain r where "parse_compound data (off + ?n) out' = Some r" by auto
      with True rd l p False show ?thesis by (subst parse_compound.simps) simp
    qed (use True rd l in \<open>auto simp: parse_compound.simps [of data off]\<close>)
  qed (simp add: parse_compound.simps)
qed

section \<open>The parser reads back what the builders write\<close>

lemma parse_compound_packet:
  assumes "pkt = [first, pt] @ be16 len @ body" "length pkt = (unat len + 1) * 4" "drop_bit 6 first AND 3 = 2"
  shows "parse_compound (pre @ pkt @ rest) (length pre) out =
    do { out \<leftarrow> parse_packet (pre @ pkt @ rest) (length pre) pt (unat (first AND 0x1f)) (length pkt) out;
         parse_compound (pre @ pkt @ rest) (length pre + length pkt) out }"
proof -
  let ?d = "pre @ pkt @ rest"
  have "idx ?d (length pre) = Some first" "idx ?d (length pre + 1) = Some pt" "4 \<le> length pkt"
    using assms(1) by (simp_all add: idx_def nth_append)
  moreover have "be_uint16 ?d (length pre + 2) = Some len"
    using assms(1) by (subst be_uint16_drop) (simp add: be_uint16_be16)
  ultimately show ?thesis
    using assms(2,3) by (subst parse_compound.simps) (simp add: Let_def)
qed

lemma parse_compound_end: "length data \<le> off \<Longrightarrow> parse_compound data off out = Some out"
  by (subst parse_compound.simps) simp

definition ntpMid :: "u32 \<Rightarrow> u32 \<Rightarrow> u32" where
  "ntpMid sec frac = push_bit 16 sec OR drop_bit 16 frac"

lemma join32_mid:
  "join32 (ucast (drop_bit 8 s)) (ucast s) (ucast (drop_bit 24 f)) (ucast (drop_bit 16 f)) = ntpMid s f"
  for s f :: u32
  unfolding join32_def ntpMid_def
proof (rule bit_word_eqI, goal_cases)
  case (1 n)
  then consider "n < 8" | "8 \<le> n" "n < 16" | "16 \<le> n" "n < 24" | "24 \<le> n" "n < 32" by fastforce
  then show ?case by cases (auto simp: bit_simps dest: bit_imp_le_length)
qed

lemma join24:
  "push_bit 16 (ucast (ucast (drop_bit 16 c) :: u8)) OR push_bit 8 (ucast (ucast (drop_bit 8 c) :: u8)) OR
   ucast (ucast c :: u8) = take_bit 24 c"
  for c :: u32
proof (rule bit_word_eqI, goal_cases)
  case (1 n)
  then consider "n < 8" | "8 \<le> n" "n < 16" | "16 \<le> n" "n < 24" | "24 \<le> n" "n < 32" by fastforce
  then show ?case by cases (auto simp: bit_simps)
qed

lemma length_report_block_bytes [simp, byte_lens]: "length (report_block_bytes rb) = 24"
  by (simp add: report_block_bytes_def)

lemma parse_block_bytes:
  "parse_block (report_block_bytes rb) = Some (rb\<lparr>rb_CumulativeLost := take_bit 24 (rb_CumulativeLost rb)\<rparr>)"
  by (cases rb)
     (simp add: parse_block_def report_block_bytes_def be_uint32_def idx_def be32_def join32_split join24)

lemma parse_blocks_one:
  "parseReportBlocks (report_block_bytes rb) 0 (Suc 0) = Some [rb\<lparr>rb_CumulativeLost := take_bit 24 (rb_CumulativeLost rb)\<rparr>]"
  by (simp add: slice_from_def slice_def parse_block_bytes One_nat_def)

definition parsed_blocks :: "RTCPReportBlock option \<Rightarrow> RTCPReportBlock list" where
  "parsed_blocks rb = (case rb of None \<Rightarrow> [] | Some b \<Rightarrow> [b\<lparr>rb_CumulativeLost := take_bit 24 (rb_CumulativeLost b)\<rparr>])"

lemma length_SR: "length (BuildSenderReportWithBlock l s rb n) = (if rb = None then 28 else 52)"
  by (auto simp: BuildSenderReportWithBlock_def Let_def split: option.split)

lemma parse_SR:
  "parse_packet (BuildSenderReportWithBlock l s rb n @ rest) 0 RTCPPayloadTypeSR (if rb = None then 0 else 1)
     (if rb = None then 28 else 52) out =
   Some (out\<lparr>in_HasSR := True, in_SRNtpMid := ntpMid (ntpSec n) (ntpFrac n),
     in_Blocks := in_Blocks out @ parsed_blocks rb\<rparr>)"
proof (cases rb)
  case None
  then show ?thesis
    by (simp add: parse_packet_def slice_def BuildSenderReportWithBlock_def be32_def be16_def be_uint32_def
        join32_mid parsed_blocks_def)
next
  case (Some b)
  let ?h = "[0x81, RTCPPayloadTypeSR] @ be16 12 @ be32 l @ be32 (ntpSec n) @ be32 (ntpFrac n) @
    be32 (st_RtpTimestamp s) @ be32 (st_PacketsSent s) @ be32 (st_OctetsSent s)"
  have d: "BuildSenderReportWithBlock l s rb n @ rest = ?h @ report_block_bytes b @ rest"
    by (simp add: BuildSenderReportWithBlock_def Some)
  have "slice (?h @ report_block_bytes b @ rest) 28 52 = Some (report_block_bytes b)"
    by (rule slice_append_mid) simp_all
  moreover have "\<exists>x. slice (?h @ report_block_bytes b @ rest) 10 14 = Some x \<and>
      be_uint32 x 0 = Some (ntpMid (ntpSec n) (ntpFrac n))"
    by (simp add: slice_def be32_def be16_def be_uint32_def join32_mid)
  ultimately show ?thesis
    unfolding d by (auto simp: Some parse_packet_def parse_blocks_one parsed_blocks_def simp del: parseReportBlocks.simps)
qed

lemma sdes_chunk_mod: "length (sdes_chunk ssrc cname) mod 4 = 0"
proof -
  have "(n + (4 - n mod 4) mod 4) mod 4 = 0" for n :: nat
  proof -
    have "n mod 4 = 0 \<or> n mod 4 = 1 \<or> n mod 4 = 2 \<or> n mod 4 = 3" by linarith
    then show ?thesis by (subst mod_add_left_eq [symmetric]) auto
  qed
  from this [of "7 + length cname"] show ?thesis by (simp add: sdes_chunk_def Let_def add.assoc)
qed

lemma length_sdes_chunk: "4 \<le> length (sdes_chunk ssrc cname)" "length (sdes_chunk ssrc cname) \<le> length cname + 10"
  by (simp_all add: sdes_chunk_def Let_def)

lemma SDES_length_field:
  assumes "length cname < 2 ^ 18 - 16"
  shows "length (BuildSDES ssrc cname) =
    (unat (of_nat ((4 + length (sdes_chunk ssrc cname)) div 4 - 1) :: u16) + 1) * 4"
proof -
  let ?n = "length (sdes_chunk ssrc cname)"
  have n: "?n mod 4 = 0" "4 \<le> ?n" "?n < 2 ^ 18 - 4"
    using sdes_chunk_mod length_sdes_chunk [of ssrc cname] assms by auto
  have "unat (of_nat ((4 + ?n) div 4 - 1) :: u16) = (4 + ?n) div 4 - 1"
    using n by (intro unat_of_nat16) auto
  moreover have "((4 + ?n) div 4 - 1 + 1) * 4 = 4 + ?n" using n by presburger
  ultimately show ?thesis by (simp add: BuildSDES_def Let_def)
qed

section \<open>Properties\<close>

text \<open>
  Claim C31. Parsing the RTCP compound the program sends gives back its content: a sender report is
  seen, its NTP middle bits are those of the clock reading, and the report block, if any, is
  returned with its cumulative loss reduced to 24 bits; the SDES packet behind it is skipped.
\<close>

theorem rtcp_compound_roundtrip:
  assumes "length cname < 2 ^ 18 - 16"
  shows "ParseRTCPCompound (BuildRTCPCompound local s rb cname nowMs) =
    Some \<lparr>in_HasSR = True, in_SRNtpMid = ntpMid (ntpSec nowMs) (ntpFrac nowMs), in_Blocks = parsed_blocks rb\<rparr>"
proof -
  let ?sr = "BuildSenderReportWithBlock local s rb nowMs" and ?sd = "BuildSDES local cname"
  let ?out = "\<lparr>in_HasSR = True, in_SRNtpMid = ntpMid (ntpSec nowMs) (ntpFrac nowMs), in_Blocks = parsed_blocks rb\<rparr>"
  let ?rc = "if rb = None then 0 else 1 :: u8" and ?n = "if rb = None then 28 else 52 :: nat"
  obtain body where sr: "?sr = [0x80 OR ?rc, RTCPPayloadTypeSR] @ be16 (of_nat (?n div 4 - 1)) @ body"
    by (auto simp: BuildSenderReportWithBlock_def Let_def)
  have "parse_compound ([] @ ?sr @ ?sd) (length ([] :: bytes)) \<lparr>in_HasSR = False, in_SRNtpMid = 0, in_Blocks = []\<rparr> =
     parse_compound (?sr @ ?sd) (length ?sr) ?out"
    by (subst parse_compound_packet [OF sr]) (auto simp: length_SR parse_SR [where rb = None, simplified] parse_SR [where rb = "Some y" for y, simplified])
  also have "\<dots> = parse_compound (?sr @ ?sd @ []) (length ?sr) ?out" by simp
  also have "\<dots> = Some ?out"
    using SDES_length_field [OF assms, of local]
    by (subst parse_compound_packet [where first = "0x81" and pt = RTCPPayloadTypeSDES and
          body = "sdes_chunk local cname"])
       (auto simp: BuildSDES_def Let_def parse_packet_def RTCPPayloadTypeSDES_def RTCPPayloadTypeSR_def
          RTCPPayloadTypeRR_def parse_compound_end)
  finally show ?thesis by (simp add: ParseRTCPCompound_def BuildRTCPCompound_def)
qed

theorem rtcp_compound_roundtrip_witness:
  "ParseRTCPCompound (BuildRTCPCompound 7 \<lparr>st_PacketsSent = 1, st_OctetsSent = 2, st_RtpTimestamp = 3\<rparr>
     (Some \<lparr>rb_SSRC = 9, rb_FractionLost = 1, rb_CumulativeLost = 0x1000002, rb_ExtHighSeq = 3, rb_Jitter = 4,
            rb_LSR = 5, rb_DLSR = 6\<rparr>) [97, 98] 1500) =
   Some \<lparr>in_HasSR = True, in_SRNtpMid = ntpMid (ntpSec 1500) (ntpFrac 1500),
         in_Blocks = [\<lparr>rb_SSRC = 9, rb_FractionLost = 1, rb_CumulativeLost = 2, rb_ExtHighSeq = 3, rb_Jitter = 4,
            rb_LSR = 5, rb_DLSR = 6\<rparr>]\<rparr>"
  by (subst rtcp_compound_roundtrip) (simp_all add: parsed_blocks_def)

text \<open>
  Parsing an arbitrary byte string as an RTCP compound terminates without reading out of
  bounds, whatever its length and count fields say.
\<close>

theorem ParseRTCPCompound_never_panics: "\<exists>out. ParseRTCPCompound data = Some out"
  unfolding ParseRTCPCompound_def by (rule parse_compound_total)

end
