(* ===== verification/Rtcp_Receiver.thy ===== *)
theory Rtcp_Receiver
  imports Rtcp
begin

text \<open>
  Reception statistics of one peer stream: \<^verbatim>\<open>internal/voip/media/rtcp_receiver.go\<close>. The counters are
  words; the jitter and round trip estimates are \<open>float64\<close>, whose operations are the parameter
  \<open>float_ops\<close>, on which nothing proved here depends. The lemmas show that the reported fraction
  lost is never truncated, that an in-order stream is counted exactly across sequence number
  wrap-around, and what a packet reordered across the wrap does to the count.
\<close>

record 'f float_ops =
  fo_of_int :: "int \<Rightarrow> 'f"
  fo_add :: "'f \<Rightarrow> 'f \<Rightarrow> 'f"
  fo_sub :: "'f \<Rightarrow> 'f \<Rightarrow> 'f"
  fo_mul :: "'f \<Rightarrow> 'f \<Rightarrow> 'f"
  fo_div :: "'f \<Rightarrow> 'f \<Rightarrow> 'f"
  fo_uint32 :: "'f \<Rightarrow> u32"

definition audioClockRate :: u32 where "audioClockRate = 16000"

record 'f RTCPReceiverStats =
  rr_clockRate :: u32
  rr_baseSeq :: u32
  rr_maxSeq :: u16
  rr_cycles :: u32
  rr_received :: u32
  rr_initSeq :: bool
  rr_expectPrev :: u32
  rr_recvPrev :: u32
  rr_jitter :: 'f
  rr_lastTs :: u32
  rr_lastArriv :: u32
  rr_haveTs :: bool
  rr_lsr :: u32
  rr_lsrArrival :: u64
  rr_rttMs :: 'f
  rr_hasRtt :: bool
  rr_rttSamples :: u32
  rr_peerFractionLost :: u8

record 'f CallQuality =
  cq_RttMs :: 'f
  cq_JitterMs :: 'f
  cq_LossFraction :: 'f
  cq_HasRtt :: bool

definition NewRTCPReceiverStats :: "'f float_ops \<Rightarrow> 'f RTCPReceiverStats" where
  "NewRTCPReceiverStats F =
     \<lparr>rr_clockRate = audioClockRate, rr_baseSeq = 0, rr_maxSeq = 0, rr_cycles = 0, rr_received = 0,
      rr_initSeq = False, rr_expectPrev = 0, rr_recvPrev = 0, rr_jitter = fo_of_int F 0, rr_lastTs = 0,
      rr_lastArriv = 0, rr_haveTs = False, rr_lsr = 0, rr_lsrArrival = 0, rr_rttMs = fo_of_int F 0,
      rr_hasRtt = False, rr_rttSamples = 0, rr_peerFractionLost = 0\<rparr>"

text \<open>\<open>NoteRTP\<close> in its two halves: sequence bookkeeping and interarrival jitter.\<close>

definition note_seq :: "u16 \<Rightarrow> 'f RTCPReceiverStats \<Rightarrow> 'f RTCPReceiverStats" where
  "note_seq seq r =
     (let r = (if \<not> rr_initSeq r then r\<lparr>rr_baseSeq := ucast seq, rr_maxSeq := seq, rr_initSeq := True\<rparr>
               else if seq < rr_maxSeq r \<and> rr_maxSeq r - seq < 0x8000 then r
               else let r = (if seq < rr_maxSeq r then r\<lparr>rr_cycles := rr_cycles r + 0x10000\<rparr> else r)
                    in r\<lparr>rr_maxSeq := seq\<rparr>)
      in r\<lparr>rr_received := rr_received r + 1\<rparr>)"

definition note_jitter :: "'f float_ops \<Rightarrow> u32 \<Rightarrow> u64 \<Rightarrow> 'f RTCPReceiverStats \<Rightarrow> 'f RTCPReceiverStats" where
  "note_jitter F rtpTs arrivalMs r =
     (let arriv = ucast (arrivalMs * ucast (rr_clockRate r) div 1000);
          r = (if rr_haveTs r then
                 let transit = arriv - rr_lastArriv r; tsDelta = rtpTs - rr_lastTs r;
                     d = \<bar>uint transit - uint tsDelta\<bar>
                 in r\<lparr>rr_jitter := fo_add F (rr_jitter r)
                        (fo_div F (fo_sub F (fo_of_int F d) (rr_jitter r)) (fo_of_int F 16))\<rparr>
               else r)
      in r\<lparr>rr_lastTs := rtpTs, rr_lastArriv := arriv, rr_haveTs := True\<rparr>)"

definition NoteRTP :: "'f float_ops \<Rightarrow> 'f RTCPReceiverStats \<Rightarrow> u16 \<Rightarrow> u32 \<Rightarrow> u64 \<Rightarrow> 'f RTCPReceiverStats" where
  "NoteRTP F r seq rtpTs arrivalMs = note_jitter F rtpTs arrivalMs (note_seq seq r)"

definition NoteSenderReport :: "'f RTCPReceiverStats \<Rightarrow> u32 \<Rightarrow> u64 \<Rightarrow> 'f RTCPReceiverStats" where
  "NoteSenderReport r mid arrivalMs = r\<lparr>rr_lsr := mid, rr_lsrArrival := arrivalMs\<rparr>"

definition mid32 :: "u64 \<Rightarrow> u32" where
  "mid32 nowMs = push_bit 16 (ntpSec nowMs) OR drop_bit 16 (ntpFrac nowMs)"

definition NotePeerReportBlock ::
  "'f float_ops \<Rightarrow> 'f RTCPReceiverStats \<Rightarrow> u32 \<Rightarrow> u32 \<Rightarrow> u8 \<Rightarrow> u64 \<Rightarrow> 'f RTCPReceiverStats" where
  "NotePeerReportBlock F r lsr dlsr fractionLost nowMs =
     (let r = r\<lparr>rr_peerFractionLost := fractionLost\<rparr> in
      if lsr = 0 then r
      else
        let a = mid32 nowMs in
        if a < lsr \<or> a - lsr < dlsr then r
        else
          let rtt = a - lsr - dlsr in
          r\<lparr>rr_rttMs := fo_div F (fo_mul F (fo_of_int F (uint rtt)) (fo_of_int F 1000)) (fo_of_int F 65536),
            rr_hasRtt := True, rr_rttSamples := rr_rttSamples r + 1\<rparr>)"

definition extHigh :: "'f RTCPReceiverStats \<Rightarrow> u32" where
  "extHigh r = rr_cycles r OR ucast (rr_maxSeq r)"

definition QualitySnapshot :: "'f float_ops \<Rightarrow> 'f RTCPReceiverStats \<Rightarrow> 'f CallQuality" where
  "QualitySnapshot F r =
     (let loss = (if rr_initSeq r then
                    let expected = extHigh r - rr_baseSeq r + 1 in
                    if expected > 0 then
                      let cum = uint expected - uint (rr_received r) in
                      if cum > 0 then fo_div F (fo_of_int F cum) (fo_of_int F (uint expected)) else fo_of_int F 0
                    else fo_of_int F 0
                  else fo_of_int F 0)
      in \<lparr>cq_RttMs = rr_rttMs r,
          cq_JitterMs = fo_mul F (fo_div F (rr_jitter r) (fo_of_int F (uint (rr_clockRate r)))) (fo_of_int F 1000),
          cq_LossFraction = loss, cq_HasRtt = rr_hasRtt r\<rparr>)"

definition RttSamples :: "'f RTCPReceiverStats \<Rightarrow> u32" where
  "RttSamples r = rr_rttSamples r"

definition expected_count :: "'f RTCPReceiverStats \<Rightarrow> u32" where
  "expected_count r = (if rr_initSeq r then extHigh r - rr_baseSeq r + 1 else 0)"

definition ReportBlock ::
  "'f float_ops \<Rightarrow> 'f RTCPReceiverStats \<Rightarrow> u32 \<Rightarrow> u64 \<Rightarrow> RTCPReportBlock \<times> 'f RTCPReceiverStats" where
  "ReportBlock F r peerSsrc nowMs =
     (let expected = expected_count r;
          cumulativeLost = expected - rr_received r;
          expectedInterval = expected - rr_expectPrev r;
          receivedInterval = rr_received r - rr_recvPrev r;
          r' = r\<lparr>rr_expectPrev := expected, rr_recvPrev := rr_received r\<rparr>;
          lostInterval = uint expectedInterval - uint receivedInterval;
          fraction = (if expectedInterval > 0 \<and> lostInterval > 0
                      then of_int (lostInterval * 256 div uint expectedInterval) else 0);
          dlsr = (if rr_lsr r \<noteq> 0 \<and> nowMs \<ge> rr_lsrArrival r
                  then ucast ((nowMs - rr_lsrArrival r) * 65536 div 1000) else 0)
      in (\<lparr>rb_SSRC = peerSsrc, rb_FractionLost = fraction, rb_CumulativeLost = cumulativeLost AND 0xffffff,
           rb_ExtHighSeq = extHigh r, rb_Jitter = fo_uint32 F (rr_jitter r), rb_LSR = rr_lsr r,
           rb_DLSR = dlsr\<rparr>, r'))"

section \<open>Lemmas\<close>

fun note_all :: "'f float_ops \<Rightarrow> 'f RTCPReceiverStats \<Rightarrow> (u16 \<times> u32 \<times> u64) list \<Rightarrow> 'f RTCPReceiverStats" where
  "note_all F r [] = r"
| "note_all F r ((seq, ts, ms) # ps) = note_all F (NoteRTP F r seq ts ms) ps"

lemma note_jitter_fields [simp]:
  "rr_baseSeq (note_jitter F t a r) = rr_baseSeq r" "rr_maxSeq (note_jitter F t a r) = rr_maxSeq r"
  "rr_cycles (note_jitter F t a r) = rr_cycles r" "rr_received (note_jitter F t a r) = rr_received r"
  "rr_initSeq (note_jitter F t a r) = rr_initSeq r" "rr_expectPrev (note_jitter F t a r) = rr_expectPrev r"
  "rr_recvPrev (note_jitter F t a r) = rr_recvPrev r"
  by (simp_all add: note_jitter_def Let_def)

lemma note_seq_counts [simp]:
  "rr_received (note_seq q r) = rr_received r + 1" "rr_expectPrev (note_seq q r) = rr_expectPrev r"
  "rr_recvPrev (note_seq q r) = rr_recvPrev r"
  by (simp_all add: note_seq_def Let_def)

lemma NoteRTP_counts [simp]:
  "rr_received (NoteRTP F r q t a) = rr_received r + 1" "rr_expectPrev (NoteRTP F r q t a) = rr_expectPrev r"
  "rr_recvPrev (NoteRTP F r q t a) = rr_recvPrev r"
  by (simp_all add: NoteRTP_def)

lemma note_all_counts:
  "rr_received (note_all F r ps) = rr_received r + of_nat (length ps)"
  "rr_expectPrev (note_all F r ps) = rr_expectPrev r" "rr_recvPrev (note_all F r ps) = rr_recvPrev r"
  by (induction F r ps rule: note_all.induct) (simp_all add: algebra_simps)

text \<open>Right after construction and right after a report nothing has been noted since.\<close>

definition synced :: "'f RTCPReceiverStats \<Rightarrow> bool" where
  "synced r \<longleftrightarrow> rr_expectPrev r = expected_count r \<and> rr_recvPrev r = rr_received r"

lemma synced_new: "synced (NewRTCPReceiverStats F)"
  by (simp add: synced_def NewRTCPReceiverStats_def expected_count_def)

lemma synced_report: "synced (snd (ReportBlock F r ssrc now))"
  by (simp add: synced_def ReportBlock_def Let_def expected_count_def extHigh_def)

lemma interval_fraction:
  fixes e k :: nat
  assumes "0 < k" "k < e"
  shows "(int e - int k) * 256 div int e < 256" "0 \<le> (int e - int k) * 256 div int e"
proof -
  let ?x = "(int e - int k) * 256"
  have "?x < 256 * int e" using assms by auto
  moreover have "?x div int e * int e \<le> ?x"
    using assms by (simp add: minus_mod_eq_div_mult [symmetric])
  moreover have "256 * int e \<le> ?x div int e * int e" if "256 \<le> ?x div int e"
    using that by (intro mult_right_mono) auto
  ultimately show "?x div int e < 256" by linarith
  show "0 \<le> (int e - int k) * 256 div int e" using assms by (simp add: pos_imp_zdiv_nonneg_iff)
qed

section \<open>In-order streams\<close>

text \<open>\<open>counted base i n r\<close>: extended sequence numbers from \<open>base\<close> up to \<open>i\<close> were seen, \<open>n\<close> packets in all.\<close>

definition counted :: "nat \<Rightarrow> nat \<Rightarrow> nat \<Rightarrow> 'f RTCPReceiverStats \<Rightarrow> bool" where
  "counted base i n r \<longleftrightarrow> rr_initSeq r \<and> unat (rr_baseSeq r) = base \<and>
     rr_cycles r = push_bit 16 (of_nat (i div 65536)) \<and> unat (rr_maxSeq r) = i mod 65536 \<and>
     rr_received r = of_nat n"

lemma unat_extHigh:
  assumes "counted base i n r" "i < 2 ^ 32"
  shows "unat (extHigh r) = i"
proof -
  let ?c = "of_nat (i div 65536) :: u32" and ?m = "ucast (rr_maxSeq r) :: u32"
  have "push_bit 16 ?c AND ?m = 0"
    by (rule bit_word_eqI) (auto simp: bit_simps dest: bit_imp_le_length)
  then have "extHigh r = push_bit 16 ?c + ?m"
    using assms(1) unfolding extHigh_def counted_def by (simp only: disjunctive_add_eq_or)
  moreover have "unat (push_bit 16 ?c) = i div 65536 * 65536"
    using assms(2) by (subst unsigned_push_bit_eq) (auto simp: unat_of_nat push_bit_eq_mult take_bit_nat_eq_self)
  moreover have "unat ?m = i mod 65536"
    using assms(1) by (simp add: counted_def unsigned_ucast_eq take_bit_nat_eq_self)
  ultimately show ?thesis
    using assms(2) by (simp add: unat_add_lem [THEN iffD1])
qed

lemma note_seq_first:
  "\<not> rr_initSeq r \<Longrightarrow> rr_cycles r = 0 \<Longrightarrow> rr_received r = 0 \<Longrightarrow> counted (unat q) (unat q) 1 (note_seq q r)"
  using unsigned_less [of q, where ?'a = nat]
  by (simp add: counted_def note_seq_def unsigned_ucast_eq take_bit_nat_eq_self)

lemma note_seq_next:
  assumes "counted base i n r" "i < j" "j < i + 32768" "j < 2 ^ 32" "unat q = j mod 65536"
  shows "counted base j (Suc n) (note_seq q r)"
proof -
  let ?m = "unat (rr_maxSeq r)"
  have m: "?m = i mod 65536" using assms(1) by (simp add: counted_def)
  have "j div 65536 = i div 65536 \<and> i mod 65536 < j mod 65536 \<and> j mod 65536 < i mod 65536 + 32768 \<or>
     j div 65536 = i div 65536 + 1 \<and> j mod 65536 + 32768 < i mod 65536"
    using assms(2,3) by (intro index_step) auto
  then consider (same) "j div 65536 = i div 65536" "?m < unat q"
    | (wrap) "j div 65536 = i div 65536 + 1" "unat q + 32768 < ?m"
    using m assms(5) by auto
  then show ?thesis
  proof cases
    case same
    then have "\<not> q < rr_maxSeq r" by (simp add: word_less_nat_alt)
    with same assms show ?thesis by (simp add: counted_def note_seq_def Let_def)
  next
    case wrap
    then have "q < rr_maxSeq r" "\<not> rr_maxSeq r - q < 0x8000"
      by (auto simp: word_less_nat_alt unat_sub word_le_nat_alt)
    moreover have "push_bit 16 (of_nat (Suc k)) = push_bit 16 (of_nat k) + (0x10000 :: u32)" for k
      by (simp add: push_bit_eq_mult algebra_simps)
    ultimately show ?thesis using wrap assms by (simp add: counted_def note_seq_def Let_def)
  qed
qed

text \<open>Packets noted in order, by extended sequence number.\<close>

fun in_order :: "nat \<Rightarrow> (nat \<times> u32 \<times> u64) list \<Rightarrow> bool" where
  "in_order i [] \<longleftrightarrow> True"
| "in_order i ((j, t, a) # ps) \<longleftrightarrow> i < j \<and> j < i + 32768 \<and> j < 2 ^ 32 \<and> in_order j ps"

definition as_notes :: "(nat \<times> u32 \<times> u64) list \<Rightarrow> (u16 \<times> u32 \<times> u64) list" where
  "as_notes ps = map (\<lambda>(j, t, a). (of_nat j, t, a)) ps"

lemma counted_jitter: "counted base i n (note_jitter F t a r) = counted base i n r"
  by (simp add: counted_def)

lemma note_all_counted:
  "counted base i n r \<Longrightarrow> in_order i ps \<Longrightarrow>
   counted base (last (i # map fst ps)) (n + length ps) (note_all F r (as_notes ps))"
proof (induction ps arbitrary: i n r)
  case (Cons p ps)
  obtain j t a where p: "p = (j, t, a)" by (cases p) auto
  have "counted base j (Suc n) (NoteRTP F r (of_nat j) t a)"
    using Cons.prems p by (auto simp: NoteRTP_def counted_jitter unat_of_nat take_bit_eq_mod intro!: note_seq_next)
  from Cons.IH [OF this] Cons.prems p show ?case
    by (auto simp: as_notes_def)
qed (simp add: as_notes_def)

lemma in_order_last: "in_order i ps \<Longrightarrow> i + length ps \<le> last (i # map fst ps) \<and> (ps \<noteq> [] \<longrightarrow> last (i # map fst ps) < 2 ^ 32)"
proof (induction i ps rule: in_order.induct)
  case (2 i j t a ps)
  then show ?case by (cases ps) auto
qed simp

section \<open>Properties\<close>

text \<open>
  The fraction-lost byte of a report is the exact quotient for the interval since the
  previous report, never reduced modulo 256: with \<open>k\<close> packets noted since then and \<open>e\<close> expected,
  it is \<open>256 (e - k) / e\<close> rounded down if fewer arrived than expected, and 0 otherwise.
\<close>

theorem fraction_lost_never_truncated:
  assumes "synced r" "length ps < 2 ^ 32"
  shows "uint (rb_FractionLost (fst (ReportBlock F (note_all F r ps) ssrc now))) =
    (let e = unat (expected_count (note_all F r ps) - expected_count r) in
     if length ps < e then (int e - int (length ps)) * 256 div int e else 0)"
proof (cases "ps = []")
  case True
  with assms show ?thesis by (simp add: ReportBlock_def synced_def Let_def)
next
  case False
  let ?r = "note_all F r ps"
  let ?e = "expected_count ?r - expected_count r" and ?k = "length ps"
  have k: "rr_received ?r - rr_recvPrev ?r = of_nat ?k" "rr_expectPrev ?r = expected_count r"
    using assms(1) by (simp_all add: note_all_counts synced_def)
  have uk: "uint (of_nat ?k :: u32) = int ?k"
    using assms(2) unat_of_nat32 [of ?k] by (simp add: uint_nat)
  define e where "e = unat ?e"
  have ue: "uint ?e = int e" "0 < ?e \<longleftrightarrow> 0 < e" by (simp_all add: e_def word_less_nat_alt)
  have fl: "rb_FractionLost (fst (ReportBlock F ?r ssrc now)) =
     (if 0 < e \<and> int e - int ?k > 0 then of_int ((int e - int ?k) * 256 div int e) else 0)"
    by (simp add: ReportBlock_def Let_def k uk ue)
  show ?thesis
  proof (cases "?k < e")
    case True
    have "uint (of_int ((int e - int ?k) * 256 div int e) :: u8) = (int e - int ?k) * 256 div int e"
      using interval_fraction [OF _ True] False by (simp add: uint_word_of_int_eq take_bit_int_eq_self)
    with True show ?thesis unfolding Let_def e_def [symmetric] fl by simp
  next
    case f: False
    then show ?thesis unfolding Let_def e_def [symmetric] fl by simp
  qed
qed

theorem fraction_lost_never_truncated_witness:
  "\<exists>F :: unit float_ops. let r = NewRTCPReceiverStats F; ps = [(10, 0, 0), (14, 0, 0)] in
     uint (rb_FractionLost (fst (ReportBlock F (note_all F r ps) 1 0))) = 153"
proof -
  define F :: "unit float_ops" where "F = \<lparr>fo_of_int = \<lambda>_. (), fo_add = \<lambda>_ _. (), fo_sub = \<lambda>_ _. (),
    fo_mul = \<lambda>_ _. (), fo_div = \<lambda>_ _. (), fo_uint32 = \<lambda>_. 0\<rparr>"
  have "expected_count (note_all F (NewRTCPReceiverStats F) [(10, 0, 0), (14, 0, 0)]) = 5"
    by (simp add: NewRTCPReceiverStats_def NoteRTP_def note_seq_def note_jitter_def expected_count_def extHigh_def Let_def)
  moreover have "expected_count (NewRTCPReceiverStats F) = 0"
    by (simp add: NewRTCPReceiverStats_def expected_count_def)
  ultimately show ?thesis
    using fraction_lost_never_truncated [OF synced_new, where ps = "[(10, 0, 0), (14, 0, 0)]" and F = F and ssrc = 1 and now = 0]
    by (intro exI [of _ F]) (simp add: Let_def)
qed

text \<open>
  Claim C32. For packets noted in order, each less than \<open>2^15\<close> sequence numbers behind the next, the
  report block carries the extended highest sequence number of the stream, across any number of
  16-bit wrap-arounds, and the number of missing packets modulo \<open>2^24\<close>.
\<close>

theorem in_order_reception_counted_exactly:
  assumes "j < 65536" "in_order j ps"
  shows "let l = last (j # map fst ps);
             b = fst (ReportBlock F (note_all F (NewRTCPReceiverStats F) (as_notes ((j, t, a) # ps))) ssrc now)
         in unat (rb_ExtHighSeq b) = l \<and>
            unat (rb_CumulativeLost b) = (l - j + 1 - (1 + length ps)) mod 2 ^ 24"
proof -
  let ?l = "last (j # map fst ps)" and ?r = "note_all F (NewRTCPReceiverStats F) (as_notes ((j, t, a) # ps))"
  have j: "unat (of_nat j :: u16) = j" using assms(1) by (simp add: unat_of_nat16)
  have "counted j j 1 (NoteRTP F (NewRTCPReceiverStats F) (of_nat j) t a)"
    using note_seq_first [of "NewRTCPReceiverStats F" "of_nat j"]
    by (simp add: NoteRTP_def counted_jitter j NewRTCPReceiverStats_def)
  from note_all_counted [OF this assms(2)] have c: "counted j ?l (1 + length ps) ?r"
    by (simp add: as_notes_def)
  have l: "?l < 2 ^ 32" "j + length ps \<le> ?l" using in_order_last [OF assms(2)] assms(1) by (cases ps; auto)+
  have e: "unat (extHigh ?r) = ?l" by (rule unat_extHigh [OF c l(1)])
  have b: "unat (rr_baseSeq ?r) = j" "rr_initSeq ?r" "rr_received ?r = of_nat (1 + length ps)"
    using c by (auto simp: counted_def)
  have "expected_count ?r - rr_received ?r = of_nat (?l - j - length ps)"
  proof -
    have "extHigh ?r = of_nat ?l" "rr_baseSeq ?r = of_nat j"
      using e b(1) l by (simp_all add: word_unat_eq_iff unat_of_nat32)
    with b l show ?thesis by (simp add: expected_count_def of_nat_diff)
  qed
  moreover have "unat (of_nat (?l - j - length ps) :: u32) = ?l - j - length ps"
    using l by (intro unat_of_nat32) auto
  moreover have "unat (w AND 0xffffff) = unat w mod 2 ^ 24" for w :: u32
  proof -
    have "w AND 0xffffff = take_bit 24 w" by (simp add: take_bit_eq_mask mask_numeral)
    then show ?thesis by (simp only: unsigned_take_bit_eq) (simp add: take_bit_eq_mod)
  qed
  ultimately show ?thesis using e by (simp add: ReportBlock_def Let_def)
qed

theorem in_order_reception_counted_exactly_witness:
  "\<exists>F :: unit float_ops. unat (rb_ExtHighSeq (fst (ReportBlock F
     (note_all F (NewRTCPReceiverStats F) (as_notes [(65535, 0, 0), (65538, 0, 0)])) 1 0))) = 65538"
  using in_order_reception_counted_exactly [of 65535 "[(65538, 0, 0)]"] by (simp add: Let_def) blast

text \<open>
  A packet reordered across the 16-bit wrap makes the receiver count a whole extra cycle:
  after 65535, 0, the late 65534 and then 1, all of them received, the report shows extended
  highest sequence number 0x20001 instead of 0x10001 and 65535 packets lost.
\<close>

theorem reordering_across_wrap_inflates_loss:
  "let b = fst (ReportBlock F (note_all F (NewRTCPReceiverStats F)
       [(65535, t1, a1), (0, t2, a2), (65534, t3, a3), (1, t4, a4)]) ssrc now)
   in rb_ExtHighSeq b = 0x20001 \<and> rb_CumulativeLost b = 65535"
  by (simp add: NewRTCPReceiverStats_def NoteRTP_def note_seq_def ReportBlock_def expected_count_def
      extHigh_def Let_def)

end
