(* ===== verification/Call_Manager.thy ===== *)
theory Call_Manager
  imports Call_State Keying Signaling Srtp_Manager Rtcp_Receiver
begin

text \<open>
  The call manager's state and the operations its handlers share:
  \<^verbatim>\<open>internal/voip/call\<close>, files \<^verbatim>\<open>callmanager.go\<close>, \<^verbatim>\<open>helpers.go\<close>, \<^verbatim>\<open>callmanager_srtp.go\<close>,
  \<^verbatim>\<open>callmanager_video.go\<close> and \<^verbatim>\<open>callmanager_relay.go\<close>. The record groups the fields of the Go struct;
  what the manager does to the socket, the relay, its observer and its callbacks is appended to
  \<open>cm_out\<close>. An environment holds what a handler reads from outside: the socket, the address
  library, the clock, whether the relay has a connection, and random draws. A call manager
  serves one call, which its client starts when it creates the manager, so the call a handler
  captured and \<open>currentCall\<close> are the same object. A section under the lock is one step.
\<close>

section \<open>State\<close>

record rx_state =
  rx_LockedSsrc :: u32
  rx_LockedLastNs :: int
  rx_Dedup :: "u64 set"
  rx_DedupRing :: "u64 list"
  rx_DedupIdx :: nat
  rx_DedupFilled :: bool

record video_state =
  vs_session :: "RtpSession option"
  vs_selfSsrc :: u32
  vs_peerSsrc :: u32
  vs_firstSent :: bool
  vs_enabled :: bool

record 'f rtcp_state =
  rt_sendSrtcp :: "SrtcpContext option"
  rt_recvSrtcp :: "SrtcpContext option"
  rt_recvStats :: "'f RTCPReceiverStats option"
  rt_txRunning :: bool
  rt_cname :: string
  rt_txIndex :: u32
  rt_packetsSent :: u32
  rt_octetsSent :: u32
  rt_lastTs :: u32
  rt_videoPacketsSent :: u32
  rt_videoOctetsSent :: u32
  rt_lastVideoTs :: u32

record RelayConfig =
  rc_IP :: string
  rc_Port :: int
  rc_Token :: string
  rc_AuthToken :: string
  rc_RawAuthToken :: "bytes option"
  rc_RawToken :: bytes
  rc_Key :: string
  rc_RelayID :: int
  rc_Name :: string
  rc_AuthTokenID :: string

datatype relay_cmd =
    SetSsrc u32
  | SetSubscriptionSsrc u32
  | SetStreamSsrcs "u32 list" "u32 list"
  | ResendSubscriptions
  | ConfigureRelays "RelayConfig list"
  | DropConnections
  | Broadcast bytes
  | RelayCleanup

datatype 'f ob_event =
    ObMark string
  | ObSrtpRecvDrop string
  | ObNoteQuality "'f CallQuality"
  | ObAddMem int
  | ObReleaseMem int
  | ObEnd string string

text \<open>Work a handler starts on another goroutine.\<close>

datatype 'j task =
    TaskHandleCallAck "'j node"
  | TaskConnectRelays "RelayEndpoint list"
  | TaskTransportUpdate 'j 'j string
  | TaskSignaling "'j node"

datatype ('j, 'f) effect =
    Go "'j task"
  | SendNode "'j node"
  | Relay relay_cmd
  | Observe "'f ob_event"
  | OnStateChange CallInfo
  | OnIncoming CallInfo
  | OnEnded CallInfo
  | OnQuality string "'f CallQuality"
  | OnPeerVideoState int
  | HandleRtp u8 RtpPacket
  | AttachExtensions
  | DetachExtensions

text \<open>\<open>cm_scope\<close> is the scope handed to the extensions: whether its frame override is installed.\<close>

record ('j, 'f) CallManager =
  cm_currentCall :: "CallInfo option"
  cm_rtpSession :: "RtpSession option"
  cm_srtp :: "SrtpManager option"
  cm_video :: video_state
  cm_ownDeviceJid :: string
  cm_peerDeviceJid :: string
  cm_holdActive :: bool
  cm_holdMusic :: "'f list"
  cm_holdPos :: nat
  cm_scope :: "bool option"
  cm_selfSsrc :: u32
  cm_peerSsrcs :: "u32 list"
  cm_actualPeerSet :: bool
  cm_rx :: rx_state
  cm_firstPacketSent :: bool
  cm_initialTransportSent :: bool
  cm_outgoingPreacceptSent :: bool
  cm_observerEnded :: bool
  cm_acceptedByJid :: string
  cm_calleeDevices :: "'j list"
  cm_debeEnabled :: bool
  cm_timeouts :: Timeouts
  cm_watchdog :: bool
  cm_lastMediaRecv :: int
  cm_lastRedialAt :: int
  cm_srtpDrops :: "string \<Rightarrow> nat"
  cm_srtcpDrops :: "string \<Rightarrow> nat"
  cm_undecodable :: nat
  cm_relocks :: nat
  cm_rtcp :: "'f rtcp_state"
  cm_extensions :: "u8 list"
  cm_rtpHandlers :: "u8 set"
  cm_declaredSelf :: "u32 set"
  cm_extAttached :: bool
  cm_out :: "('j, 'f) effect list"

record ('j, 'e, 'f) env =
  en_lib :: "'j jid_lib"
  en_sock :: "('j, 'e) VoipSocket"
  en_float :: "'f float_ops"
  en_now :: int
  en_hasConn :: bool
  en_seed :: "u32 \<Rightarrow> u16 \<times> u32"
  en_sid :: "nat \<Rightarrow> string"

text \<open>\<open>time.Now().UnixMilli()\<close>.\<close>

definition unix_ms :: "('j, 'e, 'f) env \<Rightarrow> int" where
  "unix_ms e = en_now e div 1000000"

definition emptyRx :: rx_state where
  "emptyRx = \<lparr>rx_LockedSsrc = 0, rx_LockedLastNs = 0, rx_Dedup = {}, rx_DedupRing = replicate 512 0,
     rx_DedupIdx = 0, rx_DedupFilled = False\<rparr>"

definition emptyVideo :: video_state where
  "emptyVideo = \<lparr>vs_session = None, vs_selfSsrc = 0, vs_peerSsrc = 0, vs_firstSent = False, vs_enabled = False\<rparr>"

definition emptyRtcp :: "'f rtcp_state" where
  "emptyRtcp = \<lparr>rt_sendSrtcp = None, rt_recvSrtcp = None, rt_recvStats = None, rt_txRunning = False, rt_cname = '''',
     rt_txIndex = 0, rt_packetsSent = 0, rt_octetsSent = 0, rt_lastTs = 0, rt_videoPacketsSent = 0,
     rt_videoOctetsSent = 0, rt_lastVideoTs = 0\<rparr>"

text \<open>\<open>extensions\<close> lists the payload types the manager's extensions register when attached.\<close>

definition NewCallManager :: "u8 list \<Rightarrow> ('j, 'f) CallManager" where
  "NewCallManager exts =
     \<lparr>cm_currentCall = None, cm_rtpSession = None, cm_srtp = None, cm_video = emptyVideo, cm_ownDeviceJid = '''',
      cm_peerDeviceJid = '''', cm_holdActive = False, cm_holdMusic = [], cm_holdPos = 0, cm_scope = None,
      cm_selfSsrc = 0, cm_peerSsrcs = [], cm_actualPeerSet = False, cm_rx = emptyRx, cm_firstPacketSent = False,
      cm_initialTransportSent = False, cm_outgoingPreacceptSent = False, cm_observerEnded = False,
      cm_acceptedByJid = '''', cm_calleeDevices = [], cm_debeEnabled = True, cm_timeouts = DefaultTimeouts,
      cm_watchdog = False, cm_lastMediaRecv = 0, cm_lastRedialAt = 0, cm_srtpDrops = (\<lambda>_. 0), cm_srtcpDrops = (\<lambda>_. 0),
      cm_undecodable = 0, cm_relocks = 0, cm_rtcp = emptyRtcp, cm_extensions = exts, cm_rtpHandlers = {},
      cm_declaredSelf = {}, cm_extAttached = False, cm_out = []\<rparr>"

section \<open>Small operations\<close>

definition emit :: "('j, 'f) effect \<Rightarrow> ('j, 'f) CallManager \<Rightarrow> ('j, 'f) CallManager" where
  "emit x m = m\<lparr>cm_out := cm_out m @ [x]\<rparr>"

abbreviation relay :: "relay_cmd \<Rightarrow> ('j, 'f) CallManager \<Rightarrow> ('j, 'f) CallManager" where
  "relay c \<equiv> emit (Relay c)"

abbreviation observe :: "'f ob_event \<Rightarrow> ('j, 'f) CallManager \<Rightarrow> ('j, 'f) CallManager" where
  "observe x \<equiv> emit (Observe x)"

definition emitState :: "('j, 'f) CallManager \<Rightarrow> ('j, 'f) CallManager" where
  "emitState m = (case cm_currentCall m of Some c \<Rightarrow> emit (OnStateChange c) m | None \<Rightarrow> m)"

text \<open>Applying a transition to the current call; \<open>None\<close> when it is refused.\<close>

definition applyCall :: "Transition \<Rightarrow> int \<Rightarrow> ('j, 'f) CallManager \<Rightarrow> ('j, 'f) CallManager option" where
  "applyCall t now m = (case cm_currentCall m of
      None \<Rightarrow> None
    | Some c \<Rightarrow> (case ApplyTransition c t now of
          Inl _ \<Rightarrow> None
        | Inr c' \<Rightarrow> Some (m\<lparr>cm_currentCall := Some c'\<rparr>)))"

definition rtpSessionBytes :: int where "rtpSessionBytes = 8 * 1024"

definition replaceRtpSession :: "RtpSession option \<Rightarrow> ('j, 'f) CallManager \<Rightarrow> ('j, 'f) CallManager" where
  "replaceRtpSession s m =
     (let m = (if cm_rtpSession m \<noteq> None then observe (ObReleaseMem rtpSessionBytes) m else m);
          m = m\<lparr>cm_rtpSession := s\<rparr>
      in if s \<noteq> None then observe (ObAddMem rtpSessionBytes) m else m)"

definition opus_session :: "('j, 'e, 'f) env \<Rightarrow> u32 \<Rightarrow> RtpSession" where
  "opus_session e ssrc = (case en_seed e ssrc of (sq, ts) \<Rightarrow> NewWhatsAppOpusSession ssrc sq ts)"

definition h264_session :: "('j, 'e, 'f) env \<Rightarrow> u32 \<Rightarrow> RtpSession" where
  "h264_session e ssrc = (case en_seed e ssrc of (sq, ts) \<Rightarrow> NewWhatsAppH264Session ssrc sq ts)"

definition ownCredJid :: "('j, 'e, 'f) env \<Rightarrow> string" where
  "ownCredJid e = jid_String (en_lib e) (own_jid (en_lib e) (en_sock e))"

section \<open>Helpers\<close>

definition contains_char :: "string \<Rightarrow> char \<Rightarrow> bool" where
  "contains_char s c \<longleftrightarrow> Index s c \<noteq> None"

text \<open>\<open>strings.Replace(jid, "@", ":0@", 1)\<close>.\<close>

fun replace_at :: "string \<Rightarrow> string" where
  "replace_at [] = []"
| "replace_at (c # cs) = (if c = CHR ''@'' then '':0@'' @ cs else c # replace_at cs)"

definition ensureDeviceJid :: "string \<Rightarrow> string" where
  "ensureDeviceJid jid = (case (Index jid (CHR '':''), Index jid (CHR ''@'')) of
      (Some i, Some at) \<Rightarrow> if i < at then jid else replace_at jid
    | _ \<Rightarrow> replace_at jid)"

definition findOurDevice :: "string list \<Rightarrow> string \<Rightarrow> string \<Rightarrow> string" where
  "findOurDevice participants ourBase fallback =
     (case find (\<lambda>jid. CleanJID jid = ourBase \<and> contains_char jid (CHR '':'')) participants of
        Some j \<Rightarrow> j | None \<Rightarrow> fallback)"

definition firstPeerDevice :: "string list \<Rightarrow> string \<Rightarrow> string" where
  "firstPeerDevice participants ourBase =
     (case find (\<lambda>jid. CleanJID jid \<noteq> ourBase) participants of Some j \<Rightarrow> j | None \<Rightarrow> '''')"

definition firstSsrc :: "u32 list \<Rightarrow> u32" where
  "firstSsrc s = (case s of [] \<Rightarrow> 0 | x # _ \<Rightarrow> x)"

definition relayEndpointCount :: "RelayData option \<Rightarrow> nat" where
  "relayEndpointCount rd = (case rd of None \<Rightarrow> 0 | Some r \<Rightarrow> length (rd_Endpoints r))"

definition containsSsrc :: "u32 list \<Rightarrow> u32 \<Rightarrow> bool" where
  "containsSsrc s v \<longleftrightarrow> v \<in> set s"

fun equalBytes :: "bytes \<Rightarrow> bytes \<Rightarrow> bool" where
  "equalBytes [] [] = True"
| "equalBytes (a # as) (b # bs) = (a = b \<and> equalBytes as bs)"
| "equalBytes _ _ = False"

lemma equalBytes_iff [simp]: "equalBytes a b \<longleftrightarrow> a = b"
  by (induction a b rule: equalBytes.induct) auto

section \<open>Streams\<close>

definition rememberDeviceJids :: "string \<Rightarrow> string \<Rightarrow> ('j, 'f) CallManager \<Rightarrow> ('j, 'f) CallManager" where
  "rememberDeviceJids selfDeviceJid peerDeviceJid m =
     (let m = (if selfDeviceJid \<noteq> '''' then m\<lparr>cm_ownDeviceJid := selfDeviceJid\<rparr> else m)
      in if peerDeviceJid \<noteq> '''' then m\<lparr>cm_peerDeviceJid := peerDeviceJid\<rparr> else m)"

definition declareSelfSSRC :: "u32 \<Rightarrow> ('j, 'f) CallManager \<Rightarrow> ('j, 'f) CallManager" where
  "declareSelfSSRC ssrc m = m\<lparr>cm_declaredSelf := insert ssrc (cm_declaredSelf m)\<rparr>"

definition registerRTPHandler :: "u8 \<Rightarrow> ('j, 'f) CallManager \<Rightarrow> ('j, 'f) CallManager" where
  "registerRTPHandler pt m = m\<lparr>cm_rtpHandlers := insert pt (cm_rtpHandlers m)\<rparr>"

definition video_self_jid :: "('j, 'e, 'f) env \<Rightarrow> ('j, 'f) CallManager \<Rightarrow> string \<Rightarrow> string" where
  "video_self_jid e m jid =
     (let jid = (if jid = '''' then cm_ownDeviceJid m else jid)
      in if jid = '''' then ensureDeviceJid (ownCredJid e) else jid)"

definition video_peer_jid :: "('j, 'f) CallManager \<Rightarrow> string \<Rightarrow> string" where
  "video_peer_jid m jid =
     (let jid = (if jid = '''' then cm_peerDeviceJid m else jid)
      in if jid = '''' \<and> cm_acceptedByJid m \<noteq> '''' then ensureDeviceJid (cm_acceptedByJid m) else jid)"

definition deriveVideoSsrcs :: "('j, 'e, 'f) env \<Rightarrow> string \<Rightarrow> string \<Rightarrow> string \<Rightarrow> ('j, 'f) CallManager \<Rightarrow> ('j, 'f) CallManager" where
  "deriveVideoSsrcs e callID selfDeviceJid peerDeviceJid m =
     (let self = video_self_jid e m selfDeviceJid; peer = video_peer_jid m peerDeviceJid;
          m = (if self \<noteq> ''''
               then m\<lparr>cm_ownDeviceJid := self, cm_video := (cm_video m)\<lparr>vs_selfSsrc := GenerateSecureSsrc callID self 2\<rparr>\<rparr>
               else m);
          m = (if peer \<noteq> ''''
               then m\<lparr>cm_peerDeviceJid := peer, cm_video := (cm_video m)\<lparr>vs_peerSsrc := GenerateSecureSsrc callID peer 2\<rparr>\<rparr>
               else m);
          v = cm_video m
      in if vs_selfSsrc v \<noteq> 0 then
           declareSelfSSRC (vs_selfSsrc v)
             (if map_option rs_ssrc (vs_session v) = Some (vs_selfSsrc v) then m
              else m\<lparr>cm_video := v\<lparr>vs_session := Some (h264_session e (vs_selfSsrc v))\<rparr>\<rparr>)
         else m)"

definition streamSsrcs :: "('j, 'f) CallManager \<Rightarrow> u32 list \<times> u32 list" where
  "streamSsrcs m =
     ((if cm_selfSsrc m \<noteq> 0 then [cm_selfSsrc m] else []) @
        (if vs_selfSsrc (cm_video m) \<noteq> 0 then [vs_selfSsrc (cm_video m)] else []),
      cm_peerSsrcs m @ (if vs_peerSsrc (cm_video m) \<noteq> 0 then [vs_peerSsrc (cm_video m)] else []))"

definition applyStreamSsrcs :: "('j, 'f) CallManager \<Rightarrow> ('j, 'f) CallManager" where
  "applyStreamSsrcs m = (case streamSsrcs m of (self, peer) \<Rightarrow> relay ResendSubscriptions (relay (SetStreamSsrcs self peer) m))"

section \<open>Keys\<close>

definition ensureExtensionsAttached :: "('j, 'f) CallManager \<Rightarrow> ('j, 'f) CallManager" where
  "ensureExtensionsAttached m =
     (if cm_extAttached m then m
      else fold registerRTPHandler (cm_extensions m)
        (emit AttachExtensions (m\<lparr>cm_extAttached := True, cm_scope := Some (cm_holdActive m)\<rparr>)))"

text \<open>\<open>fmt.Sprintf("%08x@wacalls", ssrc)\<close>.\<close>

definition hex_nibble :: "u32 \<Rightarrow> nat \<Rightarrow> char" where
  "hex_nibble w i = ''0123456789abcdef'' ! unat (drop_bit (4 * i) w AND 0xf)"

definition rtcpCName :: "u32 \<Rightarrow> string" where
  "rtcpCName ssrc = map (hex_nibble ssrc) [7, 6, 5, 4, 3, 2, 1, 0] @ ''@wacalls''"

text \<open>A context that cannot be derived leaves the rest of the setup undone; for derived keys that
  does not happen (\<open>derived_keys_usable\<close>).\<close>

definition setupSrtcp ::
  "('j, 'e, 'f) env \<Rightarrow> SrtpKeyingMaterial \<Rightarrow> SrtpKeyingMaterial \<Rightarrow> ('j, 'f) CallManager \<Rightarrow> ('j, 'f) CallManager" where
  "setupSrtcp e sendKM recvKM m = (case NewSrtcpContext sendKM of
      Some (Inr sendSrtcp) \<Rightarrow>
        (let m = m\<lparr>cm_rtcp := (cm_rtcp m)\<lparr>rt_sendSrtcp := Some sendSrtcp\<rparr>\<rparr> in
         case NewSrtcpContext recvKM of
           Some (Inr recvSrtcp) \<Rightarrow>
             (let r = (cm_rtcp m)\<lparr>rt_recvSrtcp := Some recvSrtcp\<rparr>;
                  r = (if rt_recvStats r = None then r\<lparr>rt_recvStats := Some (NewRTCPReceiverStats (en_float e))\<rparr> else r);
                  r = (if rt_cname r = '''' then r\<lparr>rt_cname := rtcpCName (cm_selfSsrc m)\<rparr> else r)
              in m\<lparr>cm_rtcp := r\<rparr>)
         | _ \<Rightarrow> m)
    | _ \<Rightarrow> m)"

definition participants_of :: "CallInfo \<Rightarrow> string list" where
  "participants_of c = (case ci_RelayData c of None \<Rightarrow> [] | Some rd \<Rightarrow> rd_ParticipantJids rd)"

definition our_device :: "('j, 'e, 'f) env \<Rightarrow> string list \<Rightarrow> string" where
  "our_device e participants = ensureDeviceJid (findOurDevice participants (CleanJID (ownCredJid e)) (ownCredJid e))"

definition peer_device :: "('j, 'e, 'f) env \<Rightarrow> CallInfo \<Rightarrow> ('j, 'f) CallManager \<Rightarrow> string" where
  "peer_device e c m = ensureDeviceJid
     (if cm_acceptedByJid m \<noteq> '''' then cm_acceptedByJid m
      else (let p = firstPeerDevice (participants_of c) (CleanJID (ownCredJid e)) in if p \<noteq> '''' then p else ci_PeerJid c))"

definition new_srtp :: "SrtpKeyingMaterial \<Rightarrow> SrtpKeyingMaterial \<Rightarrow> SrtpManager" where
  "new_srtp sendKM recvKM = SetObserver (NewSrtpManager sendKM recvKM (int SRTPSendAuthTagLen) (int SRTPRecvAuthTagLen)) (Some 0)"

definition initSrtpKeys :: "('j, 'e, 'f) env \<Rightarrow> ('j, 'f) CallManager \<Rightarrow> ('j, 'f) CallManager" where
  "initSrtpKeys e m = (case cm_currentCall m of
      None \<Rightarrow> m
    | Some c \<Rightarrow> (case ci_EncryptionKey c of
          None \<Rightarrow> m
        | Some key \<Rightarrow>
            (let sendKM = DerivePerJidSrtpKey key (our_device e (participants_of c));
                 recvKM = DerivePerJidSrtpKey key (peer_device e c m)
             in ensureExtensionsAttached (setupSrtcp e sendKM recvKM (m\<lparr>cm_srtp := Some (new_srtp sendKM recvKM)\<rparr>)))))"

definition reinitSrtp :: "('j, 'e, 'f) env \<Rightarrow> bytes \<Rightarrow> 'j \<Rightarrow> ('j, 'f) CallManager \<Rightarrow> ('j, 'f) CallManager" where
  "reinitSrtp e peerKey peerJid m = (case cm_currentCall m of
      None \<Rightarrow> m
    | Some c \<Rightarrow> (case ci_EncryptionKey c of
          None \<Rightarrow> m
        | Some key \<Rightarrow>
            (let sendKM = DerivePerJidSrtpKey key (our_device e (participants_of c));
                 recvKM = DerivePerJidSrtpKey peerKey (jid_String (en_lib e) peerJid)
             in setupSrtcp e sendKM recvKM (m\<lparr>cm_srtp := Some (new_srtp sendKM recvKM)\<rparr>))))"

definition maybeStartRtcpTx :: "('j, 'f) CallManager \<Rightarrow> ('j, 'f) CallManager" where
  "maybeStartRtcpTx m =
     (if rt_txRunning (cm_rtcp m) \<or> rt_sendSrtcp (cm_rtcp m) = None \<or> cm_currentCall m = None then m
      else m\<lparr>cm_rtcp := (cm_rtcp m)\<lparr>rt_txRunning := True\<rparr>\<rparr>)"

section \<open>Relays\<close>

fun build_configs :: "string list \<Rightarrow> RelayEndpoint list \<Rightarrow> RelayConfig list" where
  "build_configs seen [] = []"
| "build_configs seen (ep # eps) =
     (if ep_Protocol ep \<noteq> 0 then build_configs seen eps
      else if ep_Key ep = '''' then build_configs seen eps
      else case ep_RawToken ep of
        None \<Rightarrow> build_configs seen eps
      | Some raw \<Rightarrow>
          if ep_IP ep \<in> set seen then build_configs seen eps
          else \<lparr>rc_IP = ep_IP ep, rc_Port = ep_Port ep, rc_Token = ep_Token ep, rc_AuthToken = ep_AuthToken ep,
                rc_RawAuthToken = ep_RawAuthToken ep, rc_RawToken = raw, rc_Key = ep_Key ep, rc_RelayID = ep_RelayID ep,
                rc_Name = (if ep_RelayName ep = '''' then ep_IP ep else ep_RelayName ep),
                rc_AuthTokenID = ep_AuthTokenID ep\<rparr> # build_configs (ep_IP ep # seen) eps)"

definition buildRelayConfigs :: "RelayEndpoint list \<Rightarrow> RelayConfig list" where
  "buildRelayConfigs endpoints = build_configs [] endpoints"

definition connectRelays :: "RelayEndpoint list \<Rightarrow> ('j, 'f) CallManager \<Rightarrow> ('j, 'f) CallManager" where
  "connectRelays endpoints m =
     (let relays = buildRelayConfigs endpoints in
      if relays = [] then m
      else (let m = relay (SetSsrc (cm_selfSsrc m)) m;
                m = relay (SetSubscriptionSsrc (firstSsrc (cm_peerSsrcs m))) m
            in relay (ConfigureRelays relays) (applyStreamSsrcs m)))"

section \<open>Cleanup\<close>

definition end_report :: "('j, 'f) CallManager \<Rightarrow> (string \<times> string) option" where
  "end_report m = (if cm_observerEnded m then None
     else map_option (\<lambda>c. (if sd_ConnectedAt (ci_StateData c) \<noteq> None then ''completed'' else ''failed'',
        sd_EndReason (ci_StateData c))) (cm_currentCall m))"

definition cleanupMedia :: "('j, 'f) CallManager \<Rightarrow> ('j, 'f) CallManager" where
  "cleanupMedia m =
     (let rep = end_report m;
          m = m\<lparr>cm_observerEnded := True\<rparr>;
          m = replaceRtpSession None m;
          m = m\<lparr>cm_srtp := None, cm_video := emptyVideo, cm_ownDeviceJid := '''', cm_peerDeviceJid := '''',
            cm_firstPacketSent := False, cm_initialTransportSent := False, cm_outgoingPreacceptSent := False,
            cm_actualPeerSet := False, cm_extAttached := False,
            cm_rx := (cm_rx m)\<lparr>rx_LockedSsrc := 0, rx_LockedLastNs := 0, rx_Dedup := {}, rx_DedupIdx := 0, rx_DedupFilled := False\<rparr>,
            cm_lastMediaRecv := 0, cm_watchdog := False, cm_rtcp := emptyRtcp,
            cm_srtpDrops := (\<lambda>_. 0), cm_srtcpDrops := (\<lambda>_. 0)\<rparr>;
          m = (case rep of Some (result, reason) \<Rightarrow> observe (ObEnd result reason) m | None \<Rightarrow> m);
          m = m\<lparr>cm_rtpHandlers := {}, cm_declaredSelf := {}\<rparr>
      in relay RelayCleanup (emit DetachExtensions m))"

end
