(* ===== verification/Stun.thy ===== *)
theory Stun
  imports Crypto
begin

text \<open>
  STUN messages as the relay speaks them: \<^verbatim>\<open>internal/voip/transport/stun.go\<close>. Random transaction
  ids and tie breakers are arguments, and so is the result of scanning a dotted IPv4 address. The
  CRC of \<^verbatim>\<open>hash/crc32\<close> is modelled bit by bit. The lemmas show that the parser reads back the
  attributes of every message the builder makes, including the integrity and fingerprint
  attributes it appends, and that it accepts any input without reading out of bounds.
\<close>

section \<open>Constants\<close>

definition stunMagicCookie :: u32 where "stunMagicCookie = 0x2112a442"
definition stunFingerprintXor :: u32 where "stunFingerprintXor = 0x5354554e"
definition stunBindingRequest :: int where "stunBindingRequest = 0x0001"
definition stunAllocateRequest :: int where "stunAllocateRequest = 0x0003"
definition whatsappPing :: int where "whatsappPing = 0x0801"
definition attrUsername :: int where "attrUsername = 0x0006"
definition attrMessageIntegrity :: int where "attrMessageIntegrity = 0x0008"
definition attrXorRelayedAddress :: int where "attrXorRelayedAddress = 0x0016"
definition attrPriority :: int where "attrPriority = 0x0024"
definition attrSenderSubscriptions :: int where "attrSenderSubscriptions = 0x4000"
definition attrSsrcList :: int where "attrSsrcList = 0x4024"
definition attrIceControlling :: int where "attrIceControlling = 0x802a"
definition attrFingerprint :: int where "attrFingerprint = 0x8028"
definition defaultICEPriority :: u32 where "defaultICEPriority = 16777215"

section \<open>CRC-32 (IEEE)\<close>

definition crc_step :: "u32 \<Rightarrow> u32" where
  "crc_step c = (if bit c 0 then drop_bit 1 c XOR 0xedb88320 else drop_bit 1 c)"

fun crc_bytes :: "u32 \<Rightarrow> bytes \<Rightarrow> u32" where
  "crc_bytes c [] = c"
| "crc_bytes c (b # bs) = crc_bytes ((crc_step ^^ 8) (c XOR ucast b)) bs"

definition crc32stun :: "bytes \<Rightarrow> u32" where
  "crc32stun data = NOT (crc_bytes 0xffffffff data)"

section \<open>Building messages\<close>

definition pad4 :: "nat \<Rightarrow> nat" where
  "pad4 n = (4 - n mod 4) mod 4"

definition encodeAttribute :: "int \<Rightarrow> bytes \<Rightarrow> bytes" where
  "encodeAttribute attrType data =
     be16 (of_int attrType) @ be16 (of_nat (length data)) @ data @ replicate (pad4 (length data)) 0"

text \<open>The 20-byte header; \<open>copy\<close> takes at most twelve bytes of the transaction id.\<close>

definition stun_header :: "int \<Rightarrow> nat \<Rightarrow> bytes \<Rightarrow> bytes" where
  "stun_header msgType len transactionID =
     be16 (of_int msgType) @ be16 (of_nat len) @ be32 stunMagicCookie @
     take 12 transactionID @ replicate (12 - length transactionID) 0"

definition buildStunMessage :: "int \<Rightarrow> bytes \<Rightarrow> bytes \<Rightarrow> bytes option \<Rightarrow> bool \<Rightarrow> bytes" where
  "buildStunMessage msgType attrs transactionID integrityKey includeFingerprint =
     (let attrsData = attrs;
          attrsData = (case integrityKey of
              None \<Rightarrow> attrsData
            | Some key \<Rightarrow> attrsData @ encodeAttribute attrMessageIntegrity
                (hmac_sha1 key (stun_header msgType (length attrsData + 24) transactionID @ attrsData)));
          attrsData = (if includeFingerprint
            then attrsData @ encodeAttribute attrFingerprint
              (be32 (crc32stun (stun_header msgType (length attrsData + 8) transactionID @ attrsData) XOR stunFingerprintXor))
            else attrsData)
      in stun_header msgType (length attrsData) transactionID @ attrsData)"

definition encodeXorRelayedAddress :: "int \<times> int \<times> int \<times> int \<Rightarrow> int \<Rightarrow> bytes" where
  "encodeXorRelayedAddress quad port =
     (let (p0, p1, p2, p3) = quad;
          ipNum = push_bit 24 (of_int p0) OR push_bit 16 (of_int p1) OR push_bit 8 (of_int p2) OR of_int p3 :: u32
      in [0, 1] @ be16 (of_int port XOR ucast (drop_bit 16 stunMagicCookie)) @ be32 (ipNum XOR stunMagicCookie))"

text \<open>\<open>scan\<close> is the result of scanning \<open>relayIP\<close> with \<open>%d.%d.%d.%d\<close>.\<close>

definition BuildAllocateForRelay ::
  "(string \<Rightarrow> int \<times> int \<times> int \<times> int) \<Rightarrow> bytes \<Rightarrow> bytes \<Rightarrow> bytes \<Rightarrow> bytes option \<Rightarrow> string \<Rightarrow> int \<Rightarrow> bytes" where
  "BuildAllocateForRelay scan txid senderSubscriptions ssrcList hmacKey relayIP relayPort =
     buildStunMessage stunAllocateRequest
       (encodeAttribute attrSenderSubscriptions senderSubscriptions @
        encodeAttribute attrSsrcList ssrcList @
        (if relayIP \<noteq> '''' \<and> relayPort \<noteq> 0
         then encodeAttribute attrXorRelayedAddress (encodeXorRelayedAddress (scan relayIP) relayPort) else []))
       txid hmacKey False"

definition BuildBindingRequestWithSubs ::
  "bytes \<Rightarrow> bytes \<Rightarrow> bytes \<Rightarrow> bytes \<Rightarrow> bytes \<Rightarrow> bool \<Rightarrow> bool \<Rightarrow> bytes" where
  "BuildBindingRequestWithSubs txid tieBreaker username hmacKey senderSubscriptions includeIceControlling includeFingerprint =
     buildStunMessage stunBindingRequest
       ((if 0 < length username then encodeAttribute attrUsername username else []) @
        encodeAttribute attrPriority (be32 defaultICEPriority) @
        (if includeIceControlling then encodeAttribute attrIceControlling tieBreaker else []) @
        (if 0 < length senderSubscriptions then encodeAttribute attrSenderSubscriptions senderSubscriptions else []))
       txid (if 0 < length hmacKey then Some hmacKey else None) includeFingerprint"

definition BuildWhatsAppPing :: "bytes \<Rightarrow> bytes" where
  "BuildWhatsAppPing txid = stun_header whatsappPing 0 txid"

section \<open>Classification\<close>

definition IsStunPacket :: "bytes \<Rightarrow> bool" where
  "IsStunPacket data = (case data of a # _ # _ \<Rightarrow> a AND 0xc0 = 0 | _ \<Rightarrow> False)"

definition IsRtpPacket :: "bytes \<Rightarrow> bool" where
  "IsRtpPacket data = (case data of a # _ # _ \<Rightarrow> a AND 0xc0 = 0x80 | _ \<Rightarrow> False)"

definition IsRtcpPacket :: "bytes \<Rightarrow> bool" where
  "IsRtcpPacket data = (case data of a # _ # _ \<Rightarrow> a = 0x80 \<or> a = 0x81 | _ \<Rightarrow> False)"

section \<open>Parsing responses\<close>

record StunAttribute =
  sa_Type :: nat
  sa_TypeName :: string
  sa_Length :: nat
  sa_Data :: bytes

record StunResponseInfo =
  si_RawType :: nat
  si_Method :: string
  si_StunClass :: string
  si_IsSuccess :: bool
  si_IsError :: bool
  si_ErrorCode :: nat
  si_ErrorReason :: bytes
  si_StableRoutingConnID :: u64
  si_TransactionID :: string
  si_Length :: nat
  si_Attributes :: "StunAttribute list"

definition hex_digit :: "nat \<Rightarrow> char" where
  "hex_digit n = ''0123456789abcdef'' ! n"

definition hex_byte :: "u8 \<Rightarrow> string" where
  "hex_byte b = [hex_digit (unat b div 16), hex_digit (unat b mod 16)]"

definition hex_EncodeToString :: "bytes \<Rightarrow> string" where
  "hex_EncodeToString bs = concat (map hex_byte bs)"

definition stunAttrNames :: "(nat \<times> string) list" where
  "stunAttrNames =
    [(0x0001, ''MAPPED-ADDRESS''), (0x0006, ''USERNAME''), (0x0008, ''MESSAGE-INTEGRITY''),
     (0x0009, ''ERROR-CODE''), (0x000a, ''UNKNOWN-ATTRIBUTES''), (0x0014, ''REALM''),
     (0x0015, ''NONCE''), (0x0019, ''REQUESTED-TRANSPORT''), (0x0020, ''XOR-MAPPED-ADDRESS''),
     (0x0024, ''PRIORITY''), (0x0025, ''USE-CANDIDATE''), (0x4000, ''SENDER-SUBSCRIPTIONS''),
     (0x4001, ''RECEIVER-SUBSCRIPTION''), (0x4002, ''SUBSCRIPTION-ACK''), (0x8022, ''SOFTWARE''),
     (0x8028, ''FINGERPRINT''), (0x8029, ''ICE-CONTROLLED''), (0x802a, ''ICE-CONTROLLING''),
     (0x4033, ''STABLE-ROUTING-CONN-ID'')]"

definition attr_name :: "u16 \<Rightarrow> string" where
  "attr_name t = (case map_of stunAttrNames (unat t) of
      Some n \<Rightarrow> n
    | None \<Rightarrow> ''0x'' @ hex_EncodeToString (be16 t))"

definition stun_class :: "u16 \<Rightarrow> string" where
  "stun_class rawType =
     (let c0 = (if bit rawType 4 then 1 else 0); c1 = (if bit rawType 8 then 2 else 0)
      in [''request'', ''indication'', ''success'', ''error''] ! (c1 + c0))"

definition stun_method :: "u16 \<Rightarrow> string" where
  "stun_method rawType =
     (let methodBits = drop_bit 2 (rawType AND 0x3e00) OR drop_bit 1 (rawType AND 0x00e0) OR (rawType AND 0x000f) in
      if rawType = 0x0802 then ''wa-pong''
      else if rawType = 0x0801 then ''wa-ping''
      else if methodBits = 0x001 then ''binding''
      else if methodBits = 0x003 then ''allocate''
      else if methodBits = 0x004 then ''refresh''
      else if methodBits = 0x006 then ''send''
      else if methodBits = 0x007 then ''data''
      else if methodBits = 0x008 then ''create-permission''
      else if methodBits = 0x009 then ''channel-bind''
      else ''unknown'')"

text \<open>What one attribute adds to the response.\<close>

definition note_attribute :: "u16 \<Rightarrow> nat \<Rightarrow> bytes \<Rightarrow> StunResponseInfo \<Rightarrow> StunResponseInfo go" where
  "note_attribute attrType attrLength attrData info = do {
     let info = info\<lparr>si_Attributes := si_Attributes info @
       [\<lparr>sa_Type = unat attrType, sa_TypeName = attr_name attrType, sa_Length = attrLength, sa_Data = attrData\<rparr>]\<rparr>;
     info \<leftarrow> (if attrType = 0x0009 \<and> 4 \<le> attrLength then do {
         a2 \<leftarrow> idx attrData 2; a3 \<leftarrow> idx attrData 3;
         reason \<leftarrow> (if 4 < attrLength then slice_from attrData 4 else Some (si_ErrorReason info));
         Some (info\<lparr>si_ErrorCode := unat (a2 AND 7) * 100 + unat a3, si_ErrorReason := reason\<rparr>)
       } else Some info);
     if attrType = 0x4033 \<and> si_StunClass info = ''success'' \<and> attrLength = 8 then do {
       v \<leftarrow> be_uint64 attrData 0;
       Some (info\<lparr>si_StableRoutingConnID := v\<rparr>)
     } else Some info }"

function parse_attributes :: "bytes \<Rightarrow> nat \<Rightarrow> nat \<Rightarrow> StunResponseInfo \<Rightarrow> StunResponseInfo go" where
  "parse_attributes data msgLength offset info =
     (if offset + 4 \<le> 20 + msgLength \<and> offset + 4 \<le> length data then do {
        attrType \<leftarrow> be_uint16 data offset;
        len \<leftarrow> be_uint16 data (offset + 2);
        let attrLength = unat len;
        let attrEnd = offset + 4 + attrLength;
        if length data < attrEnd then Some info
        else do {
          attrData \<leftarrow> slice data (offset + 4) attrEnd;
          info \<leftarrow> note_attribute attrType attrLength attrData info;
          parse_attributes data msgLength (attrEnd + pad4 attrLength) info } }
      else Some info)"
  by pat_completeness auto
termination by (relation "measure (\<lambda>(data, m, off, info). length data - off)") auto

declare parse_attributes.simps [simp del]

definition ParseStunResponse :: "bytes \<Rightarrow> StunResponseInfo option go" where
  "ParseStunResponse data =
     (if length data < 20 then Some None
      else do {
        cookie \<leftarrow> be_uint32 data 4;
        rawType \<leftarrow> be_uint16 data 0;
        txid \<leftarrow> slice data 8 20;
        let info = \<lparr>si_RawType = unat rawType, si_Method = stun_method rawType, si_StunClass = ''indication'',
            si_IsSuccess = False, si_IsError = False, si_ErrorCode = 0, si_ErrorReason = [],
            si_StableRoutingConnID = 0, si_TransactionID = hex_EncodeToString txid, si_Length = length data,
            si_Attributes = []\<rparr>;
        if cookie \<noteq> stunMagicCookie then
          Some (if rawType = 0x0801 \<or> rawType = 0x0802 then Some info else None)
        else do {
          msgLength \<leftarrow> be_uint16 data 2;
          let stunClass = stun_class rawType;
          info \<leftarrow> parse_attributes data (unat msgLength) 20
            (info\<lparr>si_StunClass := stunClass, si_IsSuccess := (stunClass = ''success''), si_IsError := (stunClass = ''error'')\<rparr>);
          Some (Some info) } })"

section \<open>Lengths and totality\<close>

lemma length_stun_header [simp, byte_lens]: "length (stun_header t n txid) = 20"
  by (simp add: stun_header_def)

lemma pad4_mod: "(n + pad4 n) mod 4 = 0"
proof -
  have "n mod 4 = 0 \<or> n mod 4 = 1 \<or> n mod 4 = 2 \<or> n mod 4 = 3" by linarith
  then show ?thesis unfolding pad4_def by (subst mod_add_left_eq [symmetric]) auto
qed

lemma length_encodeAttribute [simp, byte_lens]: "length (encodeAttribute t d) = 4 + length d + pad4 (length d)"
  by (simp add: encodeAttribute_def)

text \<open>An attribute is appended to the list and leaves type, class and transaction id alone.\<close>

definition attribute :: "u16 \<Rightarrow> bytes \<Rightarrow> StunAttribute" where
  "attribute t d = \<lparr>sa_Type = unat t, sa_TypeName = attr_name t, sa_Length = length d, sa_Data = d\<rparr>"

definition extends :: "StunResponseInfo \<Rightarrow> StunAttribute list \<Rightarrow> StunResponseInfo \<Rightarrow> bool" where
  "extends info as info' \<longleftrightarrow> si_Attributes info' = si_Attributes info @ as \<and> si_RawType info' = si_RawType info \<and>
     si_StunClass info' = si_StunClass info \<and> si_TransactionID info' = si_TransactionID info \<and>
     si_Method info' = si_Method info"

lemma extends_refl [simp]: "extends i [] i" by (simp add: extends_def)

lemma extends_trans: "extends i as j \<Longrightarrow> extends j bs k \<Longrightarrow> extends i (as @ bs) k"
  by (simp add: extends_def)

lemma error_attribute_extends:
  "\<exists>j. (if (t :: u16) = 0x0009 \<and> 4 \<le> length d then do {
         a2 \<leftarrow> idx d 2; a3 \<leftarrow> idx d 3;
         reason \<leftarrow> (if 4 < length d then slice_from d 4 else Some (si_ErrorReason i));
         Some (i\<lparr>si_ErrorCode := unat (a2 AND 7) * 100 + unat a3, si_ErrorReason := reason\<rparr>)
       } else Some i) = Some j \<and> extends i [] j"
  by (auto simp: idx_def slice_from_Some extends_def)

lemma note_attribute_extends:
  "\<exists>info'. note_attribute t (length d) d info = Some info' \<and> extends info [attribute t d] info'"
proof -
  let ?i = "info\<lparr>si_Attributes := si_Attributes info @
     [\<lparr>sa_Type = unat t, sa_TypeName = attr_name t, sa_Length = length d, sa_Data = d\<rparr>]\<rparr>"
  have i: "extends info [attribute t d] ?i" by (simp add: extends_def attribute_def)
  obtain j where j: "(if t = 0x0009 \<and> 4 \<le> length d then do {
         a2 \<leftarrow> idx d 2; a3 \<leftarrow> idx d 3;
         reason \<leftarrow> (if 4 < length d then slice_from d 4 else Some (si_ErrorReason ?i));
         Some (?i\<lparr>si_ErrorCode := unat (a2 AND 7) * 100 + unat a3, si_ErrorReason := reason\<rparr>)
       } else Some ?i) = Some j" "extends ?i [] j"
    using error_attribute_extends by blast
  let ?r = "\<lambda>v. if t = 0x4033 \<and> si_StunClass j = ''success'' \<and> length d = 8
    then j\<lparr>si_StableRoutingConnID := v\<rparr> else j"
  have "\<exists>v. length d = 8 \<longrightarrow> be_uint64 d 0 = Some v" by (auto simp: be_uint64_nth)
  then obtain v where v: "length d = 8 \<longrightarrow> be_uint64 d 0 = Some v" by blast
  have "note_attribute t (length d) d info = Some (?r v)"
    unfolding note_attribute_def Let_def j(1) using v by simp
  moreover have "extends info [attribute t d] (?r v)"
    using extends_trans [OF i j(2)] by (simp add: extends_def)
  ultimately show ?thesis by blast
qed

lemma parse_attributes_total: "\<exists>info'. parse_attributes data m off info = Some info'"
proof (induction data m off info rule: parse_attributes.induct)
  case (1 data m off info)
  show ?case
  proof (cases "off + 4 \<le> 20 + m \<and> off + 4 \<le> length data")
    case True
    then obtain t l where r: "be_uint16 data off = Some t" "be_uint16 data (off + 2) = Some l"
      using be_uint16_nth [of off data] be_uint16_nth [of "off + 2" data] by auto
    show ?thesis
    proof (cases "length data < off + 4 + unat l")
      case False
      let ?d = "take (unat l) (drop (off + 4) data)"
      have s: "slice data (off + 4) (off + 4 + unat l) = Some ?d" using False by (simp add: slice_def)
      have len: "length ?d = unat l" using False by simp
      obtain i where i: "note_attribute t (unat l) ?d info = Some i"
        using note_attribute_extends [of t ?d info] len by auto
      from "1.IH" [OF True r refl refl _ s i] False obtain i' where
        "parse_attributes data m (off + 4 + unat l + pad4 (unat l)) i = Some i'" by auto
      with True r s i False show ?thesis by (subst parse_attributes.simps) simp
    qed (use True r in \<open>subst parse_attributes.simps, simp\<close>)
  next
    case False
    then show ?thesis by (subst parse_attributes.simps) (simp only: if_False, simp)
  qed
qed

section \<open>Reading back built messages\<close>

lemma be_uint16_at: "length pre = off \<Longrightarrow> be_uint16 (pre @ be16 w @ r) off = Some w"
  by (subst be_uint16_drop) (simp add: be_uint16_be16)

lemma parse_attribute_step:
  assumes "length d < 65536" "20 \<le> length pre" "20 + m = length (pre @ encodeAttribute t d @ rest)"
  shows "parse_attributes (pre @ encodeAttribute t d @ rest) m (length pre) info =
    do { info \<leftarrow> note_attribute (of_int t) (length d) d info;
         parse_attributes (pre @ encodeAttribute t d @ rest) m (length (pre @ encodeAttribute t d)) info }"
proof -
  let ?data = "pre @ encodeAttribute t d @ rest"
  have "be_uint16 ?data (length pre) = Some (of_int t)"
    unfolding encodeAttribute_def append_assoc by (rule be_uint16_at) simp
  moreover have "be_uint16 ?data (length pre + 2) = Some (of_nat (length d))"
    using be_uint16_at [of "pre @ be16 (of_int t)" "length pre + 2"] by (simp add: encodeAttribute_def)
  moreover have "unat (of_nat (length d) :: u16) = length d" using assms(1) by (rule unat_of_nat16)
  moreover have "slice ?data (length pre + 4) (length pre + 4 + length d) = Some d"
    using slice_append_mid [of "length pre + 4" "pre @ be16 (of_int t) @ be16 (of_nat (length d))" _ d]
    by (simp add: encodeAttribute_def)
  ultimately show ?thesis
    using assms(2,3) by (subst parse_attributes.simps) (simp add: add.assoc Let_def)
qed

type_synonym attr_spec = "u16 \<times> bytes"

definition encode_all :: "attr_spec list \<Rightarrow> bytes" where
  "encode_all as = concat (map (\<lambda>(t, d). encodeAttribute (uint t) d) as)"

lemma parse_attributes_all:
  "\<forall>(t, d)\<in>set as. length d < 65536 \<Longrightarrow> 20 \<le> length pre \<Longrightarrow> 20 + m = length (pre @ encode_all as) \<Longrightarrow>
   \<exists>info'. parse_attributes (pre @ encode_all as) m (length pre) info = Some info' \<and>
     extends info (map (\<lambda>(t, d). attribute t d) as) info'"
proof (induction as arbitrary: pre info)
  case Nil
  then show ?case by (subst parse_attributes.simps) (simp add: encode_all_def)
next
  case (Cons a as)
  obtain t d where a: "a = (t, d)" by fastforce
  let ?e = "encodeAttribute (uint t) d"
  obtain j where j: "note_attribute t (length d) d info = Some j" "extends info [attribute t d] j"
    using note_attribute_extends by blast
  have d: "encode_all (a # as) = ?e @ encode_all as" by (simp add: encode_all_def a)
  have "\<forall>(t, d)\<in>set as. length d < 65536" "20 \<le> length (pre @ ?e)" "20 + m = length ((pre @ ?e) @ encode_all as)"
    using Cons.prems by (auto simp: d)
  from Cons.IH [OF this, of j] obtain k where
    k: "parse_attributes ((pre @ ?e) @ encode_all as) m (length (pre @ ?e)) j = Some k"
       "extends j (map (\<lambda>(t, d). attribute t d) as) k" by blast
  have "parse_attributes (pre @ ?e @ encode_all as) m (length pre) info = Some k"
    using Cons.prems k(1) by (subst parse_attribute_step) (auto simp: a d [unfolded a] j)
  with k(2) extends_trans [OF j(2)] show ?case unfolding d by (auto simp: a)
qed

text \<open>The attributes a built message carries: the given ones, then integrity and fingerprint.\<close>

definition integrity_attrs :: "int \<Rightarrow> bytes \<Rightarrow> bytes \<Rightarrow> bytes option \<Rightarrow> attr_spec list" where
  "integrity_attrs msgType attrs txid key = (case key of
      None \<Rightarrow> []
    | Some k \<Rightarrow> [(8, hmac_sha1 k (stun_header msgType (length attrs + 24) txid @ attrs))])"

definition fingerprint_attrs :: "int \<Rightarrow> bytes \<Rightarrow> bytes \<Rightarrow> bool \<Rightarrow> attr_spec list" where
  "fingerprint_attrs msgType attrs txid fp = (if fp
     then [(0x8028, be32 (crc32stun (stun_header msgType (length attrs + 8) txid @ attrs) XOR stunFingerprintXor))]
     else [])"

definition message_attrs :: "int \<Rightarrow> attr_spec list \<Rightarrow> bytes \<Rightarrow> bytes option \<Rightarrow> bool \<Rightarrow> attr_spec list" where
  "message_attrs msgType as txid key fp =
     (let as' = as @ integrity_attrs msgType (encode_all as) txid key
      in as' @ fingerprint_attrs msgType (encode_all as') txid fp)"

lemma encode_all_append [simp]: "encode_all (as @ bs) = encode_all as @ encode_all bs"
  by (simp add: encode_all_def)

lemma buildStunMessage_attrs:
  "buildStunMessage msgType (encode_all as) txid key fp =
     stun_header msgType (length (encode_all (message_attrs msgType as txid key fp))) txid @
     encode_all (message_attrs msgType as txid key fp)"
  by (cases key; cases fp)
     (simp_all add: buildStunMessage_def message_attrs_def integrity_attrs_def fingerprint_attrs_def encode_all_def
        attrMessageIntegrity_def attrFingerprint_def Let_def pad4_def add.commute [of 32])

lemma message_attrs_small:
  "\<forall>(t, d)\<in>set as. length d < 65536 \<Longrightarrow> \<forall>(t, d)\<in>set (message_attrs msgType as txid key fp). length d < 65536"
  by (auto simp: message_attrs_def integrity_attrs_def fingerprint_attrs_def Let_def split: option.split)

lemma stun_header_reads:
  assumes "length txid = 12"
  shows "be_uint32 (stun_header t n txid @ r) 4 = Some stunMagicCookie"
    and "be_uint16 (stun_header t n txid @ r) 0 = Some (of_int t)"
    and "be_uint16 (stun_header t n txid @ r) 2 = Some (of_nat n)"
    and "slice (stun_header t n txid @ r) 8 20 = Some txid"
proof -
  have h: "stun_header t n txid @ r = be16 (of_int t) @ be16 (of_nat n) @ be32 stunMagicCookie @ txid @ r"
    using assms by (simp add: stun_header_def)
  show "be_uint32 (stun_header t n txid @ r) 4 = Some stunMagicCookie"
    unfolding h by (subst be_uint32_drop) (simp add: be_uint32_be32)
  show "be_uint16 (stun_header t n txid @ r) 0 = Some (of_int t)" unfolding h by (simp add: be_uint16_be16)
  show "be_uint16 (stun_header t n txid @ r) 2 = Some (of_nat n)"
    unfolding h by (subst be_uint16_drop) (simp add: be_uint16_be16)
  show "slice (stun_header t n txid @ r) 8 20 = Some txid"
    unfolding h using slice_append_mid [of 8 "be16 (of_int t) @ be16 (of_nat n) @ be32 stunMagicCookie" 20 txid r] assms
    by simp
qed

section \<open>Properties\<close>

text \<open>
  Claim C35. Parsing a message the builder made returns its type, its transaction id and exactly its
  attributes in order: the given ones, then the message integrity computed over header and
  attributes with the length the standard prescribes, then the fingerprint, each if requested;
  for attributes and messages below 64 KiB.
\<close>

theorem stun_message_roundtrip:
  assumes "length txid = 12" "\<forall>(t, d)\<in>set as. length d < 65536"
    and "length (encode_all (message_attrs msgType as txid key fp)) < 65536"
  shows "\<exists>info. ParseStunResponse (buildStunMessage msgType (encode_all as) txid key fp) = Some (Some info) \<and>
     si_RawType info = unat (of_int msgType :: u16) \<and> si_TransactionID info = hex_EncodeToString txid \<and>
     si_StunClass info = stun_class (of_int msgType) \<and>
     map (\<lambda>a. (sa_Type a, sa_Data a)) (si_Attributes info) =
       map (\<lambda>(t, d). (unat t, d)) (message_attrs msgType as txid key fp)"
proof -
  let ?as = "message_attrs msgType as txid key fp"
  let ?h = "stun_header msgType (length (encode_all ?as)) txid"
  let ?data = "?h @ encode_all ?as"
  note rd = stun_header_reads [OF assms(1), of msgType "length (encode_all ?as)" "encode_all ?as"]
  have len: "unat (of_nat (length (encode_all ?as)) :: u16) = length (encode_all ?as)"
    using assms(3) by (rule unat_of_nat16)
  define info where "info = \<lparr>si_RawType = unat (of_int msgType :: u16), si_Method = stun_method (of_int msgType),
      si_StunClass = stun_class (of_int msgType), si_IsSuccess = (stun_class (of_int msgType) = ''success''),
      si_IsError = (stun_class (of_int msgType) = ''error''), si_ErrorCode = 0, si_ErrorReason = [],
      si_StableRoutingConnID = 0, si_TransactionID = hex_EncodeToString txid, si_Length = length ?data,
      si_Attributes = []\<rparr>"
  from parse_attributes_all [OF message_attrs_small [OF assms(2)], of ?h "length (encode_all ?as)" msgType txid key fp info]
  obtain i where i: "parse_attributes ?data (length (encode_all ?as)) 20 info = Some i"
      "extends info (map (\<lambda>(t, d). attribute t d) ?as) i" by auto
  have "ParseStunResponse ?data = Some (Some i)"
    using i(1) unfolding info_def by (simp add: ParseStunResponse_def rd len)
  moreover have "map (\<lambda>a. (sa_Type a, sa_Data a)) (si_Attributes i) = map (\<lambda>(t, d). (unat t, d)) ?as"
    using i(2) by (auto simp: extends_def info_def attribute_def)
  ultimately show ?thesis
    using i(2) by (simp add: buildStunMessage_attrs extends_def info_def)
qed

theorem stun_message_roundtrip_witness:
  "\<exists>info. ParseStunResponse (buildStunMessage 1 (encode_all [(0x24, [1, 2, 3])]) (replicate 12 7) (Some [9]) True) = Some (Some info) \<and>
     map sa_Type (si_Attributes info) = [0x24, 8, 0x8028]"
proof -
  have m: "map fst (message_attrs 1 [(0x24, [1, 2, 3])] (replicate 12 7) (Some [9]) True) = [0x24, 8, 0x8028]"
    by (simp add: message_attrs_def integrity_attrs_def fingerprint_attrs_def Let_def)
  have "length (encode_all (message_attrs 1 [(0x24, [1, 2, 3])] (replicate 12 7) (Some [9]) True)) < 65536"
    by (simp add: message_attrs_def integrity_attrs_def fingerprint_attrs_def Let_def encode_all_def pad4_def)
  from stun_message_roundtrip [OF _ _ this] obtain info where
    i: "ParseStunResponse (buildStunMessage 1 (encode_all [(0x24, [1, 2, 3])]) (replicate 12 7) (Some [9]) True) = Some (Some info)"
      "map (\<lambda>a. (sa_Type a, sa_Data a)) (si_Attributes info) =
       map (\<lambda>(t, d). (unat t, d)) (message_attrs 1 [(0x24, [1, 2, 3])] (replicate 12 7) (Some [9]) True)" by auto
  from arg_cong [OF i(2), of "map fst"] m have "map sa_Type (si_Attributes info) = map unat [0x24, 8, 0x8028 :: u16]"
    by (simp add: comp_def case_prod_unfold flip: m)
  with i(1) show ?thesis by auto
qed

text \<open>
  Parsing an arbitrary datagram as a STUN response terminates without reading out of
  bounds, whatever its length fields say.
\<close>

theorem ParseStunResponse_never_panics: "\<exists>r. ParseStunResponse data = Some r"
proof (cases "length data < 20")
  case False
  then obtain c t l where "be_uint32 data 4 = Some c" "be_uint16 data 0 = Some t" "be_uint16 data 2 = Some l"
    using be_uint32_nth [of 4 data] be_uint16_nth [of 0 data] be_uint16_nth [of 2 data] by auto
  moreover have "slice data 8 20 \<noteq> None" using False by (simp add: slice_def)
  moreover obtain p where "parse_attributes data (unat l) 20 i = Some (p i)" for i
    using parse_attributes_total by metis
  ultimately show ?thesis using False by (auto simp: ParseStunResponse_def Let_def)
qed (simp add: ParseStunResponse_def)

end
