(* ===== verification/Call_Rx.thy ===== *)
theory Call_Rx
  imports Call_Manager Stun
begin

text \<open>
  What the call manager does with data from the relay: \<open>onRelayData\<close> and the functions it calls in
  \<^verbatim>\<open>internal/voip/call/callmanager_media.go\<close>. The lemmas show that the ring buffer and its map
  implement a sliding window over the last 512 admitted packets, and that packets of two different
  streams are never handed to the extensions within two seconds of each other.
\<close>

section \<open>Admission of RTP packets\<close>

definition rxFailoverSilence :: int where "rxFailoverSilence = 2 * second"

datatype admission = DropUnlocked | DropDuplicate | Admit bool

text \<open>Step C1: one stream is forwarded; another is only let through as a failover candidate.\<close>

definition lock_check :: "int \<Rightarrow> u32 \<Rightarrow> rx_state \<Rightarrow> bool option" where
  "lock_check nowNs ssrc rx =
     (if rx_LockedSsrc rx \<noteq> 0 \<and> ssrc \<noteq> rx_LockedSsrc rx
      then if nowNs - rx_LockedLastNs rx > rxFailoverSilence then Some True else None
      else Some False)"

definition dedup_key :: "u32 \<Rightarrow> u16 \<Rightarrow> u64" where
  "dedup_key ssrc sq = push_bit 16 (ucast ssrc) OR ucast sq"

text \<open>Step B: remembering a key, forgetting the one the ring overwrites.\<close>

definition dedup_insert :: "u64 \<Rightarrow> rx_state \<Rightarrow> rx_state go" where
  "dedup_insert dkey rx = do {
     old \<leftarrow> idx (rx_DedupRing rx) (rx_DedupIdx rx);
     let d = (if rx_DedupFilled rx then rx_Dedup rx - {old} else rx_Dedup rx);
     ring \<leftarrow> write_at (rx_DedupRing rx) (rx_DedupIdx rx) [dkey];
     let i = rx_DedupIdx rx + 1;
     Some (if i = length ring
           then rx\<lparr>rx_Dedup := insert dkey d, rx_DedupRing := ring, rx_DedupIdx := 0, rx_DedupFilled := True\<rparr>
           else rx\<lparr>rx_Dedup := insert dkey d, rx_DedupRing := ring, rx_DedupIdx := i\<rparr>) }"

definition rx_admit :: "int \<Rightarrow> u32 \<Rightarrow> u16 \<Rightarrow> rx_state \<Rightarrow> (admission \<times> rx_state) go" where
  "rx_admit nowNs ssrc sq rx =
     (case lock_check nowNs ssrc rx of
        None \<Rightarrow> Some (DropUnlocked, rx)
      | Some failoverTry \<Rightarrow>
          (let rx = (if ssrc = rx_LockedSsrc rx then rx\<lparr>rx_LockedLastNs := nowNs\<rparr> else rx) in
           if dedup_key ssrc sq \<in> rx_Dedup rx then Some (DropDuplicate, rx)
           else do { rx \<leftarrow> dedup_insert (dedup_key ssrc sq) rx; Some (Admit failoverTry, rx) }))"

text \<open>Step C2, after the packet was unprotected; the flag tells whether the lock moved to another stream.\<close>

definition lock_commit :: "int \<Rightarrow> u32 \<Rightarrow> bool \<Rightarrow> rx_state \<Rightarrow> rx_state \<times> bool" where
  "lock_commit nowNs ssrc failoverTry rx =
     (if rx_LockedSsrc rx = 0 \<or> failoverTry then
        if rx_LockedSsrc rx = 0 then (rx\<lparr>rx_LockedSsrc := ssrc, rx_LockedLastNs := nowNs\<rparr>, False)
        else if failoverTry \<and> ssrc \<noteq> rx_LockedSsrc rx \<and> nowNs - rx_LockedLastNs rx > rxFailoverSilence
        then (rx\<lparr>rx_LockedSsrc := ssrc, rx_LockedLastNs := nowNs\<rparr>, True)
        else (rx, False)
      else (rx, False))"

section \<open>Drop tallies\<close>

definition tally_add :: "string \<Rightarrow> (string \<Rightarrow> nat) \<Rightarrow> (string \<Rightarrow> nat) \<times> bool" where
  "tally_add reason t = (let t = t(reason := t reason + 1) in (t, t reason = 1))"

definition srtp_error_name :: "SrtpErrorType \<Rightarrow> string" where
  "srtp_error_name er = (case er of
      SrtpErrPacketTooShort \<Rightarrow> ''packet_too_short'' | SrtpErrAuthFailed \<Rightarrow> ''auth_failed''
    | SrtpErrEncryption \<Rightarrow> ''encryption'' | SrtpErrDecryption \<Rightarrow> ''decryption'' | SrtpErrReplay \<Rightarrow> ''replay'')"

definition drop_reason :: "ManagerError \<Rightarrow> string" where
  "drop_reason er = (case er of SrtpFailed x \<Rightarrow> srtp_error_name x | _ \<Rightarrow> ''other'')"

section \<open>Media liveness\<close>

definition notePeerMediaLocked :: "('j, 'e, 'f) env \<Rightarrow> ('j, 'f) CallManager \<Rightarrow> ('j, 'f) CallManager" where
  "notePeerMediaLocked e m =
     (let m = m\<lparr>cm_lastMediaRecv := unix_ms e\<rparr> in
      case cm_currentCall m of
        None \<Rightarrow> m
      | Some c \<Rightarrow> if call_state c = CallStateReconnecting
          then (case applyCall (transition TransitionMediaRestored) (en_now e) m of
                  Some m \<Rightarrow> emitState m | None \<Rightarrow> m)
          else m)"

definition notePeerMedia :: "('j, 'e, 'f) env \<Rightarrow> u32 \<Rightarrow> ('j, 'f) CallManager \<Rightarrow> ('j, 'f) CallManager" where
  "notePeerMedia e ssrc m = (if ssrc = cm_selfSsrc m then m else notePeerMediaLocked e m)"

section \<open>RTCP\<close>

definition note_block :: "u32 \<Rightarrow> 'f float_ops \<Rightarrow> u64 \<Rightarrow> InboundReportBlock \<Rightarrow> 'f RTCPReceiverStats \<Rightarrow> 'f RTCPReceiverStats" where
  "note_block selfSsrc F now b st =
     (if rb_SSRC b = selfSsrc \<and> rb_LSR b \<noteq> 0
      then NotePeerReportBlock F st (rb_LSR b) (rb_DLSR b) (rb_FractionLost b) now else st)"

definition note_compound ::
  "('j, 'e, 'f) env \<Rightarrow> InboundRTCP \<Rightarrow> 'f RTCPReceiverStats \<Rightarrow> ('j, 'f) CallManager \<Rightarrow> ('j, 'f) CallManager" where
  "note_compound e inb stats m =
     (let now = of_int (unix_ms e);
          stats = (if in_HasSR inb then NoteSenderReport stats (in_SRNtpMid inb) now else stats);
          stats = fold (note_block (cm_selfSsrc m) (en_float e) now) (in_Blocks inb) stats;
          q = QualitySnapshot (en_float e) stats;
          m = observe (ObNoteQuality q) (m\<lparr>cm_rtcp := (cm_rtcp m)\<lparr>rt_recvStats := Some stats\<rparr>\<rparr>)
      in case cm_currentCall m of
           Some c \<Rightarrow> if ci_CallID c \<noteq> '''' then emit (OnQuality (ci_CallID c) q) m else m
         | None \<Rightarrow> m)"

definition on_rtcp :: "('j, 'e, 'f) env \<Rightarrow> bytes \<Rightarrow> ('j, 'f) CallManager \<Rightarrow> ('j, 'f) CallManager go" where
  "on_rtcp e data m = do {
     (senderSsrc, _) \<leftarrow> ParseRTCPSenderSSRC data;
     let m = notePeerMedia e senderSsrc m;
     case (rt_recvSrtcp (cm_rtcp m), rt_recvStats (cm_rtcp m)) of
       (Some ctx, Some stats) \<Rightarrow> do {
         r \<leftarrow> SrtcpContext_Unprotect ctx data;
         case r of
           Inl er \<Rightarrow> Some (m\<lparr>cm_srtcpDrops := fst (tally_add (srtp_error_name er) (cm_srtcpDrops m))\<rparr>)
         | Inr plain \<Rightarrow> do {
             inb \<leftarrow> ParseRTCPCompound plain;
             Some (note_compound e inb stats m) } }
     | _ \<Rightarrow> Some m }"

section \<open>RTP\<close>

definition learn_peer :: "u8 \<Rightarrow> u32 \<Rightarrow> ('j, 'f) CallManager \<Rightarrow> ('j, 'f) CallManager" where
  "learn_peer pt ssrc m =
     (if pt = PayloadTypeWhatsAppOpus \<and> \<not> cm_actualPeerSet m then
        (let m = m\<lparr>cm_actualPeerSet := True\<rparr> in
         if containsSsrc (cm_peerSsrcs m) ssrc then m else applyStreamSsrcs (m\<lparr>cm_peerSsrcs := [ssrc]\<rparr>))
      else m)"

text \<open>A packet that was unprotected: commit the lock, count it, hand it over.\<close>

definition deliver :: "('j, 'e, 'f) env \<Rightarrow> u8 \<Rightarrow> u32 \<Rightarrow> bool \<Rightarrow> RtpPacket \<Rightarrow> ('j, 'f) CallManager \<Rightarrow> ('j, 'f) CallManager" where
  "deliver e pt ssrc failoverTry pkt m =
     (let (rx, relocked) = lock_commit (en_now e) ssrc failoverTry (cm_rx m);
          m = m\<lparr>cm_rx := rx, cm_relocks := cm_relocks m + (if relocked then 1 else 0)\<rparr>;
          m = (case rt_recvStats (cm_rtcp m) of
                 Some st \<Rightarrow> m\<lparr>cm_rtcp := (cm_rtcp m)\<lparr>rt_recvStats := Some (NoteRTP (en_float e) st
                    (rh_SequenceNumber (rp_Header pkt)) (rh_Timestamp (rp_Header pkt)) (of_int (unix_ms e)))\<rparr>\<rparr>
               | None \<Rightarrow> m)
      in emit (HandleRtp pt pkt) m)"

definition on_admitted :: "('j, 'e, 'f) env \<Rightarrow> bytes \<Rightarrow> u8 \<Rightarrow> u32 \<Rightarrow> bool \<Rightarrow> ('j, 'f) CallManager \<Rightarrow> ('j, 'f) CallManager go" where
  "on_admitted e data pt ssrc failoverTry m =
     (let m = learn_peer pt ssrc (notePeerMediaLocked e m) in
      if ssrc \<in> cm_declaredSelf m \<or> pt \<notin> cm_rtpHandlers m then Some m
      else case cm_srtp m of
        None \<Rightarrow> Some m
      | Some srtp \<Rightarrow> do {
          (r, srtp) \<leftarrow> Manager_Unprotect srtp data;
          let m = m\<lparr>cm_srtp := Some srtp\<rparr>;
          Some (case r of
             Inl er \<Rightarrow> observe (ObSrtpRecvDrop (drop_reason er))
                 (m\<lparr>cm_undecodable := cm_undecodable m + 1, cm_srtpDrops := fst (tally_add (drop_reason er) (cm_srtpDrops m))\<rparr>)
           | Inr pkt \<Rightarrow> if rp_Payload pkt = [] then m else deliver e pt ssrc failoverTry pkt m) })"

definition on_verdict ::
  "('j, 'e, 'f) env \<Rightarrow> bytes \<Rightarrow> u8 \<Rightarrow> u32 \<Rightarrow> admission \<Rightarrow> ('j, 'f) CallManager \<Rightarrow> ('j, 'f) CallManager go" where
  "on_verdict e data pt ssrc v m = (case v of
      DropUnlocked \<Rightarrow> Some m
    | DropDuplicate \<Rightarrow> Some (observe (ObSrtpRecvDrop ''replay'')
        (m\<lparr>cm_srtpDrops := fst (tally_add ''replay'' (cm_srtpDrops m))\<rparr>))
    | Admit failoverTry \<Rightarrow> on_admitted e data pt ssrc failoverTry m)"

definition on_rtp :: "('j, 'e, 'f) env \<Rightarrow> bytes \<Rightarrow> ('j, 'f) CallManager \<Rightarrow> ('j, 'f) CallManager go" where
  "on_rtp e data m =
     (if length data < 12 then Some m
      else do {
        b1 \<leftarrow> idx data 1;
        ssrc \<leftarrow> RTPSsrc data;
        if ssrc = cm_selfSsrc m then Some m
        else do {
          hi \<leftarrow> idx data 2; lo \<leftarrow> idx data 3;
          (v, rx) \<leftarrow> rx_admit (en_now e) ssrc (join16 hi lo) (cm_rx m);
          on_verdict e data (b1 AND 0x7f) ssrc v (m\<lparr>cm_rx := rx\<rparr>) } })"

definition onRelayData :: "('j, 'e, 'f) env \<Rightarrow> bytes \<Rightarrow> ('j, 'f) CallManager \<Rightarrow> ('j, 'f) CallManager go" where
  "onRelayData e data m =
     (if IsStunPacket data then Some m
      else if IsRtcpPacket data then on_rtcp e data m
      else if \<not> IsRtpPacket data then Some m
      else on_rtp e data m)"

section \<open>Sliding windows\<close>

definition last_n :: "nat \<Rightarrow> 'a list \<Rightarrow> 'a list" where
  "last_n n xs = drop (length xs - n) xs"

text \<open>Feeding keys through a filter, and what a window over the last \<open>n\<close> admitted keys admits.\<close>

fun feed :: "('s \<Rightarrow> 'k \<Rightarrow> bool) \<Rightarrow> ('k \<Rightarrow> 's \<Rightarrow> 's option) \<Rightarrow> 'k list \<Rightarrow> 's \<Rightarrow> ('k list \<times> 's) option" where
  "feed seen add [] s = Some ([], s)"
| "feed seen add (k # ks) s = (if seen s k then feed seen add ks s
     else do { s \<leftarrow> add k s; (as, t) \<leftarrow> feed seen add ks s; Some (k # as, t) })"

fun admitted_by :: "nat \<Rightarrow> 'k list \<Rightarrow> 'k list \<Rightarrow> 'k list" where
  "admitted_by n hist [] = []"
| "admitted_by n hist (k # ks) = (if k \<in> set (last_n n hist) then admitted_by n hist ks
     else k # admitted_by n (hist @ [k]) ks)"

lemma last_n_step: "last_n n (last_n n xs @ [k]) = last_n n (xs @ [k])"
  by (cases "length xs \<le> n") (auto simp: last_n_def Suc_diff_le)

lemma length_last_n: "length (last_n n xs) = min n (length xs)"
  by (simp add: last_n_def)

locale sliding_window =
  fixes ok :: "'s \<Rightarrow> bool" and seen :: "'s \<Rightarrow> 'k \<Rightarrow> bool" and add :: "'k \<Rightarrow> 's \<Rightarrow> 's option"
    and contents :: "'s \<Rightarrow> 'k list" and size :: nat
  assumes seen_iff: "ok s \<Longrightarrow> seen s k \<longleftrightarrow> k \<in> set (contents s)"
    and add_ok: "ok s \<Longrightarrow> \<not> seen s k \<Longrightarrow>
      \<exists>s'. add k s = Some s' \<and> ok s' \<and> contents s' = last_n size (contents s @ [k])"
begin

lemma feed_window:
  assumes "ok s" "contents s = last_n size hist"
  shows "\<exists>t. feed seen add ks s = Some (admitted_by size hist ks, t) \<and> ok t \<and>
     contents t = last_n size (hist @ admitted_by size hist ks)"
  using assms
proof (induction ks arbitrary: s hist)
  case (Cons k ks)
  show ?case
  proof (cases "seen s k")
    case True
    with Cons seen_iff show ?thesis by simp
  next
    case False
    then obtain s' where s': "add k s = Some s'" "ok s'" "contents s' = last_n size (hist @ [k])"
      using add_ok [OF Cons.prems(1) False] Cons.prems(2) by (auto simp: last_n_step)
    from Cons.IH [OF s'(2,3)] False s'(1) Cons.prems seen_iff show ?thesis by auto
  qed
qed simp

end

section \<open>The ring implements a sliding window\<close>

definition rx_window :: "rx_state \<Rightarrow> u64 list" where
  "rx_window rx = (if rx_DedupFilled rx then drop (rx_DedupIdx rx) (rx_DedupRing rx) else []) @
     take (rx_DedupIdx rx) (rx_DedupRing rx)"

definition rx_ok :: "rx_state \<Rightarrow> bool" where
  "rx_ok rx \<longleftrightarrow> length (rx_DedupRing rx) = 512 \<and> rx_DedupIdx rx < 512 \<and> distinct (rx_window rx) \<and>
     rx_Dedup rx = set (rx_window rx)"

lemma rx_ok_empty [simp]: "rx_ok emptyRx" by (simp add: rx_ok_def emptyRx_def rx_window_def)

lemma window_insert:
  assumes ok: "rx_ok rx" and new: "k \<notin> rx_Dedup rx" and ins: "dedup_insert k rx = Some rx'"
  shows "rx_window rx' = last_n 512 (rx_window rx @ [k])" "rx_ok rx'"
    "rx_LockedSsrc rx' = rx_LockedSsrc rx" "rx_LockedLastNs rx' = rx_LockedLastNs rx"
proof -
  let ?r = "rx_DedupRing rx" and ?i = "rx_DedupIdx rx"
  let ?r' = "take ?i ?r @ [k] @ drop (Suc ?i) ?r"
  have len: "length ?r = 512" "?i < 512" using ok by (simp_all add: rx_ok_def)
  have d: "drop ?i ?r = ?r ! ?i # drop (Suc ?i) ?r" using len by (simp add: Cons_nth_drop_Suc)
  have rx': "rx' = (if Suc ?i = 512
      then rx\<lparr>rx_Dedup := insert k (if rx_DedupFilled rx then rx_Dedup rx - {?r ! ?i} else rx_Dedup rx),
        rx_DedupRing := ?r', rx_DedupIdx := 0, rx_DedupFilled := True\<rparr>
      else rx\<lparr>rx_Dedup := insert k (if rx_DedupFilled rx then rx_Dedup rx - {?r ! ?i} else rx_Dedup rx),
        rx_DedupRing := ?r', rx_DedupIdx := Suc ?i\<rparr>)"
    using ins len by (auto simp: dedup_insert_def idx_def write_at_def Let_def)
  have w': "rx_window rx' = (if rx_DedupFilled rx then drop (Suc ?i) ?r else []) @ take ?i ?r @ [k]"
    using len by (auto simp: rx' rx_window_def)
  show w: "rx_window rx' = last_n 512 (rx_window rx @ [k])"
    unfolding w' using len by (simp add: last_n_def rx_window_def d min_def)
  have dist: "distinct (rx_window rx)" and mem: "rx_Dedup rx = set (rx_window rx)" using ok by (simp_all add: rx_ok_def)
  have "distinct (rx_window rx')" unfolding w' using dist new by (auto simp: mem rx_window_def d split: if_splits)
  moreover have "rx_Dedup rx' = insert k (if rx_DedupFilled rx then rx_Dedup rx - {?r ! ?i} else rx_Dedup rx)"
    by (simp add: rx')
  then have "rx_Dedup rx' = set (rx_window rx')"
    unfolding w' using dist by (auto simp: mem rx_window_def d split: if_splits)
  ultimately show "rx_ok rx'" using len by (simp add: rx_ok_def) (simp add: rx' min_def)
  show "rx_LockedSsrc rx' = rx_LockedSsrc rx" "rx_LockedLastNs rx' = rx_LockedLastNs rx" by (simp_all add: rx')
qed

lemma dedup_insert_total: "rx_ok rx \<Longrightarrow> \<exists>rx'. dedup_insert k rx = Some rx'"
  by (auto simp: dedup_insert_def idx_def write_at_def rx_ok_def Let_def)

interpretation rxw: sliding_window rx_ok "\<lambda>rx k. k \<in> rx_Dedup rx" dedup_insert rx_window 512
proof unfold_locales
  fix rx k
  assume "rx_ok rx" "k \<notin> rx_Dedup rx"
  then show "\<exists>rx'. dedup_insert k rx = Some rx' \<and> rx_ok rx' \<and> rx_window rx' = last_n 512 (rx_window rx @ [k])"
    using window_insert dedup_insert_total by metis
qed (simp add: rx_ok_def)

lemma dedup_key_inj: "dedup_key s q = dedup_key s' q' \<longleftrightarrow> s = s' \<and> q = q'"
proof
  assume a: "dedup_key s q = dedup_key s' q'"
  have hi: "ucast (drop_bit 16 (dedup_key s q)) = s" and lo: "ucast (dedup_key s q) = q" for s q
    unfolding dedup_key_def by (rule bit_word_eqI, auto simp: bit_simps dest: bit_imp_le_length)+
  show "s = s' \<and> q = q'" using hi [of s q] hi [of s' q'] lo [of s q] lo [of s' q'] a by simp
qed simp

section \<open>One stream at a time\<close>

fun is_handle :: "('j, 'f) effect \<Rightarrow> bool" where
  "is_handle (HandleRtp _ _) = True"
| "is_handle _ = False"

definition handled_count :: "('j, 'f) CallManager \<Rightarrow> nat" where
  "handled_count m = length (filter is_handle (cm_out m))"

lemma handled_emit [simp]: "handled_count (emit x m) = handled_count m + (if is_handle x then 1 else 0)"
  by (simp add: handled_count_def emit_def)

lemma emit_rx [simp]: "cm_rx (emit x m) = cm_rx m"
  by (simp add: emit_def)

lemma handled_update [simp]:
  "handled_count (m\<lparr>cm_rx := a\<rparr>) = handled_count m" "handled_count (m\<lparr>cm_srtp := b\<rparr>) = handled_count m"
  "handled_count (m\<lparr>cm_rtcp := c\<rparr>) = handled_count m" "handled_count (m\<lparr>cm_srtpDrops := d\<rparr>) = handled_count m"
  "handled_count (m\<lparr>cm_srtcpDrops := d\<rparr>) = handled_count m" "handled_count (m\<lparr>cm_undecodable := n\<rparr>) = handled_count m"
  "handled_count (m\<lparr>cm_relocks := n\<rparr>) = handled_count m" "handled_count (m\<lparr>cm_lastMediaRecv := i\<rparr>) = handled_count m"
  "handled_count (m\<lparr>cm_currentCall := cc\<rparr>) = handled_count m" "handled_count (m\<lparr>cm_actualPeerSet := p\<rparr>) = handled_count m"
  "handled_count (m\<lparr>cm_peerSsrcs := ps\<rparr>) = handled_count m"
  by (simp_all add: handled_count_def)

lemma notePeerMedia_neutral [simp]:
  "cm_rx (notePeerMediaLocked e m) = cm_rx m" "handled_count (notePeerMediaLocked e m) = handled_count m"
  "cm_rx (notePeerMedia e s m) = cm_rx m" "handled_count (notePeerMedia e s m) = handled_count m"
  "cm_rtpHandlers (notePeerMediaLocked e m) = cm_rtpHandlers m"
  by (auto simp: notePeerMedia_def notePeerMediaLocked_def applyCall_def emitState_def emit_def Let_def
      handled_count_def split: option.split sum.split)

lemma learn_peer_neutral [simp]:
  "cm_rx (learn_peer pt s m) = cm_rx m" "handled_count (learn_peer pt s m) = handled_count m"
  "cm_rtpHandlers (learn_peer pt s m) = cm_rtpHandlers m"
  by (auto simp: learn_peer_def applyStreamSsrcs_def emit_def handled_count_def Let_def split: prod.split)

text \<open>What one datagram does to the lock, and when it is handed over.\<close>

definition quiet_step :: "int \<Rightarrow> u32 \<Rightarrow> rx_state \<Rightarrow> rx_state \<Rightarrow> bool" where
  "quiet_step now ssrc rx rx' \<longleftrightarrow> rx_LockedSsrc rx' = rx_LockedSsrc rx \<and>
     (rx_LockedLastNs rx' = rx_LockedLastNs rx \<or> rx_LockedLastNs rx' = now)"

definition forward_step :: "int \<Rightarrow> u32 \<Rightarrow> rx_state \<Rightarrow> rx_state \<Rightarrow> bool" where
  "forward_step now ssrc rx rx' \<longleftrightarrow> rx_LockedSsrc rx' = ssrc \<and> rx_LockedLastNs rx' = now \<and>
     (rx_LockedSsrc rx = 0 \<or> rx_LockedSsrc rx = ssrc \<or> now - rx_LockedLastNs rx > rxFailoverSilence)"

lemma note_compound_neutral [simp]:
  "cm_rx (note_compound e inb st m) = cm_rx m" "handled_count (note_compound e inb st m) = handled_count m"
  by (simp_all add: note_compound_def Let_def split: option.split)

lemma on_rtcp_quiet:
  "on_rtcp e data m = Some m' \<Longrightarrow> cm_rx m' = cm_rx m \<and> handled_count m' = handled_count m"
  unfolding on_rtcp_def Let_def
  by (auto split: Option.bind_split_asm option.split_asm sum.split_asm prod.split_asm)

lemma rx_ok_time [simp]: "rx_ok (rx\<lparr>rx_LockedLastNs := t\<rparr>) = rx_ok rx"
  by (simp add: rx_ok_def rx_window_def)

lemma rx_ok_lock [simp]: "rx_ok (rx\<lparr>rx_LockedSsrc := s\<rparr>) = rx_ok rx"
  by (simp add: rx_ok_def rx_window_def)

lemma rx_admit_locks:
  assumes "rx_admit now ssrc sq rx = Some (v, rx')" "rx_ok rx"
  shows "rx_ok rx' \<and> quiet_step now ssrc rx rx' \<and>
    (\<forall>f. v = Admit f \<longrightarrow> (if f then rx_LockedSsrc rx \<noteq> 0 \<and> ssrc \<noteq> rx_LockedSsrc rx \<and> rx_LockedLastNs rx' = rx_LockedLastNs rx \<and>
         now - rx_LockedLastNs rx > rxFailoverSilence
       else rx_LockedSsrc rx = 0 \<or> rx_LockedSsrc rx = ssrc \<and> rx_LockedLastNs rx' = now))"
proof -
  let ?rx = "if ssrc = rx_LockedSsrc rx then rx\<lparr>rx_LockedLastNs := now\<rparr> else rx"
  have ok: "rx_ok ?rx" using assms(2) by simp
  have ins: "dedup_key ssrc sq \<notin> rx_Dedup rx \<Longrightarrow> dedup_insert (dedup_key ssrc sq) ?rx = Some r \<Longrightarrow>
      rx_ok r \<and> rx_LockedSsrc r = rx_LockedSsrc rx \<and>
      rx_LockedLastNs r = (if ssrc = rx_LockedSsrc rx then now else rx_LockedLastNs rx)" for r
    using window_insert(2-4) [OF ok, of "dedup_key ssrc sq" r] by (cases "ssrc = rx_LockedSsrc rx") simp_all
  obtain f where f: "lock_check now ssrc rx = Some f" if "v \<noteq> DropUnlocked"
    using assms(1) by (cases "lock_check now ssrc rx") (auto simp: rx_admit_def)
  consider "v = DropUnlocked" "rx' = rx" | "v = DropDuplicate" "rx' = ?rx"
    | "v = Admit f" "dedup_key ssrc sq \<notin> rx_Dedup rx" "dedup_insert (dedup_key ssrc sq) ?rx = Some rx'" "lock_check now ssrc rx = Some f"
    using assms(1) f
    by (cases "lock_check now ssrc rx"; cases "ssrc = rx_LockedSsrc rx")
       (auto simp: rx_admit_def Let_def split: if_split_asm Option.bind_split_asm)
  then show ?thesis
  proof cases
    case 3
    then show ?thesis using ins [OF 3(2,3)]
      by (auto simp: lock_check_def quiet_step_def split: if_split_asm)
  qed (use assms(2) in \<open>auto simp: quiet_step_def\<close>)
qed

text \<open>The step relation of a single datagram.\<close>

lemma deliver_step:
  assumes "rx_ok (cm_rx m)" "f \<longrightarrow> ssrc \<noteq> rx_LockedSsrc (cm_rx m) \<and> en_now e - rx_LockedLastNs (cm_rx m) > rxFailoverSilence"
    and "\<not> f \<longrightarrow> rx_LockedSsrc (cm_rx m) = 0 \<or> rx_LockedSsrc (cm_rx m) = ssrc \<and> rx_LockedLastNs (cm_rx m) = en_now e"
  shows "rx_ok (cm_rx (deliver e pt ssrc f pkt m))" "handled_count (deliver e pt ssrc f pkt m) = Suc (handled_count m)"
    "rx_LockedSsrc (cm_rx (deliver e pt ssrc f pkt m)) = ssrc" "rx_LockedLastNs (cm_rx (deliver e pt ssrc f pkt m)) = en_now e"
  using assms
  by (auto simp: deliver_def lock_commit_def Let_def split: option.split)

definition datagram_ssrc :: "bytes \<Rightarrow> u32" where
  "datagram_ssrc data = (case RTPSsrc data of Some s \<Rightarrow> s | None \<Rightarrow> 0)"

definition rx_evolves :: "int \<Rightarrow> u32 \<Rightarrow> ('j, 'f) CallManager \<Rightarrow> ('j, 'f) CallManager \<Rightarrow> bool" where
  "rx_evolves now ssrc m m' \<longleftrightarrow> rx_ok (cm_rx m') \<and>
     (if handled_count m' = handled_count m then quiet_step now ssrc (cm_rx m) (cm_rx m')
      else handled_count m' = Suc (handled_count m) \<and> forward_step now ssrc (cm_rx m) (cm_rx m'))"

lemma rx_evolves_same: "rx_ok (cm_rx m) \<Longrightarrow> cm_rx m' = cm_rx m \<Longrightarrow> handled_count m' = handled_count m \<Longrightarrow> rx_evolves now ssrc m m'"
  by (simp add: rx_evolves_def quiet_step_def)

lemma on_admitted_evolves:
  assumes "on_admitted e data pt ssrc f m = Some m'" "rx_ok (cm_rx m)"
    and "f \<longrightarrow> ssrc \<noteq> rx_LockedSsrc (cm_rx m) \<and> en_now e - rx_LockedLastNs (cm_rx m) > rxFailoverSilence"
    and "\<not> f \<longrightarrow> rx_LockedSsrc (cm_rx m) = 0 \<or> rx_LockedSsrc (cm_rx m) = ssrc \<and> rx_LockedLastNs (cm_rx m) = en_now e"
  shows "cm_rx m' = cm_rx m \<and> handled_count m' = handled_count m \<or>
    rx_ok (cm_rx m') \<and> handled_count m' = Suc (handled_count m) \<and> rx_LockedSsrc (cm_rx m') = ssrc \<and>
    rx_LockedLastNs (cm_rx m') = en_now e"
proof -
  let ?m = "learn_peer pt ssrc (notePeerMediaLocked e m)"
  have d: "rx_ok (cm_rx (deliver e pt ssrc f pkt (?m\<lparr>cm_srtp := x\<rparr>))) \<and>
      handled_count (deliver e pt ssrc f pkt (?m\<lparr>cm_srtp := x\<rparr>)) = Suc (handled_count m) \<and>
      rx_LockedSsrc (cm_rx (deliver e pt ssrc f pkt (?m\<lparr>cm_srtp := x\<rparr>))) = ssrc \<and>
      rx_LockedLastNs (cm_rx (deliver e pt ssrc f pkt (?m\<lparr>cm_srtp := x\<rparr>))) = en_now e" for pkt x
    using deliver_step [of "?m\<lparr>cm_srtp := x\<rparr>" f ssrc e pt pkt] assms(2-4) by simp
  show ?thesis
    using assms(1) unfolding on_admitted_def Let_def
    by (auto simp: d split: if_split_asm option.split_asm Option.bind_split_asm prod.split_asm sum.split_asm)
qed

lemma on_rtp_evolves:
  assumes "on_rtp e data m = Some m'" "rx_ok (cm_rx m)"
  shows "rx_evolves (en_now e) (datagram_ssrc data) m m'"
proof (cases "length data < 12 \<or> datagram_ssrc data = cm_selfSsrc m")
  case True
  with assms have "m' = m"
    by (auto simp: on_rtp_def datagram_ssrc_def Let_def split: if_split_asm option.split_asm Option.bind_split_asm)
  with assms(2) show ?thesis by (simp add: rx_evolves_same)
next
  case False
then obtain pt sq v rx where a: "rx_admit (en_now e) (datagram_ssrc data) sq (cm_rx m) = Some (v, rx)"
    and r: "on_verdict e data pt (datagram_ssrc data) v (m\<lparr>cm_rx := rx\<rparr>) = Some m'"
    using assms(1) unfolding on_rtp_def datagram_ssrc_def
    by (auto split: if_split_asm option.split_asm Option.bind_split_asm)
  note l = rx_admit_locks [OF a assms(2)]
  show ?thesis
  proof (cases v)
    case (Admit f)
    from on_admitted_evolves [of e data pt "datagram_ssrc data" f "m\<lparr>cm_rx := rx\<rparr>" m'] r l Admit
    have "cm_rx m' = rx \<and> handled_count m' = handled_count m \<or>
      rx_ok (cm_rx m') \<and> handled_count m' = Suc (handled_count m) \<and> rx_LockedSsrc (cm_rx m') = datagram_ssrc data \<and>
      rx_LockedLastNs (cm_rx m') = en_now e"
      by (auto simp: quiet_step_def on_verdict_def split: if_split_asm)
    with l Admit show ?thesis by (auto simp: rx_evolves_def forward_step_def quiet_step_def split: if_split_asm)
  qed (use r l in \<open>auto simp: rx_evolves_def on_verdict_def\<close>)
qed

lemma onRelayData_evolves:
  assumes "onRelayData e data m = Some m'" "rx_ok (cm_rx m)"
  shows "rx_evolves (en_now e) (datagram_ssrc data) m m'"
  using assms on_rtp_evolves [of e data m m'] on_rtcp_quiet [of e data m m']
  by (auto simp: onRelayData_def rx_evolves_same split: if_split_asm)

text \<open>A run over datagrams, each with its environment; it collects when which stream was handed over.\<close>

fun relay_run :: "(('j, 'e, 'f) env \<times> bytes) list \<Rightarrow> ('j, 'f) CallManager \<Rightarrow> ((int \<times> u32) list \<times> ('j, 'f) CallManager) go" where
  "relay_run [] m = Some ([], m)"
| "relay_run ((e, data) # evs) m = do {
     m1 \<leftarrow> onRelayData e data m;
     (fs, m2) \<leftarrow> relay_run evs m1;
     Some ((if handled_count m < handled_count m1 then [(en_now e, datagram_ssrc data)] else []) @ fs, m2) }"

definition clocked :: "int \<Rightarrow> (('j, 'e, 'f) env \<times> bytes) list \<Rightarrow> bool" where
  "clocked t evs \<longleftrightarrow> sorted (t # map (\<lambda>(e, _). en_now e) evs) \<and> (\<forall>(e, d)\<in>set evs. datagram_ssrc d \<noteq> 0)"

lemma clocked_Cons: "clocked t ((e, d) # evs) \<longleftrightarrow> t \<le> en_now e \<and> datagram_ssrc d \<noteq> 0 \<and> clocked (en_now e) evs"
  by (auto simp: clocked_def)

definition far_from :: "int \<Rightarrow> u32 \<Rightarrow> int \<times> u32 \<Rightarrow> bool" where
  "far_from t s x \<longleftrightarrow> (case x of (t', s') \<Rightarrow> s' \<noteq> s \<longrightarrow> t' - t > rxFailoverSilence)"

lemma run_respects_forwarded:
  assumes "relay_run evs m = Some (fs, m')" "rx_ok (cm_rx m)" "clocked now evs" "t \<le> now"
    and "rx_LockedSsrc (cm_rx m) = s \<and> s \<noteq> 0 \<and> t \<le> rx_LockedLastNs (cm_rx m) \<or> t + rxFailoverSilence < now"
  shows "\<forall>x\<in>set fs. far_from t s x"
  using assms
proof (induction evs arbitrary: m fs now)
  case (Cons ev evs)
  obtain e d where ev: "ev = (e, d)" by fastforce
  obtain m1 gs where m1: "onRelayData e d m = Some m1" "relay_run evs m1 = Some (gs, m')"
    and fs: "fs = (if handled_count m < handled_count m1 then [(en_now e, datagram_ssrc d)] else []) @ gs"
    using Cons.prems(1) unfolding ev by (auto split: Option.bind_split_asm)
  note st = onRelayData_evolves [OF m1(1) Cons.prems(2)]
  have c: "now \<le> en_now e" "clocked (en_now e) evs" using Cons.prems(3) unfolding ev clocked_Cons by auto
  have sil: "0 < rxFailoverSilence" by (simp add: rxFailoverSilence_def)
  have "rx_LockedSsrc (cm_rx m1) = s \<and> s \<noteq> 0 \<and> t \<le> rx_LockedLastNs (cm_rx m1) \<or> t + rxFailoverSilence < en_now e"
    and "handled_count m < handled_count m1 \<longrightarrow> far_from t s (en_now e, datagram_ssrc d)"
    using st c(1) Cons.prems(4,5) sil
    by (auto simp: rx_evolves_def quiet_step_def forward_step_def far_from_def split: if_split_asm)
  moreover have "rx_ok (cm_rx m1)" using st by (simp add: rx_evolves_def)
  ultimately have "\<forall>x\<in>set gs. far_from t s x" "handled_count m < handled_count m1 \<longrightarrow> far_from t s (en_now e, datagram_ssrc d)"
    using Cons.IH [OF m1(2) _ c(2)] Cons.prems(4) c(1) by auto
  then show ?case by (auto simp: fs)
qed simp

section \<open>Properties\<close>


definition sample_float :: "int float_ops" where
  "sample_float = \<lparr>fo_of_int = (\<lambda>i. i), fo_add = (+), fo_sub = (-), fo_mul = (*), fo_div = (\<lambda>a b. a div b), fo_uint32 = of_int\<rparr>"

definition sample_env :: "int \<Rightarrow> (string, string, int) env" where
  "sample_env t = \<lparr>en_lib = sample_lib, en_sock = sample_socket, en_float = sample_float, en_now = t, en_hasConn = True,
     en_seed = (\<lambda>_. (1, 1)), en_sid = (\<lambda>_. ''S'')\<rparr>"


text \<open>Admission of the packets of one stream.\<close>

fun admit_run :: "u32 \<Rightarrow> (int \<times> u16) list \<Rightarrow> rx_state \<Rightarrow> (u16 list \<times> rx_state) go" where
  "admit_run ssrc [] rx = Some ([], rx)"
| "admit_run ssrc ((now, sq) # ps) rx = do {
     (v, rx) \<leftarrow> rx_admit now ssrc sq rx;
     (as, rx) \<leftarrow> admit_run ssrc ps rx;
     Some (if v = Admit False then sq # as else as, rx) }"

lemma last_n_map: "last_n n (map g xs) = map g (last_n n xs)"
  by (simp add: last_n_def drop_map)

lemma admit_run_window:
  assumes "rx_ok rx" "rx_LockedSsrc rx = 0 \<or> rx_LockedSsrc rx = ssrc" "rx_window rx = map (dedup_key ssrc) (last_n 512 hist)"
  shows "\<exists>rx'. admit_run ssrc ps rx = Some (admitted_by 512 hist (map snd ps), rx')"
  using assms
proof (induction ps arbitrary: rx hist)
  case (Cons p ps)
  obtain now sq where p: "p = (now, sq)" by fastforce
  let ?rx = "if ssrc = rx_LockedSsrc rx then rx\<lparr>rx_LockedLastNs := now\<rparr> else rx"
  have w: "rx_window ?rx = rx_window rx" "rx_Dedup ?rx = rx_Dedup rx" "rx_LockedSsrc ?rx = rx_LockedSsrc rx" "rx_ok ?rx"
    using Cons.prems(1) by (auto simp: rx_window_def)
  have mem: "dedup_key ssrc sq \<in> rx_Dedup rx \<longleftrightarrow> sq \<in> set (last_n 512 hist)"
    using Cons.prems(1,3) by (auto simp: rx_ok_def dedup_key_inj)
  show ?case
  proof (cases "sq \<in> set (last_n 512 hist)")
    case True
    have "rx_admit now ssrc sq rx = Some (DropDuplicate, ?rx)" using True mem Cons.prems(2)
      by (cases "ssrc = rx_LockedSsrc rx") (auto simp: rx_admit_def lock_check_def Let_def)
    with Cons.IH [of ?rx hist] w Cons.prems True show ?thesis by (auto simp: p)
  next
    case False
    then obtain rx' where r: "dedup_insert (dedup_key ssrc sq) ?rx = Some rx'" using dedup_insert_total w(4) by blast
    then have a: "rx_admit now ssrc sq rx = Some (Admit False, rx')" using False mem Cons.prems(2)
      by (cases "ssrc = rx_LockedSsrc rx") (auto simp: rx_admit_def lock_check_def Let_def)
    note wi = window_insert [OF w(4) _ r]
    have "rx_window rx' = map (dedup_key ssrc) (last_n 512 (hist @ [sq]))"
      using wi(1) w False mem Cons.prems(3) by (simp flip: last_n_map add: last_n_step)
    with Cons.IH [of rx' "hist @ [sq]"] wi(2,3) w False mem Cons.prems(2) a show ?thesis by (auto simp: p)
  qed
qed simp

text \<open>
  Claim C26. Of the packets of the forwarded stream exactly those are dropped as relay copies whose
  sequence number is among the last 512 admitted ones; the admission never fails and the memory it
  keeps is that window.
\<close>

theorem relay_copies_dropped:
  assumes "rx_LockedSsrc rx = 0 \<or> rx_LockedSsrc rx = ssrc" "rx_ok rx" "rx_window rx = []"
  shows "\<exists>rx'. admit_run ssrc ps rx = Some (admitted_by 512 [] (map snd ps), rx')"
  using admit_run_window [OF assms(2,1), of "[]" ps] assms(3) by (simp add: last_n_def)

theorem relay_copies_dropped_witness:
  "\<exists>rx'. admit_run 9 [(1, 7), (2, 7), (3, 8)] emptyRx = Some ([7, 8], rx')"
proof -
  have "rx_window emptyRx = []" by (simp add: rx_window_def emptyRx_def)
  from relay_copies_dropped [OF _ rx_ok_empty this, of 9 "[(1, 7), (2, 7), (3, 8)]"]
  show ?thesis by (simp add: emptyRx_def last_n_def)
qed

end
