(* ===== verification/H264.thy ===== *)
theory H264
  imports Prelude
begin

text \<open>
  The H.264 RTP payload format: \<^verbatim>\<open>internal/voip/media/h264.go\<close>. Splitting an Annex-B byte stream
  into NAL units is modelled on indices, as written; the depacketizer is a record passed through
  \<open>Push\<close>. The lemmas show that an access unit of emulation-prevented NAL units survives
  packetization and reassembly, that no payload exceeds the configured size, and that splitting
  never slices out of range.
\<close>

definition naluTypeSTAPA :: u8 where "naluTypeSTAPA = 24"
definition naluTypeFUA :: u8 where "naluTypeFUA = 28"
definition h264MaxPayload :: nat where "h264MaxPayload = 1100"

section \<open>Annex-B\<close>

text \<open>The length of the start code at index \<open>i\<close>, 0 if there is none; asked only for \<open>i + 3 \<le> n\<close>.\<close>

definition startcode :: "bytes \<Rightarrow> nat \<Rightarrow> nat" where
  "startcode data i =
     (if data ! i = 0 \<and> data ! (i + 1) = 0 \<and> data ! (i + 2) = 1 then 3
      else if i + 4 \<le> length data \<and> data ! i = 0 \<and> data ! (i + 1) = 0 \<and> data ! (i + 2) = 0 \<and> data ! (i + 3) = 1 then 4
      else 0)"

function first_start :: "bytes \<Rightarrow> nat \<Rightarrow> nat option" where
  "first_start data i =
     (if i + 3 \<le> length data then
        if startcode data i \<noteq> 0 then Some (i + startcode data i) else first_start data (i + 1)
      else None)"
  by pat_completeness auto
termination by (relation "measure (\<lambda>(data, i). length data - i)") auto

definition appendNonEmpty :: "bytes list \<Rightarrow> bytes \<Rightarrow> bytes list" where
  "appendNonEmpty nals nal = (if length nal = 0 then nals else nals @ [nal])"

function split_nals :: "bytes \<Rightarrow> nat \<Rightarrow> nat \<Rightarrow> bytes list \<Rightarrow> bytes list go" where
  "split_nals data start i nals =
     (if i + 3 \<le> length data then
        if startcode data i \<noteq> 0 then do {
          nal \<leftarrow> slice data start i;
          split_nals data (i + startcode data i) (i + startcode data i) (appendNonEmpty nals nal) }
        else split_nals data start (i + 1) nals
      else do { nal \<leftarrow> slice data start (length data); Some (appendNonEmpty nals nal) })"
  by pat_completeness auto
termination by (relation "measure (\<lambda>(data, start, i, nals). length data - i)") auto

declare first_start.simps [simp del] split_nals.simps [simp del]

definition AnnexBNALUs :: "bytes \<Rightarrow> bytes list go" where
  "AnnexBNALUs data =
     (if length data = 0 then Some []
      else case first_start data 0 of
          None \<Rightarrow> Some [data]
        | Some start \<Rightarrow> split_nals data start start [])"

section \<open>Packetization\<close>

text \<open>The FU-A fragments of a NAL unit from offset \<open>i\<close> of its body on. The chunk size is positive.\<close>

function fu_packets :: "u8 \<Rightarrow> u8 \<Rightarrow> bytes \<Rightarrow> nat \<Rightarrow> nat \<Rightarrow> bytes list" where
  "fu_packets fuIndicator fuType body chunk i =
     (if i < length body \<and> 0 < chunk then
        let stop = (if i + chunk > length body then length body else i + chunk);
            fuHeader = fuType;
            fuHeader = (if i = 0 then fuHeader OR 0x80 else fuHeader);
            fuHeader = (if stop = length body then fuHeader OR 0x40 else fuHeader)
        in ([fuIndicator, fuHeader] @ take (stop - i) (drop i body)) #
           fu_packets fuIndicator fuType body chunk (i + chunk)
      else [])"
  by pat_completeness auto
termination by (relation "measure (\<lambda>(ind, ty, body, chunk, i). length body - i)") auto

declare fu_packets.simps [simp del]

definition nal_packets :: "nat \<Rightarrow> bytes \<Rightarrow> bytes list" where
  "nal_packets maxPayload nal =
     (if length nal \<le> maxPayload then [nal]
      else case nal of
          [] \<Rightarrow> []
        | nalHeader # body \<Rightarrow>
            fu_packets ((nalHeader AND 0xE0) OR naluTypeFUA) (nalHeader AND 0x1F) body (maxPayload - 2) 0)"

definition PacketizeH264 :: "bytes \<Rightarrow> int \<Rightarrow> bytes list go" where
  "PacketizeH264 annexb maxPayload =
     (let maxPayload = (if maxPayload \<le> 2 then h264MaxPayload else nat maxPayload)
      in do { nals \<leftarrow> AnnexBNALUs annexb; Some (concat (map (nal_packets maxPayload) nals)) })"

section \<open>Reassembly\<close>

record H264Depacketizer =
  d_fu :: bytes
  d_fuHdr :: bool
  d_au :: bytes
  d_hasKey :: bool

definition appendNAL :: "H264Depacketizer \<Rightarrow> bytes \<Rightarrow> H264Depacketizer" where
  "appendNAL d nal =
     (case nal of
        [] \<Rightarrow> d
      | h # _ \<Rightarrow>
          let t = h AND 0x1F;
              d = (if t = 5 \<or> t = 7 \<or> t = 8 then d\<lparr>d_hasKey := True\<rparr> else d)
          in d\<lparr>d_au := d_au d @ [0, 0, 0, 1] @ nal\<rparr>)"

definition flush :: "H264Depacketizer \<Rightarrow> bool \<Rightarrow> (bytes \<times> bool) option \<times> H264Depacketizer" where
  "flush d marker =
     (if \<not> marker \<or> length (d_au d) = 0 then (None, d)
      else (Some (d_au d, d_hasKey d), d\<lparr>d_au := [], d_hasKey := False\<rparr>))"

function stapa :: "H264Depacketizer \<Rightarrow> bytes \<Rightarrow> H264Depacketizer" where
  "stapa d buf =
     (case buf of
        a # b # buf' \<Rightarrow>
          let size = unat (join16 a b) in
          if size = 0 \<or> size > length buf' then d
          else stapa (appendNAL d (take size buf')) (drop size buf')
      | _ \<Rightarrow> d)"
  by pat_completeness auto
termination by (relation "measure (\<lambda>(d, buf). length buf)") auto

declare stapa.simps [simp del]

definition fua :: "H264Depacketizer \<Rightarrow> bytes \<Rightarrow> H264Depacketizer" where
  "fua d payload =
     (case payload of
        ind # fuHeader # rest \<Rightarrow>
          let start = (fuHeader AND 0x80 \<noteq> 0);
              stop = (fuHeader AND 0x40 \<noteq> 0);
              d = (if start then d\<lparr>d_fu := [(ind AND 0xE0) OR (fuHeader AND 0x1F)], d_fuHdr := True\<rparr> else d);
              d = (if d_fuHdr d then d\<lparr>d_fu := d_fu d @ rest\<rparr> else d)
          in if stop \<and> d_fuHdr d then (appendNAL d (d_fu d))\<lparr>d_fu := [], d_fuHdr := False\<rparr> else d
      | _ \<Rightarrow> d)"

text \<open>The result of \<open>Push\<close> is \<open>None\<close> when \<open>complete\<close> is false.\<close>

definition Push :: "H264Depacketizer \<Rightarrow> bytes \<Rightarrow> bool \<Rightarrow> (bytes \<times> bool) option \<times> H264Depacketizer" where
  "Push d payload marker =
     (case payload of
        [] \<Rightarrow> flush d marker
      | h # rest \<Rightarrow>
          let nalType = h AND 0x1F;
              d = (if nalType \<ge> 1 \<and> nalType \<le> 23 then appendNAL d payload
                   else if nalType = naluTypeSTAPA then stapa d rest
                   else if nalType = naluTypeFUA then fua d payload
                   else d)
          in flush d marker)"

definition new_depacketizer :: H264Depacketizer where
  "new_depacketizer = \<lparr>d_fu = [], d_fuHdr = False, d_au = [], d_hasKey = False\<rparr>"

section \<open>Splitting\<close>

text \<open>NAL units as an encoder emits them: not empty, no start code inside, no trailing zero byte.\<close>

definition nal_clean :: "bytes \<Rightarrow> bool" where
  "nal_clean n \<longleftrightarrow> n \<noteq> [] \<and> last n \<noteq> 0 \<and>
     (\<forall>k. k + 2 < length n \<longrightarrow> \<not> (n ! k = 0 \<and> n ! (k + 1) = 0 \<and> n ! (k + 2) = 1))"

definition annexb :: "bytes list \<Rightarrow> bytes" where
  "annexb nals = concat (map (\<lambda>n. [0, 0, 0, 1] @ n) nals)"

lemma no_startcode_inside:
  assumes "nal_clean n" "k < length n" "k + 3 \<le> length n + length rest"
  shows "startcode (pre @ n @ rest) (length pre + k) = 0"
proof -
  have at: "(pre @ n @ rest) ! (length pre + k + m) = (n @ rest) ! (k + m)" for m
    by (simp add: nth_append add.assoc)
  have l: "(n @ rest) ! j = n ! j" if "j < length n" for j using that by (simp add: nth_append)
  have last: "n ! (length n - 1) \<noteq> 0" using assms(1) by (auto simp: nal_clean_def last_conv_nth)
  have clean: "\<not> (n ! j = 0 \<and> n ! (j + 1) = 0 \<and> n ! (j + 2) = 1)" if "j + 2 < length n" for j
    using assms(1) that by (simp add: nal_clean_def)
  have no3: "\<not> ((n @ rest) ! k = 0 \<and> (n @ rest) ! (k + 1) = 0 \<and> (n @ rest) ! (k + 2) = 1)"
  proof -
    consider "k + 2 < length n" | "k + 1 = length n - 1" "k + 1 < length n" | "k = length n - 1"
      using assms(2) by linarith
    then show ?thesis
      by cases (use clean [of k] l last assms(2) in auto)
  qed
  have clean4: "\<not> (n ! (k + 1) = 0 \<and> n ! (k + 2) = 0 \<and> n ! (k + 3) = 1)" if "k + 3 < length n"
    using clean [of "k + 1"] that by (simp add: eval_nat_numeral)
  have no4: "\<not> ((n @ rest) ! k = 0 \<and> (n @ rest) ! (k + 1) = 0 \<and> (n @ rest) ! (k + 2) = 0 \<and> (n @ rest) ! (k + 3) = 1)"
  proof -
    consider "k + 3 < length n" | "k + 2 = length n - 1" "k + 2 < length n"
      | "k + 1 = length n - 1" "k + 1 < length n" | "k = length n - 1"
      using assms(2) by linarith
    then show ?thesis
      by cases (use clean4 l last assms(2) in auto)
  qed
  show ?thesis using no3 no4 at [of 0] at [of 1] at [of 2] at [of 3] by (simp add: startcode_def add.assoc)
qed

text \<open>Scanning a clean NAL unit changes nothing until the next start code or the end.\<close>

lemma split_nals_walk:
  assumes "nal_clean n" "k \<le> length n" "3 \<le> length rest"
  shows "split_nals (pre @ n @ rest) s (length pre + k) acc = split_nals (pre @ n @ rest) s (length pre + length n) acc"
  using assms(2)
proof (induction k rule: inc_induct)
  case (step k)
  have "split_nals (pre @ n @ rest) s (length pre + k) acc = split_nals (pre @ n @ rest) s (length pre + Suc k) acc"
    using assms step no_startcode_inside [OF assms(1), of k rest pre] by (subst split_nals.simps) simp
  with step show ?case by simp
qed simp

lemma split_nals_last:
  assumes "nal_clean n" "k \<le> length n"
  shows "split_nals (pre @ n) (length pre) (length pre + k) acc = Some (acc @ [n])"
  using assms(2)
proof (induction k rule: inc_induct)
  case base
  show ?case using assms(1)
    by (subst split_nals.simps) (auto simp: slice_def appendNonEmpty_def nal_clean_def)
next
  case (step k)
  show ?case
  proof (cases "k + 3 \<le> length n")
    case True
    with step no_startcode_inside [OF assms(1), of k "[]" pre] show ?thesis
      by (subst split_nals.simps) simp
  next
    case False
    then show ?thesis using assms(1)
      by (subst split_nals.simps) (auto simp: slice_def appendNonEmpty_def nal_clean_def)
  qed
qed

lemma startcode_at: "startcode (pre @ [0, 0, 0, 1] @ rest) (length pre) = 4"
  by (simp add: startcode_def nth_append)

lemma split_nals_annexb:
  "nal_clean n \<Longrightarrow> \<forall>m\<in>set ns. nal_clean m \<Longrightarrow>
   split_nals (pre @ n @ annexb ns) (length pre) (length pre) acc = Some (acc @ n # ns)"
proof (induction ns arbitrary: pre n acc)
  case Nil
  then show ?case using split_nals_last [of n 0 pre acc] by (simp add: annexb_def)
next
  case (Cons m ns)
  let ?rest = "[0, 0, 0, 1] @ m @ annexb ns"
  let ?data = "pre @ n @ ?rest" and ?i = "length pre + length n"
  have d: "annexb (m # ns) = ?rest" by (simp add: annexb_def)
  have "split_nals ?data (length pre) (length pre) acc = split_nals ?data (length pre) ?i acc"
    using split_nals_walk [OF Cons.prems(1), of 0 ?rest pre] by simp
  also have "\<dots> = split_nals ?data (?i + 4) (?i + 4) (acc @ [n])"
    using Cons.prems(1) startcode_at [of "pre @ n" "m @ annexb ns"]
    by (subst split_nals.simps) (auto simp: slice_def appendNonEmpty_def nal_clean_def)
  also have "\<dots> = Some (acc @ n # m # ns)"
    using Cons.IH [of m "pre @ n @ [0, 0, 0, 1]" "acc @ [n]"] Cons.prems(2) by (simp add: eval_nat_numeral)
  finally show ?case unfolding d .
qed

lemma AnnexBNALUs_annexb: "\<forall>n\<in>set nals. nal_clean n \<Longrightarrow> AnnexBNALUs (annexb nals) = Some nals"
proof (cases nals)
  case (Cons n ns)
  moreover assume "\<forall>n\<in>set nals. nal_clean n"
  moreover have "first_start ([0, 0, 0, 1] @ n @ annexb ns) 0 = Some 4"
    by (subst first_start.simps) (simp add: startcode_def)
  ultimately show ?thesis
    using split_nals_annexb [of n ns "[0, 0, 0, 1]" "[]"]
    by (simp add: AnnexBNALUs_def annexb_def eval_nat_numeral)
qed (simp add: AnnexBNALUs_def annexb_def)

text \<open>Splitting an arbitrary byte string stays within bounds and never yields an empty unit.\<close>

lemma split_nals_total:
  "start \<le> i \<Longrightarrow> i \<le> length data \<Longrightarrow> [] \<notin> set acc \<Longrightarrow> \<exists>nals. split_nals data start i acc = Some nals \<and> [] \<notin> set nals"
proof (induction data start i acc rule: split_nals.induct)
  case (1 data start i nals)
  have sc: "i + startcode data i \<le> length data" if "i + 3 \<le> length data"
    using that by (auto simp: startcode_def)
  have ne: "[] \<notin> set (appendNonEmpty nals x)" for x using "1.prems" by (auto simp: appendNonEmpty_def)
  show ?case
  proof (cases "i + 3 \<le> length data")
    case True
    show ?thesis
    proof (cases "startcode data i = 0")
      case False
      have s: "slice data start i = Some (take (i - start) (drop start data))"
        using "1.prems" by (simp add: slice_def)
      from "1.IH"(1) [OF True _ s] False sc [OF True] ne show ?thesis
        by (subst split_nals.simps) (simp add: True s)
    next
      case z: True
      from "1.IH"(2) [OF True] z "1.prems" True show ?thesis
        by (subst split_nals.simps) simp
    qed
  next
    case False
    with "1.prems" ne show ?thesis by (subst split_nals.simps) (simp add: slice_def)
  qed
qed

lemma first_start_bound: "first_start data i = Some s \<Longrightarrow> s \<le> length data"
proof (induction data i rule: first_start.induct)
  case (1 data i)
  have "i + 3 \<le> length data \<Longrightarrow> i + startcode data i \<le> length data" by (auto simp: startcode_def)
  with 1 show ?case by (subst (asm) first_start.simps) (auto split: if_split_asm)
qed

lemma AnnexBNALUs_total: "\<exists>nals. AnnexBNALUs data = Some nals \<and> [] \<notin> set nals"
  using split_nals_total [of _ _ data "[]"] first_start_bound [of data 0]
  by (auto simp: AnnexBNALUs_def split: option.split)

section \<open>Reassembly of packetized units\<close>

lemma u8_eqI: "(\<And>n. n \<in> {0, 1, 2, 3, 4, 5, 6, 7} \<Longrightarrow> bit x n = bit y n) \<Longrightarrow> x = y" for x y :: u8
proof (rule bit_word_eqI)
  fix n assume a: "\<And>n. n \<in> {0, 1, 2, 3, 4, 5, 6, 7} \<Longrightarrow> bit x n = bit y n" and "n < LENGTH(8)"
  then have "n < 8" by simp
  then have "n = 0 \<or> n = 1 \<or> n = 2 \<or> n = 3 \<or> n = 4 \<or> n = 5 \<or> n = 6 \<or> n = 7" by linarith
  then show "bit x n = bit y n" by (intro a) simp
qed

lemma fu_flag_bits: "w AND 0x80 \<noteq> 0 \<longleftrightarrow> bit w 7" "w AND 0x40 \<noteq> 0 \<longleftrightarrow> bit w 6" for w :: u8
  using and_exp_eq_0_iff_not_bit [of w 7] and_exp_eq_0_iff_not_bit [of w 6] by simp_all

lemma fu_header_bytes:
  fixes h :: u8
  shows "((h AND 0xE0) OR naluTypeFUA) AND 0x1F = naluTypeFUA"
    and "(((h AND 0xE0) OR naluTypeFUA) AND 0xE0) OR (h AND 0x1F) = h"
    and "(h AND 0x1F) AND 0x1F = h AND 0x1F"
    and "((h AND 0x1F) OR 0x80) AND 0x1F = h AND 0x1F"
    and "((h AND 0x1F) OR 0x40) AND 0x1F = h AND 0x1F"
    and "(((h AND 0x1F) OR 0x80) OR 0x40) AND 0x1F = h AND 0x1F"
  by (rule u8_eqI; auto simp: bit_simps naluTypeFUA_def)+

text \<open>Feeding payloads without completing the access unit.\<close>

definition feed :: "H264Depacketizer \<Rightarrow> bytes list \<Rightarrow> H264Depacketizer" where
  "feed d ps = foldl (\<lambda>d p. snd (Push d p False)) d ps"

lemma feed_simps [simp]:
  "feed d [] = d" "feed d (p # ps) = feed (snd (Push d p False)) ps" "feed d (ps @ qs) = feed (feed d ps) qs"
  by (simp_all add: feed_def)

lemma Push_marker: "Push d p m = flush (snd (Push d p False)) m"
  by (simp add: Push_def flush_def Let_def split: list.split)

lemma Push_unmarked: "fst (Push d p False) = None"
  by (simp add: Push_def flush_def Let_def split: list.split)

definition idle :: "H264Depacketizer \<Rightarrow> bool" where
  "idle d \<longleftrightarrow> d_fu d = [] \<and> \<not> d_fuHdr d"

lemma appendNAL_idle [simp]: "idle (appendNAL d n) = idle d"
  by (simp add: idle_def appendNAL_def Let_def split: list.split)

lemma appendNAL_fu:
  "idle d \<Longrightarrow> (appendNAL (d\<lparr>d_fuHdr := b, d_fu := x\<rparr>) n)\<lparr>d_fu := [], d_fuHdr := False\<rparr> = appendNAL d n"
  by (cases d) (auto simp: idle_def appendNAL_def Let_def split: list.split)

lemma Push_fua:
  "snd (Push d (((h AND 0xE0) OR naluTypeFUA) # fh # rest) False) = fua d (((h AND 0xE0) OR naluTypeFUA) # fh # rest)"
proof -
  have "(28 :: u8) \<le> 23 \<longleftrightarrow> False" by simp
  then show ?thesis
    by (simp add: Push_def flush_def fu_header_bytes(1)) (simp add: naluTypeFUA_def naluTypeSTAPA_def)
qed

lemma take_split: "i \<le> j \<Longrightarrow> take i xs @ take (j - i) (drop i xs) = take j xs"
  by (metis le_add_diff_inverse take_add)

lemma feed_fu_rest:
  assumes "idle d"
  shows "0 < i \<Longrightarrow> i < length body \<Longrightarrow> 0 < chunk \<Longrightarrow>
    feed (d\<lparr>d_fuHdr := True, d_fu := h # take i body\<rparr>)
      (fu_packets ((h AND 0xE0) OR naluTypeFUA) (h AND 0x1F) body chunk i) = appendNAL d (h # body)"
proof (induction "length body - i" arbitrary: i rule: less_induct)
  case less
  let ?ind = "(h AND 0xE0) OR naluTypeFUA" and ?ty = "h AND 0x1F"
  have b7: "\<not> bit ?ty 7" "\<not> bit ?ty 6" by (auto simp: bit_simps)
  let ?j = "i + chunk"
  show ?case
  proof (cases "?j < length body")
    case True
    then have p: "fu_packets ?ind ?ty body chunk i =
        (?ind # ?ty # take chunk (drop i body)) # fu_packets ?ind ?ty body chunk ?j"
      using less.prems by (subst fu_packets.simps) (simp add: Let_def)
    have t: "take i body @ take chunk (drop i body) = take ?j body" using take_split [of i ?j body] by simp
    show ?thesis
      using less.hyps [of ?j] True less.prems
      by (simp add: p Push_fua fua_def Let_def fu_flag_bits b7 t)
  next
    case False
    then have p: "fu_packets ?ind ?ty body chunk i = [?ind # (?ty OR 0x40) # drop i body]"
      using less.prems by (subst fu_packets.simps, subst fu_packets.simps [of _ _ _ _ "i + chunk"]) (auto simp: Let_def)
    have "bit (?ty OR 0x40) 6" "\<not> bit (?ty OR 0x40) 7" by (auto simp: bit_simps)
    with p appendNAL_fu [OF assms] show ?thesis
      by (simp add: Push_fua fua_def Let_def fu_flag_bits)
  qed
qed

lemma feed_fu:
  assumes "idle d" "body \<noteq> []" "0 < chunk"
  shows "feed d (fu_packets ((h AND 0xE0) OR naluTypeFUA) (h AND 0x1F) body chunk 0) = appendNAL d (h # body)"
proof (cases "chunk < length body")
  case True
  let ?ind = "(h AND 0xE0) OR naluTypeFUA" and ?ty = "h AND 0x1F"
  have p: "fu_packets ?ind ?ty body chunk 0 = (?ind # (?ty OR 0x80) # take chunk body) # fu_packets ?ind ?ty body chunk chunk"
    using True assms by (subst fu_packets.simps) (simp add: Let_def)
  have b: "bit (?ty OR 0x80) 7" "\<not> bit (?ty OR 0x80) 6" by (auto simp: bit_simps)
  show ?thesis
    using feed_fu_rest [OF assms(1) assms(3) True assms(3), of h] b
    by (simp add: p Push_fua fua_def Let_def fu_flag_bits fu_header_bytes)
next
  case False
  let ?ind = "(h AND 0xE0) OR naluTypeFUA" and ?ty = "h AND 0x1F"
  have p: "fu_packets ?ind ?ty body chunk 0 = [?ind # (?ty OR 0x80 OR 0x40) # body]"
  proof -
    have "fu_packets ?ind ?ty body chunk chunk = []" using False by (subst fu_packets.simps) simp
    then show ?thesis using False assms by (subst fu_packets.simps) (auto simp: Let_def or.assoc)
  qed
  have b: "bit (?ty OR 0x80 OR 0x40) 7" "bit (?ty OR 0x80 OR 0x40) 6" by (auto simp: bit_simps)
  show ?thesis
    using b appendNAL_fu [OF assms(1)] fu_header_bytes(6) [of h]
    by (simp add: p Push_fua fua_def Let_def fu_flag_bits fu_header_bytes or.assoc)
qed

definition nal_type :: "bytes \<Rightarrow> u8" where
  "nal_type n = hd n AND 0x1F"

definition nal_ok :: "bytes \<Rightarrow> bool" where
  "nal_ok n \<longleftrightarrow> nal_clean n \<and> 1 \<le> nal_type n \<and> nal_type n \<le> 23"

definition is_key :: "bytes \<Rightarrow> bool" where
  "is_key n \<longleftrightarrow> nal_type n \<in> {5, 7, 8}"

lemma feed_nal:
  assumes "idle d" "nal_ok n" "2 < mp"
  shows "feed d (nal_packets mp n) = appendNAL d n"
proof -
  obtain h body where n: "n = h # body" using assms(2) by (cases n) (auto simp: nal_ok_def nal_clean_def)
  show ?thesis
  proof (cases "length n \<le> mp")
    case True
    with assms(2) show ?thesis
      by (simp add: n nal_packets_def Push_def flush_def nal_ok_def nal_type_def Let_def)
  next
    case False
    then have "body \<noteq> []" using n assms(3) by auto
    with False feed_fu [OF assms(1), of body "mp - 2" h] assms(3) show ?thesis
      by (simp add: n nal_packets_def)
  qed
qed

lemma feed_nals:
  "idle d \<Longrightarrow> \<forall>n\<in>set nals. nal_ok n \<Longrightarrow> 2 < mp \<Longrightarrow>
   feed d (concat (map (nal_packets mp) nals)) = foldl appendNAL d nals"
  by (induction nals arbitrary: d) (auto simp: feed_nal)

lemma appendNAL_foldl:
  "\<forall>n\<in>set nals. nal_ok n \<Longrightarrow>
   foldl appendNAL d nals = d\<lparr>d_au := d_au d @ annexb nals, d_hasKey := (d_hasKey d \<or> (\<exists>n\<in>set nals. is_key n))\<rparr>"
proof (induction nals arbitrary: d)
  case (Cons n nals)
  have "appendNAL d n = d\<lparr>d_au := d_au d @ [0, 0, 0, 1] @ n, d_hasKey := (d_hasKey d \<or> is_key n)\<rparr>"
    using Cons.prems by (cases n) (auto simp: appendNAL_def nal_ok_def nal_clean_def is_key_def nal_type_def Let_def)
  with Cons show ?case by (simp add: annexb_def)
qed (simp add: annexb_def)

text \<open>Pushing the payloads of one access unit, the marker set on the last.\<close>

fun push_all :: "H264Depacketizer \<Rightarrow> bytes list \<Rightarrow> (bytes \<times> bool) option list" where
  "push_all d [] = []"
| "push_all d [p] = [fst (Push d p True)]"
| "push_all d (p # q # ps) = fst (Push d p False) # push_all (snd (Push d p False)) (q # ps)"

lemma push_all_feed:
  "ps \<noteq> [] \<Longrightarrow> push_all d ps = replicate (length ps - 1) None @ [fst (flush (feed d ps) True)]"
proof (induction d ps rule: push_all.induct)
  case (2 d p)
  then show ?case by (simp add: Push_marker [of d p True])
qed (simp_all add: Push_unmarked)

lemma nal_packets_nonempty: "nal_ok n \<Longrightarrow> 2 < mp \<Longrightarrow> nal_packets mp n \<noteq> []"
proof -
  assume a: "nal_ok n" "2 < mp"
  then obtain h body where n: "n = h # body" by (cases n) (auto simp: nal_ok_def nal_clean_def)
  show "nal_packets mp n \<noteq> []"
  proof (cases "length n \<le> mp")
    case False
    then have "0 < length body" using n a by auto
    with False a show ?thesis by (simp add: n nal_packets_def fu_packets.simps [of _ _ _ _ 0] Let_def)
  qed (simp add: nal_packets_def)
qed

lemma fu_packets_sizes:
  "p \<in> set (fu_packets ind ty body chunk i) \<Longrightarrow> 2 < length p \<and> length p \<le> chunk + 2"
proof (induction ind ty body chunk i rule: fu_packets.induct)
  case (1 ind ty body chunk i)
  show ?case
  proof (cases "i < length body \<and> 0 < chunk")
    case True
    from "1.prems" True consider "length p = 2 + ((if i + chunk > length body then length body else i + chunk) - i)"
      | "p \<in> set (fu_packets ind ty body chunk (i + chunk))"
      by (subst (asm) fu_packets.simps) (auto simp: Let_def)
    then show ?thesis using "1.IH" [OF True] True by cases auto
  next
    case False
    with "1.prems" show ?thesis by (subst (asm) fu_packets.simps) simp
  qed
qed

section \<open>Properties\<close>

text \<open>
  Claim C33. An access unit of emulation-prevented NAL units of types 1 to 23, packetized for any
  payload size and pushed into a fresh depacketizer with the marker on the last payload, completes
  exactly once, at the last payload, with the same Annex-B access unit, and is flagged as a key
  frame exactly if it contains an IDR, SPS or PPS unit.
\<close>

theorem h264_access_unit_roundtrip:
  assumes "\<forall>n\<in>set nals. nal_ok n" "nals \<noteq> []"
  shows "\<exists>ps. PacketizeH264 (annexb nals) maxPayload = Some ps \<and> ps \<noteq> [] \<and>
    push_all new_depacketizer ps = replicate (length ps - 1) None @ [Some (annexb nals, \<exists>n\<in>set nals. is_key n)]"
proof -
  define mp where "mp = (if maxPayload \<le> 2 then h264MaxPayload else nat maxPayload)"
  have mp: "2 < mp" by (auto simp: mp_def h264MaxPayload_def)
  let ?ps = "concat (map (nal_packets mp) nals)"
  have "AnnexBNALUs (annexb nals) = Some nals"
    using assms(1) by (intro AnnexBNALUs_annexb) (auto simp: nal_ok_def)
  then have p: "PacketizeH264 (annexb nals) maxPayload = Some ?ps"
    by (simp add: PacketizeH264_def Let_def flip: mp_def)
  have ne: "?ps \<noteq> []" using assms nal_packets_nonempty [OF _ mp] by (cases nals) auto
  have "feed new_depacketizer ?ps = foldl appendNAL new_depacketizer nals"
    using assms(1) mp by (intro feed_nals) (auto simp: idle_def new_depacketizer_def)
  moreover have "annexb nals \<noteq> []" using assms(2) by (cases nals) (auto simp: annexb_def)
  ultimately show ?thesis
    using p ne appendNAL_foldl [OF assms(1), of new_depacketizer]
    by (intro exI [of _ ?ps]) (simp add: push_all_feed flush_def new_depacketizer_def)
qed

theorem h264_access_unit_roundtrip_witness:
  "\<exists>ps. PacketizeH264 [0, 0, 0, 1, 0x67, 1, 2, 3, 4, 5, 0, 0, 0, 1, 0x65, 9] 4 = Some ps \<and>
     push_all new_depacketizer ps =
       replicate (length ps - 1) None @ [Some ([0, 0, 0, 1, 0x67, 1, 2, 3, 4, 5, 0, 0, 0, 1, 0x65, 9], True)]"
proof -
  let ?n = "[[0x67, 1, 2, 3, 4, 5], [0x65, 9]] :: bytes list"
  have ok: "\<forall>n\<in>set ?n. nal_ok n"
    by (auto simp: nal_ok_def nal_clean_def nal_type_def nth_Cons split: nat.split)
  from h264_access_unit_roundtrip [OF ok, of 4] show ?thesis
    by (auto simp: annexb_def is_key_def nal_type_def)
qed

text \<open>
  Packetizing an arbitrary byte string never slices out of range, and every payload is
  non-empty and at most the payload size long (the default one if the argument is 2 or less).
\<close>

theorem h264_payload_bound:
  "\<exists>ps. PacketizeH264 data maxPayload = Some ps \<and>
     (\<forall>p\<in>set ps. 0 < length p \<and> length p \<le> (if maxPayload \<le> 2 then h264MaxPayload else nat maxPayload))"
proof -
  define mp where "mp = (if maxPayload \<le> 2 then h264MaxPayload else nat maxPayload)"
  have mp: "2 < mp" by (auto simp: mp_def h264MaxPayload_def)
  obtain nals where n: "AnnexBNALUs data = Some nals" "[] \<notin> set nals" using AnnexBNALUs_total by blast
  have "0 < length p \<and> length p \<le> mp" if "p \<in> set (nal_packets mp m)" "m \<noteq> []" for p m
  proof -
    have "p \<in> set (fu_packets ind ty b (mp - 2) 0) \<Longrightarrow> 0 < length p \<and> length p \<le> mp" for ind ty b
      using fu_packets_sizes [of p ind ty b "mp - 2" 0] mp by linarith
    with that show ?thesis by (cases m) (auto simp: nal_packets_def split: if_split_asm)
  qed
  with n show ?thesis
    unfolding PacketizeH264_def Let_def mp_def [symmetric] by auto
qed

theorem h264_payload_bound_witness:
  "\<exists>ps. PacketizeH264 [0, 0, 1, 0x65, 9] 0 = Some ps \<and> (\<forall>p\<in>set ps. length p \<le> 1100)"
  using h264_payload_bound [of "[0, 0, 1, 0x65, 9]" 0] by (auto simp: h264MaxPayload_def)

end
