(* ===== verification/Call_Tx.thy ===== *)
theory Call_Tx
  imports Call_Rx H264
begin

text \<open>
  The call manager's outgoing media: \<open>sendAudioFrame\<close> of \<^verbatim>\<open>callmanager_media.go\<close>, \<open>sendVideoFrame\<close> of
  \<^verbatim>\<open>callmanager_video.go\<close> and the RTCP emitters of \<^verbatim>\<open>callmanager_rtcp.go\<close>, each under the manager's lock.
  The lemmas show which packets go out and that every RTCP packet of a call is protected under its
  own SRTCP index.
\<close>

section \<open>Audio and video\<close>

definition note_audio_sent :: "RtpPacket \<Rightarrow> 'f rtcp_state \<Rightarrow> 'f rtcp_state" where
  "note_audio_sent pkt r = r\<lparr>rt_packetsSent := rt_packetsSent r + 1,
     rt_octetsSent := rt_octetsSent r + of_nat (length (rp_Payload pkt)), rt_lastTs := rh_Timestamp (rp_Header pkt)\<rparr>"

definition with_debe :: "bool \<Rightarrow> RtpPacket \<Rightarrow> RtpPacket" where
  "with_debe enabled pkt = (if enabled
     then pkt\<lparr>rp_Header := (rp_Header pkt)\<lparr>rh_Extension := True, rh_ExtensionProfile := 0xbede, rh_ExtensionData := []\<rparr>\<rparr>
     else pkt)"

definition sendAudioFrame ::
  "bytes \<Rightarrow> int \<Rightarrow> ('j, 'f) CallManager \<Rightarrow> (ManagerError option \<times> ('j, 'f) CallManager) go" where
  "sendAudioFrame encoded frameSamples m = (case (cm_rtpSession m, cm_srtp m) of
      (Some sess, Some srtp) \<Rightarrow> do {
        let marker = (\<not> cm_firstPacketSent m);
        let m = (if marker then observe (ObMark ''media.first_packet'') m else m);
        let (pkt, sess) = CreatePacketWithDuration sess encoded frameSamples marker;
        let pkt = with_debe (cm_debeEnabled m) pkt;
        (r, srtp) \<leftarrow> Manager_Protect srtp (Some pkt);
        let m = m\<lparr>cm_rtpSession := Some sess, cm_firstPacketSent := True, cm_rtcp := note_audio_sent pkt (cm_rtcp m),
          cm_srtp := Some srtp\<rparr>;
        Some (case r of Inl er \<Rightarrow> (Some er, m) | Inr protected \<Rightarrow> (None, relay (Broadcast protected) m)) }
    | _ \<Rightarrow> Some (None, m))"

text \<open>The packets of one frame; a failed protection stops it.\<close>

fun send_payloads ::
  "u32 \<Rightarrow> bytes list \<Rightarrow> RtpSession \<Rightarrow> SrtpManager \<Rightarrow> (ManagerError option \<times> bytes list \<times> RtpSession \<times> SrtpManager) go" where
  "send_payloads ts [] sess srtp = Some (None, [], sess, srtp)"
| "send_payloads ts (p # ps) sess srtp = do {
     let (pkt, sess) = CreatePacketAt sess p ts (ps = []);
     (r, srtp) \<leftarrow> Manager_Protect srtp (Some pkt);
     case r of
       Inl er \<Rightarrow> Some (Some er, [], sess, srtp)
     | Inr protected \<Rightarrow> do {
         (er, rest, sess, srtp) \<leftarrow> send_payloads ts ps sess srtp;
         Some (er, protected # rest, sess, srtp) } }"

definition note_video_sent :: "nat \<Rightarrow> nat \<Rightarrow> u32 \<Rightarrow> 'f rtcp_state \<Rightarrow> 'f rtcp_state" where
  "note_video_sent packets octets ts r = r\<lparr>rt_videoPacketsSent := rt_videoPacketsSent r + of_nat packets,
     rt_videoOctetsSent := rt_videoOctetsSent r + of_nat octets, rt_lastVideoTs := ts\<rparr>"

definition sendVideoFrame ::
  "('j, 'e, 'f) env \<Rightarrow> bytes \<Rightarrow> u32 \<Rightarrow> ('j, 'f) CallManager \<Rightarrow> (ManagerError option \<times> ('j, 'f) CallManager) go" where
  "sendVideoFrame e frame ts90 m = (case (vs_session (cm_video m), cm_srtp m) of
      (Some sess, Some srtp) \<Rightarrow>
        if \<not> en_hasConn e then Some (None, m)
        else do {
          payloads \<leftarrow> PacketizeH264 frame 0;
          if payloads = [] then Some (None, m)
          else do {
            (er, out, sess, srtp) \<leftarrow> send_payloads ts90 payloads sess srtp;
            let m = fold (\<lambda>b. relay (Broadcast b)) out
              (m\<lparr>cm_video := (cm_video m)\<lparr>vs_session := Some sess\<rparr>, cm_srtp := Some srtp\<rparr>);
            Some (er, if er = None
              then m\<lparr>cm_video := (cm_video m)\<lparr>vs_firstSent := True\<rparr>,
                     cm_rtcp := note_video_sent (length payloads) (length frame) ts90 (cm_rtcp m)\<rparr>
              else m) } }
    | _ \<Rightarrow> Some (None, m))"

section \<open>RTCP\<close>

definition nextSrtcpIndex :: "('j, 'f) CallManager \<Rightarrow> u32 \<times> ('j, 'f) CallManager" where
  "nextSrtcpIndex m = (rt_txIndex (cm_rtcp m), m\<lparr>cm_rtcp := (cm_rtcp m)\<lparr>rt_txIndex := rt_txIndex (cm_rtcp m) + 1\<rparr>\<rparr>)"

definition protectAndBroadcast :: "SrtcpContext \<Rightarrow> bytes \<Rightarrow> ('j, 'f) CallManager \<Rightarrow> ('j, 'f) CallManager go" where
  "protectAndBroadcast ctx rtcp m = do {
     let (i, m) = nextSrtcpIndex m;
     r \<leftarrow> SrtcpContext_Protect ctx rtcp i;
     Some (case r of Inl _ \<Rightarrow> m | Inr protected \<Rightarrow> relay (Broadcast protected) m) }"

text \<open>Sending one packet for the audio stream and, when there is one, one for the video stream.\<close>

definition emit_pair :: "(u32 \<Rightarrow> bytes) \<Rightarrow> bytes \<Rightarrow> ('j, 'f) CallManager \<Rightarrow> ('j, 'f) CallManager go" where
  "emit_pair video audio m = (case rt_sendSrtcp (cm_rtcp m) of
      None \<Rightarrow> Some m
    | Some ctx \<Rightarrow> do {
        m \<leftarrow> protectAndBroadcast ctx audio m;
        if vs_selfSsrc (cm_video m) \<noteq> 0 then protectAndBroadcast ctx (video (vs_selfSsrc (cm_video m))) m else Some m })"

definition emitRtcp208 :: "('j, 'f) CallManager \<Rightarrow> ('j, 'f) CallManager go" where
  "emitRtcp208 m = emit_pair (\<lambda>v. BuildCompact208 v (rt_lastVideoTs (cm_rtcp m))) (BuildCompact208 (cm_selfSsrc m) (rt_lastTs (cm_rtcp m))) m"

definition emitRtcp209 :: "('j, 'f) CallManager \<Rightarrow> ('j, 'f) CallManager go" where
  "emitRtcp209 m = emit_pair BuildCompact209 (BuildCompact209 (cm_selfSsrc m)) m"

definition report_for :: "('j, 'e, 'f) env \<Rightarrow> u32 \<Rightarrow> ('j, 'f) CallManager \<Rightarrow> RTCPReportBlock option \<times> ('j, 'f) CallManager" where
  "report_for e peer m = (case rt_recvStats (cm_rtcp m) of
      Some st \<Rightarrow> if peer \<noteq> 0
        then (case ReportBlock (en_float e) st peer (of_int (unix_ms e)) of
                (b, st) \<Rightarrow> (Some b, m\<lparr>cm_rtcp := (cm_rtcp m)\<lparr>rt_recvStats := Some st\<rparr>\<rparr>))
        else (None, m)
    | None \<Rightarrow> (None, m))"

definition emitRtcpSR :: "('j, 'e, 'f) env \<Rightarrow> ('j, 'f) CallManager \<Rightarrow> ('j, 'f) CallManager go" where
  "emitRtcpSR e m = (case rt_sendSrtcp (cm_rtcp m) of
      None \<Rightarrow> Some m
    | Some ctx \<Rightarrow> do {
        let now = of_int (unix_ms e);
        let cname = bytes_of_string (rt_cname (cm_rtcp m));
        let r = cm_rtcp m;
        let (rb, m) = report_for e (firstSsrc (cm_peerSsrcs m)) m;
        m \<leftarrow> protectAndBroadcast ctx (BuildRTCPCompound (cm_selfSsrc m)
               \<lparr>st_PacketsSent = rt_packetsSent r, st_OctetsSent = rt_octetsSent r, st_RtpTimestamp = rt_lastTs r\<rparr> rb cname now) m;
        if vs_selfSsrc (cm_video m) \<noteq> 0 then do {
          let (vrb, m) = report_for e (vs_peerSsrc (cm_video m)) m;
          protectAndBroadcast ctx (BuildRTCPCompound (vs_selfSsrc (cm_video m))
            \<lparr>st_PacketsSent = rt_videoPacketsSent r, st_OctetsSent = rt_videoOctetsSent r, st_RtpTimestamp = rt_lastVideoTs r\<rparr>
            vrb cname now) m
        } else Some m })"

text \<open>One tick of \<open>runRtcpTx\<close>, and the loop over the ticks that come before it is stopped.\<close>

datatype rtcp_tick = Tick208 | TickSR | Tick209

fun rtcp_tick_step :: "('j, 'e, 'f) env \<Rightarrow> rtcp_tick \<Rightarrow> ('j, 'f) CallManager \<Rightarrow> ('j, 'f) CallManager go" where
  "rtcp_tick_step e Tick208 m = emitRtcp208 m"
| "rtcp_tick_step e TickSR m = emitRtcpSR e m"
| "rtcp_tick_step e Tick209 m = emitRtcp209 m"

fun runRtcpTx :: "(('j, 'e, 'f) env \<times> rtcp_tick) list \<Rightarrow> ('j, 'f) CallManager \<Rightarrow> ('j, 'f) CallManager go" where
  "runRtcpTx [] m = Some m"
| "runRtcpTx ((e, t) # ts) m = do { m \<leftarrow> rtcp_tick_step e t m; runRtcpTx ts m }"

section \<open>What the peer reads\<close>

text \<open>The packets a tick stands for, before protection, and the receiver statistics after it.\<close>

definition with_video :: "('j, 'f) CallManager \<Rightarrow> bytes \<Rightarrow> bytes list" where
  "with_video m p = (if vs_selfSsrc (cm_video m) \<noteq> 0 then [p] else [])"

definition sender_report :: "('j, 'e, 'f) env \<Rightarrow> u32 \<Rightarrow> RTCPSenderStats \<Rightarrow> RTCPReportBlock option \<Rightarrow> ('j, 'f) CallManager \<Rightarrow> bytes" where
  "sender_report e ssrc s rb m = BuildRTCPCompound ssrc s rb (bytes_of_string (rt_cname (cm_rtcp m))) (of_int (unix_ms e))"

definition audio_stats :: "'f rtcp_state \<Rightarrow> RTCPSenderStats" where
  "audio_stats r = \<lparr>st_PacketsSent = rt_packetsSent r, st_OctetsSent = rt_octetsSent r, st_RtpTimestamp = rt_lastTs r\<rparr>"

definition video_stats :: "'f rtcp_state \<Rightarrow> RTCPSenderStats" where
  "video_stats r = \<lparr>st_PacketsSent = rt_videoPacketsSent r, st_OctetsSent = rt_videoOctetsSent r, st_RtpTimestamp = rt_lastVideoTs r\<rparr>"

fun tick_plain :: "('j, 'e, 'f) env \<Rightarrow> rtcp_tick \<Rightarrow> ('j, 'f) CallManager \<Rightarrow> bytes list \<times> ('j, 'f) CallManager" where
  "tick_plain e Tick208 m =
     (BuildCompact208 (cm_selfSsrc m) (rt_lastTs (cm_rtcp m)) #
        with_video m (BuildCompact208 (vs_selfSsrc (cm_video m)) (rt_lastVideoTs (cm_rtcp m))), m)"
| "tick_plain e Tick209 m = (BuildCompact209 (cm_selfSsrc m) # with_video m (BuildCompact209 (vs_selfSsrc (cm_video m))), m)"
| "tick_plain e TickSR m =
     (let (rb, m1) = report_for e (firstSsrc (cm_peerSsrcs m)) m;
          (vrb, m2) = (if vs_selfSsrc (cm_video m) \<noteq> 0 then report_for e (vs_peerSsrc (cm_video m)) m1 else (None, m1))
      in (sender_report e (cm_selfSsrc m) (audio_stats (cm_rtcp m)) rb m #
            with_video m (sender_report e (vs_selfSsrc (cm_video m)) (video_stats (cm_rtcp m)) vrb m), m2))"

fun plain_run :: "(('j, 'e, 'f) env \<times> rtcp_tick) list \<Rightarrow> ('j, 'f) CallManager \<Rightarrow> bytes list" where
  "plain_run [] m = []"
| "plain_run ((e, t) # ts) m = (case tick_plain e t m of (ps, m) \<Rightarrow> ps @ plain_run ts m)"

text \<open>Protecting a list of packets one after the other.\<close>

fun protect_all :: "SrtcpContext \<Rightarrow> bytes list \<Rightarrow> ('j, 'f) CallManager \<Rightarrow> ('j, 'f) CallManager go" where
  "protect_all ctx [] m = Some m"
| "protect_all ctx (p # ps) m = do { m \<leftarrow> protectAndBroadcast ctx p m; protect_all ctx ps m }"

definition sealed :: "SrtcpContext \<Rightarrow> u32 \<Rightarrow> bytes \<Rightarrow> bytes" where
  "sealed c i p = (case SrtcpContext_Protect c p i of Some (Inr b) \<Rightarrow> b | _ \<Rightarrow> [])"

fun sealed_from :: "SrtcpContext \<Rightarrow> u32 \<Rightarrow> bytes list \<Rightarrow> bytes list" where
  "sealed_from c i [] = []"
| "sealed_from c i (p # ps) = sealed c i p # sealed_from c (i + 1) ps"

definition advance :: "nat \<Rightarrow> 'f rtcp_state \<Rightarrow> 'f rtcp_state" where
  "advance n r = r\<lparr>rt_txIndex := rt_txIndex r + of_nat n\<rparr>"

lemma Protect_sealed:
  assumes "srtcp_ok c" "8 \<le> length p"
  shows "SrtcpContext_Protect c p i = Some (Inr (sealed c i p))"
proof -
  obtain ssrc where "be_uint32 p 4 = Some ssrc" using assms(2) by (simp add: be_uint32_nth)
  from SrtcpContext_Protect_bytes [OF assms this] show ?thesis by (simp add: sealed_def)
qed

lemma protectAndBroadcast_sealed:
  assumes "srtcp_ok c" "8 \<le> length p"
  shows "protectAndBroadcast c p m =
    Some (m\<lparr>cm_rtcp := advance 1 (cm_rtcp m), cm_out := cm_out m @ [Relay (Broadcast (sealed c (rt_txIndex (cm_rtcp m)) p))]\<rparr>)"
  by (simp add: protectAndBroadcast_def nextSrtcpIndex_def Protect_sealed [OF assms] advance_def emit_def)

lemma advance_advance [simp]: "advance i (advance j r) = advance (j + i) r"
  by (simp add: advance_def algebra_simps)

lemma advance_0 [simp]: "advance 0 r = r"
  by (simp add: advance_def)

lemma advance_index [simp]: "rt_txIndex (advance n r) = rt_txIndex r + of_nat n"
  by (simp add: advance_def)

lemma protect_all_sealed:
  assumes "srtcp_ok c" "list_all (\<lambda>p. 8 \<le> length p) ps"
  shows "protect_all c ps m =
    Some (m\<lparr>cm_rtcp := advance (length ps) (cm_rtcp m),
      cm_out := cm_out m @ map (\<lambda>b. Relay (Broadcast b)) (sealed_from c (rt_txIndex (cm_rtcp m)) ps)\<rparr>)"
  using assms(2)
  by (induction ps arbitrary: m) (simp_all add: protectAndBroadcast_sealed [OF assms(1)])

text \<open>Effect of protecting \<open>bs\<close>: it commutes with reading the receiver statistics.\<close>

definition bump :: "bytes list \<Rightarrow> ('j, 'f) CallManager \<Rightarrow> ('j, 'f) CallManager" where
  "bump bs m = m\<lparr>cm_rtcp := advance (length bs) (cm_rtcp m), cm_out := cm_out m @ map (\<lambda>b. Relay (Broadcast b)) bs\<rparr>"

lemma length_sealed_from [simp]: "length (sealed_from c i ps) = length ps"
  by (induction ps arbitrary: i) simp_all

lemma protect_all_bump:
  "srtcp_ok c \<Longrightarrow> list_all (\<lambda>p. 8 \<le> length p) ps \<Longrightarrow> protect_all c ps m = Some (bump (sealed_from c (rt_txIndex (cm_rtcp m)) ps) m)"
  by (simp add: protect_all_sealed bump_def)

lemma advance_fields [simp]:
  "rt_recvStats (advance n r) = rt_recvStats r" "rt_cname (advance n r) = rt_cname r"
  "rt_sendSrtcp (advance n r) = rt_sendSrtcp r" "audio_stats (advance n r) = audio_stats r" "video_stats (advance n r) = video_stats r"
  "rt_lastTs (advance n r) = rt_lastTs r" "rt_lastVideoTs (advance n r) = rt_lastVideoTs r"
  "advance n (r\<lparr>rt_recvStats := x\<rparr>) = (advance n r)\<lparr>rt_recvStats := x\<rparr>"
  by (simp_all add: advance_def audio_stats_def video_stats_def)

lemma bump_fields [simp]:
  "cm_rtcp (bump bs m) = advance (length bs) (cm_rtcp m)" "cm_video (bump bs m) = cm_video m"
  "cm_selfSsrc (bump bs m) = cm_selfSsrc m" "cm_peerSsrcs (bump bs m) = cm_peerSsrcs m"
  "cm_out (bump bs m) = cm_out m @ map (\<lambda>b. Relay (Broadcast b)) bs"
  "bump as (bump bs m) = bump (bs @ as) m"
  by (simp_all add: bump_def add.commute)

lemma report_for_bump: "report_for e p (bump bs m) = (case report_for e p m of (rb, m1) \<Rightarrow> (rb, bump bs m1))"
  by (simp add: report_for_def bump_def split: option.split prod.split)

lemma report_for_fields:
  assumes "report_for e p m = (rb, m1)"
  shows "cm_video m1 = cm_video m" "cm_selfSsrc m1 = cm_selfSsrc m" "cm_out m1 = cm_out m"
    "rt_txIndex (cm_rtcp m1) = rt_txIndex (cm_rtcp m)" "rt_sendSrtcp (cm_rtcp m1) = rt_sendSrtcp (cm_rtcp m)"
    "rt_cname (cm_rtcp m1) = rt_cname (cm_rtcp m)"
  using assms by (auto simp: report_for_def split: option.split_asm prod.split_asm if_split_asm)

lemma tick_plain_fields:
  assumes "tick_plain e t m = (ps, m1)"
  shows "cm_out m1 = cm_out m \<and> rt_txIndex (cm_rtcp m1) = rt_txIndex (cm_rtcp m) \<and>
    rt_sendSrtcp (cm_rtcp m1) = rt_sendSrtcp (cm_rtcp m)"
proof (cases t)
  case TickSR
  obtain rb n where r: "report_for e (firstSsrc (cm_peerSsrcs m)) m = (rb, n)" by fastforce
  obtain vrb n' where v: "report_for e (vs_peerSsrc (cm_video m)) n = (vrb, n')" by fastforce
  show ?thesis using assms TickSR r v report_for_fields [OF r] report_for_fields [OF v] by (simp split: if_split_asm)
qed (use assms in auto)

lemma sender_report_bump [simp]: "sender_report e s st rb (bump bs m) = sender_report e s st rb m"
  by (simp add: sender_report_def)

lemma with_video_bump [simp]: "with_video (bump bs m) p = with_video m p"
  by (simp add: with_video_def)

lemma tick_plain_bump: "tick_plain e t (bump bs m) = (case tick_plain e t m of (ps, m1) \<Rightarrow> (ps, bump bs m1))"
  by (cases t) (simp_all add: report_for_bump Let_def split: prod.split)

lemma plain_run_bump [simp]: "plain_run ts (bump bs m) = plain_run ts m"
  by (induction ts arbitrary: m) (auto simp: tick_plain_bump split: prod.split)

lemma plain_lengths:
  "8 \<le> length (BuildCompact208 a b)" "8 \<le> length (BuildCompact209 a)" "8 \<le> length (sender_report e s st rb m)"
  by (simp_all add: BuildCompact208_def BuildCompact209_def sender_report_def BuildRTCPCompound_def length_SR)

lemma tick_plain_long: "tick_plain e t m = (ps, m1) \<Longrightarrow> list_all (\<lambda>p. 8 \<le> length p) ps"
  by (cases t) (auto simp: with_video_def plain_lengths split: prod.split_asm if_split_asm)

lemma sender_report_fold:
  "BuildRTCPCompound s \<lparr>st_PacketsSent = rt_packetsSent r, st_OctetsSent = rt_octetsSent r, st_RtpTimestamp = rt_lastTs r\<rparr> rb
     (bytes_of_string (rt_cname (cm_rtcp m))) (of_int (unix_ms e)) = sender_report e s (audio_stats r) rb m"
  "BuildRTCPCompound s \<lparr>st_PacketsSent = rt_videoPacketsSent r, st_OctetsSent = rt_videoOctetsSent r, st_RtpTimestamp = rt_lastVideoTs r\<rparr> rb
     (bytes_of_string (rt_cname (cm_rtcp m))) (of_int (unix_ms e)) = sender_report e s (video_stats r) rb m"
  by (simp_all add: sender_report_def audio_stats_def video_stats_def)

lemma protect_one:
  assumes "srtcp_ok c" "8 \<le> length p"
  shows "protectAndBroadcast c p m = Some (bump [sealed c (rt_txIndex (cm_rtcp m)) p] m)"
  using protect_all_bump [OF assms(1), of "[p]" m] assms(2) by (simp split: Option.bind_splits)

lemma rtcp_tick_plain:
  assumes "rt_sendSrtcp (cm_rtcp m) = Some c" "srtcp_ok c" "tick_plain e t m = (ps, m1)"
  shows "rtcp_tick_step e t m = protect_all c ps m1"
proof (cases t)
  case TickSR
  obtain rb n where r: "report_for e (firstSsrc (cm_peerSsrcs m)) m = (rb, n)" by fastforce
  obtain vrb n' where v: "report_for e (vs_peerSsrc (cm_video m)) n = (vrb, n')" by fastforce
  show ?thesis using assms TickSR r v report_for_fields [OF r] report_for_fields [OF v]
    by (auto simp: emitRtcpSR_def sender_report_fold with_video_def protect_one plain_lengths report_for_bump Let_def
        split: if_split_asm)
qed (use assms in \<open>auto simp: emitRtcp208_def emitRtcp209_def emit_pair_def with_video_def protect_one plain_lengths\<close>)

lemma sealed_from_append:
  "sealed_from c i (ps @ qs) = sealed_from c i ps @ sealed_from c (i + of_nat (length ps)) qs"
  by (induction ps arbitrary: i) (simp_all add: algebra_simps)

text \<open>A manager that differs from another in its receiver statistics only, as far as sending RTCP goes.\<close>

definition same_tx :: "('j, 'f) CallManager \<Rightarrow> ('j, 'f) CallManager \<Rightarrow> bool" where
  "same_tx m n \<longleftrightarrow> cm_out n = cm_out m \<and> rt_txIndex (cm_rtcp n) = rt_txIndex (cm_rtcp m)"

lemma runRtcpTx_sealed:
  assumes "rt_sendSrtcp (cm_rtcp m) = Some c" "srtcp_ok c"
  shows "\<exists>n. runRtcpTx ts m = Some (bump (sealed_from c (rt_txIndex (cm_rtcp m)) (plain_run ts m)) n) \<and> same_tx m n"
  using assms(1)
proof (induction ts arbitrary: m)
  case Nil
  show ?case by (auto simp: bump_def same_tx_def intro!: exI [of _ m])
next
  case (Cons et ts)
  obtain e t where et: "et = (e, t)" by force
  obtain ps m1 where p: "tick_plain e t m = (ps, m1)" by force
  note f = tick_plain_fields [OF p]
  let ?i = "rt_txIndex (cm_rtcp m)"
  have s: "rtcp_tick_step e t m = Some (bump (sealed_from c ?i ps) m1)"
    using rtcp_tick_plain [OF Cons.prems assms(2) p] protect_all_bump [OF assms(2) tick_plain_long [OF p], of m1] f by simp
  obtain n where "runRtcpTx ts (bump (sealed_from c ?i ps) m1) =
      Some (bump (sealed_from c (?i + of_nat (length ps)) (plain_run ts m1)) n)" "same_tx (bump (sealed_from c ?i ps) m1) n"
    using Cons.IH [of "bump (sealed_from c ?i ps) m1"] Cons.prems f by auto
  then show ?case using s p f
    by (intro exI [of _ "n\<lparr>cm_rtcp := (cm_rtcp n)\<lparr>rt_txIndex := ?i\<rparr>, cm_out := cm_out m\<rparr>"])
      (auto simp: et same_tx_def bump_def sealed_from_append advance_def algebra_simps)
qed

lemma length_plain_run: "length (plain_run ts m) \<le> 2 * length ts"
proof (induction ts arbitrary: m)
  case (Cons et ts)
  obtain e t where et: "et = (e, t)" by force
  obtain ps m1 where p: "tick_plain e t m = (ps, m1)" by force
  have "length ps \<le> 2" using p by (cases t) (auto simp: with_video_def split: prod.split_asm if_split_asm)
  then show ?case using Cons.IH [of m1] by (simp add: et p)
qed simp

lemma plain_run_long: "list_all (\<lambda>p. 8 \<le> length p) (plain_run ts m)"
  by (induction ts arbitrary: m) (auto dest: tick_plain_long split: prod.split)

text \<open>The index word of a protected packet: the four bytes before its 10-byte tag.\<close>

definition index_word :: "bytes \<Rightarrow> u32 go" where
  "index_word b = be_uint32 b (length b - 14)"

lemma sealed_from_read:
  assumes "srtcp_ok c" "list_all (\<lambda>p. 8 \<le> length p) ps" "unat i + length ps \<le> 2 ^ 31"
  shows "map (SrtcpContext_Unprotect c) (sealed_from c i ps) = map (\<lambda>p. Some (Inr p)) ps"
    and "map index_word (sealed_from c i ps) = map (\<lambda>k. Some (srtcpEncryptedFlag OR (i + of_nat k))) [0..<length ps]"
  using assms(2,3)
proof (induction ps arbitrary: i)
  case (Cons p ps)
  { case 1
    have "unat (i + 1) \<le> unat i + 1" by (metis unat_1 unat_plus_if_size le_refl add_leD1 diff_le_self)
    with 1 Cons.IH(1) [of "i + 1"] srtcp_protect_unprotect [OF assms(1), of p i] show ?case
      by (auto simp: sealed_def) }
  { case 2
    have "unat (i + 1) \<le> unat i + 1" by (metis unat_1 unat_plus_if_size le_refl add_leD1 diff_le_self)
    with 2 Cons.IH(2) [of "i + 1"] srtcp_protect_unprotect [OF assms(1), of p i] show ?case
      by (auto simp: sealed_def index_word_def map_upt_Suc algebra_simps simp del: upt_Suc) }
qed simp_all

section \<open>Properties\<close>

text \<open>
  Claim C22. While the SRTCP index stays below \<open>2^31\<close>, any sequence of RTCP ticks of a call with keys
  runs without failing and hands the relay exactly one protected packet for each report of the
  sequence (audio, and video when there is a video stream): the packets carry consecutive indices
  from the current one, so no index is used twice, and a peer with the same keying material
  recovers the reports in order.
\<close>

theorem rtcp_reports_reach_peer:
  assumes "NewSrtcpContext keying = Some (Inr c)" "rt_sendSrtcp (cm_rtcp m) = Some c"
    and "unat (rt_txIndex (cm_rtcp m)) + 2 * length ticks \<le> 2 ^ 31"
  shows "\<exists>m' bs. runRtcpTx ticks m = Some m' \<and> cm_out m' = cm_out m @ map (\<lambda>b. Relay (Broadcast b)) bs \<and>
    map (SrtcpContext_Unprotect c) bs = map (\<lambda>p. Some (Inr p)) (plain_run ticks m) \<and>
    map index_word bs = map (\<lambda>k. Some (srtcpEncryptedFlag OR (rt_txIndex (cm_rtcp m) + of_nat k))) [0..<length bs] \<and>
    rt_txIndex (cm_rtcp m') = rt_txIndex (cm_rtcp m) + of_nat (length bs)"
proof -
  let ?i = "rt_txIndex (cm_rtcp m)" and ?ps = "plain_run ticks m"
  note ok = NewSrtcpContext_ok [OF assms(1)]
  obtain n where n: "runRtcpTx ticks m = Some (bump (sealed_from c ?i ?ps) n)" "same_tx m n"
    using runRtcpTx_sealed [OF assms(2) ok] by blast
  have "unat ?i + length ?ps \<le> 2 ^ 31" using assms(3) length_plain_run [of ticks m] by simp
  note r = sealed_from_read [OF ok plain_run_long this]
  show ?thesis using n r
    by (intro exI [of _ "bump (sealed_from c ?i ?ps) n"] exI [of _ "sealed_from c ?i ?ps"]) (simp add: same_tx_def)
qed

theorem rtcp_reports_reach_peer_witness:
  "\<exists>c m' bs. NewSrtcpContext sample_keying = Some (Inr c) \<and>
     runRtcpTx [(sample_env 5, Tick208), (sample_env 6, Tick209)]
       ((NewCallManager [])\<lparr>cm_rtcp := emptyRtcp\<lparr>rt_sendSrtcp := Some c, rt_txIndex := 4\<rparr>\<rparr>) = Some m' \<and>
     cm_out m' = map (\<lambda>b. Relay (Broadcast b)) bs \<and>
     map (SrtcpContext_Unprotect c) bs = [Some (Inr (BuildCompact208 0 0)), Some (Inr (BuildCompact209 0))] \<and>
     rt_txIndex (cm_rtcp m') = 6"
proof -
  obtain c where c: "NewSrtcpContext sample_keying = Some (Inr c)"
    using NewSrtcpContext_total [of sample_keying] by (auto simp: keying_ok_def sample_keying_def)
  let ?m = "(NewCallManager [])\<lparr>cm_rtcp := emptyRtcp\<lparr>rt_sendSrtcp := Some c, rt_txIndex := 4\<rparr>\<rparr>"
  let ?ts = "[(sample_env 5, Tick208), (sample_env 6, Tick209)]"
  have m: "rt_sendSrtcp (cm_rtcp ?m) = Some c" "rt_txIndex (cm_rtcp ?m) = 4" "cm_out ?m = []"
      "plain_run ?ts ?m = [BuildCompact208 0 0, BuildCompact209 0]"
    by (simp_all add: NewCallManager_def emptyRtcp_def with_video_def emptyVideo_def)
  obtain m' bs where r: "runRtcpTx ?ts ?m = Some m'" "cm_out m' = map (\<lambda>b. Relay (Broadcast b)) bs"
      "map (SrtcpContext_Unprotect c) bs = map (\<lambda>p. Some (Inr p)) [BuildCompact208 0 0, BuildCompact209 0]"
      "rt_txIndex (cm_rtcp m') = 4 + of_nat (length bs)"
    using rtcp_reports_reach_peer [OF c m(1), of ?ts] unfolding m(2-4) by (simp del: runRtcpTx.simps list.map) blast
  from arg_cong [OF r(3), of length] have "length bs = 2" by simp
  with c r show ?thesis by (intro exI [of _ c] exI [of _ m'] exI [of _ bs]) (simp del: runRtcpTx.simps)
qed

end
