(* ===== verification/Call_Control.thy ===== *)
theory Call_Control
  imports Call_Manager
begin

text \<open>
  The call manager's handlers: \<^verbatim>\<open>callmanager.go\<close> (start, accept, reject, end),
  \<^verbatim>\<open>callmanager_signaling.go\<close> (stanzas from the peer), \<^verbatim>\<open>callmanager_relay.go\<close> and
  \<^verbatim>\<open>callmanager_timeout.go\<close> (relay events and watchdog), \<^verbatim>\<open>callmanager_video.go\<close> (mid-call video), hold
  and resume. Each is a function of the environment and the manager. The decryption in
  \<open>HandleCallAccept\<close> runs without the lock; a parameter stands for what other handlers do to
  the manager meanwhile. The source keeps a pointer to the call over that time; the model reads the
  manager's call again, which is the same one because a manager gets its call once, when the client
  registers it.
\<close>

text \<open>The string constant behind each call state.\<close>

fun state_name :: "CallState \<Rightarrow> string" where
  "state_name CallStateInitiating = ''initiating''"
| "state_name CallStateRinging = ''ringing''"
| "state_name CallStateIncomingRinging = ''incoming_ringing''"
| "state_name CallStateConnecting = ''connecting''"
| "state_name CallStateActive = ''active''"
| "state_name CallStateOnHold = ''on_hold''"
| "state_name CallStateReconnecting = ''reconnecting''"
| "state_name CallStateEnded = ''ended''"

datatype 'e call_error =
    CallError string
  | BuildFailed "'e build_error"
  | SocketFailed 'e
  | Refused InvalidTransition

abbreviation ignoring :: "Transition \<Rightarrow> int \<Rightarrow> ('j, 'f) CallManager \<Rightarrow> ('j, 'f) CallManager" where
  "ignoring t now m \<equiv> (case applyCall t now m of Some m' \<Rightarrow> m' | None \<Rightarrow> m)"

definition startWatchdog :: "('j, 'f) CallManager \<Rightarrow> ('j, 'f) CallManager" where
  "startWatchdog m = m\<lparr>cm_watchdog := True\<rparr>"

definition jid_of :: "('j, 'e, 'f) env \<Rightarrow> string \<Rightarrow> 'j" where
  "jid_of e s = MustJID (en_lib e) s"

definition set_self_session :: "('j, 'e, 'f) env \<Rightarrow> u32 \<Rightarrow> ('j, 'f) CallManager \<Rightarrow> ('j, 'f) CallManager" where
  "set_self_session e ssrc m = replaceRtpSession (Some (opus_session e ssrc)) (m\<lparr>cm_selfSsrc := ssrc\<rparr>)"

section \<open>Starting, answering and ending\<close>

definition begin_outgoing :: "('j, 'e, 'f) env \<Rightarrow> string \<Rightarrow> 'j \<Rightarrow> bool \<Rightarrow> bytes \<Rightarrow> ('j, 'f) CallManager \<Rightarrow> ('j, 'f) CallManager" where
  "begin_outgoing e callID resolved video callKey m =
     (let self = ownCredJid e; peer = jid_String (en_lib e) resolved;
          call = (NewOutgoingCall callID peer self (if video then CallMediaTypeVideo else CallMediaTypeAudio) (en_now e))
            \<lparr>ci_EncryptionKey := Some callKey\<rparr>;
          m = m\<lparr>cm_currentCall := Some call, cm_initialTransportSent := False, cm_outgoingPreacceptSent := False\<rparr>;
          m = set_self_session e (GenerateSecureSsrc callID self 0) m;
          m = m\<lparr>cm_peerSsrcs := [GenerateSecureSsrc callID peer 0]\<rparr>
      in if video then deriveVideoSsrcs e callID self peer m else m)"

definition StartCall ::
  "('j, 'e, 'f) env \<Rightarrow> string \<Rightarrow> 'j \<Rightarrow> bool \<Rightarrow> bytes \<Rightarrow> ('j, 'f) CallManager \<Rightarrow> 'e call_error option \<times> ('j, 'f) CallManager" where
  "StartCall e callID peerJid video callKey m =
     (if (\<exists>c. cm_currentCall m = Some c \<and> \<not> IsEnded c) then (Some (CallError ''a call is already in progress''), m)
      else
        (let resolved = so_ResolveLIDForPN (en_sock e) peerJid;
             m = begin_outgoing e callID resolved video callKey m
         in case BuildOfferStanza (en_lib e) (en_sock e) (en_sid e 0) callID callKey resolved video of
              Inl er \<Rightarrow> (Some (BuildFailed er), m)
            | Inr (offer, devices) \<Rightarrow>
                (let m = emit (SendNode offer) (m\<lparr>cm_calleeDevices := devices\<rparr>) in
                 case so_Query (en_sock e) offer of
                   Inl er \<Rightarrow> (Some (SocketFailed er), m)
                 | Inr ack \<Rightarrow>
                     (let m = emitState (ignoring (transition TransitionOfferSent) (en_now e) m);
                          m = (case ack of Some a \<Rightarrow> emit (Go (TaskHandleCallAck a)) m | None \<Rightarrow> m)
                      in (None, startWatchdog m)))))"

text \<open>Device identities and SSRCs from a list of participants.\<close>

definition adopt_self :: "('j, 'e, 'f) env \<Rightarrow> string \<Rightarrow> string \<Rightarrow> ('j, 'f) CallManager \<Rightarrow> ('j, 'f) CallManager" where
  "adopt_self e callID ourDeviceJid m =
     (let newSelf = GenerateSecureSsrc callID ourDeviceJid 0
      in if newSelf \<noteq> cm_selfSsrc m then set_self_session e newSelf m else m)"

definition adopt_participants ::
  "('j, 'e, 'f) env \<Rightarrow> bool \<Rightarrow> CallInfo \<Rightarrow> string list \<Rightarrow> ('j, 'f) CallManager \<Rightarrow> ('j, 'f) CallManager" where
  "adopt_participants e setActual call participants m =
     (let ourDeviceJid = our_device e participants;
          m = adopt_self e (ci_CallID call) ourDeviceJid m;
          peer = firstPeerDevice participants (CleanJID (ownCredJid e));
          peerDeviceJid = (if peer \<noteq> '''' then ensureDeviceJid peer else '''');
          m = (if peer \<noteq> ''''
               then m\<lparr>cm_peerSsrcs := [GenerateSecureSsrc (ci_CallID call) peerDeviceJid 0],
                      cm_actualPeerSet := cm_actualPeerSet m \<or> setActual\<rparr>
               else m);
          m = rememberDeviceJids ourDeviceJid peerDeviceJid m
      in if ci_MediaType call = CallMediaTypeVideo then deriveVideoSsrcs e (ci_CallID call) ourDeviceJid peerDeviceJid m else m)"

definition setupIncomingMedia :: "('j, 'e, 'f) env \<Rightarrow> CallInfo \<Rightarrow> RelayData \<Rightarrow> ('j, 'f) CallManager \<Rightarrow> ('j, 'f) CallManager" where
  "setupIncomingMedia e call relayData m =
     (let m = (if rd_ParticipantJids relayData \<noteq> [] then adopt_participants e True call (rd_ParticipantJids relayData) m else m);
          m = relay (SetSubscriptionSsrc (firstSsrc (cm_peerSsrcs m))) m
      in initSrtpKeys e (applyStreamSsrcs m))"

definition send_accept :: "('j, 'e, 'f) env \<Rightarrow> CallInfo \<Rightarrow> ('j, 'f) CallManager \<Rightarrow> ('j, 'f) CallManager" where
  "send_accept e call m = (case ci_EncryptionKey call of
      None \<Rightarrow> m
    | Some key \<Rightarrow>
        (case BuildAcceptStanza (en_lib e) (en_sock e) (en_sid e 0) (ci_CallID call) key (jid_of e (ci_PeerJid call))
                (jid_of e (ci_CallCreator call)) (ci_MediaType call = CallMediaTypeVideo) of
           Inl _ \<Rightarrow> m
         | Inr node \<Rightarrow> emit (SendNode node) m))"

definition AcceptCall :: "('j, 'e, 'f) env \<Rightarrow> string \<Rightarrow> ('j, 'f) CallManager \<Rightarrow> 'e call_error option \<times> ('j, 'f) CallManager" where
  "AcceptCall e callID m = (case cm_currentCall m of
      None \<Rightarrow> (Some (CallError (''no incoming call with id '' @ callID)), m)
    | Some call \<Rightarrow>
        if ci_CallID call \<noteq> callID then (Some (CallError (''no incoming call with id '' @ callID)), m)
        else if \<not> CanAccept call then (Some (CallError (''call cannot be accepted in state '' @ state_name (call_state call))), m)
        else
          (let m = emitState (ignoring (transition TransitionLocalAccepted) (en_now e) m);
               m = send_accept e call m
           in (None, (case ci_RelayData call of
                 None \<Rightarrow> m
               | Some rd \<Rightarrow> connectRelays (rd_Endpoints rd) (setupIncomingMedia e call rd m)))))"

definition RejectCall ::
  "('j, 'e, 'f) env \<Rightarrow> string \<Rightarrow> EndCallReason \<Rightarrow> ('j, 'f) CallManager \<Rightarrow> 'e call_error option \<times> ('j, 'f) CallManager" where
  "RejectCall e callID reason m = (case cm_currentCall m of
      None \<Rightarrow> (Some (CallError (''no call with id '' @ callID)), m)
    | Some call \<Rightarrow>
        if ci_CallID call \<noteq> callID then (Some (CallError (''no call with id '' @ callID)), m)
        else (case ApplyTransition call (transition_reason TransitionLocalRejected reason) (en_now e) of
            Inl er \<Rightarrow> (Some (Refused er), m)
          | Inr call' \<Rightarrow>
              (let m = emitState (m\<lparr>cm_currentCall := Some call'\<rparr>);
                   node = BuildRejectStanza (en_sid e 0) (jid_of e (ci_PeerJid call)) (ci_CallID call) (jid_of e (ci_CallCreator call))
               in (None, cleanupMedia (emit (Go (TaskSignaling node)) m)))))"

definition answer_dest :: "CallInfo \<Rightarrow> ('j, 'f) CallManager \<Rightarrow> string" where
  "answer_dest call m = (if cm_acceptedByJid m \<noteq> '''' then cm_acceptedByJid m else ci_PeerJid call)"

text \<open>The current call as the callbacks see it.\<close>

definition announce_end :: "('j, 'f) CallManager \<Rightarrow> ('j, 'f) CallManager" where
  "announce_end m = (case cm_currentCall m of Some c \<Rightarrow> emit (OnEnded c) m | None \<Rightarrow> m)"

definition EndCall :: "('j, 'e, 'f) env \<Rightarrow> EndCallReason \<Rightarrow> ('j, 'f) CallManager \<Rightarrow> ('j, 'f) CallManager" where
  "EndCall e reason m = (case cm_currentCall m of
      None \<Rightarrow> m
    | Some call \<Rightarrow>
        if IsEnded call then m
        else
          (let node = BuildTerminateStanza (en_sid e 0) (jid_of e (answer_dest call m)) (ci_CallID call) (jid_of e (ci_CallCreator call));
               m = emitState (ignoring (transition_reason TransitionTerminated reason) (en_now e) m)
           in cleanupMedia (announce_end (emit (Go (TaskSignaling node)) m))))"

definition HandleCallTerminate :: "('j, 'e, 'f) env \<Rightarrow> 'j node \<Rightarrow> ('j, 'f) CallManager \<Rightarrow> ('j, 'f) CallManager" where
  "HandleCallTerminate e node m = (case cm_currentCall m of
      None \<Rightarrow> m
    | Some call \<Rightarrow>
        (let sender = AttrString (en_lib e) (nd_Attrs node) ''from'' in
         if cm_acceptedByJid m \<noteq> '''' \<and> sender \<noteq> '''' \<and> sender \<noteq> cm_acceptedByJid m \<and> \<not> IsEnded call then m
         else
           (let reason = (case ExtractNodeInfo (en_lib e) node of
                  None \<Rightarrow> EndCallReasonUserEnded
                | Some info \<Rightarrow> attrStringOr (en_lib e) (nd_Attrs (ni_InnerNode info)) ''reason'' EndCallReasonUserEnded);
                m = emitState (ignoring (transition_reason TransitionTerminated reason) (en_now e) m)
            in cleanupMedia (announce_end m))))"

section \<open>Stanzas from the peer\<close>

definition relay_data_of :: "ParsedRelayAck \<Rightarrow> RelayData" where
  "relay_data_of p = \<lparr>rd_Endpoints = pa_Relays p, rd_ParticipantJids = pa_ParticipantJids p, rd_UUID = pa_UUID p,
     rd_SelfPid = pa_SelfPid p, rd_PeerPid = pa_PeerPid p, rd_HbhKey = pa_HbhKey p\<rparr>"

definition bare_relay_data :: "RelayEndpoint list \<Rightarrow> RelayData" where
  "bare_relay_data eps = \<lparr>rd_Endpoints = eps, rd_ParticipantJids = [], rd_UUID = '''', rd_SelfPid = None,
     rd_PeerPid = None, rd_HbhKey = None\<rparr>"

text \<open>Relays of an offer: the attribute form, else the structured one.\<close>

definition offer_relays :: "('j, 'e, 'f) env \<Rightarrow> 'j node \<Rightarrow> RelayData option go" where
  "offer_relays e inner =
     (let relays = ExtractRelayEndpoints (en_lib e) inner in
      if relays \<noteq> [] then Some (Some (bare_relay_data relays))
      else do {
        p \<leftarrow> ParseRelayFromAck (en_lib e) inner;
        Some (if pa_Relays p \<noteq> [] then Some (relay_data_of p) else None) })"

definition HandleCallOffer ::
  "('j, 'e, 'f) env \<Rightarrow> 'j node \<Rightarrow> 'j \<Rightarrow> bytes option \<Rightarrow> ('j, 'f) CallManager \<Rightarrow> ('j, 'f) CallManager go" where
  "HandleCallOffer e node peerJid callKey m = (case ExtractNodeInfo (en_lib e) node of
      None \<Rightarrow> Some m
    | Some info \<Rightarrow> do {
        let peer = jid_String (en_lib e) peerJid;
        let creator = attrStringOr (en_lib e) (nd_Attrs (ni_InnerNode info)) ''call-creator'' peer;
        rd \<leftarrow> offer_relays e (ni_InnerNode info);
        let video = OfferHasVideo (Some (ni_InnerNode info));
        let call = (NewIncomingCall (ni_CallID info) peer creator ''''
            (if video then CallMediaTypeVideo else CallMediaTypeAudio) (en_now e))
              \<lparr>ci_EncryptionKey := callKey, ci_RelayData := rd\<rparr>;
        let self = ownCredJid e;
        let m = m\<lparr>cm_currentCall := Some call, cm_initialTransportSent := False\<rparr>;
        let m = set_self_session e (GenerateSecureSsrc (ni_CallID info) self 0) m;
        let m = m\<lparr>cm_peerSsrcs := [GenerateSecureSsrc (ni_CallID info) peer 0]\<rparr>;
        let m = (if video then deriveVideoSsrcs e (ni_CallID info) self peer m else m);
        let m = emit (SendNode (BuildPreacceptStanza (en_sid e 0) peerJid (ni_CallID info) (jid_of e creator) video)) m;
        Some (startWatchdog (emitState (emit (OnIncoming call) m))) })"

definition sendTransportUpdate :: "('j, 'e, 'f) env \<Rightarrow> 'j \<Rightarrow> 'j \<Rightarrow> string \<Rightarrow> ('j, 'f) CallManager \<Rightarrow> ('j, 'f) CallManager" where
  "sendTransportUpdate e peer creator callID m = emit (SendNode
     (Node ''call'' [(''to'', AStringer peer), (''id'', AStr (en_sid e 1))]
       (CNodes [Node ''transport'' (call_attrs callID creator @
          [(''transport-message-type'', AStr ''1''), (''p2p-cand-round'', AStr ''1'')])
          (CNodes [net_node [(''medium'', AStr ''2''), (''protocol'', AStr ''0'')]])]))) m"

text \<open>The accept handler in its locked sections. The first decides whether the stanza is considered.\<close>

definition accept_foreign :: "string \<Rightarrow> ('j, 'f) CallManager \<Rightarrow> bool" where
  "accept_foreign peer m \<longleftrightarrow> cm_acceptedByJid m \<noteq> '''' \<and> cm_acceptedByJid m \<noteq> peer"

definition accept_rekey :: "('j, 'e, 'f) env \<Rightarrow> 'j \<Rightarrow> 'e + bytes option \<Rightarrow> ('j, 'f) CallManager \<Rightarrow> ('j, 'f) CallManager" where
  "accept_rekey e peerJid key m = (case key of
      Inr (Some peerKey) \<Rightarrow> (case cm_currentCall m of
          None \<Rightarrow> m
        | Some call \<Rightarrow> (case ci_EncryptionKey call of
              None \<Rightarrow> m
            | Some k \<Rightarrow> if \<not> IsEnded call \<and> \<not> equalBytes k peerKey then reinitSrtp e peerKey peerJid m else m))
    | _ \<Rightarrow> m)"

definition accept_streams :: "('j, 'e, 'f) env \<Rightarrow> CallInfo \<Rightarrow> string \<Rightarrow> ('j, 'f) CallManager \<Rightarrow> ('j, 'f) CallManager" where
  "accept_streams e call peer m =
     (let our = ensureDeviceJid (ownCredJid e); peerDev = ensureDeviceJid peer;
          m = m\<lparr>cm_acceptedByJid := peer, cm_peerSsrcs := [GenerateSecureSsrc (ci_CallID call) peerDev 0]\<rparr>;
          m = rememberDeviceJids our peerDev m;
          m = (if ci_MediaType call = CallMediaTypeVideo then deriveVideoSsrcs e (ci_CallID call) our peerDev m else m);
          m = relay (SetSubscriptionSsrc (firstSsrc (cm_peerSsrcs m))) m
      in initSrtpKeys e (applyStreamSsrcs m))"

definition accept_siblings :: "('j, 'e, 'f) env \<Rightarrow> 'j \<Rightarrow> ('j, 'f) CallManager \<Rightarrow> 'j list" where
  "accept_siblings e peerJid m =
     (if cm_acceptedByJid m = ''''
      then filter (\<lambda>dev. jid_String (en_lib e) dev \<noteq> jid_String (en_lib e) peerJid) (cm_calleeDevices m) else [])"

definition accept_replies ::
  "('j, 'e, 'f) env \<Rightarrow> 'j node \<Rightarrow> 'j \<Rightarrow> CallInfo \<Rightarrow> 'j list \<Rightarrow> ('j, 'f) CallManager \<Rightarrow> ('j, 'f) CallManager" where
  "accept_replies e node peerJid call siblings m =
     (let creator = jid_of e (ci_CallCreator call); callID = ci_CallID call;
          m = relay ResendSubscriptions m;
          m = (if siblings \<noteq> []
               then emit (SendNode (BuildTerminateElsewhereStanza (en_sid e 0) (jid_of e (ci_PeerJid call)) callID creator siblings)) m
               else m);
          m = sendTransportUpdate e peerJid creator callID m;
          m = emit (SendNode (BuildMuteV2Stanza (en_sid e 2) peerJid callID creator 0)) m;
          acceptMsgID = AttrString (en_lib e) (nd_Attrs node) ''id''
      in if acceptMsgID \<noteq> ''''
         then emit (SendNode (BuildAcceptReceiptStanza peerJid acceptMsgID callID creator (own_jid (en_lib e) (en_sock e)))) m
         else m)"

definition accept_connect :: "('j, 'e, 'f) env \<Rightarrow> RelayData option \<Rightarrow> ('j, 'f) CallManager \<Rightarrow> ('j, 'f) CallManager" where
  "accept_connect e relayData m =
     (if en_hasConn e
      then (case applyCall (transition TransitionMediaConnected) (en_now e) m of
              Some m' \<Rightarrow> maybeStartRtcpTx (emitState m') | None \<Rightarrow> m)
      else (case relayData of Some rd \<Rightarrow> connectRelays (rd_Endpoints rd) m | None \<Rightarrow> m))"

definition accept_commit :: "('j, 'e, 'f) env \<Rightarrow> 'j node \<Rightarrow> 'j \<Rightarrow> ('j, 'f) CallManager \<Rightarrow> ('j, 'f) CallManager" where
  "accept_commit e node peerJid m = (case cm_currentCall m of
      None \<Rightarrow> m
    | Some call \<Rightarrow>
        if IsEnded call then m
        else
          (let m' = emitState (ignoring (transition TransitionRemoteAccepted) (en_now e) m);
               m' = accept_streams e call (jid_String (en_lib e) peerJid) m';
               m' = accept_replies e node peerJid call (accept_siblings e peerJid m) m'
           in accept_connect e (ci_RelayData call) m'))"

definition HandleCallAccept ::
  "('j, 'e, 'f) env \<Rightarrow> (('j, 'f) CallManager \<Rightarrow> ('j, 'f) CallManager) \<Rightarrow> 'j node \<Rightarrow> 'j \<Rightarrow> ('j, 'f) CallManager \<Rightarrow> ('j, 'f) CallManager" where
  "HandleCallAccept e meanwhile node peerJid m =
     (if accept_foreign (jid_String (en_lib e) peerJid) m then m
      else case (cm_currentCall m, ExtractNodeInfo (en_lib e) node) of
        (Some _, Some info) \<Rightarrow>
          (let m = (if NeedsDecryption (ni_Tag info)
                    then accept_rekey e peerJid
                      (DecryptCallKeyInNode (en_lib e) (so_DecryptCallKey (en_sock e)) (ni_InnerNode info) peerJid) (meanwhile m)
                    else meanwhile m)
           in accept_commit e node peerJid m)
      | _ \<Rightarrow> m)"

text \<open>Relay data of a transport stanza: endpoints replaced, other fields filled where still empty.\<close>

definition merge_relay_data :: "RelayEndpoint list \<Rightarrow> ParsedRelayAck option \<Rightarrow> RelayData option \<Rightarrow> RelayData" where
  "merge_relay_data relays structured old =
     (let rd = (case old of Some r \<Rightarrow> r | None \<Rightarrow> bare_relay_data [])\<lparr>rd_Endpoints := relays\<rparr> in
      case structured of
        None \<Rightarrow> rd
      | Some p \<Rightarrow> rd\<lparr>rd_HbhKey := (if rd_HbhKey rd = None then pa_HbhKey p else rd_HbhKey rd),
          rd_ParticipantJids := (if rd_ParticipantJids rd = [] then pa_ParticipantJids p else rd_ParticipantJids rd),
          rd_UUID := (if rd_UUID rd = '''' then pa_UUID p else rd_UUID rd),
          rd_SelfPid := (if rd_SelfPid rd = None then pa_SelfPid p else rd_SelfPid rd),
          rd_PeerPid := (if rd_PeerPid rd = None then pa_PeerPid p else rd_PeerPid rd)\<rparr>)"

definition transport_relays :: "('j, 'e, 'f) env \<Rightarrow> 'j node \<Rightarrow> (RelayEndpoint list \<times> ParsedRelayAck option) go" where
  "transport_relays e inner =
     (let relays = ExtractRelayEndpoints (en_lib e) inner in
      if relays \<noteq> [] then Some (relays, None)
      else do {
        p \<leftarrow> ParseRelayFromNode (en_lib e) inner;
        Some (if pa_Relays p \<noteq> [] then (pa_Relays p, Some p) else ([], None)) })"

definition HandleCallTransport :: "('j, 'e, 'f) env \<Rightarrow> 'j node \<Rightarrow> ('j, 'f) CallManager \<Rightarrow> ('j, 'f) CallManager go" where
  "HandleCallTransport e node m = (case (cm_currentCall m, ExtractNodeInfo (en_lib e) node) of
      (Some call, Some info) \<Rightarrow> do {
        (relays, structured) \<leftarrow> transport_relays e (ni_InnerNode info);
        Some (if relays = [] \<or> en_hasConn e \<or> buildRelayConfigs relays = [] then m
              else connectRelays relays (m\<lparr>cm_currentCall :=
                Some (call\<lparr>ci_RelayData := Some (merge_relay_data relays structured (ci_RelayData call))\<rparr>)\<rparr>)) }
    | _ \<Rightarrow> Some m)"

fun echo_probes :: "('j, 'e, 'f) env \<Rightarrow> 'j \<Rightarrow> string \<Rightarrow> 'j \<Rightarrow> 'j node list \<Rightarrow> ('j, 'f) CallManager \<Rightarrow> ('j, 'f) CallManager" where
  "echo_probes e peerJid callID creator [] m = m"
| "echo_probes e peerJid callID creator (te # tes) m =
     (if nd_Tag te \<noteq> ''te'' \<or> AttrString (en_lib e) (nd_Attrs te) ''relay_name'' = ''''
      then echo_probes e peerJid callID creator tes m
      else (let echo = BuildRelayLatencyStanza (en_lib e) (en_sid e 0) peerJid callID creator [read_te (en_lib e) te] [];
                m = emit (SendNode echo) m
            in case so_SendNode (en_sock e) echo of
                 Some _ \<Rightarrow> m
               | None \<Rightarrow> echo_probes e peerJid callID creator tes m))"

definition harvest_relays :: "('j, 'e, 'f) env \<Rightarrow> 'j node \<Rightarrow> CallInfo \<Rightarrow> CallInfo go" where
  "harvest_relays e inner call =
     (if relayEndpointCount (ci_RelayData call) = 0 then do {
        p \<leftarrow> ParseRelayFromNode (en_lib e) inner;
        Some (if pa_Relays p \<noteq> [] then call\<lparr>ci_RelayData := Some (relay_data_of p)\<rparr> else call)
      } else Some call)"

definition HandleCallRelayLatency :: "('j, 'e, 'f) env \<Rightarrow> 'j node \<Rightarrow> 'j \<Rightarrow> ('j, 'f) CallManager \<Rightarrow> ('j, 'f) CallManager go" where
  "HandleCallRelayLatency e node peerJid m = (case (cm_currentCall m, ExtractNodeInfo (en_lib e) node) of
      (Some call, Some info) \<Rightarrow> do {
        call \<leftarrow> harvest_relays e (ni_InnerNode info) call;
        let m = m\<lparr>cm_currentCall := Some call\<rparr>;
        Some (if ci_Direction call \<noteq> CallDirectionIncoming then m
              else echo_probes e peerJid (ci_CallID call) (jid_of e (ci_CallCreator call)) (children (ni_InnerNode info)) m) }
    | _ \<Rightarrow> Some m)"

definition ack_participants :: "('j, 'e, 'f) env \<Rightarrow> CallInfo \<Rightarrow> string list \<Rightarrow> ('j, 'f) CallManager \<Rightarrow> ('j, 'f) CallManager" where
  "ack_participants e call participants m =
     (if participants = [] then m
      else (let m = applyStreamSsrcs (adopt_participants e False call participants m)
            in if ci_EncryptionKey call \<noteq> None then initSrtpKeys e m else m))"

definition HandleCallAck :: "('j, 'e, 'f) env \<Rightarrow> 'j node \<Rightarrow> ('j, 'f) CallManager \<Rightarrow> ('j, 'f) CallManager go" where
  "HandleCallAck e node m =
     (if AttrString (en_lib e) (nd_Attrs node) ''type'' \<noteq> ''offer'' \<or> AttrString (en_lib e) (nd_Attrs node) ''error'' \<noteq> ''''
      then Some m
      else do {
        p \<leftarrow> ParseRelayFromAck (en_lib e) node;
        if pa_Relays p = [] then Some m
        else case cm_currentCall m of
          None \<Rightarrow> Some m
        | Some call \<Rightarrow>
            (let call = call\<lparr>ci_RelayData := Some (relay_data_of p)\<rparr>;
                 m = ack_participants e call (pa_ParticipantJids p) (m\<lparr>cm_currentCall := Some call\<rparr>);
                 m = (if IsInitiator call \<and> \<not> cm_outgoingPreacceptSent m
                      then emit (SendNode (BuildPreacceptStanza (en_sid e 0) (jid_of e (ci_PeerJid call)) (ci_CallID call)
                             (jid_of e (ci_CallCreator call)) (ci_MediaType call = CallMediaTypeVideo)))
                           (m\<lparr>cm_outgoingPreacceptSent := True\<rparr>)
                      else m)
             in Some (connectRelays (pa_Relays p) m)) })"

section \<open>Hold\<close>

definition Hold :: "('j, 'e, 'f) env \<Rightarrow> 'f list \<Rightarrow> ('j, 'f) CallManager \<Rightarrow> 'e call_error option \<times> ('j, 'f) CallManager" where
  "Hold e holdMusic m = (case cm_currentCall m of
      None \<Rightarrow> (Some (CallError ''no active call''), m)
    | Some call \<Rightarrow> (case ApplyTransition call (transition TransitionHold) (en_now e) of
          Inl er \<Rightarrow> (Some (Refused er), m)
        | Inr call' \<Rightarrow> (None, emitState (m\<lparr>cm_currentCall := Some call', cm_holdActive := True, cm_holdMusic := holdMusic,
            cm_holdPos := 0, cm_scope := map_option (\<lambda>_. True) (cm_scope m)\<rparr>))))"

definition Resume :: "('j, 'e, 'f) env \<Rightarrow> ('j, 'f) CallManager \<Rightarrow> 'e call_error option \<times> ('j, 'f) CallManager" where
  "Resume e m = (case cm_currentCall m of
      None \<Rightarrow> (None, m)
    | Some call \<Rightarrow>
        (case (if call_state call = CallStateOnHold then ApplyTransition call (transition TransitionResume) (en_now e) else Inr call) of
           Inl er \<Rightarrow> (Some (Refused er), m)
         | Inr call' \<Rightarrow> (None, emitState (m\<lparr>cm_currentCall := Some call', cm_holdActive := False,
             cm_scope := map_option (\<lambda>_. False) (cm_scope m)\<rparr>))))"

fun fill_loop :: "nat \<Rightarrow> 'f list \<Rightarrow> nat \<Rightarrow> 'f list \<Rightarrow> ('f list \<times> nat) go" where
  "fill_loop 0 music pos acc = Some (rev acc, pos)"
| "fill_loop (Suc n) music pos acc = do {
     x \<leftarrow> idx music pos;
     fill_loop n music ((pos + 1) mod length music) (x # acc) }"

text \<open>\<open>out\<close> is only written when the result is true; \<open>n\<close> is its length.\<close>

definition fillHoldMusic :: "nat \<Rightarrow> ('j, 'f) CallManager \<Rightarrow> ('f list option \<times> ('j, 'f) CallManager) go" where
  "fillHoldMusic n m =
     (if \<not> cm_holdActive m \<or> cm_holdMusic m = [] then Some (None, m)
      else do {
        (out, pos) \<leftarrow> fill_loop n (cm_holdMusic m) (cm_holdPos m) [];
        Some (Some out, m\<lparr>cm_holdPos := pos\<rparr>) })"

section \<open>Relay events\<close>

definition onRelayConnected :: "('j, 'e, 'f) env \<Rightarrow> ('j, 'f) CallManager \<Rightarrow> ('j, 'f) CallManager" where
  "onRelayConnected e m = (case cm_currentCall m of
      Some call \<Rightarrow> if call_state call = CallStateConnecting
        then (case applyCall (transition TransitionMediaConnected) (en_now e) m of
                Some m' \<Rightarrow> maybeStartRtcpTx (emitState m') | None \<Rightarrow> m)
        else m
    | None \<Rightarrow> m)"

definition endpoints_of :: "CallInfo \<Rightarrow> RelayEndpoint list" where
  "endpoints_of call = (case ci_RelayData call of Some rd \<Rightarrow> rd_Endpoints rd | None \<Rightarrow> [])"

definition go_redial :: "RelayEndpoint list \<Rightarrow> ('j, 'f) CallManager \<Rightarrow> ('j, 'f) CallManager" where
  "go_redial eps m = (if eps \<noteq> [] then emit (Go (TaskConnectRelays eps)) m else m)"

definition onRelayUsableChange :: "('j, 'e, 'f) env \<Rightarrow> int \<Rightarrow> ('j, 'f) CallManager \<Rightarrow> ('j, 'f) CallManager" where
  "onRelayUsableChange e usable m = (case cm_currentCall m of
      None \<Rightarrow> m
    | Some call \<Rightarrow>
        if usable > 0 then
          (if call_state call = CallStateReconnecting
           then emit (Go (TaskTransportUpdate (jid_of e (ci_PeerJid call)) (jid_of e (ci_CallCreator call)) (ci_CallID call)))
                  (relay ResendSubscriptions m)
           else m)
        else if call_state call = CallStateActive then
          (case applyCall (transition TransitionMediaLost) (en_now e) m of
             Some m' \<Rightarrow> go_redial (endpoints_of call) (emitState m') | None \<Rightarrow> m)
        else m)"

definition forceMediaLost :: "('j, 'e, 'f) env \<Rightarrow> ('j, 'f) CallManager \<Rightarrow> ('j, 'f) CallManager" where
  "forceMediaLost e m = (case cm_currentCall m of
      Some call \<Rightarrow> if call_state call = CallStateActive
        then (case applyCall (transition TransitionMediaLost) (en_now e) m of
                Some m' \<Rightarrow> go_redial (endpoints_of call) (relay DropConnections (emitState m'\<lparr>cm_lastRedialAt := en_now e\<rparr>))
              | None \<Rightarrow> m)
        else m
    | None \<Rightarrow> m)"

definition redialRetryInterval :: int where "redialRetryInterval = 6 * second"

definition retryReconnect :: "('j, 'e, 'f) env \<Rightarrow> ('j, 'f) CallManager \<Rightarrow> ('j, 'f) CallManager" where
  "retryReconnect e m = (case cm_currentCall m of
      None \<Rightarrow> m
    | Some call \<Rightarrow>
        if call_state call \<noteq> CallStateReconnecting \<or> en_now e - cm_lastRedialAt m < redialRetryInterval then m
        else (let m = m\<lparr>cm_lastRedialAt := en_now e\<rparr>
              in if endpoints_of call = [] then m else go_redial (endpoints_of call) (relay DropConnections m)))"

text \<open>The watchdog; the result tells whether its loop ends.\<close>

definition expireIfOverdue :: "('j, 'e, 'f) env \<Rightarrow> ('j, 'f) CallManager \<Rightarrow> bool \<times> ('j, 'f) CallManager" where
  "expireIfOverdue e m = (case cm_currentCall m of
      None \<Rightarrow> (False, m)
    | Some call \<Rightarrow>
        if IsEnded call then (True, m)
        else if call_state call = CallStateActive \<and> to_MediaInactivity (cm_timeouts m) > 0 \<and> cm_lastMediaRecv m > 0 \<and>
            unix_ms e - cm_lastMediaRecv m > go_quot (to_MediaInactivity (cm_timeouts m)) 1000000
        then (False, forceMediaLost e m)
        else
          (let m' = (if call_state call = CallStateReconnecting then retryReconnect e m else m) in
           case phaseDeadline call (cm_timeouts m) of
             None \<Rightarrow> (False, m')
           | Some deadline \<Rightarrow> if en_now e < deadline then (False, m') else (True, EndCall e EndCallReasonTimeout m')))"

section \<open>Mid-call video\<close>

definition video_stanza :: "('j, 'e, 'f) env \<Rightarrow> CallInfo \<Rightarrow> int \<Rightarrow> ('j, 'f) CallManager \<Rightarrow> 'j node" where
  "video_stanza e call st m = BuildVideoStateStanza (en_sid e 0)
     \<lparr>vp_PeerJid = jid_of e (answer_dest call m), vp_CallID = ci_CallID call, vp_CallCreator = jid_of e (ci_CallCreator call),
      vp_State = st\<rparr>"

definition mark_video :: "CallInfo \<Rightarrow> ('j, 'f) CallManager \<Rightarrow> ('j, 'f) CallManager" where
  "mark_video call m = m\<lparr>cm_currentCall := Some (call\<lparr>ci_MediaType := CallMediaTypeVideo\<rparr>)\<rparr>"

definition EnableLocalVideo :: "('j, 'e, 'f) env \<Rightarrow> ('j, 'f) CallManager \<Rightarrow> 'e call_error option \<times> ('j, 'f) CallManager" where
  "EnableLocalVideo e m = (case cm_currentCall m of
      None \<Rightarrow> (Some (CallError ''no active call to enable video on''), m)
    | Some call \<Rightarrow>
        if IsEnded call then (Some (CallError ''no active call to enable video on''), m)
        else
          (let m = (if vs_selfSsrc (cm_video m) = 0
                    then deriveVideoSsrcs e (ci_CallID call) (cm_ownDeviceJid m) (cm_peerDeviceJid m) m else m);
               m = applyStreamSsrcs m;
               m = mark_video call (m\<lparr>cm_video := (cm_video m)\<lparr>vs_enabled := True\<rparr>\<rparr>);
               node = video_stanza e call VideoStateUpgradeRequest m;
               m = emit (SendNode node) (relay ResendSubscriptions m)
           in (map_option SocketFailed (so_SendNode (en_sock e) node), m)))"

definition DisableLocalVideo :: "('j, 'e, 'f) env \<Rightarrow> ('j, 'f) CallManager \<Rightarrow> 'e call_error option \<times> ('j, 'f) CallManager" where
  "DisableLocalVideo e m = (case cm_currentCall m of
      None \<Rightarrow> (Some (CallError ''no active call to disable video on''), m)
    | Some call \<Rightarrow>
        if IsEnded call then (Some (CallError ''no active call to disable video on''), m)
        else
          (let m = m\<lparr>cm_video := (cm_video m)\<lparr>vs_enabled := False\<rparr>\<rparr>;
               node = video_stanza e call VideoStateStopped m
           in (map_option SocketFailed (so_SendNode (en_sock e) node), emit (SendNode node) m)))"

definition enable_peer_video :: "('j, 'e, 'f) env \<Rightarrow> CallInfo \<Rightarrow> ('j, 'f) CallManager \<Rightarrow> ('j, 'f) CallManager" where
  "enable_peer_video e call m =
     (let m = (if vs_peerSsrc (cm_video m) = 0 \<or> vs_selfSsrc (cm_video m) = 0
               then deriveVideoSsrcs e (ci_CallID call) (cm_ownDeviceJid m) (cm_peerDeviceJid m) m else m)
      in mark_video call (applyStreamSsrcs m))"

definition video_reply :: "('j, 'e, 'f) env \<Rightarrow> 'j node \<Rightarrow> ('j, 'f) CallManager \<Rightarrow> ('j, 'f) CallManager" where
  "video_reply e node m =
     (let m = emit (SendNode node) m
      in if so_SendNode (en_sock e) node = None then relay ResendSubscriptions m else m)"

definition on_video_state :: "('j, 'e, 'f) env \<Rightarrow> CallInfo \<Rightarrow> int \<Rightarrow> ('j, 'f) CallManager \<Rightarrow> ('j, 'f) CallManager" where
  "on_video_state e call st m =
     (if st = 2 \<or> st = VideoStateUpgradeRequest \<or> st = VideoStateUpgradeReqV2 then
        (let m = enable_peer_video e call m
         in emit (OnPeerVideoState VideoStateEnabled) (video_reply e (video_stanza e call VideoStateUpgradeAccept m) m))
      else if st = VideoStateEnabled \<or> st = VideoStateUpgradeAccept then
        emit (OnPeerVideoState VideoStateEnabled) (enable_peer_video e call m)
      else if st = VideoStateStopped \<or> st = VideoStateDisabled then
        emit (OnPeerVideoState VideoStateDisabled) m
      else if st = VideoStateUpgradeReject \<or> st = VideoStateUpgradeCancel then
        emit (OnPeerVideoState VideoStateDisabled) (m\<lparr>cm_video := (cm_video m)\<lparr>vs_enabled := False\<rparr>\<rparr>)
      else m)"

definition HandleVideoState :: "('j, 'e, 'f) env \<Rightarrow> 'j node \<Rightarrow> ('j, 'f) CallManager \<Rightarrow> ('j, 'f) CallManager" where
  "HandleVideoState e node m =
     (let parsed = ParseVideoState (en_lib e) node in
      if \<not> pv_Found parsed then m
      else (let m = emit (SendNode (BuildVideoAck (en_lib e) node)) m in
        case cm_currentCall m of
          None \<Rightarrow> m
        | Some call \<Rightarrow> if IsEnded call then m else on_video_state e call (pv_State parsed) m))"

end
