(* ===== verification/Call_Invariant.thy ===== *)
theory Call_Invariant
  imports Call_Tx Call_Control
begin

text \<open>
  What every handler of the call manager keeps. \<open>cm_wf\<close> is the manager's well-formedness: the observer
  was told of the end of the call at most once, the memory it was told of is that of the RTP
  session in place, the duplicate filter's ring represents its map, the hold position is inside
  the music, and the key contexts have the sizes the ciphers need. \<open>evolves\<close> relates a manager to
  what a handler makes of it: its call moves along the life cycle, well-formedness is kept, and so
  is the device that answered, which only an accept stanza sets.
  Each operation has one rule in the collection \<open>evo\<close>; a handler's lemma follows its code.
\<close>

named_theorems evo \<open>rules for what a handler makes of a manager\<close>

section \<open>Well-formedness\<close>

fun mem_amount :: "('j, 'f) effect \<Rightarrow> int" where
  "mem_amount (Observe (ObAddMem n)) = n"
| "mem_amount (Observe (ObReleaseMem n)) = - n"
| "mem_amount _ = 0"

fun is_end :: "('j, 'f) effect \<Rightarrow> bool" where
  "is_end (Observe (ObEnd _ _)) = True"
| "is_end _ = False"

definition mem_told :: "('j, 'f) CallManager \<Rightarrow> int" where
  "mem_told m = sum_list (map mem_amount (cm_out m))"

definition end_count :: "('j, 'f) CallManager \<Rightarrow> nat" where
  "end_count m = length (filter is_end (cm_out m))"

definition ended_once :: "('j, 'f) CallManager \<Rightarrow> bool" where
  "ended_once m \<longleftrightarrow> end_count m \<le> (if cm_observerEnded m then 1 else 0)"

definition mem_exact :: "('j, 'f) CallManager \<Rightarrow> bool" where
  "mem_exact m \<longleftrightarrow> mem_told m = (if cm_rtpSession m = None then 0 else rtpSessionBytes)"

definition hold_ok :: "('j, 'f) CallManager \<Rightarrow> bool" where
  "hold_ok m \<longleftrightarrow> cm_holdMusic m = [] \<or> cm_holdPos m < length (cm_holdMusic m)"

definition send_ok :: "SrtpManager \<Rightarrow> bool" where
  "send_ok s \<longleftrightarrow> keying_ok (sm_sendKM s) \<and> sm_sendAuth s \<le> 20 \<and>
     (\<forall>k c. Mapping.lookup (sm_send s) k = Some c \<longrightarrow> ctx_ok c)"

definition srtp_wf :: "SrtpManager option \<Rightarrow> bool" where
  "srtp_wf x \<longleftrightarrow> (case x of None \<Rightarrow> True | Some s \<Rightarrow> send_ok s \<and> recv_ok s)"

definition srtcp_wf :: "'f rtcp_state \<Rightarrow> bool" where
  "srtcp_wf r \<longleftrightarrow> pred_option srtcp_ok (rt_sendSrtcp r) \<and> pred_option srtcp_ok (rt_recvSrtcp r)"

definition cm_wf :: "('j, 'f) CallManager \<Rightarrow> bool" where
  "cm_wf m \<longleftrightarrow> ended_once m \<and> mem_exact m \<and> rx_ok (cm_rx m) \<and> hold_ok m \<and> srtp_wf (cm_srtp m) \<and> srtcp_wf (cm_rtcp m)"

lemmas cm_wf_defs = cm_wf_def ended_once_def mem_exact_def hold_ok_def mem_told_def end_count_def

section \<open>Moves of the call\<close>

inductive call_moves :: "time \<Rightarrow> CallInfo option \<Rightarrow> CallInfo option \<Rightarrow> bool" for now where
  stays: "call_moves now c c"
| applies: "call_moves now c (Some d) \<Longrightarrow> ApplyTransition d t now = Inr d' \<Longrightarrow> call_moves now c (Some d')"
| relays: "call_moves now c (Some d) \<Longrightarrow> call_moves now c (Some (d\<lparr>ci_RelayData := r\<rparr>))"
| media: "call_moves now c (Some d) \<Longrightarrow> call_moves now c (Some (d\<lparr>ci_MediaType := v\<rparr>))"

inductive_simps call_moves_None [simp]: "call_moves now c None"

lemma call_moves_trans: "call_moves now b c \<Longrightarrow> call_moves now a b \<Longrightarrow> call_moves now a c"
  by (induction rule: call_moves.induct) (auto intro: call_moves.intros)

lemma call_moves_Some: "call_moves now a b \<Longrightarrow> a = Some c \<Longrightarrow> \<exists>d. b = Some d"
  by (induction rule: call_moves.induct) auto

definition evolves :: "time \<Rightarrow> ('j, 'f) CallManager \<Rightarrow> ('j, 'f) CallManager \<Rightarrow> bool" where
  "evolves now m n \<longleftrightarrow> call_moves now (cm_currentCall m) (cm_currentCall n) \<and> (cm_wf m \<longrightarrow> cm_wf n) \<and>
     cm_acceptedByJid n = cm_acceptedByJid m"

text \<open>The same for an operation that could panic: it does not, on a well-formed manager.\<close>

definition safe :: "time \<Rightarrow> ('j, 'f) CallManager \<Rightarrow> ('j, 'f) CallManager go \<Rightarrow> bool" where
  "safe now m r \<longleftrightarrow> (cm_wf m \<longrightarrow> (\<exists>n. r = Some n \<and> evolves now m n))"

lemma evolves_refl [evo]: "evolves now m m"
  by (simp add: evolves_def call_moves.stays)

lemma evolves_trans: "evolves now n p \<Longrightarrow> evolves now m n \<Longrightarrow> evolves now m p"
  by (auto simp: evolves_def intro: call_moves_trans)

lemma safe_Some [evo]: "evolves now m n \<Longrightarrow> safe now m (Some n)"
  by (simp add: safe_def)

lemma safe_trans: "safe now n r \<Longrightarrow> evolves now m n \<Longrightarrow> safe now m r"
  by (auto simp: safe_def evolves_def intro: call_moves_trans)

lemma safe_wf: "(cm_wf m \<Longrightarrow> safe now m r) \<Longrightarrow> safe now m r"
  by (simp add: safe_def)

lemma evolves_wf: "evolves now m n \<Longrightarrow> cm_wf m \<Longrightarrow> cm_wf n"
  by (simp add: evolves_def)

subsection \<open>Control structure\<close>

lemma evolves_if [evo]: "(b \<Longrightarrow> evolves now m x) \<Longrightarrow> (\<not> b \<Longrightarrow> evolves now m y) \<Longrightarrow> evolves now m (if b then x else y)"
  by simp

lemma evolves_option [evo]:
  "(x = None \<Longrightarrow> evolves now m a) \<Longrightarrow> (\<And>y. x = Some y \<Longrightarrow> evolves now m (b y)) \<Longrightarrow>
   evolves now m (case x of None \<Rightarrow> a | Some y \<Rightarrow> b y)"
  by (cases x) auto

lemma evolves_sum [evo]:
  "(\<And>y. x = Inl y \<Longrightarrow> evolves now m (a y)) \<Longrightarrow> (\<And>y. x = Inr y \<Longrightarrow> evolves now m (b y)) \<Longrightarrow>
   evolves now m (case x of Inl y \<Rightarrow> a y | Inr y \<Rightarrow> b y)"
  by (cases x) auto

lemma evolves_prod [evo]: "(\<And>y z. x = (y, z) \<Longrightarrow> evolves now m (a y z)) \<Longrightarrow> evolves now m (case x of (y, z) \<Rightarrow> a y z)"
  by (cases x) auto

text \<open>A \<open>let\<close> that rebinds the manager, and one that binds anything else.\<close>

lemma evolves_let:
  "evolves now m x \<Longrightarrow> (\<And>n. evolves now m n \<Longrightarrow> evolves now m (f n)) \<Longrightarrow> evolves now m (let n = x in f n)"
  by (simp add: Let_def)

lemma evolves_let_value: "(\<And>y. evolves now m (f y)) \<Longrightarrow> evolves now m (let y = x in f y)"
  by simp

lemma safe_if [evo]: "(b \<Longrightarrow> safe now m x) \<Longrightarrow> (\<not> b \<Longrightarrow> safe now m y) \<Longrightarrow> safe now m (if b then x else y)"
  by simp

lemma safe_option [evo]:
  "(x = None \<Longrightarrow> safe now m a) \<Longrightarrow> (\<And>y. x = Some y \<Longrightarrow> safe now m (b y)) \<Longrightarrow>
   safe now m (case x of None \<Rightarrow> a | Some y \<Rightarrow> b y)"
  by (cases x) auto

lemma safe_bind [evo]:
  "(cm_wf m \<Longrightarrow> x \<noteq> None) \<Longrightarrow> (\<And>y. x = Some y \<Longrightarrow> safe now m (f y)) \<Longrightarrow> safe now m (Option.bind x f)"
  by (cases x) (auto simp: safe_def)

lemma safe_let: "evolves now m x \<Longrightarrow> (\<And>n. evolves now m n \<Longrightarrow> safe now m (f n)) \<Longrightarrow> safe now m (let n = x in f n)"
  by (simp add: Let_def)

subsection \<open>Fields\<close>

text \<open>Updates of fields that neither the call nor well-formedness depends on.\<close>

lemma evolves_fields [evo]:
  assumes "evolves now m n"
  shows "evolves now m (cm_video_update f1 n)" "evolves now m (cm_ownDeviceJid_update f2 n)"
    "evolves now m (cm_peerDeviceJid_update f3 n)" "evolves now m (cm_holdActive_update f4 n)"
    "evolves now m (cm_scope_update f5 n)" "evolves now m (cm_selfSsrc_update f6 n)"
    "evolves now m (cm_peerSsrcs_update f7 n)" "evolves now m (cm_actualPeerSet_update f8 n)"
    "evolves now m (cm_firstPacketSent_update f9 n)" "evolves now m (cm_initialTransportSent_update f10 n)"
    "evolves now m (cm_outgoingPreacceptSent_update f11 n)" 
    "evolves now m (cm_calleeDevices_update f13 n)" "evolves now m (cm_watchdog_update f14 n)"
    "evolves now m (cm_lastMediaRecv_update f15 n)" "evolves now m (cm_lastRedialAt_update f16 n)"
    "evolves now m (cm_srtpDrops_update f17 n)" "evolves now m (cm_srtcpDrops_update f18 n)"
    "evolves now m (cm_undecodable_update f19 n)" "evolves now m (cm_relocks_update f20 n)"
    "evolves now m (cm_rtpHandlers_update f21 n)" "evolves now m (cm_declaredSelf_update f22 n)"
    "evolves now m (cm_extAttached_update f23 n)"
  using assms by (simp_all add: evolves_def cm_wf_defs)

text \<open>Updates of the other fields, under what well-formedness asks of them.\<close>

lemma evolves_rtcp [evo]:
  "evolves now m n \<Longrightarrow> (srtcp_wf (cm_rtcp n) \<Longrightarrow> srtcp_wf (f (cm_rtcp n))) \<Longrightarrow> evolves now m (cm_rtcp_update f n)"
  by (simp add: evolves_def cm_wf_defs)

lemma evolves_srtp [evo]:
  "evolves now m n \<Longrightarrow> (srtp_wf (cm_srtp n) \<Longrightarrow> srtp_wf (f (cm_srtp n))) \<Longrightarrow> evolves now m (cm_srtp_update f n)"
  by (simp add: evolves_def cm_wf_defs)

lemma evolves_rx [evo]:
  "evolves now m n \<Longrightarrow> (rx_ok (cm_rx n) \<Longrightarrow> rx_ok (f (cm_rx n))) \<Longrightarrow> evolves now m (cm_rx_update f n)"
  by (simp add: evolves_def cm_wf_defs)

lemma evolves_emit [evo]:
  "evolves now m n \<Longrightarrow> mem_amount x = 0 \<Longrightarrow> \<not> is_end x \<Longrightarrow> evolves now m (emit x n)"
  by (simp add: evolves_def cm_wf_defs emit_def)

lemma evolves_emitState [evo]: "evolves now m n \<Longrightarrow> evolves now m (emitState n)"
  unfolding emitState_def by (intro evo) simp_all

lemma evolves_call [evo]:
  "evolves now m n \<Longrightarrow> call_moves now (cm_currentCall n) (f (cm_currentCall n)) \<Longrightarrow> evolves now m (cm_currentCall_update f n)"
  by (auto simp: evolves_def cm_wf_defs intro: call_moves_trans)
lemma applyCall_SomeE:
  assumes "applyCall t now m = Some n"
  obtains c c' where "cm_currentCall m = Some c" "ApplyTransition c t now = Inr c'" "n = m\<lparr>cm_currentCall := Some c'\<rparr>"
  using assms by (auto simp: applyCall_def split: option.split_asm sum.split_asm)

lemma evolves_applyCall: "evolves now m n \<Longrightarrow> applyCall t now n = Some n' \<Longrightarrow> evolves now m n'"
  by (erule applyCall_SomeE) (simp add: evolves_call call_moves.applies [OF call_moves.stays])

lemma evolves_transition:
  assumes "evolves now m n" "\<And>n'. evolves now m n' \<Longrightarrow> evolves now m (g n')" "evolves now m d"
  shows "evolves now m (case applyCall t now n of Some n' \<Rightarrow> g n' | None \<Rightarrow> d)"
  using assms evolves_applyCall [OF assms(1)] by (cases "applyCall t now n") simp_all

section \<open>Shared operations\<close>

lemma srtcp_wf_fields [simp]:
  "srtcp_wf (r\<lparr>rt_recvStats := a\<rparr>) = srtcp_wf r" "srtcp_wf (r\<lparr>rt_txRunning := b\<rparr>) = srtcp_wf r"
  "srtcp_wf (r\<lparr>rt_cname := d\<rparr>) = srtcp_wf r" "srtcp_wf (r\<lparr>rt_txIndex := i\<rparr>) = srtcp_wf r"
  "srtcp_wf (note_audio_sent p r) = srtcp_wf r" "srtcp_wf (note_video_sent j k t r) = srtcp_wf r" "srtcp_wf (advance l r) = srtcp_wf r"
  "srtcp_wf (r\<lparr>rt_sendSrtcp := Some c\<rparr>) \<longleftrightarrow> srtcp_ok c \<and> pred_option srtcp_ok (rt_recvSrtcp r)"
  "srtcp_wf (r\<lparr>rt_recvSrtcp := Some c\<rparr>) \<longleftrightarrow> srtcp_ok c \<and> pred_option srtcp_ok (rt_sendSrtcp r)"
  by (auto simp: srtcp_wf_def note_audio_sent_def note_video_sent_def advance_def)

lemma srtp_wf_simps [simp]: "srtp_wf None" "srtp_wf (Some s) \<longleftrightarrow> send_ok s \<and> recv_ok s"
  by (simp_all add: srtp_wf_def)

lemma srtcp_wf_empty [simp]: "srtcp_wf emptyRtcp"
  by (simp add: srtcp_wf_def emptyRtcp_def)

lemma new_srtp_wf [simp]:
  "send_ok (new_srtp (DerivePerJidSrtpKey k j) (DerivePerJidSrtpKey k' j'))"
  "recv_ok (new_srtp (DerivePerJidSrtpKey k j) (DerivePerJidSrtpKey k' j'))"
  by (simp_all add: new_srtp_def send_ok_def recv_ok_def SetObserver_def NewSrtpManager_def keying_ok_derived
      SRTPSendAuthTagLen_def SRTPRecvAuthTagLen_def)

lemma evolves_replaceRtpSession [evo]: "evolves now m n \<Longrightarrow> evolves now m (replaceRtpSession s n)"
  by (auto simp: evolves_def cm_wf_defs replaceRtpSession_def emit_def Let_def)

lemma evolves_set_self_session [evo]: "evolves now m n \<Longrightarrow> evolves now m (set_self_session e ssrc n)"
  unfolding set_self_session_def by (intro evo)

lemma evolves_rememberDeviceJids [evo]: "evolves now m n \<Longrightarrow> evolves now m (rememberDeviceJids a b n)"
  unfolding rememberDeviceJids_def by (intro evolves_let evo)

lemma evolves_declareSelfSSRC [evo]: "evolves now m n \<Longrightarrow> evolves now m (declareSelfSSRC s n)"
  unfolding declareSelfSSRC_def by (intro evo)

lemma evolves_registerRTPHandler [evo]: "evolves now m n \<Longrightarrow> evolves now m (registerRTPHandler pt n)"
  unfolding registerRTPHandler_def by (intro evo)

lemma evolves_fold: "(\<And>x n. evolves now m n \<Longrightarrow> evolves now m (f x n)) \<Longrightarrow> evolves now m n \<Longrightarrow> evolves now m (fold f xs n)"
  by (induction xs arbitrary: n) simp_all

lemma evolves_deriveVideoSsrcs [evo]: "evolves now m n \<Longrightarrow> evolves now m (deriveVideoSsrcs e cid a b n)"
  unfolding deriveVideoSsrcs_def by (intro evolves_let_value [where x = "video_self_jid _ _ _"]
    evolves_let_value [where x = "video_peer_jid _ _"] evolves_let_value [where x = "cm_video _"] evolves_let evo)

lemma evolves_applyStreamSsrcs [evo]: "evolves now m n \<Longrightarrow> evolves now m (applyStreamSsrcs n)"
  unfolding applyStreamSsrcs_def by (intro evo) simp_all

lemma evolves_ensureExtensionsAttached [evo]: "evolves now m n \<Longrightarrow> evolves now m (ensureExtensionsAttached n)"
  unfolding ensureExtensionsAttached_def by (intro evo evolves_fold) simp_all

lemma evolves_setupSrtcp [evo]:
  assumes "evolves now m n"
  shows "evolves now m (setupSrtcp e a b n)"
proof -
  have "srtcp_wf (cm_rtcp n) \<Longrightarrow> srtcp_wf (cm_rtcp (setupSrtcp e a b n))"
    by (auto simp: setupSrtcp_def srtcp_wf_def Let_def dest: NewSrtcpContext_ok split: option.split sum.split)
  moreover have "setupSrtcp e a b n = cm_rtcp_update (\<lambda>_. cm_rtcp (setupSrtcp e a b n)) n"
    by (simp add: setupSrtcp_def Let_def split: option.split sum.split)
  ultimately show ?thesis using evolves_rtcp [OF assms, of "\<lambda>_. cm_rtcp (setupSrtcp e a b n)"] by simp
qed

lemma evolves_initSrtpKeys [evo]: "evolves now m n \<Longrightarrow> evolves now m (initSrtpKeys e n)"
  unfolding initSrtpKeys_def Let_def by (intro evo) simp_all

lemma evolves_reinitSrtp [evo]: "evolves now m n \<Longrightarrow> evolves now m (reinitSrtp e k j n)"
  unfolding reinitSrtp_def Let_def by (intro evo) simp_all

lemma evolves_maybeStartRtcpTx [evo]: "evolves now m n \<Longrightarrow> evolves now m (maybeStartRtcpTx n)"
  unfolding maybeStartRtcpTx_def by (intro evo) simp_all

lemma evolves_connectRelays [evo]: "evolves now m n \<Longrightarrow> evolves now m (connectRelays eps n)"
  unfolding connectRelays_def
  by (intro evolves_let_value [where x = "buildRelayConfigs _"] evolves_let evo) simp_all

lemma evolves_go_redial [evo]: "evolves now m n \<Longrightarrow> evolves now m (go_redial eps n)"
  unfolding go_redial_def by (intro evo) simp_all

lemma rx_ok_reset: "rx_ok rx \<Longrightarrow> rx_ok (rx\<lparr>rx_LockedSsrc := 0, rx_LockedLastNs := 0, rx_Dedup := {}, rx_DedupIdx := 0, rx_DedupFilled := False\<rparr>)"
  by (simp add: rx_ok_def rx_window_def)

lemma evolves_cleanupMedia [evo]:
  assumes "evolves now m n"
  shows "evolves now m (cleanupMedia n)"
proof -
  have "cm_wf n \<Longrightarrow> cm_wf (cleanupMedia n)"
    by (auto simp: cm_wf_defs cleanupMedia_def end_report_def replaceRtpSession_def emit_def Let_def rx_ok_reset
        split: option.split if_split_asm)
  moreover have "cm_currentCall (cleanupMedia n) = cm_currentCall n" "cm_acceptedByJid (cleanupMedia n) = cm_acceptedByJid n"
    by (simp_all add: cleanupMedia_def replaceRtpSession_def emit_def Let_def split: option.split)
  ultimately show ?thesis using assms by (simp add: evolves_def)
qed

section \<open>Handlers\<close>

lemma evolves_ignoring [evo]: "evolves now m n \<Longrightarrow> evolves now m (case applyCall t now n of Some n' \<Rightarrow> n' | None \<Rightarrow> n)"
  by (rule evolves_transition)

lemma evolves_adopt_participants [evo]: "evolves now m n \<Longrightarrow> evolves now m (adopt_participants e b c ps n)"
  unfolding adopt_participants_def adopt_self_def Let_def [where s = "our_device _ _"] Let_def [where s = "GenerateSecureSsrc _ _ _"]
    Let_def [where s = "firstPeerDevice _ _"] Let_def [where s = "if _ then ensureDeviceJid _ else _"]
  by (intro evolves_let evo)

lemma evolves_setupIncomingMedia [evo]: "evolves now m n \<Longrightarrow> evolves now m (setupIncomingMedia e c rd n)"
  unfolding setupIncomingMedia_def by (intro evolves_let evo) simp_all

lemma evolves_send_accept [evo]: "evolves now m n \<Longrightarrow> evolves now m (send_accept e c n)"
  unfolding send_accept_def by (intro evo) simp_all

lemma AcceptCall_evolves: "evolves (en_now e) m (snd (AcceptCall e cid m))"
  unfolding AcceptCall_def if_distrib [of snd] option.case_distrib [of snd] Let_def snd_conv
  by (intro evolves_transition evo)

lemma RejectCall_evolves: "evolves (en_now e) m (snd (RejectCall e cid reason m))"
  unfolding RejectCall_def if_distrib [of snd] option.case_distrib [of snd] sum.case_distrib [of snd] Let_def snd_conv
  by (intro evo) (simp_all add: call_moves.applies [OF call_moves.stays])

lemma evolves_announce_end [evo]: "evolves now m n \<Longrightarrow> evolves now m (announce_end n)"
  unfolding announce_end_def by (intro evo) simp_all

lemma evolves_EndCall [evo]: "evolves (en_now e) m n \<Longrightarrow> evolves (en_now e) m (EndCall e reason n)"
  unfolding EndCall_def Let_def by (intro evo) simp_all

lemma HandleCallTerminate_evolves: "evolves (en_now e) m (HandleCallTerminate e node m)"
  unfolding HandleCallTerminate_def Let_def by (intro evo)

lemma evolves_sendTransportUpdate [evo]: "evolves now m n \<Longrightarrow> evolves now m (sendTransportUpdate e a b c n)"
  unfolding sendTransportUpdate_def by (intro evo) simp_all

lemma accept_rekey_evolves: "evolves now m (accept_rekey e peer key m)"
  unfolding accept_rekey_def by (intro evo)

lemma evolves_answered: "evolves now m n \<Longrightarrow> evolves now (m\<lparr>cm_acceptedByJid := p\<rparr>) (n\<lparr>cm_acceptedByJid := p\<rparr>)"
  by (simp add: evolves_def cm_wf_defs)

lemma evolves_accept_streams:
  "evolves now m n \<Longrightarrow> evolves now (m\<lparr>cm_acceptedByJid := peer\<rparr>) (accept_streams e c peer n)"
  unfolding accept_streams_def Let_def [where s = "ensureDeviceJid _"] by (intro evolves_let evo evolves_answered) simp_all

lemma evolves_accept_replies [evo]: "evolves now m n \<Longrightarrow> evolves now m (accept_replies e node peer c sib n)"
  unfolding accept_replies_def Let_def [where s = "jid_of _ _"] Let_def [where s = "ci_CallID _"] Let_def [where s = "AttrString _ _ _"]
  by (intro evolves_let evo) simp_all

lemma evolves_accept_connect [evo]: "evolves (en_now e) m n \<Longrightarrow> evolves (en_now e) m (accept_connect e rd n)"
  unfolding accept_connect_def by (intro evolves_transition evo)

lemma accept_commit_evolves:
  "accept_commit e node peer m = m \<or>
   evolves (en_now e) (m\<lparr>cm_acceptedByJid := jid_String (en_lib e) peer\<rparr>) (accept_commit e node peer m)"
proof (cases "\<exists>call. cm_currentCall m = Some call \<and> \<not> IsEnded call")
  case True
  then obtain call where c: "cm_currentCall m = Some call" "\<not> IsEnded call" by blast
  have "evolves (en_now e) (m\<lparr>cm_acceptedByJid := jid_String (en_lib e) peer\<rparr>) (accept_commit e node peer m)"
    unfolding accept_commit_def Let_def c(1) option.case if_not_P [OF c(2)]
    by (intro evolves_accept_connect evolves_accept_replies evolves_accept_streams evolves_emitState evolves_ignoring evolves_refl)
  then show ?thesis by simp
qed (auto simp: accept_commit_def split: option.split)

lemma Hold_evolves: "evolves (en_now e) m (snd (Hold e music m))"
  by (auto simp: Hold_def evolves_def cm_wf_defs emitState_def emit_def call_moves.stays
      intro: call_moves.applies [OF call_moves.stays] split: option.split sum.split)

lemma Resume_evolves: "evolves (en_now e) m (snd (Resume e m))"
  unfolding Resume_def option.case_distrib [of snd] sum.case_distrib [of snd] snd_conv
  by (intro evo) (auto intro: call_moves.stays call_moves.applies [OF call_moves.stays] split: if_split_asm)

lemma onRelayConnected_evolves: "evolves (en_now e) m (onRelayConnected e m)"
  unfolding onRelayConnected_def by (intro evolves_transition evo)

lemma onRelayUsableChange_evolves: "evolves (en_now e) m (onRelayUsableChange e usable m)"
  unfolding onRelayUsableChange_def by (intro evolves_transition evo) simp_all

lemma forceMediaLost_evolves: "evolves (en_now e) m (forceMediaLost e m)"
  unfolding forceMediaLost_def by (intro evolves_transition evo) simp_all

lemma retryReconnect_evolves: "evolves (en_now e) m (retryReconnect e m)"
  unfolding retryReconnect_def by (intro evolves_let evo) simp_all

lemma expireIfOverdue_evolves: "evolves (en_now e) m (snd (expireIfOverdue e m))"
  unfolding expireIfOverdue_def if_distrib [of snd] option.case_distrib [of snd] Let_def snd_conv
  by (intro evo forceMediaLost_evolves retryReconnect_evolves)

lemma evolves_mark_video:
  "evolves now m n \<Longrightarrow> cm_currentCall n = Some c \<Longrightarrow> evolves now m (mark_video c n)"
  unfolding mark_video_def by (intro evo) (auto intro: call_moves.media [OF call_moves.stays])

subsection \<open>Media keys in use\<close>

lemma sendContext_wf:
  assumes "send_ok s" "recv_ok s"
  shows "\<exists>c s'. sendContext s k = Some (Inr (c, s')) \<and> ctx_ok c \<and> send_ok s' \<and> recv_ok s'"
proof (cases "Mapping.lookup (sm_send s) k")
  case None
  obtain c where c: "NewSrtpContext (sm_sendKM s) (sm_sendAuth s) = Some (Inr c)"
    using NewSrtpContext_total [of "sm_sendKM s" "sm_sendAuth s"] assms(1) by (auto simp: send_ok_def)
  with assms have "ctx_ok c" by (auto simp: send_ok_def intro: NewSrtpContext_new(1))
  with None c assms show ?thesis by (auto simp: sendContext_def send_ok_def recv_ok_def lookup_update')
qed (use assms in \<open>auto simp: sendContext_def send_ok_def\<close>)

lemma Manager_Protect_wf:
  assumes "send_ok s" "recv_ok s" "rh_CsrcCount (rp_Header p) = 0" "rh_Csrc (rp_Header p) = []"
  shows "\<exists>r s'. Manager_Protect s (Some p) = Some (r, s') \<and> send_ok s' \<and> recv_ok s'"
proof -
  obtain c s' where c: "sendContext s (rh_Ssrc (rp_Header p)) = Some (Inr (c, s'))" "ctx_ok c" "send_ok s'" "recv_ok s'"
    using sendContext_wf [OF assms(1,2)] by blast
  have "unat (rh_CsrcCount (rp_Header p)) = length (rh_Csrc (rp_Header p))" using assms by simp
  from Protect_bytes [OF c(2) this] c show ?thesis
    by (auto simp: Manager_Protect_def send_ok_def recv_ok_def lookup_update')
qed

lemma Manager_Unprotect_wf:
  assumes "send_ok s" "recv_ok s" "12 \<le> length d"
  shows "\<exists>r s'. Manager_Unprotect s d = Some (r, s') \<and> send_ok s' \<and> recv_ok s'"
proof -
  obtain k where k: "has_ssrc k d" using RTPSsrc_total assms(3) by (auto simp: has_ssrc_def)
  obtain r c' where u: "Unprotect (view s k) d = Some (r, c')"
    by (rule Unprotect_total [OF view_ok [OF assms(2)]])
  from Manager_Unprotect_step [OF assms(2) k u] obtain s' where
    s': "Manager_Unprotect s d = Some (mgr_err r, s')" "recv_ok s'" by blast
  have "sm_send s' = sm_send s \<and> sm_sendKM s' = sm_sendKM s \<and> sm_sendAuth s' = sm_sendAuth s"
    using s'(1) by (auto simp: Manager_Unprotect_def recvContext_def go_try_eq_Inr_iff
        split: Option.bind_split_asm sum.split_asm prod.split_asm if_split_asm option.split_asm)
  with s' assms(1) show ?thesis by (auto simp: send_ok_def)
qed

subsection \<open>Mid-call video\<close>

lemma currentCall_frame [simp]:
  "cm_currentCall (emit x m) = cm_currentCall m" "cm_currentCall (deriveVideoSsrcs e a b c m) = cm_currentCall m"
  "cm_currentCall (applyStreamSsrcs m) = cm_currentCall m"
  by (simp_all add: emit_def deriveVideoSsrcs_def declareSelfSSRC_def applyStreamSsrcs_def Let_def split: prod.split)

lemma EnableLocalVideo_evolves: "evolves (en_now e) m (snd (EnableLocalVideo e m))"
proof (cases "cm_currentCall m")
  case (Some call)
  show ?thesis unfolding EnableLocalVideo_def if_distrib [of snd] option.case_distrib [of snd] Let_def snd_conv
    by (intro evo evolves_mark_video) (auto simp: Some)
qed (simp add: EnableLocalVideo_def evolves_refl)

lemma DisableLocalVideo_evolves: "evolves (en_now e) m (snd (DisableLocalVideo e m))"
  unfolding DisableLocalVideo_def if_distrib [of snd] option.case_distrib [of snd] Let_def snd_conv by (intro evo) simp_all

lemma evolves_enable_peer_video:
  "evolves now m n \<Longrightarrow> cm_currentCall n = Some c \<Longrightarrow> evolves now m (enable_peer_video e c n)"
  unfolding enable_peer_video_def Let_def by (intro evo evolves_mark_video) auto

lemma evolves_video_reply [evo]: "evolves now m n \<Longrightarrow> evolves now m (video_reply e node n)"
  unfolding video_reply_def Let_def by (intro evo) simp_all

lemma evolves_on_video_state:
  "evolves now m n \<Longrightarrow> cm_currentCall n = Some c \<Longrightarrow> evolves now m (on_video_state e c st n)"
  unfolding on_video_state_def Let_def by (intro evo evolves_enable_peer_video) simp_all

lemma HandleVideoState_evolves: "evolves (en_now e) m (HandleVideoState e node m)"
  unfolding HandleVideoState_def Let_def by (intro evo evolves_on_video_state) simp_all

subsection \<open>Stanzas that carry relays\<close>

lemma transport_relays_total: "transport_relays e n \<noteq> None"
  using ParseRelay_total(2) [of "en_lib e" n] by (auto simp: transport_relays_def Let_def)

lemma offer_relays_total: "offer_relays e n \<noteq> None"
  using ParseRelay_total(1) [of "en_lib e" n] by (auto simp: offer_relays_def Let_def)

lemma harvest_relays_moves:
  "harvest_relays e n c = Some d \<Longrightarrow> call_moves now (Some c) (Some d)"
  by (auto simp: harvest_relays_def intro: call_moves.stays call_moves.relays [OF call_moves.stays]
      split: if_split_asm Option.bind_split_asm)

lemma harvest_relays_total: "harvest_relays e n c \<noteq> None"
  using ParseRelay_total(2) [of "en_lib e" n] by (auto simp: harvest_relays_def)

lemma evolves_echo_probes [evo]: "evolves now m n \<Longrightarrow> evolves now m (echo_probes e a b c tes n)"
  by (induction tes arbitrary: n) (simp_all add: Let_def evolves_emit split: option.split)

lemma HandleCallTransport_safe: "safe (en_now e) m (HandleCallTransport e node m)"
proof -
  have "safe (en_now e) m (Option.bind (transport_relays e n) (\<lambda>(relays, structured).
      Some (if relays = [] \<or> en_hasConn e \<or> buildRelayConfigs relays = [] then m
            else connectRelays relays (m\<lparr>cm_currentCall :=
              Some (call\<lparr>ci_RelayData := Some (merge_relay_data relays structured (ci_RelayData call))\<rparr>)\<rparr>))))"
    if "cm_currentCall m = Some call" for call n
    using transport_relays_total [of e n] that
    by (intro safe_bind) (auto intro!: evo simp: call_moves.relays [OF call_moves.stays])
  then show ?thesis unfolding HandleCallTransport_def by (auto split: option.split intro: safe_Some evolves_refl)
qed

lemma HandleCallRelayLatency_safe: "safe (en_now e) m (HandleCallRelayLatency e node peer m)"
proof (cases "cm_currentCall m")
  case (Some call)
  show ?thesis
  proof (cases "ExtractNodeInfo (en_lib e) node")
    case info: (Some info)
    show ?thesis unfolding HandleCallRelayLatency_def using harvest_relays_total [of e "ni_InnerNode info" call]
      by (auto simp: Some info Let_def intro!: safe_bind safe_Some evo harvest_relays_moves)
  qed (simp add: HandleCallRelayLatency_def Some safe_Some evolves_refl)
qed (simp add: HandleCallRelayLatency_def safe_Some evolves_refl)

lemma evolves_ack_participants [evo]: "evolves now m n \<Longrightarrow> evolves now m (ack_participants e c ps n)"
  unfolding ack_participants_def Let_def by (intro evo)

lemma HandleCallAck_safe: "safe (en_now e) m (HandleCallAck e node m)"
  unfolding HandleCallAck_def Let_def
  by (intro evo) (simp_all add: ParseRelay_total call_moves.relays [OF call_moves.stays])

text \<open>A new call is put in place first; what follows evolves from there.\<close>

definition starts :: "time \<Rightarrow> ('j, 'f) CallManager \<Rightarrow> ('j, 'f) CallManager \<Rightarrow> bool" where
  "starts now m n \<longleftrightarrow> (cm_wf m \<longrightarrow> cm_wf n) \<and> cm_acceptedByJid n = cm_acceptedByJid m \<and>
     (\<exists>c k rd. call_init (c, now) \<and>
        call_moves now (Some (c\<lparr>ci_EncryptionKey := k, ci_RelayData := rd\<rparr>)) (cm_currentCall n))"

lemma startsI:
  assumes "evolves now (m\<lparr>cm_currentCall := Some (c\<lparr>ci_EncryptionKey := k, ci_RelayData := rd\<rparr>)\<rparr>) n" "call_init (c, now)"
  shows "starts now m n"
  using assms by (auto simp: starts_def evolves_def cm_wf_defs)

lemma begin_outgoing_evolves:
  obtains c where "call_init (c, en_now e)" "ci_CallID c = cid"
    "evolves (en_now e) (m\<lparr>cm_currentCall := Some (c\<lparr>ci_EncryptionKey := Some key, ci_RelayData := None\<rparr>)\<rparr>)
       (begin_outgoing e cid peer video key m)"
proof
  let ?c = "NewOutgoingCall cid (jid_String (en_lib e) peer) (ownCredJid e) (if video then CallMediaTypeVideo else CallMediaTypeAudio) (en_now e)"
  show "call_init (?c, en_now e)" by (rule call_init.outgoing)
  show "ci_CallID ?c = cid" by (simp add: NewOutgoingCall_def)
  have "?c\<lparr>ci_EncryptionKey := Some key, ci_RelayData := None\<rparr> = ?c\<lparr>ci_EncryptionKey := Some key\<rparr>"
    by (simp add: NewOutgoingCall_def)
  then show "evolves (en_now e) (m\<lparr>cm_currentCall := Some (?c\<lparr>ci_EncryptionKey := Some key, ci_RelayData := None\<rparr>)\<rparr>)
       (begin_outgoing e cid peer video key m)"
    unfolding begin_outgoing_def Let_def by (simp, intro conjI impI evo)
qed

lemma StartCall_evolves:
  assumes "\<not> (\<exists>c. cm_currentCall m = Some c \<and> \<not> IsEnded c)"
  obtains c where "call_init (c, en_now e)" "ci_CallID c = cid"
    "evolves (en_now e) (m\<lparr>cm_currentCall := Some (c\<lparr>ci_EncryptionKey := Some key, ci_RelayData := None\<rparr>)\<rparr>)
       (snd (StartCall e cid peer video key m))"
proof -
  obtain c where c: "call_init (c, en_now e)" "ci_CallID c = cid"
    "evolves (en_now e) (m\<lparr>cm_currentCall := Some (c\<lparr>ci_EncryptionKey := Some key, ci_RelayData := None\<rparr>)\<rparr>)
       (begin_outgoing e cid (so_ResolveLIDForPN (en_sock e) peer) video key m)"
    by (rule begin_outgoing_evolves)
  have "evolves (en_now e) (m\<lparr>cm_currentCall := Some (c\<lparr>ci_EncryptionKey := Some key, ci_RelayData := None\<rparr>)\<rparr>)
      (snd (StartCall e cid peer video key m))"
    unfolding StartCall_def startWatchdog_def if_distrib [of snd] sum.case_distrib [of snd] prod.case_distrib [of snd] Let_def snd_conv
    using assms c(3) by (simp only: if_False, intro evolves_transition evo) simp_all
  with c(1,2) show thesis by (rule that)
qed

lemma StartCall_starts:
  assumes "snd (StartCall e cid peer video key m) \<noteq> m"
  shows "starts (en_now e) m (snd (StartCall e cid peer video key m))"
proof -
  have "\<not> (\<exists>c. cm_currentCall m = Some c \<and> \<not> IsEnded c)"
  proof
    assume "\<exists>c. cm_currentCall m = Some c \<and> \<not> IsEnded c"
    then have "snd (StartCall e cid peer video key m) = m" unfolding StartCall_def by (simp only: if_True snd_conv)
    with assms show False by contradiction
  qed
  then show ?thesis by (rule StartCall_evolves) (rule startsI)
qed

lemma HandleCallOffer_evolves:
  assumes "HandleCallOffer e node peer key m = Some n" "ExtractNodeInfo (en_lib e) node = Some info"
  obtains c rd where "call_init (c, en_now e)" "ci_CallID c = ni_CallID info"
    "evolves (en_now e) (m\<lparr>cm_currentCall := Some (c\<lparr>ci_EncryptionKey := key, ci_RelayData := rd\<rparr>)\<rparr>) n"
proof -
  obtain rd where rd: "offer_relays e (ni_InnerNode info) = Some rd"
    using assms by (cases "offer_relays e (ni_InnerNode info)") (auto simp: HandleCallOffer_def)
  let ?c = "NewIncomingCall (ni_CallID info) (jid_String (en_lib e) peer)
    (attrStringOr (en_lib e) (nd_Attrs (ni_InnerNode info)) ''call-creator'' (jid_String (en_lib e) peer)) ''''
    (if OfferHasVideo (Some (ni_InnerNode info)) then CallMediaTypeVideo else CallMediaTypeAudio) (en_now e)"
  have "evolves (en_now e) (m\<lparr>cm_currentCall := Some (?c\<lparr>ci_EncryptionKey := key, ci_RelayData := rd\<rparr>)\<rparr>) n"
    using assms rd unfolding HandleCallOffer_def startWatchdog_def Let_def
    by (simp only: option.case bind.simps) (elim option.inject [THEN iffD1, elim_format], hypsubst, intro evo, simp_all)
  moreover have "ci_CallID ?c = ni_CallID info" by (simp add: NewIncomingCall_def)
  ultimately show thesis by (intro that [of ?c rd] call_init.incoming)
qed

lemma HandleCallOffer_starts:
  assumes "HandleCallOffer e node peer key m = Some n" "n \<noteq> m"
  shows "starts (en_now e) m n"
proof -
  obtain info where "ExtractNodeInfo (en_lib e) node = Some info"
    using assms by (cases "ExtractNodeInfo (en_lib e) node") (auto simp: HandleCallOffer_def)
  from assms(1) this show ?thesis by (rule HandleCallOffer_evolves) (rule startsI)
qed

lemma HandleCallOffer_total: "HandleCallOffer e node peer key m \<noteq> None"
proof (cases "ExtractNodeInfo (en_lib e) node")
  case (Some info)
  obtain rd where "offer_relays e (ni_InnerNode info) = Some rd" using offer_relays_total by fastforce
  with Some show ?thesis unfolding HandleCallOffer_def Let_def by (simp only: option.case bind.simps) simp
qed (simp add: HandleCallOffer_def)

subsection \<open>Media\<close>

lemma created_packet:
  "rh_CsrcCount (rp_Header (with_debe b (fst (CreatePacketWithDuration s p n k)))) = 0 \<and>
   rh_Csrc (rp_Header (with_debe b (fst (CreatePacketWithDuration s p n k)))) = []"
  "rh_CsrcCount (rp_Header (fst (CreatePacketAt s p t k))) = 0 \<and> rh_Csrc (rp_Header (fst (CreatePacketAt s p t k))) = []"
  by (simp_all add: with_debe_def CreatePacketWithDuration_def CreatePacketAt_def NewRtpHeader_def)

lemma mem_exact_session: "mem_exact (m\<lparr>cm_rtpSession := Some s\<rparr>) = mem_exact m" if "cm_rtpSession m = Some s'" for m :: "('j, 'f) CallManager"
  using that by (simp add: mem_exact_def mem_told_def)

lemma evolves_session:
  "evolves now m n \<Longrightarrow> cm_rtpSession n = Some s' \<Longrightarrow> evolves now m (n\<lparr>cm_rtpSession := Some s\<rparr>)"
  by (simp add: evolves_def cm_wf_defs)

lemma sendAudioFrame_cases:
  assumes "cm_rtpSession m = Some sess" "cm_srtp m = Some s"
  obtains m1 p sess' where "evolves now m m1" "cm_rtpSession m1 = Some sess" "cm_srtp m1 = Some s"
    "rh_CsrcCount (rp_Header p) = 0" "rh_Csrc (rp_Header p) = []"
    "map_option snd (sendAudioFrame d n m) = Option.bind (Manager_Protect s (Some p)) (\<lambda>(r, s').
       Some (let m = m1\<lparr>cm_rtpSession := Some sess', cm_firstPacketSent := True, cm_rtcp := note_audio_sent p (cm_rtcp m1),
           cm_srtp := Some s'\<rparr>
         in case r of Inl er \<Rightarrow> m | Inr b \<Rightarrow> relay (Broadcast b) m))"
proof
  define m1 where "m1 = (if \<not> cm_firstPacketSent m then observe (ObMark ''media.first_packet'') m else m)"
  define q where "q = CreatePacketWithDuration sess d n (\<not> cm_firstPacketSent m)"
  let ?p = "with_debe (cm_debeEnabled m1) (fst q)"
  show "evolves now m m1" by (simp add: m1_def evolves_emit evolves_refl)
  show m1: "cm_rtpSession m1 = Some sess" "cm_srtp m1 = Some s" using assms by (simp_all add: m1_def emit_def)
  show "rh_CsrcCount (rp_Header ?p) = 0" "rh_Csrc (rp_Header ?p) = []" using created_packet(1) by (simp_all add: q_def)
  show "map_option snd (sendAudioFrame d n m) = Option.bind (Manager_Protect s (Some ?p)) (\<lambda>(r, s').
       Some (let m = m1\<lparr>cm_rtpSession := Some (snd q), cm_firstPacketSent := True, cm_rtcp := note_audio_sent ?p (cm_rtcp m1),
           cm_srtp := Some s'\<rparr>
         in case r of Inl er \<Rightarrow> m | Inr b \<Rightarrow> relay (Broadcast b) m))"
    unfolding sendAudioFrame_def Let_def assms prod.case option.case m1_def [symmetric] q_def [symmetric]
    by (cases q) (simp add: assms split: Option.bind_split sum.split)
qed

lemma sendAudioFrame_safe: "safe now m (map_option snd (sendAudioFrame d n m))"
proof (cases "\<exists>sess s. cm_rtpSession m = Some sess \<and> cm_srtp m = Some s")
  case True
  then obtain sess s where c: "cm_rtpSession m = Some sess" "cm_srtp m = Some s" by blast
  from c obtain m1 p sess' where m1: "evolves now m m1" "cm_rtpSession m1 = Some sess" "cm_srtp m1 = Some s"
      "rh_CsrcCount (rp_Header p) = 0" "rh_Csrc (rp_Header p) = []" and
    eq: "map_option snd (sendAudioFrame d n m) = Option.bind (Manager_Protect s (Some p)) (\<lambda>(r, s').
       Some (let m = m1\<lparr>cm_rtpSession := Some sess', cm_firstPacketSent := True, cm_rtcp := note_audio_sent p (cm_rtcp m1),
           cm_srtp := Some s'\<rparr>
         in case r of Inl er \<Rightarrow> m | Inr b \<Rightarrow> relay (Broadcast b) m))"
    by (rule sendAudioFrame_cases)
  show ?thesis unfolding eq
  proof (intro safe_bind)
    show "Manager_Protect s (Some p) \<noteq> None" if "cm_wf m"
      using that c m1(4,5) Manager_Protect_wf [of s p] by (auto simp: cm_wf_def)
    fix rs assume rs: "Manager_Protect s (Some p) = Some rs"
    obtain r s' where rs': "rs = (r, s')" by fastforce
    have "srtp_wf (Some s) \<Longrightarrow> srtp_wf (Some s')" using rs rs' m1(4,5) Manager_Protect_wf [of s p] by auto
    then show "safe now m (case rs of (r, s') \<Rightarrow> Some (let m = m1\<lparr>cm_rtpSession := Some sess', cm_firstPacketSent := True,
          cm_rtcp := note_audio_sent p (cm_rtcp m1), cm_srtp := Some s'\<rparr>
        in case r of Inl er \<Rightarrow> m | Inr b \<Rightarrow> relay (Broadcast b) m))"
      unfolding rs' Let_def prod.case
      by (intro safe_Some evolves_sum evolves_emit evolves_srtp evolves_rtcp evolves_fields evolves_session [OF m1(1,2)])
         (simp_all add: m1(3))
  qed
qed (auto simp: sendAudioFrame_def safe_Some evolves_refl split: option.split)

lemma send_payloads_wf:
  assumes "send_ok s" "recv_ok s"
  shows "\<exists>er out sess' s'. send_payloads ts ps sess s = Some (er, out, sess', s') \<and> send_ok s' \<and> recv_ok s'"
  using assms
proof (induction ps arbitrary: sess s)
  case (Cons p ps)
  obtain pkt sess1 where cp: "CreatePacketAt sess p ts (ps = []) = (pkt, sess1)" by fastforce
  obtain r s1 where p: "Manager_Protect s (Some pkt) = Some (r, s1)" "send_ok s1" "recv_ok s1"
    using Manager_Protect_wf [OF Cons.prems, of pkt] created_packet(2) [of sess p ts "ps = []"] cp by auto
  show ?case using Cons.IH [OF p(2,3), of sess1] cp p by (cases r) auto
qed simp

lemma PacketizeH264_total: "PacketizeH264 d n \<noteq> None"
  using AnnexBNALUs_total [of d] by (auto simp: PacketizeH264_def Let_def)

lemma sendVideoFrame_safe: "safe now m (map_option snd (sendVideoFrame e d ts m))"
proof (cases "\<exists>sess s. vs_session (cm_video m) = Some sess \<and> cm_srtp m = Some s \<and> en_hasConn e")
  case True
  then obtain sess s where c: "vs_session (cm_video m) = Some sess" "cm_srtp m = Some s" "en_hasConn e" by blast
  obtain ps where ps: "PacketizeH264 d 0 = Some ps" using PacketizeH264_total by fastforce
  let ?k = "\<lambda>(er, out, sess', s'). (let n = fold (\<lambda>b. relay (Broadcast b)) out
      (m\<lparr>cm_video := (cm_video m)\<lparr>vs_session := Some sess'\<rparr>, cm_srtp := Some s'\<rparr>)
    in if er = None then n\<lparr>cm_video := (cm_video n)\<lparr>vs_firstSent := True\<rparr>,
         cm_rtcp := note_video_sent (length ps) (length d) ts (cm_rtcp n)\<rparr> else n)"
  have eq: "map_option snd (sendVideoFrame e d ts m) = (if ps = [] then Some m else map_option ?k (send_payloads ts ps sess s))"
    using c ps by (auto simp: sendVideoFrame_def Let_def split: Option.bind_split option.split)
  have k: "evolves now m (?k (er, out, sess', s'))" if "srtp_wf (Some s) \<Longrightarrow> srtp_wf (Some s')" for er out sess' s'
    unfolding Let_def prod.case using that c
    by (intro evo evolves_fold) (simp_all)
  show ?thesis
  proof (rule safe_wf)
    assume "cm_wf m"
    then have "send_ok s" "recv_ok s" using c(2) by (simp_all add: cm_wf_def)
    then obtain er out sess' s' where sp: "send_payloads ts ps sess s = Some (er, out, sess', s')" "send_ok s'" "recv_ok s'"
      using send_payloads_wf by blast
    then show ?thesis unfolding eq using k [of s' er out sess'] by (simp add: safe_Some evolves_refl)
  qed
qed (auto simp: sendVideoFrame_def safe_Some evolves_refl split: option.split)

lemma rtcp_tick_safe: "safe now m (rtcp_tick_step e t m)"
proof (rule safe_wf)
  assume wf: "cm_wf m"
  show ?thesis
  proof (cases "rt_sendSrtcp (cm_rtcp m)")
    case None
    then have "rtcp_tick_step e t m = Some m"
      by (cases t) (simp_all add: emitRtcp208_def emitRtcp209_def emitRtcpSR_def emit_pair_def)
    then show ?thesis by (simp add: safe_Some evolves_refl)
  next
    case (Some c)
    with wf have ok: "srtcp_ok c" by (simp add: cm_wf_def srtcp_wf_def)
    obtain ps m1 where p: "tick_plain e t m = (ps, m1)" by fastforce
    have rep: "evolves now m n \<Longrightarrow> report_for e q n = (rb, n') \<Longrightarrow> evolves now m n'" for q n rb n'
      by (auto simp: report_for_def intro!: evo split: option.split_asm if_split_asm prod.split_asm)
    have "evolves now m m1"
      using p rep [OF evolves_refl] by (cases t) (auto simp: evolves_refl Let_def split: prod.split_asm if_split_asm intro: rep)
    then have "evolves now m (bump bs m1)" for bs
      by (simp add: bump_def evolves_def cm_wf_defs comp_def filter_map)
    then show ?thesis
      using rtcp_tick_plain [OF Some ok p] protect_all_bump [OF ok tick_plain_long [OF p], of m1] by (simp add: safe_Some)
  qed
qed

lemma evolves_notePeerMediaLocked [evo]: "evolves (en_now e) m n \<Longrightarrow> evolves (en_now e) m (notePeerMediaLocked e n)"
  unfolding notePeerMediaLocked_def by (intro evolves_let evolves_transition evo)

lemma evolves_notePeerMedia [evo]: "evolves (en_now e) m n \<Longrightarrow> evolves (en_now e) m (notePeerMedia e s n)"
  unfolding notePeerMedia_def by (intro evo)

lemma evolves_learn_peer [evo]: "evolves now m n \<Longrightarrow> evolves now m (learn_peer pt s n)"
  unfolding learn_peer_def by (intro evolves_let evo)

lemma evolves_note_compound [evo]: "evolves now m n \<Longrightarrow> evolves now m (note_compound e inb st n)"
  unfolding note_compound_def Let_def by (intro evo) simp_all

lemma rx_ok_commit: "rx_ok rx \<Longrightarrow> lock_commit now s f rx = (rx', b) \<Longrightarrow> rx_ok rx'"
  by (auto simp: lock_commit_def split: if_split_asm)

lemma evolves_deliver [evo]: "evolves now m n \<Longrightarrow> evolves now m (deliver e pt s f p n)"
  unfolding deliver_def Let_def by (intro evo) (auto dest: rx_ok_commit)

lemma ParseRTCPSenderSSRC_total: "ParseRTCPSenderSSRC d \<noteq> None"
  by (auto simp: ParseRTCPSenderSSRC_def idx_def be_uint32_nth)

lemma on_rtcp_safe: "safe (en_now e) m (on_rtcp e d m)"
proof (rule safe_wf)
  assume wf: "cm_wf m"
  obtain s b where s: "ParseRTCPSenderSSRC d = Some (s, b)" using ParseRTCPSenderSSRC_total [of d] by fastforce
  define n where "n = notePeerMedia e s m"
  have n: "evolves (en_now e) m n" by (simp add: n_def evolves_notePeerMedia evolves_refl)
  have ok: "srtcp_ok c" if "rt_recvSrtcp (cm_rtcp n) = Some c" for c
    using evolves_wf [OF n wf] that by (simp add: cm_wf_def srtcp_wf_def)
  define inb where "inb d = the (ParseRTCPCompound d)" for d
  have inb: "ParseRTCPCompound d = Some (inb d)" for d
    using parse_compound_total by (fastforce simp: inb_def ParseRTCPCompound_def)
  show ?thesis
  proof (cases "rt_recvSrtcp (cm_rtcp n)")
    case (Some c)
    then obtain r where "SrtcpContext_Unprotect c d = Some r" using SrtcpContext_Unprotect_total [OF ok] by blast
    with Some have "on_rtcp e d m = Some (case rt_recvStats (cm_rtcp n) of
        None \<Rightarrow> n
      | Some st \<Rightarrow> (case r of
            Inl er \<Rightarrow> n\<lparr>cm_srtcpDrops := fst (tally_add (srtp_error_name er) (cm_srtcpDrops n))\<rparr>
          | Inr plain \<Rightarrow> note_compound e (inb plain) st n))"
      by (simp add: on_rtcp_def Let_def s n_def [symmetric] inb split: option.split sum.split)
    then show ?thesis by (simp only:) (intro safe_Some evolves_option evolves_sum evolves_note_compound evolves_fields n)
  qed (simp add: on_rtcp_def s n_def [symmetric] safe_Some n)
qed

lemma on_admitted_safe:
  assumes "12 \<le> length d"
  shows "safe (en_now e) m (on_admitted e d pt s f m)"
proof (rule safe_wf)
  assume wf: "cm_wf m"
  define n where "n = learn_peer pt s (notePeerMediaLocked e m)"
  have n: "evolves (en_now e) m n" unfolding n_def by (intro evo)
  have "safe (en_now e) m (do { (r, srtp') \<leftarrow> Manager_Unprotect srtp d; Some (g r (n\<lparr>cm_srtp := Some srtp'\<rparr>)) })"
    if srtp: "cm_srtp n = Some srtp" and g: "\<And>r k. evolves (en_now e) m k \<Longrightarrow> evolves (en_now e) m (g r k)" for srtp g
  proof -
    obtain r srtp' where "Manager_Unprotect srtp d = Some (r, srtp')" "send_ok srtp'" "recv_ok srtp'"
      using evolves_wf [OF n wf] srtp Manager_Unprotect_wf [of srtp, OF _ _ assms] by (auto simp: cm_wf_def)
    then show ?thesis by (auto intro!: safe_Some g evolves_srtp n)
  qed
  note k = this
  show ?thesis unfolding on_admitted_def n_def [symmetric] Let_def
    by (auto intro!: k safe_Some n evolves_sum evolves_if evolves_emit evolves_fields evolves_deliver split: option.split)
qed

lemma rx_admit_total:
  assumes "rx_ok rx"
  shows "rx_admit now s q rx \<noteq> None"
proof -
  let ?rx = "if s = rx_LockedSsrc rx then rx\<lparr>rx_LockedLastNs := now\<rparr> else rx"
  obtain rx' where "dedup_insert (dedup_key s q) ?rx = Some rx'" using dedup_insert_total [of ?rx] assms by fastforce
  then show ?thesis by (cases "s = rx_LockedSsrc rx"; cases "lock_check now s rx") (auto simp: rx_admit_def Let_def)
qed

lemma on_rtp_safe: "safe (en_now e) m (on_rtp e d m)"
proof (rule safe_wf)
  assume wf: "cm_wf m"
  show ?thesis
  proof (cases "length d < 12")
    case False
    obtain s where s: "RTPSsrc d = Some s" using RTPSsrc_total False by fastforce
    let ?q = "join16 (d ! 2) (d ! 3)"
    have rx: "rx_ok (cm_rx m)" using wf by (simp add: cm_wf_def)
    then obtain v rx' where a: "rx_admit (en_now e) s ?q (cm_rx m) = Some (v, rx')"
      using rx_admit_total by fastforce
    have n: "evolves (en_now e) m (m\<lparr>cm_rx := rx'\<rparr>)"
      using rx_admit_locks [OF a rx] by (intro evo) simp
    have "safe (en_now e) m (on_verdict e d pt s v (m\<lparr>cm_rx := rx'\<rparr>))" for pt
      using safe_trans [OF on_admitted_safe n] False
      by (auto simp: on_verdict_def intro!: safe_Some evolves_emit evolves_fields n split: admission.split)
    then show ?thesis using False s a by (auto simp: on_rtp_def idx_def intro: safe_Some evolves_refl)
  qed (simp add: on_rtp_def safe_Some evolves_refl)
qed

lemma onRelayData_safe: "safe (en_now e) m (onRelayData e d m)"
  unfolding onRelayData_def by (intro evo on_rtcp_safe on_rtp_safe)

lemma fill_loop_total:
  assumes "pos < length music"
  shows "\<exists>pos'. fill_loop n music pos acc = Some (rev acc @ map (\<lambda>i. music ! ((pos + i) mod length music)) [0..<n], pos') \<and>
    pos' = (pos + n) mod length music"
  using assms
proof (induction n arbitrary: pos acc)
  case (Suc n)
  have lt: "(pos + 1) mod length music < length music" using Suc.prems by (intro mod_less_divisor) linarith
  have "map (\<lambda>i. music ! ((pos + i) mod length music)) [0..<Suc n] =
      music ! pos # map (\<lambda>i. music ! (((pos + 1) mod length music + i) mod length music)) [0..<n]"
    using Suc.prems by (simp add: map_upt_Suc mod_add_left_eq del: upt_Suc)
  with Suc.IH [OF lt] Suc.prems show ?case by (auto simp: idx_def mod_add_left_eq)
qed simp

lemma fillHoldMusic_safe: "safe now m (map_option snd (fillHoldMusic n m))"
proof (rule safe_wf)
  assume wf: "cm_wf m"
  show ?thesis
  proof (cases "\<not> cm_holdActive m \<or> cm_holdMusic m = []")
    case False
    then have p: "cm_holdPos m < length (cm_holdMusic m)" using wf by (simp add: cm_wf_def hold_ok_def)
    then have "(cm_holdPos m + n) mod length (cm_holdMusic m) < length (cm_holdMusic m)" by (intro mod_less_divisor) linarith
    then have "evolves now m (m\<lparr>cm_holdPos := (cm_holdPos m + n) mod length (cm_holdMusic m)\<rparr>)"
      by (simp add: evolves_def cm_wf_defs call_moves.stays)
    with False fill_loop_total [OF p, of n "[]"] show ?thesis by (auto simp: fillHoldMusic_def intro: safe_Some)
  qed (simp add: fillHoldMusic_def safe_Some evolves_refl)
qed

end
