(* ===== verification/Call_System.thy ===== *)
theory Call_System
  imports Call_Invariant
begin

text \<open>
  The call manager as a system: one event per handler, any event at any time under a clock that
  does not run backwards. \<open>HandleCallAccept\<close> appears three times: whole, as the dispatcher of the
  messaging connection runs it, and as its two locked sections \<open>EvAcceptKey\<close> and \<open>EvAcceptCommit\<close>, between
  which other handlers may run. Work that a handler starts on another goroutine is an event too.
\<close>

section \<open>Events\<close>

datatype ('j, 'e, 'f) call_event =
    EvStartCall string 'j bool bytes
  | EvAcceptCall string
  | EvRejectCall string EndCallReason
  | EvEndCall EndCallReason
  | EvOffer "'j node" 'j "bytes option"
  | EvAccept "'j node" 'j
  | EvAcceptKey 'j "'e + bytes option"
  | EvAcceptCommit "'j node" 'j
  | EvTransport "'j node"
  | EvRelayLatency "'j node" 'j
  | EvAck "'j node"
  | EvTerminate "'j node"
  | EvHold "'f list"
  | EvResume
  | EvFillHold nat
  | EvRelayConnected
  | EvRelayUsable int
  | EvRelayData bytes
  | EvWatchdog
  | EvEnableVideo
  | EvDisableVideo
  | EvVideoState "'j node"
  | EvAudioFrame bytes int
  | EvVideoFrame bytes u32
  | EvRtcpTick rtcp_tick
  | EvConnectRelays "RelayEndpoint list"
  | EvTransportUpdate 'j 'j string

fun dispatch :: "('j, 'e, 'f) env \<Rightarrow> ('j, 'e, 'f) call_event \<Rightarrow> ('j, 'f) CallManager \<Rightarrow> ('j, 'f) CallManager go" where
  "dispatch e (EvStartCall cid peer video key) m = Some (snd (StartCall e cid peer video key m))"
| "dispatch e (EvAcceptCall cid) m = Some (snd (AcceptCall e cid m))"
| "dispatch e (EvRejectCall cid reason) m = Some (snd (RejectCall e cid reason m))"
| "dispatch e (EvEndCall reason) m = Some (EndCall e reason m)"
| "dispatch e (EvOffer node peer key) m = HandleCallOffer e node peer key m"
| "dispatch e (EvAccept node peer) m = Some (HandleCallAccept e id node peer m)"
| "dispatch e (EvAcceptKey peer key) m = Some (accept_rekey e peer key m)"
| "dispatch e (EvAcceptCommit node peer) m = Some (accept_commit e node peer m)"
| "dispatch e (EvTransport node) m = HandleCallTransport e node m"
| "dispatch e (EvRelayLatency node peer) m = HandleCallRelayLatency e node peer m"
| "dispatch e (EvAck node) m = HandleCallAck e node m"
| "dispatch e (EvTerminate node) m = Some (HandleCallTerminate e node m)"
| "dispatch e (EvHold music) m = Some (snd (Hold e music m))"
| "dispatch e EvResume m = Some (snd (Resume e m))"
| "dispatch e (EvFillHold n) m = map_option snd (fillHoldMusic n m)"
| "dispatch e EvRelayConnected m = Some (onRelayConnected e m)"
| "dispatch e (EvRelayUsable usable) m = Some (onRelayUsableChange e usable m)"
| "dispatch e (EvRelayData data) m = onRelayData e data m"
| "dispatch e EvWatchdog m = Some (snd (expireIfOverdue e m))"
| "dispatch e EvEnableVideo m = Some (snd (EnableLocalVideo e m))"
| "dispatch e EvDisableVideo m = Some (snd (DisableLocalVideo e m))"
| "dispatch e (EvVideoState node) m = Some (HandleVideoState e node m)"
| "dispatch e (EvAudioFrame data n) m = map_option snd (sendAudioFrame data n m)"
| "dispatch e (EvVideoFrame frame ts) m = map_option snd (sendVideoFrame e frame ts m)"
| "dispatch e (EvRtcpTick t) m = rtcp_tick_step e t m"
| "dispatch e (EvConnectRelays eps) m = Some (connectRelays eps m)"
| "dispatch e (EvTransportUpdate peer creator cid) m = Some (sendTransportUpdate e peer creator cid m)"

text \<open>Events that put a new call in place, and those that may set the answering device.\<close>

fun starting :: "('j, 'e, 'f) call_event \<Rightarrow> bool" where
  "starting (EvStartCall _ _ _ _) = True"
| "starting (EvOffer _ _ _) = True"
| "starting _ = False"

fun accepting :: "('j, 'e, 'f) call_event \<Rightarrow> bool" where
  "accepting (EvAccept _ _) = True"
| "accepting (EvAcceptCommit _ _) = True"
| "accepting _ = False"

section \<open>One event\<close>

lemma dispatch_safe: "\<not> starting ev \<Longrightarrow> \<not> accepting ev \<Longrightarrow> safe (en_now e) m (dispatch e ev m)"
  by (cases ev)
     (simp_all add: safe_Some AcceptCall_evolves RejectCall_evolves evolves_EndCall evolves_refl accept_rekey_evolves
       HandleCallTransport_safe HandleCallRelayLatency_safe HandleCallAck_safe HandleCallTerminate_evolves Hold_evolves
       Resume_evolves fillHoldMusic_safe onRelayConnected_evolves onRelayUsableChange_evolves onRelayData_safe
       expireIfOverdue_evolves EnableLocalVideo_evolves DisableLocalVideo_evolves HandleVideoState_evolves
       sendAudioFrame_safe sendVideoFrame_safe rtcp_tick_safe evolves_connectRelays evolves_sendTransportUpdate)

text \<open>An accept stanza, with anything in its decryption window, is its two sections or nothing.\<close>

lemma HandleCallAccept_sections:
  "HandleCallAccept e meanwhile node peer m = m \<or>
   \<not> accept_foreign (jid_String (en_lib e) peer) m \<and>
   (\<exists>n. (n = meanwhile m \<or> (\<exists>key. n = accept_rekey e peer key (meanwhile m))) \<and>
        HandleCallAccept e meanwhile node peer m = accept_commit e node peer n)"
  by (auto simp: HandleCallAccept_def Let_def split: option.split)

text \<open>What an accept stanza does: as any other event, once the answering device \<open>p\<close> is set.\<close>

definition accepts :: "time \<Rightarrow> string \<Rightarrow> ('j, 'f) CallManager \<Rightarrow> ('j, 'f) CallManager \<Rightarrow> bool" where
  "accepts now p m n \<longleftrightarrow> evolves now (m\<lparr>cm_acceptedByJid := p\<rparr>) n"

lemma accepts_none: "evolves now m n \<Longrightarrow> accepts now (cm_acceptedByJid m) m n"
  by (simp add: accepts_def)

lemma accept_commit_accepts:
  assumes "evolves (en_now e) m n"
  shows "accepts (en_now e) (cm_acceptedByJid m) m (accept_commit e node peer n) \<or>
    accepts (en_now e) (jid_String (en_lib e) peer) m (accept_commit e node peer n)"
  using accept_commit_evolves [of e node peer n]
proof
  assume "accept_commit e node peer n = n"
  then show ?thesis using accepts_none [OF assms] by simp
next
  let ?p = "jid_String (en_lib e) peer"
  assume "evolves (en_now e) (n\<lparr>cm_acceptedByJid := ?p\<rparr>) (accept_commit e node peer n)"
  from evolves_trans [OF this evolves_answered [OF assms]] show ?thesis by (simp add: accepts_def)
qed

lemma EvAccept_accepts:
  "\<exists>p. accepts (en_now e) p m (HandleCallAccept e id node peer m) \<and> (cm_acceptedByJid m \<noteq> '''' \<longrightarrow> p = cm_acceptedByJid m)"
proof -
  have *: ?thesis if n: "evolves (en_now e) m n" and r: "HandleCallAccept e id node peer m = accept_commit e node peer n"
    and f: "\<not> accept_foreign (jid_String (en_lib e) peer) m" for n
    using accept_commit_accepts [OF n, of node peer] f unfolding r by (auto simp: accept_foreign_def)
  from HandleCallAccept_sections [of e id node peer m] show ?thesis
    using accepts_none [OF evolves_refl, of "en_now e" m] by (auto intro: * evolves_refl accept_rekey_evolves)
qed

lemma accepting_accepts:
  assumes "accepting ev"
  obtains n p where "dispatch e ev m = Some n" "accepts (en_now e) p m n"
proof (cases ev)
  case (EvAccept node peer)
  then show ?thesis using that EvAccept_accepts [of e m node peer] by (metis dispatch.simps(6))
next
  case (EvAcceptCommit node peer)
  then show ?thesis using that accept_commit_accepts [OF evolves_refl, of e m node peer] by auto
qed (use assms in simp_all)

lemma starting_starts:
  assumes "starting ev"
  obtains n where "dispatch e ev m = Some n" "n = m \<or> starts (en_now e) m n"
  using assms
proof (cases ev)
  case (EvStartCall cid peer video key)
  then show ?thesis using that StartCall_starts by fastforce
next
  case (EvOffer node peer key)
  then show ?thesis using that HandleCallOffer_total [of e node peer key m] HandleCallOffer_starts by fastforce
qed simp_all

text \<open>Together: no event panics on a well-formed manager, and what it leaves is well-formed.\<close>

lemma dispatch_wf:
  assumes "cm_wf m"
  shows "\<exists>n. dispatch e ev m = Some n \<and> cm_wf n"
proof -
  consider "starting ev" | "accepting ev" | "\<not> starting ev" "\<not> accepting ev" by blast
  then show ?thesis
  proof cases
    case 1
    then obtain n where "dispatch e ev m = Some n" "n = m \<or> starts (en_now e) m n" by (rule starting_starts)
    with assms show ?thesis by (auto simp: starts_def)
  next
    case 2
    then obtain n p where "dispatch e ev m = Some n" "accepts (en_now e) p m n" by (rule accepting_accepts)
    with assms show ?thesis by (auto simp: accepts_def evolves_def cm_wf_defs)
  next
    case 3
    from dispatch_safe [OF this, of e m] assms show ?thesis by (auto simp: safe_def evolves_def)
  qed
qed

section \<open>Reachable managers\<close>

type_synonym ('j, 'f) cm_cfg = "('j, 'f) CallManager \<times> time"

inductive cm_init :: "('j, 'f) cm_cfg \<Rightarrow> bool" where
  "cm_init (NewCallManager exts, now)"

text \<open>Socket errors are represented by their messages.\<close>

inductive cm_step :: "('j, 'f) cm_cfg \<Rightarrow> ('j, 'f) cm_cfg \<Rightarrow> bool" where
  "now \<le> en_now (e :: ('j, string, 'f) env) \<Longrightarrow> dispatch e ev m = Some n \<Longrightarrow> cm_step (m, now) (n, en_now e)"

inductive_cases cm_stepE: "cm_step (m, now) (n, now')"

definition cm_inv :: "('j, 'f) cm_cfg \<Rightarrow> bool" where
  "cm_inv cfg \<longleftrightarrow> cm_wf (fst cfg) \<and> (\<forall>c. cm_currentCall (fst cfg) = Some c \<longrightarrow> call_inv (c, snd cfg))"

lemma cm_wf_new: "cm_wf (NewCallManager exts)"
  by (simp add: cm_wf_defs NewCallManager_def)

lemma call_inv_fields [simp]:
  "call_inv (c\<lparr>ci_RelayData := r\<rparr>, t) = call_inv (c, t)" "call_inv (c\<lparr>ci_MediaType := v\<rparr>, t) = call_inv (c, t)"
  "call_inv (c\<lparr>ci_EncryptionKey := k\<rparr>, t) = call_inv (c, t)"
  by (simp_all add: call_inv_def)

lemma call_moves_inv:
  "call_moves now a b \<Longrightarrow> (\<And>c. a = Some c \<Longrightarrow> call_inv (c, now)) \<Longrightarrow> b = Some d \<Longrightarrow> call_inv (d, now)"
  by (induction arbitrary: d rule: call_moves.induct) (auto intro: call_inv_apply)

lemma call_inv_later: "call_inv (c, now) \<Longrightarrow> now \<le> now' \<Longrightarrow> call_inv (c, now')"
  by (auto simp: call_inv_def intro: order_inv_later)

text \<open>How one event moves the call: a new one, or the old one along its life cycle.\<close>

lemma dispatch_call:
  assumes "dispatch e ev m = Some n" "cm_wf m"
  shows "call_moves (en_now e) (cm_currentCall m) (cm_currentCall n) \<or> starting ev \<and> starts (en_now e) m n"
proof -
  consider "starting ev" | "accepting ev" | "\<not> starting ev" "\<not> accepting ev" by blast
  then show ?thesis
  proof cases
    case 1
    then obtain n' where "dispatch e ev m = Some n'" "n' = m \<or> starts (en_now e) m n'" by (rule starting_starts)
    with assms(1) have "n = m \<or> starts (en_now e) m n" by simp
    with 1 call_moves.stays show ?thesis by blast
  next
    case 2
    then obtain n' p where "dispatch e ev m = Some n'" "accepts (en_now e) p m n'" by (rule accepting_accepts)
    with assms(1) show ?thesis by (auto simp: accepts_def evolves_def)
  next
    case 3
    from dispatch_safe [OF this, of e m] assms show ?thesis by (auto simp: safe_def evolves_def)
  qed
qed

lemma starts_inv:
  assumes "starts now m n" "cm_currentCall n = Some d"
  shows "call_inv (d, now)"
proof -
  obtain c k rd where c: "call_init (c, now)" "call_moves now (Some (c\<lparr>ci_EncryptionKey := k, ci_RelayData := rd\<rparr>)) (cm_currentCall n)"
    using assms(1) by (auto simp: starts_def)
  show ?thesis using call_moves_inv [OF c(2) _ assms(2)] call_inv_init [OF c(1)] by auto
qed

lemma cm_inv_step:
  assumes "cm_inv cfg" "cm_step cfg cfg'"
  shows "cm_inv cfg'"
  using assms(2)
proof cases
  case (1 now e ev m n)
  with assms(1) have wf: "cm_wf m" and old: "cm_currentCall m = Some c \<Longrightarrow> call_inv (c, en_now e)" for c
    by (auto simp: cm_inv_def intro: call_inv_later)
  have "cm_wf n" using dispatch_wf [OF wf, of e ev] 1 by simp
  moreover have "call_inv (d, en_now e)" if "cm_currentCall n = Some d" for d
    using dispatch_call [OF 1(4) wf] starts_inv that call_moves_inv [OF _ old that] by blast
  ultimately show ?thesis using 1 by (simp add: cm_inv_def)
qed

interpretation cm: invariant_system cm_init cm_step cm_inv
proof unfold_locales
  show "cm_inv s" if "cm_init s" for s :: "('a, 'b) cm_cfg"
    using that by cases (simp add: cm_inv_def cm_wf_new, simp add: NewCallManager_def)
qed (rule cm_inv_step)

section \<open>Refinement of the life cycle\<close>

text \<open>A call as the life cycle sees it: what signaling adds to it is left out.\<close>

definition call_abs :: "CallInfo \<Rightarrow> CallInfo" where
  "call_abs c = c\<lparr>ci_RelayData := None, ci_MediaType := CallMediaTypeAudio\<rparr>"

lemma ApplyTransition_abs: "ApplyTransition c t now = Inr d \<Longrightarrow> ApplyTransition (call_abs c) t now = Inr (call_abs d)"
  by (auto simp: ApplyTransition_def call_abs_def split: sum.split_asm)

lemma call_moves_steps:
  "call_moves now a b \<Longrightarrow> a = Some c \<Longrightarrow> b = Some d \<Longrightarrow> call_step\<^sup>*\<^sup>* (call_abs c, now) (call_abs d, now)"
proof (induction arbitrary: d rule: call_moves.induct)
  case (applies a b t d')
  then have "call_step (call_abs b, now) (call_abs d', now)" by (auto intro: call_step.applied ApplyTransition_abs)
  with applies show ?case by (auto intro: rtranclp.rtrancl_into_rtrancl)
next
  case (relays a b r)
  then have "call_abs d = call_abs b" by (auto simp: call_abs_def)
  with relays show ?case by auto
next
  case (media a b v)
  then have "call_abs d = call_abs b" by (auto simp: call_abs_def)
  with media show ?case by auto
qed simp

section \<open>The answering device\<close>

fun cm_run :: "(('j, 'e, 'f) env \<times> ('j, 'e, 'f) call_event) list \<Rightarrow> ('j, 'f) CallManager \<Rightarrow> ('j, 'f) CallManager go" where
  "cm_run [] m = Some m"
| "cm_run ((e, ev) # evs) m = do { m \<leftarrow> dispatch e ev m; cm_run evs m }"

fun sequential :: "('j, 'e, 'f) call_event \<Rightarrow> bool" where
  "sequential (EvAcceptCommit _ _) = False"
| "sequential _ = True"

lemma dispatch_answered:
  assumes "dispatch e ev m = Some n" "cm_wf m" "sequential ev" "cm_acceptedByJid m \<noteq> ''''"
  shows "cm_acceptedByJid n = cm_acceptedByJid m"
proof -
  consider "starting ev" | node peer where "ev = EvAccept node peer" | "\<not> starting ev" "\<not> accepting ev"
    using assms(3) by (cases ev) auto
  then show ?thesis
  proof cases
    case 1
    then obtain n' where "dispatch e ev m = Some n'" "n' = m \<or> starts (en_now e) m n'" by (rule starting_starts)
    with assms(1) show ?thesis by (auto simp: starts_def)
  next
    case 2
    with assms(1,4) show ?thesis using EvAccept_accepts [of e m node peer] by (auto simp: accepts_def evolves_def)
  next
    case 3
    from dispatch_safe [OF this, of e m] assms(1,2) show ?thesis by (auto simp: safe_def evolves_def)
  qed
qed

lemma cm_run_answered:
  assumes "cm_run evs m = Some n" "cm_wf m" "list_all (sequential \<circ> snd) evs" "cm_acceptedByJid m \<noteq> ''''"
  shows "cm_acceptedByJid n = cm_acceptedByJid m"
  using assms
proof (induction evs arbitrary: m)
  case (Cons x evs)
  obtain e ev where x: "x = (e, ev)" by fastforce
  with Cons.prems obtain k where k: "dispatch e ev m = Some k" "cm_run evs k = Some n" by (auto split: Option.bind_split_asm)
  have "cm_acceptedByJid k = cm_acceptedByJid m" using dispatch_answered [OF k(1) Cons.prems(2)] Cons.prems x by simp
  moreover have "cm_wf k" using dispatch_wf [OF Cons.prems(2), of e ev] k(1) by simp
  ultimately show ?case using Cons.IH [OF k(2)] Cons.prems by simp
qed simp

section \<open>The watchdog\<close>

fun watch :: "('j, 'e, 'f) env list \<Rightarrow> ('j, 'f) CallManager \<Rightarrow> ('j, 'f) CallManager" where
  "watch [] m = m"
| "watch (e # es) m = watch es (snd (expireIfOverdue e m))"

lemma watch_append [simp]: "watch (es @ fs) m = watch fs (watch es m)"
  by (induction es arbitrary: m) simp_all

lemma timeouts_frame [simp]:
  "cm_timeouts (emit x m) = cm_timeouts m" "cm_timeouts (emitState m) = cm_timeouts m"
  "cm_timeouts (cleanupMedia m) = cm_timeouts m" "cm_timeouts (go_redial eps m) = cm_timeouts m"
  "cm_timeouts (announce_end m) = cm_timeouts m"
  by (simp_all add: emit_def emitState_def cleanupMedia_def go_redial_def announce_end_def replaceRtpSession_def Let_def
      split: option.split)

lemma call_frame [simp]:
  "cm_currentCall (emitState m) = cm_currentCall m" "cm_currentCall (cleanupMedia m) = cm_currentCall m"
  "cm_currentCall (go_redial eps m) = cm_currentCall m" "cm_currentCall (announce_end m) = cm_currentCall m"
  by (simp_all add: emitState_def emit_def cleanupMedia_def go_redial_def announce_end_def replaceRtpSession_def Let_def
      split: option.split)

lemma retryReconnect_frame [simp]:
  "cm_currentCall (retryReconnect e m) = cm_currentCall m" "cm_timeouts (retryReconnect e m) = cm_timeouts m"
  by (simp_all add: retryReconnect_def Let_def split: option.split)

definition timed_out :: "CallInfo \<Rightarrow> bool" where
  "timed_out c \<longleftrightarrow> IsEnded c \<and> sd_EndReason (ci_StateData c) = EndCallReasonTimeout"

lemma EndCall_call:
  assumes "cm_currentCall m = Some c" "\<not> IsEnded c"
  shows "\<exists>c'. cm_currentCall (EndCall e reason m) = Some c' \<and> IsEnded c' \<and> sd_EndReason (ci_StateData c') = reason"
    and "cm_timeouts (EndCall e reason m) = cm_timeouts m"
proof -
  obtain c' where "ApplyTransition c (transition_reason TransitionTerminated reason) (en_now e) = Inr c'"
      "call_state c' = CallStateEnded" "sd_EndReason (ci_StateData c') = reason"
    using ApplyTransition_Terminated [of c "transition_reason TransitionTerminated reason" "en_now e"] assms(2)
    by (auto simp: IsEnded_def)
  with assms show "\<exists>c'. cm_currentCall (EndCall e reason m) = Some c' \<and> IsEnded c' \<and> sd_EndReason (ci_StateData c') = reason"
    "cm_timeouts (EndCall e reason m) = cm_timeouts m"
    by (simp_all add: EndCall_def Let_def applyCall_def IsEnded_def)
qed

lemma forceMediaLost_call:
  assumes "cm_currentCall m = Some c" "call_state c = CallStateActive"
  shows "\<exists>c'. cm_currentCall (forceMediaLost e m) = Some c' \<and> call_state c' = CallStateReconnecting \<and>
      sd_MediaLostAt (ci_StateData c') = Some (en_now e)"
    and "cm_timeouts (forceMediaLost e m) = cm_timeouts m"
  using assms by (simp_all add: forceMediaLost_def applyCall_def ApplyTransition_def ApplyTransition_data_def)

text \<open>One tick on a live call: the media is declared lost, the call ends, or nothing is due yet.\<close>

definition tick_result :: "('j, 'e, 'f) env \<Rightarrow> CallInfo \<Rightarrow> ('j, 'f) CallManager \<Rightarrow> CallInfo \<Rightarrow> bool" where
  "tick_result e c m c' \<longleftrightarrow>
     call_state c = CallStateActive \<and> call_state c' = CallStateReconnecting \<and> sd_MediaLostAt (ci_StateData c') = Some (en_now e) \<or>
     timed_out c' \<or> c' = c \<and> (\<forall>d. phaseDeadline c (cm_timeouts m) = Some d \<longrightarrow> en_now e < d)"

lemma watch_tick:
  assumes "cm_currentCall m = Some c" "\<not> IsEnded c"
  shows "\<exists>c'. cm_currentCall (snd (expireIfOverdue e m)) = Some c' \<and> tick_result e c m c'"
    and "cm_timeouts (snd (expireIfOverdue e m)) = cm_timeouts m"
proof -
  let ?n = "if call_state c = CallStateReconnecting then retryReconnect e m else m"
  let ?lost = "call_state c = CallStateActive \<and> to_MediaInactivity (cm_timeouts m) > 0 \<and> cm_lastMediaRecv m > 0 \<and>
            unix_ms e - cm_lastMediaRecv m > go_quot (to_MediaInactivity (cm_timeouts m)) 1000000"
  have n: "cm_currentCall ?n = Some c" "cm_timeouts ?n = cm_timeouts m" using assms by simp_all
  have x: "snd (expireIfOverdue e m) = (if ?lost then forceMediaLost e m
      else case phaseDeadline c (cm_timeouts m) of None \<Rightarrow> ?n
        | Some d \<Rightarrow> if en_now e < d then ?n else EndCall e EndCallReasonTimeout ?n)"
    using assms by (simp add: expireIfOverdue_def Let_def split: option.split)
  note e = EndCall_call [OF n(1) assms(2), of e EndCallReasonTimeout]
  have l: "?lost \<Longrightarrow> call_state c = CallStateActive" by simp
  have "\<exists>c'. cm_currentCall (snd (expireIfOverdue e m)) = Some c' \<and> tick_result e c m c' \<and>
      cm_timeouts (snd (expireIfOverdue e m)) = cm_timeouts m"
  proof (cases ?lost)
    case True
    with forceMediaLost_call [OF assms(1) l [OF True], of e] show ?thesis unfolding x tick_result_def if_P [OF True] by auto
  next
    case False
    show ?thesis unfolding x if_not_P [OF False]
      by (cases "phaseDeadline c (cm_timeouts m)") (use n e in \<open>auto simp: tick_result_def timed_out_def not_less\<close>)
  qed
  then show "\<exists>c'. cm_currentCall (snd (expireIfOverdue e m)) = Some c' \<and> tick_result e c m c'"
    "cm_timeouts (snd (expireIfOverdue e m)) = cm_timeouts m" by blast+
qed

text \<open>From then on the call is over at \<open>deadline\<close> at the latest.\<close>

definition doomed :: "time \<Rightarrow> Timeouts \<Rightarrow> ('j, 'f) CallManager \<Rightarrow> bool" where
  "doomed deadline t m \<longleftrightarrow> cm_timeouts m = t \<and> (\<exists>c. cm_currentCall m = Some c \<and>
     (timed_out c \<or> call_state c = CallStateReconnecting \<and>
        (\<exists>lost. sd_MediaLostAt (ci_StateData c) = Some lost \<and> lost + to_ReconnectGrace t \<le> deadline)))"

lemma timed_out_final:
  assumes "cm_currentCall m = Some c" "timed_out c"
  shows "snd (expireIfOverdue e m) = m"
  using assms by (simp add: expireIfOverdue_def timed_out_def)

lemma doomed_tick:
  assumes "doomed deadline t m" "0 < to_ReconnectGrace t"
  shows "doomed deadline t (snd (expireIfOverdue e m))"
    and "deadline \<le> en_now e \<Longrightarrow> \<exists>c. cm_currentCall (snd (expireIfOverdue e m)) = Some c \<and> timed_out c"
proof -
  obtain c where c: "cm_timeouts m = t" "cm_currentCall m = Some c" "timed_out c \<or> call_state c = CallStateReconnecting \<and>
      (\<exists>lost. sd_MediaLostAt (ci_StateData c) = Some lost \<and> lost + to_ReconnectGrace t \<le> deadline)"
    using assms(1) by (auto simp: doomed_def)
  have "doomed deadline t (snd (expireIfOverdue e m)) \<and>
      (deadline \<le> en_now e \<longrightarrow> (\<exists>c. cm_currentCall (snd (expireIfOverdue e m)) = Some c \<and> timed_out c))"
  proof (cases "timed_out c")
    case True
    with c assms(1) show ?thesis by (simp add: timed_out_final)
  next
    case False
    with c(3) obtain lost where l: "call_state c = CallStateReconnecting" "sd_MediaLostAt (ci_StateData c) = Some lost"
        "lost + to_ReconnectGrace t \<le> deadline" by blast
    have d: "phaseDeadline c t = Some (lost + to_ReconnectGrace t)" using l assms(2) by (simp add: phaseDeadline_def)
    obtain c' where c': "cm_currentCall (snd (expireIfOverdue e m)) = Some c'" "tick_result e c m c'"
        "cm_timeouts (snd (expireIfOverdue e m)) = t"
      using watch_tick [OF c(2), of e] l(1) c(1) by (auto simp: IsEnded_def)
    then consider "timed_out c'" | "c' = c" "en_now e < lost + to_ReconnectGrace t" using l(1) c(1) d by (auto simp: tick_result_def)
    then show ?thesis by cases (use c' l in \<open>auto simp: doomed_def\<close>)
  qed
  then show "doomed deadline t (snd (expireIfOverdue e m))"
    "deadline \<le> en_now e \<Longrightarrow> \<exists>c. cm_currentCall (snd (expireIfOverdue e m)) = Some c \<and> timed_out c" by blast+
qed

lemma doomed_watch: "doomed deadline t m \<Longrightarrow> 0 < to_ReconnectGrace t \<Longrightarrow> doomed deadline t (watch es m)"
  by (induction es arbitrary: m) (simp_all add: doomed_tick)

text \<open>Before the deadline of the phase passes, the call waits or is already doomed.\<close>

definition waiting :: "time \<Rightarrow> CallInfo \<Rightarrow> Timeouts \<Rightarrow> ('j, 'f) CallManager \<Rightarrow> bool" where
  "waiting deadline c t m \<longleftrightarrow> cm_timeouts m = t \<and> cm_currentCall m = Some c \<or> doomed deadline t m"

lemma waiting_tick:
  assumes "waiting deadline c t m" "0 < to_ReconnectGrace t" "\<not> IsEnded c" "phaseDeadline c t = Some d"
    and "en_now e + to_ReconnectGrace t \<le> deadline"
  shows "waiting deadline c t (snd (expireIfOverdue e m))" and "d \<le> en_now e \<Longrightarrow> doomed deadline t (snd (expireIfOverdue e m))"
proof -
  have "waiting deadline c t (snd (expireIfOverdue e m)) \<and> (d \<le> en_now e \<longrightarrow> doomed deadline t (snd (expireIfOverdue e m)))"
  proof (cases "doomed deadline t m")
    case True
    then show ?thesis using doomed_tick(1) [OF True assms(2), of e] by (simp add: waiting_def)
  next
    case False
    with assms(1) have m: "cm_timeouts m = t" "cm_currentCall m = Some c" by (simp_all add: waiting_def)
    from watch_tick [OF m(2) assms(3), of e] obtain c' where "cm_currentCall (snd (expireIfOverdue e m)) = Some c'"
      "tick_result e c m c'" "cm_timeouts (snd (expireIfOverdue e m)) = t" using m(1) by auto
    then show ?thesis using m(1) assms(4,5) by (auto simp: tick_result_def waiting_def doomed_def)
  qed
  then show "waiting deadline c t (snd (expireIfOverdue e m))" "d \<le> en_now e \<Longrightarrow> doomed deadline t (snd (expireIfOverdue e m))"
    by blast+
qed

lemma waiting_watch:
  assumes "waiting deadline c t m" "0 < to_ReconnectGrace t" "\<not> IsEnded c" "phaseDeadline c t = Some d"
    and "\<forall>e\<in>set es. en_now e + to_ReconnectGrace t \<le> deadline"
  shows "waiting deadline c t (watch es m)"
  using assms(1,5) by (induction es arbitrary: m) (auto intro: waiting_tick(1) [OF _ assms(2-4)])

section \<open>After the end\<close>

definition media_off :: "('j, 'f) CallManager \<Rightarrow> bool" where
  "media_off m \<longleftrightarrow> cm_rtpSession m = None \<and> cm_srtp m = None \<and> vs_session (cm_video m) = None \<and>
     rt_sendSrtcp (cm_rtcp m) = None \<and> cm_rtpHandlers m = {} \<and> \<not> cm_watchdog m"

lemma cleanupMedia_off: "media_off (cleanupMedia m)"
  by (simp add: media_off_def cleanupMedia_def replaceRtpSession_def emit_def emptyVideo_def emptyRtcp_def Let_def split: option.split)

lemma media_off_tx:
  assumes "media_off m"
  shows "sendAudioFrame d k m = Some (None, m)" "sendVideoFrame e f ts m = Some (None, m)" "runRtcpTx ticks m = Some m"
proof -
  have t: "rtcp_tick_step e t m = Some m" for e t
    using assms by (cases t) (simp_all add: media_off_def emitRtcp208_def emitRtcp209_def emitRtcpSR_def emit_pair_def)
  show "runRtcpTx ticks m = Some m"
    by (induction ticks) (auto simp: t)
qed (use assms in \<open>simp_all add: media_off_def sendAudioFrame_def sendVideoFrame_def\<close>)

lemma media_off_rx:
  assumes "media_off m" "onRelayData e d m = Some n"
  shows "handled_count n = handled_count m"
proof -
  have h: "cm_rtpHandlers m = {}" using assms(1) by (simp add: media_off_def)
  have v: "handled_count n' = handled_count m" if "on_verdict e d pt s v (m\<lparr>cm_rx := rx\<rparr>) = Some n'" for pt s v rx n'
    using that h by (auto simp: on_verdict_def on_admitted_def Let_def split: admission.split_asm)
  show ?thesis using assms(2) v unfolding onRelayData_def on_rtp_def
    by (auto dest: on_rtcp_quiet split: if_split_asm Option.bind_split_asm prod.split_asm)
qed

lemma end_count_frame [simp]:
  "end_count (emit x m) = end_count m + (if is_end x then 1 else 0)" "end_count (emitState m) = end_count m"
  "end_count (announce_end m) = end_count m" "end_count (m\<lparr>cm_currentCall := c\<rparr>) = end_count m"
  by (simp_all add: end_count_def emit_def emitState_def announce_end_def split: option.split)

lemma observerEnded_frame [simp]:
  "cm_observerEnded (emit x m) = cm_observerEnded m" "cm_observerEnded (emitState m) = cm_observerEnded m"
  "cm_observerEnded (announce_end m) = cm_observerEnded m"
  by (simp_all add: emit_def emitState_def announce_end_def split: option.split)

lemma end_count_cleanup:
  "cm_currentCall m = Some c \<Longrightarrow> end_count (cleanupMedia m) = end_count m + (if cm_observerEnded m then 0 else 1)"
  by (simp add: cleanupMedia_def end_report_def replaceRtpSession_def end_count_def emit_def Let_def)

lemma EndCall_cleanup:
  assumes "cm_currentCall m = Some c" "\<not> IsEnded c"
  obtains n c' where "EndCall e reason m = cleanupMedia n" "end_count n = end_count m" "cm_observerEnded n = cm_observerEnded m"
    "cm_currentCall n = Some c'" "IsEnded c'"
proof -
  obtain c' where c': "ApplyTransition c (transition_reason TransitionTerminated reason) (en_now e) = Inr c'" "call_state c' = CallStateEnded"
    using ApplyTransition_Terminated [of c "transition_reason TransitionTerminated reason" "en_now e"] assms(2) by (auto simp: IsEnded_def)
  define n where "n = announce_end (emit (Go (TaskSignaling (BuildTerminateStanza (en_sid e 0) (jid_of e (answer_dest c m))
    (ci_CallID c) (jid_of e (ci_CallCreator c))))) (emitState (m\<lparr>cm_currentCall := Some c'\<rparr>)))"
  have "EndCall e reason m = cleanupMedia n" using assms c' by (simp add: EndCall_def Let_def applyCall_def n_def)
  then show thesis by (rule that [of n c']) (simp_all add: n_def c'(2) IsEnded_def)
qed

section \<open>Sample managers\<close>

definition sample_offer :: "string node" where
  "sample_offer = Node ''call'' [] (CNodes [Node ''offer'' [(''call-id'', AStr ''C1'')] (CNodes [])])"

definition sample_ringing :: CallInfo where
  "sample_ringing = NewIncomingCall ''C1'' ''5@s'' ''5@s'' '''' CallMediaTypeAudio 7"

lemma sample_ringing_reached:
  "\<exists>m. HandleCallOffer (sample_env 7) sample_offer ''5@s'' None (NewCallManager []) = Some m \<and>
     cm_currentCall m = Some sample_ringing"
proof -
  have r: "offer_relays (sample_env 7) (Node ''offer'' [(''call-id'', AStr ''C1'')] (CNodes [])) = Some None"
    by (simp add: offer_relays_def ExtractRelayEndpoints_def ParseRelayFromAck_def sortRelaysByRtt_sort_key emptyAck_def sort_key_simps)
  have f: "cm_currentCall (set_self_session e s m) = cm_currentCall m" "cm_currentCall (startWatchdog m) = cm_currentCall m"
    for e :: "(string, string, int) env" and s m
    by (simp_all add: set_self_session_def replaceRtpSession_def startWatchdog_def Let_def)
  show ?thesis using r
    by (simp add: HandleCallOffer_def sample_offer_def Let_def f OfferHasVideo_def sample_ringing_def NewIncomingCall_def
        AttrString_def attrStringOr_def sample_env_def sample_lib_def)
qed

lemma sample_reach:
  obtains m where "reach cm_init cm_step (m :: (string, int) CallManager, 7)" "cm_currentCall m = Some sample_ringing"
proof -
  obtain m :: "(string, int) CallManager" where m: "HandleCallOffer (sample_env 7) sample_offer ''5@s'' None (NewCallManager []) = Some m"
      "cm_currentCall m = Some sample_ringing" using sample_ringing_reached by blast
  have "cm_step (NewCallManager [], 0) (m, 7)"
    using cm_step.intros [of 0 "sample_env 7" "EvOffer sample_offer ''5@s'' None" "NewCallManager []" m] m(1)
    by (simp add: sample_env_def)
  moreover have "reach cm_init cm_step (NewCallManager [] :: (string, int) CallManager, 0)" by (rule reach_init) (rule cm_init.intros)
  ultimately have "reach cm_init cm_step (m, 7)" by (rule reach_step [rotated])
  then show thesis using m(2) by (rule that)
qed

section \<open>Properties\<close>

text \<open>
  Claim C2. No handler panics: on every manager reachable by any events, in any order and with any
  arguments (malformed stanzas and datagrams included), every further event returns and leaves a
  well-formed manager, with a duplicate filter whose ring represents its map, a hold position inside
  the music, and key contexts of the sizes the ciphers need.
\<close>

theorem handlers_never_panic:
  fixes e :: "('j, string, 'f) env"
  assumes "reach cm_init cm_step (m, now)"
  shows "\<exists>n. dispatch e ev m = Some n \<and> cm_wf n"
  using cm.reach_inv [OF assms] by (intro dispatch_wf) (simp add: cm_inv_def)

theorem handlers_never_panic_witness:
  "\<exists>m n. reach cm_init cm_step (m :: (string, int) CallManager, 7) \<and>
     dispatch (sample_env 9) (EvRelayData [0x90, 120, 0]) m = Some n \<and> cm_wf n"
proof -
  obtain m where m: "reach cm_init cm_step (m :: (string, int) CallManager, 7)" by (rule sample_reach)
  from handlers_never_panic [OF m, of "sample_env 9" "EvRelayData [0x90, 120, 0]"] m show ?thesis by blast
qed



text \<open>
  Claim C4. The manager refines the call life cycle: an event that does not start a call never drops
  the current call, and moves it, apart from the relay data and the media type signaling adds, only
  by transitions of the life cycle at the time of the event; a call that has ended does not move.
\<close>

theorem manager_refines_life_cycle:
  fixes e :: "('j, string, 'f) env"
  assumes "reach cm_init cm_step (m, now)" "dispatch e ev m = Some n" "\<not> starting ev" "cm_currentCall m = Some c"
  shows "\<exists>d. cm_currentCall n = Some d \<and> call_step\<^sup>*\<^sup>* (call_abs c, en_now e) (call_abs d, en_now e) \<and>
    (IsEnded c \<longrightarrow> call_abs d = call_abs c)"
proof -
  have "cm_wf m" using cm.reach_inv [OF assms(1)] by (simp add: cm_inv_def)
  then have v: "call_moves (en_now e) (Some c) (cm_currentCall n)" using dispatch_call [OF assms(2)] assms(3,4) by simp
  then obtain d where d: "cm_currentCall n = Some d" using call_moves_Some by blast
  have s: "call_step\<^sup>*\<^sup>* (call_abs c, en_now e) (call_abs d, en_now e)" using call_moves_steps [OF v] d by simp
  moreover have "IsEnded c \<Longrightarrow> call_abs d = call_abs c" using call_steps_Ended [OF s] by (simp add: IsEnded_def call_abs_def)
  ultimately show ?thesis using d by blast
qed

theorem manager_refines_life_cycle_witness:
  "\<exists>m n d. reach cm_init cm_step (m :: (string, int) CallManager, 7) \<and> dispatch (sample_env 9) (EvAcceptCall ''C1'') m = Some n \<and>
     cm_currentCall n = Some d \<and> call_step\<^sup>*\<^sup>* (call_abs sample_ringing, 9) (call_abs d, 9)"
proof -
  obtain m where m: "reach cm_init cm_step (m :: (string, int) CallManager, 7)" "cm_currentCall m = Some sample_ringing"
    by (rule sample_reach)
  let ?n = "snd (AcceptCall (sample_env 9) ''C1'' m)"
  have "dispatch (sample_env 9) (EvAcceptCall ''C1'') m = Some ?n" by simp
  from manager_refines_life_cycle [OF m(1) this _ m(2)] m(1) show ?thesis
    by (intro exI [of _ m] exI [of _ ?n]) (auto simp: sample_env_def)
qed

text \<open>
  Claim C6. The first device that answers owns the call: whatever handlers run afterwards (accept
  stanzas of other devices included, as long as accept handlers do not overlap), the answering device
  stays recorded, and a terminate from any other device leaves the manager untouched while the call
  is alive.
\<close>

theorem answering_device_owns_call:
  assumes "cm_wf m" "cm_acceptedByJid m \<noteq> ''''" "list_all (sequential \<circ> snd) evs" "cm_run evs m = Some n"
  shows "cm_acceptedByJid n = cm_acceptedByJid m \<and>
    (\<forall>e node c. cm_currentCall n = Some c \<and> \<not> IsEnded c \<and>
       AttrString (en_lib e) (nd_Attrs node) ''from'' \<notin> {'''', cm_acceptedByJid m} \<longrightarrow> HandleCallTerminate e node n = n)"
  using cm_run_answered [OF assms(4,1,3,2)] assms(2) by (simp add: HandleCallTerminate_def)

theorem answering_device_owns_call_witness:
  "\<exists>n. cm_run [(sample_env 3, EvAccept sample_offer ''6@s''), (sample_env 4, EvRelayConnected)]
       ((NewCallManager [] :: (string, int) CallManager)\<lparr>cm_acceptedByJid := ''5@s''\<rparr>) = Some n \<and> cm_acceptedByJid n = ''5@s''"
proof -
  let ?m = "(NewCallManager [] :: (string, int) CallManager)\<lparr>cm_acceptedByJid := ''5@s''\<rparr>"
  let ?evs = "[(sample_env 3, EvAccept sample_offer ''6@s''), (sample_env 4, EvRelayConnected)]"
  have wf: "cm_wf ?m" by (simp add: cm_wf_defs NewCallManager_def)
  obtain n where n: "cm_run ?evs ?m = Some n" by simp
  have "cm_acceptedByJid n = cm_acceptedByJid ?m" by (rule conjunct1 [OF answering_device_owns_call [OF wf _ _ n]]) simp_all
  with n show ?thesis by (intro exI [of _ n]) simp
qed

text \<open>
  Claim C7. The watchdog ends every overdue call: for a live call whose phase has a deadline, ticks in
  time order of which one comes at or after the deadline and the last one a reconnect grace later
  leave the call ended for timeout, even when the watchdog itself declares the media lost in between.
\<close>

theorem watchdog_ends_overdue_call:
  assumes "cm_currentCall m = Some c" "\<not> IsEnded c" "phaseDeadline c (cm_timeouts m) = Some d"
    and "0 < to_ReconnectGrace (cm_timeouts m)" "sorted (map en_now (before @ [e]))"
    and "d \<le> en_now e" "en_now e + to_ReconnectGrace (cm_timeouts m) \<le> en_now l"
  shows "\<exists>c'. cm_currentCall (watch (before @ e # between @ [l]) m) = Some c' \<and> IsEnded c' \<and>
    sd_EndReason (ci_StateData c') = EndCallReasonTimeout"
proof -
  let ?t = "cm_timeouts m" and ?B = "en_now e + to_ReconnectGrace (cm_timeouts m)"
  have b: "\<forall>x\<in>set before. en_now x + to_ReconnectGrace ?t \<le> ?B" using assms(5) by (auto simp: sorted_append)
  have "waiting ?B c ?t (watch before m)"
    by (rule waiting_watch [OF _ assms(4,2,3) b]) (simp add: waiting_def assms(1))
  from waiting_tick(2) [OF this assms(4,2,3) _ assms(6)] have "doomed ?B ?t (watch (before @ [e]) m)" by simp
  then have "doomed ?B ?t (watch (before @ e # between) m)" using doomed_watch [OF _ assms(4)] by fastforce
  from doomed_tick(2) [OF this assms(4,7)] show ?thesis by (auto simp: timed_out_def)
qed

theorem watchdog_ends_overdue_call_witness:
  "\<exists>c'. cm_currentCall (watch [sample_env (70 * second), sample_env (150 * second)]
      ((NewCallManager [] :: (string, int) CallManager)\<lparr>cm_currentCall := Some sample_ringing\<rparr>)) = Some c' \<and> IsEnded c'"
proof -
  let ?m = "(NewCallManager [] :: (string, int) CallManager)\<lparr>cm_currentCall := Some sample_ringing\<rparr>"
  have "cm_currentCall ?m = Some sample_ringing" "cm_timeouts ?m = DefaultTimeouts" by (simp_all add: NewCallManager_def)
  moreover have "\<not> IsEnded sample_ringing" "phaseDeadline sample_ringing DefaultTimeouts = Some (60 * second + 7)"
    by (simp_all add: sample_ringing_def NewIncomingCall_def initialStateData_def IsEnded_def phaseDeadline_def DefaultTimeouts_def)
  ultimately show ?thesis
    using watchdog_ends_overdue_call [of ?m sample_ringing "60 * second + 7" "[]" "sample_env (70 * second)" "sample_env (150 * second)" "[]"]
    by (auto simp: DefaultTimeouts_def sample_env_def)
qed



text \<open>
  Claim C9. A call that is torn down while the key of an accept stanza is being decrypted stays torn
  down: the rest of the handler leaves what the other handlers made of the manager as it is, so
  neither keys nor relay connections are set up again, and ending the call in that window leaves its
  media off.
\<close>

theorem teardown_during_accept:
  assumes "cm_currentCall (meanwhile m) = Some c'" "IsEnded c'"
  shows "HandleCallAccept e meanwhile node peer m \<in> {m, meanwhile m} \<and>
    (\<forall>c. cm_currentCall m = Some c \<and> \<not> IsEnded c \<and> \<not> accept_foreign (jid_String (en_lib e) peer) m \<and>
       ExtractNodeInfo (en_lib e) node \<noteq> None \<longrightarrow>
       HandleCallAccept e (EndCall e reason) node peer m = EndCall e reason m \<and> media_off (EndCall e reason m))"
proof -
  have k: "accept_rekey e peer key n = n" "accept_commit e node peer n = n"
    if "cm_currentCall n = Some d" "IsEnded d" for key n d
    using that by (auto simp: accept_rekey_def accept_commit_def split: sum.split option.split)
  have "HandleCallAccept e meanwhile node peer m \<in> {m, meanwhile m}"
    using HandleCallAccept_sections [of e meanwhile node peer m] k [OF assms] by auto
  moreover have "HandleCallAccept e (EndCall e reason) node peer m = EndCall e reason m \<and> media_off (EndCall e reason m)"
    if "cm_currentCall m = Some c" "\<not> IsEnded c" "\<not> accept_foreign (jid_String (en_lib e) peer) m"
      "ExtractNodeInfo (en_lib e) node \<noteq> None" for c
  proof -
    note live = that
    obtain d where d: "cm_currentCall (EndCall e reason m) = Some d" "IsEnded d" using EndCall_call(1) [OF live(1,2)] by blast
    obtain n where "EndCall e reason m = cleanupMedia n" using EndCall_cleanup [OF live(1,2)] by metis
    then show ?thesis using live k [OF d] cleanupMedia_off [of n] by (auto simp: HandleCallAccept_def Let_def)
  qed
  ultimately show ?thesis by blast
qed

theorem teardown_during_accept_witness:
  "HandleCallAccept (sample_env 9) (EndCall (sample_env 9) EndCallReasonUserEnded) sample_offer ''5@s''
      ((NewCallManager [] :: (string, int) CallManager)\<lparr>cm_currentCall := Some sample_ringing\<rparr>) =
    EndCall (sample_env 9) EndCallReasonUserEnded
      ((NewCallManager [] :: (string, int) CallManager)\<lparr>cm_currentCall := Some sample_ringing\<rparr>)"
proof -
  let ?m = "(NewCallManager [] :: (string, int) CallManager)\<lparr>cm_currentCall := Some sample_ringing\<rparr>"
  have m: "cm_currentCall ?m = Some sample_ringing" "\<not> IsEnded sample_ringing" "cm_acceptedByJid ?m = ''''"
    "ExtractNodeInfo (en_lib (sample_env 9)) sample_offer \<noteq> None"
    by (simp_all add: NewCallManager_def sample_ringing_def NewIncomingCall_def initialStateData_def IsEnded_def sample_offer_def)
  obtain d where "cm_currentCall (EndCall (sample_env 9) EndCallReasonUserEnded ?m) = Some d" "IsEnded d"
    using EndCall_call(1) [OF m(1,2)] by blast
  from teardown_during_accept [of "EndCall (sample_env 9) EndCallReasonUserEnded", OF this, of "sample_env 9" sample_offer "''5@s''" EndCallReasonUserEnded] m show ?thesis
    by (auto simp: accept_foreign_def)
qed

end
