(* ===== verification/Call_Limits.thy ===== *)
theory Call_Limits
  imports Call_System
begin

text \<open>
  Further properties of the call manager: the hold music is read cyclically whatever the frame
  sizes; and what the code does where it departs from its own intentions: relays given as
  attributes are never dialled, an offer acknowledgement that arrives after the call has ended sets
  its media up again, RTP packets without header extension are taken for RTCP, and a retransmitted
  accept stanza forgets the SRTP contexts of media that is flowing.
\<close>

section \<open>Hold music\<close>

text \<open>Filling frames of the given sizes one after the other.\<close>

fun fill_frames :: "nat list \<Rightarrow> ('j, 'f) CallManager \<Rightarrow> ('f list list \<times> ('j, 'f) CallManager) go" where
  "fill_frames [] m = Some ([], m)"
| "fill_frames (k # ks) m = do {
     (frame, m) \<leftarrow> fillHoldMusic k m;
     (frames, m) \<leftarrow> fill_frames ks m;
     Some (case frame of None \<Rightarrow> frames | Some f \<Rightarrow> f # frames, m) }"

definition cycle :: "'f list \<Rightarrow> nat \<Rightarrow> nat \<Rightarrow> 'f list" where
  "cycle music pos k = map (\<lambda>i. music ! ((pos + i) mod length music)) [0..<k]"

lemma cycle_append: "cycle music pos k @ cycle music ((pos + k) mod length music) l = cycle music pos (k + l)"
proof -
  have "map f [0..<k + l] = map f [0..<k] @ map (\<lambda>i. f (k + i)) [0..<l]" for f :: "nat \<Rightarrow> 'a"
    by (induction l) simp_all
  from this [of "\<lambda>i. music ! ((pos + i) mod length music)"] show ?thesis by (simp add: cycle_def mod_add_left_eq add.assoc)
qed

lemma fillHoldMusic_cycle:
  assumes "cm_holdActive m" "cm_holdPos m < length (cm_holdMusic m)"
  shows "fillHoldMusic k m = Some (Some (cycle (cm_holdMusic m) (cm_holdPos m) k),
    m\<lparr>cm_holdPos := (cm_holdPos m + k) mod length (cm_holdMusic m)\<rparr>)"
  using fill_loop_total [OF assms(2), of k "[]"] assms by (auto simp: fillHoldMusic_def cycle_def)

lemma fill_frames_cycle:
  assumes "cm_holdActive m" "cm_holdPos m < length (cm_holdMusic m)"
  shows "\<exists>frames n. fill_frames ks m = Some (frames, n) \<and> map length frames = ks \<and>
    concat frames = cycle (cm_holdMusic m) (cm_holdPos m) (sum_list ks) \<and>
    n = m\<lparr>cm_holdPos := (cm_holdPos m + sum_list ks) mod length (cm_holdMusic m)\<rparr>"
  using assms
proof (induction ks arbitrary: m)
  case (Cons k ks)
  let ?m = "m\<lparr>cm_holdPos := (cm_holdPos m + k) mod length (cm_holdMusic m)\<rparr>"
  have "cm_holdActive ?m" "cm_holdPos ?m < length (cm_holdMusic ?m)" using Cons.prems by simp_all (metis length_pos_if_in_set mod_less_divisor gr_implies_not0 neq0_conv)
  from Cons.IH [OF this] obtain frames where f: "fill_frames ks ?m = Some (frames, ?m\<lparr>cm_holdPos := (cm_holdPos ?m + sum_list ks) mod length (cm_holdMusic m)\<rparr>)"
      "map length frames = ks" "concat frames = cycle (cm_holdMusic m) (cm_holdPos ?m) (sum_list ks)" by auto
  then show ?case using fillHoldMusic_cycle [OF Cons.prems, of k] cycle_append [of "cm_holdMusic m" "cm_holdPos m" k "sum_list ks"]
    by (auto simp: cycle_def mod_add_left_eq add.assoc)
qed (simp add: cycle_def)

section \<open>Relays given as attributes\<close>

lemma build_configs_raw: "list_all (\<lambda>ep. ep_RawToken ep = None) eps \<Longrightarrow> build_configs seen eps = []"
  by (induction seen eps rule: build_configs.induct) auto

lemma attribute_relays_raw: "list_all (\<lambda>ep. ep_RawToken ep = None) (ExtractRelayEndpoints lib n)"
  by (auto simp: ExtractRelayEndpoints_def list_all_iff sortRelaysByRtt_sort_key parse_relay_attrs_def Let_def split: if_split_asm)

lemma connectRelays_none: "buildRelayConfigs eps = [] \<Longrightarrow> connectRelays eps m = m"
  by (simp add: connectRelays_def)

text \<open>
  Endpoints read from the attribute form of a relay list have no raw token, and an endpoint without
  one is never dialled: connecting to them does nothing, although an offer that has any uses them
  instead of its structured relay list.
\<close>

theorem attribute_relays_never_dialed:
  "buildRelayConfigs (ExtractRelayEndpoints lib n) = [] \<and> connectRelays (ExtractRelayEndpoints lib n) m = m \<and>
   (ExtractRelayEndpoints (en_lib e) n \<noteq> [] \<longrightarrow> offer_relays e n = Some (Some (bare_relay_data (ExtractRelayEndpoints (en_lib e) n))))"
proof -
  have "buildRelayConfigs (ExtractRelayEndpoints lib n) = []" unfolding buildRelayConfigs_def by (rule build_configs_raw [OF attribute_relays_raw])
  with connectRelays_none [OF this] show ?thesis by (simp add: offer_relays_def)
qed

section \<open>RTP that looks like RTCP\<close>

lemma rtcp_first_byte_quiet:
  "onRelayData e (0x80 # b # rest) m = Some n \<Longrightarrow> handled_count n = handled_count m"
  using on_rtcp_quiet [of e "0x80 # b # rest" m n]
  by (simp add: onRelayData_def IsStunPacket_def IsRtcpPacket_def split: if_split_asm)

text \<open>
  A datagram whose first byte is that of an RTP header without padding, extension and contributing
  sources is taken for RTCP. The packets this program makes of a video frame have that form: a call
  manager that receives one, protected under any keys, never hands it to an extension.
\<close>

theorem video_packets_taken_for_rtcp:
  assumes "ctx_ok c"
  shows "\<exists>out c'. Protect c (fst (CreatePacketAt s payload ts marker)) = Some (Inr out, c') \<and> IsRtcpPacket out \<and>
    (\<forall>e m n. onRelayData e out m = Some n \<longrightarrow> handled_count n = handled_count m)"
proof -
  let ?p = "fst (CreatePacketAt s payload ts marker)"
  have h: "rtp_header_bytes (rp_Header ?p) = 0x80 # rtp_byte1 (rp_Header ?p) #
      be16 (rs_sequenceNumber s) @ be32 ts @ be32 (rs_ssrc s)"
    by (simp add: CreatePacketAt_def NewRtpHeader_def rtp_header_bytes_def rtp_fixed_bytes_def rtp_ext_bytes_def
        rtp_byte0_def boolBit_def rtpVersion_def)
  have "unat (rh_CsrcCount (rp_Header ?p)) = length (rh_Csrc (rp_Header ?p))" using created_packet(2) by simp
  from Protect_bytes [OF assms this] show ?thesis
    by (auto simp: protected_body_def h IsRtcpPacket_def intro: rtcp_first_byte_quiet)
qed

section \<open>Late acknowledgements\<close>

text \<open>
  Unlike the accept handler, the handler of the offer acknowledgement does not ask whether the call is
  still alive: an acknowledgement with relays and participants that is handled after the call has
  ended sets up SRTP keys again, and the relays are dialled when an endpoint is usable.
\<close>

lemma srtp_frame [simp]:
  "cm_srtp (emit x m) = cm_srtp m" "cm_srtp (applyStreamSsrcs m) = cm_srtp m" "cm_srtp (connectRelays eps m) = cm_srtp m"
  "cm_srtp (fold registerRTPHandler xs m) = cm_srtp m" "cm_srtp (ensureExtensionsAttached m) = cm_srtp m"
  "cm_srtp (setupSrtcp e a b m) = cm_srtp m" "cm_srtp (emitState m) = cm_srtp m" "cm_srtp (maybeStartRtcpTx m) = cm_srtp m"
proof -
  show f: "cm_srtp (fold registerRTPHandler xs m) = cm_srtp m" for xs and m :: "('a, 'b) CallManager"
    by (induction xs arbitrary: m) (simp_all add: registerRTPHandler_def)
  show "cm_srtp (emit x m) = cm_srtp m" "cm_srtp (applyStreamSsrcs m) = cm_srtp m" "cm_srtp (connectRelays eps m) = cm_srtp m"
    "cm_srtp (ensureExtensionsAttached m) = cm_srtp m" "cm_srtp (setupSrtcp e a b m) = cm_srtp m"
    "cm_srtp (emitState m) = cm_srtp m" "cm_srtp (maybeStartRtcpTx m) = cm_srtp m"
    by (simp_all add: emit_def applyStreamSsrcs_def connectRelays_def ensureExtensionsAttached_def setupSrtcp_def
        emitState_def maybeStartRtcpTx_def Let_def f split: option.split sum.split prod.split)
qed

lemma initSrtpKeys_fresh:
  assumes "cm_currentCall m = Some c" "ci_EncryptionKey c = Some key"
  shows "\<exists>s. cm_srtp (initSrtpKeys e m) = Some s \<and> sm_send s = Mapping.empty \<and> sm_recv s = Mapping.empty"
  using assms by (simp add: initSrtpKeys_def Let_def new_srtp_def SetObserver_def NewSrtpManager_def)

lemma call_frame2 [simp]:
  "cm_currentCall (set_self_session e s m) = cm_currentCall m" "cm_currentCall (rememberDeviceJids a b m) = cm_currentCall m"
  "cm_currentCall (adopt_participants e f c ps m) = cm_currentCall m"
  by (simp_all add: set_self_session_def replaceRtpSession_def rememberDeviceJids_def adopt_participants_def adopt_self_def Let_def)

theorem late_ack_rearms_media:
  assumes "cm_currentCall m = Some c" "IsEnded c" "ci_EncryptionKey c = Some key" "media_off m"
    and "AttrString (en_lib e) (nd_Attrs node) ''type'' = ''offer''" "AttrString (en_lib e) (nd_Attrs node) ''error'' = ''''"
    and "ParseRelayFromAck (en_lib e) node = Some p" "pa_Relays p \<noteq> []" "pa_ParticipantJids p \<noteq> []"
  shows "\<exists>n. HandleCallAck e node m = Some n \<and> cm_srtp n \<noteq> None \<and> \<not> media_off n"
proof -
  let ?c = "c\<lparr>ci_RelayData := Some (relay_data_of p)\<rparr>"
  let ?m = "ack_participants e ?c (pa_ParticipantJids p) (m\<lparr>cm_currentCall := Some ?c\<rparr>)"
  have "cm_srtp ?m \<noteq> None"
    using assms(3,9) initSrtpKeys_fresh [of "applyStreamSsrcs (adopt_participants e False ?c (pa_ParticipantJids p) (m\<lparr>cm_currentCall := Some ?c\<rparr>))" ?c key e]
    by (auto simp: ack_participants_def Let_def)
  then have "\<exists>n. HandleCallAck e node m = Some n \<and> cm_srtp n \<noteq> None"
    using assms by (simp add: HandleCallAck_def Let_def)
  then show ?thesis by (auto simp: media_off_def)
qed

section \<open>Keys after an accept\<close>

lemma session_frame [simp]:
  "cm_rtpSession (emit x m) = cm_rtpSession m" "cm_rtpSession (applyStreamSsrcs m) = cm_rtpSession m"
  "cm_rtpSession (connectRelays eps m) = cm_rtpSession m" "cm_rtpSession (fold registerRTPHandler xs m) = cm_rtpSession m"
  "cm_rtpSession (ensureExtensionsAttached m) = cm_rtpSession m" "cm_rtpSession (setupSrtcp e a b m) = cm_rtpSession m"
  "cm_rtpSession (emitState m) = cm_rtpSession m" "cm_rtpSession (maybeStartRtcpTx m) = cm_rtpSession m"
  "cm_rtpSession (deriveVideoSsrcs e c1 c2 c3 m) = cm_rtpSession m" "cm_rtpSession (rememberDeviceJids j1 j2 m) = cm_rtpSession m"
proof -
  show f: "cm_rtpSession (fold registerRTPHandler xs m) = cm_rtpSession m" for xs and m :: "('a, 'b) CallManager"
    by (induction xs arbitrary: m) (simp_all add: registerRTPHandler_def)
  show "cm_rtpSession (emit x m) = cm_rtpSession m" "cm_rtpSession (applyStreamSsrcs m) = cm_rtpSession m"
    "cm_rtpSession (connectRelays eps m) = cm_rtpSession m" "cm_rtpSession (ensureExtensionsAttached m) = cm_rtpSession m"
    "cm_rtpSession (setupSrtcp e a b m) = cm_rtpSession m" "cm_rtpSession (emitState m) = cm_rtpSession m"
    "cm_rtpSession (maybeStartRtcpTx m) = cm_rtpSession m" "cm_rtpSession (deriveVideoSsrcs e c1 c2 c3 m) = cm_rtpSession m"
    "cm_rtpSession (rememberDeviceJids j1 j2 m) = cm_rtpSession m"
    by (simp_all add: emit_def applyStreamSsrcs_def connectRelays_def ensureExtensionsAttached_def setupSrtcp_def emitState_def
        maybeStartRtcpTx_def deriveVideoSsrcs_def declareSelfSSRC_def rememberDeviceJids_def Let_def f
        split: option.split sum.split prod.split)
qed

lemma answered_frame [simp]:
  "cm_acceptedByJid (emit x m) = cm_acceptedByJid m" "cm_acceptedByJid (applyStreamSsrcs m) = cm_acceptedByJid m"
  "cm_acceptedByJid (deriveVideoSsrcs e c1 c2 c3 m) = cm_acceptedByJid m" "cm_acceptedByJid (rememberDeviceJids j1 j2 m) = cm_acceptedByJid m"
  by (simp_all add: emit_def applyStreamSsrcs_def deriveVideoSsrcs_def declareSelfSSRC_def rememberDeviceJids_def Let_def split: prod.split)

text \<open>What the rest of the accept handler leaves of the keys.\<close>

lemma accept_tail:
  "cm_srtp (accept_connect e rd (accept_replies e node peer c sib m)) = cm_srtp m"
  "cm_rtpSession (accept_connect e rd (accept_replies e node peer c sib m)) = cm_rtpSession m"
  by (auto simp: accept_connect_def accept_replies_def sendTransportUpdate_def Let_def elim!: applyCall_SomeE split: option.split)

lemma initSrtpKeys_keys:
  assumes "cm_currentCall m = Some c" "ci_EncryptionKey c = Some key" "cm_acceptedByJid m = peer" "peer \<noteq> ''''"
  shows "cm_srtp (initSrtpKeys e m) = Some (new_srtp (DerivePerJidSrtpKey key (our_device e (participants_of c)))
      (DerivePerJidSrtpKey key (ensureDeviceJid peer)))"
    and "cm_rtpSession (initSrtpKeys e m) = cm_rtpSession m"
  using assms by (simp_all add: initSrtpKeys_def Let_def peer_device_def)

lemma accept_commit_keys:
  assumes "cm_currentCall m = Some c" "\<not> IsEnded c" "ci_EncryptionKey c = Some key" "jid_String (en_lib e) peer \<noteq> ''''"
  shows "cm_srtp (accept_commit e node peer m) = Some (new_srtp (DerivePerJidSrtpKey key (our_device e (participants_of c)))
      (DerivePerJidSrtpKey key (ensureDeviceJid (jid_String (en_lib e) peer))))"
    and "cm_rtpSession (accept_commit e node peer m) = cm_rtpSession m"
proof -
  let ?p = "jid_String (en_lib e) peer"
  define n where "n = emitState (case applyCall (transition TransitionRemoteAccepted) (en_now e) m of Some m' \<Rightarrow> m' | None \<Rightarrow> m)"
  obtain c' where n: "cm_currentCall n = Some c'" "ci_EncryptionKey c' = Some key" "participants_of c' = participants_of c"
      "cm_rtpSession n = cm_rtpSession m"
    using assms(1,3) by (cases "ApplyTransition c (transition TransitionRemoteAccepted) (en_now e)")
      (auto simp: n_def applyCall_def participants_of_def elim!: ApplyTransition_InrE)
  have "cm_srtp (accept_streams e c ?p n) = Some (new_srtp (DerivePerJidSrtpKey key (our_device e (participants_of c')))
      (DerivePerJidSrtpKey key (ensureDeviceJid ?p)))" "cm_rtpSession (accept_streams e c ?p n) = cm_rtpSession n"
    unfolding accept_streams_def Let_def using n(1,2) assms(4) by (simp_all add: initSrtpKeys_keys)
  with n show "cm_srtp (accept_commit e node peer m) = Some (new_srtp (DerivePerJidSrtpKey key (our_device e (participants_of c)))
      (DerivePerJidSrtpKey key (ensureDeviceJid (jid_String (en_lib e) peer))))"
    "cm_rtpSession (accept_commit e node peer m) = cm_rtpSession m"
    unfolding accept_commit_def Let_def assms(1) option.case if_not_P [OF assms(2)] n_def [symmetric] accept_tail by simp_all
qed

lemma setupSrtcp_call: "cm_currentCall (setupSrtcp e a b m) = cm_currentCall m"
  by (simp add: setupSrtcp_def Let_def split: option.split sum.split)

lemma accept_rekey_frame:
  "cm_currentCall (accept_rekey e peer key m) = cm_currentCall m" "cm_rtpSession (accept_rekey e peer key m) = cm_rtpSession m"
  by (auto simp: accept_rekey_def reinitSrtp_def setupSrtcp_call Let_def split: sum.split option.split)

section \<open>Properties\<close>

text \<open>
  While a call is on hold the outgoing audio is the hold music repeated without gap or
  overlap: whatever frame sizes are asked for, filling frame after frame never fails, fills every
  frame completely, and the concatenated frames are the music read cyclically from the current
  position, which ends where the last frame stopped.
\<close>

theorem hold_music_cycles:
  assumes "cm_holdActive m" "cm_holdPos m < length (cm_holdMusic m)"
  shows "\<exists>frames n. fill_frames sizes m = Some (frames, n) \<and> map length frames = sizes \<and>
    concat frames = cycle (cm_holdMusic m) (cm_holdPos m) (sum_list sizes) \<and>
    cm_holdPos n = (cm_holdPos m + sum_list sizes) mod length (cm_holdMusic m)"
  using fill_frames_cycle [OF assms, of sizes] by auto

theorem hold_music_cycles_witness:
  "\<exists>frames n. fill_frames [2, 3] ((NewCallManager [] :: (string, int) CallManager)\<lparr>cm_holdActive := True, cm_holdMusic := [4, 5, 6], cm_holdPos := 2\<rparr>) =
     Some (frames, n) \<and> concat frames = [6, 4, 5, 6, 4] \<and> cm_holdPos n = 1"
proof -
  let ?m = "(NewCallManager [] :: (string, int) CallManager)\<lparr>cm_holdActive := True, cm_holdMusic := [4, 5, 6], cm_holdPos := 2\<rparr>"
  have m: "cm_holdActive ?m" "cm_holdPos ?m < length (cm_holdMusic ?m)" by simp_all
  have c: "cycle [4, 5, 6 :: int] 2 (sum_list [2, 3]) = [6, 4, 5, 6, 4]" by code_simp
  have v: "cm_holdMusic ?m = [4, 5, 6]" "cm_holdPos ?m = 2" by simp_all
  from hold_music_cycles [OF m, of "[2, 3]", unfolded v c] show ?thesis by auto
qed

text \<open>
  Claim C34. After an accept stanza on a live call with a key (and no other handler running meanwhile), the media keys are exactly those derived
  from the call's own key for this device and for the answering device, in contexts that have seen no
  packet, while the RTP session goes on with its numbering. The key that the stanza itself carried
  does not matter, although the handler first sets up receiving keys from it.
\<close>

theorem accept_keys_from_call_key:
  assumes "cm_currentCall m = Some c" "\<not> IsEnded c" "ci_EncryptionKey c = Some key"
    and "jid_String (en_lib e) peer \<noteq> ''''" "\<not> accept_foreign (jid_String (en_lib e) peer) m" "ExtractNodeInfo (en_lib e) node \<noteq> None"
  shows "cm_srtp (HandleCallAccept e id node peer m) = Some (new_srtp (DerivePerJidSrtpKey key (our_device e (participants_of c)))
      (DerivePerJidSrtpKey key (ensureDeviceJid (jid_String (en_lib e) peer)))) \<and>
    cm_rtpSession (HandleCallAccept e id node peer m) = cm_rtpSession m"
proof -
  obtain info where info: "ExtractNodeInfo (en_lib e) node = Some info" using assms(6) by blast
  define n where "n = (if NeedsDecryption (ni_Tag info) then accept_rekey e peer
    (DecryptCallKeyInNode (en_lib e) (so_DecryptCallKey (en_sock e)) (ni_InnerNode info) peer) m else m)"
  have "HandleCallAccept e id node peer m = accept_commit e node peer n"
    using assms(1,5) info by (simp add: HandleCallAccept_def Let_def n_def)
  moreover have "cm_currentCall n = Some c" "cm_rtpSession n = cm_rtpSession m" using assms(1) by (simp_all add: n_def accept_rekey_frame)
  ultimately show ?thesis using accept_commit_keys [OF _ assms(2-4), of n] by simp
qed

theorem accept_keys_from_call_key_witness:
  "\<exists>s. cm_srtp (HandleCallAccept (sample_env 9) id sample_offer ''5@s''
      ((NewCallManager [] :: (string, int) CallManager)\<lparr>cm_currentCall := Some (sample_ringing\<lparr>ci_EncryptionKey := Some [7]\<rparr>)\<rparr>)) = Some s"
proof -
  let ?c = "sample_ringing\<lparr>ci_EncryptionKey := Some [7]\<rparr>"
  let ?m = "(NewCallManager [] :: (string, int) CallManager)\<lparr>cm_currentCall := Some ?c\<rparr>"
  have m: "cm_currentCall ?m = Some ?c" "\<not> IsEnded ?c" "ci_EncryptionKey ?c = Some [7]" "cm_acceptedByJid ?m = ''''"
    "jid_String (en_lib (sample_env 9)) ''5@s'' \<noteq> ''''" "ExtractNodeInfo (en_lib (sample_env 9)) sample_offer \<noteq> None"
    by (simp_all add: NewCallManager_def sample_ringing_def NewIncomingCall_def initialStateData_def IsEnded_def sample_offer_def
        sample_env_def sample_lib_def)
  from accept_keys_from_call_key [OF m(1-3,5) _ m(6)] m(4) show ?thesis by (simp add: accept_foreign_def)
qed

end
