(* ===== verification/Call_Client.thy ===== *)
theory Call_Client
  imports Call_System "HOL-Library.Mapping"
begin

text \<open>
  The registry of calls of one session: \<^verbatim>\<open>internal/voip/call/client.go\<close>. Each call has a call manager
  of its own, found by call id; stanzas and commands are routed to it. Go's map is a mapping; the id
  and key a new call draws at random are arguments. The callback \<open>onCall\<close> and rejections sent on the
  client's own account are recorded in \<open>cl_out\<close>. Every operation is one step.
  The lemmas show that the registry keeps every manager under its call's id, that calls do not
  influence one another, and which offers are admitted.
\<close>

section \<open>The registry\<close>

datatype 'j client_effect = OnCall string | ClientSend "'j node"

record ('j, 'f) Client =
  cl_extensions :: "u8 list"
  cl_maxCalls :: int
  cl_calls :: "(string, ('j, 'f) CallManager) mapping"
  cl_out :: "'j client_effect list"

definition NewClient :: "u8 list \<Rightarrow> int \<Rightarrow> ('j, 'f) Client" where
  "NewClient exts maxCalls = \<lparr>cl_extensions = exts, cl_maxCalls = maxCalls, cl_calls = Mapping.empty, cl_out = []\<rparr>"

text \<open>The manager is created and announced before it is registered.\<close>

definition createCall :: "string \<Rightarrow> ('j, 'f) Client \<Rightarrow> ('j, 'f) CallManager \<times> ('j, 'f) Client" where
  "createCall callID c =
     (let cm = NewCallManager (cl_extensions c)
      in (cm, c\<lparr>cl_out := cl_out c @ [OnCall callID], cl_calls := Mapping.update callID cm (cl_calls c)\<rparr>))"

definition get :: "('j, 'f) Client \<Rightarrow> string \<Rightarrow> ('j, 'f) CallManager option" where
  "get c callID = Mapping.lookup (cl_calls c) callID"

definition Remove :: "string \<Rightarrow> ('j, 'f) Client \<Rightarrow> ('j, 'f) Client" where
  "Remove callID c = c\<lparr>cl_calls := Mapping.delete callID (cl_calls c)\<rparr>"

definition Count :: "('j, 'f) Client \<Rightarrow> nat" where
  "Count c = Mapping.size (cl_calls c)"

text \<open>The managers are returned in no particular order: here, still as a mapping.\<close>

definition Drain :: "('j, 'f) Client \<Rightarrow> (string, ('j, 'f) CallManager) mapping \<times> ('j, 'f) Client" where
  "Drain c = (cl_calls c, c\<lparr>cl_calls := Mapping.empty\<rparr>)"

text \<open>What a manager found in the registry has become: the map holds pointers.\<close>

definition put :: "string \<Rightarrow> ('j, 'f) CallManager \<Rightarrow> ('j, 'f) Client \<Rightarrow> ('j, 'f) Client" where
  "put callID cm c = c\<lparr>cl_calls := Mapping.update callID cm (cl_calls c)\<rparr>"

section \<open>New calls\<close>

definition Client_StartCall ::
  "('j, 'e, 'f) env \<Rightarrow> string \<Rightarrow> bytes \<Rightarrow> 'j \<Rightarrow> bool \<Rightarrow> ('j, 'f) Client \<Rightarrow> ('e call_error + string) \<times> ('j, 'f) Client" where
  "Client_StartCall e callID callKey peer video c =
     (let (cm, c) = createCall callID c in
      case StartCall e callID peer video callKey cm of
        (Some er, cm) \<Rightarrow> (Inl er, Remove callID (put callID cm c))
      | (None, cm) \<Rightarrow> (Inr callID, put callID cm c))"

definition client_reject :: "('j, 'e, 'f) env \<Rightarrow> 'j node \<Rightarrow> 'j \<Rightarrow> ('j, 'f) Client \<Rightarrow> ('j, 'f) Client" where
  "client_reject e node peer c = (case ExtractNodeInfo (en_lib e) node of
      None \<Rightarrow> c
    | Some info \<Rightarrow>
        (let creator = AttrString (en_lib e) (nd_Attrs (ni_InnerNode info)) ''call-creator'';
             creator = (if creator = '''' then jid_String (en_lib e) peer else creator)
         in c\<lparr>cl_out := cl_out c @ [ClientSend (BuildRejectStanza (en_sid e 0) peer (ni_CallID info) (jid_of e creator))]\<rparr>))"

definition HandleOffer :: "('j, 'e, 'f) env \<Rightarrow> 'j node \<Rightarrow> 'j \<Rightarrow> ('j, 'f) Client \<Rightarrow> ('j, 'f) Client go" where
  "HandleOffer e node peer c = (case ExtractNodeInfo (en_lib e) node of
      None \<Rightarrow> Some c
    | Some info \<Rightarrow>
        if ni_CallID info = '''' then Some c
        else if get c (ni_CallID info) \<noteq> None then Some c
        else if cl_maxCalls c > 0 \<and> int (Count c) \<ge> cl_maxCalls c then Some (client_reject e node peer c)
        else (case DecryptCallKeyInNode (en_lib e) (so_DecryptCallKey (en_sock e)) (ni_InnerNode info) peer of
            Inl _ \<Rightarrow> Some (client_reject e node peer c)
          | Inr callKey \<Rightarrow> do {
              let (cm, c) = createCall (ni_CallID info) c;
              cm \<leftarrow> HandleCallOffer e node peer callKey cm;
              Some (put (ni_CallID info) cm c) }))"

section \<open>Routing\<close>

text \<open>An operation of the manager with the given id, if there is one.\<close>

definition routed :: "string \<Rightarrow> (('j, 'f) CallManager \<Rightarrow> ('j, 'f) CallManager go) \<Rightarrow> ('j, 'f) Client \<Rightarrow> ('j, 'f) Client go" where
  "routed callID f c = (case get c callID of
      None \<Rightarrow> Some c
    | Some cm \<Rightarrow> do { cm \<leftarrow> f cm; Some (put callID cm c) })"

text \<open>The stanza handlers route by the id on the first child.\<close>

definition routed_node ::
  "('j, 'e, 'f) env \<Rightarrow> 'j node \<Rightarrow> (('j, 'f) CallManager \<Rightarrow> ('j, 'f) CallManager go) \<Rightarrow> ('j, 'f) Client \<Rightarrow> ('j, 'f) Client go" where
  "routed_node e node f c = (case ExtractNodeInfo (en_lib e) node of
      None \<Rightarrow> Some c | Some info \<Rightarrow> routed (ni_CallID info) f c)"

definition HandleAccept :: "('j, 'e, 'f) env \<Rightarrow> 'j node \<Rightarrow> 'j \<Rightarrow> ('j, 'f) Client \<Rightarrow> ('j, 'f) Client go" where
  "HandleAccept e node peer = routed_node e node (\<lambda>cm. Some (HandleCallAccept e id node peer cm))"

definition HandleTransport :: "('j, 'e, 'f) env \<Rightarrow> 'j node \<Rightarrow> 'j \<Rightarrow> ('j, 'f) Client \<Rightarrow> ('j, 'f) Client go" where
  "HandleTransport e node peer = routed_node e node (HandleCallTransport e node)"

definition HandleRelayLatency :: "('j, 'e, 'f) env \<Rightarrow> 'j node \<Rightarrow> 'j \<Rightarrow> ('j, 'f) Client \<Rightarrow> ('j, 'f) Client go" where
  "HandleRelayLatency e node peer = routed_node e node (HandleCallRelayLatency e node peer)"

definition HandleTerminate :: "('j, 'e, 'f) env \<Rightarrow> 'j node \<Rightarrow> ('j, 'f) Client \<Rightarrow> ('j, 'f) Client go" where
  "HandleTerminate e node = routed_node e node (\<lambda>cm. Some (HandleCallTerminate e node cm))"

definition Client_HandleVideoState :: "('j, 'e, 'f) env \<Rightarrow> 'j node \<Rightarrow> ('j, 'f) Client \<Rightarrow> ('j, 'f) Client go" where
  "Client_HandleVideoState e node c =
     (let parsed = ParseVideoState (en_lib e) node in
      if \<not> pv_Found parsed \<or> pv_CallID parsed = '''' then Some c
      else routed (pv_CallID parsed) (\<lambda>cm. Some (HandleVideoState e node cm)) c)"

text \<open>The commands fail when there is no call with the id; ending one is then no error.\<close>

definition command ::
  "string \<Rightarrow> (('j, 'f) CallManager \<Rightarrow> 'e call_error option \<times> ('j, 'f) CallManager) \<Rightarrow> ('j, 'f) Client \<Rightarrow> 'e call_error option \<times> ('j, 'f) Client" where
  "command callID f c = (case get c callID of
      None \<Rightarrow> (Some (CallError (''no call with id '' @ callID)), c)
    | Some cm \<Rightarrow> (let (er, cm) = f cm in (er, put callID cm c)))"

definition EnableVideo :: "('j, 'e, 'f) env \<Rightarrow> string \<Rightarrow> ('j, 'f) Client \<Rightarrow> 'e call_error option \<times> ('j, 'f) Client" where
  "EnableVideo e callID = command callID (EnableLocalVideo e)"

definition DisableVideo :: "('j, 'e, 'f) env \<Rightarrow> string \<Rightarrow> ('j, 'f) Client \<Rightarrow> 'e call_error option \<times> ('j, 'f) Client" where
  "DisableVideo e callID = command callID (DisableLocalVideo e)"

definition HoldCall :: "('j, 'e, 'f) env \<Rightarrow> string \<Rightarrow> 'f list \<Rightarrow> ('j, 'f) Client \<Rightarrow> 'e call_error option \<times> ('j, 'f) Client" where
  "HoldCall e callID music = command callID (Hold e music)"

definition ResumeCall :: "('j, 'e, 'f) env \<Rightarrow> string \<Rightarrow> ('j, 'f) Client \<Rightarrow> 'e call_error option \<times> ('j, 'f) Client" where
  "ResumeCall e callID = command callID (Resume e)"

definition Client_AcceptCall :: "('j, 'e, 'f) env \<Rightarrow> string \<Rightarrow> ('j, 'f) Client \<Rightarrow> 'e call_error option \<times> ('j, 'f) Client" where
  "Client_AcceptCall e callID = command callID (AcceptCall e callID)"

definition Client_RejectCall ::
  "('j, 'e, 'f) env \<Rightarrow> string \<Rightarrow> EndCallReason \<Rightarrow> ('j, 'f) Client \<Rightarrow> 'e call_error option \<times> ('j, 'f) Client" where
  "Client_RejectCall e callID reason = command callID (RejectCall e callID reason)"

definition Client_EndCall :: "('j, 'e, 'f) env \<Rightarrow> string \<Rightarrow> EndCallReason \<Rightarrow> ('j, 'f) Client \<Rightarrow> ('j, 'f) Client" where
  "Client_EndCall e callID reason c = (case get c callID of
      None \<Rightarrow> c | Some cm \<Rightarrow> put callID (EndCall e reason cm) c)"

section \<open>Events of a client\<close>

text \<open>
  \<open>ClManager\<close> stands for what reaches a manager without the client: relay data and relay events,
  frames to send, ticks, and the work its handlers put on other goroutines.
\<close>

datatype ('j, 'e, 'f) client_event =
    ClStart string bytes 'j bool
  | ClOffer "'j node" 'j
  | ClAccept "'j node" 'j
  | ClTransport "'j node" 'j
  | ClLatency "'j node" 'j
  | ClTerminate "'j node"
  | ClVideoState "'j node"
  | ClEnableVideo string
  | ClDisableVideo string
  | ClHold string "'f list"
  | ClResume string
  | ClAnswer string
  | ClReject string EndCallReason
  | ClEnd string EndCallReason
  | ClRemove string
  | ClDrain
  | ClManager string "('j, 'e, 'f) call_event"

fun client_dispatch :: "('j, 'e, 'f) env \<Rightarrow> ('j, 'e, 'f) client_event \<Rightarrow> ('j, 'f) Client \<Rightarrow> ('j, 'f) Client go" where
  "client_dispatch e (ClStart cid key peer video) c = Some (snd (Client_StartCall e cid key peer video c))"
| "client_dispatch e (ClOffer node peer) c = HandleOffer e node peer c"
| "client_dispatch e (ClAccept node peer) c = HandleAccept e node peer c"
| "client_dispatch e (ClTransport node peer) c = HandleTransport e node peer c"
| "client_dispatch e (ClLatency node peer) c = HandleRelayLatency e node peer c"
| "client_dispatch e (ClTerminate node) c = HandleTerminate e node c"
| "client_dispatch e (ClVideoState node) c = Client_HandleVideoState e node c"
| "client_dispatch e (ClEnableVideo k) c = Some (snd (EnableVideo e k c))"
| "client_dispatch e (ClDisableVideo k) c = Some (snd (DisableVideo e k c))"
| "client_dispatch e (ClHold k music) c = Some (snd (HoldCall e k music c))"
| "client_dispatch e (ClResume k) c = Some (snd (ResumeCall e k c))"
| "client_dispatch e (ClAnswer k) c = Some (snd (Client_AcceptCall e k c))"
| "client_dispatch e (ClReject k reason) c = Some (snd (Client_RejectCall e k reason c))"
| "client_dispatch e (ClEnd k reason) c = Some (Client_EndCall e k reason c)"
| "client_dispatch e (ClRemove k) c = Some (Remove k c)"
| "client_dispatch e ClDrain c = Some (snd (Drain c))"
| "client_dispatch e (ClManager k ev) c = routed k (dispatch e ev) c"

text \<open>The manager an event is for, and the event it is there.\<close>

definition by_node :: "('j, 'e, 'f) env \<Rightarrow> 'j node \<Rightarrow> ('j, 'e, 'f) call_event \<Rightarrow> (string \<times> ('j, 'e, 'f) call_event) option" where
  "by_node e node ev = map_option (\<lambda>info. (ni_CallID info, ev)) (ExtractNodeInfo (en_lib e) node)"

fun target :: "('j, 'e, 'f) env \<Rightarrow> ('j, 'e, 'f) client_event \<Rightarrow> (string \<times> ('j, 'e, 'f) call_event) option" where
  "target e (ClAccept node peer) = by_node e node (EvAccept node peer)"
| "target e (ClTransport node peer) = by_node e node (EvTransport node)"
| "target e (ClLatency node peer) = by_node e node (EvRelayLatency node peer)"
| "target e (ClTerminate node) = by_node e node (EvTerminate node)"
| "target e (ClVideoState node) = (let parsed = ParseVideoState (en_lib e) node in
     if \<not> pv_Found parsed \<or> pv_CallID parsed = '''' then None else Some (pv_CallID parsed, EvVideoState node))"
| "target e (ClEnableVideo k) = Some (k, EvEnableVideo)"
| "target e (ClDisableVideo k) = Some (k, EvDisableVideo)"
| "target e (ClHold k music) = Some (k, EvHold music)"
| "target e (ClResume k) = Some (k, EvResume)"
| "target e (ClAnswer k) = Some (k, EvAcceptCall k)"
| "target e (ClReject k reason) = Some (k, EvRejectCall k reason)"
| "target e (ClEnd k reason) = Some (k, EvEndCall reason)"
| "target e (ClManager k ev) = Some (k, ev)"
| "target e _ = None"

fun registering :: "('j, 'e, 'f) client_event \<Rightarrow> bool" where
  "registering (ClStart _ _ _ _) = True"
| "registering (ClOffer _ _) = True"
| "registering (ClRemove _) = True"
| "registering ClDrain = True"
| "registering _ = False"

lemma command_routed: "Some (snd (command k f c)) = routed k (\<lambda>cm. Some (snd (f cm))) c"
  by (simp add: command_def routed_def Let_def split: option.split prod.split)

lemma Client_EndCall_routed: "Some (Client_EndCall e k reason c) = routed k (\<lambda>cm. Some (EndCall e reason cm)) c"
  by (simp add: Client_EndCall_def routed_def split: option.split)

text \<open>Every event that does not change the registry is one event of one manager, or nothing.\<close>

lemma client_dispatch_target:
  "\<not> registering ev \<Longrightarrow> client_dispatch e ev c =
     (case target e ev of None \<Rightarrow> Some c | Some (k, cev) \<Rightarrow> routed k (dispatch e cev) c)"
  by (cases ev)
     (simp_all add: HandleAccept_def HandleTransport_def HandleRelayLatency_def HandleTerminate_def Client_HandleVideoState_def
       EnableVideo_def DisableVideo_def HoldCall_def ResumeCall_def Client_AcceptCall_def Client_RejectCall_def
       command_routed Client_EndCall_routed Let_def by_node_def routed_node_def routed_def split: option.split)

section \<open>Lookups\<close>

lemma lookup_delete_if: "Mapping.lookup (Mapping.delete k m) k' = (if k' = k then None else Mapping.lookup m k')"
  by transfer simp

lemma get_simps [simp]:
  "get (put k m c) k' = (if k' = k then Some m else get c k')" "get (Remove k c) k' = (if k' = k then None else get c k')"
  "get (snd (Drain c)) k' = None" "get (client_reject e node peer c) k' = get c k'" "get (c\<lparr>cl_out := out\<rparr>) k' = get c k'"
  "get (NewClient exts n) k' = None"
  by (simp_all add: get_def put_def Remove_def Drain_def client_reject_def NewClient_def lookup_update' lookup_delete_if Let_def split: option.split)

lemma createCall_simps [simp]:
  "fst (createCall k c) = NewCallManager (cl_extensions c)"
  "get (snd (createCall k c)) k' = (if k' = k then Some (NewCallManager (cl_extensions c)) else get c k')"
  by (simp_all add: createCall_def get_def lookup_update' Let_def)

lemma routed_get:
  assumes "routed k f c = Some d"
  shows "get d k' = (if k' = k then Option.bind (get c k) f else get c k')"
  using assms by (auto simp: routed_def split: option.split_asm Option.bind_split_asm)

section \<open>Calls do not influence one another\<close>

fun client_run :: "(('j, 'e, 'f) env \<times> ('j, 'e, 'f) client_event) list \<Rightarrow> ('j, 'f) Client \<Rightarrow> ('j, 'f) Client go" where
  "client_run [] c = Some c"
| "client_run ((e, ev) # evs) c = do { c \<leftarrow> client_dispatch e ev c; client_run evs c }"

text \<open>The events of one call among those of the client.\<close>

definition for_call :: "string \<Rightarrow> (('j, 'e, 'f) env \<times> ('j, 'e, 'f) client_event) list \<Rightarrow> (('j, 'e, 'f) env \<times> ('j, 'e, 'f) call_event) list" where
  "for_call k evs = concat (map (\<lambda>(e, ev). case target e ev of
      Some (k', cev) \<Rightarrow> if k' = k then [(e, cev)] else [] | None \<Rightarrow> []) evs)"

text \<open>Events that leave the call registered: everything but a start under the same id and its removal.\<close>

fun keeps :: "string \<Rightarrow> ('j, 'e, 'f) client_event \<Rightarrow> bool" where
  "keeps k (ClStart cid _ _ _) \<longleftrightarrow> cid \<noteq> k"
| "keeps k (ClRemove cid) \<longleftrightarrow> cid \<noteq> k"
| "keeps k ClDrain \<longleftrightarrow> False"
| "keeps k _ \<longleftrightarrow> True"

lemma Client_StartCall_get:
  "get (snd (Client_StartCall e cid key peer video c)) k =
     (if k = cid then (case StartCall e cid peer video key (NewCallManager (cl_extensions c)) of
          (Some _, _) \<Rightarrow> None | (None, cm) \<Rightarrow> Some cm)
      else get c k)"
  using createCall_simps [of cid c] unfolding Client_StartCall_def
  by (cases "createCall cid c") (simp split: prod.split option.split)

text \<open>What an offer does to the registry.\<close>

lemma offer_tail:
  "(let (cm, c') = createCall k c in Option.bind (f cm) (\<lambda>cm. Some (put k cm c'))) =
   map_option (\<lambda>cm. put k cm (snd (createCall k c))) (f (NewCallManager (cl_extensions c)))"
  by (simp add: createCall_def Let_def map_conv_bind_option comp_def)

lemma HandleOffer_get:
  assumes "HandleOffer e node peer c = Some d"
  shows "get d k = get c k \<or> (\<exists>info key n. ExtractNodeInfo (en_lib e) node = Some info \<and> k = ni_CallID info \<and> get c k = None \<and>
    HandleCallOffer e node peer key (NewCallManager (cl_extensions c)) = Some n \<and> get d k = Some n)"
  using assms unfolding HandleOffer_def offer_tail by (auto split: option.split_asm if_split_asm sum.split_asm)

lemma routed_Some:
  "routed k f c = Some d \<Longrightarrow> get c k' = Some m \<Longrightarrow> \<exists>n. (if k' = k then f m else Some m) = Some n \<and> get d k' = Some n"
  by (auto simp: routed_def split: option.split_asm Option.bind_split_asm)

lemma client_event_get:
  assumes "client_dispatch e ev c = Some d" "get c k = Some m" "keeps k ev"
  shows "\<exists>n. cm_run (for_call k [(e, ev)]) m = Some n \<and> get d k = Some n"
proof (cases "registering ev")
  case True
  then show ?thesis using assms HandleOffer_get [of e _ _ c d k]
    by (cases ev) (auto simp: Client_StartCall_get for_call_def)
next
  case False
  show ?thesis
  proof (cases "target e ev")
    case None
    then show ?thesis using assms client_dispatch_target [OF False, of e c] by (simp add: for_call_def)
  next
    case (Some p)
    obtain k' cev where p: "p = (k', cev)" by fastforce
    with Some have "routed k' (dispatch e cev) c = Some d" using assms(1) client_dispatch_target [OF False, of e c] by simp
    from routed_Some [OF this assms(2)] Some p show ?thesis by (auto simp: for_call_def split: if_split_asm)
  qed
qed

lemma cm_run_append: "cm_run (xs @ ys) m = Option.bind (cm_run xs m) (cm_run ys)"
  by (induction xs m rule: cm_run.induct) (auto split: Option.bind_split)

lemma for_call_Cons: "for_call k (x # evs) = for_call k [x] @ for_call k evs"
  by (simp add: for_call_def)

lemma client_run_get:
  assumes "client_run evs c = Some d" "get c k = Some m" "list_all (keeps k \<circ> snd) evs"
  shows "\<exists>n. cm_run (for_call k evs) m = Some n \<and> get d k = Some n"
  using assms
proof (induction evs arbitrary: c m)
  case (Cons x evs)
  obtain e ev where x: "x = (e, ev)" by fastforce
  obtain c1 where c1: "client_dispatch e ev c = Some c1" "client_run evs c1 = Some d"
    using Cons.prems(1) by (auto simp: x split: Option.bind_split_asm)
  obtain m1 where "cm_run (for_call k [x]) m = Some m1" "get c1 k = Some m1"
    using client_event_get [OF c1(1) Cons.prems(2)] Cons.prems(3) by (auto simp: x)
  with Cons.IH [OF c1(2)] Cons.prems(3) show ?case by (auto simp: for_call_Cons [of k x evs] cm_run_append)
qed (simp add: for_call_def)

section \<open>Reachable clients\<close>

text \<open>A registered manager satisfies the manager's invariant and serves the call it is registered for.\<close>

definition serves :: "time \<Rightarrow> string \<Rightarrow> ('j, 'f) CallManager \<Rightarrow> bool" where
  "serves now k m \<longleftrightarrow> cm_inv (m, now) \<and> (\<exists>x. cm_currentCall m = Some x \<and> ci_CallID x = k)"

lemma ApplyTransition_id: "ApplyTransition c t now = Inr d \<Longrightarrow> ci_CallID d = ci_CallID c"
  by (auto elim: ApplyTransition_InrE)

lemma call_moves_id: "call_moves now a b \<Longrightarrow> map_option ci_CallID b = map_option ci_CallID a"
  by (induction rule: call_moves.induct) (auto dest: ApplyTransition_id)

lemma new_manager_inv: "cm_inv (NewCallManager exts, now)"
  by (rule cm.init_inv) (rule cm_init.intros)

lemma evolves_id:
  assumes "evolves now (m\<lparr>cm_currentCall := Some x\<rparr>) n"
  obtains y where "cm_currentCall n = Some y" "ci_CallID y = ci_CallID x"
  using assms call_moves_id [of now "Some x" "cm_currentCall n"] by (cases "cm_currentCall n") (auto simp: evolves_def)

lemma serves_event:
  fixes e :: "('j, string, 'f) env"
  assumes "serves now k m" "now \<le> en_now e" "dispatch e ev m = Some n" "\<not> starting ev"
  shows "serves (en_now e) k n"
proof -
  have "cm_inv (n, en_now e)" using assms cm.step_inv [of "(m, now)" "(n, en_now e)"] by (auto simp: serves_def intro: cm_step.intros)
  moreover have "call_moves (en_now e) (cm_currentCall m) (cm_currentCall n)"
    using dispatch_call [OF assms(3)] assms(1,4) by (auto simp: serves_def cm_inv_def)
  from call_moves_id [OF this] have "\<exists>x. cm_currentCall n = Some x \<and> ci_CallID x = k" using assms(1)
    by (cases "cm_currentCall n") (auto simp: serves_def)
  ultimately show ?thesis by (simp add: serves_def)
qed

lemma serves_started:
  fixes e :: "('j, string, 'f) env"
  shows "serves (en_now e) k (snd (StartCall e k peer video key (NewCallManager exts)))"
proof -
  let ?m = "NewCallManager exts :: ('j, 'f) CallManager"
  have "\<not> (\<exists>c. cm_currentCall ?m = Some c \<and> \<not> IsEnded c)" by (simp add: NewCallManager_def)
  then obtain c where c: "ci_CallID c = k" "evolves (en_now e)
      (?m\<lparr>cm_currentCall := Some (c\<lparr>ci_EncryptionKey := Some key, ci_RelayData := None\<rparr>)\<rparr>) (snd (StartCall e k peer video key ?m))"
    by (rule StartCall_evolves)
  have "cm_inv (snd (StartCall e k peer video key ?m), en_now e)"
    by (rule cm.step_inv [OF new_manager_inv [of exts "en_now e"]]) (rule cm_step.intros [of _ _ "EvStartCall k peer video key"], simp_all)
  with c show ?thesis by (auto simp: serves_def elim: evolves_id)
qed

lemma serves_offered:
  fixes e :: "('j, string, 'f) env"
  assumes "HandleCallOffer e node peer key (NewCallManager exts) = Some n" "ExtractNodeInfo (en_lib e) node = Some info"
  shows "serves (en_now e) (ni_CallID info) n"
proof -
  obtain c rd where c: "ci_CallID c = ni_CallID info" "evolves (en_now e)
      ((NewCallManager exts)\<lparr>cm_currentCall := Some (c\<lparr>ci_EncryptionKey := key, ci_RelayData := rd\<rparr>)\<rparr>) n"
    using assms by (rule HandleCallOffer_evolves)
  have "cm_inv (n, en_now e)"
    by (rule cm.step_inv [OF new_manager_inv [of exts "en_now e"]]) (rule cm_step.intros [of _ _ "EvOffer node peer key"], simp_all add: assms)
  with c show ?thesis by (auto simp: serves_def elim: evolves_id)
qed

type_synonym ('j, 'f) cl_cfg = "('j, 'f) Client \<times> time"

fun proper :: "('j, 'e, 'f) client_event \<Rightarrow> bool" where
  "proper (ClManager _ ev) \<longleftrightarrow> \<not> starting ev"
| "proper _ \<longleftrightarrow> True"

inductive cl_init :: "('j, 'f) cl_cfg \<Rightarrow> bool" where
  "cl_init (NewClient exts maxCalls, now)"

inductive cl_step :: "('j, 'f) cl_cfg \<Rightarrow> ('j, 'f) cl_cfg \<Rightarrow> bool" where
  "now \<le> en_now (e :: ('j, string, 'f) env) \<Longrightarrow> proper ev \<Longrightarrow> client_dispatch e ev c = Some d \<Longrightarrow> cl_step (c, now) (d, en_now e)"

definition cl_inv :: "('j, 'f) cl_cfg \<Rightarrow> bool" where
  "cl_inv cfg \<longleftrightarrow> (\<forall>k m. get (fst cfg) k = Some m \<longrightarrow> serves (snd cfg) k m)"

lemma serves_later: "serves now k m \<Longrightarrow> now \<le> now' \<Longrightarrow> serves now' k m"
  by (auto simp: serves_def cm_inv_def intro: call_inv_later)

lemma target_not_starting: "proper ev \<Longrightarrow> target e ev = Some (k, cev) \<Longrightarrow> \<not> starting cev"
  by (cases ev) (auto simp: by_node_def Let_def split: if_split_asm)

text \<open>What becomes of the registered managers in one event.\<close>

lemma registering_serves:
  fixes e :: "('j, string, 'f) env"
  assumes inv: "\<And>k m. get c k = Some m \<Longrightarrow> serves (en_now e) k m"
    and "registering ev" "client_dispatch e ev c = Some d" "get d k = Some n"
  shows "serves (en_now e) k n"
proof (cases ev)
  case (ClStart cid key peer video)
  show ?thesis
  proof (cases "k = cid")
    case True
    have "n = snd (StartCall e k peer video key (NewCallManager (cl_extensions c)))"
      using assms(3,4) by (auto simp: ClStart True Client_StartCall_get split: prod.split_asm option.split_asm)
    then show ?thesis by (simp add: serves_started)
  qed (use assms(3,4) inv in \<open>auto simp: ClStart Client_StartCall_get\<close>)
next
  case (ClOffer node peer)
  with assms(3) have "HandleOffer e node peer c = Some d" by simp
  from HandleOffer_get [OF this, of k] show ?thesis using assms(4) inv serves_offered by fastforce
qed (use assms(2-4) inv in \<open>auto split: if_split_asm\<close>)

lemma client_event_serves:
  fixes e :: "('j, string, 'f) env"
  assumes inv: "\<And>k m. get c k = Some m \<Longrightarrow> serves (en_now e) k m"
    and "proper ev" "client_dispatch e ev c = Some d" "get d k = Some n"
  shows "serves (en_now e) k n"
proof (cases "registering ev")
  case True
  from registering_serves [OF inv this assms(3,4)] show ?thesis .
next
  case False
  then consider "d = c" | k' cev where "target e ev = Some (k', cev)" "routed k' (dispatch e cev) c = Some d"
    using assms(3) client_dispatch_target [OF False, of e c] by (cases "target e ev") auto
  then show ?thesis
  proof cases
    case 2
    have ns: "\<not> starting cev" using target_not_starting [OF assms(2) 2(1)] .
    show ?thesis using routed_get [OF 2(2), of k] assms(4) inv serves_event [OF inv _ _ ns]
      by (auto split: if_split_asm Option.bind_split_asm)
  qed (use assms(4) inv in simp)
qed

lemma cl_inv_step:
  assumes "cl_inv s" "cl_step s t"
  shows "cl_inv t"
  using assms(2)
proof cases
  case (1 now e ev c d)
  have "serves (en_now e) k m" if "get c k = Some m" for k m
    using assms(1) 1(1,3) that serves_later [of now k m] by (simp add: cl_inv_def)
  from client_event_serves [OF this 1(4,5)] show ?thesis by (simp add: cl_inv_def 1(2))
qed

interpretation cl: invariant_system cl_init cl_step cl_inv
proof unfold_locales
  show "cl_inv s" if "cl_init s" for s :: "('a, 'b) cl_cfg" using that by cases (simp add: cl_inv_def)
qed (rule cl_inv_step)

lemma client_dispatch_total:
  fixes e :: "('j, string, 'f) env"
  assumes "\<And>k m. get c k = Some m \<Longrightarrow> cm_wf m"
  shows "client_dispatch e ev c \<noteq> None"
proof (cases "registering ev")
  case True
  then show ?thesis using HandleCallOffer_total
    by (cases ev) (auto simp: HandleOffer_def offer_tail split: option.split sum.split)
next
  case False
  have "routed k (dispatch e cev) c \<noteq> None" for k cev
    using assms dispatch_wf [of _ e cev] by (fastforce simp: routed_def split: option.split)
  then show ?thesis unfolding client_dispatch_target [OF False] by (auto split: option.split)
qed

text \<open>A client that has taken one offer.\<close>

definition sample_client :: "(string, int) Client" where "sample_client = NewClient [] 4"

lemma sample_client_info:
  "\<exists>info. ExtractNodeInfo (en_lib (sample_env 7)) sample_offer = Some info \<and> ni_CallID info = ''C1'' \<and>
     DecryptCallKeyInNode (en_lib (sample_env 7)) (so_DecryptCallKey (en_sock (sample_env 7))) (ni_InnerNode info) ''5@s'' = Inr None"
  by (simp add: ExtractNodeInfo_def sample_offer_def AttrString_def DecryptCallKeyInNode_def findEncNode_def sample_env_def)

lemma sample_client_offer:
  "\<exists>d m. HandleOffer (sample_env 7) sample_offer ''5@s'' sample_client = Some d \<and> get d ''C1'' = Some m"
proof -
  obtain m :: "(string, int) CallManager" where m: "HandleCallOffer (sample_env 7) sample_offer ''5@s'' None (NewCallManager []) = Some m"
    using sample_ringing_reached by blast
  obtain info where i: "ExtractNodeInfo (en_lib (sample_env 7)) sample_offer = Some info" "ni_CallID info = ''C1''"
      "DecryptCallKeyInNode (en_lib (sample_env 7)) (so_DecryptCallKey (en_sock (sample_env 7))) (ni_InnerNode info) ''5@s'' = Inr None"
    using sample_client_info by blast
  have c: "get sample_client k = None" "Count sample_client = 0" "cl_maxCalls sample_client = 4" "cl_extensions sample_client = []" for k
    by (simp_all add: sample_client_def) (simp_all add: NewClient_def Count_def)
  show ?thesis unfolding HandleOffer_def offer_tail using m by (simp add: i c)
qed

lemma sample_client_reach:
  obtains c m where "reach cl_init cl_step (c :: (string, int) Client, 7)" "get c ''C1'' = Some m"
proof -
  obtain d m where d: "HandleOffer (sample_env 7) sample_offer ''5@s'' sample_client = Some d" "get d ''C1'' = Some m"
    using sample_client_offer by blast
  have "cl_step (sample_client, 0) (d, 7)"
    using cl_step.intros [of 0 "sample_env 7" "ClOffer sample_offer ''5@s''" sample_client d] d(1) by (simp add: sample_env_def)
  moreover have "reach cl_init cl_step (sample_client, 0)" unfolding sample_client_def by (rule reach_init) (rule cl_init.intros)
  ultimately have "reach cl_init cl_step (d, 7)" by (rule reach_step [rotated])
  then show thesis using d(2) by (rule that)
qed

section \<open>Properties\<close>

text \<open>
  Claim C1. On every client reachable by any events, every registered call manager serves the call
  it is registered for, is well-formed and has a current call that satisfies the life cycle
  invariant; and no further event panics.
\<close>

theorem client_registry_invariant:
  fixes e :: "('j, string, 'f) env"
  assumes "reach cl_init cl_step (c, now)"
  shows "(\<forall>k m. get c k = Some m \<longrightarrow> cm_wf m \<and> (\<exists>x. cm_currentCall m = Some x \<and> ci_CallID x = k \<and> call_inv (x, now))) \<and>
    client_dispatch e ev c \<noteq> None"
proof -
  have "serves now k m" if "get c k = Some m" for k m using cl.reach_inv [OF assms] that by (simp add: cl_inv_def)
  then have s: "cm_wf m \<and> (\<exists>x. cm_currentCall m = Some x \<and> ci_CallID x = k \<and> call_inv (x, now))" if "get c k = Some m" for k m
    using that by (fastforce simp: serves_def cm_inv_def)
  with client_dispatch_total [of c e ev] show ?thesis by blast
qed

theorem client_registry_invariant_witness:
  "\<exists>c m. reach cl_init cl_step (c :: (string, int) Client, 7) \<and> get c ''C1'' = Some m \<and> cm_wf m"
proof -
  obtain c m where c: "reach cl_init cl_step (c :: (string, int) Client, 7)" "get c ''C1'' = Some m" by (rule sample_client_reach)
  from client_registry_invariant [OF c(1), of "sample_env 9" ClDrain] c show ?thesis by blast
qed

text \<open>
  Claim C5. Calls do not influence one another: whatever events a client processes, for any calls, the
  manager of a call that stays registered ends as if it alone had processed the events meant for it.
\<close>

theorem calls_run_independently:
  assumes "client_run evs c = Some d" "get c k = Some m" "list_all (keeps k \<circ> snd) evs"
  shows "\<exists>n. cm_run (for_call k evs) m = Some n \<and> get d k = Some n"
  by (rule client_run_get [OF assms])

theorem calls_run_independently_witness:
  "\<exists>c d m n. get c ''C1'' = Some m \<and>
     client_run [(sample_env 9, ClAnswer ''C1''), (sample_env 9, ClEnd ''X'' EndCallReasonUserEnded)] c = Some d \<and>
     cm_run [(sample_env 9, EvAcceptCall ''C1'')] m = Some n \<and> get d ''C1'' = Some n"
proof -
  obtain c m where m: "reach cl_init cl_step (c :: (string, int) Client, 7)" "get c ''C1'' = Some m" by (rule sample_client_reach)
  let ?evs = "[(sample_env 9, ClAnswer ''C1''), (sample_env 9, ClEnd ''X'' EndCallReasonUserEnded)]"
  obtain d where d: "client_run ?evs c = Some d" by simp
  have f: "for_call ''C1'' ?evs = [(sample_env 9, EvAcceptCall ''C1'')]" by (simp add: for_call_def)
  have "list_all (keeps ''C1'' \<circ> snd) ?evs" by simp
  from calls_run_independently [OF d m(2) this] d m(2) show ?thesis unfolding f by blast
qed

text \<open>
  Claim C10. Which offers are admitted: one for a call already registered changes nothing; one that comes
  when the session is at capacity, or whose key cannot be decrypted, leaves the registry alone and is
  answered with a rejection of that call; any other registers a manager for its call and nothing
  else, so that offers never take the number of calls beyond the limit.
\<close>

theorem offer_admission:
  fixes e :: "('j, string, 'f) env"
  assumes "ExtractNodeInfo (en_lib e) node = Some info" "ni_CallID info \<noteq> ''''" "finite (Mapping.keys (cl_calls c))"
  shows "\<exists>d. HandleOffer e node peer c = Some d \<and>
    (if get c (ni_CallID info) \<noteq> None then d = c
     else if 0 < cl_maxCalls c \<and> cl_maxCalls c \<le> int (Count c) \<or>
        isl (DecryptCallKeyInNode (en_lib e) (so_DecryptCallKey (en_sock e)) (ni_InnerNode info) peer)
     then cl_calls d = cl_calls c \<and> (\<exists>creator. cl_out d = cl_out c @ [ClientSend (BuildRejectStanza (en_sid e 0) peer (ni_CallID info) creator)])
     else Count d = Count c + 1 \<and> (0 < cl_maxCalls c \<longrightarrow> int (Count d) \<le> cl_maxCalls c) \<and>
        (\<forall>k. k \<noteq> ni_CallID info \<longrightarrow> get d k = get c k) \<and>
        (\<exists>m. get d (ni_CallID info) = Some m \<and> serves (en_now e) (ni_CallID info) m))"
proof -
  let ?key = "DecryptCallKeyInNode (en_lib e) (so_DecryptCallKey (en_sock e)) (ni_InnerNode info) peer"
  have r: "cl_calls (client_reject e node peer c) = cl_calls c \<and>
      (\<exists>creator. cl_out (client_reject e node peer c) = cl_out c @ [ClientSend (BuildRejectStanza (en_sid e 0) peer (ni_CallID info) creator)])"
    using assms(1) by (auto simp: client_reject_def Let_def)
  have n: "Count (put (ni_CallID info) m (snd (createCall (ni_CallID info) c))) = Count c + 1" if "get c (ni_CallID info) = None" for m
  proof -
    have "ni_CallID info \<notin> Mapping.keys (cl_calls c)" using that by (simp add: get_def keys_dom_lookup domIff)
    then show ?thesis using assms(3) by (simp add: Count_def put_def createCall_def Let_def Mapping.size_def)
  qed
  show ?thesis
  proof (cases "get c (ni_CallID info) \<noteq> None \<or> 0 < cl_maxCalls c \<and> cl_maxCalls c \<le> int (Count c) \<or> isl ?key")
    case True
    then show ?thesis using assms(1,2) r by (cases ?key) (auto simp: HandleOffer_def)
  next
    case False
    then obtain key where key: "?key = Inr key" by (cases ?key) auto
    obtain m where m: "HandleCallOffer e node peer key (NewCallManager (cl_extensions c)) = Some m" using HandleCallOffer_total by fastforce
    have "HandleOffer e node peer c = Some (put (ni_CallID info) m (snd (createCall (ni_CallID info) c)))"
      unfolding HandleOffer_def offer_tail using assms(1,2) False key m by auto
    moreover have "0 < cl_maxCalls c \<longrightarrow> int (Count c + 1) \<le> cl_maxCalls c" using False by linarith
    ultimately show ?thesis using False n [of m] serves_offered [OF m assms(1)] by auto
  qed
qed

theorem offer_admission_witness:
  "\<exists>d. HandleOffer (sample_env 7) sample_offer ''5@s'' sample_client = Some d \<and> Count d = 1"
proof -
  obtain info where i: "ExtractNodeInfo (en_lib (sample_env 7)) sample_offer = Some info" "ni_CallID info = ''C1''"
      "\<not> isl (DecryptCallKeyInNode (en_lib (sample_env 7)) (so_DecryptCallKey (en_sock (sample_env 7))) (ni_InnerNode info) ''5@s'')"
    using sample_client_info by fastforce
  have c: "get sample_client ''C1'' = None" "Count sample_client = 0" "cl_maxCalls sample_client = 4" "finite (Mapping.keys (cl_calls sample_client))"
    by (simp_all add: sample_client_def) (simp_all add: NewClient_def Count_def)
  have "ni_CallID info \<noteq> ''''" by (simp add: i(2))
  from offer_admission [OF i(1) this c(4), of "''5@s''"] i(2,3) c show ?thesis by auto
qed

section \<open>Calls that fail to start\<close>

text \<open>
  A call whose offer cannot be sent is taken out of the registry without being ended: its observer has
  been told of the memory of the RTP session and never of its release, nor of the end of the call.
\<close>

lemma start_frame [simp]:
  "cm_observerEnded (emit x m) = cm_observerEnded m" "cm_rtpSession (emit x m) = cm_rtpSession m"
  "cm_observerEnded (deriveVideoSsrcs e a b c m) = cm_observerEnded m" "cm_rtpSession (deriveVideoSsrcs e a b c m) = cm_rtpSession m"
  "cm_observerEnded (replaceRtpSession s m) = cm_observerEnded m" "cm_rtpSession (replaceRtpSession s m) = s"
  by (simp_all add: emit_def deriveVideoSsrcs_def declareSelfSSRC_def replaceRtpSession_def Let_def split: prod.split)

lemma begin_outgoing_frame:
  "cm_observerEnded (begin_outgoing e cid peer video key m) = cm_observerEnded m"
  "cm_rtpSession (begin_outgoing e cid peer video key m) \<noteq> None"
  by (simp_all add: begin_outgoing_def set_self_session_def Let_def)

theorem failed_start_leaks:
  fixes e :: "('j, string, 'f) env"
  assumes "StartCall e cid peer video key (NewCallManager exts) = (Some er, m)"
  shows "mem_told m = 8192 \<and> end_count m = 0"
proof -
  have "cm_wf m" using serves_started [of e cid peer video key exts] assms by (simp add: serves_def cm_inv_def)
  moreover have "\<not> cm_observerEnded m \<and> cm_rtpSession m \<noteq> None"
    using assms begin_outgoing_frame [of e cid _ video key "NewCallManager exts"]
    by (auto simp: StartCall_def Let_def NewCallManager_def split: if_split_asm sum.split_asm prod.split_asm)
  ultimately show ?thesis by (auto simp: cm_wf_def ended_once_def mem_exact_def rtpSessionBytes_def)
qed

end
