(* ===== verification/Subscriptions.thy ===== *)
theory Subscriptions
  imports Prelude
begin

text \<open>
  The protobuf fragments of the relay's allocate request:
  \<^verbatim>\<open>internal/voip/transport/subscriptions.go\<close>. A decoder for the two wire types the encoder uses is the
  specification; the lemmas show that it reads every encoded field back, so that the SSRC list the
  relay decodes is the list of non-zero SSRCs with their participant ids.
\<close>

section \<open>The encoder\<close>

lemma unat_drop7: "unat (drop_bit 7 v) = unat v div 128" for v :: u64
  by (simp add: drop_bit_eq_div unat_div)

function encodeVarint :: "u64 \<Rightarrow> bytes" where
  "encodeVarint v = (if 0x7f < v then ucast ((v AND 0x7f) OR 0x80) # encodeVarint (drop_bit 7 v) else [ucast (v AND 0x7f)])"
  by pat_completeness auto

termination
  by (relation "measure unat") (auto simp: unat_drop7 word_less_nat_alt)

declare encodeVarint.simps [simp del]

definition encodeProtobufVarintField :: "u64 \<Rightarrow> u64 \<Rightarrow> bytes" where
  "encodeProtobufVarintField fieldNumber v = encodeVarint (push_bit 3 fieldNumber) @ encodeVarint v"

definition encodeProtobufLengthDelimited :: "u64 \<Rightarrow> bytes \<Rightarrow> bytes" where
  "encodeProtobufLengthDelimited fieldNumber data =
     encodeVarint (push_bit 3 fieldNumber OR 2) @ encodeVarint (of_nat (length data)) @ data"

definition BuildSenderSubscriptions :: "u32 \<Rightarrow> bytes" where
  "BuildSenderSubscriptions ssrc = encodeProtobufLengthDelimited 1
     (concat [encodeProtobufVarintField 3 (ucast ssrc), encodeProtobufVarintField 5 0, encodeProtobufVarintField 6 0])"

text \<open>The loop over one participant's SSRCs; the code runs it for both sides.\<close>

definition ssrc_entry :: "int \<Rightarrow> u32 \<Rightarrow> bytes" where
  "ssrc_entry pid ssrc = encodeProtobufLengthDelimited 1
     (concat [encodeProtobufVarintField 1 (of_int pid), encodeProtobufVarintField 2 1, encodeProtobufVarintField 3 (ucast ssrc)])"

fun ssrc_entries :: "int \<Rightarrow> u32 list \<Rightarrow> bytes list" where
  "ssrc_entries pid [] = []"
| "ssrc_entries pid (ssrc # ssrcs) =
     (if ssrc = 0 then ssrc_entries pid ssrcs else ssrc_entry pid ssrc # ssrc_entries pid ssrcs)"

definition BuildSSRCSubscriptionList :: "u32 list \<Rightarrow> u32 list \<Rightarrow> int \<Rightarrow> int \<Rightarrow> bytes" where
  "BuildSSRCSubscriptionList selfSsrcs peerSsrcs selfPid peerPid =
     concat (ssrc_entries selfPid selfSsrcs @ ssrc_entries peerPid peerSsrcs)"

section \<open>A decoder as specification\<close>

fun decode_varint :: "bytes \<Rightarrow> (nat \<times> bytes) option" where
  "decode_varint [] = None"
| "decode_varint (b # bs) = (if unat b < 128 then Some (unat b, bs)
     else case decode_varint bs of None \<Rightarrow> None | Some (n, r) \<Rightarrow> Some (unat b - 128 + 128 * n, r))"

datatype wire = Varint nat | Delimited bytes

definition decode_field :: "bytes \<Rightarrow> ((nat \<times> wire) \<times> bytes) option" where
  "decode_field bs = do {
     (tag, bs) \<leftarrow> decode_varint bs;
     (n, bs) \<leftarrow> decode_varint bs;
     if tag mod 8 = 0 then Some ((tag div 8, Varint n), bs)
     else if tag mod 8 = 2 \<and> n \<le> length bs then Some ((tag div 8, Delimited (take n bs)), drop n bs)
     else None }"

lemma decode_varint_shorter: "decode_varint bs = Some (n, r) \<Longrightarrow> length r < length bs"
  by (induction bs arbitrary: n) (auto split: if_splits option.splits intro: less_SucI)

lemma decode_field_shorter: "decode_field bs = Some (f, r) \<Longrightarrow> length r < length bs"
  by (fastforce simp: decode_field_def split: bind_splits if_splits dest!: decode_varint_shorter)

function decode_message :: "bytes \<Rightarrow> (nat \<times> wire) list option" where
  "decode_message bs = (if bs = [] then Some [] else
     case decode_field bs of None \<Rightarrow> None | Some (f, r) \<Rightarrow> map_option (Cons f) (decode_message r))"
  by pat_completeness auto
termination by (relation "measure length") (auto dest: decode_field_shorter)

declare decode_message.simps [simp del]

section \<open>Round trips\<close>

lemma ucast_unat8: "unat (ucast w :: u8) = unat w mod 256" for w :: u64
  by (simp add: unsigned_ucast_eq take_bit_eq_mod)

lemma varint_low: "unat (ucast (v AND 0x7f) :: u8) = unat v mod 128" for v :: u64
proof -
  have "v AND 0x7f = take_bit 7 v" by (simp add: take_bit_eq_mask mask_eq_exp_minus_1)
  then show ?thesis by (simp add: ucast_unat8 take_bit_eq_mod unat_mod mod_mod_cancel)
qed

lemma varint_high: "unat (ucast ((v AND 0x7f) OR 0x80) :: u8) = 128 + unat v mod 128" for v :: u64
proof -
  have "ucast ((v AND 0x7f) OR 0x80) = (ucast (v AND 0x7f) :: u8) + 0x80"
  proof -
    have "ucast ((v AND 0x7f) OR 0x80) = (ucast (v AND 0x7f) OR 0x80 :: u8)"
      by (rule bit_word_eqI) (auto simp: bit_simps)
    also have "\<dots> = ucast (v AND 0x7f) + 0x80"
    proof (rule disjunctive_add [symmetric])
      fix n :: nat
      have "n < 8 \<Longrightarrow> n \<in> {0, 1, 2, 3, 4, 5, 6, 7}" by auto
      then show "\<not> bit (ucast (v AND 0x7f) :: u8) n \<or> \<not> bit (0x80 :: u8) n"
        by (cases "n < 8") (auto simp: bit_simps)
    qed
    finally show ?thesis .
  qed
  then show ?thesis by (simp add: unat_word_ariths varint_low)
qed

lemma decode_encodeVarint [simp]: "decode_varint (encodeVarint v @ r) = Some (unat v, r)"
proof (induction v rule: encodeVarint.induct)
  case (1 v)
  show ?case
  proof (cases "0x7f < v")
    case True
    then show ?thesis using 1 by (subst encodeVarint.simps) (simp add: varint_high unat_drop7)
  next
    case False
    then have "unat v < 128" by (simp add: word_less_nat_alt)
    then show ?thesis using False by (subst encodeVarint.simps) (simp add: varint_low)
  qed
qed

lemma decode_varint_field:
  assumes "unat k < 2 ^ 61"
  shows "decode_field (encodeProtobufVarintField k v @ r) = Some ((unat k, Varint (unat v)), r)"
proof -
  have "unat (push_bit 3 k) = 8 * unat k" using assms
    by (simp add: push_bit_eq_mult unat_word_ariths)
  then show ?thesis by (simp add: decode_field_def encodeProtobufVarintField_def)
qed

lemma delimited_tag:
  fixes k :: u64
  assumes "unat k < 2 ^ 61"
  shows "unat (push_bit 3 k OR 2) = 8 * unat k + 2"
proof -
  have "push_bit 3 k OR 2 = push_bit 3 k + 2"
  proof (rule disjunctive_add [symmetric])
    fix n :: nat
    have "bit (push_bit 1 (1 :: u64)) n \<longrightarrow> n = 1" by (simp only: bit_push_bit_iff) (simp add: bit_1_iff)
    then show "\<not> bit (push_bit 3 k) n \<or> \<not> bit (2 :: u64) n"
      by (auto simp: bit_push_bit_iff)
  qed
  moreover have "unat (8 * k) = 8 * unat k" using assms by (simp add: unat_word_ariths)
  ultimately show ?thesis using assms by (simp add: push_bit_eq_mult unat_word_ariths)
qed

lemma decode_delimited_field:
  assumes "unat k < 2 ^ 61" "length d < 2 ^ 64"
  shows "decode_field (encodeProtobufLengthDelimited k d @ r) = Some ((unat k, Delimited d), r)"
proof -
  have "(8 * unat k + 2) div 8 = unat k" "(8 * unat k + 2) mod 8 = 2" by presburger+
  with assms show ?thesis
    by (simp only: decode_field_def encodeProtobufLengthDelimited_def append_assoc decode_encodeVarint delimited_tag)
       (simp add: unat_of_nat)
qed

lemma length_encodeVarint: "unat v < 128 ^ Suc k \<Longrightarrow> length (encodeVarint v) \<le> Suc k"
proof (induction k arbitrary: v)
  case 0
  then have "\<not> 0x7f < v" by (simp add: word_less_nat_alt)
  then show ?case by (subst encodeVarint.simps) simp
next
  case (Suc k)
  then have "unat (drop_bit 7 v) < 128 ^ Suc k" by (simp add: unat_drop7 less_mult_imp_div_less mult.commute)
  with Suc.IH show ?case by (subst encodeVarint.simps) auto
qed

lemma encodeVarint_bound: "length (encodeVarint v) \<le> 10"
  using length_encodeVarint [of v 9] unsigned_less [of v, where 'a = nat] by simp

lemma varint_field_bound: "length (encodeProtobufVarintField k v) \<le> 20"
  using encodeVarint_bound [of v] encodeVarint_bound [of "push_bit 3 k"]
  by (simp only: encodeProtobufVarintField_def length_append)

lemma decode_message_Nil [simp]: "decode_message [] = Some []"
  by (subst decode_message.simps) simp

lemma decode_message_step:
  assumes "decode_field (e @ r) = Some (f, r)"
  shows "decode_message (e @ r) = map_option (Cons f) (decode_message r)"
proof -
  have "e @ r \<noteq> []" using decode_field_shorter [OF assms] by auto
  with assms show ?thesis by (subst decode_message.simps) simp
qed

lemmas decode_varint_step = decode_message_step [OF decode_varint_field]

lemma ssrc_entry_fields:
  "decode_field (ssrc_entry pid ssrc @ r) = Some ((1, Delimited (concat
     [encodeProtobufVarintField 1 (of_int pid), encodeProtobufVarintField 2 1, encodeProtobufVarintField 3 (ucast ssrc)])), r)"
proof -
  note varint_field_bound [of 1 "of_int pid"] varint_field_bound [of 2 1] varint_field_bound [of 3 "ucast ssrc"]
  then show ?thesis unfolding ssrc_entry_def by (subst decode_delimited_field) simp_all
qed

text \<open>What the relay decodes: participant, stream and SSRC of every entry.\<close>

definition decode_entry :: "nat \<times> wire \<Rightarrow> (nat \<times> wire) list option" where
  "decode_entry f = (case f of (_, Delimited d) \<Rightarrow> decode_message d | _ \<Rightarrow> None)"

definition decode_list :: "bytes \<Rightarrow> (nat \<times> wire) list list option" where
  "decode_list bs = do { fs \<leftarrow> decode_message bs; those (map decode_entry fs) }"

definition entry_fields :: "int \<Rightarrow> u32 \<Rightarrow> (nat \<times> wire) list" where
  "entry_fields pid ssrc = [(1, Varint (unat (of_int pid :: u64))), (2, Varint 1), (3, Varint (unat ssrc))]"

lemma unat_ucast64 [simp]: "unat (ucast w :: u64) = unat w" for w :: u32
  by (simp add: unsigned_ucast_eq take_bit_nat_eq_self_iff order_less_le_trans [OF unsigned_less])

lemma decode_entry_message:
  "decode_message (concat [encodeProtobufVarintField 1 (of_int pid), encodeProtobufVarintField 2 1,
     encodeProtobufVarintField 3 (ucast ssrc)]) = Some (entry_fields pid ssrc)"
  using decode_varint_step [of 3 "ucast ssrc" "[]"] by (simp add: decode_varint_step entry_fields_def)

lemma decode_ssrc_entry:
  "decode_list (ssrc_entry pid ssrc @ r) = map_option (Cons (entry_fields pid ssrc)) (decode_list r)"
  using decode_entry_message [of pid ssrc]
  by (cases "decode_message r")
     (simp_all add: decode_list_def decode_message_step [OF ssrc_entry_fields] decode_entry_def split: option.split)

lemma decode_ssrc_entries:
  "decode_list (concat (ssrc_entries pid ssrcs) @ r) =
     map_option (append (map (entry_fields pid) (filter (\<lambda>s. s \<noteq> 0) ssrcs))) (decode_list r)"
  by (induction ssrcs) (auto simp: decode_ssrc_entry option.map_comp comp_def option.map_ident)

section \<open>Properties\<close>

text \<open>
  The subscription list decodes, as protobuf, to one entry per non-zero SSRC, our own
  first and then the peer's in order, each with its participant id (as a 64-bit value), stream 1
  and the SSRC.
\<close>

theorem subscription_list_decodes:
  "decode_list (BuildSSRCSubscriptionList selfSsrcs peerSsrcs selfPid peerPid) =
     Some (map (entry_fields selfPid) (filter (\<lambda>s. s \<noteq> 0) selfSsrcs) @
           map (entry_fields peerPid) (filter (\<lambda>s. s \<noteq> 0) peerSsrcs))"
  using decode_ssrc_entries [of peerPid peerSsrcs "[]"]
  by (simp add: BuildSSRCSubscriptionList_def decode_ssrc_entries decode_list_def [of "[]"])

end
