(* ===== verification/Relay_Transport.thy ===== *)
theory Relay_Transport
  imports Call_Manager Stun Subscriptions "HOL-Library.AList"
begin

text \<open>
  The connections to the media relays: \<^verbatim>\<open>internal/voip/transport/sctprelay.go\<close>. Connections are objects:
  a list holds every connection ever made, a pointer is a position in it, and Go's map from ids to
  connections is an association list of pointers (its order stands for Go's unspecified one). What
  the WebRTC library does is the argument of the callbacks it drives: the outcome of a dial, a change
  of the ICE state, the opening and closing of a data channel. What the manager does to a channel,
  to the observer and to its callbacks is appended to \<open>sr_out\<close>; \<open>sr_observer\<close> tells whether the call's
  observer is installed or the silent one. Random transaction ids come with an environment.
  The call manager installs its three callbacks before it dials. The session description handed to the
  library is not modelled.
\<close>

section \<open>State\<close>

definition registrationRefreshTicks :: nat where "registrationRefreshTicks = 5"
definition peerConnectionBytes :: int where "peerConnectionBytes = 64 * 1024"
definition dataChannelBytes :: int where "dataChannelBytes = 16 * 1024"
definition maxOpenRelays :: nat where "maxOpenRelays = 2"
definition maxDialRelays :: nat where "maxDialRelays = 3"

datatype relayConnState = relayStateConnecting | relayStateOpen | relayStateClosed | relayStateFailed

text \<open>\<open>rn_keepalive\<close> counts the ticks of a running keepalive loop; \<open>rn_torn\<close> is \<open>teardownOnce\<close>.\<close>

record relayConnection =
  rn_state :: relayConnState
  rn_degraded :: bool
  rn_pc :: bool
  rn_channel :: bool
  rn_id :: string
  rn_info :: RelayConfig
  rn_localUfrag :: string
  rn_keepalive :: "nat option"
  rn_mem :: int
  rn_torn :: bool

datatype relay_effect =
    RelayMark string
  | RelayAddMem int
  | RelayReleaseMem int
  | RelaySend nat bytes
  | RelayRetransmits nat
  | RelayClosed nat
  | RelayGoClose string
  | RelayDial RelayConfig
  | RelayUsable nat
  | RelayConnected string int
  | RelayReceived bytes

record SctpRelayManager =
  sr_heap :: "relayConnection list"
  sr_connections :: "(string \<times> nat) list"
  sr_audioSsrc :: u32
  sr_subscriptionSsrc :: u32
  sr_streamSelf :: "u32 list"
  sr_streamPeer :: "u32 list"
  sr_lastUsable :: nat
  sr_observer :: bool
  sr_out :: "relay_effect list"

record relay_env =
  re_txid :: "nat \<Rightarrow> bytes"
  re_tie :: "nat \<Rightarrow> bytes"
  re_scan :: "string \<Rightarrow> int \<times> int \<times> int \<times> int"

definition NewSctpRelayManager :: SctpRelayManager where
  "NewSctpRelayManager = \<lparr>sr_heap = [], sr_connections = [], sr_audioSsrc = 0, sr_subscriptionSsrc = 0, sr_streamSelf = [],
     sr_streamPeer = [], sr_lastUsable = 0, sr_observer = False, sr_out = []\<rparr>"

abbreviation cn :: "SctpRelayManager \<Rightarrow> nat \<Rightarrow> relayConnection" where
  "cn m i \<equiv> sr_heap m ! i"

definition upd :: "nat \<Rightarrow> (relayConnection \<Rightarrow> relayConnection) \<Rightarrow> SctpRelayManager \<Rightarrow> SctpRelayManager" where
  "upd i f m = m\<lparr>sr_heap := (sr_heap m)[i := f (cn m i)]\<rparr>"

definition setState :: "nat \<Rightarrow> relayConnState \<Rightarrow> SctpRelayManager \<Rightarrow> SctpRelayManager" where
  "setState i s = upd i (\<lambda>c. c\<lparr>rn_state := s\<rparr>)"

definition say :: "relay_effect \<Rightarrow> SctpRelayManager \<Rightarrow> SctpRelayManager" where
  "say x m = m\<lparr>sr_out := sr_out m @ [x]\<rparr>"

definition obs :: "relay_effect \<Rightarrow> SctpRelayManager \<Rightarrow> SctpRelayManager" where
  "obs x m = (if sr_observer m then say x m else m)"

definition SetSsrc :: "u32 \<Rightarrow> SctpRelayManager \<Rightarrow> SctpRelayManager" where
  "SetSsrc ssrc m = m\<lparr>sr_audioSsrc := ssrc\<rparr>"

definition SetSubscriptionSsrc :: "u32 \<Rightarrow> SctpRelayManager \<Rightarrow> SctpRelayManager" where
  "SetSubscriptionSsrc ssrc m = m\<lparr>sr_subscriptionSsrc := ssrc\<rparr>"

definition SetStreamSsrcs :: "u32 list \<Rightarrow> u32 list \<Rightarrow> SctpRelayManager \<Rightarrow> SctpRelayManager" where
  "SetStreamSsrcs self peer m = m\<lparr>sr_streamSelf := self, sr_streamPeer := peer\<rparr>"

definition streamSsrcsSnapshot :: "SctpRelayManager \<Rightarrow> u32 list \<times> u32 list" where
  "streamSsrcsSnapshot m = (sr_streamSelf m, sr_streamPeer m)"

definition Relay_SetObserver :: "bool \<Rightarrow> SctpRelayManager \<Rightarrow> SctpRelayManager" where
  "Relay_SetObserver ob m = m\<lparr>sr_observer := ob\<rparr>"

section \<open>Counting\<close>

definition registered :: "SctpRelayManager \<Rightarrow> nat list" where
  "registered m = map snd (sr_connections m)"

abbreviation is_open :: "relayConnection \<Rightarrow> bool" where
  "is_open c \<equiv> rn_state c = relayStateOpen"

definition countOpen :: "SctpRelayManager \<Rightarrow> nat" where
  "countOpen m = length (filter (\<lambda>i. is_open (cn m i)) (registered m))"

definition usable :: "SctpRelayManager \<Rightarrow> nat" where
  "usable m = length (filter (\<lambda>i. is_open (cn m i) \<and> \<not> rn_degraded (cn m i)) (registered m))"

definition HasConnection :: "SctpRelayManager \<Rightarrow> bool" where
  "HasConnection m \<longleftrightarrow> list_ex (\<lambda>i. is_open (cn m i)) (registered m)"

definition ConnectedCount :: "SctpRelayManager \<Rightarrow> nat" where
  "ConnectedCount m = countOpen m"

definition recomputeHealth :: "SctpRelayManager \<Rightarrow> SctpRelayManager" where
  "recomputeHealth m =
     (let u = usable m; changed = (u \<noteq> sr_lastUsable m); m = m\<lparr>sr_lastUsable := u\<rparr>
      in if changed then say (RelayUsable u) m else m)"

section \<open>Sending\<close>

definition sendRaw :: "nat \<Rightarrow> bytes \<Rightarrow> SctpRelayManager \<Rightarrow> SctpRelayManager" where
  "sendRaw i data m = (if \<not> rn_channel (cn m i) \<or> \<not> is_open (cn m i) then m else say (RelaySend i data) m)"

definition connID :: "string \<Rightarrow> int \<Rightarrow> string \<Rightarrow> string" where
  "connID ip port authTokenID =
     (let base = ip @ '':'' @ Itoa port in if authTokenID \<noteq> '''' then base @ ''#'' @ authTokenID else base)"

definition key_bytes :: "string \<Rightarrow> bytes" where
  "key_bytes s = map of_char s"

definition registration_ssrc :: "SctpRelayManager \<Rightarrow> u32" where
  "registration_ssrc m = (if sr_subscriptionSsrc m = 0 then sr_audioSsrc m else sr_subscriptionSsrc m)"

definition stream_list :: "SctpRelayManager \<Rightarrow> bytes" where
  "stream_list m =
     (let (self, peer) = streamSsrcsSnapshot m;
          (self, peer) = (if self = [] then ([sr_audioSsrc m], if sr_subscriptionSsrc m \<noteq> 0 then [sr_subscriptionSsrc m] else [])
                          else (self, peer))
      in BuildSSRCSubscriptionList self peer 0 0)"

definition sendRegistration :: "relay_env \<Rightarrow> nat \<Rightarrow> SctpRelayManager \<Rightarrow> SctpRelayManager" where
  "sendRegistration e i m =
     (let info = rn_info (cn m i);
          remoteUfrag = (if rc_AuthToken info = '''' then rc_Token info else rc_AuthToken info);
          localUfrag = rn_localUfrag (cn m i);
          hmacKey = key_bytes (rc_Key info);
          ssrc = registration_ssrc m;
          subs = BuildSenderSubscriptions ssrc;
          binding = (\<lambda>k ufrag. BuildBindingRequestWithSubs (re_txid e k) (re_tie e k) (key_bytes (ufrag @ '':'' @ localUfrag)) hmacKey subs True True)
      in if remoteUfrag = '''' then m
         else if \<not> is_open (cn m i) \<or> \<not> rn_channel (cn m i) then m
         else if ssrc = 0 then m
         else
           (let m = (if localUfrag \<noteq> '''' then sendRaw i (binding 0 remoteUfrag) m else m);
                m = (if rc_Token info \<noteq> '''' \<and> rc_Token info \<noteq> remoteUfrag \<and> localUfrag \<noteq> ''''
                     then sendRaw i (binding 1 (rc_Token info)) m else m);
                m = sendRaw i (BuildBindingRequestWithSubs (re_txid e 2) (re_tie e 2) [] [] subs False False) m
            in if rc_RawToken info \<noteq> []
               then sendRaw i (BuildAllocateForRelay (re_scan e) (re_txid e 3) (rc_RawToken info) (stream_list m)
                      (Some hmacKey) (rc_IP info) (rc_Port info)) m
               else m))"

text \<open>Four retransmissions follow, each of them \<open>retransmit\<close> after its delay unless the connection is torn down.\<close>

definition sendStunRegistration :: "relay_env \<Rightarrow> nat \<Rightarrow> SctpRelayManager \<Rightarrow> SctpRelayManager" where
  "sendStunRegistration e i m = say (RelayRetransmits i) (sendRegistration e i m)"

definition retransmit :: "relay_env \<Rightarrow> nat \<Rightarrow> SctpRelayManager \<Rightarrow> SctpRelayManager" where
  "retransmit e i m = (if rn_torn (cn m i) then m else if is_open (cn m i) then sendRegistration e i m else m)"

definition startKeepalive :: "relay_env \<Rightarrow> nat \<Rightarrow> SctpRelayManager \<Rightarrow> SctpRelayManager" where
  "startKeepalive e i m = upd i (\<lambda>c. c\<lparr>rn_keepalive := Some 0\<rparr>) (sendRaw i (BuildWhatsAppPing (re_txid e 4)) m)"

definition keepaliveTick :: "relay_env \<Rightarrow> nat \<Rightarrow> SctpRelayManager \<Rightarrow> SctpRelayManager" where
  "keepaliveTick e i m = (case rn_keepalive (cn m i) of
      None \<Rightarrow> m
    | Some ticks \<Rightarrow>
        if \<not> is_open (cn m i) \<or> \<not> rn_channel (cn m i) then upd i (\<lambda>c. c\<lparr>rn_keepalive := None\<rparr>) m
        else
          (let m = sendRaw i (BuildWhatsAppPing (re_txid e 4)) m;
               m = upd i (\<lambda>c. c\<lparr>rn_keepalive := Some (ticks + 1)\<rparr>) m
           in if (ticks + 1) mod registrationRefreshTicks = 0 then sendRegistration e i m else m))"

definition Broadcast :: "bytes \<Rightarrow> SctpRelayManager \<Rightarrow> SctpRelayManager" where
  "Broadcast data m = fold (\<lambda>i. sendRaw i data) (registered m) m"

definition ResendSubscriptions :: "relay_env \<Rightarrow> SctpRelayManager \<Rightarrow> SctpRelayManager" where
  "ResendSubscriptions e m = fold (\<lambda>i m. if is_open (cn m i) \<and> rn_channel (cn m i) then sendStunRegistration e i m else m) (registered m) m"

text \<open>\<open>amount\<close> is what the library has buffered for a channel.\<close>

definition BufferedAmount :: "(nat \<Rightarrow> u64) \<Rightarrow> SctpRelayManager \<Rightarrow> u64" where
  "BufferedAmount amount m = fold (\<lambda>i b. if is_open (cn m i) \<and> rn_channel (cn m i) \<and> amount i > b then amount i else b) (registered m) 0"

section \<open>Ending connections\<close>

definition teardown :: "nat \<Rightarrow> SctpRelayManager \<Rightarrow> SctpRelayManager" where
  "teardown i m =
     (if rn_torn (cn m i) then m
      else
        (let m = say (RelayClosed i) (upd i (\<lambda>c. c\<lparr>rn_torn := True, rn_keepalive := None\<rparr>) m)
         in if rn_mem (cn m i) > 0 then obs (RelayReleaseMem (rn_mem (cn m i))) m else m))"

definition failConnection :: "nat \<Rightarrow> SctpRelayManager \<Rightarrow> SctpRelayManager" where
  "failConnection i m =
     (if rn_state (cn m i) = relayStateFailed then m
      else
        (let m = setState i relayStateFailed m;
             m = m\<lparr>sr_connections := AList.delete (rn_id (cn m i)) (sr_connections m)\<rparr>
         in recomputeHealth (teardown i m)))"

definition closeConnection :: "string \<Rightarrow> SctpRelayManager \<Rightarrow> SctpRelayManager" where
  "closeConnection k m = (case map_of (sr_connections m) k of
      None \<Rightarrow> m
    | Some i \<Rightarrow>
        (let m = setState i relayStateClosed m;
             m = m\<lparr>sr_connections := AList.delete k (sr_connections m)\<rparr>
         in recomputeHealth (teardown i m)))"

definition DropConnections :: "SctpRelayManager \<Rightarrow> SctpRelayManager" where
  "DropConnections m = recomputeHealth (fold teardown (registered m) (m\<lparr>sr_connections := []\<rparr>))"

definition Cleanup :: "SctpRelayManager \<Rightarrow> SctpRelayManager" where
  "Cleanup m = fold teardown (registered m)
     (m\<lparr>sr_connections := [], sr_streamSelf := [], sr_streamPeer := [], sr_lastUsable := 0, sr_audioSsrc := 0,
        sr_subscriptionSsrc := 0, sr_observer := False\<rparr>)"

section \<open>Dialling\<close>

definition with_port :: "RelayConfig \<Rightarrow> RelayConfig" where
  "with_port r = (if rc_Port r = 0 then r\<lparr>rc_Port := WARelayPort\<rparr> else r)"

definition config_id :: "RelayConfig \<Rightarrow> string" where
  "config_id r = connID (rc_IP r) (rc_Port r) (rc_AuthTokenID r)"

text \<open>The loop of \<open>ConfigureRelays\<close>: whom to dial. The dials run side by side.\<close>

fun dial_targets :: "string list \<Rightarrow> nat \<Rightarrow> RelayConfig list \<Rightarrow> RelayConfig list" where
  "dial_targets known dialed [] = []"
| "dial_targets known dialed (r # rs) =
     (if dialed \<ge> maxDialRelays then []
      else if config_id (with_port r) \<in> set known then dial_targets known dialed rs
      else with_port r # dial_targets known (dialed + 1) rs)"

definition ConfigureRelays :: "RelayConfig list \<Rightarrow> SctpRelayManager \<Rightarrow> SctpRelayManager" where
  "ConfigureRelays relays m = fold (\<lambda>r. say (RelayDial r))
     (dial_targets (map fst (sr_connections m)) (length (sr_connections m)) relays) m"

text \<open>The parts of \<open>connectToRelay\<close>: registration, and what follows each answer of the library.\<close>

definition register :: "RelayConfig \<Rightarrow> SctpRelayManager \<Rightarrow> SctpRelayManager" where
  "register info m = m\<lparr>
     sr_heap := sr_heap m @ [\<lparr>rn_state = relayStateConnecting, rn_degraded = False, rn_pc = False, rn_channel = False,
       rn_id = config_id info, rn_info = info, rn_localUfrag = '''', rn_keepalive = None, rn_mem = 0, rn_torn = False\<rparr>],
     sr_connections := AList.update (config_id info) (length (sr_heap m)) (sr_connections m)\<rparr>"

definition got_pc :: "nat \<Rightarrow> SctpRelayManager \<Rightarrow> SctpRelayManager" where
  "got_pc i m = obs (RelayAddMem peerConnectionBytes) (upd i (\<lambda>c. c\<lparr>rn_pc := True, rn_mem := rn_mem c + peerConnectionBytes\<rparr>) m)"

definition got_channel :: "nat \<Rightarrow> SctpRelayManager \<Rightarrow> SctpRelayManager" where
  "got_channel i m = obs (RelayAddMem dataChannelBytes) (upd i (\<lambda>c. c\<lparr>rn_channel := True, rn_mem := rn_mem c + dataChannelBytes\<rparr>) m)"

datatype dial_result = NoPeerConnection | NoDataChannel | NoOffer | NoRemoteDescription string | Dialed string

definition connectToRelay :: "RelayConfig \<Rightarrow> dial_result \<Rightarrow> SctpRelayManager \<Rightarrow> SctpRelayManager" where
  "connectToRelay info r m =
     (let i = length (sr_heap m); m = register info m in
      if r = NoPeerConnection then failConnection i m
      else
        (let m = got_pc i m in
         if r = NoDataChannel then failConnection i m
         else
           (let m = got_channel i m in
            case r of
              NoRemoteDescription ufrag \<Rightarrow> failConnection i (upd i (\<lambda>c. c\<lparr>rn_localUfrag := ufrag\<rparr>) m)
            | Dialed ufrag \<Rightarrow> upd i (\<lambda>c. c\<lparr>rn_localUfrag := ufrag\<rparr>) m
            | _ \<Rightarrow> failConnection i m)))"

section \<open>Callbacks of the library\<close>

definition onOpen :: "relay_env \<Rightarrow> nat \<Rightarrow> SctpRelayManager \<Rightarrow> SctpRelayManager" where
  "onOpen e i m =
     (if countOpen m \<ge> maxOpenRelays then say (RelayGoClose (rn_id (cn m i))) m
      else
        (let m = recomputeHealth (setState i relayStateOpen m);
             m = obs (RelayMark ''transport.sctp_open'') m;
             m = sendStunRegistration e i m;
             m = obs (RelayMark ''transport.stun'') m;
             m = startKeepalive e i m
         in say (RelayConnected (rc_IP (rn_info (cn m i))) (rc_Port (rn_info (cn m i)))) m))"

definition onConnectionState :: "bool \<Rightarrow> SctpRelayManager \<Rightarrow> SctpRelayManager" where
  "onConnectionState connected m = (if connected then obs (RelayMark ''transport.dtls'') m else m)"

definition onClose :: "nat \<Rightarrow> SctpRelayManager \<Rightarrow> SctpRelayManager" where
  "onClose i m = closeConnection (rn_id (cn m i)) m"

definition onMessage :: "bytes \<Rightarrow> SctpRelayManager \<Rightarrow> SctpRelayManager" where
  "onMessage data m = say (RelayReceived data) m"

definition onTimeout :: "nat \<Rightarrow> SctpRelayManager \<Rightarrow> SctpRelayManager" where
  "onTimeout i m = (if rn_torn (cn m i) then m else if rn_state (cn m i) = relayStateConnecting then failConnection i m else m)"

datatype ice_state = ICEConnected | ICEDisconnected | ICEFailed | ICEOther

fun handleICEState :: "relay_env \<Rightarrow> nat \<Rightarrow> ice_state \<Rightarrow> SctpRelayManager \<Rightarrow> SctpRelayManager" where
  "handleICEState e i ICEConnected m =
     (let m = obs (RelayMark ''transport.ice'') m; was = rn_degraded (cn m i); m = upd i (\<lambda>c. c\<lparr>rn_degraded := False\<rparr>) m;
          m = (if was then sendStunRegistration e i m else m)
      in recomputeHealth m)"
| "handleICEState e i ICEDisconnected m = recomputeHealth (upd i (\<lambda>c. c\<lparr>rn_degraded := True\<rparr>) m)"
| "handleICEState e i ICEFailed m = failConnection i m"
| "handleICEState e i ICEOther m = m"

section \<open>Commands of the call manager\<close>

fun obey :: "relay_env \<Rightarrow> relay_cmd \<Rightarrow> SctpRelayManager \<Rightarrow> SctpRelayManager" where
  "obey e (relay_cmd.SetSsrc s) m = SetSsrc s m"
| "obey e (relay_cmd.SetSubscriptionSsrc s) m = SetSubscriptionSsrc s m"
| "obey e (relay_cmd.SetStreamSsrcs a b) m = SetStreamSsrcs a b m"
| "obey e relay_cmd.ResendSubscriptions m = ResendSubscriptions e m"
| "obey e (relay_cmd.ConfigureRelays rs) m = ConfigureRelays rs m"
| "obey e relay_cmd.DropConnections m = DropConnections m"
| "obey e (relay_cmd.Broadcast b) m = Broadcast b m"
| "obey e RelayCleanup m = Cleanup m"

section \<open>What sending leaves alone\<close>

text \<open>The part of a connection that counts, and the part of the output that does.\<close>

definition conn_view :: "relayConnection \<Rightarrow> relayConnState \<times> bool \<times> string \<times> int \<times> bool" where
  "conn_view c = (rn_state c, rn_degraded c, rn_id c, rn_mem c, rn_torn c)"

lemma conn_view_fields [simp]:
  "conn_view (c\<lparr>rn_keepalive := x\<rparr>) = conn_view c" "conn_view (c\<lparr>rn_localUfrag := u\<rparr>) = conn_view c"
  by (simp_all add: conn_view_def)

fun counts :: "relay_effect \<Rightarrow> bool" where
  "counts (RelayAddMem _) = True"
| "counts (RelayReleaseMem _) = True"
| "counts (RelayUsable _) = True"
| "counts (RelayClosed _) = True"
| "counts _ = False"

definition same :: "SctpRelayManager \<Rightarrow> SctpRelayManager \<Rightarrow> bool" where
  "same m n \<longleftrightarrow> sr_connections n = sr_connections m \<and> map conn_view (sr_heap n) = map conn_view (sr_heap m) \<and>
     sr_lastUsable n = sr_lastUsable m \<and> sr_observer n = sr_observer m \<and> filter counts (sr_out n) = filter counts (sr_out m)"

lemma same_refl [simp]: "same m m"
  by (simp add: same_def)

lemma same_trans: "same m n \<Longrightarrow> same n p \<Longrightarrow> same m p"
  by (simp add: same_def)

lemma same_say: "\<not> counts x \<Longrightarrow> same m n \<Longrightarrow> same m (say x n)"
  by (simp add: same_def say_def)

lemma same_obs: "\<not> counts x \<Longrightarrow> same m n \<Longrightarrow> same m (obs x n)"
  by (simp add: obs_def same_say)

lemma map_view_update: "conn_view y = conn_view (xs ! i) \<Longrightarrow> map conn_view (xs[i := y]) = map conn_view xs"
  by (metis list_update_id map_update)

lemma same_upd: "conn_view (f (cn n i)) = conn_view (cn n i) \<Longrightarrow> same m n \<Longrightarrow> same m (upd i f n)"
  by (simp add: same_def upd_def map_view_update)

lemma same_sendRaw: "same m n \<Longrightarrow> same m (sendRaw i d n)"
  by (simp add: sendRaw_def same_say)

lemma same_sendRegistration: "same m n \<Longrightarrow> same m (sendRegistration e i n)"
  by (simp add: sendRegistration_def Let_def same_sendRaw)

lemma same_sendStun: "same m n \<Longrightarrow> same m (sendStunRegistration e i n)"
  by (simp add: sendStunRegistration_def same_say same_sendRegistration)

lemmas sames = same_say same_obs same_upd same_sendRaw same_sendRegistration same_sendStun

lemma same_quiet:
  "same m (retransmit e i m)" "same m (startKeepalive e i m)" "same m (keepaliveTick e i m)" "same m (onMessage d m)"
  "same m (onConnectionState b m)"
  by (auto simp: retransmit_def startKeepalive_def keepaliveTick_def onMessage_def onConnectionState_def Let_def intro!: sames split: option.split)

lemma same_fold: "(\<And>i n. same m n \<Longrightarrow> same m (f i n)) \<Longrightarrow> same m n \<Longrightarrow> same m (fold f is n)"
  by (induction "is" arbitrary: n) simp_all

lemma same_commands:
  "same m (SetSsrc s m)" "same m (SetSubscriptionSsrc s m)" "same m (SetStreamSsrcs a b m)" "same m (Broadcast d m)"
  "same m (ResendSubscriptions e m)" "same m (ConfigureRelays rs m)"
  by (simp_all add: SetSsrc_def SetSubscriptionSsrc_def SetStreamSsrcs_def Broadcast_def ResendSubscriptions_def ConfigureRelays_def
      same_fold sames) (simp_all add: same_def)

section \<open>Invariant\<close>

definition mem_sum :: "relayConnection list \<Rightarrow> int" where
  "mem_sum H = sum_list (map (\<lambda>c. if rn_torn c then 0 else rn_mem c) H)"

fun mem_of :: "relay_effect \<Rightarrow> int" where
  "mem_of (RelayAddMem n) = n"
| "mem_of (RelayReleaseMem n) = - n"
| "mem_of _ = 0"

definition told_mem :: "SctpRelayManager \<Rightarrow> int" where
  "told_mem m = sum_list (map mem_of (sr_out m))"

text \<open>The usable count the callback was last told.\<close>

definition reported :: "SctpRelayManager \<Rightarrow> nat" where
  "reported m = fold (\<lambda>x n. case x of RelayUsable u \<Rightarrow> u | _ \<Rightarrow> n) (sr_out m) 0"

definition closings :: "SctpRelayManager \<Rightarrow> nat \<Rightarrow> nat" where
  "closings m i = count_list (sr_out m) (RelayClosed i)"

definition conns_ok :: "SctpRelayManager \<Rightarrow> bool" where
  "conns_ok m \<longleftrightarrow> distinct (map fst (sr_connections m)) \<and>
     (\<forall>(k, i) \<in> set (sr_connections m). i < length (sr_heap m) \<and> rn_id (cn m i) = k \<and> \<not> rn_torn (cn m i))"

definition base_inv :: "SctpRelayManager \<Rightarrow> bool" where
  "base_inv m \<longleftrightarrow> conns_ok m \<and> countOpen m \<le> maxOpenRelays \<and> reported m = sr_lastUsable m \<and>
     sr_observer m \<and> told_mem m = mem_sum (sr_heap m) \<and> (\<forall>c\<in>set (sr_heap m). 0 \<le> rn_mem c) \<and>
     (\<forall>i. closings m i = (if i < length (sr_heap m) \<and> rn_torn (cn m i) then 1 else 0))"

definition rt_inv :: "SctpRelayManager \<Rightarrow> bool" where
  "rt_inv m \<longleftrightarrow> base_inv m \<and> sr_lastUsable m = usable m"

text \<open>Both depend on nothing that sending changes.\<close>

lemma same_nth:
  assumes "same m n"
  shows "length (sr_heap n) = length (sr_heap m)" "i < length (sr_heap m) \<Longrightarrow> conn_view (cn n i) = conn_view (cn m i)"
proof -
  have v: "map conn_view (sr_heap n) = map conn_view (sr_heap m)" using assms by (simp add: same_def)
  then show l: "length (sr_heap n) = length (sr_heap m)" by (rule map_eq_imp_length_eq)
  show "conn_view (cn n i) = conn_view (cn m i)" if "i < length (sr_heap m)"
    using arg_cong [OF v, of "\<lambda>xs. xs ! i"] that l by simp
qed

lemma mem_sum_view: "map conn_view H = map conn_view H' \<Longrightarrow> mem_sum H = mem_sum H'"
  by (induction H H' rule: list_induct2') (auto simp: mem_sum_def conn_view_def)

lemma nonneg_view: "map conn_view H = map conn_view H' \<Longrightarrow> (\<forall>c\<in>set H. 0 \<le> rn_mem c) = (\<forall>c\<in>set H'. 0 \<le> rn_mem c)"
  by (induction H H' rule: list_induct2') (auto simp: conn_view_def)

lemma told_mem_counts: "told_mem m = sum_list (map mem_of (filter counts (sr_out m)))"
proof -
  have "sum_list (map mem_of xs) = sum_list (map mem_of (filter counts xs))" for xs
  proof (induction xs)
    case (Cons x xs)
    then show ?case by (cases x) simp_all
  qed simp
  then show ?thesis by (simp add: told_mem_def)
qed

lemma reported_counts: "reported m = fold (\<lambda>x n. case x of RelayUsable u \<Rightarrow> u | _ \<Rightarrow> n) (filter counts (sr_out m)) 0"
proof -
  have "fold (\<lambda>x n. case x of RelayUsable u \<Rightarrow> u | _ \<Rightarrow> n) xs a = fold (\<lambda>x n. case x of RelayUsable u \<Rightarrow> u | _ \<Rightarrow> n) (filter counts xs) a" for xs a
  proof (induction xs arbitrary: a)
    case (Cons x xs)
    then show ?case by (cases x) simp_all
  qed simp
  then show ?thesis by (simp add: reported_def)
qed

lemma closings_counts: "closings m i = count_list (filter counts (sr_out m)) (RelayClosed i)"
proof -
  have "count_list xs (RelayClosed i) = count_list (filter counts xs) (RelayClosed i)" for xs
    by (induction xs) auto
  then show ?thesis by (simp add: closings_def)
qed

lemma conn_view_parts:
  "conn_view c = conn_view d \<Longrightarrow> rn_state c = rn_state d \<and> rn_degraded c = rn_degraded d \<and> rn_id c = rn_id d \<and>
     rn_mem c = rn_mem d \<and> rn_torn c = rn_torn d"
  by (simp add: conn_view_def)

lemma same_base_inv:
  assumes "same m n" "base_inv m"
  shows "base_inv n" "usable n = usable m"
proof -
  note v = same_nth [OF assms(1)]
  have p: "i < length (sr_heap m)" if "i \<in> set (registered m)" for i
    using assms(2) that by (auto simp: base_inv_def conns_ok_def registered_def)
  have r: "registered n = registered m" using assms(1) by (simp add: same_def registered_def)
  have c: "countOpen n = countOpen m" "usable n = usable m" unfolding countOpen_def usable_def r
    by (auto intro!: arg_cong [of _ _ length] filter_cong dest!: p v(2) conn_view_parts)
  have t: "closings n i = closings m i" "told_mem n = told_mem m" "reported n = reported m" for i
    using assms(1) by (simp_all add: closings_counts told_mem_counts reported_counts same_def)
  have "conns_ok n" using assms(1,2) v(1) conn_view_parts [OF v(2)]
    by (fastforce simp: base_inv_def conns_ok_def same_def)
  moreover have "(\<forall>i. closings n i = (if i < length (sr_heap n) \<and> rn_torn (cn n i) then 1 else 0))"
    using assms(2) v(1) conn_view_parts [OF v(2)] by (auto simp: base_inv_def t)
  moreover have "mem_sum (sr_heap n) = mem_sum (sr_heap m)" "(\<forall>c\<in>set (sr_heap n). 0 \<le> rn_mem c)"
    using assms nonneg_view [of "sr_heap n" "sr_heap m"] mem_sum_view [of "sr_heap n" "sr_heap m"]
    by (simp_all add: same_def base_inv_def)
  ultimately show "base_inv n" using assms by (simp add: base_inv_def c t same_def)
  show "usable n = usable m" by (rule c(2))
qed

lemma same_rt_inv: "same m n \<Longrightarrow> rt_inv m \<Longrightarrow> rt_inv n"
  using same_base_inv [of m n] by (simp add: rt_inv_def same_def)

subsection \<open>The parts of the handlers\<close>

lemma mem_sum_update:
  "i < length H \<Longrightarrow> mem_sum (H[i := c]) = mem_sum H - (if rn_torn (H ! i) then 0 else rn_mem (H ! i)) + (if rn_torn c then 0 else rn_mem c)"
  by (induction H arbitrary: i) (auto simp: mem_sum_def split: nat.split)

lemma out_facts [simp]:
  "told_mem (say x m) = told_mem m + mem_of x" "closings (say x m) i = closings m i + (if x = RelayClosed i then 1 else 0)"
  "registered (say x m) = registered m" "sr_heap (say x m) = sr_heap m" "sr_observer (say x m) = sr_observer m"
  "sr_connections (say x m) = sr_connections m" "sr_lastUsable (say x m) = sr_lastUsable m"
  by (simp_all add: say_def told_mem_def closings_def registered_def)

lemma reported_say [simp]: "reported (say x m) = (case x of RelayUsable u \<Rightarrow> u | _ \<Rightarrow> reported m)"
  by (cases x) (simp_all add: say_def reported_def)

lemma upd_facts [simp]:
  "told_mem (upd i f m) = told_mem m" "closings (upd i f m) j = closings m j" "reported (upd i f m) = reported m"
  "registered (upd i f m) = registered m" "sr_heap (upd i f m) = (sr_heap m)[i := f (cn m i)]" "sr_observer (upd i f m) = sr_observer m"
  "sr_connections (upd i f m) = sr_connections m" "sr_lastUsable (upd i f m) = sr_lastUsable m"
  by (simp_all add: upd_def told_mem_def closings_def reported_def registered_def)

lemma connections_facts [simp]:
  "told_mem (m\<lparr>sr_connections := cs\<rparr>) = told_mem m" "closings (m\<lparr>sr_connections := cs\<rparr>) j = closings m j"
  "reported (m\<lparr>sr_connections := cs\<rparr>) = reported m" "registered (m\<lparr>sr_connections := cs\<rparr>) = map snd cs"
  "told_mem (m\<lparr>sr_lastUsable := u\<rparr>) = told_mem m" "closings (m\<lparr>sr_lastUsable := u\<rparr>) j = closings m j"
  "reported (m\<lparr>sr_lastUsable := u\<rparr>) = reported m" "registered (m\<lparr>sr_lastUsable := u\<rparr>) = registered m"
  by (simp_all add: told_mem_def closings_def reported_def registered_def)

lemma rt_inv_recompute:
  assumes "base_inv m"
  shows "rt_inv (recomputeHealth m)"
proof -
  have u: "usable (say x (m\<lparr>sr_lastUsable := n\<rparr>)) = usable m" "usable (m\<lparr>sr_lastUsable := n\<rparr>) = usable m"
    "countOpen (say x (m\<lparr>sr_lastUsable := n\<rparr>)) = countOpen m" "countOpen (m\<lparr>sr_lastUsable := n\<rparr>) = countOpen m" for x n
    by (simp_all add: usable_def countOpen_def)
  show ?thesis using assms by (auto simp: rt_inv_def base_inv_def recomputeHealth_def Let_def u conns_ok_def)
qed

lemma registered_pointer:
  assumes "conns_ok m" "i \<in> set (registered m)"
  shows "i < length (sr_heap m)" "(rn_id (cn m i), i) \<in> set (sr_connections m)" "\<not> rn_torn (cn m i)"
  using assms by (auto simp: conns_ok_def registered_def)

lemma teardown_length [simp]: "length (sr_heap (teardown i m)) = length (sr_heap m)" "sr_connections (teardown i m) = sr_connections m"
  by (simp_all add: teardown_def obs_def Let_def)

lemma base_inv_teardown:
  assumes "base_inv m" "i < length (sr_heap m)" "i \<notin> set (registered m)"
  shows "base_inv (teardown i m)"
proof (cases "rn_torn (cn m i)")
  case False
  let ?c = "cn m i\<lparr>rn_torn := True, rn_keepalive := None\<rparr>" and ?f = "\<lambda>c. c\<lparr>rn_torn := True, rn_keepalive := None\<rparr>"
  define n where "n = say (RelayClosed i) (upd i ?f m)"
  have n: "sr_heap n = (sr_heap m)[i := ?c]" "sr_connections n = sr_connections m" "sr_lastUsable n = sr_lastUsable m"
      "sr_observer n = sr_observer m" "registered n = registered m" "reported n = reported m" "told_mem n = told_mem m"
      "closings n j = closings m j + (if i = j then 1 else 0)" for j
    by (simp_all add: n_def)
  have ne: "j \<noteq> i" if "(k, j) \<in> set (sr_connections m)" for k j using that assms(3) by (force simp: registered_def)
  have "conns_ok n" using assms(1) ne by (fastforce simp: base_inv_def conns_ok_def n)
  moreover have "cn n j = cn m j" if "j \<in> set (registered m)" for j
    using that assms(3) by (cases "j = i") (simp_all add: n)
  then have "countOpen n = countOpen m" unfolding countOpen_def n(5) by (metis (mono_tags, lifting) filter_cong)
  moreover have "mem_sum (sr_heap n) = mem_sum (sr_heap m) - rn_mem (cn m i)" using assms(2) False by (simp add: n mem_sum_update)
  moreover have "\<forall>c\<in>set (sr_heap n). 0 \<le> rn_mem c" using assms(1,2) by (auto simp: base_inv_def n dest!: set_update_subset_insert [THEN subsetD])
  moreover have "closings n j = (if j < length (sr_heap n) \<and> rn_torn (cn n j) then 1 else 0)" for j
    using assms(1,2) False by (auto simp: base_inv_def n nth_list_update)
  moreover have "countOpen (say x n) = countOpen n" "conns_ok (say x n) = conns_ok n" for x by (simp_all add: countOpen_def conns_ok_def)
  moreover have "teardown i m = (if rn_mem (cn m i) > 0 then say (RelayReleaseMem (rn_mem (cn m i))) n else n)"
    using False assms(1,2) by (simp add: teardown_def Let_def obs_def n_def base_inv_def)
  moreover have "0 \<le> rn_mem (cn m i)" using assms(1,2) by (simp add: base_inv_def)
  ultimately show ?thesis using assms(1) by (auto simp: base_inv_def n)
qed (use assms(1) in \<open>simp add: teardown_def\<close>)

lemma distinct_registered:
  assumes "conns_ok m"
  shows "distinct (registered m)"
proof -
  have "inj_on snd (set (sr_connections m))"
  proof (rule inj_onI)
    fix x y assume "x \<in> set (sr_connections m)" "y \<in> set (sr_connections m)" "snd x = snd y"
    moreover then have "fst x = rn_id (cn m (snd x))" "fst y = rn_id (cn m (snd y))" using assms by (auto simp: conns_ok_def)
    ultimately show "x = y" by (simp add: prod_eq_iff)
  qed
  moreover have "distinct (sr_connections m)" using assms by (auto simp: conns_ok_def distinct_map)
  ultimately show ?thesis by (simp add: registered_def distinct_map)
qed

lemma countOpen_card: "conns_ok m \<Longrightarrow> countOpen m = card {i \<in> set (registered m). is_open (cn m i)}"
  using distinct_card [OF distinct_filter [OF distinct_registered], of m "\<lambda>i. is_open (cn m i)"] by (simp add: countOpen_def)

text \<open>A change of one connection's state, and of what is registered: fewer connections, or the same.\<close>

lemma base_inv_restate:
  assumes "base_inv m" "i < length (sr_heap m)" "set cs \<subseteq> set (sr_connections m)" "distinct (map fst cs)"
    and "s \<noteq> relayStateOpen \<or> countOpen m < maxOpenRelays"
  shows "base_inv ((setState i s m)\<lparr>sr_connections := cs\<rparr>)"
proof -
  let ?n = "(setState i s m)\<lparr>sr_connections := cs\<rparr>"
  have h: "sr_heap ?n = (sr_heap m)[i := cn m i\<lparr>rn_state := s\<rparr>]" by (simp add: setState_def)
  have m: "conns_ok m" using assms(1) by (simp add: base_inv_def)
  have f: "rn_id (cn ?n j) = rn_id (cn m j)" "rn_torn (cn ?n j) = rn_torn (cn m j)" "length (sr_heap ?n) = length (sr_heap m)" for j
    unfolding h using assms(2) by (cases "j = i"; simp)+
  have n: "conns_ok ?n" using m assms(3,4) unfolding conns_ok_def f by auto
  have "{j \<in> set (registered ?n). is_open (cn ?n j)} \<subseteq> (if s = relayStateOpen then {i} else {}) \<union> {j \<in> set (registered m). is_open (cn m j)}"
  proof
    fix j assume j: "j \<in> {j \<in> set (registered ?n). is_open (cn ?n j)}"
    have "j \<in> set (registered m)" using j assms(3) by (auto simp: registered_def)
    moreover have "is_open (cn m j) \<or> j = i \<and> s = relayStateOpen" using j assms(2) unfolding h by (cases "j = i") simp_all
    ultimately show "j \<in> (if s = relayStateOpen then {i} else {}) \<union> {j \<in> set (registered m). is_open (cn m j)}" by auto
  qed
  then have "countOpen ?n \<le> card ((if s = relayStateOpen then {i} else {}) \<union> {j \<in> set (registered m). is_open (cn m j)})"
    unfolding countOpen_card [OF n] by (intro card_mono) auto
  also have "\<dots> \<le> (if s = relayStateOpen then 1 else 0) + countOpen m" unfolding countOpen_card [OF m] by (rule order_trans [OF card_Un_le]) simp
  also have "\<dots> \<le> maxOpenRelays" using assms(1,5) by (auto simp: base_inv_def)
  finally have "countOpen ?n \<le> maxOpenRelays" .
  moreover have "mem_sum (sr_heap ?n) = mem_sum (sr_heap m)" using assms(2) unfolding h by (simp add: mem_sum_update)
  moreover have "\<forall>c\<in>set (sr_heap ?n). 0 \<le> rn_mem c" using assms(1,2) unfolding h
    by (auto simp: base_inv_def dest!: set_update_subset_insert [THEN subsetD])
  moreover have "closings ?n j = (if j < length (sr_heap ?n) \<and> rn_torn (cn ?n j) then 1 else 0)" for j
    unfolding f using assms(1) by (simp add: base_inv_def setState_def)
  ultimately show ?thesis using assms(1) n by (simp add: base_inv_def setState_def)
qed

lemma delete_facts:
  "set (AList.delete k cs) \<subseteq> set cs" "distinct (map fst cs) \<Longrightarrow> distinct (map fst (AList.delete k cs))"
  "(k', i) \<in> set (AList.delete k cs) \<Longrightarrow> k' \<noteq> k"
  by (auto simp: AList.delete_eq distinct_map inj_on_def)

text \<open>Failing and closing have the same shape.\<close>

lemma rt_inv_unregister:
  assumes "rt_inv m" "i < length (sr_heap m)" "s \<noteq> relayStateOpen"
  shows "rt_inv (recomputeHealth (teardown i ((setState i s m)\<lparr>sr_connections := AList.delete (rn_id (cn m i)) (sr_connections m)\<rparr>)))"
proof -
  let ?cs = "AList.delete (rn_id (cn m i)) (sr_connections m)"
  let ?n = "(setState i s m)\<lparr>sr_connections := ?cs\<rparr>"
  have b: "base_inv m" and m: "conns_ok m" using assms(1) by (simp_all add: rt_inv_def base_inv_def)
  have "distinct (map fst ?cs)" using m by (intro delete_facts(2)) (simp add: conns_ok_def)
  with b assms(2) delete_facts(1) have "base_inv ?n" by (rule base_inv_restate) (simp add: assms(3))
  moreover have "i \<notin> set (registered ?n)"
  proof
    assume "i \<in> set (registered ?n)"
    then obtain k where "(k, i) \<in> set ?cs" by (auto simp: registered_def)
    then show False using delete_facts(1,3) m by (fastforce simp: conns_ok_def)
  qed
  ultimately show ?thesis using assms(2) by (intro rt_inv_recompute base_inv_teardown) (simp_all add: setState_def)
qed

lemma failConnection_inv: "rt_inv m \<Longrightarrow> i < length (sr_heap m) \<Longrightarrow> rt_inv (failConnection i m)"
  using rt_inv_unregister [of m i relayStateFailed] by (simp add: failConnection_def Let_def setState_def nth_list_update)

lemma closeConnection_inv: "rt_inv m \<Longrightarrow> rt_inv (closeConnection k m)"
proof (cases "map_of (sr_connections m) k")
  case (Some i)
  assume m: "rt_inv m"
  have "i < length (sr_heap m)" "rn_id (cn m i) = k"
    using m map_of_SomeD [OF Some] by (auto simp: rt_inv_def base_inv_def conns_ok_def)
  with rt_inv_unregister [OF m, of i relayStateClosed] show ?thesis by (simp add: closeConnection_def Some Let_def setState_def)
qed (simp add: closeConnection_def)

lemma teardown_fold_inv:
  "base_inv m \<Longrightarrow> sr_connections m = [] \<Longrightarrow> list_all (\<lambda>i. i < length (sr_heap m)) is \<Longrightarrow> base_inv (fold teardown is m)"
proof (induction "is" arbitrary: m)
  case (Cons i "is")
  then have "base_inv (teardown i m)" by (intro base_inv_teardown) (simp_all add: registered_def)
  with Cons show ?case by simp
qed simp

lemma DropConnections_inv: "rt_inv m \<Longrightarrow> rt_inv (DropConnections m)"
proof -
  assume m: "rt_inv m"
  have "base_inv (m\<lparr>sr_connections := []\<rparr>)" using m by (simp add: rt_inv_def base_inv_def conns_ok_def countOpen_def)
  moreover have "list_all (\<lambda>i. i < length (sr_heap (m\<lparr>sr_connections := []\<rparr>))) (registered m)"
    using m registered_pointer(1) [of m] by (auto simp: rt_inv_def base_inv_def list_all_iff)
  ultimately show ?thesis unfolding DropConnections_def by (intro rt_inv_recompute teardown_fold_inv) simp_all
qed

lemma base_inv_degrade:
  assumes "base_inv m" "i < length (sr_heap m)"
  shows "base_inv (upd i (\<lambda>c. c\<lparr>rn_degraded := b\<rparr>) m)"
proof -
  let ?n = "upd i (\<lambda>c. c\<lparr>rn_degraded := b\<rparr>) m"
  have "countOpen ?n = countOpen m" unfolding countOpen_def
    by (auto intro!: arg_cong [of _ _ length] filter_cong simp: nth_list_update assms(2))
  moreover have "conns_ok ?n" using assms by (fastforce simp: base_inv_def conns_ok_def nth_list_update)
  moreover have "\<forall>c\<in>set (sr_heap ?n). 0 \<le> rn_mem c" using assms by (auto simp: base_inv_def dest!: set_update_subset_insert [THEN subsetD])
  ultimately show ?thesis using assms by (auto simp: base_inv_def mem_sum_update nth_list_update)
qed

lemma handleICEState_inv:
  assumes "rt_inv m" "i < length (sr_heap m)"
  shows "rt_inv (handleICEState e i s m)"
proof -
  have b: "base_inv m" using assms(1) by (simp add: rt_inv_def)
  show ?thesis
  proof (cases s)
  case ICEConnected
  let ?m = "obs (RelayMark ''transport.ice'') m"
  have 1: "rt_inv ?m" "i < length (sr_heap ?m)" using assms same_rt_inv [OF same_obs [OF _ same_refl]] by (simp_all add: obs_def)
  have "base_inv (upd i (\<lambda>c. c\<lparr>rn_degraded := False\<rparr>) ?m)" using 1 by (intro base_inv_degrade) (simp_all add: rt_inv_def)
  then show ?thesis using ICEConnected same_base_inv(1) [OF same_sendStun [OF same_refl]] by (simp add: Let_def rt_inv_recompute)
qed (use assms base_inv_degrade [OF b] in \<open>simp_all add: rt_inv_recompute failConnection_inv\<close>)
qed

lemma onOpen_inv:
  assumes "rt_inv m" "i < length (sr_heap m)"
  shows "rt_inv (onOpen e i m)"
proof (cases "countOpen m \<ge> maxOpenRelays")
  case True
  then show ?thesis using assms(1) same_rt_inv [OF same_say [OF _ same_refl]] by (simp add: onOpen_def)
next
  case False
  have b: "base_inv m" "set (sr_connections m) \<subseteq> set (sr_connections m)" "distinct (map fst (sr_connections m))"
    using assms(1) by (simp_all add: rt_inv_def base_inv_def conns_ok_def)
  have "base_inv ((setState i relayStateOpen m)\<lparr>sr_connections := sr_connections m\<rparr>)"
    using b(1) assms(2) b(2,3) by (rule base_inv_restate) (use False in simp)
  moreover have "(setState i relayStateOpen m)\<lparr>sr_connections := sr_connections m\<rparr> = setState i relayStateOpen m"
    by (simp add: setState_def upd_def)
  ultimately have "rt_inv (recomputeHealth (setState i relayStateOpen m))" by (simp add: rt_inv_recompute)
  moreover have "same n (say (RelayConnected a p) (startKeepalive e i (obs (RelayMark y) (sendStunRegistration e i (obs (RelayMark x) n)))))"
    for n a p x y by (rule same_say [OF _ same_trans [OF _ same_quiet(2)]]) (simp_all add: sames)
  ultimately show ?thesis using False by (simp add: onOpen_def Let_def) (rule same_rt_inv)
qed

lemma update_fresh: "k \<notin> fst ` set cs \<Longrightarrow> AList.update k v cs = cs @ [(k, v)]"
  by (induction cs) auto

lemma register_inv:
  assumes "rt_inv m" "config_id r \<notin> fst ` set (sr_connections m)"
  shows "rt_inv (register r m)" "length (sr_heap (register r m)) = Suc (length (sr_heap m))"
    "\<not> rn_torn (cn (register r m) (length (sr_heap m)))"
proof -
  let ?n = "register r m" and ?k = "length (sr_heap m)"
  obtain c where h: "sr_heap ?n = sr_heap m @ [c]" "rn_state c = relayStateConnecting" "rn_mem c = 0" "\<not> rn_torn c" "rn_id c = config_id r"
    by (simp add: register_def)
  have cs: "sr_connections ?n = sr_connections m @ [(config_id r, ?k)]" using assms(2) by (simp add: register_def update_fresh)
  have o: "closings ?n i = closings m i" "reported ?n = reported m" "told_mem ?n = told_mem m" "sr_lastUsable ?n = sr_lastUsable m"
      "sr_observer ?n = sr_observer m" for i
    by (simp_all add: register_def closings_def reported_def told_mem_def)
  have old: "cn ?n i = cn m i" if "i < ?k" for i using that by (simp add: h(1) nth_append)
  have new: "cn ?n ?k = c" by (simp add: h(1))
  have p: "i < ?k" if "i \<in> set (registered m)" for i using assms(1) that registered_pointer(1) by (auto simp: rt_inv_def base_inv_def)
  have r: "registered ?n = registered m @ [?k]" by (simp add: registered_def cs)
  have u: "countOpen ?n = countOpen m" "usable ?n = usable m" unfolding countOpen_def usable_def r
    by (auto simp: new h(2) intro!: arg_cong [of _ _ length] filter_cong dest!: p simp: old)
  have "i < length (sr_heap ?n) \<and> rn_id (cn ?n i) = k \<and> \<not> rn_torn (cn ?n i)" if "(k, i) \<in> set (sr_connections ?n)" for k i
  proof (cases "i = ?k")
    case True
    then have "k = config_id r" using that p by (force simp: cs registered_def)
    with True show ?thesis by (simp add: new h)
  next
    case False
    then have "(k, i) \<in> set (sr_connections m)" using that by (auto simp: cs)
    then show ?thesis using assms(1) old [of i] by (auto simp: rt_inv_def base_inv_def conns_ok_def h(1))
  qed
  moreover have "distinct (map fst (sr_connections ?n))" using assms by (simp add: cs rt_inv_def base_inv_def conns_ok_def)
  ultimately have "conns_ok ?n" by (auto simp: conns_ok_def)
  moreover have "closings ?n i = (if i < length (sr_heap ?n) \<and> rn_torn (cn ?n i) then 1 else 0)" for i
    using assms(1) h(4) by (auto simp: o rt_inv_def base_inv_def h(1) nth_append less_Suc_eq)
  ultimately show "rt_inv ?n" using assms(1) h by (simp add: rt_inv_def base_inv_def o u mem_sum_def)
  show "length (sr_heap ?n) = Suc ?k" "\<not> rn_torn (cn ?n ?k)" by (simp_all add: h(1,4))
qed

lemma allocate_inv:
  assumes "rt_inv m" "i < length (sr_heap m)" "\<not> rn_torn (cn m i)" "0 \<le> n"
    and f: "\<And>c. rn_state (f c) = rn_state c \<and> rn_degraded (f c) = rn_degraded c \<and> rn_id (f c) = rn_id c \<and> rn_torn (f c) = rn_torn c \<and>
      rn_mem (f c) = rn_mem c + n"
  shows "rt_inv (obs (RelayAddMem n) (upd i f m))" "\<not> rn_torn (cn (obs (RelayAddMem n) (upd i f m)) i)"
    "length (sr_heap (obs (RelayAddMem n) (upd i f m))) = length (sr_heap m)"
proof -
  let ?n = "upd i f m"
  have s: "rn_state (cn ?n j) = rn_state (cn m j)" "rn_degraded (cn ?n j) = rn_degraded (cn m j)" "rn_id (cn ?n j) = rn_id (cn m j)"
      "rn_torn (cn ?n j) = rn_torn (cn m j)" for j
    using f assms(2) by (cases "j = i"; simp)+
  have c: "countOpen (say x ?n) = countOpen m" "usable (say x ?n) = usable m" for x unfolding countOpen_def usable_def by (simp_all add: s del: upd_facts(5))
  have k: "conns_ok (say x ?n) = conns_ok m" for x unfolding conns_ok_def by (simp add: s del: upd_facts(5)) (simp add: upd_def)
  have g: "\<forall>d\<in>set (sr_heap ?n). 0 \<le> rn_mem d"
    using assms f by (auto simp: rt_inv_def base_inv_def dest!: set_update_subset_insert [THEN subsetD])
  have t: "closings ?n j = (if j < length (sr_heap ?n) \<and> rn_torn (cn ?n j) then 1 else 0)" for j
    using assms(1) unfolding s by (simp add: rt_inv_def base_inv_def)
  have o: "sr_observer m" using assms(1) by (simp add: rt_inv_def base_inv_def)
  show "rt_inv (obs (RelayAddMem n) ?n)" using assms f g t o
    by (simp add: rt_inv_def base_inv_def obs_def c k mem_sum_update)
  show "\<not> rn_torn (cn (obs (RelayAddMem n) ?n) i)" "length (sr_heap (obs (RelayAddMem n) ?n)) = length (sr_heap m)"
    using assms f by (simp_all add: obs_def)
qed

lemma connectToRelay_inv:
  assumes "rt_inv m" "config_id r \<notin> fst ` set (sr_connections m)"
  shows "rt_inv (connectToRelay r d m)"
proof -
  let ?i = "length (sr_heap m)" and ?m = "register r m"
  note r = register_inv [OF assms]
  let ?p = "got_pc ?i ?m" and ?c = "got_channel ?i (got_pc ?i ?m)"
  have p: "rt_inv ?p" "\<not> rn_torn (cn ?p ?i)" "?i < length (sr_heap ?p)" unfolding got_pc_def
    using allocate_inv [OF r(1) _ r(3), of peerConnectionBytes "\<lambda>c. c\<lparr>rn_pc := True, rn_mem := rn_mem c + peerConnectionBytes\<rparr>"] r(2)
    by (simp_all add: peerConnectionBytes_def)
  have c: "rt_inv ?c" "?i < length (sr_heap ?c)" unfolding got_channel_def
    using allocate_inv [OF p(1,3,2), of dataChannelBytes "\<lambda>c. c\<lparr>rn_channel := True, rn_mem := rn_mem c + dataChannelBytes\<rparr>"] p(3)
    by (simp_all add: dataChannelBytes_def)
  have u: "rt_inv (upd ?i (\<lambda>c. c\<lparr>rn_localUfrag := s\<rparr>) ?c)" for s by (rule same_rt_inv [OF same_upd c(1)]) simp_all
  show ?thesis using r p c u by (cases d) (simp_all add: connectToRelay_def Let_def failConnection_inv)
qed

section \<open>The manager as a system\<close>

datatype relay_event =
    RtDial RelayConfig dial_result
  | RtObey relay_cmd
  | RtOpen nat
  | RtConnection nat bool
  | RtClosed nat
  | RtGoClose string
  | RtMessage bytes
  | RtTimeout nat
  | RtIce nat ice_state
  | RtTick nat
  | RtRetransmit nat

fun relay_dispatch :: "relay_env \<Rightarrow> relay_event \<Rightarrow> SctpRelayManager \<Rightarrow> SctpRelayManager" where
  "relay_dispatch e (RtDial r d) m = connectToRelay r d m"
| "relay_dispatch e (RtObey c) m = obey e c m"
| "relay_dispatch e (RtOpen i) m = onOpen e i m"
| "relay_dispatch e (RtConnection i b) m = onConnectionState b m"
| "relay_dispatch e (RtClosed i) m = onClose i m"
| "relay_dispatch e (RtGoClose k) m = closeConnection k m"
| "relay_dispatch e (RtMessage d) m = onMessage d m"
| "relay_dispatch e (RtTimeout i) m = onTimeout i m"
| "relay_dispatch e (RtIce i s) m = handleICEState e i s m"
| "relay_dispatch e (RtTick i) m = keepaliveTick e i m"
| "relay_dispatch e (RtRetransmit i) m = retransmit e i m"

text \<open>
  Callbacks come from connections that were made; a relay is dialled when no connection to it is
  registered (which \<open>ConfigureRelays\<close> checks); the final \<open>Cleanup\<close> is left out.
\<close>

fun possible :: "relay_event \<Rightarrow> SctpRelayManager \<Rightarrow> bool" where
  "possible (RtDial r _) m \<longleftrightarrow> config_id r \<notin> fst ` set (sr_connections m)"
| "possible (RtObey c) m \<longleftrightarrow> c \<noteq> RelayCleanup"
| "possible (RtOpen i) m \<longleftrightarrow> i < length (sr_heap m)"
| "possible (RtClosed i) m \<longleftrightarrow> i < length (sr_heap m)"
| "possible (RtTick i) m \<longleftrightarrow> i < length (sr_heap m)"
| "possible (RtRetransmit i) m \<longleftrightarrow> i < length (sr_heap m)"
| "possible (RtConnection i _) m \<longleftrightarrow> i < length (sr_heap m)"
| "possible (RtTimeout i) m \<longleftrightarrow> i < length (sr_heap m)"
| "possible (RtIce i _) m \<longleftrightarrow> i < length (sr_heap m)"
| "possible _ m \<longleftrightarrow> True"

inductive rt_init :: "SctpRelayManager \<Rightarrow> bool" where
  "rt_init (Relay_SetObserver True NewSctpRelayManager)"

inductive rt_step :: "SctpRelayManager \<Rightarrow> SctpRelayManager \<Rightarrow> bool" where
  "possible ev m \<Longrightarrow> rt_step m (relay_dispatch e ev m)"

lemma relay_dispatch_inv:
  assumes "rt_inv m" "possible ev m"
  shows "rt_inv (relay_dispatch e ev m)"
proof (cases ev)
  case (RtObey c)
  show ?thesis
  proof (cases "c = relay_cmd.DropConnections")
    case False
    then have "same m (obey e c m)" using assms(2) RtObey by (cases c) (simp_all add: same_commands)
    then show ?thesis using assms(1) RtObey by (simp add: same_rt_inv)
  qed (use assms(1) in \<open>simp add: RtObey DropConnections_inv\<close>)
qed (use assms same_quiet [THEN same_rt_inv, of m] in \<open>simp_all add: connectToRelay_inv onOpen_inv onClose_def closeConnection_inv
    onTimeout_def failConnection_inv handleICEState_inv\<close>)

interpretation rt: invariant_system rt_init rt_step rt_inv
proof unfold_locales
  show "rt_inv m" if "rt_init m" for m
    using that by cases (simp add: Relay_SetObserver_def NewSctpRelayManager_def rt_inv_def base_inv_def conns_ok_def countOpen_def usable_def
        registered_def reported_def told_mem_def mem_sum_def closings_def)
  show "rt_inv n" if "rt_inv m" "rt_step m n" for m n using that(2,1) by cases (simp add: relay_dispatch_inv)
qed

section \<open>Whom to dial, whom to send to\<close>

lemma dial_targets_spec:
  "dial_targets known n rs = take (maxDialRelays - n) (filter (\<lambda>r. config_id r \<notin> set known) (map with_port rs))"
  by (induction known n rs rule: dial_targets.induct) (auto simp: take_Cons' Suc_diff_le not_le)

lemma fold_say: "sr_out (fold (\<lambda>r. say (f r)) rs m) = sr_out m @ map f rs"
  by (induction rs arbitrary: m) (simp_all add: say_def)

lemma Broadcast_out:
  "sr_out (Broadcast d m) = sr_out m @ map (\<lambda>i. RelaySend i d) (filter (\<lambda>i. rn_channel (cn m i) \<and> is_open (cn m i)) (registered m))"
proof -
  have "sr_out (fold (\<lambda>i. sendRaw i d) is n) = sr_out n @ map (\<lambda>i. RelaySend i d) (filter (\<lambda>i. rn_channel (cn n i) \<and> is_open (cn n i)) is)" for "is" n
    by (induction "is" arbitrary: n) (simp_all add: sendRaw_def say_def)
  then show ?thesis by (simp add: Broadcast_def)
qed

section \<open>Where connections are lost\<close>

text \<open>
  \<open>Cleanup\<close> installs the silent observer before it tears the connections down: the call's observer is
  never told that their memory is released.
\<close>

lemma silent_teardown: "\<not> sr_observer m \<Longrightarrow> told_mem (teardown i m) = told_mem m \<and> \<not> sr_observer (teardown i m)"
  by (simp add: teardown_def obs_def Let_def)

theorem cleanup_releases_nothing: "told_mem (Cleanup m) = told_mem m"
proof -
  have "\<not> sr_observer n \<Longrightarrow> told_mem (fold teardown is n) = told_mem n" for "is" n
    by (induction "is" arbitrary: n) (simp_all add: silent_teardown)
  then show ?thesis by (simp add: Cleanup_def told_mem_def)
qed

text \<open>
  The close callback of a channel closes by id: when the relay has been dialled again meanwhile (as
  the call manager does after \<open>DropConnections\<close>), the late callback of the old connection takes the
  new one down.
\<close>

theorem late_close_hits_new_connection:
  assumes "i < length (sr_heap m)" "rn_id (cn m i) = config_id r" "config_id r \<notin> fst ` set (sr_connections m)"
    and n: "n = connectToRelay r (Dialed ufrag) m"
  shows "map_of (sr_connections n) (config_id r) = Some (length (sr_heap m)) \<and> \<not> rn_torn (cn n (length (sr_heap m))) \<and>
    map_of (sr_connections (onClose i n)) (config_id r) = None \<and> rn_torn (cn (onClose i n) (length (sr_heap m)))"
proof -
  let ?k = "length (sr_heap m)"
  have n1: "sr_connections n = sr_connections m @ [(config_id r, ?k)]" "length (sr_heap n) = Suc ?k" "cn n i = cn m i" "\<not> rn_torn (cn n ?k)"
    using assms(1,3) by (simp_all add: n connectToRelay_def register_def update_fresh got_pc_def got_channel_def obs_def Let_def nth_append)
  have "map_of (sr_connections m) (config_id r) = None" using assms(3) by (simp add: map_of_eq_None_iff)
  then have m: "map_of (sr_connections n) (config_id r) = Some ?k" by (simp add: n1(1) map_add_def)
  have "cn (recomputeHealth x) = cn x" "sr_connections (recomputeHealth x) = sr_connections x" for x by (simp_all add: recomputeHealth_def Let_def)
  moreover have "?k < length (sr_heap x) \<Longrightarrow> rn_torn (cn (teardown ?k x) ?k)" for x by (simp add: teardown_def obs_def Let_def)
  ultimately show ?thesis using m n1 assms(2)
    by (simp add: onClose_def closeConnection_def Let_def setState_def AList.delete_conv')
qed

text \<open>
  A connection dropped while it is being dialled is torn down before the library has answered; the
  peer connection it then gets is accounted for and never closed, because tearing down happens once.
\<close>

lemma teardown_torn:
  "rn_torn (cn m j) \<Longrightarrow> rn_torn (cn (teardown i m) j)" "i < length (sr_heap m) \<Longrightarrow> rn_torn (cn (teardown i m) i)"
  by (cases "i < length (sr_heap m)"; cases "i = j"; simp add: teardown_def obs_def Let_def)
     (simp add: teardown_def obs_def Let_def)

lemma fold_teardown_torn:
  "j < length (sr_heap m) \<Longrightarrow> j \<in> set is \<or> rn_torn (cn m j) \<Longrightarrow> rn_torn (cn (fold teardown is m) j)"
  by (induction "is" arbitrary: m) (auto simp: teardown_torn)

lemma fold_teardown_length: "length (sr_heap (fold teardown is m)) = length (sr_heap m)"
  by (induction "is" arbitrary: m) simp_all

theorem dial_outlives_drop:
  assumes "rt_inv m" "config_id r \<notin> fst ` set (sr_connections m)"
    and n: "n = got_pc (length (sr_heap m)) (DropConnections (register r m))"
  shows "rn_torn (cn n (length (sr_heap m))) \<and> told_mem n = mem_sum (sr_heap n) + 65536 \<and> teardown (length (sr_heap m)) n = n"
proof -
  let ?k = "length (sr_heap m)" and ?d = "DropConnections (register r m)"
  have d: "rt_inv ?d" using register_inv(1) [OF assms(1,2)] by (rule DropConnections_inv)
  have h: "sr_heap (recomputeHealth x) = sr_heap x" for x by (simp add: recomputeHealth_def Let_def)
  have "?k \<in> set (registered (register r m))" using assms(2) by (simp add: register_def registered_def update_fresh)
  then have "rn_torn (cn (fold teardown (registered (register r m)) ((register r m)\<lparr>sr_connections := []\<rparr>)) ?k)"
    by (intro fold_teardown_torn) (simp_all add: register_def)
  then have k: "?k < length (sr_heap ?d)" "rn_torn (cn ?d ?k)"
    by (simp_all add: DropConnections_def h fold_teardown_length) (simp add: register_def)
  have t: "rn_torn (cn n ?k)" using k by (simp add: n got_pc_def obs_def)
  moreover have "told_mem n = told_mem ?d + 65536" "mem_sum (sr_heap n) = mem_sum (sr_heap ?d)"
    using d k by (simp_all add: n got_pc_def obs_def rt_inv_def base_inv_def peerConnectionBytes_def mem_sum_update)
  moreover have "told_mem ?d = mem_sum (sr_heap ?d)" using d by (simp add: rt_inv_def base_inv_def)
  ultimately show ?thesis by (simp add: teardown_def)
qed

section \<open>Properties\<close>


definition sample_relay :: RelayConfig where
  "sample_relay = \<lparr>rc_IP = ''1.2.3.4'', rc_Port = 3480, rc_Token = ''t'', rc_AuthToken = '''', rc_RawAuthToken = None, rc_RawToken = [1],
     rc_Key = ''k'', rc_RelayID = 1, rc_Name = ''r'', rc_AuthTokenID = ''''\<rparr>"

definition sample_relay_env :: relay_env where
  "sample_relay_env = \<lparr>re_txid = (\<lambda>_. replicate 12 0), re_tie = (\<lambda>_. replicate 8 0), re_scan = (\<lambda>_. (1, 2, 3, 4))\<rparr>"


text \<open>
  Claim C38. Configuring relays asks for exactly the first of the given relays that are not registered
  yet, with the default port filled in, up to three connections in all; and a broadcast hands one
  copy of the datagram to every registered open connection with a data channel, and to no other.
\<close>

theorem relays_dialed_and_reached:
  "sr_out (ConfigureRelays rs m) = sr_out m @ map RelayDial
     (take (3 - length (sr_connections m)) (filter (\<lambda>r. config_id r \<notin> fst ` set (sr_connections m)) (map with_port rs))) \<and>
   sr_out (Broadcast d m) = sr_out m @ map (\<lambda>i. RelaySend i d)
     (filter (\<lambda>i. rn_channel (cn m i) \<and> is_open (cn m i)) (registered m))"
  by (simp add: ConfigureRelays_def fold_say dial_targets_spec maxDialRelays_def Broadcast_out)

end
