(* ===== verification/Range_Coder.thy ===== *)
theory Range_Coder
  imports Prelude
begin

unbundle bit_operations_syntax

text \<open>
  The range entropy coder of the speech codec: \<^verbatim>\<open>internal/voip/codec/mlow/rangecoder.go\<close>. Range-coded
  symbols go to the front of the buffer, raw bits to the back. \<open>rng\<close>, \<open>val\<close>, \<open>ext\<close> and the bit windows
  are 32-bit words; offsets into the buffer are natural numbers (a frame has at most a few hundred
  bytes). The normalisation loop would not end for a range of zero, so it is a partial function:
  \<open>None\<close> is a loop that never returns or an index out of range.
\<close>

section \<open>Constants\<close>

definition ecSymBits :: nat where "ecSymBits = 8"
definition ecCodeBits :: nat where "ecCodeBits = 32"
definition ecSymMax :: u32 where "ecSymMax = 255"
definition ecCodeTop :: u32 where "ecCodeTop = push_bit (ecCodeBits - 1) 1"
definition ecCodeBot :: u32 where "ecCodeBot = drop_bit ecSymBits ecCodeTop"
definition ecCodeExtra :: nat where "ecCodeExtra = (ecCodeBits - 2) mod ecSymBits + 1"
definition ecWindowSize :: nat where "ecWindowSize = 32"
definition ecUintBits :: nat where "ecUintBits = 8"
definition ecCodeShift :: nat where "ecCodeShift = ecCodeBits - ecSymBits - 1"

text \<open>\<open>bits.Len32\<close>.\<close>

fun bitlen :: "nat \<Rightarrow> nat" where
  "bitlen n = (if n = 0 then 0 else 1 + bitlen (n div 2))"

declare bitlen.simps [simp del]

definition ilog :: "u32 \<Rightarrow> nat" where
  "ilog x = bitlen (unat x)"

definition ecMini :: "u32 \<Rightarrow> u32 \<Rightarrow> u32" where
  "ecMini a b = (if a < b then a else b)"

section \<open>Decoder\<close>

record RangeDecoder =
  rd_buf :: bytes
  rd_storage :: nat
  rd_endOffs :: nat
  rd_endWindow :: u32
  rd_nendBits :: int
  rd_nbitsTotal :: int
  rd_offs :: nat
  rd_rng :: u32
  rd_val :: u32
  rd_ext :: u32
  rd_rem :: int
  rd_Err :: int

definition readByte :: "RangeDecoder \<Rightarrow> u32 \<times> RangeDecoder" where
  "readByte d = (if rd_offs d < rd_storage d
     then (ucast (rd_buf d ! rd_offs d), d\<lparr>rd_offs := rd_offs d + 1\<rparr>) else (0, d))"

definition readByteFromEnd :: "RangeDecoder \<Rightarrow> u32 \<times> RangeDecoder" where
  "readByteFromEnd d = (if rd_endOffs d < rd_storage d
     then (ucast (rd_buf d ! (rd_storage d - (rd_endOffs d + 1))), d\<lparr>rd_endOffs := rd_endOffs d + 1\<rparr>) else (0, d))"

text \<open>One round of the normalisation loop.\<close>

definition dec_shift :: "RangeDecoder \<Rightarrow> RangeDecoder" where
  "dec_shift d =
     (let sym0 = rd_rem d;
          (b, d) = readByte d;
          sym = drop_bit (ecSymBits - ecCodeExtra) (push_bit ecSymBits sym0 OR uint b)
      in d\<lparr>rd_nbitsTotal := rd_nbitsTotal d + int ecSymBits, rd_rng := push_bit ecSymBits (rd_rng d), rd_rem := uint b,
           rd_val := (push_bit ecSymBits (rd_val d) + (ecSymMax AND NOT (of_int sym))) AND (ecCodeTop - 1)\<rparr>)"

partial_function (option) dec_normalize :: "RangeDecoder \<Rightarrow> RangeDecoder option" where
  "dec_normalize d = (if rd_rng d \<le> ecCodeBot then dec_normalize (dec_shift d) else Some d)"

definition NewRangeDecoder :: "bytes \<Rightarrow> RangeDecoder go" where
  "NewRangeDecoder buf =
     (let d = \<lparr>rd_buf = buf, rd_storage = length buf, rd_endOffs = 0, rd_endWindow = 0, rd_nendBits = 0,
            rd_nbitsTotal = int (ecCodeBits + 1 - (ecCodeBits - ecCodeExtra) div ecSymBits * ecSymBits), rd_offs = 0,
            rd_rng = push_bit ecCodeExtra 1, rd_val = 0, rd_ext = 0, rd_rem = 0, rd_Err = 0\<rparr>;
          (b, d) = readByte d;
          d = d\<lparr>rd_rem := uint b\<rparr>
      in dec_normalize (d\<lparr>rd_val := rd_rng d - 1 - of_int (drop_bit (ecSymBits - ecCodeExtra) (rd_rem d))\<rparr>))"

definition degenerate :: "RangeDecoder \<Rightarrow> RangeDecoder" where
  "degenerate d = d\<lparr>rd_Err := 1, rd_ext := 1\<rparr>"

definition Decode :: "u32 \<Rightarrow> RangeDecoder \<Rightarrow> u32 \<times> RangeDecoder" where
  "Decode ft d =
     (if ft = 0 then (0, degenerate d)
      else
        (let ext = rd_rng d div ft in
         if ext = 0 then (0, degenerate d)
         else (let s = rd_val d div ext in (ft - ecMini (s + 1) ft, d\<lparr>rd_ext := ext\<rparr>))))"

definition decodeBin :: "nat \<Rightarrow> RangeDecoder \<Rightarrow> u32 \<times> RangeDecoder" where
  "decodeBin bitsN d =
     (let ext = drop_bit bitsN (rd_rng d) in
      if ext = 0 then (0, degenerate d)
      else (let s = rd_val d div ext; ft = push_bit bitsN 1 in (ft - ecMini (s + 1) ft, d\<lparr>rd_ext := ext\<rparr>)))"

definition Update :: "u32 \<Rightarrow> u32 \<Rightarrow> u32 \<Rightarrow> RangeDecoder \<Rightarrow> RangeDecoder go" where
  "Update fl fh ft d =
     (let s = rd_ext d * (ft - fh);
          d = d\<lparr>rd_val := rd_val d - s\<rparr>;
          d = (if fl > 0 then d\<lparr>rd_rng := rd_ext d * (fh - fl)\<rparr> else d\<lparr>rd_rng := rd_rng d - s\<rparr>)
      in dec_normalize d)"

definition DecodeRawSymbol :: "nat \<Rightarrow> RangeDecoder \<Rightarrow> (u32 \<times> RangeDecoder) go" where
  "DecodeRawSymbol nbits d = do {
     let (sym, d) = decodeBin nbits d;
     d \<leftarrow> Update sym (sym + 1) (push_bit nbits 1) d;
     Some (sym, d) }"

definition dec_BitLogp :: "nat \<Rightarrow> RangeDecoder \<Rightarrow> (bool \<times> RangeDecoder) go" where
  "dec_BitLogp logp d = do {
     let s = drop_bit logp (rd_rng d);
     let ret = (rd_val d < s);
     d \<leftarrow> dec_normalize (if ret then d\<lparr>rd_rng := s\<rparr> else d\<lparr>rd_val := rd_val d - s, rd_rng := rd_rng d - s\<rparr>);
     Some (ret, d) }"

text \<open>The search of \<open>DecodeICDF\<close>: \<open>t\<close> is the last value of \<open>s\<close>, \<open>ret\<close> the next index.\<close>

fun icdf_search :: "u32 \<Rightarrow> u32 \<Rightarrow> u32 \<Rightarrow> bytes \<Rightarrow> nat \<Rightarrow> nat \<times> u32 \<times> u32" where
  "icdf_search dv r t [] ret = (ret, t, t)"
| "icdf_search dv r t (x # xs) ret =
     (let s = r * ucast x in if dv \<ge> s \<or> xs = [] then (ret, t, s) else icdf_search dv r s xs (ret + 1))"

definition DecodeICDF :: "bytes \<Rightarrow> nat \<Rightarrow> RangeDecoder \<Rightarrow> (nat \<times> RangeDecoder) go" where
  "DecodeICDF icdf ftb d =
     (if icdf = [] then Some (0, d\<lparr>rd_Err := 1\<rparr>)
      else do {
        let (ret, t, s) = icdf_search (rd_val d) (drop_bit ftb (rd_rng d)) (rd_rng d) icdf 0;
        d \<leftarrow> dec_normalize (d\<lparr>rd_val := rd_val d - s, rd_rng := t - s\<rparr>);
        Some (ret, d) })"

text \<open>The search of \<open>DecodeCDF\<close> over the entries behind the first.\<close>

fun cdf_search :: "u32 \<Rightarrow> u16 list \<Rightarrow> nat \<Rightarrow> nat" where
  "cdf_search target [] k = k"
| "cdf_search target (x # xs) k = (if ucast x > target then k else cdf_search target xs (k + 1))"

definition DecodeCDF :: "u16 list \<Rightarrow> RangeDecoder \<Rightarrow> (nat \<times> RangeDecoder) go" where
  "DecodeCDF cdf d =
     (if length cdf < 2 then Some (0, d\<lparr>rd_Err := 1\<rparr>)
      else if (ucast (last cdf) :: u32) \<le> ucast (hd cdf) then Some (0, d\<lparr>rd_Err := 1\<rparr>)
      else do {
        let base = ucast (hd cdf);
        let ft = ucast (last cdf) - base;
        let (fs, d) = Decode ft d;
        let k = cdf_search (base + fs) (tl cdf) 0;
        a \<leftarrow> idx cdf k;
        b \<leftarrow> idx cdf (k + 1);
        d \<leftarrow> Update (ucast a - base) (ucast b - base) ft d;
        Some (k, d) })"

text \<open>The refill loop of \<open>BitsN\<close>, which runs at least once.\<close>

function bits_fill :: "u32 \<Rightarrow> int \<Rightarrow> RangeDecoder \<Rightarrow> u32 \<times> int \<times> RangeDecoder" where
  "bits_fill window available d =
     (let (b, d) = readByteFromEnd d;
          window = window OR push_bit (nat available) b;
          available = available + int ecSymBits
      in if available > int (ecWindowSize - ecSymBits) \<or> available < 0 then (window, available, d)
         else bits_fill window available d)"
  by pat_completeness auto
termination by (relation "measure (\<lambda>(w, a, d). nat (25 - a))") (auto simp: ecSymBits_def ecWindowSize_def)

declare bits_fill.simps [simp del]

definition dec_BitsN :: "nat \<Rightarrow> RangeDecoder \<Rightarrow> u32 \<times> RangeDecoder" where
  "dec_BitsN n d =
     (let (window, available, d) = (if 0 \<le> rd_nendBits d \<and> rd_nendBits d < int n then bits_fill (rd_endWindow d) (rd_nendBits d) d
            else (rd_endWindow d, rd_nendBits d, d))
      in (window AND (push_bit n 1 - 1),
          d\<lparr>rd_endWindow := drop_bit n window, rd_nendBits := available - int n, rd_nbitsTotal := rd_nbitsTotal d + int n\<rparr>))"

definition DecodeUint :: "u32 \<Rightarrow> RangeDecoder \<Rightarrow> (u32 \<times> RangeDecoder) go" where
  "DecodeUint ft0 d =
     (let ft = ft0 - 1; ftb = ilog ft in
      if ftb > ecUintBits then do {
        let ftb = ftb - ecUintBits;
        let t = drop_bit ftb ft + 1;
        let (s, d) = Decode t d;
        d \<leftarrow> Update s (s + 1) t d;
        let (low, d) = dec_BitsN ftb d;
        let v = push_bit ftb s OR low;
        Some (if v \<le> ft then (v, d) else (ft, d\<lparr>rd_Err := 1\<rparr>)) }
      else do {
        let ft = ft + 1;
        let (s, d) = Decode ft d;
        d \<leftarrow> Update s (s + 1) ft d;
        Some (s, d) })"

definition Decode64FineSym :: "RangeDecoder \<Rightarrow> (int \<times> RangeDecoder) go" where
  "Decode64FineSym d =
     (let ext = drop_bit 6 (rd_rng d) in
      if ext = 0 then Some (0, degenerate d)
      else do {
        let d = d\<lparr>rd_ext := ext\<rparr>;
        let sym = 63 - uint (rd_val d div ext);
        let sym = (if sym < 0 then 0 else if sym > 64 then 64 else sym);
        d \<leftarrow> Update (of_int sym) (of_int sym + 1) 64 d;
        Some (sym, d) })"

definition BytesConsumed :: "RangeDecoder \<Rightarrow> nat" where
  "BytesConsumed d = rd_offs d + rd_endOffs d"

definition BodyLen :: "RangeDecoder \<Rightarrow> nat" where
  "BodyLen d = rd_storage d"

definition Tell :: "RangeDecoder \<Rightarrow> int" where
  "Tell d = rd_nbitsTotal d - int (ilog (rd_rng d))"

section \<open>Encoder\<close>

record RangeEncoder =
  re_buf :: bytes
  re_storage :: nat
  re_endOffs :: nat
  re_endWindow :: u32
  re_nendBits :: int
  re_nbitsTotal :: int
  re_offs :: nat
  re_rng :: u32
  re_val :: u32
  re_ext :: nat
  re_rem :: int
  re_err :: int

definition NewRangeEncoder :: "nat \<Rightarrow> RangeEncoder" where
  "NewRangeEncoder sz = \<lparr>re_buf = replicate sz 0, re_storage = sz, re_endOffs = 0, re_endWindow = 0, re_nendBits = 0,
     re_nbitsTotal = int ecCodeBits + 1, re_offs = 0, re_rng = ecCodeTop, re_val = 0, re_ext = 0, re_rem = - 1, re_err = 0\<rparr>"

definition writeByte :: "u32 \<Rightarrow> RangeEncoder \<Rightarrow> RangeEncoder" where
  "writeByte b e = (if re_offs e + re_endOffs e < re_storage e
     then e\<lparr>re_buf := (re_buf e)[re_offs e := ucast b], re_offs := re_offs e + 1\<rparr> else e\<lparr>re_err := - 1\<rparr>)"

definition writeByteAtEnd :: "u32 \<Rightarrow> RangeEncoder \<Rightarrow> RangeEncoder" where
  "writeByteAtEnd b e = (if re_offs e + re_endOffs e < re_storage e
     then e\<lparr>re_endOffs := re_endOffs e + 1, re_buf := (re_buf e)[re_storage e - (re_endOffs e + 1) := ucast b]\<rparr>
     else e\<lparr>re_err := - 1\<rparr>)"

text \<open>\<open>c\<close> has the carry in bit 8. The pending run of \<open>ext\<close> bytes is written byte by byte.\<close>

definition carryOut :: "int \<Rightarrow> RangeEncoder \<Rightarrow> RangeEncoder" where
  "carryOut c e =
     (if of_int c \<noteq> ecSymMax then
        (let carry = drop_bit ecSymBits c;
             e = (if re_rem e \<ge> 0 then writeByte (of_int (re_rem e + carry)) e else e);
             sym = of_int ((255 + carry) AND 255);
             e = (if re_ext e > 0 then (writeByte sym ^^ re_ext e) e\<lparr>re_ext := 0\<rparr> else e)
         in e\<lparr>re_rem := c AND 255\<rparr>)
      else e\<lparr>re_ext := re_ext e + 1\<rparr>)"

definition enc_shift :: "RangeEncoder \<Rightarrow> RangeEncoder" where
  "enc_shift e =
     (let e = carryOut (uint (drop_bit ecCodeShift (re_val e))) e
      in e\<lparr>re_val := push_bit ecSymBits (re_val e) AND (ecCodeTop - 1), re_rng := push_bit ecSymBits (re_rng e),
           re_nbitsTotal := re_nbitsTotal e + int ecSymBits\<rparr>)"

partial_function (option) enc_normalize :: "RangeEncoder \<Rightarrow> RangeEncoder option" where
  "enc_normalize e = (if re_rng e \<le> ecCodeBot then enc_normalize (enc_shift e) else Some e)"

definition Encode :: "u32 \<Rightarrow> u32 \<Rightarrow> u32 \<Rightarrow> RangeEncoder \<Rightarrow> RangeEncoder go" where
  "Encode fl fh ft e =
     (if ft = 0 then Some (e\<lparr>re_err := - 1\<rparr>)
      else
        (let r = re_rng e div ft
         in enc_normalize
              (if fl > 0 then e\<lparr>re_val := re_val e + (re_rng e - r * (ft - fl)), re_rng := r * (fh - fl)\<rparr>
               else e\<lparr>re_rng := re_rng e - r * (ft - fh)\<rparr>)))"

definition enc_BitLogp :: "bool \<Rightarrow> nat \<Rightarrow> RangeEncoder \<Rightarrow> RangeEncoder go" where
  "enc_BitLogp val logp e =
     (let r = re_rng e; s = drop_bit logp r; r2 = r - s
      in enc_normalize (if val then e\<lparr>re_val := re_val e + r2, re_rng := s\<rparr> else e\<lparr>re_rng := r2\<rparr>))"

definition EncodeICDF :: "nat \<Rightarrow> bytes \<Rightarrow> nat \<Rightarrow> RangeEncoder \<Rightarrow> RangeEncoder go" where
  "EncodeICDF s icdf ftb e =
     (let r = drop_bit ftb (re_rng e) in do {
      b \<leftarrow> idx icdf s;
      if s > 0 then do {
        a \<leftarrow> idx icdf (s - 1);
        enc_normalize (e\<lparr>re_val := re_val e + (re_rng e - r * ucast a), re_rng := r * ucast (a - b)\<rparr>) }
      else enc_normalize (e\<lparr>re_rng := re_rng e - r * ucast b\<rparr>) })"

definition EncodeCDF :: "int \<Rightarrow> u16 list \<Rightarrow> RangeEncoder \<Rightarrow> RangeEncoder go" where
  "EncodeCDF s cdf e =
     (if length cdf < 2 \<or> s < 0 \<or> s + 1 \<ge> int (length cdf) then Some (e\<lparr>re_err := - 1\<rparr>)
      else
        (let base = ucast (hd cdf) :: u32 in
         if ucast (last cdf) \<le> base then Some (e\<lparr>re_err := - 1\<rparr>)
         else Encode (ucast (cdf ! nat s) - base) (ucast (cdf ! nat (s + 1)) - base) (ucast (last cdf) - base) e))"

text \<open>The flush loop of \<open>BitsN\<close>, which runs at least once.\<close>

function bits_flush :: "u32 \<Rightarrow> int \<Rightarrow> RangeEncoder \<Rightarrow> u32 \<times> int \<times> RangeEncoder" where
  "bits_flush window used e =
     (let e = writeByteAtEnd (window AND ecSymMax) e;
          window = drop_bit ecSymBits window;
          used = used - int ecSymBits
      in if used < int ecSymBits then (window, used, e) else bits_flush window used e)"
  by pat_completeness auto
termination by (relation "measure (\<lambda>(w, u, e). nat u)") (auto simp: ecSymBits_def)

declare bits_flush.simps [simp del]

definition enc_BitsN :: "u32 \<Rightarrow> nat \<Rightarrow> RangeEncoder \<Rightarrow> RangeEncoder" where
  "enc_BitsN fl n e =
     (let (window, used, e) = (if re_nendBits e + int n > int ecWindowSize then bits_flush (re_endWindow e) (re_nendBits e) e
            else (re_endWindow e, re_nendBits e, e))
      in e\<lparr>re_endWindow := window OR (if used < 0 then 0 else push_bit (nat used) fl), re_nendBits := used + int n, re_nbitsTotal := re_nbitsTotal e + int n\<rparr>)"

definition EncodeUint :: "u32 \<Rightarrow> u32 \<Rightarrow> RangeEncoder \<Rightarrow> RangeEncoder go" where
  "EncodeUint fl ft0 e =
     (let ft = ft0 - 1; ftb = ilog ft in
      if ftb > ecUintBits then do {
        let shift = ftb - ecUintBits;
        e \<leftarrow> Encode (drop_bit shift fl) (drop_bit shift fl + 1) (drop_bit shift ft + 1) e;
        Some (enc_BitsN (fl AND (push_bit shift 1 - 1)) shift e) }
      else Encode fl (fl + 1) (ft + 1) e)"

definition EncodeRawSymbol :: "u32 \<Rightarrow> nat \<Rightarrow> RangeEncoder \<Rightarrow> RangeEncoder go" where
  "EncodeRawSymbol s nbits e = Encode s (s + 1) (push_bit nbits 1) e"

definition Encode64FineSym :: "int \<Rightarrow> RangeEncoder \<Rightarrow> RangeEncoder go" where
  "Encode64FineSym s e = Encode (of_int s) (of_int s + 1) 64 e"

text \<open>The loops of \<open>Done\<close>: the bits that identify the final interval, and the rest of the raw bits.\<close>

function done_range :: "int \<Rightarrow> u32 \<Rightarrow> RangeEncoder \<Rightarrow> RangeEncoder" where
  "done_range l fin e = (if l > 0
     then done_range (l - int ecSymBits) (push_bit ecSymBits fin AND (ecCodeTop - 1)) (carryOut (uint (drop_bit ecCodeShift fin)) e)
     else e)"
  by pat_completeness auto
termination by (relation "measure (\<lambda>(l, _, _). nat l)") (auto simp: ecSymBits_def)

declare done_range.simps [simp del]

function done_bits :: "u32 \<Rightarrow> int \<Rightarrow> RangeEncoder \<Rightarrow> u32 \<times> int \<times> RangeEncoder" where
  "done_bits window used e = (if used \<ge> int ecSymBits
     then done_bits (drop_bit ecSymBits window) (used - int ecSymBits) (writeByteAtEnd (window AND ecSymMax) e)
     else (window, used, e))"
  by pat_completeness auto
termination by (relation "measure (\<lambda>(_, u, _). nat u)") (auto simp: ecSymBits_def)

declare done_bits.simps [simp del]

definition done_end :: "RangeEncoder \<Rightarrow> int \<times> u32" where
  "done_end e =
     (let l = int ecCodeBits - int (ilog (re_rng e));
          msk = drop_bit (nat l) (ecCodeTop - 1);
          fin = (re_val e + msk) AND NOT msk
      in if (fin OR msk) \<ge> re_val e + re_rng e
         then (let msk = drop_bit 1 msk in (l + 1, (re_val e + msk) AND NOT msk))
         else (l, fin))"

definition Done :: "RangeEncoder \<Rightarrow> RangeEncoder" where
  "Done e =
     (let (l, fin) = done_end e;
          e = done_range l fin e;
          e = (if re_rem e \<ge> 0 \<or> re_ext e > 0 then carryOut 0 e else e);
          (window, used, e) = done_bits (re_endWindow e) (re_nendBits e) e
      in if re_err e = 0 then
           (let e = e\<lparr>re_buf := take (re_offs e) (re_buf e) @ replicate (re_storage e - re_endOffs e - re_offs e) 0 @
                 drop (re_storage e - re_endOffs e) (re_buf e)\<rparr>
            in if used > 0 then
                 if re_endOffs e \<ge> re_storage e - re_offs e then e\<lparr>re_err := - 1\<rparr>
                 else (let i = re_storage e - re_endOffs e - 1
                       in e\<lparr>re_buf := (re_buf e)[i := re_buf e ! i OR ucast window]\<rparr>)
               else e)
         else e)"

definition Bytes :: "RangeEncoder \<Rightarrow> bytes" where
  "Bytes e = re_buf e"

definition ConsumedLen :: "RangeEncoder \<Rightarrow> nat" where
  "ConsumedLen e = re_offs e + re_endOffs e"

end
