(* ===== verification/Range_Roundtrip.thy ===== *)
theory Range_Roundtrip
  imports Range_Coder
begin

unbundle bit_operations_syntax

text \<open>
  Correctness of the range coder of \<open>Range_Coder\<close>.
\<close>

section \<open>The machine words as numbers\<close>

lemma ec_consts [simp]:
  "ecSymBits = 8" "ecCodeBits = 32" "ecSymMax = 255" "ecCodeTop = 2147483648" "ecCodeBot = 8388608"
  "ecCodeExtra = 7" "ecWindowSize = 32" "ecUintBits = 8" "ecCodeShift = 23"
  by (simp_all add: ecSymBits_def ecCodeBits_def ecSymMax_def ecCodeTop_def ecCodeBot_def ecCodeExtra_def
      ecWindowSize_def ecUintBits_def ecCodeShift_def)

lemma unat_and_top: "unat (w AND 2147483647 :: u32) = unat w mod 2147483648"
proof -
  have "w AND 2147483647 = take_bit 31 w"
    by (simp add: take_bit_eq_mask mask_eq_exp_minus_1)
  then have "unat (w AND 2147483647) = take_bit 31 (unat w)"
    by (simp only: unsigned_take_bit_eq)
  then show ?thesis
    by (simp add: take_bit_eq_mod)
qed

lemma unat_push8: "unat (push_bit 8 w :: u32) = 256 * unat w mod 4294967296"
  by (simp add: push_bit_eq_mult unat_word_ariths mult.commute)

lemma unat_push8_small: "unat w \<le> 8388608 \<Longrightarrow> unat (push_bit 8 w :: u32) = 256 * unat w"
  by (simp add: unat_push8)

lemma enc_val_shift: "unat (push_bit 8 w AND 2147483647 :: u32) = unat w mod 8388608 * 256"
  unfolding unat_and_top unat_push8 by (simp add: mod_mod_cancel mult.commute mult_mod_right)

lemma not_mod_256: "NOT s mod 256 = 255 - s mod 256" for s :: int
proof -
  have "NOT s = 255 - r + 256 * (- q - 1)" if "s = 256 * q + r" for q r
    using that by (simp add: not_eq_complement)
  then have "NOT s mod 256 = (255 - s mod 256) mod 256"
    by (metis mod_mult_self2 mult_div_mod_eq)
  then show ?thesis
    by (simp add: mod_pos_pos_trivial)
qed

lemma unat_not_sym: "unat (255 AND NOT (of_int s :: u32)) = 255 - nat (s mod 256)"
proof -
  have "255 AND NOT (of_int s :: u32) = take_bit 8 (NOT (of_int s))"
    by (simp add: take_bit_eq_mask mask_eq_exp_minus_1 and.commute)
  also have "\<dots> = of_int (take_bit 8 (NOT s))"
    by (metis of_int_not_eq of_int_take_bit)
  also have "take_bit 8 (NOT s) = 255 - s mod 256"
    by (simp add: take_bit_eq_mod not_mod_256)
  finally have *: "255 AND NOT (of_int s :: u32) = of_int (255 - s mod 256)" .
  have "0 \<le> s mod 256" "s mod 256 < 256"
    by simp_all
  then have "unat (of_int (255 - s mod 256) :: u32) = nat (255 - s mod 256)"
    by (simp only: unat_eq_nat_uint uint_word_of_int_eq take_bit_eq_mod) (simp add: mod_pos_pos_trivial)
  with * \<open>0 \<le> s mod 256\<close> show ?thesis
    by (simp add: nat_diff_distrib)
qed

lemma unat_add_small: "unat a + unat b < 4294967296 \<Longrightarrow> unat (a + b :: u32) = unat a + unat b"
  by (simp add: unat_word_ariths)

lemma unat_sub_small: "unat b \<le> unat a \<Longrightarrow> unat (a - b :: u32) = unat a - unat b"
  by (simp add: unat_sub word_le_nat_alt)

lemma unat_mult_small: "unat a * unat b < 4294967296 \<Longrightarrow> unat (a * b :: u32) = unat a * unat b"
  by (simp add: unat_word_ariths)

lemma unat_drop_bit: "unat (drop_bit n w :: u32) = unat w div 2 ^ n"
  using unat_drop_bit_eq [of n w] by (simp only: drop_bit_eq_div [where 'a = nat])

lemmas word_num = unat_add_small unat_sub_small unat_mult_small unat_drop_bit unat_div_distrib
  word_less_nat_alt word_le_nat_alt

section \<open>The digits of the encoder\<close>

text \<open>
  The bytes written, the pending byte \<open>rem\<close> and the run of \<open>ext\<close> bytes 255 are the digits of a number to
  base 256, whose last digits a carry may still change.
\<close>

definition be_val :: "nat list \<Rightarrow> nat" where
  "be_val ds = foldl (\<lambda>a d. 256 * a + d) 0 ds"

lemma be_val_Nil [simp]: "be_val [] = 0"
  and be_val_snoc [simp]: "be_val (ds @ [d]) = 256 * be_val ds + d"
  by (simp_all add: be_val_def)

lemma be_val_append: "be_val (xs @ ys) = be_val xs * 256 ^ length ys + be_val ys"
proof (induction ys rule: rev_induct)
  case (snoc y ys)
  then show ?case
    using be_val_snoc [of "xs @ ys" y] by (simp add: algebra_simps)
qed simp

lemma be_val_Cons: "be_val (x # ys) = x * 256 ^ length ys + be_val ys"
  using be_val_append [of "[x]" ys] by (simp add: be_val_def)

lemma be_val_255: "be_val (replicate n 255) + 1 = 256 ^ n"
  by (induction n) (simp_all add: be_val_Cons)

lemma be_val_0 [simp]: "be_val (replicate n 0) = 0"
  by (induction n) (simp_all add: be_val_Cons)

lemma be_val_carry: "be_val (xs @ Suc x # replicate n 0) = be_val (xs @ x # replicate n 255) + 1"
  using be_val_255 [of n] by (simp add: be_val_append be_val_Cons)

definition enc_front :: "RangeEncoder \<Rightarrow> nat list" where
  "enc_front e = map unat (take (re_offs e) (re_buf e))"

definition enc_back :: "RangeEncoder \<Rightarrow> bytes" where
  "enc_back e = drop (re_storage e - re_endOffs e) (re_buf e)"

definition enc_digits :: "RangeEncoder \<Rightarrow> nat list" where
  "enc_digits e = enc_front e @ (if re_rem e \<ge> 0 then [nat (re_rem e)] else []) @ replicate (re_ext e) 255"

definition enc_wf :: "RangeEncoder \<Rightarrow> bool" where
  "enc_wf e \<longleftrightarrow> length (re_buf e) = re_storage e \<and> re_offs e + re_endOffs e \<le> re_storage e \<and> - 1 \<le> re_rem e \<and> re_rem e \<le> 255"

text \<open>What writing at the front leaves alone.\<close>

definition enc_same :: "RangeEncoder \<Rightarrow> RangeEncoder \<Rightarrow> bool" where
  "enc_same e e' \<longleftrightarrow> re_storage e' = re_storage e \<and> re_endOffs e' = re_endOffs e \<and> re_endWindow e' = re_endWindow e \<and>
     re_nendBits e' = re_nendBits e \<and> re_nbitsTotal e' = re_nbitsTotal e \<and> re_rng e' = re_rng e \<and> re_val e' = re_val e \<and>
     enc_back e' = enc_back e"

lemma enc_same_refl: "enc_same e e"
  and enc_same_trans: "enc_same e e' \<Longrightarrow> enc_same e' e'' \<Longrightarrow> enc_same e e''"
  by (simp_all add: enc_same_def)

lemma writeByte_err: "re_err (writeByte b e) = 0 \<Longrightarrow> re_err e = 0 \<and> re_offs e + re_endOffs e < re_storage e"
  by (simp add: writeByte_def split: if_split_asm)

lemma writeByte_front:
  assumes "enc_wf e" and "re_err (writeByte b e) = 0"
  shows "enc_front (writeByte b e) = enc_front e @ [unat b mod 256]" and "enc_wf (writeByte b e)"
    and "enc_same e (writeByte b e)" and "re_rem (writeByte b e) = re_rem e" and "re_ext (writeByte b e) = re_ext e"
proof -
  have lt: "re_offs e + re_endOffs e < re_storage e" and len: "length (re_buf e) = re_storage e"
    using assms writeByte_err by (auto simp: enc_wf_def)
  have e': "writeByte b e = e\<lparr>re_buf := (re_buf e)[re_offs e := ucast b], re_offs := re_offs e + 1\<rparr>"
    using lt by (simp add: writeByte_def)
  show "enc_front (writeByte b e) = enc_front e @ [unat b mod 256]"
    unfolding e' using lt len
    by (simp add: enc_front_def take_Suc_conv_app_nth unsigned_ucast_eq take_bit_eq_mod)
  show "enc_wf (writeByte b e)" "re_rem (writeByte b e) = re_rem e" "re_ext (writeByte b e) = re_ext e"
    unfolding e' using lt assms(1) by (simp_all add: enc_wf_def)
  show "enc_same e (writeByte b e)"
    unfolding e' using lt by (simp add: enc_same_def enc_back_def)
qed

lemma writeBytes_err: "re_err ((writeByte b ^^ n) e) = 0 \<Longrightarrow> re_err e = 0"
  by (induction n) (auto dest: writeByte_err)

lemma writeBytes_front:
  assumes "enc_wf e" and "re_err ((writeByte b ^^ n) e) = 0"
  shows "enc_front ((writeByte b ^^ n) e) = enc_front e @ replicate n (unat b mod 256) \<and> enc_wf ((writeByte b ^^ n) e) \<and>
    enc_same e ((writeByte b ^^ n) e) \<and> re_rem ((writeByte b ^^ n) e) = re_rem e \<and> re_ext ((writeByte b ^^ n) e) = re_ext e"
  using assms(2)
proof (induction n)
  case 0
  show ?case using assms(1) by (simp add: enc_same_refl)
next
  case (Suc n)
  let ?e = "(writeByte b ^^ n) e"
  have er: "re_err (writeByte b ?e) = 0"
    using Suc.prems by simp
  note ih = Suc.IH [OF conjunct1 [OF writeByte_err [OF er]]]
  note w = writeByte_front [OF conjunct1 [OF conjunct2 [OF ih]] er]
  show ?case
    using ih w by (auto simp: replicate_append_same intro: enc_same_trans)
qed

lemma uint_of_int_small: "0 \<le> c \<Longrightarrow> c < 4294967296 \<Longrightarrow> uint (of_int c :: u32) = c"
  by (simp add: uint_word_of_int_eq take_bit_int_eq_self)

lemma unat_of_int_small: "0 \<le> c \<Longrightarrow> c < 4294967296 \<Longrightarrow> unat (of_int c :: u32) = nat c"
  by (simp add: unat_eq_nat_uint uint_of_int_small)

lemma of_int_255: "0 \<le> c \<Longrightarrow> c < 512 \<Longrightarrow> (of_int c = (255 :: u32)) = (c = 255)"
  using uint_of_int_small [of c] by auto

lemma and_255_int: "c AND 255 = c mod 256" for c :: int
  using take_bit_eq_mask [of 8 c] by (simp add: take_bit_eq_mod mask_eq_exp_minus_1)

text \<open>\<open>carryOut\<close> appends a digit \<open>c\<close>, its carry included: the number becomes \<open>256 D + c\<close>.\<close>

lemma carryOut_255:
  assumes "enc_wf e"
  shows "be_val (enc_digits (carryOut 255 e)) = 256 * be_val (enc_digits e) + 255"
    and "length (enc_digits (carryOut 255 e)) = Suc (length (enc_digits e))"
    and "enc_wf (carryOut 255 e)" and "enc_same e (carryOut 255 e)" and "re_rem (carryOut 255 e) = re_rem e"
    and "re_err (carryOut 255 e) = re_err e"
proof -
  have e': "carryOut 255 e = e\<lparr>re_ext := re_ext e + 1\<rparr>"
    by (simp add: carryOut_def)
  have d: "enc_digits (carryOut 255 e) = enc_digits e @ [255]"
    by (simp add: e' enc_digits_def enc_front_def replicate_append_same)
  show "be_val (enc_digits (carryOut 255 e)) = 256 * be_val (enc_digits e) + 255"
    "length (enc_digits (carryOut 255 e)) = Suc (length (enc_digits e))"
    by (simp_all add: d)
  show "enc_wf (carryOut 255 e)" "enc_same e (carryOut 255 e)" "re_rem (carryOut 255 e) = re_rem e" "re_err (carryOut 255 e) = re_err e"
    using assms by (simp_all add: e' enc_wf_def enc_same_def enc_back_def)
qed

definition put_rem :: "int \<Rightarrow> RangeEncoder \<Rightarrow> RangeEncoder" where
  "put_rem k e = (if re_rem e \<ge> 0 then writeByte (of_int (re_rem e + k)) e else e)"

definition put_ext :: "int \<Rightarrow> RangeEncoder \<Rightarrow> RangeEncoder" where
  "put_ext k e = (if re_ext e > 0 then (writeByte (of_int ((255 + k) AND 255)) ^^ re_ext e) e\<lparr>re_ext := 0\<rparr> else e)"

lemma carryOut_split:
  "0 \<le> c \<Longrightarrow> c < 512 \<Longrightarrow> c \<noteq> 255 \<Longrightarrow> carryOut c e = (put_ext (c div 256) (put_rem (c div 256) e))\<lparr>re_rem := c mod 256\<rparr>"
  by (simp add: carryOut_def of_int_255 put_rem_def put_ext_def Let_def drop_bit_eq_div and_255_int cong: if_cong)

lemma put_rem_facts:
  assumes "enc_wf e" and "re_err (put_rem k e) = 0" and "0 \<le> k" and "re_rem e < 0 \<or> re_rem e + k \<le> 255"
  shows "enc_front (put_rem k e) = enc_front e @ (if re_rem e \<ge> 0 then [nat (re_rem e + k)] else [])"
    and "enc_wf (put_rem k e)" and "enc_same e (put_rem k e)" and "re_ext (put_rem k e) = re_ext e" and "re_err e = 0"
  using assms writeByte_front [of e "of_int (re_rem e + k)"] writeByte_err [of "of_int (re_rem e + k)" e]
  by (auto simp: put_rem_def enc_same_refl unat_of_int_small simp del: of_int_add split: if_split_asm)

lemma enc_same_ext: "enc_same e e' \<Longrightarrow> enc_same e (e'\<lparr>re_ext := x\<rparr>)"
  and enc_same_rem: "enc_same e e' \<Longrightarrow> enc_same e (e'\<lparr>re_rem := y\<rparr>)"
  by (auto simp: enc_same_def enc_back_def)

lemma enc_front_upd [simp]: "enc_front (e\<lparr>re_ext := x\<rparr>) = enc_front e" "enc_front (e\<lparr>re_rem := y\<rparr>) = enc_front e"
  and enc_wf_ext [simp]: "enc_wf (e\<lparr>re_ext := x\<rparr>) = enc_wf e"
  by (simp_all add: enc_front_def enc_wf_def)

lemma put_ext_facts:
  assumes "enc_wf e" and "re_err (put_ext k e) = 0" and "k = 0 \<or> k = 1"
  shows "enc_front (put_ext k e) = enc_front e @ replicate (re_ext e) (if k = 0 then 255 else 0)"
    and "enc_wf (put_ext k e)" and "enc_same e (put_ext k e)" and "re_ext (put_ext k e) = 0" and "re_err e = 0"
proof -
  define b :: u32 where "b = of_int ((255 + k) AND 255)"
  have b: "unat b mod 256 = (if k = 0 then 255 else 0)"
    using assms(3) by (auto simp: b_def and_255_int)
  have pe: "put_ext k e = (if re_ext e > 0 then ((writeByte b ^^ re_ext e) e)\<lparr>re_ext := 0\<rparr> else e)"
    by (simp only: put_ext_def b_def)
  have er: "re_err ((writeByte b ^^ re_ext e) e) = 0"
    using assms(2) by (auto simp: pe split: if_split_asm)
  note w = writeBytes_front [OF assms(1) er, unfolded b]
  show "enc_front (put_ext k e) = enc_front e @ replicate (re_ext e) (if k = 0 then 255 else 0)"
    using w by (simp add: pe)
  show "enc_wf (put_ext k e)" "re_ext (put_ext k e) = 0" "enc_same e (put_ext k e)" "re_err e = 0"
    using w assms(1) writeBytes_err [OF er] by (auto simp: pe enc_same_ext enc_same_refl)
qed

lemma carryOut_not_255:
  assumes "enc_wf e" and c: "0 \<le> c" "c < 512" "c \<noteq> 255" and J: "re_rem e = - 1 \<or> re_rem e = 255 \<Longrightarrow> c < 256"
    and "re_err (carryOut c e) = 0"
  shows "be_val (enc_digits (carryOut c e)) = 256 * be_val (enc_digits e) + nat c"
    and "length (enc_digits (carryOut c e)) = Suc (length (enc_digits e))"
    and "enc_wf (carryOut c e)" and "enc_same e (carryOut c e)" and "re_rem (carryOut c e) = c mod 256" and "re_err e = 0"
proof -
  define k where "k = c div 256"
  define e1 where "e1 = put_rem k e"
  define e2 where "e2 = put_ext k e1"
  have k: "k = 0 \<and> c < 256 \<or> k = 1 \<and> 256 \<le> c"
    using c by (auto simp: k_def)
  have e': "carryOut c e = e2\<lparr>re_rem := c mod 256\<rparr>"
    using c by (simp add: carryOut_split e2_def e1_def k_def)
  have er2: "re_err e2 = 0"
    using assms(6) by (simp add: e')
  have rem: "- 1 \<le> re_rem e" "re_rem e \<le> 255"
    using assms(1) by (simp_all add: enc_wf_def)
  have "re_rem e \<noteq> - 1 \<and> re_rem e \<noteq> 255" if "k = 1"
    using that J k by auto
  then have nocarry: "re_rem e < 0 \<or> re_rem e + k \<le> 255" and k1: "k = 1 \<Longrightarrow> 0 \<le> re_rem e"
    using rem k by linarith+
  have "0 \<le> k" "k = 0 \<or> k = 1"
    using k by auto
  have er1: "re_err e1 = 0"
    using er2 \<open>0 \<le> k\<close> unfolding e2_def put_ext_def by (auto split: if_split_asm dest: writeBytes_err)
  note p1 = put_rem_facts [OF assms(1) er1 [unfolded e1_def] \<open>0 \<le> k\<close> nocarry, folded e1_def]
  note p2 = put_ext_facts [OF p1(2) er2 [unfolded e2_def] \<open>k = 0 \<or> k = 1\<close>, folded e2_def]
  have d: "enc_digits (carryOut c e) = enc_front e2 @ [nat (c mod 256)]"
    by (simp add: e' enc_digits_def p2(4))
  have fr: "enc_front e2 = enc_front e @ (if re_rem e \<ge> 0 then [nat (re_rem e + k)] else []) @
      replicate (re_ext e) (if k = 0 then 255 else 0)"
    by (simp only: p2(1) p1(1) p1(4) append_assoc)
  show "length (enc_digits (carryOut c e)) = Suc (length (enc_digits e))"
    unfolding d fr by (simp add: enc_digits_def)
  show "be_val (enc_digits (carryOut c e)) = 256 * be_val (enc_digits e) + nat c"
  proof (cases "k = 0")
    case True
    then have "enc_front e2 = enc_digits e" "c mod 256 = c"
      using k c by (simp_all add: fr enc_digits_def)
    then show ?thesis
      by (simp add: d)
  next
    case False
    then have k': "k = 1" "256 \<le> c" "0 \<le> re_rem e"
      using k k1 by auto
    have "enc_front e2 = enc_front e @ Suc (nat (re_rem e)) # replicate (re_ext e) 0"
      using k' by (simp add: fr nat_add_distrib)
    moreover have "enc_digits e = enc_front e @ nat (re_rem e) # replicate (re_ext e) 255"
      using k' by (simp add: enc_digits_def)
    ultimately have "be_val (enc_front e2) = be_val (enc_digits e) + 1"
      by (simp only: be_val_carry)
    moreover have "nat (c mod 256) = nat c - 256"
      using k' c mod_pos_pos_trivial [of "c - 256" 256] minus_mod_self2 [of c 256] by (simp add: nat_diff_distrib)
    ultimately show ?thesis
      using k' by (simp add: d)
  qed
  have "- 1 \<le> c mod 256" "c mod 256 \<le> 255"
    using pos_mod_bound [of 256 c] pos_mod_sign [of 256 c] by linarith+
  then show "enc_wf (carryOut c e)" "re_rem (carryOut c e) = c mod 256"
    using p2(2) by (simp_all add: e' enc_wf_def)
  show "enc_same e (carryOut c e)"
    unfolding e' by (rule enc_same_rem [OF enc_same_trans [OF p1(3) p2(3)]])
  show "re_err e = 0"
    by (rule p1(5))
qed

lemma carryOut_digits:
  assumes "enc_wf e" and "0 \<le> c" "c < 512" and "re_rem e = - 1 \<or> re_rem e = 255 \<Longrightarrow> c < 256" and "re_err (carryOut c e) = 0"
  shows "be_val (enc_digits (carryOut c e)) = 256 * be_val (enc_digits e) + nat c \<and>
    length (enc_digits (carryOut c e)) = Suc (length (enc_digits e)) \<and> enc_wf (carryOut c e) \<and> enc_same e (carryOut c e) \<and>
    re_err e = 0 \<and> (re_rem (carryOut c e) = - 1 \<or> re_rem (carryOut c e) = 255 \<longrightarrow>
      c = 511 \<or> c = 255 \<and> (re_rem e = - 1 \<or> re_rem e = 255))"
proof (cases "c = 255")
  case True
  then show ?thesis
    using carryOut_255 [OF assms(1)] assms(5) by simp
next
  case False
  have "c mod 256 = 255 \<longrightarrow> c = 511" "0 \<le> c mod 256"
    using False assms(2,3) by presburger+
  then show ?thesis
    using carryOut_not_255 [OF assms(1-3) False assms(4,5)] by auto
qed

section \<open>The interval of the encoder\<close>

text \<open>
  The state denotes the interval \<open>[A, A + R)\<close> of numbers with \<open>8 n + 31\<close> bits, \<open>n\<close> the number of digits:
  \<open>A = D * 2 ^ 31 + val\<close> and \<open>R = rng\<close>. A pending byte that could not take a carry (there is none, or it is
  255) is not asked to: then \<open>val + rng\<close> stays within 31 bits.
\<close>

definition enc_len :: "RangeEncoder \<Rightarrow> nat" where
  "enc_len e = length (enc_digits e)"

definition enc_low :: "RangeEncoder \<Rightarrow> nat" where
  "enc_low e = be_val (enc_digits e) * 2147483648 + unat (re_val e)"

definition enc_loose :: "RangeEncoder \<Rightarrow> bool" where
  "enc_loose e \<longleftrightarrow> enc_wf e \<and> 0 < unat (re_rng e) \<and> unat (re_rng e) \<le> 2147483648 \<and>
     unat (re_val e) + unat (re_rng e) < 4294967296 \<and>
     (re_rem e = - 1 \<or> re_rem e = 255 \<longrightarrow> unat (re_val e) + unat (re_rng e) \<le> 2147483648)"

definition enc_inv :: "RangeEncoder \<Rightarrow> bool" where
  "enc_inv e \<longleftrightarrow> enc_loose e \<and> 8388608 < unat (re_rng e)"

lemma no_carry_bound:
  assumes "v div 8388608 = 511 \<and> v + r < 4294967296 \<or> v div 8388608 = 255 \<and> v + r \<le> 2147483648"
  shows "v mod 8388608 * 256 + r * 256 \<le> (2147483648 :: nat)"
proof -
  obtain q s where "v div 8388608 = q" "v mod 8388608 = s" "v = 8388608 * q + s"
    by (metis mult_div_mod_eq)
  then show ?thesis
    using assms by auto
qed

lemma digit_step: "(256 * D + v div 8388608) * 2147483648 + v mod 8388608 * 256 = 256 * (D * 2147483648 + v :: nat)"
proof -
  obtain q s where "v div 8388608 = q" "v mod 8388608 = s" "v = 8388608 * q + s"
    by (metis mult_div_mod_eq)
  then show ?thesis
    by simp
qed

text \<open>One byte out, for any interval \<open>[v, v + r)\<close> inside the coder's one.\<close>

lemma carryOut_interval:
  fixes v :: u32
  assumes "enc_wf e" and v: "unat v + r < 4294967296" "0 < r" and J: "re_rem e = - 1 \<or> re_rem e = 255 \<longrightarrow> unat v + r \<le> 2147483648"
    and "re_err (carryOut (uint (drop_bit 23 v)) e) = 0"
  defines "e' \<equiv> carryOut (uint (drop_bit 23 v)) e"
  shows "be_val (enc_digits e') * 2147483648 + unat v mod 8388608 * 256 = 256 * (be_val (enc_digits e) * 2147483648 + unat v) \<and>
    length (enc_digits e') = Suc (length (enc_digits e)) \<and> enc_wf e' \<and> enc_same e e' \<and> re_err e = 0 \<and>
    (re_rem e' = - 1 \<or> re_rem e' = 255 \<longrightarrow> unat v mod 8388608 * 256 + r * 256 \<le> 2147483648)"
proof -
  define c where "c = uint (drop_bit 23 v)"
  have "nat c = unat (drop_bit 23 v)"
    by (simp add: c_def)
  then have c: "nat c = unat v div 8388608"
    using unat_drop_bit [of 23 v] by simp
  have "nat c < 512"
    using v by (simp add: c div_less_iff_less_mult)
  moreover have "0 \<le> c"
    by (simp add: c_def)
  ultimately have bounds: "0 \<le> c" "c < 512"
    by linarith+
  have "nat c < 256" if "re_rem e = - 1 \<or> re_rem e = 255"
    using J that v by (auto simp: c div_less_iff_less_mult)
  then have "re_rem e = - 1 \<or> re_rem e = 255 \<Longrightarrow> c < 256"
    by linarith
  note d = carryOut_digits [OF assms(1) bounds this assms(5) [folded c_def]]
  have "unat v div 8388608 = 511 \<and> unat v + r < 4294967296 \<or> unat v div 8388608 = 255 \<and> unat v + r \<le> 2147483648"
    if "re_rem e' = - 1 \<or> re_rem e' = 255"
    using d that J c v unfolding e'_def c_def [symmetric] by auto
  then show ?thesis
    using d no_carry_bound [of "unat v" r] digit_step [of "be_val (enc_digits e)" "unat v"]
    unfolding e'_def c_def [symmetric] c by auto
qed

text \<open>The raw-bit side of the encoder.\<close>

definition enc_raw :: "RangeEncoder \<Rightarrow> nat \<times> nat \<times> u32 \<times> int \<times> bytes" where
  "enc_raw e = (re_storage e, re_endOffs e, re_endWindow e, re_nendBits e, enc_back e)"

definition enc_step :: "RangeEncoder \<Rightarrow> nat \<Rightarrow> RangeEncoder \<Rightarrow> bool" where
  "enc_step e k e' \<longleftrightarrow> re_err e = 0 \<and> enc_loose e' \<and> enc_raw e' = enc_raw e \<and> enc_len e' = enc_len e + k \<and>
     enc_low e' = 256 ^ k * enc_low e \<and> unat (re_rng e') = 256 ^ k * unat (re_rng e)"

lemma enc_step_trans: "enc_step e j e' \<Longrightarrow> enc_step e' k e'' \<Longrightarrow> enc_step e (j + k) e''"
  by (simp add: enc_step_def power_add)

lemma enc_shift_step:
  assumes "enc_loose e" and "unat (re_rng e) \<le> 8388608" and "re_err (enc_shift e) = 0"
  shows "enc_step e 1 (enc_shift e)"
proof -
  define e1 where "e1 = carryOut (uint (drop_bit 23 (re_val e))) e"
  have e': "enc_shift e = e1\<lparr>re_val := push_bit 8 (re_val e1) AND 2147483647, re_rng := push_bit 8 (re_rng e1),
      re_nbitsTotal := re_nbitsTotal e1 + 8\<rparr>"
    by (simp add: enc_shift_def e1_def Let_def)
  have l: "enc_wf e" "unat (re_val e) + unat (re_rng e) < 4294967296" "0 < unat (re_rng e)"
    "re_rem e = - 1 \<or> re_rem e = 255 \<longrightarrow> unat (re_val e) + unat (re_rng e) \<le> 2147483648"
    using assms(1) by (simp_all add: enc_loose_def)
  have er: "re_err e1 = 0"
    using assms(3) by (simp add: e')
  note c = carryOut_interval [OF l er [unfolded e1_def], folded e1_def]
  have same: "re_val e1 = re_val e" "re_rng e1 = re_rng e"
    using c by (simp_all add: enc_same_def)
  have d: "enc_digits (enc_shift e) = enc_digits e1" "enc_raw (enc_shift e) = enc_raw e1" "enc_wf (enc_shift e) = enc_wf e1"
    "re_rem (enc_shift e) = re_rem e1"
    by (simp_all add: e' enc_digits_def enc_front_def enc_raw_def enc_back_def enc_wf_def)
  have v: "unat (re_val (enc_shift e)) = unat (re_val e) mod 8388608 * 256" "unat (re_rng (enc_shift e)) = 256 * unat (re_rng e)"
    using assms(2) by (simp_all add: e' enc_val_shift unat_push8_small same)
  have "unat (re_val e) mod 8388608 < 8388608"
    by simp
  then have "enc_loose (enc_shift e)"
    using c l assms(2) unfolding enc_loose_def v d by auto
  moreover have "enc_raw e1 = enc_raw e"
    using c by (auto simp: enc_same_def enc_raw_def)
  ultimately show ?thesis
    using c unfolding enc_step_def enc_low_def enc_len_def d v by simp
qed

lemma enc_shift_rng: "unat (re_rng e) \<le> 8388608 \<Longrightarrow> unat (re_rng (enc_shift e)) = 256 * unat (re_rng e)"
proof -
  have "re_rng (writeByte b e) = re_rng e" for b e
    by (simp add: writeByte_def)
  then have "re_rng ((writeByte b ^^ n) e) = re_rng e" for b n e
    by (induction n) simp_all
  then have "re_rng (carryOut c e) = re_rng e" for c
    by (simp add: carryOut_def Let_def writeByte_def)
  then show "unat (re_rng e) \<le> 8388608 \<Longrightarrow> ?thesis"
    by (simp add: enc_shift_def Let_def unat_push8_small)
qed

lemma carryOut_err: "re_err (carryOut c e) = 0 \<Longrightarrow> re_err e = 0"
  by (auto simp: carryOut_def Let_def split: if_split_asm dest!: writeBytes_err writeByte_err)

lemma enc_shift_err: "re_err (enc_shift e) = 0 \<Longrightarrow> re_err e = 0"
  by (auto simp: enc_shift_def Let_def dest: carryOut_err)

text \<open>Writing at the front reports an error only when it has filled the buffer.\<close>

definition fills :: "RangeEncoder \<Rightarrow> RangeEncoder \<Rightarrow> bool" where
  "fills e e' \<longleftrightarrow> re_storage e' = re_storage e \<and> re_endOffs e' = re_endOffs e \<and> re_endWindow e' = re_endWindow e \<and> re_nendBits e' = re_nendBits e \<and>
     re_offs e \<le> re_offs e' \<and> (re_err e' \<noteq> 0 \<longrightarrow> re_err e \<noteq> 0 \<or> re_storage e' \<le> re_offs e' + re_endOffs e')"

lemma fills_refl: "fills e e"
  by (simp add: fills_def)

lemma fills_trans: "fills a b \<Longrightarrow> fills b c \<Longrightarrow> fills a c"
  by (auto simp: fills_def)

lemma fills_writeByte: "fills e (writeByte b e)"
  by (simp add: fills_def writeByte_def)

lemma fills_writeBytes: "fills e ((writeByte b ^^ n) e)"
  by (induction n) (auto simp: fills_refl intro: fills_trans [OF _ fills_writeByte])

lemma fills_state: "fills e e' \<Longrightarrow> fills e (e'\<lparr>re_rem := r\<rparr>)" "fills e e' \<Longrightarrow> fills e (e'\<lparr>re_ext := x\<rparr>)"
  "fills e e' \<Longrightarrow> fills e (e'\<lparr>re_val := v, re_rng := w, re_nbitsTotal := t\<rparr>)"
  by (auto simp: fills_def)

lemma fills_carryOut: "fills e (carryOut c e)"
  unfolding carryOut_def Let_def
  by (auto intro!: fills_state fills_refl fills_writeByte fills_writeBytes intro: fills_trans [OF fills_writeByte fills_writeBytes])

lemma fills_enc_shift: "fills e (enc_shift e)"
  unfolding enc_shift_def Let_def by (intro fills_state fills_carryOut)

text \<open>The normalisation loop ends for every range but zero, and multiplies the interval by a power of 256.\<close>

definition rng_ok :: "RangeEncoder \<Rightarrow> bool" where
  "rng_ok e \<longleftrightarrow> 8388608 < unat (re_rng e) \<and> unat (re_rng e) \<le> 2147483648"

lemma enc_inv_rng_ok: "enc_inv e \<Longrightarrow> rng_ok e"
  by (simp add: enc_inv_def enc_loose_def rng_ok_def)

lemma enc_normalize_step:
  assumes "0 < unat (re_rng e)" "unat (re_rng e) \<le> 2147483648"
  shows "\<exists>e'. enc_normalize e = Some e' \<and> rng_ok e' \<and> fills e e' \<and> (re_err e' = 0 \<longrightarrow> re_err e = 0) \<and>
    (re_err e' = 0 \<and> enc_loose e \<longrightarrow> (\<exists>k. enc_step e k e'))"
  using assms
proof (induction "4294967296 - unat (re_rng e)" arbitrary: e rule: less_induct)
  case less
  show ?case
  proof (cases "unat (re_rng e) \<le> 8388608")
    case False
    then have "enc_normalize e = Some e"
      by (subst enc_normalize.simps) (simp add: word_le_nat_alt)
    moreover have "enc_step e 0 e" if "re_err e = 0" "enc_loose e"
      using that by (simp add: enc_step_def)
    ultimately show ?thesis
      using False less.prems by (auto simp: rng_ok_def fills_refl)
  next
    case True
    have rng: "unat (re_rng (enc_shift e)) = 256 * unat (re_rng e)"
      by (rule enc_shift_rng [OF True])
    have "4294967296 - unat (re_rng (enc_shift e)) < 4294967296 - unat (re_rng e)" "0 < unat (re_rng (enc_shift e))"
      "unat (re_rng (enc_shift e)) \<le> 2147483648"
      using less.prems True unfolding rng by linarith+
    then obtain e' where e': "enc_normalize (enc_shift e) = Some e'" "re_err e' = 0 \<longrightarrow> re_err (enc_shift e) = 0" "rng_ok e'" "fills (enc_shift e) e'"
      "re_err e' = 0 \<and> enc_loose (enc_shift e) \<longrightarrow> (\<exists>k. enc_step (enc_shift e) k e')"
      using less.hyps [of "enc_shift e"] by blast
    have unf: "enc_normalize e = enc_normalize (enc_shift e)"
      using True by (subst enc_normalize.simps) (simp add: word_le_nat_alt)
    have "\<exists>k. enc_step e k e'" if "re_err e' = 0" "enc_loose e"
    proof -
      have st: "enc_step e 1 (enc_shift e)"
        using enc_shift_step [OF that(2) True] e'(2) that(1) by blast
      then show ?thesis
        using e'(5) that(1) enc_step_trans [OF st] unfolding enc_step_def [of e 1] by blast
    qed
    then show ?thesis
      using e' enc_shift_err fills_trans [OF fills_enc_shift] unfolding unf by blast
  qed
qed

text \<open>Every symbol narrows the interval to a part \<open>[A + u, A + u + r)\<close> of it.\<close>

definition enc_narrow :: "RangeEncoder \<Rightarrow> nat \<Rightarrow> nat \<Rightarrow> RangeEncoder \<Rightarrow> bool" where
  "enc_narrow e u r e' \<longleftrightarrow> re_err e = 0 \<and> enc_inv e' \<and> enc_raw e' = enc_raw e \<and>
     (\<exists>k. enc_len e' = enc_len e + k \<and> enc_low e' = 256 ^ k * (enc_low e + u) \<and> unat (re_rng e') = 256 ^ k * r)"

text \<open>The same on states the error flag is up on, where only the range is known to be in bounds.\<close>

definition enc_goes :: "RangeEncoder \<Rightarrow> nat \<Rightarrow> nat \<Rightarrow> RangeEncoder \<Rightarrow> bool" where
  "enc_goes e u r e' \<longleftrightarrow> rng_ok e' \<and> fills e e' \<and> (re_err e' = 0 \<longrightarrow> re_err e = 0) \<and> (re_err e' = 0 \<and> enc_inv e \<longrightarrow> enc_narrow e u r e')"

lemma enc_loose_part:
  assumes "enc_inv e" and "0 < unat r" and "unat u + unat r \<le> unat (re_rng e)"
  defines "e1 \<equiv> e\<lparr>re_val := re_val e + u, re_rng := r\<rparr>"
  shows "enc_loose e1" and "enc_low e1 = enc_low e + unat u" and "enc_len e1 = enc_len e" and "enc_raw e1 = enc_raw e"
proof -
  have l: "enc_wf e" "unat (re_rng e) \<le> 2147483648" "unat (re_val e) + unat (re_rng e) < 4294967296"
    "re_rem e = - 1 \<or> re_rem e = 255 \<longrightarrow> unat (re_val e) + unat (re_rng e) \<le> 2147483648"
    using assms(1) by (simp_all add: enc_inv_def enc_loose_def)
  have v: "unat (re_val e + u) = unat (re_val e) + unat u"
    using l(3) assms(3) by (intro unat_add_small) linarith
  have d: "enc_digits e1 = enc_digits e" "enc_raw e1 = enc_raw e" "enc_wf e1 = enc_wf e"
    by (simp_all add: e1_def enc_digits_def enc_front_def enc_raw_def enc_back_def enc_wf_def)
  show "enc_loose e1"
    unfolding enc_loose_def d using l assms(2,3) by (simp add: e1_def v) linarith
  show "enc_low e1 = enc_low e + unat u" "enc_len e1 = enc_len e"
    by (simp_all add: enc_low_def enc_len_def d) (simp add: e1_def v)
  show "enc_raw e1 = enc_raw e"
    by (rule d(2))
qed

lemma enc_narrow_normalize:
  assumes "rng_ok e" and r: "0 < unat r" and ur: "unat u + unat r \<le> unat (re_rng e)"
  shows "\<exists>e'. enc_normalize (e\<lparr>re_val := re_val e + u, re_rng := r\<rparr>) = Some e' \<and> enc_goes e (unat u) (unat r) e'"
proof -
  let ?e = "e\<lparr>re_val := re_val e + u, re_rng := r\<rparr>"
  have f: "fills e x" if "fills ?e x" for x
    using that by (auto simp: fills_def)
  obtain e' where "enc_normalize ?e = Some e'" "rng_ok e'" "fills ?e e'" "re_err e' = 0 \<longrightarrow> re_err e = 0"
    "re_err e' = 0 \<and> enc_loose ?e \<longrightarrow> (\<exists>k. enc_step ?e k e')"
    using enc_normalize_step [of ?e] assms by (auto simp: rng_ok_def)
  then show ?thesis
    using enc_loose_part [OF _ r ur] f
    by (auto simp: enc_goes_def enc_narrow_def enc_step_def enc_inv_def rng_ok_def)
qed

section \<open>The decoder\<close>

text \<open>
  The bytes of the buffer, followed by zeros, are the digits of one number. After \<open>k\<close> bytes the decoder has
  \<open>8 k - 1\<close> bits of it, \<open>stream bs k div 2\<close>, and knows the interval of the encoder, with \<open>val\<close> the distance
  to its top.
\<close>

definition byte_at :: "bytes \<Rightarrow> nat \<Rightarrow> nat" where
  "byte_at bs i = (if i < length bs then unat (bs ! i) else 0)"

primrec stream :: "bytes \<Rightarrow> nat \<Rightarrow> nat" where
  "stream bs 0 = 0"
| "stream bs (Suc k) = 256 * stream bs k + byte_at bs k"

definition code :: "bytes \<Rightarrow> nat \<Rightarrow> nat" where
  "code bs k = stream bs k div 2"

lemma byte_at_less: "byte_at bs i < 256"
proof -
  have "unat (bs ! i) < 2 ^ LENGTH(8)"
    by (rule unsigned_less)
  then show ?thesis
    by (simp add: byte_at_def)
qed

lemma code_Suc:
  assumes "0 < k"
  shows "code bs (Suc k) = 256 * code bs k + (256 * byte_at bs (k - 1) + byte_at bs k) div 2 mod 256"
proof -
  obtain j where k: "k = Suc j"
    using assms by (cases k) auto
  define s b0 b1 where "s = stream bs j" and "b0 = byte_at bs j" and "b1 = byte_at bs k"
  have "b0 < 256" "b1 < 256"
    by (simp_all add: b0_def b1_def byte_at_less)
  obtain q r where q: "b0 = 2 * q + r" "r < 2"
    by (metis mult_div_mod_eq mod_less_divisor zero_less_numeral)
  have half: "(256 * x + b1) div 2 = 128 * x + b1 div 2" for x
    by linarith
  have "(256 * b0 + b1) div 2 mod 256 = (256 * q + (128 * r + b1 div 2)) mod 256"
    unfolding half q by (simp add: algebra_simps)
  then have 1: "(256 * b0 + b1) div 2 mod 256 = 128 * r + b1 div 2"
    using q(2) \<open>b1 < 256\<close> by (simp add: less_2_cases_iff)
  have 2: "(256 * s + b0) div 2 = 128 * s + q"
    using q by simp
  have "(256 * (256 * s + b0) + b1) div 2 = 256 * ((256 * s + b0) div 2) + (256 * b0 + b1) div 2 mod 256"
    unfolding 1 2 by (simp only: half) (simp add: q algebra_simps)
  then show ?thesis
    by (simp add: code_def k s_def b0_def b1_def)
qed

definition dec_raw :: "RangeDecoder \<Rightarrow> nat \<times> u32 \<times> int" where
  "dec_raw d = (rd_endOffs d, rd_endWindow d, rd_nendBits d)"

definition dec_at :: "bytes \<Rightarrow> nat \<Rightarrow> nat \<Rightarrow> RangeDecoder \<Rightarrow> bool" where
  "dec_at bs k A d \<longleftrightarrow> 0 < k \<and> rd_buf d = bs \<and> rd_storage d = length bs \<and> rd_offs d = min k (length bs) \<and>
     rd_rem d = int (byte_at bs (k - 1)) \<and> unat (rd_rng d) \<le> 2147483648 \<and> unat (rd_val d) < unat (rd_rng d) \<and>
     unat (rd_val d) + code bs k + 1 = A + unat (rd_rng d)"

lemma dec_at_iff_interval:
  "dec_at bs k A d \<Longrightarrow> A \<le> code bs k \<and> code bs k < A + unat (rd_rng d)"
  by (auto simp: dec_at_def)

lemma readByte_at: "rd_buf d = bs \<Longrightarrow> rd_storage d = length bs \<Longrightarrow> rd_offs d = min k (length bs) \<Longrightarrow>
    readByte d = (of_nat (byte_at bs k), d\<lparr>rd_offs := min (Suc k) (length bs)\<rparr>)"
  by (auto simp: readByte_def byte_at_def min_def)

lemma or_shift8: "b < 256 \<Longrightarrow> push_bit 8 (int a) OR int b = int (256 * a + b)"
  using concat_bit_def [of 8 "int b" "int a"] concat_bit_eq [of 8 "int b" "int a"]
  by (simp add: take_bit_eq_mod push_bit_eq_mult or.commute)

lemma dec_shift_at:
  assumes "dec_at bs k A d" and "unat (rd_rng d) \<le> 8388608"
  shows "dec_at bs (Suc k) (256 * A) (dec_shift d)" and "unat (rd_rng (dec_shift d)) = 256 * unat (rd_rng d)"
    and "dec_raw (dec_shift d) = dec_raw d"
proof -
  define b a where "b = byte_at bs k" and "a = byte_at bs (k - 1)"
  have b: "b < 256"
    by (simp add: b_def byte_at_less)
  define sy where "sy = (256 * a + b) div 2"
  have rb: "readByte d = (of_nat b, d\<lparr>rd_offs := min (Suc k) (length bs)\<rparr>)"
    using assms(1) readByte_at [of d bs k] by (simp add: dec_at_def b_def)
  have ub: "uint (of_nat b :: u32) = int b"
    using b by (simp add: unsigned_of_nat take_bit_nat_eq_self)
  have rem: "rd_rem d = int a"
    using assms(1) by (simp add: dec_at_def a_def)
  have "drop_bit 1 (push_bit 8 (int a) OR int b) = int sy"
    using b by (simp add: or_shift8 drop_bit_eq_div sy_def zdiv_int)
  then have e: "dec_shift d = d\<lparr>rd_offs := min (Suc k) (length bs), rd_nbitsTotal := rd_nbitsTotal d + 8,
      rd_rng := push_bit 8 (rd_rng d), rd_rem := int b,
      rd_val := (push_bit 8 (rd_val d) + (255 AND NOT (of_int (int sy)))) AND 2147483647\<rparr>"
    by (simp add: dec_shift_def rb ub rem del: of_int_of_nat_eq)
  have rng: "unat (rd_rng (dec_shift d)) = 256 * unat (rd_rng d)"
    using assms(2) by (simp add: e unat_push8_small)
  have v: "unat (rd_val d) < unat (rd_rng d)" "unat (rd_val d) + code bs k + 1 = A + unat (rd_rng d)" "0 < k"
    using assms(1) by (simp_all add: dec_at_def)
  have ns: "unat (255 AND NOT (of_int (int sy)) :: u32) = 255 - sy mod 256"
    using unat_not_sym [of "int sy"] by (simp add: nat_mod_distrib del: of_int_of_nat_eq)
  have "sy mod 256 < 256"
    by simp
  have "unat (push_bit 8 (rd_val d) + (255 AND NOT (of_int (int sy)))) = 256 * unat (rd_val d) + (255 - sy mod 256)"
    using v(1) assms(2) unat_push8_small [of "rd_val d"]
    by (subst unat_add_small) (simp_all add: ns del: of_int_of_nat_eq)
  then have val: "unat (rd_val (dec_shift d)) = 256 * unat (rd_val d) + (255 - sy mod 256)"
    using v(1) assms(2) by (simp add: e unat_and_top del: of_int_of_nat_eq)
  have "code bs (Suc k) = 256 * code bs k + sy mod 256"
    using code_Suc [OF v(3), of bs] by (simp add: sy_def a_def b_def)
  then have "unat (rd_val (dec_shift d)) + code bs (Suc k) + 1 = 256 * A + unat (rd_rng (dec_shift d))"
    "unat (rd_val (dec_shift d)) < unat (rd_rng (dec_shift d))"
    unfolding val rng using v(1,2) \<open>sy mod 256 < 256\<close> by linarith+
  then show "dec_at bs (Suc k) (256 * A) (dec_shift d)"
    using assms by (simp add: dec_at_def rng) (simp add: e b_def)
  show "unat (rd_rng (dec_shift d)) = 256 * unat (rd_rng d)"
    by (rule rng)
  show "dec_raw (dec_shift d) = dec_raw d"
    by (simp add: e dec_raw_def)
qed

definition dec_step :: "bytes \<Rightarrow> nat \<Rightarrow> nat \<Rightarrow> RangeDecoder \<Rightarrow> nat \<Rightarrow> RangeDecoder \<Rightarrow> bool" where
  "dec_step bs k A d j d' \<longleftrightarrow> dec_at bs (k + j) (256 ^ j * A) d' \<and> unat (rd_rng d') = 256 ^ j * unat (rd_rng d) \<and> dec_raw d' = dec_raw d"

lemma dec_step_Suc: "dec_step bs k A d 1 d' \<Longrightarrow> dec_step bs (Suc k) (256 * A) d' j d'' \<Longrightarrow> dec_step bs k A d (Suc j) d''"
  by (simp add: dec_step_def ac_simps)

lemma dec_normalize_step:
  assumes "dec_at bs k A d"
  shows "\<exists>d' j. dec_normalize d = Some d' \<and> 8388608 < unat (rd_rng d') \<and> dec_step bs k A d j d'"
  using assms
proof (induction "4294967296 - unat (rd_rng d)" arbitrary: d k A rule: less_induct)
  case less
  show ?case
  proof (cases "unat (rd_rng d) \<le> 8388608")
    case False
    then have "dec_normalize d = Some d"
      by (subst dec_normalize.simps) (simp add: word_le_nat_alt)
    moreover have "dec_step bs k A d 0 d"
      using less.prems by (simp add: dec_step_def)
    ultimately show ?thesis
      using False by auto
  next
    case True
    note s = dec_shift_at [OF less.prems True]
    have "0 < unat (rd_rng d)"
      using less.prems by (auto simp: dec_at_def)
    then have "4294967296 - unat (rd_rng (dec_shift d)) < 4294967296 - unat (rd_rng d)"
      using True unfolding s(2) by linarith
    then obtain d' j where d': "dec_normalize (dec_shift d) = Some d'" "8388608 < unat (rd_rng d')"
      "dec_step bs (Suc k) (256 * A) (dec_shift d) j d'"
      using less.hyps [OF _ s(1)] by blast
    have "dec_normalize d = dec_normalize (dec_shift d)"
      using True by (subst dec_normalize.simps) (simp add: word_le_nat_alt)
    moreover have "dec_step bs k A d (Suc j) d'"
      using s by (intro dec_step_Suc [OF _ d'(3)]) (simp add: dec_step_def)
    ultimately show ?thesis
      using d' by auto
  qed
qed

definition dec_inv :: "bytes \<Rightarrow> nat \<Rightarrow> nat \<Rightarrow> RangeDecoder \<Rightarrow> bool" where
  "dec_inv bs k A d \<longleftrightarrow> dec_at bs k A d \<and> 8388608 < unat (rd_rng d)"

text \<open>
  Every symbol narrows the decoder's interval to the part \<open>[A + u, A + u + r)\<close> the code lies in; \<open>t\<close> is what is
  left above that part.
\<close>

definition dec_narrow :: "bytes \<Rightarrow> nat \<Rightarrow> nat \<Rightarrow> RangeDecoder \<Rightarrow> nat \<Rightarrow> nat \<Rightarrow> RangeDecoder \<Rightarrow> bool" where
  "dec_narrow bs k A d u r d' \<longleftrightarrow> dec_raw d' = dec_raw d \<and>
     (\<exists>j. dec_inv bs (k + j) (256 ^ j * (A + u)) d' \<and> unat (rd_rng d') = 256 ^ j * r)"

lemma dec_narrow_normalize:
  assumes "dec_inv bs k A d" and sum: "u + unat r + unat t = unat (rd_rng d)"
    and inside: "A + u \<le> code bs k" "code bs k < A + u + unat r"
  shows "\<exists>d'. dec_normalize (d\<lparr>rd_ext := x, rd_val := rd_val d - t, rd_rng := r\<rparr>) = Some d' \<and> dec_narrow bs k A d u (unat r) d'"
proof -
  let ?d = "d\<lparr>rd_ext := x, rd_val := rd_val d - t, rd_rng := r\<rparr>"
  have v: "unat (rd_val d) + code bs k + 1 = A + unat (rd_rng d)" "unat (rd_rng d) \<le> 2147483648"
    using assms(1) by (simp_all add: dec_inv_def dec_at_def)
  have t: "unat t \<le> unat (rd_val d)"
    using v(1) sum inside by linarith
  have "unat (rd_val d) - unat t < unat r" "unat (rd_val d) - unat t + code bs k + 1 = A + u + unat r" "unat r \<le> 2147483648"
    using v sum inside t by linarith+
  then have "dec_at bs k (A + u) ?d"
    using assms(1) by (simp add: dec_inv_def dec_at_def unat_sub_small [OF t])
  from dec_normalize_step [OF this] show ?thesis
    by (auto simp: dec_narrow_def dec_inv_def dec_step_def dec_raw_def)
qed

section \<open>Symbols with cumulative frequencies\<close>

text \<open>The part of a range \<open>R\<close> the symbol \<open>[fl, fh)\<close> out of \<open>ft\<close> takes, as an offset and a length.\<close>

definition sub_low :: "nat \<Rightarrow> nat \<Rightarrow> nat \<Rightarrow> nat" where
  "sub_low R fl ft = (if fl > 0 then R - R div ft * (ft - fl) else 0)"

definition sub_len :: "nat \<Rightarrow> nat \<Rightarrow> nat \<Rightarrow> nat \<Rightarrow> nat" where
  "sub_len R fl fh ft = (if fl > 0 then R div ft * (fh - fl) else R - R div ft * (ft - fh))"

definition freq_ok :: "u32 \<Rightarrow> u32 \<Rightarrow> u32 \<Rightarrow> bool" where
  "freq_ok fl fh ft \<longleftrightarrow> unat fl < unat fh \<and> unat fh \<le> unat ft \<and> unat ft \<le> 8388608"

lemma div_mult_le: "x \<le> ft \<Longrightarrow> R div ft * x \<le> (R :: nat)"
  by (metis div_times_less_eq_dividend mult_le_mono2 order.trans)

lemma sub_sum:
  assumes "fl < fh" "fh \<le> ft"
  shows "sub_low R fl ft + sub_len R fl fh ft + R div ft * (ft - fh) = R"
proof -
  have le: "R div ft * (ft - fl) \<le> R" "R div ft * (ft - fh) \<le> R"
    by (simp_all add: div_mult_le)
  have "R div ft * (fh - fl) + R div ft * (ft - fh) = R div ft * (ft - fl)"
    using assms by (simp add: distrib_left [symmetric])
  then show ?thesis
    using le by (auto simp: sub_low_def sub_len_def)
qed

lemma sub_len_pos: "fl < fh \<Longrightarrow> fh \<le> ft \<Longrightarrow> 0 < R div ft \<Longrightarrow> 0 < sub_len R fl fh ft"
proof -
  assume a: "fl < fh" "fh \<le> ft" "0 < R div ft"
  then have "R div ft * (ft - fh) < R div ft * ft"
    by simp
  also have "\<dots> \<le> R"
    by (rule div_times_less_eq_dividend)
  finally show ?thesis
    using a by (simp add: sub_len_def)
qed

lemma unat_part:
  fixes R ft x :: u32
  assumes "unat x \<le> unat ft"
  shows "unat (R div ft * x) = unat (R div ft) * unat x" and "unat (R div ft) * unat x \<le> unat R"
proof -
  show 1: "unat (R div ft) * unat x \<le> unat R"
    unfolding unat_div_distrib by (rule div_mult_le [OF assms])
  have "unat R < 2 ^ LENGTH(32)"
    by (rule unsigned_less)
  with 1 show "unat (R div ft * x) = unat (R div ft) * unat x"
    by (intro unat_mult_small) simp
qed

lemma Encode_narrow:
  assumes inv: "rng_ok e" and ok: "freq_ok fl fh ft"
  shows "\<exists>e'. Encode fl fh ft e = Some e' \<and>
    enc_goes e (sub_low (unat (re_rng e)) (unat fl) (unat ft)) (sub_len (unat (re_rng e)) (unat fl) (unat fh) (unat ft)) e'"
proof -
  define R where "R = re_rng e"
  define r where "r = R div ft"
  have f: "unat fl < unat fh" "unat fh \<le> unat ft" "unat ft \<le> 8388608" "8388608 < unat R"
    using ok inv by (simp_all add: freq_ok_def rng_ok_def R_def)
  have ur: "unat r = unat R div unat ft"
    by (simp add: r_def unat_div_distrib)
  have r0: "0 < unat R div unat ft"
    using f by (simp add: div_greater_zero_iff)
  note m = unat_part [of _ ft R, folded r_def]
  have sub: "unat (ft - fl) = unat ft - unat fl" "unat (ft - fh) = unat ft - unat fh" "unat (fh - fl) = unat fh - unat fl"
    using f by (simp_all add: unat_sub_small)
  note s = sub_sum [OF f(1,2), of "unat R"] and p = sub_len_pos [OF f(1,2) r0]
  define u where "u = (if fl > 0 then R - r * (ft - fl) else 0)"
  define l where "l = (if fl > 0 then r * (fh - fl) else R - r * (ft - fh))"
  have ul: "unat u = sub_low (unat R) (unat fl) (unat ft)" "unat l = sub_len (unat R) (unat fl) (unat fh) (unat ft)"
    using m [of "ft - fl"] m [of "ft - fh"] m [of "fh - fl"] f
    by (auto simp: u_def l_def sub_low_def sub_len_def sub unat_sub_small ur word_less_nat_alt)
  have E: "Encode fl fh ft e = enc_normalize (e\<lparr>re_val := re_val e + u, re_rng := l\<rparr>)"
    using f by (auto simp: Encode_def u_def l_def R_def [symmetric] r_def [symmetric] Let_def)
  have "0 < unat l" "unat u + unat l \<le> unat (re_rng e)"
    using s p unfolding ul R_def [symmetric] by linarith+
  from enc_narrow_normalize [OF inv this] show ?thesis
    unfolding E ul R_def [symmetric] .
qed

lemma hit_bounds:
  fixes val R r ft fl fh :: nat
  assumes "fl < fh" "fh \<le> ft" "r = R div ft" "0 < r" and top: "r * (ft - fh) \<le> val" and bot: "val < R - sub_low R fl ft"
  shows "fl \<le> ft - min (val div r + 1) ft" and "ft - min (val div r + 1) ft < fh"
proof -
  have "ft - fh \<le> val div r"
    using top assms(4) by (simp add: less_eq_div_iff_mult_less_eq mult.commute)
  then show "ft - min (val div r + 1) ft < fh"
    using assms(1,2) by (auto simp: min_def)
  show "fl \<le> ft - min (val div r + 1) ft"
  proof (cases "fl = 0")
    case False
    then have "val < r * (ft - fl)"
      using bot div_mult_le [of "ft - fl" ft R] assms(3) by (simp add: sub_low_def)
    then have "val div r < ft - fl"
      using assms(4) by (simp add: div_less_iff_less_mult mult.commute)
    then show ?thesis
      by (auto simp: min_def)
  qed simp
qed

lemma part_words:
  assumes ok: "freq_ok fl fh ft"
  shows "unat (R div ft * (ft - fh)) = unat R div unat ft * (unat ft - unat fh)"
    and "unat (if fl > 0 then R div ft * (fh - fl) else R - R div ft * (ft - fh)) = sub_len (unat R) (unat fl) (unat fh) (unat ft)"
proof -
  have f: "unat fl < unat fh" "unat fh \<le> unat ft"
    using ok by (simp_all add: freq_ok_def)
  have sub: "unat (ft - fh) = unat ft - unat fh" "unat (fh - fl) = unat fh - unat fl"
    using f by (simp_all add: unat_sub_small)
  show t: "unat (R div ft * (ft - fh)) = unat R div unat ft * (unat ft - unat fh)"
    using unat_part [of "ft - fh" ft R] f by (simp add: sub unat_div_distrib)
  show "unat (if fl > 0 then R div ft * (fh - fl) else R - R div ft * (ft - fh)) = sub_len (unat R) (unat fl) (unat fh) (unat ft)"
    using unat_part [of "fh - fl" ft R] unat_part [of "ft - fh" ft R] f t
    by (auto simp: sub_len_def sub unat_sub_small unat_div_distrib word_less_nat_alt)
qed

lemma Decode_hit:
  assumes inv: "dec_inv bs k A d" and ok: "freq_ok fl fh ft"
    and inside: "A + sub_low (unat (rd_rng d)) (unat fl) (unat ft) \<le> code bs k"
      "code bs k < A + sub_low (unat (rd_rng d)) (unat fl) (unat ft) + sub_len (unat (rd_rng d)) (unat fl) (unat fh) (unat ft)"
  shows "\<exists>fs d'. Decode ft d = (fs, d\<lparr>rd_ext := rd_rng d div ft\<rparr>) \<and> unat fl \<le> unat fs \<and> unat fs < unat fh \<and>
    unat fs = unat ft - min (unat (rd_val d) div unat (rd_rng d div ft) + 1) (unat ft) \<and>
    Update fl fh ft (d\<lparr>rd_ext := rd_rng d div ft\<rparr>) = Some d' \<and>
    dec_narrow bs k A d (sub_low (unat (rd_rng d)) (unat fl) (unat ft)) (sub_len (unat (rd_rng d)) (unat fl) (unat fh) (unat ft)) d'"
proof -
  define R where "R = rd_rng d"
  define r where "r = R div ft"
  have f: "unat fl < unat fh" "unat fh \<le> unat ft" "unat ft \<le> 8388608" "8388608 < unat R"
    using ok inv by (simp_all add: freq_ok_def dec_inv_def R_def)
  have ur: "unat r = unat R div unat ft"
    by (simp add: r_def unat_div_distrib)
  have r0: "0 < unat R div unat ft"
    using f by (simp add: div_greater_zero_iff)
  have rft: "r \<noteq> 0" "ft \<noteq> 0"
    using r0 f ur by auto
  define t where "t = r * (ft - fh)"
  define l where "l = (if fl > 0 then r * (fh - fl) else R - t)"
  note ut = part_words(1) [OF ok, of R, folded r_def, folded t_def] and ul = part_words(2) [OF ok, of R, folded r_def, folded t_def, folded l_def]
  note s = sub_sum [OF f(1,2), of "unat R"]
  have v: "unat (rd_val d) + code bs k + 1 = A + unat R" "unat (rd_val d) < unat R" "unat R \<le> 2147483648"
    using inv by (simp_all add: dec_inv_def dec_at_def R_def)
  have "unat r * (unat ft - unat fh) \<le> unat (rd_val d)" "unat (rd_val d) < unat R - sub_low (unat R) (unat fl) (unat ft)"
    using v s inside unfolding ur R_def [symmetric] by linarith+
  note hb = hit_bounds [OF f(1,2) ur r0 [folded ur] this]
  define fs where "fs = ft - ecMini (rd_val d div r + 1) ft"
  have "unat (rd_val d) div unat r < 4294967295"
    using v(2,3) div_le_dividend [of "unat (rd_val d)" "unat r"] by linarith
  then have "unat (rd_val d div r + 1) = unat (rd_val d) div unat r + 1"
    by (subst unat_add_small) (simp_all add: unat_div_distrib)
  then have ufs: "unat fs = unat ft - min (unat (rd_val d) div unat r + 1) (unat ft)"
    by (auto simp: fs_def ecMini_def min_def unat_sub_small word_less_nat_alt)
  have D: "Decode ft d = (fs, d\<lparr>rd_ext := r\<rparr>)"
    using rft by (simp add: Decode_def R_def [symmetric] r_def [symmetric] fs_def Let_def)
  have U: "Update fl fh ft (d\<lparr>rd_ext := r\<rparr>) = dec_normalize (d\<lparr>rd_ext := r, rd_val := rd_val d - t, rd_rng := l\<rparr>)"
    by (simp add: Update_def Let_def t_def l_def R_def)
  have "sub_low (unat R) (unat fl) (unat ft) + unat l + unat t = unat (rd_rng d)"
    using s unfolding ul ut R_def [symmetric] .
  from dec_narrow_normalize [OF inv this, of r] inside D U hb ufs show ?thesis
    unfolding ul R_def [symmetric] r_def [symmetric] by auto
qed

section \<open>Coding in step\<close>

text \<open>
  A byte sequence \<open>bs\<close> is good for an encoder state when its code lies in the interval; an encoder and a decoder
  are in step on \<open>bs\<close> when they have the same interval.
\<close>

definition covers :: "bytes \<Rightarrow> RangeEncoder \<Rightarrow> bool" where
  "covers bs e \<longleftrightarrow> enc_low e \<le> code bs (enc_len e + 4) \<and> code bs (enc_len e + 4) < enc_low e + unat (re_rng e)"

definition in_step :: "bytes \<Rightarrow> RangeEncoder \<Rightarrow> RangeDecoder \<Rightarrow> bool" where
  "in_step bs e d \<longleftrightarrow> dec_inv bs (enc_len e + 4) (enc_low e) d \<and> rd_rng d = re_rng e"

text \<open>
  \<open>codes E D s\<close>: the encoder operation \<open>E\<close> returns, and when it has written into its buffer without an
  error, then on every byte sequence good for the state it leaves the decoder operation \<open>D\<close> returns \<open>s\<close> and
  both stay in step.
\<close>

definition coded_to :: "RangeEncoder \<Rightarrow> (RangeDecoder \<Rightarrow> ('a \<times> RangeDecoder) go) \<Rightarrow> 'a \<Rightarrow> RangeEncoder \<Rightarrow> bool" where
  "coded_to e D s e' \<longleftrightarrow> enc_inv e' \<and> enc_raw e' = enc_raw e \<and> (\<forall>bs. covers bs e' \<longrightarrow> covers bs e \<and>
     (\<forall>d. in_step bs e d \<longrightarrow> (\<exists>d'. D d = Some (s, d') \<and> in_step bs e' d')))"

definition codes :: "(RangeEncoder \<Rightarrow> RangeEncoder go) \<Rightarrow> (RangeDecoder \<Rightarrow> ('a \<times> RangeDecoder) go) \<Rightarrow> 'a \<Rightarrow> bool" where
  "codes E D s \<longleftrightarrow> (\<forall>e. rng_ok e \<longrightarrow> (\<exists>e'. E e = Some e' \<and> rng_ok e' \<and> fills e e' \<and> (re_err e' = 0 \<longrightarrow> re_err e = 0) \<and>
     (re_err e' = 0 \<and> enc_inv e \<longrightarrow> coded_to e D s e')))"

lemma codes_return: "codes Some (\<lambda>d. Some (s, d)) s"
  by (auto simp: codes_def coded_to_def fills_refl)

text \<open>Operations in sequence: what is decoded first may decide how the rest is decoded.\<close>

lemma codes_bind:
  assumes 1: "codes E1 D1 s1" and 2: "codes E2 (D2 s1) s2"
  shows "codes (\<lambda>e. E1 e \<bind> E2) (\<lambda>d. D1 d \<bind> (\<lambda>(s, d). D2 s d)) s2"
  unfolding codes_def
proof (intro allI impI)
  fix e
  assume "rng_ok e"
  then obtain e1 where e1: "E1 e = Some e1" "rng_ok e1" "fills e e1" "re_err e1 = 0 \<longrightarrow> re_err e = 0"
    "re_err e1 = 0 \<and> enc_inv e \<longrightarrow> coded_to e D1 s1 e1"
    using 1 unfolding codes_def by blast
  then obtain e2 where e2: "E2 e1 = Some e2" "rng_ok e2" "fills e1 e2" "re_err e2 = 0 \<longrightarrow> re_err e1 = 0"
    "re_err e2 = 0 \<and> enc_inv e1 \<longrightarrow> coded_to e1 (D2 s1) s2 e2"
    using 2 unfolding codes_def by blast
  have "coded_to e (\<lambda>d. D1 d \<bind> (\<lambda>(s, d). D2 s d)) s2 e2" if "re_err e2 = 0" "enc_inv e"
  proof -
    have c: "coded_to e D1 s1 e1" "coded_to e1 (D2 s1) s2 e2"
      using that e1 e2 by (auto simp: coded_to_def)
    show ?thesis
      unfolding coded_to_def
    proof (intro conjI allI impI)
      fix bs d
      assume cv: "covers bs e2"
      then show "covers bs e"
        using c by (auto simp: coded_to_def)
      assume "in_step bs e d"
      then obtain d1 where "D1 d = Some (s1, d1)" "in_step bs e1 d1"
        using c cv unfolding coded_to_def by blast
      moreover from this obtain d2 where "D2 s1 d1 = Some (s2, d2)" "in_step bs e2 d2"
        using c cv unfolding coded_to_def by blast
      ultimately show "\<exists>d'. D1 d \<bind> (\<lambda>(s, d). D2 s d) = Some (s2, d') \<and> in_step bs e2 d'"
        by auto
    qed (use c in \<open>simp_all add: coded_to_def\<close>)
  qed
  then show "\<exists>e'. E1 e \<bind> E2 = Some e' \<and> rng_ok e' \<and> fills e e' \<and> (re_err e' = 0 \<longrightarrow> re_err e = 0) \<and>
      (re_err e' = 0 \<and> enc_inv e \<longrightarrow> coded_to e (\<lambda>d. D1 d \<bind> (\<lambda>(s, d). D2 s d)) s2 e')"
    using e1 e2 fills_trans [OF e1(3) e2(3)] by auto
qed

lemma code_div: "0 < m \<Longrightarrow> code bs (m + k) div 256 ^ k = code bs m"
proof (induction k)
  case (Suc k)
  then have "code bs (m + Suc k) div 256 = code bs (m + k)"
    by (simp add: code_Suc div_add1_eq)
  then show ?case
    using Suc by (simp add: div_mult2_eq)
qed simp

lemma norm_unique:
  fixes j k :: nat
  assumes "8388608 < 256 ^ j * r" "256 ^ j * r \<le> 2147483648" "8388608 < 256 ^ k * r" "256 ^ k * r \<le> (2147483648 :: nat)"
  shows "j = k"
proof -
  have False if "256 ^ a * r \<le> 2147483648" "8388608 < 256 ^ b * r" "b < a" for a b
  proof -
    obtain c where "a = Suc (b + c)"
      using \<open>b < a\<close> less_iff_Suc_add by auto
    then have "256 * (256 ^ b * r) * 256 ^ c = 256 ^ a * r"
      by (simp add: power_add mult.commute mult.left_commute)
    moreover have "256 * (256 ^ b * r) \<le> 256 * (256 ^ b * r) * 256 ^ c"
      by simp
    ultimately show False
      using that by linarith
  qed
  then show ?thesis
    using assms by (metis linorder_neqE_nat)
qed

lemma codes_narrow:
  assumes E: "\<And>e. rng_ok e \<Longrightarrow> \<exists>e'. E e = Some e' \<and> enc_goes e (lo (unat (re_rng e))) (ln (unat (re_rng e))) e'"
    and part: "\<And>R. lo R + ln R \<le> R"
    and D: "\<And>bs k A d. dec_inv bs k A d \<Longrightarrow> A + lo (unat (rd_rng d)) \<le> code bs k \<Longrightarrow>
      code bs k < A + lo (unat (rd_rng d)) + ln (unat (rd_rng d)) \<Longrightarrow>
      \<exists>d'. D d = Some (s, d') \<and> dec_narrow bs k A d (lo (unat (rd_rng d))) (ln (unat (rd_rng d))) d'"
  shows "codes E D s"
  unfolding codes_def
proof (intro allI impI)
  fix e
  assume "rng_ok e"
  then obtain e' where e': "E e = Some e'" "enc_goes e (lo (unat (re_rng e))) (ln (unat (re_rng e))) e'"
    using E by blast
  define R where "R = unat (re_rng e)"
  have "covers bs e \<and> (\<forall>d. in_step bs e d \<longrightarrow> (\<exists>d'. D d = Some (s, d') \<and> in_step bs e' d'))"
    if nr: "enc_narrow e (lo R) (ln R) e'" and cv: "covers bs e'" for bs
  proof -
    define m where "m = enc_len e + 4"
    obtain k where k: "enc_len e' = enc_len e + k" "enc_low e' = 256 ^ k * (enc_low e + lo R)" "unat (re_rng e') = 256 ^ k * ln R"
      using nr by (auto simp: enc_narrow_def)
    have "256 ^ k * (enc_low e + lo R) \<le> code bs (m + k)" "code bs (m + k) < 256 ^ k * (enc_low e + lo R + ln R)"
      using cv by (simp_all add: covers_def k m_def algebra_simps)
    then have "enc_low e + lo R \<le> code bs (m + k) div 256 ^ k" "code bs (m + k) div 256 ^ k < enc_low e + lo R + ln R"
      by (simp_all add: less_eq_div_iff_mult_less_eq div_less_iff_less_mult mult.commute)
    then have hit: "enc_low e + lo R \<le> code bs m" "code bs m < enc_low e + lo R + ln R"
      by (simp_all add: code_div m_def)
    then have "covers bs e"
      using part [of R] by (simp add: covers_def m_def R_def)
    moreover have "\<exists>d'. D d = Some (s, d') \<and> in_step bs e' d'" if "in_step bs e d" for d
    proof -
      have di: "dec_inv bs m (enc_low e) d" "unat (rd_rng d) = R"
        using that by (simp_all add: in_step_def m_def R_def)
      then obtain d' where d': "D d = Some (s, d')" "dec_narrow bs m (enc_low e) d (lo R) (ln R) d'"
        using D [OF di(1)] hit by auto
      then obtain j where j: "dec_inv bs (m + j) (256 ^ j * (enc_low e + lo R)) d'" "unat (rd_rng d') = 256 ^ j * ln R"
        by (auto simp: dec_narrow_def)
      have "j = k"
      proof (rule norm_unique [where r = "ln R"])
        show "8388608 < 256 ^ j * ln R" "256 ^ j * ln R \<le> 2147483648"
          using j by (simp_all add: dec_inv_def dec_at_def)
        have "8388608 < unat (re_rng e')" "unat (re_rng e') \<le> 2147483648"
          using nr by (auto simp: enc_narrow_def enc_inv_def enc_loose_def)
        then show "8388608 < 256 ^ k * ln R" "256 ^ k * ln R \<le> 2147483648"
          unfolding k .
      qed
      then have "in_step bs e' d'"
        using j k by (simp add: in_step_def m_def ac_simps word_unat_eq_iff)
      then show ?thesis
        using d' by blast
    qed
    ultimately show ?thesis
      by blast
  qed
  then have "coded_to e D s e'" if "enc_narrow e (lo R) (ln R) e'"
    using that by (auto simp: coded_to_def enc_narrow_def)
  then show "\<exists>e'. E e = Some e' \<and> rng_ok e' \<and> fills e e' \<and> (re_err e' = 0 \<longrightarrow> re_err e = 0) \<and> (re_err e' = 0 \<and> enc_inv e \<longrightarrow> coded_to e D s e')"
    using e' by (auto simp: R_def enc_goes_def)
qed

section \<open>The symbol operations\<close>

lemma codes_freq:
  assumes ok: "freq_ok fl fh ft"
    and D: "\<And>d fs d'. Decode ft d = (fs, d\<lparr>rd_ext := rd_rng d div ft\<rparr>) \<Longrightarrow> unat fl \<le> unat fs \<Longrightarrow> unat fs < unat fh \<Longrightarrow>
      unat fs = unat ft - min (unat (rd_val d) div unat (rd_rng d div ft) + 1) (unat ft) \<Longrightarrow> rd_rng d div ft \<noteq> 0 \<Longrightarrow>
      Update fl fh ft (d\<lparr>rd_ext := rd_rng d div ft\<rparr>) = Some d' \<Longrightarrow> D d = Some (s, d')"
  shows "codes (Encode fl fh ft) D s"
proof (rule codes_narrow [where lo = "\<lambda>R. sub_low R (unat fl) (unat ft)" and ln = "\<lambda>R. sub_len R (unat fl) (unat fh) (unat ft)"])
  fix R
  show "sub_low R (unat fl) (unat ft) + sub_len R (unat fl) (unat fh) (unat ft) \<le> R"
    using sub_sum [of "unat fl" "unat fh" "unat ft" R] ok by (simp add: freq_ok_def)
next
  fix bs k A d
  assume inv: "dec_inv bs k A d" and hit: "A + sub_low (unat (rd_rng d)) (unat fl) (unat ft) \<le> code bs k"
    "code bs k < A + sub_low (unat (rd_rng d)) (unat fl) (unat ft) + sub_len (unat (rd_rng d)) (unat fl) (unat fh) (unat ft)"
  have "0 < unat (rd_rng d) div unat ft"
    using inv ok by (simp add: dec_inv_def freq_ok_def div_greater_zero_iff)
  then have "rd_rng d div ft \<noteq> 0"
    by (simp flip: unat_div_distrib add: unat_gt_0)
  then show "\<exists>d'. D d = Some (s, d') \<and>
      dec_narrow bs k A d (sub_low (unat (rd_rng d)) (unat fl) (unat ft)) (sub_len (unat (rd_rng d)) (unat fl) (unat fh) (unat ft)) d'"
    using Decode_hit [OF inv ok hit] D by blast
qed (rule Encode_narrow [OF _ ok])

definition cdf_ok :: "u16 list \<Rightarrow> nat \<Rightarrow> bool" where
  "cdf_ok cdf s \<longleftrightarrow> Suc s < length cdf \<and> sorted cdf \<and> cdf ! s < cdf ! Suc s"

lemma cdf_search_hit:
  "s < length xs \<Longrightarrow> target < ucast (xs ! s) \<Longrightarrow> (\<forall>j. j < s \<longrightarrow> ucast (xs ! j) \<le> target) \<Longrightarrow> cdf_search target xs k = k + s"
proof (induction xs arbitrary: s k)
  case (Cons x xs)
  show ?case
  proof (cases s)
    case (Suc s')
    then have "(ucast x :: u32) \<le> target"
      using Cons.prems(3) by auto
    moreover have "ucast (xs ! j) \<le> target" if "j < s'" for j
      using Cons.prems(3) [rule_format, of "Suc j"] that Suc by simp
    ultimately show ?thesis
      using Cons.IH [of s' "k + 1"] Cons.prems(1,2) Suc by (auto simp: not_less)
  qed (use Cons.prems in simp)
qed simp

lemma u16_bound: "unat (w :: u16) < 65536"
proof -
  have "unat w < 2 ^ LENGTH(16)"
    by (rule unsigned_less)
  then show ?thesis by simp
qed

lemma unat_ucast16: "unat (ucast (w :: u16) :: u32) = unat w"
  using u16_bound [of w] by (simp add: unsigned_ucast_eq take_bit_nat_eq_self)

lemma codes_CDF:
  assumes ok: "cdf_ok cdf s"
  shows "codes (EncodeCDF (int s) cdf) (DecodeCDF cdf) s"
proof -
  have len: "Suc s < length cdf" and srt: "sorted cdf" and lt: "cdf ! s < cdf ! Suc s"
    using ok by (simp_all add: cdf_ok_def)
  define base :: u32 where "base = ucast (hd cdf)"
  have ne: "cdf \<noteq> []"
    using len by auto
  have hd0: "hd cdf = cdf ! 0" and last0: "last cdf = cdf ! (length cdf - 1)"
    using ne by (simp_all add: hd_conv_nth last_conv_nth)
  have mono: "unat (cdf ! i) \<le> unat (cdf ! j)" if "i \<le> j" "j < length cdf" for i j
    using sorted_nth_mono [OF srt that] by (simp add: word_le_nat_alt)
  have lts: "unat (cdf ! s) < unat (cdf ! Suc s)"
    using lt by (simp add: word_less_nat_alt)
  define fl fh ft where "fl = ucast (cdf ! s) - base" and "fh = ucast (cdf ! Suc s) - base" and "ft = ucast (last cdf) - base"
  have sub: "unat (ucast (cdf ! i) - base) = unat (cdf ! i) - unat (cdf ! 0)" if "i < length cdf" for i
    using mono [of 0 i] that by (simp add: base_def hd0 unat_sub_small unat_ucast16)
  have bounds: "unat (cdf ! 0) \<le> unat (cdf ! s)" "unat (cdf ! Suc s) \<le> unat (last cdf)" "unat (last cdf) < 65536"
    using mono [of 0 s] mono [of "Suc s" "length cdf - 1"] len by (auto simp: last0 u16_bound)
  have u: "unat fl = unat (cdf ! s) - unat (cdf ! 0)" "unat fh = unat (cdf ! Suc s) - unat (cdf ! 0)"
    "unat ft = unat (last cdf) - unat (cdf ! 0)"
    using len sub [of s] sub [of "Suc s"] sub [of "length cdf - 1"] by (simp_all add: fl_def fh_def ft_def last0)
  have fok: "freq_ok fl fh ft"
    using bounds lts by (auto simp: freq_ok_def u)
  have nle: "\<not> (ucast (last cdf) :: u32) \<le> base"
    using bounds lts by (simp add: base_def word_le_nat_alt unat_ucast16 hd0)
  have E: "EncodeCDF (int s) cdf = Encode fl fh ft"
    using len nle by (auto simp: EncodeCDF_def fl_def fh_def ft_def base_def fun_eq_iff nat_add_distrib Let_def)
  have "codes (Encode fl fh ft) (DecodeCDF cdf) s"
  proof (rule codes_freq [OF fok])
    fix d fs d'
    assume D: "Decode ft d = (fs, d\<lparr>rd_ext := rd_rng d div ft\<rparr>)" and fs: "unat fl \<le> unat fs" "unat fs < unat fh"
      and U: "Update fl fh ft (d\<lparr>rd_ext := rd_rng d div ft\<rparr>) = Some d'"
    have ub: "unat base = unat (cdf ! 0)"
      by (simp add: base_def hd0 unat_ucast16)
    have target: "unat (base + fs) = unat (cdf ! 0) + unat fs"
      using bounds fs by (simp add: unat_add_small ub u)
    have "cdf_search (base + fs) (tl cdf) 0 = 0 + s"
    proof (rule cdf_search_hit)
      show "base + fs < ucast (tl cdf ! s)"
        using fs len bounds u16_bound [of "cdf ! Suc s"]
        by (auto simp: word_less_nat_alt target unat_ucast16 nth_tl u)
      show "\<forall>j. j < s \<longrightarrow> ucast (tl cdf ! j) \<le> base + fs"
      proof (intro allI impI)
        fix j assume "j < s"
        then show "ucast (tl cdf ! j) \<le> base + fs"
          using fs len bounds mono [of "Suc j" s] by (simp add: word_le_nat_alt target unat_ucast16 nth_tl u)
      qed
    qed (use len in simp)
    then show "DecodeCDF cdf d = Some (s, d')"
      using len nle D U
      by (auto simp: DecodeCDF_def base_def [symmetric] ft_def [symmetric] fl_def [symmetric] fh_def [symmetric] idx_def Let_def)
  qed
  then show ?thesis
    by (simp add: E)
qed

lemma codes_unit:
  assumes v: "unat v < unat ft" "unat ft \<le> 8388608"
    and D: "\<And>d d'. Decode ft d = (v, d\<lparr>rd_ext := rd_rng d div ft\<rparr>) \<Longrightarrow> rd_rng d div ft \<noteq> 0 \<Longrightarrow>
      unat v = unat ft - min (unat (rd_val d) div unat (rd_rng d div ft) + 1) (unat ft) \<Longrightarrow>
      Update v (v + 1) ft (d\<lparr>rd_ext := rd_rng d div ft\<rparr>) = Some d' \<Longrightarrow> D d = Some (s, d')"
  shows "codes (Encode v (v + 1) ft) D s"
proof (rule codes_freq)
  have v1: "unat (v + 1) = unat v + 1"
    using v by (subst unat_add_small) simp_all
  then show "freq_ok v (v + 1) ft"
    using v by (simp add: freq_ok_def)
  fix d fs d'
  assume *: "Decode ft d = (fs, d\<lparr>rd_ext := rd_rng d div ft\<rparr>)" "unat v \<le> unat fs" "unat fs < unat (v + 1)"
    "unat fs = unat ft - min (unat (rd_val d) div unat (rd_rng d div ft) + 1) (unat ft)" "rd_rng d div ft \<noteq> 0"
    "Update v (v + 1) ft (d\<lparr>rd_ext := rd_rng d div ft\<rparr>) = Some d'"
  have "fs = v"
    using *(2,3) unfolding v1 word_unat_eq_iff by linarith
  then show "D d = Some (s, d')"
    using * by (intro D) simp_all
qed

lemma unat_bin: "n < 32 \<Longrightarrow> unat (push_bit n 1 :: u32) = 2 ^ n"
proof -
  assume "n < 32"
  then have "(2 :: nat) ^ n < 2 ^ 32"
    by (rule power_strict_increasing) simp
  then show ?thesis
    using unat_of_nat32 [of "2 ^ n"] by (simp add: push_bit_eq_mult)
qed

lemma decodeBin_Decode: "n < 32 \<Longrightarrow> decodeBin n d = Decode (push_bit n 1) d"
proof -
  assume "n < 32"
  then have "(push_bit n 1 :: u32) \<noteq> 0"
    using unat_bin [of n] by (metis power_not_zero unat_0 zero_neq_numeral)
  moreover have "drop_bit n (rd_rng d) = rd_rng d div push_bit n 1"
    by (simp add: drop_bit_eq_div push_bit_eq_mult)
  ultimately show ?thesis
    by (simp add: decodeBin_def Decode_def Let_def)
qed

lemma codes_RawSymbol:
  assumes "unat v < 2 ^ n" "n \<le> 23"
  shows "codes (EncodeRawSymbol v n) (DecodeRawSymbol n) v"
proof -
  have "(2 :: nat) ^ n \<le> 2 ^ 23"
    using assms(2) by (rule power_increasing) simp
  then have "unat (push_bit n 1 :: u32) \<le> 8388608" "unat v < unat (push_bit n 1 :: u32)"
    using assms unat_bin [of n] by (simp_all only:) simp_all
  then have "codes (Encode v (v + 1) (push_bit n 1)) (DecodeRawSymbol n) v"
    using assms(2) by (intro codes_unit) (simp_all add: DecodeRawSymbol_def decodeBin_Decode)
  moreover have "EncodeRawSymbol v n = Encode v (v + 1) (push_bit n 1)"
    by (simp add: EncodeRawSymbol_def fun_eq_iff)
  ultimately show ?thesis
    by simp
qed

lemma fine_clip:
  assumes "0 \<le> s" "nat s = 64 - min (n + 1) 64"
  shows "(if 63 - int n < 0 then 0 else if 63 - int n > 64 then 64 else 63 - int n) = s"
  using assms by (cases "n \<le> 63") (auto simp: min_def)

lemma codes_64Fine:
  assumes "0 \<le> s" "s < 64"
  shows "codes (Encode64FineSym s) Decode64FineSym s"
proof -
  define v where "v = (of_int s :: u32)"
  have uv: "unat v = nat s"
    using assms by (simp add: v_def unat_of_int_small)
  have "codes (Encode v (v + 1) 64) Decode64FineSym s"
  proof (rule codes_unit)
    fix d d'
    assume *: "rd_rng d div 64 \<noteq> 0" "unat v = unat (64 :: u32) - min (unat (rd_val d) div unat (rd_rng d div 64) + 1) (unat (64 :: u32))"
      "Update v (v + 1) 64 (d\<lparr>rd_ext := rd_rng d div 64\<rparr>) = Some d'"
    define q where "q = rd_val d div (rd_rng d div 64)"
    have "unat q = unat (rd_val d) div unat (rd_rng d div 64)"
      by (simp add: q_def unat_div_distrib)
    then have "nat s = 64 - min (unat q + 1) 64"
      using *(2) unfolding uv by simp
    then have clip: "(if 63 - uint q < 0 then 0 else if 63 - uint q > 64 then 64 else 63 - uint q) = s"
      using fine_clip [OF assms(1)] by (simp only: uint_nat)
    have d6: "drop_bit 6 (rd_rng d) = rd_rng d div 64"
      by (simp add: drop_bit_eq_div)
    have sel: "rd_val (d\<lparr>rd_ext := x\<rparr>) = rd_val d" for x
      by simp
    show "Decode64FineSym d = Some (s, d')"
      unfolding Decode64FineSym_def d6 Let_def sel q_def [symmetric] clip v_def [symmetric]
      using *(1,3) by simp
  qed (use assms uv in auto)
  moreover have "Encode64FineSym s = Encode v (v + 1) 64"
    by (simp add: Encode64FineSym_def fun_eq_iff v_def)
  ultimately show ?thesis
    by simp
qed

text \<open>The decoders that search on the range itself and leave \<open>ext\<close> alone.\<close>

lemma codes_search:
  assumes ok: "freq_ok fl fh ft"
    and D: "\<And>d. 8388608 < unat (rd_rng d) \<Longrightarrow> unat (rd_rng d div ft * (ft - fh)) \<le> unat (rd_val d) \<Longrightarrow>
      unat (rd_val d) < unat (rd_rng d) - sub_low (unat (rd_rng d)) (unat fl) (unat ft) \<Longrightarrow>
      D d = dec_normalize (d\<lparr>rd_val := rd_val d - rd_rng d div ft * (ft - fh),
          rd_rng := (if fl > 0 then rd_rng d div ft * (fh - fl) else rd_rng d - rd_rng d div ft * (ft - fh))\<rparr>) \<bind> (\<lambda>d. Some (s, d))"
  shows "codes (Encode fl fh ft) D s"
proof (rule codes_narrow [where lo = "\<lambda>R. sub_low R (unat fl) (unat ft)" and ln = "\<lambda>R. sub_len R (unat fl) (unat fh) (unat ft)"])
  fix R
  show "sub_low R (unat fl) (unat ft) + sub_len R (unat fl) (unat fh) (unat ft) \<le> R"
    using sub_sum [of "unat fl" "unat fh" "unat ft" R] ok by (simp add: freq_ok_def)
next
  fix bs k A and d :: RangeDecoder
  define R where "R = rd_rng d"
  assume inv: "dec_inv bs k A d" and hit: "A + sub_low (unat (rd_rng d)) (unat fl) (unat ft) \<le> code bs k"
    "code bs k < A + sub_low (unat (rd_rng d)) (unat fl) (unat ft) + sub_len (unat (rd_rng d)) (unat fl) (unat fh) (unat ft)"
  define t l where "t = R div ft * (ft - fh)" and "l = (if fl > 0 then R div ft * (fh - fl) else R - t)"
  note w = part_words [OF ok, of R, folded t_def, folded l_def]
  have s: "sub_low (unat R) (unat fl) (unat ft) + unat l + unat t = unat (rd_rng d)"
    using sub_sum [of "unat fl" "unat fh" "unat ft" "unat R"] ok w by (simp add: freq_ok_def R_def)
  have v: "unat (rd_val d) + code bs k + 1 = A + unat R" "8388608 < unat R"
    using inv by (simp_all add: dec_inv_def dec_at_def R_def)
  have "unat t \<le> unat (rd_val d)" "unat (rd_val d) < unat R - sub_low (unat R) (unat fl) (unat ft)"
    using v s hit unfolding w(2) R_def [symmetric] by linarith+
  then have "D d = dec_normalize (d\<lparr>rd_ext := rd_ext d, rd_val := rd_val d - t, rd_rng := l\<rparr>) \<bind> (\<lambda>d. Some (s, d))"
    using D [of d] v(2) unfolding R_def [symmetric] t_def [symmetric] l_def [symmetric] by (simp add: l_def t_def)
  then show "\<exists>d'. D d = Some (s, d') \<and>
      dec_narrow bs k A d (sub_low (unat (rd_rng d)) (unat fl) (unat ft)) (sub_len (unat (rd_rng d)) (unat fl) (unat fh) (unat ft)) d'"
    using dec_narrow_normalize [OF inv s, of "rd_ext d"] hit unfolding w(2) R_def [symmetric] by auto
qed (rule Encode_narrow [OF _ ok])

lemma codes_BitLogp:
  assumes "1 \<le> n" "n \<le> 23"
  shows "codes (enc_BitLogp b n) (dec_BitLogp n) b"
proof -
  define ft :: u32 where "ft = push_bit n 1"
  have uft: "unat ft = 2 ^ n"
    using assms unat_bin [of n] by (simp add: ft_def)
  have "(2 :: nat) ^ 1 \<le> 2 ^ n" "(2 :: nat) ^ n \<le> 2 ^ 23"
    using assms by (intro power_increasing; simp)+
  then have ft: "2 \<le> unat ft" "unat ft \<le> 8388608"
    by (simp_all add: uft)
  have div: "drop_bit n R = R div ft" for R :: u32
    by (simp add: drop_bit_eq_div push_bit_eq_mult ft_def)
  have u1: "unat (ft - 1) = unat ft - 1"
    using ft by (subst unat_sub_small) simp_all
  have pos: "ft \<noteq> 0" "ft - 1 > 0" "ft - (ft - 1) = 1"
    using ft u1 by (auto simp: word_less_nat_alt)
  show ?thesis
  proof (cases b)
    case True
    have "codes (Encode (ft - 1) ft ft) (dec_BitLogp n) True"
    proof (rule codes_search)
      show "freq_ok (ft - 1) ft ft"
        using ft by (simp add: freq_ok_def u1)
      fix d :: RangeDecoder
      assume "unat (rd_val d) < unat (rd_rng d) - sub_low (unat (rd_rng d)) (unat (ft - 1)) (unat ft)"
      then have "rd_val d < rd_rng d div ft"
        using ft div_le_dividend [of "unat (rd_rng d)" "unat ft"] by (simp add: word_less_nat_alt sub_low_def u1 unat_div_distrib)
      then show "dec_BitLogp n d = dec_normalize (d\<lparr>rd_val := rd_val d - rd_rng d div ft * (ft - ft),
          rd_rng := (if ft - 1 > 0 then rd_rng d div ft * (ft - (ft - 1)) else rd_rng d - rd_rng d div ft * (ft - ft))\<rparr>) \<bind> (\<lambda>d. Some (True, d))"
        using pos by (simp add: dec_BitLogp_def div Let_def)
    qed
    moreover have "enc_BitLogp True n = Encode (ft - 1) ft ft"
      using pos by (simp add: enc_BitLogp_def Encode_def div Let_def fun_eq_iff)
    ultimately show ?thesis
      using True by simp
  next
    case False
    have "codes (Encode 0 (ft - 1) ft) (dec_BitLogp n) False"
    proof (rule codes_search)
      show "freq_ok 0 (ft - 1) ft"
        using ft by (simp add: freq_ok_def u1)
      fix d :: RangeDecoder
      assume "unat (rd_rng d div ft * (ft - (ft - 1))) \<le> unat (rd_val d)"
      then have "\<not> rd_val d < rd_rng d div ft"
        by (simp add: pos word_less_nat_alt)
      then show "dec_BitLogp n d = dec_normalize (d\<lparr>rd_val := rd_val d - rd_rng d div ft * (ft - (ft - 1)),
          rd_rng := (if (0 :: u32) < 0 then rd_rng d div ft * (ft - 1 - 0) else rd_rng d - rd_rng d div ft * (ft - (ft - 1)))\<rparr>) \<bind> (\<lambda>d. Some (False, d))"
        using pos by (simp add: dec_BitLogp_def div Let_def)
    qed
    moreover have "enc_BitLogp False n = Encode 0 (ft - 1) ft"
      using pos by (simp add: enc_BitLogp_def Encode_def div Let_def fun_eq_iff)
    ultimately show ?thesis
      using False by simp
  qed
qed

definition icdf_ok :: "bytes \<Rightarrow> nat \<Rightarrow> nat \<Rightarrow> bool" where
  "icdf_ok icdf ftb s \<longleftrightarrow> s < length icdf \<and> ftb \<le> 23 \<and> sorted_wrt (>) icdf \<and> unat (hd icdf) < 2 ^ ftb"

lemma icdf_search_hit:
  "s < length xs \<Longrightarrow> r * ucast (xs ! s) \<le> dv \<Longrightarrow> (\<And>j. j < s \<Longrightarrow> dv < r * ucast (xs ! j)) \<Longrightarrow>
    icdf_search dv r t xs k = (k + s, if s = 0 then t else r * ucast (xs ! (s - 1)), r * ucast (xs ! s))"
proof (induction xs arbitrary: s k t)
  case (Cons x xs)
  show ?case
  proof (cases s)
    case (Suc s')
    then have "dv < r * ucast x" "xs \<noteq> []"
      using Cons.prems(1) Cons.prems(3) [of 0] by auto
    moreover have "dv < r * ucast (xs ! j)" if "j < s'" for j
      using Cons.prems(3) [of "Suc j"] that Suc by simp
    ultimately show ?thesis
      using Cons.IH [of s' "r * ucast x" "k + 1"] Cons.prems(1,2) Suc by (auto simp: not_less Let_def nth_Cons')
  qed (use Cons.prems in \<open>simp add: Let_def\<close>)
qed simp

lemma unat_ucast8: "unat (ucast (w :: u8) :: u32) = unat w"
proof -
  have "unat w < 2 ^ LENGTH(8)"
    by (rule unsigned_less)
  then show ?thesis
    by (simp add: unsigned_ucast_eq take_bit_nat_eq_self)
qed

lemma codes_ICDF:
  assumes ok: "icdf_ok icdf ftb s"
  shows "codes (EncodeICDF s icdf ftb) (DecodeICDF icdf ftb) s"
proof -
  have len: "s < length icdf" and ftb: "ftb \<le> 23" and srt: "sorted_wrt (>) icdf" and hd: "unat (hd icdf) < 2 ^ ftb"
    using ok by (simp_all add: icdf_ok_def)
  have ne: "icdf \<noteq> []"
    using len by auto
  define ft :: u32 where "ft = push_bit ftb 1"
  have uft: "unat ft = 2 ^ ftb"
    using ftb unat_bin [of ftb] by (simp add: ft_def)
  have "(2 :: nat) ^ ftb \<le> 2 ^ 23"
    using ftb by (intro power_increasing) simp_all
  then have ft: "unat ft \<le> 8388608" "ft \<noteq> 0"
    using uft by auto
  have div: "drop_bit ftb R = R div ft" for R :: u32
    by (simp add: drop_bit_eq_div push_bit_eq_mult ft_def)
  have gt: "unat (icdf ! j) < unat (icdf ! i)" if "i < j" "j < length icdf" for i j
    using sorted_wrt_nth_less [OF srt that] by (simp add: word_less_nat_alt)
  have lt: "unat (icdf ! i) < unat ft" if "i < length icdf" for i
    using gt [of 0 i] that hd ne by (cases "i = 0") (auto simp: hd_conv_nth uft)
  define a b :: u32 where "a = ucast (icdf ! (s - 1))" and "b = ucast (icdf ! s)"
  have ab: "unat a < unat ft" "unat b < unat ft" "s > 0 \<Longrightarrow> unat b < unat a"
    using lt [of s] lt [of "s - 1"] gt [of "s - 1" s] len by (simp_all add: a_def b_def unat_ucast8)
  define fl fh where "fl = (if s = 0 then 0 else ft - a)" and "fh = ft - b"
  have u: "unat fl = (if s = 0 then 0 else unat ft - unat a)" "unat fh = unat ft - unat b" "ft - fh = b"
    using ab by (simp_all add: fl_def fh_def unat_sub_small)
  have fok: "freq_ok fl fh ft"
    using ab ft by (auto simp: freq_ok_def u)
  have flpos: "0 < fl \<longleftrightarrow> s > 0"
    using ab by (auto simp: word_less_nat_alt u)
  have E: "EncodeICDF s icdf ftb = Encode fl fh ft"
  proof
    fix e
    have "ucast (icdf ! (s - 1) - icdf ! s) = fh - fl" if "s > 0"
      using that ab by (simp add: word_unat_eq_iff unat_ucast8 u unat_sub_small unat_sub word_le_nat_alt a_def b_def
          fl_def fh_def)
    then show "EncodeICDF s icdf ftb e = Encode fl fh ft e"
      using len ft(2) flpos by (auto simp: EncodeICDF_def Encode_def Let_def idx_def div fl_def a_def b_def u(3) [unfolded b_def])
  qed
  have "codes (Encode fl fh ft) (DecodeICDF icdf ftb) s"
  proof (rule codes_search [OF fok])
    fix d :: RangeDecoder
    define r where "r = rd_rng d div ft"
    assume lo: "unat (rd_rng d div ft * (ft - fh)) \<le> unat (rd_val d)"
      and hi: "unat (rd_val d) < unat (rd_rng d) - sub_low (unat (rd_rng d)) (unat fl) (unat ft)"
    have m: "unat (r * ucast (icdf ! i)) = unat r * unat (icdf ! i)" "unat r * unat (icdf ! i) \<le> unat (rd_rng d)"
      if "i < length icdf" for i
      using unat_part [of "ucast (icdf ! i)" ft "rd_rng d"] lt [OF that] by (simp_all add: unat_ucast8 r_def)
    have "icdf_search (rd_val d) r (rd_rng d) icdf 0 =
        (0 + s, if s = 0 then rd_rng d else r * ucast (icdf ! (s - 1)), r * ucast (icdf ! s))"
    proof (rule icdf_search_hit [OF len])
      show "r * ucast (icdf ! s) \<le> rd_val d"
        using lo by (simp add: word_le_nat_alt u(3) b_def r_def)
      fix j assume j: "j < s"
      then have "unat (rd_val d) < unat r * unat a"
        using hi ab m(2) [of "s - 1"] len by (simp add: sub_low_def u r_def unat_div_distrib a_def unat_ucast8)
      also have "\<dots> \<le> unat r * unat (icdf ! j)"
      proof -
        have "unat (icdf ! (s - 1)) \<le> unat (icdf ! j)"
        proof (cases "j = s - 1")
          case False
          then have "j < s - 1" "s - 1 < length icdf"
            using j len by linarith+
          then show ?thesis
            using gt less_imp_le by blast
        qed simp
        then show ?thesis
          by (simp add: a_def unat_ucast8)
      qed
      finally show "rd_val d < r * ucast (icdf ! j)"
        using j len m(1) [of j] by (simp add: word_less_nat_alt)
    qed
    moreover have "r * a - r * b = r * (fh - fl)" if "s > 0"
      using that by (simp add: fl_def fh_def algebra_simps)
    moreover have "ucast (icdf ! (s - Suc 0)) = a"
      by (simp add: a_def)
    ultimately show "DecodeICDF icdf ftb d = dec_normalize (d\<lparr>rd_val := rd_val d - rd_rng d div ft * (ft - fh),
          rd_rng := (if fl > 0 then rd_rng d div ft * (fh - fl) else rd_rng d - rd_rng d div ft * (ft - fh))\<rparr>) \<bind> (\<lambda>d. Some (s, d))"
      using ne unfolding flpos u(3)
      by (auto simp: DecodeICDF_def div r_def [symmetric] Let_def a_def [symmetric] b_def [symmetric])
  qed
  then show ?thesis
    by (simp add: E)
qed

end
