(* ===== verification/Range_Flush.thy ===== *)
theory Range_Flush
  imports Range_Roundtrip
begin

unbundle bit_operations_syntax

text \<open>
  The end of a range-coded body: \<open>Done\<close> writes bytes whose code lies in the final interval, whatever follows
  them, so a decoder of the body reads the symbols that were written.
\<close>

section \<open>Flushing\<close>

lemma bitlen_bounds: "0 < n \<Longrightarrow> 2 ^ (bitlen n - 1) \<le> n \<and> n < 2 ^ bitlen n"
proof (induction n rule: bitlen.induct)
  case (1 n)
  show ?case
  proof (cases "n div 2 = 0")
    case True
    then have "n = 1"
      using "1.prems" by auto
    then show ?thesis
      by (simp add: bitlen.simps)
  next
    case False
    then have ih: "2 ^ (bitlen (n div 2) - 1) \<le> n div 2" "n div 2 < 2 ^ bitlen (n div 2)"
      using 1 by simp_all
    obtain j where j: "bitlen (n div 2) = Suc j"
      using False by (metis bitlen.simps plus_1_eq_Suc)
    have "bitlen n = Suc (Suc j)"
      using "1.prems" j by (subst bitlen.simps) simp
    then show ?thesis
      using ih j by auto
  qed
qed

lemma and_not_mask: "x AND NOT (mask n) = push_bit n (drop_bit n x)" for x :: u32
  by (rule bit_word_eqI) (auto simp: bit_simps)

lemma unat_and_not_mask: "unat (x AND NOT (mask n) :: u32) = unat x div 2 ^ n * 2 ^ n"
proof -
  have "x AND NOT (mask n) = x - take_bit n x"
    unfolding and_not_mask by (metis add_diff_cancel_right' bits_ident)
  moreover have "unat (take_bit n x) = take_bit n (unat x)"
    by (rule unsigned_take_bit_eq)
  then have "unat (take_bit n x) = unat x mod 2 ^ n"
    by (simp only: take_bit_eq_mod [where 'a = nat])
  ultimately show ?thesis
    by (simp add: unat_sub_small minus_mod_eq_div_mult)
qed

lemma unat_mask: "n \<le> 32 \<Longrightarrow> unat (mask n :: u32) = 2 ^ n - 1"
proof -
  assume "n \<le> 32"
  then have "(2 :: nat) ^ n \<le> 2 ^ 32"
    by (intro power_increasing) simp_all
  then have "(mask n :: nat) < 2 ^ 32"
    unfolding mask_eq_exp_minus_1 using zero_less_power [of "2 :: nat" n] by linarith
  then have "unat (of_nat (mask n) :: u32) = mask n"
    by (rule unat_of_nat32)
  then have "unat (mask n :: u32) = mask n"
    by (simp only: of_nat_mask_eq)
  then show ?thesis
    by (simp only: mask_eq_exp_minus_1 [where 'a = nat])
qed

lemma unat_or_mask: "n \<le> 31 \<Longrightarrow> unat (x AND NOT (mask n) OR mask n :: u32) = unat x div 2 ^ n * 2 ^ n + (2 ^ n - 1)"
proof -
  assume n: "n \<le> 31"
  let ?y = "x AND NOT (mask n)"
  have or: "?y OR mask n = ?y + mask n"
    by (rule disjunctive_add [symmetric]) (auto simp: bit_simps)
  have "unat x < 2 ^ LENGTH(32)"
    by (rule unsigned_less)
  then have "unat x div 2 ^ n < 2 ^ (32 - n)"
    using n by (simp add: div_less_iff_less_mult flip: power_add)
  then have "Suc (unat x div 2 ^ n) * 2 ^ n \<le> 2 ^ (32 - n) * 2 ^ n"
    by (intro mult_right_mono) auto
  then have "unat x div 2 ^ n * 2 ^ n + 2 ^ n \<le> 4294967296"
    using n by (simp flip: power_add)
  moreover have "0 < (2 :: nat) ^ n"
    by simp
  ultimately have "unat x div 2 ^ n * 2 ^ n + (2 ^ n - 1) < 4294967296"
    by linarith
  then show ?thesis
    unfolding or using n by (subst unat_add_small) (simp_all add: unat_and_not_mask unat_mask)
qed

lemma drop_mask: "n \<le> 32 \<Longrightarrow> drop_bit m (mask n :: u32) = mask (n - m)"
  by (rule bit_word_eqI) (auto simp: bit_simps)

lemma round_up:
  fixes v M :: nat
  assumes "0 < M"
  shows "v \<le> (v + (M - 1)) div M * M" and "(v + (M - 1)) div M * M \<le> v + (M - 1)"
proof -
  have "(v + (M - 1)) div M * M + (v + (M - 1)) mod M = v + (M - 1)" "(v + (M - 1)) mod M < M"
    using assms by simp_all
  then show "v \<le> (v + (M - 1)) div M * M" "(v + (M - 1)) div M * M \<le> v + (M - 1)"
    by linarith+
qed

lemma fin_facts:
  fixes v :: u32
  assumes "n \<le> 31" "unat v + (2 ^ n - 1) < 4294967296"
  shows "unat v \<le> unat ((v + mask n) AND NOT (mask n))" and "unat ((v + mask n) AND NOT (mask n)) \<le> unat v + (2 ^ n - 1)"
    and "2 ^ n dvd unat ((v + mask n) AND NOT (mask n))"
    and "unat ((v + mask n) AND NOT (mask n) OR mask n) = unat ((v + mask n) AND NOT (mask n)) + (2 ^ n - 1)"
proof -
  have "unat (v + mask n) = unat v + (2 ^ n - 1)"
    using assms by (subst unat_add_small) (simp_all add: unat_mask)
  then show "unat v \<le> unat ((v + mask n) AND NOT (mask n))" "unat ((v + mask n) AND NOT (mask n)) \<le> unat v + (2 ^ n - 1)"
    "2 ^ n dvd unat ((v + mask n) AND NOT (mask n))"
    "unat ((v + mask n) AND NOT (mask n) OR mask n) = unat ((v + mask n) AND NOT (mask n)) + (2 ^ n - 1)"
    using assms(1) round_up [of "2 ^ n" "unat v"] by (simp_all only: unat_and_not_mask unat_or_mask) simp_all
qed

lemma done_end_facts:
  assumes inv: "enc_inv e" and de: "done_end e = (l, fin)"
  shows "0 \<le> l \<and> l \<le> 9 \<and> 2 ^ nat (31 - l) dvd unat fin \<and> unat (re_val e) \<le> unat fin \<and>
    unat fin + 2 ^ nat (31 - l) \<le> unat (re_val e) + unat (re_rng e)"
proof -
  define v where "v = re_val e"
  define R where "R = unat (re_rng e)"
  have R: "8388608 < R" "R \<le> 2147483648" "unat v + R < 4294967296"
    using inv by (simp_all add: enc_inv_def enc_loose_def v_def R_def)
  define b where "b = ilog (re_rng e)"
  have b: "2 ^ (b - 1) \<le> R" "R < 2 ^ b"
    using bitlen_bounds [of R] R by (simp_all add: b_def ilog_def R_def)
  have "24 \<le> b"
  proof (rule ccontr)
    assume "\<not> 24 \<le> b"
    then have "(2 :: nat) ^ b \<le> 2 ^ 23"
      by (intro power_increasing) simp_all
    with b R show False
      by simp
  qed
  have "b \<le> 32"
  proof (rule ccontr)
    assume "\<not> b \<le> 32"
    then have "(2 :: nat) ^ 32 \<le> 2 ^ (b - 1)"
      by (intro power_increasing) simp_all
    with b R show False
      by simp
  qed
  define n where "n = b - 1"
  have n: "n \<le> 31" "23 \<le> n" "(2 :: nat) ^ n \<le> R"
    using \<open>24 \<le> b\<close> \<open>b \<le> 32\<close> b by (simp_all add: n_def)
  define l0 where "l0 = 32 - int b"
  have l0: "0 \<le> l0" "l0 \<le> 8" "31 - l0 = int n"
    using \<open>24 \<le> b\<close> \<open>b \<le> 32\<close> by (simp_all add: l0_def n_def)
  have "(2147483647 :: u32) = mask 31"
    by (simp add: mask_eq_exp_minus_1)
  then have msk: "drop_bit (nat l0) (2147483647 :: u32) = mask n" "drop_bit 1 (mask n :: u32) = mask (n - 1)"
    using \<open>b \<le> 32\<close> \<open>24 \<le> b\<close> n(1) drop_mask [of 31 "nat l0"] drop_mask [of n 1]
    by (simp_all only:) (simp add: l0_def n_def nat_diff_distrib)
  have M: "(2 :: nat) ^ n = 2 * 2 ^ (n - 1)" "0 < (2 :: nat) ^ (n - 1)"
    using n by (simp_all flip: power_Suc)
  note f = fin_facts [of n v] and g = fin_facts [of "n - 1" v]
  have de': "done_end e = (if (v + mask n) AND NOT (mask n) OR mask n \<ge> v + re_rng e
      then (l0 + 1, (v + mask (n - 1)) AND NOT (mask (n - 1))) else (l0, (v + mask n) AND NOT (mask n)))"
    by (simp only: done_end_def Let_def ec_consts b_def [symmetric] v_def [symmetric]) (simp add: l0_def [symmetric] msk msk(2) [simplified])
  have vr: "unat (v + re_rng e) = unat v + R"
    using R by (subst unat_add_small) (simp_all add: R_def)
  show ?thesis
  proof (cases "(v + mask n) AND NOT (mask n) OR mask n \<ge> v + re_rng e")
    case False
    then have "unat ((v + mask n) AND NOT (mask n)) + (2 ^ n - 1) < unat v + R"
      using f(4) n R(3) by (simp add: word_le_nat_alt vr)
    moreover have "l = l0" "fin = (v + mask n) AND NOT (mask n)"
      using de de' False by auto
    ultimately show ?thesis
      using f n R l0 by (simp add: v_def [symmetric] R_def [symmetric])
  next
    case True
    then have l: "l = l0 + 1" and fin: "fin = (v + mask (n - 1)) AND NOT (mask (n - 1))"
      using de de' by auto
    have "nat (31 - l) = n - 1"
      using l0 n l by linarith
    moreover have "n - 1 \<le> 31" "unat v + (2 ^ (n - 1) - 1) < 4294967296"
      using n R M by linarith+
    note g' = g [OF this, folded fin]
    moreover have "unat fin + 2 ^ (n - 1) \<le> unat v + R"
      using g'(2) n M by linarith
    ultimately show ?thesis
      using l0 l unfolding v_def [symmetric] R_def [symmetric] by simp
  qed
qed

text \<open>The bytes of the end value: they leave nothing of it behind.\<close>

definition flush_pre :: "int \<Rightarrow> u32 \<Rightarrow> RangeEncoder \<Rightarrow> bool" where
  "flush_pre l v e \<longleftrightarrow> enc_wf e \<and> l \<le> 31 \<and> 2 ^ nat (31 - l) dvd unat v \<and> (l \<le> 0 \<longrightarrow> v = 0) \<and>
     (l > 0 \<longrightarrow> unat v + 2 ^ nat (31 - l) < 4294967296) \<and>
     (l > 0 \<and> (re_rem e = - 1 \<or> re_rem e = 255) \<longrightarrow> unat v + 2 ^ nat (31 - l) \<le> 2147483648)"

definition flush_post :: "int \<Rightarrow> u32 \<Rightarrow> RangeEncoder \<Rightarrow> RangeEncoder \<Rightarrow> bool" where
  "flush_post l v e e' \<longleftrightarrow> enc_wf e' \<and> enc_same e e' \<and> re_err e = 0 \<and> (\<exists>k. length (enc_digits e') = length (enc_digits e) + k \<and>
     be_val (enc_digits e') * 2147483648 = 256 ^ k * (be_val (enc_digits e) * 2147483648 + unat v) \<and>
     2147483648 \<le> 256 ^ k * (2 :: nat) ^ nat (31 - l))"

lemma done_range_err: "re_err (done_range l v e) = 0 \<Longrightarrow> re_err e = 0"
  by (induction l v e rule: done_range.induct) (metis carryOut_err done_range.simps)

lemma flush_shift:
  assumes pre: "flush_pre l v e" and l: "0 < l" and er: "re_err (carryOut (uint (drop_bit 23 v)) e) = 0"
  defines "e1 \<equiv> carryOut (uint (drop_bit 23 v)) e" and "v1 \<equiv> push_bit 8 v AND 2147483647"
  shows "flush_pre (l - 8) v1 e1" and "enc_same e e1" and "re_err e = 0" and "length (enc_digits e1) = Suc (length (enc_digits e))"
    and "be_val (enc_digits e1) * 2147483648 + unat v1 = 256 * (be_val (enc_digits e) * 2147483648 + unat v)"
proof -
  define M where "M = (2 :: nat) ^ nat (31 - l)"
  have p: "enc_wf e" "l \<le> 31" "M dvd unat v" "unat v + M < 4294967296" "0 < M"
    "re_rem e = - 1 \<or> re_rem e = 255 \<longrightarrow> unat v + M \<le> 2147483648"
    using pre l by (simp_all add: flush_pre_def M_def)
  note c = carryOut_interval [OF p(1,4,5,6) er, folded e1_def]
  have uv1: "unat v1 = unat v mod 8388608 * 256"
    by (simp add: v1_def enc_val_shift)
  show "enc_same e e1" "re_err e = 0" "length (enc_digits e1) = Suc (length (enc_digits e))"
    "be_val (enc_digits e1) * 2147483648 + unat v1 = 256 * (be_val (enc_digits e) * 2147483648 + unat v)"
    using c by (simp_all add: uv1)
  have "nat (31 - (l - 8)) = nat (31 - l) + 8"
    using p(2) by linarith
  then have M1: "(2 :: nat) ^ nat (31 - (l - 8)) = M * 256"
    by (simp add: M_def power_add)
  show "flush_pre (l - 8) v1 e1"
  proof (cases "0 < l - 8")
    case True
    then have "nat (31 - l) \<le> 22"
      by linarith
    then have "M dvd 2 ^ 23" and "M \<le> 2 ^ 22"
      unfolding M_def by (intro le_imp_power_dvd power_increasing; simp)+
    then have "M dvd unat v mod 8388608"
      using p(3) by (simp add: dvd_mod)
    then have "M * 256 dvd unat v1"
      by (simp add: uv1)
    moreover have "unat v mod 8388608 < 8388608"
      by simp
    ultimately show ?thesis
      using True p(2) c \<open>M \<le> 2 ^ 22\<close> unfolding flush_pre_def M1 uv1 by auto
  next
    case False
    then have "23 \<le> nat (31 - l)"
      using p(2) by linarith
    then have "(2 :: nat) ^ 23 dvd M"
      unfolding M_def by (rule le_imp_power_dvd)
    then have "8388608 dvd unat v"
      using p(3) dvd_trans by fastforce
    then have "unat v1 = 0"
      by (simp add: uv1)
    then show ?thesis
      using False p(2) c by (simp add: flush_pre_def unat_eq_0)
  qed
qed

lemma done_range_post: "flush_pre l v e \<Longrightarrow> re_err (done_range l v e) = 0 \<Longrightarrow> flush_post l v e (done_range l v e)"
proof (induction l v e rule: done_range.induct)
  case (1 l v e)
  show ?case
  proof (cases "0 < l")
    case False
    then have d: "done_range l v e = e"
      by (subst done_range.simps) simp
    have "31 \<le> nat (31 - l)"
      using False by linarith
    then have "(2 :: nat) ^ 31 \<le> 2 ^ nat (31 - l)"
      by (rule power_increasing) simp
    then show ?thesis
      using 1(2,3) False unfolding flush_post_def d
      by (intro conjI exI [of _ 0]) (simp_all add: flush_pre_def enc_same_refl)
  next
    case True
    define e1 where "e1 = carryOut (uint (drop_bit 23 v)) e"
    define v1 where "v1 = push_bit 8 v AND 2147483647"
    have d: "done_range l v e = done_range (l - 8) v1 e1"
      using True by (subst done_range.simps) (simp add: e1_def v1_def)
    have "re_err e1 = 0"
      using 1(3) done_range_err unfolding d by blast
    note s = flush_shift [OF 1(2) True this [unfolded e1_def], folded e1_def v1_def]
    have post: "flush_post (l - 8) v1 e1 (done_range (l - 8) v1 e1)"
      using 1(1) [OF True] s(1) 1(3) by (simp add: d e1_def v1_def)
    then obtain k where k: "length (enc_digits (done_range l v e)) = length (enc_digits e1) + k"
      "be_val (enc_digits (done_range l v e)) * 2147483648 = 256 ^ k * (be_val (enc_digits e1) * 2147483648 + unat v1)"
      "2147483648 \<le> 256 ^ k * (2 :: nat) ^ nat (31 - (l - 8))"
      unfolding flush_post_def d by blast
    have "l \<le> 31"
      using 1(2) by (simp add: flush_pre_def)
    then have "nat (31 - (l - 8)) = nat (31 - l) + 8"
      by linarith
    then have "2147483648 \<le> 256 ^ Suc k * (2 :: nat) ^ nat (31 - l)"
      using k(3) by (simp add: power_add ac_simps)
    then show ?thesis
      using post s(2-5) k(1,2) unfolding flush_post_def d
      by (intro conjI exI [of _ "Suc k"]) (auto intro: enc_same_trans)
  qed
qed

definition flush_pending :: "RangeEncoder \<Rightarrow> RangeEncoder" where
  "flush_pending e = (if re_rem e \<ge> 0 \<or> re_ext e > 0 then carryOut 0 e else e)"

lemma flush_pending_err: "re_err (flush_pending e) = 0 \<Longrightarrow> re_err e = 0"
  by (simp add: flush_pending_def carryOut_err split: if_split_asm)

lemma flush_pending_front:
  assumes "enc_wf e" and er: "re_err (flush_pending e) = 0"
  shows "enc_front (flush_pending e) = enc_digits e" and "enc_wf (flush_pending e)"
proof -
  have "enc_front (flush_pending e) = enc_digits e \<and> enc_wf (flush_pending e)"
  proof (cases "re_rem e \<ge> 0 \<or> re_ext e > 0")
    case False
    then show ?thesis
      using assms(1) by (simp add: flush_pending_def enc_digits_def)
  next
    case True
    have c: "carryOut 0 e = (put_ext 0 (put_rem 0 e))\<lparr>re_rem := 0\<rparr>"
      using carryOut_split [of 0 e] by simp
    have er2: "re_err (put_ext 0 (put_rem 0 e)) = 0"
      using er True by (simp add: flush_pending_def c)
    then have er1: "re_err (put_rem 0 e) = 0"
      unfolding put_ext_def [of _ "put_rem 0 e"] by (auto split: if_split_asm dest: writeBytes_err)
    have "re_rem e < 0 \<or> re_rem e + 0 \<le> 255"
      using assms(1) by (simp add: enc_wf_def)
    note p1 = put_rem_facts [OF assms(1) er1 order_refl this]
    note p2 = put_ext_facts [OF p1(2) er2 disjI1 [OF refl]]
    show ?thesis
      using True p1 p2 by (simp add: flush_pending_def c enc_digits_def enc_wf_def)
  qed
  then show "enc_front (flush_pending e) = enc_digits e" "enc_wf (flush_pending e)"
    by simp_all
qed

text \<open>The raw bits go behind the front bytes.\<close>

lemma writeByteAtEnd_front:
  assumes "enc_wf e"
  shows "enc_front (writeByteAtEnd b e) = enc_front e" and "enc_wf (writeByteAtEnd b e)" and "re_offs (writeByteAtEnd b e) = re_offs e"
    and "re_err (writeByteAtEnd b e) = 0 \<Longrightarrow> re_err e = 0"
  using assms by (auto simp: writeByteAtEnd_def enc_front_def enc_wf_def split: if_split_asm)

lemma done_bits_err: "done_bits w u e = (w', u', e') \<Longrightarrow> re_err e' = 0 \<Longrightarrow> re_err e = 0"
proof (induction w u e rule: done_bits.induct)
  case (1 w u e)
  show ?case
  proof (cases "8 \<le> u")
    case True
    then have "re_err (writeByteAtEnd (w AND 255) e) = 0"
      using 1(1) [unfolded ec_consts] 1(2,3) by (subst (asm) (2) done_bits.simps) auto
    then show ?thesis
      by (simp add: writeByteAtEnd_def split: if_split_asm)
  next
    case False
    then show ?thesis
      using 1(2,3) by (subst (asm) done_bits.simps) auto
  qed
qed

lemma done_bits_front:
  "enc_wf e \<Longrightarrow> done_bits w u e = (w', u', e') \<Longrightarrow>
    enc_front e' = enc_front e \<and> enc_wf e' \<and> re_offs e' = re_offs e \<and> (re_err e' = 0 \<longrightarrow> re_err e = 0)"
proof (induction w u e rule: done_bits.induct)
  case (1 w u e)
  show ?case
  proof (cases "8 \<le> u")
    case True
    then show ?thesis
      using 1(1) [unfolded ec_consts] 1(3) writeByteAtEnd_front [OF 1(2), of "w AND 255"] by (subst (asm) done_bits.simps) auto
  next
    case False
    then show ?thesis
      using 1(2,3) by (subst (asm) done_bits.simps) auto
  qed
qed

definition finish_bits :: "u32 \<Rightarrow> int \<Rightarrow> RangeEncoder \<Rightarrow> RangeEncoder" where
  "finish_bits window used e =
     (if re_err e = 0 then
        (let e = e\<lparr>re_buf := take (re_offs e) (re_buf e) @ replicate (re_storage e - re_endOffs e - re_offs e) 0 @
              drop (re_storage e - re_endOffs e) (re_buf e)\<rparr>
         in if used > 0 then
              if re_endOffs e \<ge> re_storage e - re_offs e then e\<lparr>re_err := - 1\<rparr>
              else (let i = re_storage e - re_endOffs e - 1
                    in e\<lparr>re_buf := (re_buf e)[i := re_buf e ! i OR ucast window]\<rparr>)
            else e)
      else e)"

lemma Done_split:
  "Done e = (let (l, fin) = done_end e; (window, used, e) = (let e = flush_pending (done_range l fin e)
       in done_bits (re_endWindow e) (re_nendBits e) e) in finish_bits window used e)"
  by (simp add: Done_def finish_bits_def flush_pending_def Let_def split: prod.split)

lemma finish_bits_front:
  assumes "enc_wf e" and "re_err (finish_bits w u e) = 0"
  shows "enc_front (finish_bits w u e) = enc_front e \<and> re_offs (finish_bits w u e) = re_offs e \<and> re_endOffs (finish_bits w u e) = re_endOffs e \<and> re_err e = 0 \<and>
    length (re_buf (finish_bits w u e)) = re_storage e"
  using assms by (auto simp: finish_bits_def enc_front_def enc_wf_def Let_def split: if_split_asm)

lemma Done_err:
  assumes "done_end e = (l, fin)" and "re_err (Done e) = 0"
  shows "re_err (flush_pending (done_range l fin e)) = 0"
proof -
  define e2 where "e2 = flush_pending (done_range l fin e)"
  obtain w u e3 where b: "done_bits (re_endWindow e2) (re_nendBits e2) e2 = (w, u, e3)"
    by (metis prod_cases3)
  have "Done e = finish_bits w u e3"
    by (simp add: Done_split assms e2_def [symmetric] b)
  then have "re_err e3 = 0"
    using assms(2) by (auto simp: finish_bits_def split: if_split_asm)
  then show ?thesis
    using done_bits_err [OF b] by (simp add: e2_def)
qed

lemma Done_front:
  assumes de: "done_end e = (l, fin)" and er: "re_err (Done e) = 0" and wf: "enc_wf (flush_pending (done_range l fin e))"
  shows "enc_front (Done e) = enc_front (flush_pending (done_range l fin e)) \<and> re_err (flush_pending (done_range l fin e)) = 0 \<and>
    ConsumedLen (Done e) \<le> length (re_buf (Done e))"
proof -
  define e2 where "e2 = flush_pending (done_range l fin e)"
  obtain w u e3 where b: "done_bits (re_endWindow e2) (re_nendBits e2) e2 = (w, u, e3)"
    by (metis prod_cases3)
  have D: "Done e = finish_bits w u e3"
    by (simp add: Done_split de e2_def [symmetric] b)
  note f = done_bits_front [OF wf [folded e2_def] b]
  show ?thesis
    using f finish_bits_front [of e3 w u] er unfolding D e2_def [symmetric] by (auto simp: enc_wf_def ConsumedLen_def)
qed

lemma stream_take: "n \<le> length bs \<Longrightarrow> stream bs n = be_val (map unat (take n bs))"
  by (induction n) (simp_all add: take_Suc_conv_app_nth byte_at_def)

lemma stream_more: "stream bs n * 256 ^ j \<le> stream bs (n + j) \<and> stream bs (n + j) < (stream bs n + 1) * 256 ^ j"
proof (induction j)
  case (Suc j)
  then show ?case
    using byte_at_less [of bs "n + j"] by auto
qed simp

lemma Done_digits:
  assumes inv: "enc_inv e" and er: "re_err (Done e) = 0" and de: "done_end e = (l, fin)"
  shows "flush_post l fin e (done_range l fin e)" and "enc_front (Done e) = enc_digits (done_range l fin e)"
    and "ConsumedLen (Done e) \<le> length (re_buf (Done e))"
proof -
  note f = done_end_facts [OF inv de]
  have i: "enc_wf e" "unat (re_val e) + unat (re_rng e) < 4294967296"
    "re_rem e = - 1 \<or> re_rem e = 255 \<longrightarrow> unat (re_val e) + unat (re_rng e) \<le> 2147483648"
    using inv by (simp_all add: enc_inv_def enc_loose_def)
  have "fin = 0" if "l = 0"
  proof -
    have "2147483648 dvd unat fin" "unat fin + 2147483648 < 4294967296"
      using f i(2) unfolding that by simp_all
    then have "unat fin = 0"
      using dvd_imp_le [of 2147483648 "unat fin"] by linarith
    then show ?thesis
      by (simp add: unat_eq_0)
  qed
  then have fp: "flush_pre l fin e"
    using f i unfolding flush_pre_def by (intro conjI impI) linarith+
  define e1 where "e1 = done_range l fin e"
  have er2: "re_err (flush_pending e1) = 0"
    unfolding e1_def by (rule Done_err [OF de er])
  show post: "flush_post l fin e (done_range l fin e)"
    by (rule done_range_post [OF fp flush_pending_err [OF er2, unfolded e1_def]])
  then have wf1: "enc_wf e1"
    by (simp add: flush_post_def e1_def)
  note pend = flush_pending_front [OF wf1 er2]
  show "enc_front (Done e) = enc_digits (done_range l fin e)" "ConsumedLen (Done e) \<le> length (re_buf (Done e))"
    using Done_front [OF de er pend(2) [unfolded e1_def]] pend(1) by (simp_all add: e1_def)
qed

text \<open>Every body that starts with the front bytes \<open>Done\<close> leaves codes the final state.\<close>

lemma Done_covers:
  assumes inv: "enc_inv e" and er: "re_err (Done e) = 0"
    and pre: "take (re_offs (Done e)) bs = take (re_offs (Done e)) (re_buf (Done e))" "re_offs (Done e) \<le> length bs"
  shows "covers bs e"
proof -
  obtain l fin where de: "done_end e = (l, fin)"
    by fastforce
  note f = done_end_facts [OF inv de]
  define e1 where "e1 = done_range l fin e"
  note post = Done_digits(1) [OF inv er de, folded e1_def] and D = Done_digits(2,3) [OF inv er de, folded e1_def]
  define n where "n = re_offs (Done e)"
  have fr: "map unat (take n bs) = enc_digits e1"
    using D(1) pre(1) by (simp add: enc_front_def n_def)
  have "length (map unat (take n bs)) = n"
    using pre(2) by (simp add: n_def)
  then have n: "length (enc_digits e1) = n"
    by (simp only: fr)
  obtain k where k: "n = enc_len e + k" "be_val (enc_digits e1) * 2147483648 = 256 ^ k * (be_val (enc_digits e) * 2147483648 + unat fin)"
      "2147483648 \<le> 256 ^ k * (2 :: nat) ^ nat (31 - l)"
    using post unfolding flush_post_def n enc_len_def by blast
  define S where "S = be_val (enc_digits e1)"
  define B where "B = be_val (enc_digits e) * 2147483648 + unat fin"
  define M where "M = (2 :: nat) ^ nat (31 - l)"
  have "stream bs n = S"
    using stream_take [OF pre(2) [folded n_def]] by (simp add: fr S_def)
  then have "S * 4294967296 \<le> stream bs (n + 4)" "stream bs (n + 4) < (S + 1) * 4294967296"
    using stream_more [of bs n 4] by simp_all
  then have c: "S * 2147483648 \<le> code bs (n + 4)" "code bs (n + 4) < S * 2147483648 + 2147483648"
    by (simp_all add: code_def less_eq_div_iff_mult_less_eq div_less_iff_less_mult)
  have "256 ^ k * B \<le> code bs (n + 4)" "code bs (n + 4) < 256 ^ k * (B + M)"
    using c k(2,3) unfolding S_def [symmetric] B_def [symmetric] M_def [symmetric] distrib_left by linarith+
  then have "B \<le> code bs (n + 4) div 256 ^ k" "code bs (n + 4) div 256 ^ k < B + M"
    by (simp_all add: less_eq_div_iff_mult_less_eq div_less_iff_less_mult mult.commute)
  moreover have "code bs (n + 4) div 256 ^ k = code bs (enc_len e + 4)"
    using code_div [of "enc_len e + 4" bs k] by (simp add: k(1) ac_simps)
  ultimately show ?thesis
    using f unfolding covers_def enc_low_def B_def M_def by simp
qed

section \<open>Round trip\<close>

lemma enc_inv_init: "enc_inv (NewRangeEncoder n)"
  by (simp add: NewRangeEncoder_def enc_inv_def enc_loose_def enc_wf_def)

lemma in_step_init: "\<exists>d. NewRangeDecoder bs = Some d \<and> in_step bs (NewRangeEncoder n) d"
proof -
  define d0 where "d0 = \<lparr>rd_buf = bs, rd_storage = length bs, rd_endOffs = 0, rd_endWindow = 0, rd_nendBits = 0,
      rd_nbitsTotal = 9, rd_offs = 0, rd_rng = 128, rd_val = 0, rd_ext = 0, rd_rem = 0, rd_Err = 0\<rparr>"
  define b where "b = byte_at bs 0"
  have b: "b < 256"
    by (simp add: b_def byte_at_less)
  have rb: "readByte d0 = (of_nat b, d0\<lparr>rd_offs := min 1 (length bs)\<rparr>)"
    using readByte_at [of d0 bs 0] by (simp add: d0_def b_def)
  have ub: "uint (of_nat b :: u32) = int b"
    using b by (simp add: unsigned_of_nat take_bit_nat_eq_self)
  define d1 where "d1 = d0\<lparr>rd_offs := min 1 (length bs), rd_rem := int b, rd_val := 127 - of_int (int (b div 2))\<rparr>"
  have N: "NewRangeDecoder bs = dec_normalize d1"
    using ub by (simp add: NewRangeDecoder_def Let_def d0_def [symmetric] rb d1_def drop_bit_eq_div zdiv_int
        del: of_int_of_nat_eq) (simp add: d0_def)
  have "unat (127 - of_int (int (b div 2)) :: u32) = 127 - b div 2"
    using b by (subst unat_sub_small) (simp_all only: unat_of_int_small, simp_all)
  then have "dec_at bs 1 0 d1"
    using b by (simp add: dec_at_def d1_def d0_def code_def b_def [symmetric] del: of_int_of_nat_eq)
  then obtain d j where d: "dec_normalize d1 = Some d" "8388608 < unat (rd_rng d)" "dec_step bs 1 0 d1 j d"
    using dec_normalize_step by blast
  have r: "unat (rd_rng d) = 256 ^ j * 128" "unat (rd_rng d) \<le> 2147483648" "dec_at bs (1 + j) 0 d"
    using d(3) by (simp_all add: dec_step_def dec_at_def d1_def d0_def)
  have "j = 3"
    using norm_unique [of j 128 3] d(2) r by simp
  then have "dec_inv bs 4 0 d" "rd_rng d = 2147483648"
    using d(2) r by (simp_all add: dec_inv_def word_unat_eq_iff)
  then show ?thesis
    using N d by (simp add: in_step_def NewRangeEncoder_def enc_len_def enc_low_def enc_digits_def enc_front_def)
qed

lemma fills_done_range: "fills e (done_range l fin e)"
proof (induction l fin e rule: done_range.induct)
  case (1 l fin e)
  then show ?case
    by (subst done_range.simps) (auto simp: fills_refl intro: fills_trans [OF fills_carryOut])
qed

lemma fills_Done: "re_nendBits e = 0 \<Longrightarrow> fills e (Done e)"
proof -
  assume n: "re_nendBits e = 0"
  obtain l fin where de: "done_end e = (l, fin)"
    by fastforce
  define e2 where "e2 = flush_pending (done_range l fin e)"
  have f: "fills e e2"
    unfolding e2_def flush_pending_def by (auto intro: fills_trans [OF fills_done_range] fills_carryOut fills_done_range)
  then have "re_nendBits e2 = 0"
    using n by (simp add: fills_def)
  then have "Done e = finish_bits (re_endWindow e2) 0 e2"
    by (simp add: Done_split de e2_def [symmetric] done_bits.simps ecSymBits_def)
  then show ?thesis
    using f by (auto simp: fills_def finish_bits_def Let_def)
qed

text \<open>When nothing but symbols is written, an error means that the buffer is full.\<close>

theorem codes_roundtrip:
  assumes "codes E D s"
  shows "\<exists>e. E (NewRangeEncoder n) = Some e \<and> (re_err (Done e) \<noteq> 0 \<longrightarrow> n \<le> ConsumedLen (Done e)) \<and> (re_err (Done e) = 0 \<longrightarrow> ConsumedLen (Done e) \<le> length (Bytes (Done e)) \<and>
    (\<forall>bs. take (re_offs (Done e)) bs = take (re_offs (Done e)) (Bytes (Done e)) \<and> re_offs (Done e) \<le> length bs \<longrightarrow>
      (\<exists>d d'. NewRangeDecoder bs = Some d \<and> D d = Some (s, d'))))"
proof -
  obtain e where e: "E (NewRangeEncoder n) = Some e" "fills (NewRangeEncoder n) e" "re_err e = 0 \<longrightarrow> coded_to (NewRangeEncoder n) D s e"
    using assms enc_inv_init [of n] enc_inv_rng_ok unfolding codes_def by blast
  obtain l fin where de: "done_end e = (l, fin)"
    by fastforce
  have c: "coded_to (NewRangeEncoder n) D s e" "enc_inv e" if "re_err (Done e) = 0"
    using e done_range_err [OF flush_pending_err [OF Done_err [OF de that]]] by (simp_all add: coded_to_def)
  have "\<exists>d d'. NewRangeDecoder bs = Some d \<and> D d = Some (s, d')"
    if er: "re_err (Done e) = 0"
      and bs: "take (re_offs (Done e)) bs = take (re_offs (Done e)) (Bytes (Done e))" "re_offs (Done e) \<le> length bs" for bs
  proof -
    have "covers bs e"
      using Done_covers [OF c(2) [OF er] er] bs by (simp add: Bytes_def)
    then show ?thesis
      using c(1) [OF er] in_step_init [of bs n] unfolding coded_to_def by blast
  qed
  moreover have "fills (NewRangeEncoder n) (Done e)"
    using e(2) by (intro fills_trans [OF e(2) fills_Done]) (simp add: fills_def NewRangeEncoder_def)
  then have "n \<le> ConsumedLen (Done e)" if "re_err (Done e) \<noteq> 0"
    using that by (auto simp: fills_def NewRangeEncoder_def ConsumedLen_def)
  ultimately show ?thesis
    using e(1) Done_digits(3) [OF c(2) _ de] by (auto simp: Bytes_def)
qed

end
