(* ===== verification/Range_Total.thy ===== *)
theory Range_Total
  imports Range_Flush
begin

unbundle bit_operations_syntax

text \<open>
  The range decoder on arbitrary bytes: from every buffer it starts in a good state, and every read against a
  usable table returns a symbol of that table and leaves a good state, so the normalisation loop always ends and
  no index is out of range. Then the round trip of whole symbol sequences.
\<close>

section \<open>Reading arbitrary bytes\<close>

definition dec_good :: "RangeDecoder \<Rightarrow> bool" where
  "dec_good d \<longleftrightarrow> (\<exists>bs k A. dec_inv bs k A d)"

definition reads :: "(RangeDecoder \<Rightarrow> ('a \<times> RangeDecoder) go) \<Rightarrow> ('a \<Rightarrow> bool) \<Rightarrow> bool" where
  "reads D P \<longleftrightarrow> (\<forall>d. dec_good d \<longrightarrow> (\<exists>s d'. D d = Some (s, d') \<and> P s \<and> dec_good d'))"

lemma reads_return: "P s \<Longrightarrow> reads (\<lambda>d. Some (s, d)) P"
  by (simp add: reads_def)

lemma reads_bind:
  assumes "reads D1 P" and "\<And>s. P s \<Longrightarrow> reads (D2 s) Q"
  shows "reads (\<lambda>d. D1 d \<bind> (\<lambda>(s, d). D2 s d)) Q"
  unfolding reads_def
proof (intro allI impI)
  fix d
  assume "dec_good d"
  then obtain s d1 where "D1 d = Some (s, d1)" "P s" "dec_good d1"
    using assms(1) unfolding reads_def by blast
  moreover from this obtain t d2 where "D2 s d1 = Some (t, d2)" "Q t" "dec_good d2"
    using assms(2) unfolding reads_def by blast
  ultimately show "\<exists>s d'. D1 d \<bind> (\<lambda>(s, d). D2 s d) = Some (s, d') \<and> Q s \<and> dec_good d'"
    by auto
qed

lemma reads_mono: "reads D P \<Longrightarrow> (\<And>s. P s \<Longrightarrow> Q s) \<Longrightarrow> reads D Q"
  unfolding reads_def by blast

lemma dec_good_rng: "dec_good d \<Longrightarrow> 8388608 < unat (rd_rng d)"
  by (auto simp: dec_good_def dec_inv_def)

lemma dec_good_upd [simp]: "dec_good (d\<lparr>rd_Err := x\<rparr>) = dec_good d" "dec_good (d\<lparr>rd_ext := y\<rparr>) = dec_good d"
  by (simp_all add: dec_good_def dec_inv_def dec_at_def)

lemma dec_narrow_good: "dec_narrow bs k A d u r d' \<Longrightarrow> dec_good d'"
  by (auto simp: dec_narrow_def dec_good_def)

lemma NewRangeDecoder_good: "\<exists>d. NewRangeDecoder bs = Some d \<and> dec_good d"
  using in_step_init [of bs 0] by (auto simp: in_step_def dec_good_def)

text \<open>The interval of the symbol the decoder picks holds the code.\<close>

lemma pick_bounds:
  fixes val R r ft fl fh :: nat
  assumes "r = R div ft" "0 < r" "fh \<le> ft" "val < R"
    and fs: "fl \<le> ft - min (val div r + 1) ft" "ft - min (val div r + 1) ft < fh"
  shows "r * (ft - fh) \<le> val" and "val < R - sub_low R fl ft"
proof -
  have "ft - fh \<le> val div r"
    using fs(2) assms(3) by (auto simp: min_def split: if_split_asm)
  then show "r * (ft - fh) \<le> val"
    using assms(2) by (simp add: less_eq_div_iff_mult_less_eq mult.commute)
  show "val < R - sub_low R fl ft"
  proof (cases "fl = 0")
    case False
    then have "val div r < ft - fl"
      using fs(1) by (auto simp: min_def split: if_split_asm)
    then have "val < r * (ft - fl)"
      using assms(2) by (simp add: div_less_iff_less_mult mult.commute)
    then show ?thesis
      using False div_mult_le [of "ft - fl" ft R] assms(1) by (simp add: sub_low_def)
  qed (simp add: sub_low_def assms(4))
qed

lemma Decode_value:
  assumes "dec_good d" and ft: "ft \<noteq> 0" "unat ft \<le> 8388608"
  shows "\<exists>fs. Decode ft d = (fs, d\<lparr>rd_ext := rd_rng d div ft\<rparr>) \<and> unat fs < unat ft \<and>
    unat fs = unat ft - min (unat (rd_val d) div (unat (rd_rng d) div unat ft) + 1) (unat ft)"
proof -
  have g: "8388608 < unat (rd_rng d)" "unat (rd_rng d) \<le> 2147483648" "unat (rd_val d) < unat (rd_rng d)"
    using assms(1) by (auto simp: dec_good_def dec_inv_def dec_at_def)
  define r where "r = rd_rng d div ft"
  have "0 < unat ft"
    using ft(1) by (simp add: unat_gt_0)
  have ur: "unat r = unat (rd_rng d) div unat ft"
    by (simp add: r_def unat_div_distrib)
  have "0 < unat r"
    using g ft(2) \<open>0 < unat ft\<close> by (simp add: ur div_greater_zero_iff)
  then have "r \<noteq> 0"
    by auto
  have "unat (rd_val d) div unat r < 4294967295"
    using g div_le_dividend [of "unat (rd_val d)" "unat r"] by linarith
  then have "unat (rd_val d div r + 1) = unat (rd_val d) div unat r + 1"
    by (subst unat_add_small) (simp_all add: unat_div_distrib)
  then have "unat (ft - ecMini (rd_val d div r + 1) ft) = unat ft - min (unat (rd_val d) div unat r + 1) (unat ft)"
    by (auto simp: ecMini_def min_def unat_sub_small word_less_nat_alt)
  moreover have "Decode ft d = (ft - ecMini (rd_val d div r + 1) ft, d\<lparr>rd_ext := r\<rparr>)"
    using ft \<open>r \<noteq> 0\<close> by (simp add: Decode_def r_def [symmetric] Let_def)
  ultimately show ?thesis
    using \<open>0 < unat ft\<close> by (auto simp: r_def unat_div_distrib)
qed

lemma Update_good:
  assumes good: "dec_good d" and ok: "freq_ok fl fh ft" and D: "Decode ft d = (fs, d1)" and fs: "unat fl \<le> unat fs" "unat fs < unat fh"
  shows "\<exists>d'. Update fl fh ft d1 = Some d' \<and> dec_good d'"
proof -
  have ft: "ft \<noteq> 0" "unat ft \<le> 8388608" "unat fl < unat fh" "unat fh \<le> unat ft"
    using ok by (auto simp: freq_ok_def)
  note v = Decode_value [OF good ft(1,2), unfolded D]
  obtain bs k A where inv: "dec_inv bs k A d"
    using good by (auto simp: dec_good_def)
  define R where "R = unat (rd_rng d)"
  have g: "8388608 < R" "unat (rd_val d) < R" "unat (rd_val d) + code bs k + 1 = A + R"
    using inv by (auto simp: dec_inv_def dec_at_def R_def)
  have "0 < R div unat ft"
    using g ft by (simp add: div_greater_zero_iff)
  then have p: "R div unat ft * (unat ft - unat fh) \<le> unat (rd_val d)" "unat (rd_val d) < R - sub_low R (unat fl) (unat ft)"
    using pick_bounds [OF refl _ ft(4) g(2), of "unat fl"] fs v by (auto simp: R_def)
  note s = sub_sum [OF ft(3,4), of R]
  have "A + sub_low R (unat fl) (unat ft) \<le> code bs k"
    "code bs k < A + sub_low R (unat fl) (unat ft) + sub_len R (unat fl) (unat fh) (unat ft)"
    using p g s by linarith+
  from Decode_hit [OF inv ok this [unfolded R_def]] show ?thesis
    unfolding D using dec_narrow_good by auto
qed

lemma reads_unit:
  assumes "ft \<noteq> 0" "unat ft \<le> 8388608"
  shows "reads (\<lambda>d. let (s, d) = Decode ft d in Update s (s + 1) ft d \<bind> (\<lambda>d. Some (s, d))) (\<lambda>s. s < ft)"
  unfolding reads_def
proof (intro allI impI)
  fix d
  assume good: "dec_good d"
  then obtain fs where fs: "Decode ft d = (fs, d\<lparr>rd_ext := rd_rng d div ft\<rparr>)" "unat fs < unat ft"
    using Decode_value [OF good assms] by blast
  then have "unat (fs + 1) = unat fs + 1"
    using assms(2) by (subst unat_add_small) simp_all
  then obtain d' where "Update fs (fs + 1) ft (d\<lparr>rd_ext := rd_rng d div ft\<rparr>) = Some d'" "dec_good d'"
    using Update_good [OF good _ fs(1), of fs "fs + 1"] fs(2) assms by (auto simp: freq_ok_def)
  then show "\<exists>s d'. (let (s, d) = Decode ft d in Update s (s + 1) ft d \<bind> (\<lambda>d. Some (s, d))) = Some (s, d') \<and> s < ft \<and> dec_good d'"
    using fs by (auto simp: word_less_nat_alt)
qed

lemma reads_RawSymbol: "n \<le> 23 \<Longrightarrow> reads (DecodeRawSymbol n) (\<lambda>s. unat s < 2 ^ n)"
proof -
  assume n: "n \<le> 23"
  then have "(2 :: nat) ^ n \<le> 2 ^ 23"
    by (intro power_increasing) simp_all
  then have ft: "unat (push_bit n 1 :: u32) \<le> 8388608" "(push_bit n 1 :: u32) \<noteq> 0"
    using unat_bin [of n] n by (simp, auto simp del: push_bit_of_1)
  have "DecodeRawSymbol n = (\<lambda>d. let (s, d) = Decode (push_bit n 1) d in Update s (s + 1) (push_bit n 1) d \<bind> (\<lambda>d. Some (s, d)))"
    using n by (auto simp: DecodeRawSymbol_def decodeBin_Decode fun_eq_iff)
  then show ?thesis
    using reads_unit [OF ft(2,1)] unat_bin [of n] n by (auto simp: word_less_nat_alt elim!: reads_mono simp del: push_bit_of_1)
qed

lemma cdf_search_range:
  "xs \<noteq> [] \<Longrightarrow> target < ucast (last xs) \<Longrightarrow>
    \<exists>i < length xs. cdf_search target xs k = k + i \<and> target < ucast (xs ! i) \<and> (\<forall>j. j < i \<longrightarrow> ucast (xs ! j) \<le> target)"
proof (induction xs arbitrary: k)
  case (Cons x xs)
  show ?case
  proof (cases "target < ucast x")
    case True
    then show ?thesis
      by (intro exI [of _ 0]) simp
  next
    case False
    then have "xs \<noteq> []" "target < ucast (last xs)"
      using Cons.prems by (auto split: if_split_asm)
    then obtain i where "i < length xs" "cdf_search target xs (k + 1) = k + 1 + i" "target < ucast (xs ! i)"
        "\<forall>j. j < i \<longrightarrow> ucast (xs ! j) \<le> target"
      using Cons.IH by blast
    then show ?thesis
      using False by (intro exI [of _ "Suc i"]) (auto simp: nth_Cons' not_less)
  qed
qed simp

text \<open>A cumulative table is usable when every entry is between the first and the last one.\<close>

definition cdf_bounded :: "u16 list \<Rightarrow> bool" where
  "cdf_bounded cdf \<longleftrightarrow> (\<forall>x \<in> set cdf. hd cdf \<le> x \<and> x \<le> last cdf)"

definition cdf_sym :: "u16 list \<Rightarrow> nat \<Rightarrow> bool" where
  "cdf_sym cdf k \<longleftrightarrow> k = 0 \<and> (length cdf < 2 \<or> last cdf \<le> hd cdf) \<or> Suc k < length cdf \<and> cdf ! k < cdf ! Suc k"

lemma reads_CDF:
  assumes bd: "cdf_bounded cdf"
  shows "reads (DecodeCDF cdf) (cdf_sym cdf)"
  unfolding reads_def
proof (intro allI impI)
  fix d
  assume good: "dec_good d"
  show "\<exists>s d'. DecodeCDF cdf d = Some (s, d') \<and> cdf_sym cdf s \<and> dec_good d'"
  proof (cases "length cdf < 2 \<or> last cdf \<le> hd cdf")
    case True
    then have "DecodeCDF cdf d = Some (0, d\<lparr>rd_Err := 1\<rparr>)"
      by (auto simp: DecodeCDF_def word_le_nat_alt unat_ucast16)
    then show ?thesis
      using good True by (simp add: cdf_sym_def)
  next
    case False
    then have len: "2 \<le> length cdf" and lt: "unat (hd cdf) < unat (last cdf)"
      by (auto simp: word_le_nat_alt)
    obtain c cs where cdf: "cdf = c # cs" "cs \<noteq> []"
      using len by (cases cdf) (auto simp: Suc_le_eq)
    define base ft :: u32 where "base = ucast c" and "ft = ucast (last cdf) - base"
    have le: "unat (cdf ! i) \<le> unat (last cdf)" if "i < length cdf" for i
      using bd that by (simp add: cdf_bounded_def word_le_nat_alt)
    have ub: "unat base = unat c" and uft: "unat ft = unat (last cdf) - unat c"
      using lt cdf by (simp_all add: base_def ft_def unat_ucast16 unat_sub_small)
    have ft: "ft \<noteq> 0" "unat ft \<le> 8388608"
      using lt cdf uft u16_bound [of "last cdf"] by auto
    from Decode_value [OF good this] obtain fs where fs: "Decode ft d = (fs, d\<lparr>rd_ext := rd_rng d div ft\<rparr>)" "unat fs < unat ft"
      by blast
    have target: "unat (base + fs) = unat c + unat fs"
      using fs(2) u16_bound [of "last cdf"] u16_bound [of c] by (subst unat_add_small) (simp_all add: ub uft)
    have "base + fs < ucast (last cs)"
      using fs(2) lt cdf by (simp add: word_less_nat_alt unat_ucast16 target uft)
    then obtain i where i: "i < length cs" "cdf_search (base + fs) cs 0 = i" "base + fs < ucast (cs ! i)"
        "\<forall>j. j < i \<longrightarrow> ucast (cs ! j) \<le> base + fs"
      using cdf_search_range [OF cdf(2), of "base + fs" 0] by auto
    have hi: "unat c + unat fs < unat (cdf ! Suc i)"
      using i(3) cdf by (simp add: word_less_nat_alt unat_ucast16 target)
    have lo: "unat (cdf ! i) \<le> unat c + unat fs"
    proof (cases i)
      case (Suc j)
      then show ?thesis
        using i(4) cdf by (auto simp: word_le_nat_alt unat_ucast16 target)
    qed (simp add: cdf)
    have ge: "unat c \<le> unat (cdf ! j)" if "j < length cdf" for j
    proof -
      have "hd cdf \<le> cdf ! j"
        using bd nth_mem [OF that] by (simp only: cdf_bounded_def)
      then show ?thesis
        by (simp add: cdf(1) word_le_nat_alt)
    qed
    define fl fh where "fl = ucast (cdf ! i) - base" and "fh = ucast (cdf ! Suc i) - base"
    have il: "i < length cdf" "Suc i < length cdf"
      using i(1) cdf by simp_all
    have u: "unat fl = unat (cdf ! i) - unat c" "unat fh = unat (cdf ! Suc i) - unat c"
      using ge [OF il(1)] ge [OF il(2)] by (simp_all add: fl_def fh_def unat_sub_small unat_ucast16 ub)
    have "freq_ok fl fh ft" "unat fl \<le> unat fs" "unat fs < unat fh"
      using lo hi ge [OF il(1)] ge [OF il(2)] le [OF il(2)] ft(2) unfolding freq_ok_def u uft by linarith+
    then obtain d' where d': "Update fl fh ft (d\<lparr>rd_ext := rd_rng d div ft\<rparr>) = Some d'" "dec_good d'"
      using Update_good [OF good _ fs(1)] by blast
    have "\<not> (ucast (last cdf) :: u32) \<le> ucast (hd cdf)"
      using lt by (simp add: word_le_nat_alt unat_ucast16)
    moreover have "ucast (last cs) - base = ft"
      by (simp add: ft_def cdf)
    ultimately have "DecodeCDF cdf d = Some (i, d')"
      using len fs(1) d'(1) i(2) il cdf by (auto simp: DecodeCDF_def base_def [symmetric] fl_def fh_def idx_def Let_def)
    then show ?thesis
      using d'(2) il lo hi by (auto simp: cdf_sym_def word_less_nat_alt)
  qed
qed

lemma reads_64Fine: "reads Decode64FineSym (\<lambda>s. 0 \<le> s \<and> s < 64)"
  unfolding reads_def
proof (intro allI impI)
  fix d
  assume good: "dec_good d"
  obtain fs where fs: "Decode 64 d = (fs, d\<lparr>rd_ext := rd_rng d div 64\<rparr>)" "unat fs < 64"
      "unat fs = 64 - min (unat (rd_val d) div (unat (rd_rng d) div 64) + 1) 64"
    using Decode_value [OF good, of 64] by auto
  define q where "q = rd_val d div (rd_rng d div 64)"
  have "unat q = unat (rd_val d) div (unat (rd_rng d) div 64)"
    by (simp add: q_def unat_div_distrib)
  then have "nat (int (unat fs)) = 64 - min (unat q + 1) 64"
    using fs(3) by (simp only: nat_int)
  then have clip: "(if 63 - uint q < 0 then 0 else if 63 - uint q > 64 then 64 else 63 - uint q) = uint fs"
    using fine_clip [of "int (unat fs)" "unat q"] by (simp only: uint_nat of_nat_0_le_iff)
  have "0 < unat (rd_rng d) div 64"
    using dec_good_rng [OF good] by (simp add: div_greater_zero_iff)
  then have nz: "rd_rng d div 64 \<noteq> 0"
    using unat_div_distrib [of "rd_rng d" 64] by auto
  have "unat (fs + 1) = unat fs + 1"
    using fs(2) by (subst unat_add_small) simp_all
  then obtain d' where d': "Update fs (fs + 1) 64 (d\<lparr>rd_ext := rd_rng d div 64\<rparr>) = Some d'" "dec_good d'"
    using Update_good [OF good _ fs(1), of fs "fs + 1"] fs(2) by (auto simp: freq_ok_def)
  have d6: "drop_bit 6 (rd_rng d) = rd_rng d div 64"
    by (simp add: drop_bit_eq_div)
  have sel: "rd_val (d\<lparr>rd_ext := x\<rparr>) = rd_val d" for x
    by simp
  have "Decode64FineSym d = Some (uint fs, d')"
    unfolding Decode64FineSym_def d6 Let_def sel q_def [symmetric] clip using nz d'(1) by simp
  moreover have "uint fs < 64"
    using fs(2) by (simp only: uint_nat)
  ultimately show "\<exists>s d'. Decode64FineSym d = Some (s, d') \<and> (0 \<le> s \<and> s < 64) \<and> dec_good d'"
    using d'(2) by auto
qed

section \<open>Sequences of symbols\<close>

text \<open>How one symbol is coded, and the writing and reading of one symbol, with symbols as natural numbers.\<close>

datatype model = CdfM "u16 list" | IcdfM bytes nat | LogpM nat | RawM nat | FineM

fun write_sym :: "model \<Rightarrow> nat \<Rightarrow> RangeEncoder \<Rightarrow> RangeEncoder go" where
  "write_sym (CdfM cdf) s = EncodeCDF (int s) cdf"
| "write_sym (IcdfM icdf ftb) s = EncodeICDF s icdf ftb"
| "write_sym (LogpM logp) s = enc_BitLogp (s \<noteq> 0) logp"
| "write_sym (RawM nbits) s = EncodeRawSymbol (of_nat s) nbits"
| "write_sym FineM s = Encode64FineSym (int s)"

fun read_sym :: "model \<Rightarrow> RangeDecoder \<Rightarrow> (nat \<times> RangeDecoder) go" where
  "read_sym (CdfM cdf) = DecodeCDF cdf"
| "read_sym (IcdfM icdf ftb) = DecodeICDF icdf ftb"
| "read_sym (LogpM logp) = (\<lambda>d. map_option (map_prod of_bool id) (dec_BitLogp logp d))"
| "read_sym (RawM nbits) = (\<lambda>d. map_option (map_prod unat id) (DecodeRawSymbol nbits d))"
| "read_sym FineM = (\<lambda>d. map_option (map_prod nat id) (Decode64FineSym d))"

fun sym_ok :: "model \<Rightarrow> nat \<Rightarrow> bool" where
  "sym_ok (CdfM cdf) s = cdf_ok cdf s"
| "sym_ok (IcdfM icdf ftb) s = icdf_ok icdf ftb s"
| "sym_ok (LogpM logp) s = (s < 2 \<and> 1 \<le> logp \<and> logp \<le> 23)"
| "sym_ok (RawM nbits) s = (s < 2 ^ nbits \<and> nbits \<le> 23)"
| "sym_ok FineM s = (s < 64)"

primrec write_all :: "(model \<times> nat) list \<Rightarrow> RangeEncoder \<Rightarrow> RangeEncoder go" where
  "write_all [] = Some"
| "write_all (ms # xs) = (\<lambda>e. write_sym (fst ms) (snd ms) e \<bind> write_all xs)"

primrec read_all :: "model list \<Rightarrow> RangeDecoder \<Rightarrow> (nat list \<times> RangeDecoder) go" where
  "read_all [] = (\<lambda>d. Some ([], d))"
| "read_all (m # ms) = (\<lambda>d. read_sym m d \<bind> (\<lambda>(s, d). read_all ms d \<bind> (\<lambda>(ss, d). Some (s # ss, d))))"

lemma codes_map: "codes E D s \<Longrightarrow> codes E (\<lambda>d. map_option (map_prod f id) (D d)) (f s)"
  unfolding codes_def coded_to_def by fastforce

lemma codes_sym: "sym_ok m s \<Longrightarrow> codes (write_sym m s) (read_sym m) s"
proof (cases m)
  case (LogpM n)
  assume "sym_ok m s"
  then show ?thesis
    using codes_map [OF codes_BitLogp [of n "s \<noteq> 0"], of of_bool] LogpM
    by (cases "s = 0") (auto simp: less_2_cases_iff)
next
  case (RawM n)
  assume *: "sym_ok m s"
  then have "(2 :: nat) ^ n \<le> 2 ^ 23"
    using RawM by (intro power_increasing) simp_all
  then have "unat (of_nat s :: u32) = s"
    using * RawM by (intro unat_of_nat32) simp
  then show ?thesis
    using codes_map [OF codes_RawSymbol [of "of_nat s" n], of unat] RawM * by simp
next
  case FineM
  assume "sym_ok m s"
  then show ?thesis
    using codes_map [OF codes_64Fine [of "int s"], of nat] FineM by simp
qed (simp_all add: codes_CDF codes_ICDF)

lemma map_option_pair: "map_option (map_prod f id) r = r \<bind> (\<lambda>(s, d). Some (f s, d))"
  by (cases r) auto

lemma codes_all: "\<forall>(m, s) \<in> set xs. sym_ok m s \<Longrightarrow> codes (write_all xs) (read_all (map fst xs)) (map snd xs)"
proof (induction xs)
  case Nil
  show ?case
    by (simp add: codes_return)
next
  case (Cons x xs)
  have "codes (\<lambda>e. write_sym (fst x) (snd x) e \<bind> write_all xs)
      (\<lambda>d. read_sym (fst x) d \<bind> (\<lambda>(s, d). read_all (map fst xs) d \<bind> (\<lambda>(ss, d). Some (s # ss, d)))) (snd x # map snd xs)"
  proof (rule codes_bind)
    show "codes (write_sym (fst x) (snd x)) (read_sym (fst x)) (snd x)"
      using Cons.prems by (auto intro: codes_sym)
    have "codes (write_all xs) (read_all (map fst xs)) (map snd xs)"
      using Cons by simp
    from codes_map [OF this, of "(#) (snd x)"]
    show "codes (write_all xs) (\<lambda>d. read_all (map fst xs) d \<bind> (\<lambda>(ss, d). Some (snd x # ss, d))) (snd x # map snd xs)"
      by (simp add: map_option_pair)
  qed
  then show ?case
    by simp
qed

definition model_ok :: "model \<Rightarrow> bool" where
  "model_ok m = (case m of CdfM cdf \<Rightarrow> cdf_bounded cdf | RawM n \<Rightarrow> n \<le> 23 | FineM \<Rightarrow> True | _ \<Rightarrow> False)"

definition sym_in :: "model \<Rightarrow> nat \<Rightarrow> bool" where
  "sym_in m s = (case m of CdfM cdf \<Rightarrow> cdf_sym cdf s | RawM n \<Rightarrow> s < 2 ^ n | _ \<Rightarrow> s < 64)"

lemma reads_map: "reads D P \<Longrightarrow> (\<And>s. P s \<Longrightarrow> Q (f s)) \<Longrightarrow> reads (\<lambda>d. map_option (map_prod f id) (D d)) Q"
  unfolding reads_def by fastforce

lemma reads_sym: "model_ok m \<Longrightarrow> reads (read_sym m) (sym_in m)"
proof (cases m)
  case (CdfM cdf)
  assume "model_ok m"
  then show ?thesis
    using reads_CDF [of cdf] CdfM by (simp add: model_ok_def sym_in_def [abs_def])
next
  case (RawM n)
  assume "model_ok m"
  then show ?thesis
    using RawM by (auto simp: model_ok_def sym_in_def [abs_def] intro: reads_map [OF reads_RawSymbol])
next
  case FineM
  then show ?thesis
    by (auto simp: sym_in_def [abs_def] intro!: reads_map [OF reads_64Fine])
qed (simp_all add: model_ok_def)

lemma reads_all: "list_all model_ok ms \<Longrightarrow> reads (read_all ms) (\<lambda>ss. list_all2 sym_in ms ss)"
proof (induction ms)
  case (Cons m ms)
  have "reads (\<lambda>d. read_sym m d \<bind> (\<lambda>(s, d). read_all ms d \<bind> (\<lambda>(ss, d). Some (s # ss, d)))) (\<lambda>ss. list_all2 sym_in (m # ms) ss)"
  proof (rule reads_bind)
    show "reads (read_sym m) (sym_in m)"
      using Cons.prems by (simp add: reads_sym)
    fix s
    assume "sym_in m s"
    then show "reads (\<lambda>d. read_all ms d \<bind> (\<lambda>(ss, d). Some (s # ss, d))) (\<lambda>ss. list_all2 sym_in (m # ms) ss)"
      using Cons by (intro reads_bind [where P = "\<lambda>ss. list_all2 sym_in ms ss"] reads_return) simp_all
  qed
  then show ?case
    by simp
qed (simp add: reads_def)

text \<open>
  Claim C13. The range coder is lossless: symbols written one after the other against tables they are symbols of
  (cumulative and inverse-cumulative tables, single bits, raw symbols, fine lags) are read back in order, both from
  the whole buffer \<open>Done\<close> leaves and from the \<open>ConsumedLen\<close> bytes of it that go into a frame, unless the encoder
  reports an error. The writes always return.
\<close>

theorem range_coder_roundtrip:
  assumes "\<forall>(m, s) \<in> set xs. sym_ok m s"
  shows "\<exists>e. write_all xs (NewRangeEncoder n) = Some e \<and> (re_err (Done e) = 0 \<longrightarrow>
    (\<forall>bs \<in> {Bytes (Done e), take (ConsumedLen (Done e)) (Bytes (Done e))}.
      \<exists>d d'. NewRangeDecoder bs = Some d \<and> read_all (map fst xs) d = Some (map snd xs, d')))"
proof -
  obtain e where e: "write_all xs (NewRangeEncoder n) = Some e"
    "re_err (Done e) = 0 \<Longrightarrow> ConsumedLen (Done e) \<le> length (Bytes (Done e))"
    "\<And>bs. re_err (Done e) = 0 \<Longrightarrow> take (re_offs (Done e)) bs = take (re_offs (Done e)) (Bytes (Done e)) \<Longrightarrow>
      re_offs (Done e) \<le> length bs \<Longrightarrow> \<exists>d d'. NewRangeDecoder bs = Some d \<and> read_all (map fst xs) d = Some (map snd xs, d')"
    using codes_roundtrip [OF codes_all [OF assms], of n] by blast
  have "take (re_offs (Done e)) bs = take (re_offs (Done e)) (Bytes (Done e)) \<and> re_offs (Done e) \<le> length bs"
    if "re_err (Done e) = 0" "bs \<in> {Bytes (Done e), take (ConsumedLen (Done e)) (Bytes (Done e))}" for bs
    using e(2) that by (auto simp: ConsumedLen_def)
  with e(1,3) show ?thesis
    by blast
qed

definition sample_syms :: "(model \<times> nat) list" where
  "sample_syms = [(CdfM [0, 3, 8], 1), (RawM 3, 5), (FineM, 17), (IcdfM [192, 64, 0] 8, 2), (LogpM 2, 1)]"

definition sample_state :: RangeEncoder where
  "sample_state = \<lparr>re_buf = replicate 8 0, re_storage = 8, re_endOffs = 0, re_endWindow = 0, re_nendBits = 0,
     re_nbitsTotal = 41, re_offs = 0, re_rng = 41943040, re_val = 1300234240, re_ext = 0, re_rem = 201, re_err = 0\<rparr>"

lemma sample_done_end: "done_end sample_state = (6, 1308622848)"
proof -
  have "ilog 41943040 = 26"
    by (simp add: ilog_def bitlen.simps)
  then show ?thesis
    by (simp add: done_end_def sample_state_def Let_def)
qed

lemmas enc_eval = enc_normalize.simps enc_shift_def carryOut_def writeByte_def Encode_def EncodeCDF_def EncodeRawSymbol_def
  Encode64FineSym_def EncodeICDF_def enc_BitLogp_def NewRangeEncoder_def idx_def Let_def

lemma sample_written: "write_all sample_syms (NewRangeEncoder 8) = Some sample_state"
  by (simp add: sample_syms_def sample_state_def enc_eval)

lemma sample_done: "re_err (Done sample_state) = 0"
  unfolding Done_split sample_done_end
  by (simp add: sample_state_def done_range.simps flush_pending_def carryOut_def writeByte_def done_bits.simps finish_bits_def Let_def)

theorem range_coder_roundtrip_witness:
  "re_err (Done sample_state) = 0 \<and> write_all sample_syms (NewRangeEncoder 8) = Some sample_state \<and>
    (\<exists>d d'. NewRangeDecoder (take (ConsumedLen (Done sample_state)) (Bytes (Done sample_state))) = Some d \<and>
      read_all (map fst sample_syms) d = Some ([1, 5, 17, 2, 1], d'))"
proof -
  have ok: "\<forall>(m, s) \<in> set sample_syms. sym_ok m s"
    by (simp add: sample_syms_def cdf_ok_def icdf_ok_def)
  have "map snd sample_syms = [1, 5, 17, 2, 1]"
    by (simp add: sample_syms_def)
  then show ?thesis
    using range_coder_roundtrip [OF ok, of 8] sample_done sample_written by auto
qed

text \<open>
  Claim C24. The range decoder returns on every byte sequence: from any buffer, also an empty one, and against any
  list of tables whose entries lie between their first and last one, raw symbols of at most 23 bits and fine lags,
  every read ends with a symbol of its table, without an endless normalisation and without an index out of range.
\<close>

theorem range_decoder_total:
  assumes "list_all model_ok ms"
  shows "\<exists>d ss d'. NewRangeDecoder bs = Some d \<and> read_all ms d = Some (ss, d') \<and> list_all2 sym_in ms ss"
  using NewRangeDecoder_good [of bs] reads_all [OF assms] unfolding reads_def by blast

theorem range_decoder_total_witness:
  "\<exists>d ss d'. NewRangeDecoder [255, 0, 7] = Some d \<and> read_all [CdfM [0, 3, 8], FineM, CdfM [5, 5]] d = Some (ss, d') \<and>
    list_all2 sym_in [CdfM [0, 3, 8], FineM, CdfM [5, 5]] ss"
  by (rule range_decoder_total) (simp add: model_ok_def cdf_bounded_def)

end
