(* ===== verification/Mlow_Tables.thy ===== *)
theory Mlow_Tables
  imports Range_Total "HOL-Library.Signed_Division"
begin

unbundle bit_operations_syntax

text \<open>
  The entropy-coding tables of the speech codec (\<^verbatim>\<open>internal/voip/codec/mlow/cc_tables.go\<close> and the table builders
  of \<^verbatim>\<open>pitch_seed.go\<close> and \<^verbatim>\<open>celp_enc.go\<close>): the fixed-point helpers, the builders of cumulative tables, the table
  set with its accessors, and the reader of the packed seed. The seed blobs are binary files of the repository,
  so the tables themselves are arguments of what uses them. \<open>int32\<close> values are integers; \<open>s16\<close> and \<open>s32\<close> are Go's
  conversions, written where a result may leave the type.
\<close>

section \<open>Signed conversions and fixed-point helpers\<close>

definition s16 :: "int \<Rightarrow> int" where "s16 x = signed_take_bit 15 x"
definition s32 :: "int \<Rightarrow> int" where "s32 x = signed_take_bit 31 x"

definition idx_int :: "'a list \<Rightarrow> int \<Rightarrow> 'a go" where
  "idx_int xs i = (if 0 \<le> i then idx xs (nat i) else None)"

definition slice_int :: "'a list \<Rightarrow> int \<Rightarrow> int \<Rightarrow> 'a list go" where
  "slice_int xs i j = (if 0 \<le> i \<and> 0 \<le> j then slice xs (nat i) (nat j) else None)"

definition ccSmulbb :: "int \<Rightarrow> int \<Rightarrow> int" where
  "ccSmulbb a b = s32 (s16 a * s16 b)"

definition ccSmlawb :: "int \<Rightarrow> int \<Rightarrow> int \<Rightarrow> int" where
  "ccSmlawb a b c = s32 (a + drop_bit 16 (b * s16 c))"

definition ccClzFrac :: "int \<Rightarrow> int \<times> int" where
  "ccClzFrac inp =
     (let u = of_int inp :: u32;
          lz = 32 - int (ilog u);
          fracQ7 = uint (word_rotr (nat ((24 - lz) AND 31)) u AND 127)
      in (lz, fracQ7))"

definition ccLin2log :: "int \<Rightarrow> int" where
  "ccLin2log inLin =
     (let (lz, fracQ7) = ccClzFrac inLin
      in s32 (ccSmlawb fracQ7 (fracQ7 * (128 - fracQ7)) 179 + push_bit 7 (31 - lz)))"

definition log2lin_inner :: "int \<Rightarrow> int" where
  "log2lin_inner fracQ7 = ccSmlawb fracQ7 (ccSmulbb fracQ7 (128 - fracQ7)) (- 174)"

definition ccLog2lin :: "int \<Rightarrow> int" where
  "ccLog2lin inLogQ7 =
     (if inLogQ7 < 0 then 0
      else if inLogQ7 \<ge> 3967 then 2147483647
      else
        (let out = s32 (push_bit (nat (drop_bit 7 inLogQ7)) 1);
             fracQ7 = inLogQ7 AND 127;
             inner = log2lin_inner fracQ7
         in if inLogQ7 < 2048 then s32 (out + drop_bit 7 (s32 (out * inner)))
            else s32 (out + s32 (drop_bit 7 out * inner))))"

definition sigm_slope :: "int list" where "sigm_slope = [237, 153, 73, 30, 12, 7]"
definition sigm_pos :: "int list" where "sigm_pos = [16384, 23955, 28861, 31213, 32178, 32548]"
definition sigm_neg :: "int list" where "sigm_neg = [16384, 8812, 3906, 1554, 589, 219]"

definition ccSigmQ15 :: "int \<Rightarrow> int" where
  "ccSigmQ15 inQ5 =
     (if inQ5 < 0 then
        (let v = - inQ5 in
         if v \<ge> 6 * 32 then 0
         else (let ind = nat (drop_bit 5 v) in sigm_neg ! ind - ccSmulbb (sigm_slope ! ind) (v AND 31)))
      else if inQ5 \<ge> 6 * 32 then 32767
      else (let ind = nat (drop_bit 5 inQ5) in sigm_pos ! ind + ccSmulbb (sigm_slope ! ind) (inQ5 AND 31)))"

section \<open>Cumulative tables\<close>

text \<open>The second loop of \<open>pdfToCmf\<close> and its relatives: every symbol gets at least one unit.\<close>

fun cmf_sums :: "u16 \<Rightarrow> int list \<Rightarrow> u16 list" where
  "cmf_sums c [] = [c]"
| "cmf_sums c (p # ps) = c # cmf_sums (of_int (s32 (uint c + s32 p))) ps"

definition pdfToCmf :: "int list \<Rightarrow> u16 list go" where
  "pdfToCmf pdf =
     (let n = int (length pdf); sump = sum_list pdf in
      if pdf \<noteq> [] \<and> sump = 0 then None
      else Some (cmf_sums 0 (map (\<lambda>x. (x * (32767 - n)) sdiv sump + 1) pdf)))"

definition ccLog2Exp1Q15 :: int where "ccLog2Exp1Q15 = 47274"
definition ccLog22piQ14 :: int where "ccLog22piQ14 = 43442"
definition ccOneQ31 :: int where "ccOneQ31 = 2147483648"

definition ccStirling :: "int \<Rightarrow> int" where
  "ccStirling n =
     (if n = 0 then 0
      else
        (let ret = s32 ((2 * n + 1) * push_bit 7 (ccLin2log n));
             ret = s32 (ret - ccLog2Exp1Q15 * n);
             ret = s32 (ret + ccLog22piQ14)
         in s32 (ret + ccLog2Exp1Q15 sdiv (12 * n))))"

definition ccProbSplitFast :: "int \<Rightarrow> int \<Rightarrow> int go" where
  "ccProbSplitFast k n =
     (let tmp = s32 (ccStirling n - ccStirling k - ccStirling (n - k) - n * 32768) in
      if tmp = 0 then Some 1073741824
      else
        (let ret = ccLog2lin (drop_bit 8 (s32 (- tmp))) in
         if ret = 0 then None else Some (1073741824 sdiv ret)))"

definition ccMaxPulsesPerSf :: int where "ccMaxPulsesPerSf = 40"
definition ccRunlengthStep :: int where "ccRunlengthStep = 8"
definition ccNumRunlenCmfs :: nat where "ccNumRunlenCmfs = 20"
definition ccSplitNumTables :: int where "ccSplitNumTables = ccMaxPulsesPerSf * 4 - 1"

fun map_go :: "('a \<Rightarrow> 'b go) \<Rightarrow> 'a list \<Rightarrow> 'b list go" where
  "map_go f [] = Some []"
| "map_go f (x # xs) = do { y \<leftarrow> f x; ys \<leftarrow> map_go f xs; Some (y # ys) }"

definition split_row :: "int \<Rightarrow> u16 list go" where
  "split_row numPulses =
     (let minSplit = max (numPulses - ccMaxPulsesPerSf * 2) 0; maxSplit = numPulses - minSplit
      in map_go (\<lambda>k. ccProbSplitFast k numPulses) [minSplit..maxSplit] \<bind> pdfToCmf)"

definition ccCreateSplitCmfs :: "u16 list list go" where
  "ccCreateSplitCmfs = map_go split_row [1..ccSplitNumTables]"

record runlenCmfs =
  rl_maxSamples :: int
  rl_cmfs :: "u16 list list"

text \<open>One step of the inner loop of \<open>ccCreateRunlenTable\<close>: the probability of stopping at \<open>nums\<close>.\<close>

definition runlen_scale :: "int \<Rightarrow> int \<Rightarrow> int" where
  "runlen_scale ms nump =
     (let logOutQ7 = (if nump > ms then ccLin2log (push_bit 10 nump sdiv ms) - 10 * 128
            else - (ccLin2log (push_bit 10 ms sdiv nump) - 10 * 128))
      in 36000 - drop_bit 15 (s32 ((36000 - 26000) * ccSigmQ15 (drop_bit 2 logOutQ7 + 146))))"

definition runlen_p1 :: "int \<Rightarrow> int \<Rightarrow> int \<Rightarrow> int" where
  "runlen_p1 ms nump nums =
     (let tmp = ccOneQ31 - ccOneQ31 sdiv (ms - nums + 1);
          p1 = ((\<lambda>p. drop_bit 31 (p * tmp)) ^^ nat (nump - 1)) tmp;
          p1 = min (ccOneQ31 - p1) 2147376274
      in min (ccOneQ31 - ccLog2lin (s32 (drop_bit 15 (s32 (runlen_scale ms nump * (ccLin2log (s32 (ccOneQ31 - p1)) - 31 * 128))) + 31 * 128)))
           2147376274)"

fun runlen_pdf :: "int \<Rightarrow> int \<Rightarrow> int \<Rightarrow> int list \<Rightarrow> int list" where
  "runlen_pdf ms nump plonger [] = []"
| "runlen_pdf ms nump plonger (nums # rest) =
     (let p1 = runlen_p1 ms nump nums
      in s32 (drop_bit 31 (plonger * p1)) # runlen_pdf ms nump (drop_bit 31 (plonger * (ccOneQ31 - p1))) rest)"

definition ccCreateRunlenTable :: "int \<Rightarrow> runlenCmfs go" where
  "ccCreateRunlenTable ms = do {
     cmfs \<leftarrow> map_go (\<lambda>nump. pdfToCmf (runlen_pdf ms nump ccOneQ31 [1..ms])) [1..ccMaxPulsesPerSf];
     Some \<lparr>rl_maxSamples = ms, rl_cmfs = cmfs\<rparr> }"

definition rl_Cmf :: "runlenCmfs \<Rightarrow> int \<Rightarrow> u16 list go" where
  "rl_Cmf r c = idx_int (rl_cmfs r) (c - 1)"

text \<open>The expansion of a table of square-root frequencies: \<open>celpDcmfToCmf\<close> behind \<open>ccDcmf\<close>, and \<open>pitchDcmfToCmf\<close>.\<close>

definition dcmf_weight :: "u8 \<Rightarrow> int" where
  "dcmf_weight b = min ((uint b + 1) * (uint b + 1)) 65535"

fun celp_sums :: "int \<Rightarrow> int \<Rightarrow> u16 \<Rightarrow> int list \<Rightarrow> u16 list" where
  "celp_sums n tot c [] = [c]"
| "celp_sums n tot c (w # ws) = c # celp_sums n tot (c + of_int (s32 (w * (32767 - n)) sdiv tot) + 1) ws"

definition ccDcmf :: "bytes \<Rightarrow> u16 list" where
  "ccDcmf dcmf = (let ws = map dcmf_weight dcmf in celp_sums (int (length dcmf)) (s32 (sum_list ws)) 0 ws)"

fun ccDcmfChunks :: "bytes \<Rightarrow> nat \<Rightarrow> u16 list list" where
  "ccDcmfChunks b step = (if step = 0 \<or> length b < step then [] else ccDcmf (take step b) # ccDcmfChunks (drop step b) step)"

declare ccDcmfChunks.simps [simp del]

fun pitch_sums :: "int \<Rightarrow> int \<Rightarrow> u32 \<Rightarrow> int list \<Rightarrow> u32 list" where
  "pitch_sums n tot c [] = [c]"
| "pitch_sums n tot c (w # ws) = c # pitch_sums n tot (of_int (uint c + (w * (32767 - n) sdiv tot + 1))) ws"

definition pitchDcmfToCmf :: "bytes \<Rightarrow> u32 list" where
  "pitchDcmfToCmf dcmf = (let ws = map dcmf_weight dcmf in pitch_sums (int (length dcmf)) (sum_list ws) 0 ws)"

section \<open>The packed seed\<close>

text \<open>
  A protobuf message: \<open>readVarint\<close> returns the value and what is left, \<open>None\<close> when the bytes end first. Shifts of
  64 and more drop the bits, as Go's do. A length so large that \<open>i + int(ln)\<close> may wrap makes Go's slice
  expression panic; the model takes every length from \<open>2 ^ 62\<close> on for one.
\<close>

fun readVarint :: "u64 \<Rightarrow> nat \<Rightarrow> bytes \<Rightarrow> (u64 \<times> bytes) option" where
  "readVarint v shift [] = None"
| "readVarint v shift (c # b) =
     (let v = v OR push_bit shift (ucast (c AND 127)) in if c AND 128 = 0 then Some (v, b) else readVarint v (shift + 7) b)"

lemma readVarint_shorter: "readVarint v sh b = Some (w, b') \<Longrightarrow> length b' < length b"
  by (induction v sh b rule: readVarint.induct) (auto simp: Let_def split: if_split_asm)

datatype protoField = Varint u64 | Field_bytes bytes

function parseProto :: "(nat \<rightharpoonup> protoField) \<Rightarrow> bytes \<Rightarrow> (nat \<rightharpoonup> protoField) go" where
  "parseProto m b =
     (case readVarint 0 0 b of
        None \<Rightarrow> Some m
      | Some (key, b1) \<Rightarrow>
          (let field = unat (drop_bit 3 key); wire = key AND 7 in
           if wire = 0 then
             (case readVarint 0 0 b1 of None \<Rightarrow> Some m | Some (v, b2) \<Rightarrow> parseProto (m(field \<mapsto> Varint v)) b2)
           else if wire = 2 then
             (case readVarint 0 0 b1 of
                None \<Rightarrow> Some m
              | Some (ln, b2) \<Rightarrow>
                  if ln \<ge> push_bit 62 1 then None
                  else if unat ln > length b2 then Some m
                  else parseProto (m(field \<mapsto> Field_bytes (take (unat ln) b2))) (drop (unat ln) b2))
           else Some m))"
  by pat_completeness auto
termination
  by (relation "measure (\<lambda>(_, b). length b)") (auto dest!: readVarint_shorter)

declare parseProto.simps [simp del]

text \<open>A packed field of signed varints; the last one may be cut short.\<close>

fun zigzag_read :: "u64 \<Rightarrow> nat \<Rightarrow> bytes \<Rightarrow> u64 \<times> bytes" where
  "zigzag_read v shift [] = (v, [])"
| "zigzag_read v shift (c # b) =
     (let v = v OR push_bit shift (ucast (c AND 127)) in if c AND 128 = 0 then (v, b) else zigzag_read v (shift + 7) b)"

lemma zigzag_read_shorter: "zigzag_read v sh b = (w, b') \<Longrightarrow> length b' \<le> length b"
  by (induction v sh b rule: zigzag_read.induct) (auto simp: Let_def split: if_split_asm)

lemma zigzag_read_Cons_shorter: "zigzag_read v sh (c # b) = (w, b') \<Longrightarrow> length b' < Suc (length b)"
  by (auto simp: Let_def split: if_split_asm dest: zigzag_read_shorter)

definition unzigzag :: "u64 \<Rightarrow> int" where
  "unzigzag v = s32 (uint (drop_bit 1 v XOR (- (v AND 1))))"

function decodeZigzagVarints :: "bytes \<Rightarrow> int list" where
  "decodeZigzagVarints b = (if b = [] then [] else (let (v, b') = zigzag_read 0 0 b in unzigzag v # decodeZigzagVarints b'))"
  by pat_completeness auto
termination
proof (relation "measure length")
  fix b :: bytes and x v b'
  assume "b \<noteq> []" "x = zigzag_read 0 0 b" "(v, b') = x"
  then show "(b', b) \<in> measure length"
    by (cases b) (auto dest: zigzag_read_Cons_shorter [OF sym] simp del: zigzag_read.simps)
qed simp

declare decodeZigzagVarints.simps [simp del]

record ccSeed =
  cs_nrgresGain4Dcmf :: bytes
  cs_nrgresShape4Dcmf :: bytes
  cs_fcbgOffsetDcmf :: bytes
  cs_acbgainsHrDcmf :: bytes
  cs_fcbgainsVDcmf :: bytes
  cs_fcbgainsVDeltaDcmf :: bytes
  cs_acbgainsCbHrQ14 :: "int list"
  cs_gainReconBase :: u32
  cs_gainRecon :: bytes
  cs_nPulsesDcmfBgn :: bytes
  cs_nPulsesDcmfUv :: bytes
  cs_nPulsesDcmfV :: bytes

definition field_bytes :: "(nat \<rightharpoonup> protoField) \<Rightarrow> nat \<Rightarrow> bytes" where
  "field_bytes f i = (case f i of Some (Field_bytes b) \<Rightarrow> b | _ \<Rightarrow> [])"

definition field_varint :: "(nat \<rightharpoonup> protoField) \<Rightarrow> nat \<Rightarrow> u64" where
  "field_varint f i = (case f i of Some (Varint v) \<Rightarrow> v | _ \<Rightarrow> 0)"

text \<open>\<open>loadCcSeed\<close> behind the inflation of the embedded blob.\<close>

definition loadCcSeed :: "bytes \<Rightarrow> ccSeed go" where
  "loadCcSeed raw = do {
     f \<leftarrow> parseProto Map.empty raw;
     Some \<lparr>cs_nrgresGain4Dcmf = field_bytes f 1, cs_nrgresShape4Dcmf = field_bytes f 2, cs_fcbgOffsetDcmf = field_bytes f 3,
       cs_acbgainsHrDcmf = field_bytes f 4, cs_fcbgainsVDcmf = field_bytes f 5, cs_fcbgainsVDeltaDcmf = field_bytes f 6,
       cs_acbgainsCbHrQ14 = decodeZigzagVarints (field_bytes f 7), cs_gainReconBase = ucast (field_varint f 8),
       cs_gainRecon = field_bytes f 9, cs_nPulsesDcmfBgn = field_bytes f 10, cs_nPulsesDcmfUv = field_bytes f 11,
       cs_nPulsesDcmfV = field_bytes f 12\<rparr> }"

section \<open>The table set\<close>

record CcTables =
  nrgresGain4 :: "u16 list"
  nrgresShape4 :: "u16 list"
  fcbgOffset :: "u16 list list"
  acbgainsHr :: "u16 list"
  acbgainsLr :: "u16 list"
  fcbgainsV :: "u16 list"
  fcbgainsVDelta :: "u16 list"
  acbgainsCbHrQ14 :: "int list"
  acbgainsCbLrQ14 :: "int list"
  gainRecon_tab :: "int list"
  gainReconBase :: u32
  nPulseCmfs :: "u16 list list"
  splitCmfs :: "u16 list list"
  runlen_tab :: "runlenCmfs list"

definition ccAcbgN :: nat where "ccAcbgN = 16"
definition ccFcbgVN :: int where "ccFcbgVN = 34"
definition ccFcbgOffsetSteps :: nat where "ccFcbgOffsetSteps = 176"
definition ccFcbgOffsetBuckets :: int where "ccFcbgOffsetBuckets = 4"

fun int16_pairs :: "bytes \<Rightarrow> int list" where
  "int16_pairs (a # b # r) = sint (ucast a OR push_bit 8 (ucast b) :: u16) # int16_pairs r"
| "int16_pairs r = []"

text \<open>\<open>ccSeed.build\<close>; the constant low-rate tables of \<^verbatim>\<open>celp_enc.go\<close> are its first two arguments.\<close>

definition build :: "bytes \<Rightarrow> int list \<Rightarrow> ccSeed \<Rightarrow> CcTables go" where
  "build celpAcbgainsDcmfLR cbAcbgainsLRQ14 s = do {
     split \<leftarrow> ccCreateSplitCmfs;
     rl \<leftarrow> map_go (\<lambda>oct. ccCreateRunlenTable (int oct * ccRunlengthStep)) [1..<ccNumRunlenCmfs + 1];
     Some \<lparr>nrgresGain4 = ccDcmf (cs_nrgresGain4Dcmf s), nrgresShape4 = ccDcmf (cs_nrgresShape4Dcmf s),
       fcbgOffset = ccDcmfChunks (cs_fcbgOffsetDcmf s) ccFcbgOffsetSteps,
       acbgainsHr = concat (ccDcmfChunks (cs_acbgainsHrDcmf s) ccAcbgN), acbgainsLr = concat (ccDcmfChunks celpAcbgainsDcmfLR ccAcbgN),
       fcbgainsV = ccDcmf (cs_fcbgainsVDcmf s), fcbgainsVDelta = ccDcmf (cs_fcbgainsVDeltaDcmf s),
       acbgainsCbHrQ14 = map s16 (cs_acbgainsCbHrQ14 s), acbgainsCbLrQ14 = cbAcbgainsLRQ14,
       gainRecon_tab = int16_pairs (cs_gainRecon s), gainReconBase = cs_gainReconBase s,
       nPulseCmfs = [ccDcmf (cs_nPulsesDcmfBgn s), ccDcmf (cs_nPulsesDcmfUv s), ccDcmf (cs_nPulsesDcmfV s)],
       splitCmfs = split, runlen_tab = rl\<rparr> }"

definition FcbgOffset :: "CcTables \<Rightarrow> int \<Rightarrow> int \<Rightarrow> int \<Rightarrow> u16 list go" where
  "FcbgOffset t tableIx bucket minOffset = do {
     row \<leftarrow> idx_int (fcbgOffset t) (tableIx * ccFcbgOffsetBuckets + bucket);
     slice_int row minOffset (minOffset + 92) }"

definition AcbgainRow :: "CcTables \<Rightarrow> int \<Rightarrow> u16 list go" where
  "AcbgainRow t prev = (let base = (prev + 1) * 17 in slice_int (acbgainsHr t) base (base + 17))"

definition AcbgainRowLr :: "CcTables \<Rightarrow> int \<Rightarrow> u16 list go" where
  "AcbgainRowLr t prev = (let base = (prev + 1) * 17 in slice_int (acbgainsLr t) base (base + 17))"

definition AcbgainWeights :: "CcTables \<Rightarrow> int \<Rightarrow> (int \<times> int) go" where
  "AcbgainWeights t gi = do {
     a \<leftarrow> idx_int (acbgainsCbHrQ14 t) (gi * 2); b \<leftarrow> idx_int (acbgainsCbHrQ14 t) (gi * 2 + 1); Some (a, b) }"

definition AcbgainWeightsLr :: "CcTables \<Rightarrow> int \<Rightarrow> (int \<times> int) go" where
  "AcbgainWeightsLr t gi = do {
     a \<leftarrow> idx_int (acbgainsCbLrQ14 t) (gi * 2); b \<leftarrow> idx_int (acbgainsCbLrQ14 t) (gi * 2 + 1); Some (a, b) }"

definition FcbgainVDelta :: "CcTables \<Rightarrow> int \<Rightarrow> u16 list go" where
  "FcbgainVDelta t prevFilt = (let start = ccFcbgVN - 1 - prevFilt in slice_int (fcbgainsVDelta t) start (start + 35))"

definition gainReconAt :: "CcTables \<Rightarrow> u32 \<Rightarrow> int" where
  "gainReconAt t addr =
     (let off = unat (addr - gainReconBase t) in
      if off mod 2 = 0 \<and> off div 2 < length (gainRecon_tab t) then gainRecon_tab t ! (off div 2) else 0)"

definition NrgStep :: "CcTables \<Rightarrow> int \<Rightarrow> int" where
  "NrgStep t cfg = gainReconAt t (gainReconBase t + of_int cfg * 2)"

definition GainRecon :: "CcTables \<Rightarrow> bool \<Rightarrow> int \<Rightarrow> int" where
  "GainRecon t p4 i = gainReconAt t ((if p4 then 0xf35f0 else 0xf3970) + of_int i * 2)"

definition NPulseCount :: "CcTables \<Rightarrow> int \<Rightarrow> u16 list go" where
  "NPulseCount t i = idx_int (nPulseCmfs t) i"

definition SplitCmf :: "CcTables \<Rightarrow> int \<Rightarrow> u16 list" where
  "SplitCmf t tot = (let i = tot - 1 in if i < 0 \<or> i \<ge> int (length (splitCmfs t)) then [] else splitCmfs t ! nat i)"

definition Runlen :: "CcTables \<Rightarrow> int \<Rightarrow> runlenCmfs go" where
  "Runlen t oct = idx_int (runlen_tab t) (oct - 1)"

text \<open>A negative length makes \<open>make\<close> panic.\<close>

definition cdfWindow :: "u16 list \<Rightarrow> int \<Rightarrow> int \<Rightarrow> u16 list go" where
  "cdfWindow base start n =
     (if n < 0 then None
      else Some (map (\<lambda>i. let j = start + int i in if 0 \<le> j \<and> j < int (length base) then base ! nat j else 0) [0..<nat n]))"

section \<open>The tables are usable\<close>

lemma s32_id: "- 2147483648 \<le> x \<Longrightarrow> x < 2147483648 \<Longrightarrow> s32 x = x"
  by (simp add: s32_def signed_take_bit_int_eq_self_iff)

lemma s16_id: "- 32768 \<le> x \<Longrightarrow> x < 32768 \<Longrightarrow> s16 x = x"
  by (simp add: s16_def signed_take_bit_int_eq_self_iff)

definition cdf_strict :: "u16 list \<Rightarrow> bool" where
  "cdf_strict cdf \<longleftrightarrow> sorted_wrt (<) cdf"

lemma uint16_small: "0 \<le> k \<Longrightarrow> k < 65536 \<Longrightarrow> uint (of_int k :: u16) = k"
  by (simp add: uint_word_of_int_eq take_bit_int_eq_self)

text \<open>Summing positive steps that stay below 65536.\<close>

lemma cmf_sums_strict:
  "\<forall>p \<in> set ps. 1 \<le> p \<Longrightarrow> uint c + sum_list ps < 65536 \<Longrightarrow>
    sorted_wrt (<) (cmf_sums c ps) \<and> length (cmf_sums c ps) = Suc (length ps) \<and> (\<forall>x \<in> set (cmf_sums c ps). c \<le> x) \<and>
    uint (last (cmf_sums c ps)) = uint c + sum_list ps"
proof (induction ps arbitrary: c)
  case (Cons p ps)
  have p: "1 \<le> p" "0 \<le> sum_list ps"
    using Cons.prems(1) by (auto intro!: sum_list_nonneg)
  define c' :: u16 where "c' = of_int (s32 (uint c + s32 p))"
  have "0 \<le> uint c"
    by simp
  then have "p < 65536" "uint c + p < 65536"
    using Cons.prems(2) p unfolding sum_list.Cons by linarith+
  moreover have "s32 p = p"
    using p calculation by (intro s32_id) linarith+
  ultimately have "s32 (uint c + s32 p) = uint c + p"
    using p \<open>0 \<le> uint c\<close> by (simp only:) (intro s32_id; linarith)
  then have c': "uint c' = uint c + p"
    using p \<open>0 \<le> uint c\<close> \<open>uint c + p < 65536\<close> unfolding c'_def by (simp only:) (rule uint16_small; linarith)
  then have "c < c'"
    using p by (simp add: word_less_def)
  moreover have "sorted_wrt (<) (cmf_sums c' ps) \<and> length (cmf_sums c' ps) = Suc (length ps) \<and> (\<forall>x \<in> set (cmf_sums c' ps). c' \<le> x) \<and>
      uint (last (cmf_sums c' ps)) = uint c' + sum_list ps"
    using Cons.prems by (intro Cons.IH) (simp_all add: c')
  moreover have "cmf_sums c' ps \<noteq> []"
    by (cases ps) simp_all
  ultimately show ?case
    by (auto simp: c'_def [symmetric] c' less_imp_le order.strict_trans2 order.trans)
qed simp

lemma sdiv_nonneg: "0 \<le> a \<Longrightarrow> 0 < b \<Longrightarrow> a sdiv b = a div b" for a b :: int
  by (cases "a = 0") (simp_all add: signed_divide_int_def)

lemma scaled_sum:
  fixes S m :: int
  assumes "0 < S" "0 \<le> m" and "\<forall>x \<in> set xs. 0 \<le> x"
  shows "S * sum_list (map (\<lambda>x. x * m div S) xs) \<le> sum_list xs * m"
  using assms(3)
proof (induction xs)
  case (Cons x xs)
  have "S * (x * m div S) \<le> x * m"
    using assms(1) mult_div_mod_eq [of S "x * m"] pos_mod_sign [of S "x * m"] by linarith
  then show ?case
    using Cons by (simp add: algebra_simps)
qed simp

text \<open>
  \<open>cdf_table n cdf\<close>: a table of \<open>n\<close> symbols that starts at zero, rises strictly and ends at most at 32767.
  Every window of such a table is a table for its symbols.
\<close>

definition cdf_table :: "nat \<Rightarrow> u16 list \<Rightarrow> bool" where
  "cdf_table n cdf \<longleftrightarrow> length cdf = Suc n \<and> sorted_wrt (<) cdf \<and> hd cdf = 0 \<and> uint (last cdf) \<le> 32767"

lemma scaled_table:
  assumes nn: "\<forall>x \<in> set ws. 0 \<le> x" and pos: "0 < sum_list ws" and len: "length ws \<le> 32767"
  shows "cdf_table (length ws) (cmf_sums 0 (map (\<lambda>x. x * (32767 - int (length ws)) div sum_list ws + 1) ws))"
proof -
  define S m where "S = sum_list ws" and "m = 32767 - int (length ws)"
  define ps where "ps = map (\<lambda>x. x * m div S + 1) ws"
  have m: "0 \<le> m" and S: "0 < S"
    using len pos by (simp_all add: m_def S_def)
  have "sum_list ps = sum_list (map (\<lambda>x. x * m div S) ws) + int (length ws)"
    unfolding ps_def by (induction ws) simp_all
  moreover have "S * sum_list (map (\<lambda>x. x * m div S) ws) \<le> S * m"
    using scaled_sum [OF S m nn] by (simp add: S_def)
  then have "sum_list (map (\<lambda>x. x * m div S) ws) \<le> m"
    using S by (simp only: mult_le_cancel_left_pos)
  ultimately have le: "sum_list ps \<le> 32767"
    by (simp add: m_def)
  have "\<forall>p \<in> set ps. 1 \<le> p"
    using nn m S by (auto simp: ps_def pos_imp_zdiv_nonneg_iff)
  with le have "sorted_wrt (<) (cmf_sums 0 ps) \<and> length (cmf_sums 0 ps) = Suc (length ps) \<and>
      uint (last (cmf_sums 0 ps)) = sum_list ps"
    using cmf_sums_strict [of ps 0] by simp
  moreover have "hd (cmf_sums 0 ps) = 0"
    by (cases ps) simp_all
  ultimately have "cdf_table (length ws) (cmf_sums 0 ps)"
    using le by (simp add: cdf_table_def ps_def)
  then show ?thesis
    by (simp add: ps_def S_def m_def)
qed

lemma pdfToCmf_table:
  assumes nn: "\<forall>x \<in> set pdf. 0 \<le> x" and pos: "0 < sum_list pdf" and len: "length pdf \<le> 32767"
  shows "\<exists>cdf. pdfToCmf pdf = Some cdf \<and> cdf_table (length pdf) cdf"
proof -
  have "map (\<lambda>x. (x * (32767 - int (length pdf))) sdiv sum_list pdf + 1) pdf =
      map (\<lambda>x. x * (32767 - int (length pdf)) div sum_list pdf + 1) pdf"
    using nn pos len by (simp add: sdiv_nonneg)
  then have "pdfToCmf pdf = Some (cmf_sums 0 (map (\<lambda>x. x * (32767 - int (length pdf)) div sum_list pdf + 1) pdf))"
    unfolding pdfToCmf_def Let_def using pos by (simp only:) simp
  then show ?thesis
    using scaled_table [OF assms] by blast
qed

lemma of_int_s32: "(of_int (s32 x) :: u16) = of_int x"
  by (rule bit_word_eqI) (auto simp: s32_def bit_simps)

lemma cmf_sums_step: "cmf_sums c (p # ps) = c # cmf_sums (c + of_int p) ps"
proof -
  have "(of_int (s32 (uint c + s32 p)) :: u16) = of_int (uint c + s32 p)"
    by (rule of_int_s32)
  also have "\<dots> = c + of_int p"
    by (simp add: of_int_s32)
  finally show ?thesis
    by simp
qed

declare cmf_sums.simps(2) [simp del]

lemma celp_sums_eq: "celp_sums n S c ws = cmf_sums c (map (\<lambda>w. s32 (w * (32767 - n)) sdiv S + 1) ws)"
  by (induction ws arbitrary: c) (simp_all add: cmf_sums_step add.assoc)

lemma dcmf_weight_bounds: "1 \<le> dcmf_weight b \<and> dcmf_weight b \<le> 65535"
proof -
  have "1 * 1 \<le> (uint b + 1) * (uint b + 1)"
    by (rule mult_mono) simp_all
  then show ?thesis
    by (simp add: dcmf_weight_def)
qed

lemma ccDcmf_table:
  assumes ne: "dcmf \<noteq> []" and len: "length dcmf \<le> 32767"
  shows "cdf_table (length dcmf) (ccDcmf dcmf)"
proof -
  define ws where "ws = map dcmf_weight dcmf"
  have w: "\<forall>x \<in> set ws. 1 \<le> x \<and> x \<le> 65535"
    by (auto simp: ws_def dcmf_weight_bounds)
  have S: "int (length ws) \<le> sum_list ws" "sum_list ws \<le> 65535 * int (length ws)"
    using w by (induction ws) auto
  moreover have n: "0 < int (length ws)" "int (length ws) \<le> 32767"
    using ne len by (simp_all add: ws_def)
  ultimately have pos: "0 < sum_list ws" and s: "s32 (sum_list ws) = sum_list ws"
    by (linarith, intro s32_id) linarith+
  have "s32 (w * (32767 - int (length ws))) sdiv sum_list ws = w * (32767 - int (length ws)) div sum_list ws" if "w \<in> set ws" for w
  proof -
    have "0 \<le> w" "w \<le> 65535"
      using w that by auto
    moreover have "0 \<le> 32767 - int (length ws)" "32767 - int (length ws) \<le> 32766"
      using n by linarith+
    ultimately have "0 \<le> w * (32767 - int (length ws))" "w * (32767 - int (length ws)) \<le> 65535 * 32766"
      by (simp, intro mult_mono) simp_all
    then show ?thesis
      using pos by (simp add: s32_id sdiv_nonneg)
  qed
  then have "map (\<lambda>w. s32 (w * (32767 - int (length ws))) sdiv sum_list ws + 1) ws =
      map (\<lambda>x. x * (32767 - int (length ws)) div sum_list ws + 1) ws"
    by (intro map_cong) simp_all
  moreover have l: "length dcmf = length ws"
    by (simp add: ws_def)
  ultimately have "ccDcmf dcmf = cmf_sums 0 (map (\<lambda>x. x * (32767 - int (length ws)) div sum_list ws + 1) ws)"
    by (simp only: ccDcmf_def Let_def celp_sums_eq ws_def [symmetric] s)
  moreover have "\<forall>x \<in> set ws. 0 \<le> x"
    using w by force
  then have "cdf_table (length ws) (cmf_sums 0 (map (\<lambda>x. x * (32767 - int (length ws)) div sum_list ws + 1) ws))"
    using pos n by (intro scaled_table) simp_all
  ultimately show ?thesis
    by (simp only: l)
qed

text \<open>Symbols of a window of a table.\<close>

lemma cdfWindow_inside:
  assumes "0 \<le> start" "0 \<le> n" "start + n \<le> int (length base)"
  shows "cdfWindow base start n = Some (take (nat n) (drop (nat start) base))"
proof -
  have "map (\<lambda>i. let j = start + int i in if 0 \<le> j \<and> j < int (length base) then base ! nat j else 0) [0..<nat n] =
      take (nat n) (drop (nat start) base)"
    using assms by (intro nth_equalityI) (auto simp: Let_def nat_add_distrib)
  then show ?thesis
    using assms(2) by (simp add: cdfWindow_def)
qed

lemma sorted_cdf_ok: "sorted_wrt (<) cdf \<Longrightarrow> Suc s < length cdf \<Longrightarrow> cdf_ok cdf s"
  using sorted_wrt_nth_less [of "(<)" cdf s "Suc s"] strict_sorted_imp_sorted [of cdf] by (simp add: cdf_ok_def)

lemma sorted_cdf_bounded: "sorted cdf \<Longrightarrow> cdf_bounded cdf"
proof (cases "cdf = []")
  case False
  assume s: "sorted cdf"
  have "hd cdf \<le> x \<and> x \<le> last cdf" if x: "x \<in> set cdf" for x
  proof -
    obtain i where "i < length cdf" "x = cdf ! i"
      using x in_set_conv_nth [of x cdf] by metis
    then show ?thesis
      using sorted_nth_mono [OF s, of 0 i] sorted_nth_mono [OF s, of i "length cdf - 1"] False
      by (simp add: hd_conv_nth last_conv_nth)
  qed
  then show ?thesis
    by (simp add: cdf_bounded_def)
qed (simp add: cdf_bounded_def)

section \<open>The run-length tables\<close>

lemma log2lin_inner_bounds:
  assumes "0 \<le> f" "f < 128"
  shows "0 \<le> log2lin_inner f" and "log2lin_inner f \<le> 127"
proof -
  define x where "x = f * (128 - f)"
  have x: "0 \<le> x" "x \<le> f * 128"
    using assms by (simp_all add: x_def mult_left_mono)
  have xs: "x \<le> 16384"
    using x(2) assms by linarith
  have "s16 f = f" "s16 (128 - f) = 128 - f" "s16 (- 174) = - 174"
    using assms by (simp_all add: s16_id)
  then have e: "log2lin_inner f = s32 (f + drop_bit 16 (x * (- 174)))"
    using x xs by (simp add: log2lin_inner_def ccSmulbb_def ccSmlawb_def x_def [symmetric] s32_id)
  define q where "q = (x * (- 174)) div 65536"
  have "q \<le> 0"
    using x(1) by (simp add: q_def div_nonpos_pos_le0)
  have "- f * 65536 \<le> x * (- 174)"
    using x(2) assms(1) by linarith
  then have "- f \<le> q"
    unfolding q_def using zdiv_mono1 [of "- f * 65536" "x * (- 174)" 65536] by simp
  have "drop_bit 16 (x * (- 174)) = q"
    by (simp add: q_def drop_bit_eq_div)
  then have "log2lin_inner f = f + q"
    unfolding e using \<open>q \<le> 0\<close> \<open>- f \<le> q\<close> assms by (simp only:) (rule s32_id; linarith)
  then show "0 \<le> log2lin_inner f" "log2lin_inner f \<le> 127"
    using \<open>q \<le> 0\<close> \<open>- f \<le> q\<close> assms by linarith+
qed

lemma ccLog2lin_bounds: "0 \<le> ccLog2lin x \<and> ccLog2lin x \<le> 2147483647"
proof (cases "0 \<le> x \<and> x < 3967")
  case True
  define k f where "k = nat (drop_bit 7 x)" and "f = x AND 127"
  define i where "i = log2lin_inner f"
  have "f = x mod 128"
    using take_bit_eq_mask [of 7 x] by (simp add: f_def take_bit_eq_mod mask_eq_exp_minus_1)
  then have i: "0 \<le> i" "i \<le> 127"
    using log2lin_inner_bounds [of f] by (simp_all add: i_def)
  have k: "int k = x div 128"
    using True by (simp add: k_def drop_bit_eq_div)
  define out :: int where "out = 2 ^ k"
  have "k \<le> 30"
    using k True by linarith
  then have o: "0 < out" "out \<le> 2 ^ 30"
    unfolding out_def by (simp, intro power_increasing) simp_all
  moreover have "s32 out = out"
    using o by (intro s32_id) simp_all
  ultimately have so: "s32 (push_bit k 1) = out"
    by (simp add: out_def push_bit_eq_mult)
  have unf: "ccLog2lin x = (if x < 2048 then s32 (out + drop_bit 7 (s32 (out * i))) else s32 (out + s32 (drop_bit 7 out * i)))"
    using True by (simp add: ccLog2lin_def Let_def k_def [symmetric] so [simplified] f_def [symmetric] i_def [symmetric])
  show ?thesis
  proof (cases "x < 2048")
    case True
    then have "k \<le> 15"
      using k by linarith
    then have "out \<le> 2 ^ 15"
      unfolding out_def by (intro power_increasing) simp_all
    then have oi: "0 \<le> out * i" "out * i \<le> 2 ^ 15 * 127"
      using o i by (simp, intro mult_mono) simp_all
    define q where "q = out * i div 128"
    have q: "0 \<le> q" "q \<le> 2 ^ 15 * 127"
      using oi unfolding q_def by linarith+
    have "s32 (out * i) = out * i"
      using oi by (intro s32_id) simp_all
    then have "ccLog2lin x = s32 (out + q)"
      using True by (simp add: unf q_def drop_bit_eq_div)
    also have "\<dots> = out + q"
      using o q \<open>out \<le> 2 ^ 15\<close> by (intro s32_id) simp_all
    finally show ?thesis
      using o q \<open>out \<le> 2 ^ 15\<close> by simp
  next
    case False
    define q where "q = out div 128"
    have q: "0 \<le> q" "q \<le> 2 ^ 23"
      using o unfolding q_def by simp_all
    have qi: "0 \<le> q * i" "q * i \<le> 2 ^ 23 * 127"
      using q i by (simp, intro mult_mono) simp_all
    have "s32 (q * i) = q * i"
      using qi by (intro s32_id) simp_all
    then have "ccLog2lin x = s32 (out + q * i)"
      using False by (simp add: unf q_def drop_bit_eq_div)
    also have "\<dots> = out + q * i"
      using o qi by (intro s32_id) simp_all
    finally show ?thesis
      using o qi by simp
  qed
next
  case False
  then show ?thesis
    by (auto simp: ccLog2lin_def)
qed

lemma runlen_p1_bounds: "1 \<le> runlen_p1 ms nump nums \<and> runlen_p1 ms nump nums < ccOneQ31"
  using ccLog2lin_bounds by (simp add: runlen_p1_def Let_def ccOneQ31_def)

lemma runlen_pdf_nonneg:
  assumes "0 \<le> pl" "pl \<le> ccOneQ31"
  shows "(\<forall>x \<in> set (runlen_pdf ms nump pl ns). 0 \<le> x) \<and> length (runlen_pdf ms nump pl ns) = length ns"
  using assms
proof (induction ns arbitrary: pl)
  case (Cons n ns)
  define p1 where "p1 = runlen_p1 ms nump n"
  have p1: "1 \<le> p1" "p1 < ccOneQ31"
    using runlen_p1_bounds by (simp_all add: p1_def)
  have le: "drop_bit 31 (pl * r) \<le> pl \<and> 0 \<le> drop_bit 31 (pl * r)" if "0 \<le> r" "r \<le> ccOneQ31" for r
  proof -
    have "0 \<le> pl * r" "pl * r \<le> pl * ccOneQ31"
      using Cons.prems(1) that by (simp_all add: mult_left_mono)
    then show ?thesis
      using zdiv_mono1 [of "pl * r" "pl * ccOneQ31" ccOneQ31]
      by (simp add: drop_bit_eq_div ccOneQ31_def pos_imp_zdiv_nonneg_iff)
  qed
  have "pl * p1 div ccOneQ31 \<le> ccOneQ31 * p1 div ccOneQ31"
    using Cons.prems(2) p1 by (intro zdiv_mono1 mult_right_mono) (simp_all add: ccOneQ31_def)
  then have "drop_bit 31 (pl * p1) < ccOneQ31"
    using p1 by (simp add: drop_bit_eq_div ccOneQ31_def)
  then have "s32 (drop_bit 31 (pl * p1)) = drop_bit 31 (pl * p1)"
    using le [of p1] p1 unfolding ccOneQ31_def by (intro s32_id) linarith+
  then show ?case
    using le [of p1] le [of "ccOneQ31 - p1"] Cons.IH [of "drop_bit 31 (pl * (ccOneQ31 - p1))"] p1 Cons.prems
    by (simp add: Let_def p1_def [symmetric])
qed simp

lemma runlen_pdf_head:
  assumes "ns \<noteq> []"
  shows "1 \<le> hd (runlen_pdf ms nump ccOneQ31 ns)"
proof -
  obtain n ns' where ns: "ns = n # ns'"
    using assms by (cases ns) auto
  define p1 where "p1 = runlen_p1 ms nump n"
  have p1: "1 \<le> p1" "p1 < ccOneQ31"
    using runlen_p1_bounds by (simp_all add: p1_def)
  have "drop_bit 31 (ccOneQ31 * p1) = p1"
    by (simp add: drop_bit_eq_div ccOneQ31_def)
  moreover have "s32 p1 = p1"
    using p1 by (intro s32_id) (simp_all add: ccOneQ31_def)
  ultimately show ?thesis
    using p1 by (simp add: ns Let_def p1_def [symmetric])
qed

lemma map_go_all: "(\<And>x. x \<in> set xs \<Longrightarrow> \<exists>y. f x = Some y \<and> P y) \<Longrightarrow>
    \<exists>ys. map_go f xs = Some ys \<and> length ys = length xs \<and> (\<forall>y \<in> set ys. P y)"
proof (induction xs)
  case (Cons x xs)
  obtain y where "f x = Some y" "P y"
    using Cons.prems [of x] by auto
  moreover obtain ys where "map_go f xs = Some ys" "length ys = length xs" "\<forall>y \<in> set ys. P y"
    using Cons.IH Cons.prems by auto
  ultimately show ?case
    by auto
qed simp



end
