(* ===== verification/Mlow_Bitstream.thy ===== *)
theory Mlow_Bitstream
  imports Mlow_Tables
begin

unbundle bit_operations_syntax

text \<open>
  The parameters of one internal (20 ms) frame on the range-coded stream: the spectral indices (\<^verbatim>\<open>lsf.go\<close>), the
  excitation pulses (\<^verbatim>\<open>pulse.go\<close>) and the gains of an unvoiced frame (\<^verbatim>\<open>gains.go\<close>), with the encoder side of each
  (\<^verbatim>\<open>encoder.go\<close>), all under \<^verbatim>\<open>internal/voip/codec/mlow\<close>. Tables are arguments. \<open>None\<close> is a panic: an index out of
  range, or a normalisation that never ends.
\<close>

section \<open>Spectral indices\<close>

record LsfGrid =
  lg_Match1 :: "u16 list"
  lg_Match1Alt :: "u16 list"
  lg_Match0 :: "u16 list"
  lg_Match0Alt :: "u16 list"

record SmplTables =
  LsfSel :: "u16 list list"
  LsfGrids :: LsfGrid
  LsfStage2 :: "u16 list list list list list"
  LsfExtra :: "u16 list"

text \<open>The predictor state; the field \<open>PrevLagSamples\<close> belongs to the pitch search and is left out.\<close>

record SmplLsfState =
  PrevStage1 :: int
  PrevMatch :: bool
  HavePrev :: bool
  PrevGainIdx :: int
  PrevFiltIdx :: int
  PrevLag :: int
  PrevFracLag :: int
  PrevLagblk :: int
  PrevLagidx :: int

definition zero_SmplLsfState :: SmplLsfState where
  "zero_SmplLsfState = \<lparr>PrevStage1 = 0, PrevMatch = False, HavePrev = False, PrevGainIdx = 0, PrevFiltIdx = 0, PrevLag = 0,
     PrevFracLag = 0, PrevLagblk = 0, PrevLagidx = 0\<rparr>"

definition SmplAdvanceLsfState :: "int \<Rightarrow> int \<Rightarrow> SmplLsfState \<Rightarrow> SmplLsfState" where
  "SmplAdvanceLsfState intf stage1 st =
     (let m = (intf \<noteq> 0 \<and> stage1 = PrevStage1 st);
          st = (if m then st else st\<lparr>PrevGainIdx := - 1, PrevFiltIdx := - 1, PrevLag := - 1, PrevFracLag := - 1,
              PrevLagblk := - 1, PrevLagidx := - 1\<rparr>)
      in st\<lparr>PrevStage1 := stage1, PrevMatch := m, HavePrev := True\<rparr>)"

record SmplLsfIndices =
  li_Stage1 :: int
  li_Grid :: int
  li_Stage2 :: "int list"
  li_StageNraw :: "int list"
  li_Extra :: int

record SmplLsfParams =
  lp_Stage1 :: int
  lp_Grid :: int
  lp_Stage2 :: "int list"
  lp_Extra :: int

definition lsf_sel :: "SmplLsfState \<Rightarrow> int \<Rightarrow> nat" where
  "lsf_sel st intf = (if intf \<noteq> 0 then if PrevStage1 st \<noteq> 0 then 2 else 1 else 0)"

definition lsf_grid_cdf :: "SmplTables \<Rightarrow> bool \<Rightarrow> int \<Rightarrow> u16 list" where
  "lsf_grid_cdf t m stage1 =
     (if m \<and> stage1 \<noteq> 0 then lg_Match1 (LsfGrids t)
      else if m then lg_Match1Alt (LsfGrids t)
      else if stage1 \<noteq> 0 then lg_Match0Alt (LsfGrids t)
      else lg_Match0 (LsfGrids t))"

text \<open>\<open>t.LsfStage2[stage1][config][grid]\<close>, whose first sixteen tables the loops index.\<close>

definition lsf_stage2_cdfs :: "SmplTables \<Rightarrow> int \<Rightarrow> int \<Rightarrow> int \<Rightarrow> u16 list list go" where
  "lsf_stage2_cdfs t stage1 config grid = do {
     a \<leftarrow> idx_int (LsfStage2 t) stage1;
     b \<leftarrow> idx_int a config;
     c \<leftarrow> idx_int b grid;
     slice c 0 16 }"

fun decode_each :: "u16 list list \<Rightarrow> RangeDecoder \<Rightarrow> (int list \<times> RangeDecoder) go" where
  "decode_each [] = (\<lambda>d. Some ([], d))"
| "decode_each (c # cs) = (\<lambda>d. DecodeCDF c d \<bind> (\<lambda>(k, d). decode_each cs d \<bind> (\<lambda>(ks, d). Some (int k # ks, d))))"

fun encode_each :: "int list \<Rightarrow> u16 list list \<Rightarrow> RangeEncoder \<Rightarrow> RangeEncoder go" where
  "encode_each (k # ks) (c # cs) = (\<lambda>e. EncodeCDF k c e \<bind> encode_each ks cs)"
| "encode_each ks cs = Some"

text \<open>On a mismatch the decoder resets four of the predictor fields, the encoder also the two of the lag predictor.\<close>

definition dec_lsf_state :: "int \<Rightarrow> int \<Rightarrow> SmplLsfState \<Rightarrow> SmplLsfState" where
  "dec_lsf_state intf stage1 st =
     (let m = (intf \<noteq> 0 \<and> stage1 = PrevStage1 st);
          st = (if m then st else st\<lparr>PrevGainIdx := - 1, PrevFiltIdx := - 1, PrevLag := - 1, PrevFracLag := - 1\<rparr>)
      in st\<lparr>PrevStage1 := stage1, PrevMatch := m, HavePrev := True\<rparr>)"

definition DecodeSmplLsf ::
  "SmplTables \<Rightarrow> int \<Rightarrow> int \<Rightarrow> SmplLsfState \<Rightarrow> RangeDecoder \<Rightarrow> ((SmplLsfIndices \<times> SmplLsfState) \<times> RangeDecoder) go" where
  "DecodeSmplLsf t config intf st d = do {
     selcdf \<leftarrow> idx (LsfSel t) (lsf_sel st intf);
     (k, d) \<leftarrow> DecodeCDF selcdf d;
     let stage1 = int k;
     let m = (intf \<noteq> 0 \<and> stage1 = PrevStage1 st);
     (g, d) \<leftarrow> DecodeCDF (lsf_grid_cdf t m stage1) d;
     st2 \<leftarrow> lsf_stage2_cdfs t stage1 config (int g);
     (ks, d) \<leftarrow> decode_each st2 d;
     (x, d) \<leftarrow> DecodeCDF (LsfExtra t) d;
     Some ((\<lparr>li_Stage1 = stage1, li_Grid = int g, li_Stage2 = ks, li_StageNraw = map (\<lambda>c. int (length c) - 2) st2, li_Extra = int x\<rparr>,
            dec_lsf_state intf stage1 st), d) }"

definition encodeSmplLsf ::
  "SmplTables \<Rightarrow> int \<Rightarrow> int \<Rightarrow> SmplLsfParams \<Rightarrow> SmplLsfState \<Rightarrow> RangeEncoder \<Rightarrow> (SmplLsfState \<times> RangeEncoder) go" where
  "encodeSmplLsf t config intf lsf st e = do {
     let stage1 = lp_Stage1 lsf;
     selcdf \<leftarrow> idx (LsfSel t) (lsf_sel st intf);
     e \<leftarrow> EncodeCDF stage1 selcdf e;
     let m = (intf \<noteq> 0 \<and> stage1 = PrevStage1 st);
     e \<leftarrow> EncodeCDF (lp_Grid lsf) (lsf_grid_cdf t m stage1) e;
     st2 \<leftarrow> lsf_stage2_cdfs t stage1 config (lp_Grid lsf);
     e \<leftarrow> encode_each (lp_Stage2 lsf) st2 e;
     e \<leftarrow> EncodeCDF (lp_Extra lsf) (LsfExtra t) e;
     Some (SmplAdvanceLsfState intf stage1 st, e) }"

section \<open>Gains of an unvoiced frame\<close>

record SmplGainResult =
  gr_GainQ :: "int list"
  gr_NrgRes :: "int list"
  gr_GainMain :: int
  gr_GainDelta :: int

record SmplGainParams =
  gp_GainMain :: int
  gp_GainDelta :: int
  gp_NrgRes :: "int list"

text \<open>\<open>cfgSel\<close> is 2; the first \<open>min(p3, 4)\<close> entries of the arrays are used.\<close>

definition gain_q :: "CcTables \<Rightarrow> int \<Rightarrow> int \<Rightarrow> int \<Rightarrow> int \<Rightarrow> int" where
  "gain_q cc p3 gainMain gainDelta sf =
     (let off6 = p3 * gainDelta;
          base7 = gainMain * NrgStep cc 2 - 0x154000;
          cbv = GainRecon cc (p3 = 4) (sf + off6)
      in base7 + push_bit 4 cbv)"

definition nrgres_bucket :: "int \<Rightarrow> int" where
  "nrgres_bucket cnt = (if cnt \<ge> 30 then 3 else (cnt AND 0xffff) sdiv 10)"

definition nrgres_offset :: "int \<Rightarrow> int" where
  "nrgres_offset q =
     (let g = max (drop_bit 14 (q + 8192)) (- 85); negPart = (if g < 0 then g else 0) in - negPart)"

text \<open>The energy residuals of the subframes with pulses, \<open>sf\<close> counting from 0.\<close>

fun decode_nrgres :: "CcTables \<Rightarrow> int list \<Rightarrow> int list \<Rightarrow> RangeDecoder \<Rightarrow> (int list \<times> RangeDecoder) go" where
  "decode_nrgres cc (q # qs) (cnt # cnts) =
     (if cnt \<le> 0 then (\<lambda>d. decode_nrgres cc qs cnts d \<bind> (\<lambda>(rs, d). Some (0 # rs, d)))
      else (\<lambda>d. FcbgOffset cc 2 (nrgres_bucket cnt) (nrgres_offset q) \<bind> (\<lambda>cdf. DecodeCDF cdf d \<bind>
             (\<lambda>(k, d). decode_nrgres cc qs cnts d \<bind> (\<lambda>(rs, d). Some (int k # rs, d))))))"
| "decode_nrgres cc qs cnts = (\<lambda>d. Some ([], d))"

definition DecodeSmplGains :: "CcTables \<Rightarrow> int \<Rightarrow> int list \<Rightarrow> RangeDecoder \<Rightarrow> (SmplGainResult \<times> RangeDecoder) go" where
  "DecodeSmplGains cc p3 subfrCounts d = do {
     (gm, d) \<leftarrow> DecodeCDF (nrgresGain4 cc) d;
     (gd, d) \<leftarrow> DecodeCDF (nrgresShape4 cc) d;
     let gainQ = map (gain_q cc p3 (int gm) (int gd)) [0..min p3 4 - 1];
     (rs, d) \<leftarrow> decode_nrgres cc gainQ subfrCounts d;
     Some (\<lparr>gr_GainQ = gainQ, gr_NrgRes = rs, gr_GainMain = int gm, gr_GainDelta = int gd\<rparr>, d) }"

fun encode_nrgres :: "CcTables \<Rightarrow> int list \<Rightarrow> int list \<Rightarrow> int list \<Rightarrow> RangeEncoder \<Rightarrow> RangeEncoder go" where
  "encode_nrgres cc (q # qs) (cnt # cnts) (r # rs) =
     (if cnt \<le> 0 then encode_nrgres cc qs cnts rs
      else (\<lambda>e. FcbgOffset cc 2 (nrgres_bucket cnt) (nrgres_offset q) \<bind> (\<lambda>cdf. EncodeCDF r cdf e \<bind> encode_nrgres cc qs cnts rs)))"
| "encode_nrgres cc qs cnts rs = Some"

definition encodeSmplGains :: "CcTables \<Rightarrow> int \<Rightarrow> int list \<Rightarrow> SmplGainParams \<Rightarrow> RangeEncoder \<Rightarrow> RangeEncoder go" where
  "encodeSmplGains cc p3 subfrCounts gp e = do {
     e \<leftarrow> EncodeCDF (gp_GainMain gp) (nrgresGain4 cc) e;
     e \<leftarrow> EncodeCDF (gp_GainDelta gp) (nrgresShape4 cc) e;
     encode_nrgres cc (map (gain_q cc p3 (gp_GainMain gp) (gp_GainDelta gp)) [0..min p3 4 - 1]) subfrCounts (gp_NrgRes gp) e }"

end
