(* ===== verification/Mlow_Pulses.thy ===== *)
theory Mlow_Pulses
  imports Mlow_Bitstream
begin

unbundle bit_operations_syntax

text \<open>
  The excitation pulses of an internal frame: \<^verbatim>\<open>pulse.go\<close> and \<open>encodeSmplPulses\<close> of \<^verbatim>\<open>encoder.go\<close>. A pulse vector is
  coded as a total count, its split over four subframes, run lengths between pulse positions and raw sign bits.
\<close>

section \<open>Pulse count and split\<close>

definition smplPulseCountByte :: "int list" where
  "smplPulseCountByte = [80, 160, 160, 16, 32, 32, 0, 0]"

definition Mem8Static :: "u32 \<Rightarrow> int" where
  "Mem8Static addr = (if addr \<ge> 0xe8990 \<and> addr < 0xe8998 then smplPulseCountByte ! unat (addr - 0xe8990) else 0)"

definition frame_len4k :: "int \<Rightarrow> int \<Rightarrow> int \<Rightarrow> int \<Rightarrow> int" where
  "frame_len4k p2 p4 p6 s1 = Mem8Static (0xe8990 + of_int (p6 * 3 + (p4 + s1))) * p2 sdiv 320"

text \<open>The triangular prior over the pulse count, in \<open>uint32\<close> arithmetic.\<close>

definition triT :: "u32 \<Rightarrow> u32 \<Rightarrow> u32" where
  "triT l k = ((k + 2) * (l + 1) - drop_bit 1 ((k - 1) * (k + 131070))) AND 0xffff"

definition tri_total :: "u32 \<Rightarrow> u32" where
  "tri_total l = (if triT l l = 0 then 1 else triT l l)"

fun tri_search :: "u32 \<Rightarrow> u32 \<Rightarrow> u32 \<Rightarrow> u32 \<Rightarrow> nat \<Rightarrow> nat \<Rightarrow> RangeDecoder \<Rightarrow> (nat \<times> RangeDecoder) go" where
  "tri_search l ft v prevCum k 0 = (\<lambda>d. Some (k, d))"
| "tri_search l ft v prevCum k (Suc n) =
     (let cum = triT l (of_nat k) in
      if prevCum \<le> v \<and> v < cum then (\<lambda>d. Update prevCum cum ft d \<bind> (\<lambda>d. Some (k, d)))
      else tri_search l ft v cum (k + 1) n)"

definition decode_count :: "CcTables \<Rightarrow> int \<Rightarrow> int \<Rightarrow> int \<Rightarrow> RangeDecoder \<Rightarrow> (int \<times> RangeDecoder) go" where
  "decode_count cc p6 i frameLen4k d =
     (if p6 \<noteq> 0 then do {
        cdf \<leftarrow> NPulseCount cc i;
        (k, d) \<leftarrow> DecodeCDF cdf d;
        Some (int k, d) }
      else do {
        let l = of_int frameLen4k;
        let ft = tri_total l;
        let (v, d) = Decode ft d;
        (k, d) \<leftarrow> tri_search l ft v 0 0 (unat (l + 1)) d;
        Some (int k, d) })"

definition smplSplit3537 :: "CcTables \<Rightarrow> int \<Rightarrow> int \<Rightarrow> RangeDecoder \<Rightarrow> (int \<times> RangeDecoder) go" where
  "smplSplit3537 cc count granularity d =
     (let lo = min granularity count; minSplit = max (count - granularity) 0 in
      if lo < minSplit then Some (- 1, d)
      else if minSplit = lo then Some (minSplit, d)
      else do {
        w \<leftarrow> cdfWindow (SplitCmf cc count) minSplit (lo - minSplit + 2);
        (k, d) \<leftarrow> DecodeCDF w d;
        Some (int k + minSplit, d) })"

text \<open>The counts of the two halves of one half frame.\<close>

definition decode_half :: "CcTables \<Rightarrow> int \<Rightarrow> int \<Rightarrow> RangeDecoder \<Rightarrow> ((int \<times> int) \<times> RangeDecoder) go" where
  "decode_half cc count gran d =
     (if count > 0 then do { (s0, d) \<leftarrow> smplSplit3537 cc count gran d; Some ((s0, count - s0), d) } else Some ((0, 0), d))"

text \<open>The split over the subframes; \<open>None\<close> inside is the early return of a count no split exists for.\<close>

definition decode_split :: "CcTables \<Rightarrow> int \<Rightarrow> int \<Rightarrow> RangeDecoder \<Rightarrow> (int list option \<times> RangeDecoder) go" where
  "decode_split cc tot subfrLen16 d =
     (if tot = 0 then Some (Some [0, 0, 0, 0], d)
      else
        (let sum0 = max (tot - subfrLen16 * 2) 0; lo = max (tot - 80) 0 in
         if sum0 < lo then Some (None, d)
         else do {
           let hiBound = tot - lo;
           (sum1, d) \<leftarrow> (if sum0 < hiBound then do {
                w \<leftarrow> cdfWindow (SplitCmf cc tot) (sum0 - lo) (hiBound - sum0 + 2);
                (k, d) \<leftarrow> DecodeCDF w d;
                Some (sum0 + int k, d) } else Some (sum0, d));
           ((a, b), d) \<leftarrow> decode_half cc sum1 subfrLen16 d;
           ((a', b'), d) \<leftarrow> (if sum1 < tot then decode_half cc (tot - sum1) subfrLen16 d else Some ((0, 0), d));
           Some (Some (if a = - 1 \<or> a' = - 1 then [0, 0, 0, 0] else [a, b, a', b']), d) }))"

section \<open>Run lengths\<close>

record MagState =
  ms_runs :: "int list"
  ms_pos :: "int list"
  ms_mag :: "int list"

text \<open>
  \<open>pulseIdx\<close> is the length of the position list less one. A run of zero after the first one of a subframe adds to
  the last pulse.
\<close>

definition mag_add :: "bool \<Rightarrow> int \<Rightarrow> int \<Rightarrow> MagState \<Rightarrow> MagState" where
  "mag_add first m runPos ms =
     (let ms = ms\<lparr>ms_runs := ms_runs ms @ [m]\<rparr> in
      if m > 0 \<or> first then ms\<lparr>ms_pos := ms_pos ms @ [runPos + m], ms_mag := ms_mag ms @ [1]\<rparr>
      else if ms_pos ms \<noteq> [] then ms\<lparr>ms_mag := (ms_mag ms)[length (ms_pos ms) - 1 := ms_mag ms ! (length (ms_pos ms) - 1) + 1]\<rparr>
      else ms)"

definition run_window :: "CcTables \<Rightarrow> int \<Rightarrow> int \<Rightarrow> u16 list go" where
  "run_window cc c pos = do {
     bucket \<leftarrow> Runlen cc ((pos + 7) sdiv 8);
     cmf \<leftarrow> rl_Cmf bucket c;
     cdfWindow cmf (rl_maxSamples bucket - pos) (pos + 1) }"

text \<open>\<open>n\<close> pulses are left in the subframe, \<open>c = n\<close> of them when the loop started.\<close>

fun mag_loop :: "CcTables \<Rightarrow> nat \<Rightarrow> bool \<Rightarrow> int \<Rightarrow> int \<Rightarrow> int \<Rightarrow> MagState \<Rightarrow> RangeDecoder \<Rightarrow> (MagState \<times> RangeDecoder) go" where
  "mag_loop cc 0 first c pos runPos ms = (\<lambda>d. Some (ms, d))"
| "mag_loop cc (Suc n) first c pos runPos ms =
     (if pos < 0 then (\<lambda>d. Some (ms, d))
      else (\<lambda>d. run_window cc c pos \<bind> (\<lambda>w. DecodeCDF w d \<bind> (\<lambda>(k, d).
        let m = int k; step = (m > 0 \<or> first)
        in mag_loop cc n False (c - 1) (if step then pos - m else pos) (if step then runPos + m else runPos) (mag_add first m runPos ms) d))))"

fun mag_all :: "CcTables \<Rightarrow> int \<Rightarrow> int \<Rightarrow> int list \<Rightarrow> MagState \<Rightarrow> RangeDecoder \<Rightarrow> (MagState \<times> RangeDecoder) go" where
  "mag_all cc posPer subfr [] ms = (\<lambda>d. Some (ms, d))"
| "mag_all cc posPer subfr (cnt # cnts) ms =
     (if cnt \<le> 0 then mag_all cc posPer (subfr + 1) cnts ms
      else (\<lambda>d. mag_loop cc (nat cnt) True cnt posPer (posPer * subfr) ms d \<bind> (\<lambda>(ms, d). mag_all cc posPer (subfr + 1) cnts ms d)))"

section \<open>Signs\<close>

fun apply_signs :: "u32 \<Rightarrow> int list \<Rightarrow> int list" where
  "apply_signs bitfield [] = []"
| "apply_signs bitfield (m # ms) = m * (uint (drop_bit 14 bitfield AND 2) - 1) # apply_signs (push_bit 1 bitfield) ms"

function sign_loop :: "int list \<Rightarrow> RangeDecoder \<Rightarrow> ((int list \<times> (u32 \<times> nat) list) \<times> RangeDecoder) go" where
  "sign_loop mags d =
     (if mags = [] then Some (([], []), d)
      else do {
        let nbits = min (length mags) 15;
        (s, d) \<leftarrow> DecodeRawSymbol nbits d;
        ((rest, syms), d) \<leftarrow> sign_loop (drop nbits mags) d;
        Some ((apply_signs (push_bit (16 - nbits) s) (take nbits mags) @ rest, (s, nbits) # syms), d) })"
  by pat_completeness auto
termination by (relation "measure (\<lambda>(ms, _). length ms)") (auto simp: min_def)

declare sign_loop.simps [simp del]

fun scatter :: "int list \<Rightarrow> (int \<times> int) list \<Rightarrow> int list" where
  "scatter ps [] = ps"
| "scatter ps ((pp, m) # r) = scatter (if 0 \<le> pp \<and> pp < int (length ps) then ps[nat pp := m] else ps) r"

section \<open>Decoding and encoding\<close>

record SmplPulseResult =
  pr_Pulses :: "int list"
  pr_Subfr :: "int list"
  pr_MagRuns :: "int list"
  pr_SignSyms :: "(u32 \<times> nat) list"

definition DecodeSmplPulses ::
  "CcTables \<Rightarrow> int \<Rightarrow> int \<Rightarrow> int \<Rightarrow> int \<Rightarrow> int \<Rightarrow> RangeDecoder \<Rightarrow> (SmplPulseResult \<times> RangeDecoder) go" where
  "DecodeSmplPulses cc p2 p3 p4 p6 s1 d =
     (if p3 = 0 then None
      else do {
        let frameLen4k = frame_len4k p2 p4 p6 s1;
        let subfrLen16 = frameLen4k sdiv p3;
        let zeros = replicate (nat (max p2 0)) 0;
        (tot, d) \<leftarrow> decode_count cc p6 (p4 + s1) frameLen4k d;
        (sp, d) \<leftarrow> decode_split cc tot subfrLen16 d;
        (case sp of
           None \<Rightarrow> Some (\<lparr>pr_Pulses = zeros, pr_Subfr = [0, 0, 0, 0], pr_MagRuns = [], pr_SignSyms = []\<rparr>, d)
         | Some split \<Rightarrow> do {
             cnts \<leftarrow> slice_int (split @ [0, 0, 0, 0]) 0 (max p3 0);
             (ms, d) \<leftarrow> mag_all cc (p2 sdiv p3) 0 cnts \<lparr>ms_runs = [], ms_pos = [], ms_mag = []\<rparr> d;
             ((mags, syms), d) \<leftarrow> sign_loop (ms_mag ms) d;
             Some (\<lparr>pr_Pulses = scatter zeros (zip (ms_pos ms) mags), pr_Subfr = take (nat p3) split @ replicate (4 - nat p3) 0,
                 pr_MagRuns = ms_runs ms, pr_SignSyms = syms\<rparr>, d) }) })"

record SmplPulseParams =
  pp_Total :: int
  pp_Subfr :: "int list"
  pp_MagRuns :: "int list"
  pp_SignSyms :: "(u32 \<times> nat) list"

definition encodeSplit3537 :: "CcTables \<Rightarrow> int \<Rightarrow> int \<Rightarrow> int \<Rightarrow> RangeEncoder \<Rightarrow> RangeEncoder go" where
  "encodeSplit3537 cc count granularity s0 =
     (let lo = min granularity count; minSplit = max (count - granularity) 0 in
      if lo < minSplit \<or> minSplit = lo then Some
      else (\<lambda>e. cdfWindow (SplitCmf cc count) minSplit (lo - minSplit + 2) \<bind> (\<lambda>w. EncodeCDF (s0 - minSplit) w e)))"

text \<open>\<open>magIdx\<close> has moved on by one run length per pulse: the loops take the run lengths from the front.\<close>

fun enc_mag_loop :: "CcTables \<Rightarrow> nat \<Rightarrow> bool \<Rightarrow> int \<Rightarrow> int \<Rightarrow> int list \<Rightarrow> RangeEncoder \<Rightarrow> RangeEncoder go" where
  "enc_mag_loop cc 0 first c pos runs = Some"
| "enc_mag_loop cc (Suc n) first c pos runs =
     (\<lambda>e. idx runs 0 \<bind> (\<lambda>m. run_window cc c pos \<bind> (\<lambda>w. EncodeCDF m w e \<bind>
        enc_mag_loop cc n False (c - 1) (if m > 0 \<or> first then pos - m else pos) (tl runs))))"

fun enc_mag_all :: "CcTables \<Rightarrow> int \<Rightarrow> int list \<Rightarrow> int list \<Rightarrow> RangeEncoder \<Rightarrow> RangeEncoder go" where
  "enc_mag_all cc posPer [] runs = Some"
| "enc_mag_all cc posPer (cnt # cnts) runs =
     (if cnt \<le> 0 then enc_mag_all cc posPer cnts runs
      else (\<lambda>e. enc_mag_loop cc (nat cnt) True cnt posPer runs e \<bind> enc_mag_all cc posPer cnts (drop (nat cnt) runs)))"

fun enc_signs :: "(u32 \<times> nat) list \<Rightarrow> RangeEncoder \<Rightarrow> RangeEncoder go" where
  "enc_signs [] = Some"
| "enc_signs ((s, nbits) # r) = (\<lambda>e. EncodeRawSymbol s nbits e \<bind> enc_signs r)"

definition encodeSmplPulses :: "CcTables \<Rightarrow> int \<Rightarrow> int \<Rightarrow> int \<Rightarrow> int \<Rightarrow> int \<Rightarrow> SmplPulseParams \<Rightarrow> RangeEncoder \<Rightarrow> RangeEncoder go" where
  "encodeSmplPulses cc p2 p3 p4 p6 s1 pp e =
     (if p3 = 0 then None
      else do {
        let frameLen4k = frame_len4k p2 p4 p6 s1;
        let subfrLen16 = frameLen4k sdiv p3;
        let tot = pp_Total pp;
        let l = of_int frameLen4k;
        e \<leftarrow> Encode (if tot > 0 then triT l (of_int (tot - 1)) else 0) (triT l (of_int tot)) (tri_total l) e;
        if tot = 0 then Some e
        else do {
          a \<leftarrow> idx (pp_Subfr pp) 0;
          b \<leftarrow> idx (pp_Subfr pp) 1;
          c \<leftarrow> idx (pp_Subfr pp) 2;
          let finalSum = a + b;
          let initSum = max (tot - subfrLen16 * 2) 0;
          let lo = max (tot - 80) 0;
          if initSum < lo then Some e
          else do {
            let hiBound = tot - lo;
            e \<leftarrow> (if initSum < hiBound then do {
                 w \<leftarrow> cdfWindow (SplitCmf cc tot) (initSum - lo) (hiBound - initSum + 2);
                 EncodeCDF (finalSum - initSum) w e } else Some e);
            e \<leftarrow> (if finalSum > 0 then encodeSplit3537 cc finalSum subfrLen16 a e else Some e);
            e \<leftarrow> (if finalSum < tot then encodeSplit3537 cc (tot - finalSum) subfrLen16 c e else Some e);
            cnts \<leftarrow> slice_int (pp_Subfr pp) 0 (max p3 0);
            e \<leftarrow> enc_mag_all cc (p2 sdiv p3) cnts (pp_MagRuns pp) e;
            enc_signs (pp_SignSyms pp) e } } })"

end
