(* ===== verification/Mlow_Pitch.thy ===== *)
theory Mlow_Pitch
  imports Mlow_Pulses
begin

unbundle bit_operations_syntax

text \<open>
  The pitch parameters of a voiced internal frame: the packed pitch seed and the tables built from it
  (\<^verbatim>\<open>pitch_seed.go\<close>), the window of the original codec's heap in which the decoder follows pointers (\<^verbatim>\<open>mem.go\<close>), the
  decoder and the lag writer of \<^verbatim>\<open>pitch.go\<close>, and \<open>encodeSmplPitch\<close> of \<^verbatim>\<open>encoder.go\<close>, all under
  \<^verbatim>\<open>internal/voip/codec/mlow\<close>. The encoder works on the tables, the decoder on the window.
\<close>

section \<open>The pitch seed\<close>

record pitchSeed =
  ps_blocksegsBitstream :: bytes
  ps_blocksegs2idx :: bytes
  ps_blocksegsIx :: bytes
  ps_firstblockRange :: bytes
  ps_blocksegIdxDcmf :: bytes
  ps_deltaLagDcmfs :: bytes
  ps_blockTransitionDcmf :: bytes

text \<open>All fields are length-delimited; as in \<open>parseProto\<close>, a length that could wrap counts as a panic.\<close>

function parseProtoBytes :: "(nat \<rightharpoonup> bytes) \<Rightarrow> bytes \<Rightarrow> (nat \<rightharpoonup> bytes) go" where
  "parseProtoBytes m b =
     (case readVarint 0 0 b of
        None \<Rightarrow> Some m
      | Some (key, b1) \<Rightarrow>
          if key AND 7 \<noteq> 2 then Some m
          else
            (case readVarint 0 0 b1 of
               None \<Rightarrow> Some m
             | Some (ln, b2) \<Rightarrow>
                 if ln \<ge> push_bit 62 1 then None
                 else if unat ln > length b2 then Some m
                 else parseProtoBytes (m(unat (drop_bit 3 key) \<mapsto> take (unat ln) b2)) (drop (unat ln) b2)))"
  by pat_completeness auto
termination
  by (relation "measure (\<lambda>(_, b). length b)") (auto dest!: readVarint_shorter)

declare parseProtoBytes.simps [simp del]

definition proto_bytes :: "(nat \<rightharpoonup> bytes) \<Rightarrow> nat \<Rightarrow> bytes" where
  "proto_bytes f i = (case f i of Some b \<Rightarrow> b | None \<Rightarrow> [])"

text \<open>\<open>loadPitchSeed\<close> behind the inflation of the embedded blob.\<close>

definition loadPitchSeed :: "bytes \<Rightarrow> pitchSeed go" where
  "loadPitchSeed raw = do {
     f \<leftarrow> parseProtoBytes Map.empty raw;
     Some \<lparr>ps_blocksegsBitstream = proto_bytes f 1, ps_blocksegs2idx = proto_bytes f 2, ps_blocksegsIx = proto_bytes f 3,
       ps_firstblockRange = proto_bytes f 4, ps_blocksegIdxDcmf = proto_bytes f 5, ps_deltaLagDcmfs = proto_bytes f 6,
       ps_blockTransitionDcmf = proto_bytes f 7\<rparr> }"

section \<open>Pitch tables\<close>

record pitchBlockSeg =
  bs_Nblocks :: nat
  bs_Blocks :: "nat list"
  bs_Seglens :: "nat list"

text \<open>The mean and the sum of a track are exact in \<open>float32\<close>: they are kept as integers, the mean in eighths.\<close>

record pitchBlockTrack =
  bt_Track :: "nat list"
  bt_Meanblock8 :: nat
  bt_Trackdeltas :: int

record PitchTables =
  Blocksegs :: "pitchBlockSeg list"
  Blocktracks :: "pitchBlockTrack list"
  Blocksegs2idx :: "nat list"
  BlocksegIdxCmf :: "u32 list"
  DeltaLagCmfs :: "u32 list list"
  BlocksegsIx :: "(nat \<times> nat) list"
  FirstblockRange :: "(nat \<times> nat) list"
  BlockTransitionCmf :: "u32 list list"

definition ecDecodeUniform :: "u32 \<Rightarrow> RangeDecoder \<Rightarrow> (u32 \<times> RangeDecoder) go" where
  "ecDecodeUniform n d = do { let (v, d) = Decode n d; d \<leftarrow> Update v (v + 1) n d; Some (v, d) }"

fun decode_pairs :: "nat \<Rightarrow> RangeDecoder \<Rightarrow> ((nat \<times> nat) list \<times> RangeDecoder) go" where
  "decode_pairs 0 d = Some ([], d)"
| "decode_pairs (Suc n) d = do {
     (a, d) \<leftarrow> ecDecodeUniform 9 d;
     (b, d) \<leftarrow> ecDecodeUniform 4 d;
     (ps, d) \<leftarrow> decode_pairs n d;
     Some ((unat a, unat (b + 1)) # ps, d) }"

definition decodeBlockseg :: "RangeDecoder \<Rightarrow> (pitchBlockSeg \<times> RangeDecoder) go" where
  "decodeBlockseg d = do {
     (l, d) \<leftarrow> ecDecodeUniform 6 d;
     let n = unat (l + 1);
     (ps, d) \<leftarrow> decode_pairs n d;
     Some (\<lparr>bs_Nblocks = n, bs_Blocks = map fst ps, bs_Seglens = map snd ps\<rparr>, d) }"

fun decode_blocksegs :: "nat \<Rightarrow> RangeDecoder \<Rightarrow> pitchBlockSeg list go" where
  "decode_blocksegs 0 d = Some []"
| "decode_blocksegs (Suc n) d = do { (b, d) \<leftarrow> decodeBlockseg d; bs \<leftarrow> decode_blocksegs n d; Some (b # bs) }"

text \<open>One track: eight subframes; writing behind the last one panics.\<close>

fun expand_track :: "(nat \<times> nat) list \<Rightarrow> nat list" where
  "expand_track [] = []"
| "expand_track ((b, l) # r) = replicate l b @ expand_track r"

fun track_deltas :: "nat list \<Rightarrow> int" where
  "track_deltas (a # b # r) = \<bar>int a - int b\<bar> + track_deltas (b # r)"
| "track_deltas _ = 0"

definition gen_track :: "pitchBlockSeg list \<Rightarrow> nat \<times> nat \<Rightarrow> pitchBlockTrack go" where
  "gen_track blocksegs ix = do {
     seg \<leftarrow> idx blocksegs (fst ix);
     let tr = expand_track (zip (bs_Blocks seg) (bs_Seglens seg));
     if length tr > 8 then None
     else Some \<lparr>bt_Track = tr @ replicate (8 - length tr) 0,
         bt_Meanblock8 = sum_list (map2 (*) (bs_Blocks seg) (bs_Seglens seg)), bt_Trackdeltas = track_deltas (bs_Blocks seg)\<rparr> }"

definition pitchNumBlocksegs :: nat where "pitchNumBlocksegs = 217"
definition pitchNumBlocktracks :: nat where "pitchNumBlocktracks = 187"
definition pitchNumBlocks :: nat where "pitchNumBlocks = 9"
definition pitchBlocksize :: int where "pitchBlocksize = 64"

definition genBlocktracks :: "pitchBlockSeg list \<Rightarrow> (nat \<times> nat) list \<Rightarrow> pitchBlockTrack list go" where
  "genBlocktracks blocksegs ixs = map_go (\<lambda>i. idx ixs i \<bind> gen_track blocksegs) [0..<pitchNumBlocktracks]"

fun chunkPairs :: "bytes \<Rightarrow> (nat \<times> nat) list" where
  "chunkPairs (a # b # r) = (unat a, unat b) # chunkPairs r"
| "chunkPairs _ = []"

fun pitch_chunks :: "nat \<Rightarrow> bytes \<Rightarrow> u32 list list" where
  "pitch_chunks step b = (if step = 0 \<or> length b < step then [] else pitchDcmfToCmf (take step b) # pitch_chunks step (drop step b))"

declare pitch_chunks.simps [simp del]

definition buildPitchTablesFromSeed :: "pitchSeed \<Rightarrow> PitchTables go" where
  "buildPitchTablesFromSeed s = do {
     d \<leftarrow> NewRangeDecoder (ps_blocksegsBitstream s);
     blocksegs \<leftarrow> decode_blocksegs pitchNumBlocksegs d;
     let blocksegsIx = chunkPairs (ps_blocksegsIx s);
     tracks \<leftarrow> genBlocktracks blocksegs blocksegsIx;
     Some \<lparr>Blocksegs = blocksegs, Blocktracks = tracks, Blocksegs2idx = map unat (ps_blocksegs2idx s),
       BlocksegIdxCmf = pitchDcmfToCmf (ps_blocksegIdxDcmf s), DeltaLagCmfs = pitch_chunks 319 (ps_deltaLagDcmfs s),
       BlocksegsIx = blocksegsIx, FirstblockRange = chunkPairs (ps_firstblockRange s),
       BlockTransitionCmf = pitch_chunks pitchNumBlocks (ps_blockTransitionDcmf s)\<rparr> }"

record contourWindowParts =
  cw_records :: "(nat list \<times> nat list) list"
  cw_contourMap :: bytes
  cw_firstblockRange :: "(nat \<times> nat) list"
  cw_lagCdf :: "u32 list"
  cw_fracCmfs :: "u32 list list"
  cw_deltaCmfs :: "u32 list list"

definition buildContourWindow :: "pitchSeed \<Rightarrow> contourWindowParts go" where
  "buildContourWindow s = do {
     d \<leftarrow> NewRangeDecoder (ps_blocksegsBitstream s);
     blocksegs \<leftarrow> decode_blocksegs pitchNumBlocksegs d;
     Some \<lparr>cw_records = map (\<lambda>bs. (bs_Blocks bs, bs_Seglens bs)) blocksegs, cw_contourMap = ps_blocksegs2idx s,
       cw_firstblockRange = chunkPairs (ps_firstblockRange s), cw_lagCdf = pitchDcmfToCmf (ps_blocksegIdxDcmf s),
       cw_fracCmfs = pitch_chunks 319 (ps_deltaLagDcmfs s), cw_deltaCmfs = pitch_chunks pitchNumBlocks (ps_blockTransitionDcmf s)\<rparr> }"

section \<open>The heap window\<close>

record smplMemRegion =
  mr_base :: u32
  mr_data :: bytes

record SmplMem =
  sm_regions :: "smplMemRegion list"
  GCC :: u32
  GNrg :: u32
  GPitch :: u32
  GClk :: u32

definition memGClk :: u32 where "memGClk = 0xb9f9a8"
definition memGPitch :: u32 where "memGPitch = 0xb9d378"
definition memPcfg :: u32 where "memPcfg = memGClk + 0x5704"
definition memHdrContourMap :: u32 where "memHdrContourMap = 0xe7c10"
definition memHdrLagCdf :: u32 where "memHdrLagCdf = 0xbaa7b0"
definition memHdrFracBase :: u32 where "memHdrFracBase = 0xbaa9be"
definition memHdrDeltaCdf :: u32 where "memHdrDeltaCdf = 0xbab13e"
definition memDeltaBounds :: u32 where "memDeltaBounds = 0xe7ef0"
definition memNumContours :: u32 where "memNumContours = 217"
definition memHdrUnused :: "u32 list" where "memHdrUnused = [0xe7d20, 0xe7ef0, 0xe8096]"

definition u16Bytes :: "u32 list \<Rightarrow> bytes" where
  "u16Bytes v = concat (map (\<lambda>x. le16 (ucast x)) v)"

text \<open>The first eight entries of a list, zero-filled.\<close>

definition pad8 :: "nat list \<Rightarrow> nat list" where
  "pad8 xs = map (\<lambda>i. if i < length xs then xs ! i else 0) [0..<8]"

definition mem_record :: "nat list \<times> nat list \<Rightarrow> bytes" where
  "mem_record rec = concat (map (\<lambda>v. le32 (of_nat v)) (pad8 (fst rec) @ pad8 (snd rec) @ [length (fst rec)]))"

definition mem_header :: bytes where
  "mem_header = concat (map le32 ([187, memNumContours, memHdrContourMap, memHdrLagCdf, memHdrFracBase] @ memHdrUnused @ [memHdrDeltaCdf]))"

definition buildSmplMemFromSeed :: "contourWindowParts \<Rightarrow> SmplMem" where
  "buildSmplMemFromSeed w =
     \<lparr>sm_regions =
        [\<lparr>mr_base = memPcfg + 0x1d38, mr_data = concat (map mem_record (cw_records w)) @ mem_header\<rparr>,
         \<lparr>mr_base = memHdrLagCdf, mr_data = u16Bytes (cw_lagCdf w)\<rparr>,
         \<lparr>mr_base = memHdrFracBase, mr_data = u16Bytes (concat (cw_fracCmfs w))\<rparr>,
         \<lparr>mr_base = memHdrDeltaCdf, mr_data = u16Bytes (concat (cw_deltaCmfs w))\<rparr>,
         \<lparr>mr_base = memHdrContourMap, mr_data = cw_contourMap w\<rparr>,
         \<lparr>mr_base = memDeltaBounds, mr_data = concat (map (\<lambda>(a, b). [of_nat a, of_nat b]) (cw_firstblockRange w)) @ [0, 0]\<rparr>],
      GCC = 0, GNrg = 0, GPitch = memGPitch, GClk = memGClk\<rparr>"

fun regionFor :: "smplMemRegion list \<Rightarrow> u32 \<Rightarrow> nat \<Rightarrow> (bytes \<times> nat) option" where
  "regionFor [] addr n = None"
| "regionFor (r # rs) addr n =
     (if addr \<ge> mr_base r \<and> unat (addr - mr_base r) + n \<le> length (mr_data r) then Some (mr_data r, unat (addr - mr_base r))
      else regionFor rs addr n)"

definition U8 :: "SmplMem \<Rightarrow> u32 \<Rightarrow> u8 go" where
  "U8 m addr = (case regionFor (sm_regions m) addr 1 of Some (dat, off) \<Rightarrow> idx dat off | None \<Rightarrow> Some 0)"

definition U16 :: "SmplMem \<Rightarrow> u32 \<Rightarrow> u16 go" where
  "U16 m addr = (case regionFor (sm_regions m) addr 2 of Some (dat, off) \<Rightarrow> le_uint16 dat off | None \<Rightarrow> Some 0)"

definition U32 :: "SmplMem \<Rightarrow> u32 \<Rightarrow> u32 go" where
  "U32 m addr = (case regionFor (sm_regions m) addr 4 of Some (dat, off) \<Rightarrow> le_uint32 dat off | None \<Rightarrow> Some 0)"

definition I16 :: "SmplMem \<Rightarrow> u32 \<Rightarrow> int go" where
  "I16 m addr = map_option sint (U16 m addr)"

definition I32 :: "SmplMem \<Rightarrow> u32 \<Rightarrow> int go" where
  "I32 m addr = map_option sint (U32 m addr)"

definition CDFAt :: "SmplMem \<Rightarrow> u32 \<Rightarrow> nat \<Rightarrow> u16 list go" where
  "CDFAt m addr n = map_go (\<lambda>i. U16 m (addr + of_nat i * 2)) [0..<n]"

section \<open>Decoding\<close>

record SmplPitchResult =
  pt_GainIdx :: "int list"
  pt_FiltIdx :: "int list"
  pt_Lag :: int
  pt_Contour :: int
  pt_SampleLagQ6 :: "int list"
  pt_NumSeg :: int
  pt_IntLagQ6 :: "int list"
  pt_BlockLags :: "int list"
  pt_NumSubfr :: nat

text \<open>
  The gain loop over the pulse counts of the subframes: gain index, and filter index where there are pulses (-1
  elsewhere), with the sum that selects the lag table.
\<close>

definition acb_row :: "CcTables \<Rightarrow> int \<Rightarrow> int \<Rightarrow> u16 list go" where
  "acb_row cc p6 prev = (if p6 \<noteq> 0 then AcbgainRowLr cc prev else AcbgainRow cc prev)"

definition acb_weights :: "CcTables \<Rightarrow> int \<Rightarrow> int \<Rightarrow> (int \<times> int) go" where
  "acb_weights cc p6 gi = (if p6 \<noteq> 0 then AcbgainWeightsLr cc gi else AcbgainWeights cc gi)"

definition filt_cdf :: "CcTables \<Rightarrow> int \<Rightarrow> u16 list go" where
  "filt_cdf cc prev = (if prev = - 1 then Some (fcbgainsV cc) else FcbgainVDelta cc prev)"

fun dec_gains :: "CcTables \<Rightarrow> int \<Rightarrow> int list \<Rightarrow> int \<Rightarrow> SmplLsfState \<Rightarrow> RangeDecoder \<Rightarrow>
    ((int list \<times> int list \<times> int \<times> SmplLsfState) \<times> RangeDecoder) go" where
  "dec_gains cc p6 [] acc st d = Some (([], [], acc, st), d)"
| "dec_gains cc p6 (cnt # cnts) acc st d = do {
     row \<leftarrow> acb_row cc p6 (PrevGainIdx st);
     (k, d) \<leftarrow> DecodeCDF row d;
     let gi = int k;
     let st = st\<lparr>PrevGainIdx := gi\<rparr>;
     (w0, w2) \<leftarrow> acb_weights cc p6 gi;
     (fi, st, d) \<leftarrow> (if cnt > 0 then do {
          cdf \<leftarrow> filt_cdf cc (PrevFiltIdx st);
          (f, d) \<leftarrow> DecodeCDF cdf d;
          Some (int f, st\<lparr>PrevFiltIdx := int f\<rparr>, d) }
        else Some (- 1, st, d));
     ((gis, fis, acc, st), d) \<leftarrow> dec_gains cc p6 cnts (acc + (w0 + 2 * w2)) st d;
     Some ((gi # gis, fi # fis, acc, st), d) }"

definition lag_mode :: "int \<Rightarrow> nat" where
  "lag_mode avgGain = (if avgGain \<ge> 10007 then if avgGain < 14085 then 1 else 2 else 0)"

text \<open>The primary lag; \<open>None\<close> inside is the early return of a malformed interval.\<close>

definition dec_lag :: "SmplMem \<Rightarrow> int \<Rightarrow> int \<Rightarrow> u32 \<Rightarrow> u32 \<Rightarrow> RangeDecoder \<Rightarrow> (int option \<times> RangeDecoder) go" where
  "dec_lag m prevLag numContours lagCdf deltaCdf d =
     (if prevLag < 0 then do {
        cdf \<leftarrow> CDFAt m lagCdf (nat (max (numContours + 1) 0));
        (k, d) \<leftarrow> DecodeCDF cdf d;
        Some (Some (int k), d) }
      else do {
        cdf \<leftarrow> CDFAt m (deltaCdf + of_int prevLag * 20) 10;
        (di, d) \<leftarrow> DecodeCDF cdf d;
        lo \<leftarrow> U8 m (0xe7ef0 + of_nat di * 2);
        hi \<leftarrow> U8 m (0xe7ef0 + of_nat di * 2 + 1);
        let rN = uint hi - uint lo + 2;
        if rN < 2 then Some (None, d)
        else do {
          cdf \<leftarrow> CDFAt m (lagCdf + ucast lo * 2) (nat rN);
          (k, d) \<leftarrow> DecodeCDF cdf d;
          Some (Some (int k + uint lo), d) } })"

fun find_contour :: "SmplMem \<Rightarrow> u32 \<Rightarrow> int \<Rightarrow> nat list \<Rightarrow> int go" where
  "find_contour m contourMap target [] = Some (- 1)"
| "find_contour m contourMap target (i # is) = do {
     b \<leftarrow> U8 m (contourMap + of_nat i);
     if uint b = target then Some (int i) else find_contour m contourMap target is }"

text \<open>Writing a lag for the next \<open>n\<close> subframes; writes outside the arrays are skipped.\<close>

record LagOut =
  lo_w :: nat
  lo_int :: "int list"
  lo_blk :: "int list"

fun put_lags :: "nat \<Rightarrow> int \<Rightarrow> LagOut \<Rightarrow> LagOut" where
  "put_lags 0 v out = out"
| "put_lags (Suc n) v out =
     put_lags n v \<lparr>lo_w = lo_w out + 1, lo_int = (lo_int out)[lo_w out := v], lo_blk = (lo_blk out)[lo_w out := v]\<rparr>"

definition put_trailing :: "int \<Rightarrow> LagOut \<Rightarrow> LagOut" where
  "put_trailing v out = out\<lparr>lo_int := (lo_int out)[lo_w out := v], lo_blk := (lo_blk out)[lo_w out := v]\<rparr>"

record FracState =
  fs_l2 :: int
  fs_l3 :: int
  fs_out :: LagOut
  fs_samp :: "int list"
  fs_st :: SmplLsfState

text \<open>The segment loop: \<open>n\<close> segments are left, \<open>seg\<close> is the next one.\<close>

fun dec_segs :: "SmplMem \<Rightarrow> u32 \<Rightarrow> u32 \<Rightarrow> nat \<Rightarrow> nat \<Rightarrow> FracState \<Rightarrow> RangeDecoder \<Rightarrow> (FracState \<times> RangeDecoder) go" where
  "dec_segs m ctrBase fracSegBase 0 seg f d = Some (f, d)"
| "dec_segs m ctrBase fracSegBase (Suc n) seg f d = do {
     segLag \<leftarrow> I32 m (ctrBase + 0x1d38 + of_nat seg * 4);
     let nl2 = (push_bit 6 (fs_l2 f) - fs_l3 f) + push_bit 6 (segLag - fs_l2 f);
     cdf \<leftarrow> CDFAt m (fracSegBase + of_int (nl2 * 2) + 0xfe) 65;
     (k, d) \<leftarrow> DecodeCDF cdf d;
     let l3 = int k + PrevFracLag (fs_st f) + nl2;
     segLen \<leftarrow> I32 m (ctrBase + 0x1d58 + of_nat seg * 4);
     dec_segs m ctrBase fracSegBase n (seg + 1)
       \<lparr>fs_l2 = segLag, fs_l3 = l3, fs_out = put_lags (nat segLen) l3 (fs_out f), fs_samp = (fs_samp f)[seg := l3],
        fs_st = (fs_st f)\<lparr>PrevFracLag := l3, PrevLag := segLag\<rparr>\<rparr> d }"

definition read_fine :: "int \<Rightarrow> int \<Rightarrow> bool" where
  "read_fine prevLag baseLag \<longleftrightarrow> \<not> (prevLag \<ge> 0 \<and> - 1 \<le> baseLag - prevLag \<and> baseLag - prevLag < 3)"

text \<open>The lags of a contour that was found.\<close>

definition dec_contour ::
  "SmplMem \<Rightarrow> u32 \<Rightarrow> u32 \<Rightarrow> SmplLsfState \<Rightarrow> RangeDecoder \<Rightarrow> ((FracState \<times> int) \<times> RangeDecoder) go" where
  "dec_contour m ctrBase fracSegBase st d = do {
     baseLag \<leftarrow> I32 m (ctrBase + 0x1d38);
     let out = \<lparr>lo_w = 0, lo_int = replicate 4 0, lo_blk = replicate 8 0\<rparr>;
     let fine = read_fine (PrevLag st) baseLag;
     (l2, out, st, d) \<leftarrow> (if fine then do {
          (sym, d) \<leftarrow> Decode64FineSym d;
          let l = push_bit 6 baseLag + sym;
          segLen0 \<leftarrow> I32 m (ctrBase + 0x1d58);
          Some (l, put_trailing l (put_lags (nat segLen0) l out), st\<lparr>PrevFracLag := l, PrevLag := baseLag\<rparr>, d) }
        else Some (baseLag, out, st, d));
     cnt2 \<leftarrow> I32 m (ctrBase + 0x1d78);
     let start = (if fine then 1 else 0);
     (f, d) \<leftarrow> dec_segs m ctrBase fracSegBase (nat (cnt2 - int start)) start
       \<lparr>fs_l2 = l2, fs_l3 = PrevFracLag st, fs_out = out, fs_samp = replicate 8 0, fs_st = st\<rparr> d;
     Some ((f, cnt2), d) }"

definition DecodeSmplPitch ::
  "CcTables \<Rightarrow> SmplMem \<Rightarrow> int \<Rightarrow> int \<Rightarrow> int \<Rightarrow> int list \<Rightarrow> SmplLsfState \<Rightarrow> RangeDecoder \<Rightarrow> ((SmplPitchResult \<times> SmplLsfState) \<times> RangeDecoder) go" where
  "DecodeSmplPitch cc m p2 p3 p6 subfrCounts st d = do {
     let tk = nat (min p3 4);
     ((gis, fis, acc, st), d) \<leftarrow> dec_gains cc p6 (take tk subfrCounts) 0 st d;
     if p3 = 0 then None
     else do {
       let avgGain = acc sdiv p3;
       let res = \<lparr>pt_GainIdx = gis @ replicate (4 - tk) 0, pt_FiltIdx = fis @ replicate (4 - tk) (- 1), pt_Lag = 0, pt_Contour = 0,
           pt_SampleLagQ6 = replicate 8 0, pt_NumSeg = 0, pt_IntLagQ6 = replicate 4 0, pt_BlockLags = replicate 8 0, pt_NumSubfr = 0\<rparr>;
       let pcfg = GClk m + 0x5704;
       numContours \<leftarrow> I32 m (pcfg + 22240);
       lagCdf \<leftarrow> U32 m (pcfg + 22248);
       contourMap \<leftarrow> U32 m (pcfg + 22244);
       fracBase \<leftarrow> U32 m (pcfg + 22252);
       deltaCdf \<leftarrow> U32 m (pcfg + 22268);
       (l, d) \<leftarrow> dec_lag m (PrevLag st) numContours lagCdf deltaCdf d;
       (case l of
          None \<Rightarrow> Some ((res\<lparr>pt_Lag := - 1\<rparr>, st), d)
        | Some lag \<Rightarrow> do {
            contour \<leftarrow> find_contour m contourMap (lag + 1) [0..<217];
            let res = res\<lparr>pt_Lag := lag, pt_Contour := contour\<rparr>;
            if contour < 0 \<or> contour \<ge> numContours then Some ((res, st), d)
            else do {
              ((f, cnt2), d) \<leftarrow> dec_contour m (pcfg + of_int contour * 0x44) (fracBase + of_nat (lag_mode avgGain) * 0x280) st d;
              Some ((res\<lparr>pt_SampleLagQ6 := fs_samp f, pt_NumSeg := cnt2, pt_IntLagQ6 := lo_int (fs_out f),
                  pt_BlockLags := lo_blk (fs_out f), pt_NumSubfr := lo_w (fs_out f)\<rparr>, fs_st f), d) } }) } }"

section \<open>Encoding\<close>

record SmplPitchParams =
  ep_GainIdx :: "int list"
  ep_FiltIdx :: "int list"
  ep_BlocksegIdx :: int
  ep_Laginds :: "int list"

fun enc_gains :: "CcTables \<Rightarrow> int \<Rightarrow> (int \<times> int \<times> int) list \<Rightarrow> int \<Rightarrow> SmplLsfState \<Rightarrow> RangeEncoder \<Rightarrow> ((int \<times> SmplLsfState) \<times> RangeEncoder) go" where
  "enc_gains cc p6 [] acc st e = Some ((acc, st), e)"
| "enc_gains cc p6 ((cnt, gi, fi) # r) acc st e = do {
     row \<leftarrow> acb_row cc p6 (PrevGainIdx st);
     e \<leftarrow> EncodeCDF gi row e;
     let st = st\<lparr>PrevGainIdx := gi\<rparr>;
     (w0, w2) \<leftarrow> acb_weights cc p6 gi;
     (st, e) \<leftarrow> (if cnt > 0 then do {
          cdf \<leftarrow> filt_cdf cc (PrevFiltIdx st);
          e \<leftarrow> EncodeCDF fi cdf e;
          Some (st\<lparr>PrevFiltIdx := fi\<rparr>, e) }
        else Some (st, e));
     enc_gains cc p6 r (acc + (w0 + 2 * w2)) st e }"

text \<open>The selector of the block segmentation.\<close>

definition enc_blockseg :: "PitchTables \<Rightarrow> nat \<Rightarrow> pitchBlockSeg \<Rightarrow> int \<Rightarrow> RangeEncoder \<Rightarrow> RangeEncoder go" where
  "enc_blockseg tab ixJulia seg prevLagblk e =
     (if prevLagblk < 0 then do {
        fl \<leftarrow> idx_int (BlocksegIdxCmf tab) (int ixJulia - 1);
        fh \<leftarrow> idx (BlocksegIdxCmf tab) ixJulia;
        ft \<leftarrow> idx (BlocksegIdxCmf tab) (length (Blocksegs tab));
        Encode fl fh ft e }
      else do {
        cmf \<leftarrow> idx_int (BlockTransitionCmf tab) prevLagblk;
        b0 \<leftarrow> idx (bs_Blocks seg) 0;
        fl \<leftarrow> idx cmf b0;
        fh \<leftarrow> idx cmf (b0 + 1);
        ft \<leftarrow> idx cmf pitchNumBlocks;
        e \<leftarrow> Encode fl fh ft e;
        (lo, hi) \<leftarrow> idx (FirstblockRange tab) b0;
        let cmfLen = int hi - int lo + 1;
        cmf2 \<leftarrow> slice_from (BlocksegIdxCmf tab) lo;
        base \<leftarrow> idx cmf2 0;
        fl \<leftarrow> idx_int cmf2 (int ixJulia - int lo - 1);
        fh \<leftarrow> idx_int cmf2 (int ixJulia - int lo);
        ft \<leftarrow> idx_int cmf2 cmfLen;
        Encode (fl - base) (fh - base) (ft - base) e })"

text \<open>The remaining segments: \<open>n\<close> are left, \<open>k\<close> is the next one, \<open>lix\<close> its first lag index.\<close>

fun enc_segs :: "u32 list \<Rightarrow> pitchBlockSeg \<Rightarrow> int list \<Rightarrow> nat \<Rightarrow> nat \<Rightarrow> nat \<Rightarrow> int \<Rightarrow> int \<Rightarrow> RangeEncoder \<Rightarrow> RangeEncoder go" where
  "enc_segs cmf seg laginds 0 k lix prevLagblk prevLagidx e = Some e"
| "enc_segs cmf seg laginds (Suc n) k lix prevLagblk prevLagidx e = do {
     b \<leftarrow> idx (bs_Blocks seg) k;
     let blk = int b;
     ix \<leftarrow> idx laginds lix;
     l \<leftarrow> idx (bs_Seglens seg) k;
     let deltaBlk = blk - prevLagblk;
     let deltaIdx = ix - prevLagidx;
     let prevLagidxMod = prevLagidx - prevLagblk * pitchBlocksize;
     let deltaRangeStart = - prevLagidxMod + deltaBlk * pitchBlocksize;
     let cmfBase = deltaRangeStart + 2 * pitchBlocksize - 1;
     let i = deltaIdx - deltaRangeStart;
     p0 \<leftarrow> idx_int cmf cmfBase;
     fl \<leftarrow> idx_int cmf (cmfBase + i);
     fh \<leftarrow> idx_int cmf (cmfBase + i + 1);
     ft \<leftarrow> idx_int cmf (cmfBase + pitchBlocksize);
     e \<leftarrow> Encode (fl - p0) (fh - p0) (ft - p0) e;
     enc_segs cmf seg laginds n (k + 1) (lix + l) blk ix e }"

definition encodeLagsWire :: "PitchTables \<Rightarrow> int \<Rightarrow> int list \<Rightarrow> int \<Rightarrow> int \<Rightarrow> nat \<Rightarrow> RangeEncoder \<Rightarrow> RangeEncoder go" where
  "encodeLagsWire tab blocksegsIx laginds prevLagblk prevLagidx mode e = do {
     ixJulia \<leftarrow> idx_int (Blocksegs2idx tab) blocksegsIx;
     seg \<leftarrow> idx_int (Blocksegs tab) blocksegsIx;
     e \<leftarrow> enc_blockseg tab ixJulia seg prevLagblk e;
     b0 \<leftarrow> idx (bs_Blocks seg) 0;
     let blk = int b0;
     let deltaBlk = blk - prevLagblk;
     (prevLagblk, prevLagidx, lix, start, e) \<leftarrow>
       (if prevLagblk \<le> - 1 \<or> deltaBlk < - 1 \<or> deltaBlk > 2 then do {
          l0 \<leftarrow> idx laginds 0;
          let idxMod = (of_int (l0 - blk * pitchBlocksize) :: u32);
          e \<leftarrow> Encode idxMod (idxMod + 1) (of_int pitchBlocksize) e;
          s0 \<leftarrow> idx (bs_Seglens seg) 0;
          Some (blk, l0, s0, 1, e) }
        else Some (prevLagblk, prevLagidx, 0, 0, e));
     cmf \<leftarrow> idx (DeltaLagCmfs tab) mode;
     enc_segs cmf seg laginds (bs_Nblocks seg - start) start lix prevLagblk prevLagidx e }"

definition smplLagsPredictorAfter :: "PitchTables \<Rightarrow> int \<Rightarrow> int list \<Rightarrow> (int \<times> int) go" where
  "smplLagsPredictorAfter tab blocksegsIx laginds = do {
     seg \<leftarrow> idx_int (Blocksegs tab) blocksegsIx;
     b \<leftarrow> idx_int (bs_Blocks seg) (int (bs_Nblocks seg) - 1);
     l \<leftarrow> idx laginds 7;
     Some (int b, l) }"

definition encodeSmplPitch ::
  "CcTables \<Rightarrow> PitchTables \<Rightarrow> int \<Rightarrow> int \<Rightarrow> int \<Rightarrow> int list \<Rightarrow> SmplPitchParams \<Rightarrow> SmplLsfState \<Rightarrow> RangeEncoder \<Rightarrow> (SmplLsfState \<times> RangeEncoder) go" where
  "encodeSmplPitch cc tab p2 p3 p6 subfrCounts pp st e = do {
     let tk = nat (min p3 4);
     ((acc, st), e) \<leftarrow> enc_gains cc p6 (take tk (zip subfrCounts (zip (ep_GainIdx pp) (ep_FiltIdx pp)))) 0 st e;
     if p3 = 0 then None
     else do {
       let avgGain = acc sdiv p3;
       e \<leftarrow> encodeLagsWire tab (ep_BlocksegIdx pp) (ep_Laginds pp) (PrevLagblk st) (PrevLagidx st) (lag_mode avgGain) e;
       (nblk, nidx) \<leftarrow> smplLagsPredictorAfter tab (ep_BlocksegIdx pp) (ep_Laginds pp);
       Some (st\<lparr>PrevLagblk := nblk, PrevLagidx := nidx\<rparr>, e) } }"

end
