(* ===== verification/Mlow_Packet.thy ===== *)
theory Mlow_Packet
  imports Prelude
begin

unbundle bit_operations_syntax

text \<open>
  The outer layers of an MLow audio payload: the first byte of a frame (\<^verbatim>\<open>toc.go\<close>), the SplitRed redundancy packet
  (\<^verbatim>\<open>red.go\<close>) and the multi-frame container of \<^verbatim>\<open>decoder.go\<close>. Both parsers are characterised by the layout they accept:
  they succeed on exactly the byte strings that lay out some frames, and return those frames. \<open>None\<close> is a run-time panic.
\<close>

section \<open>The first byte\<close>

record SmplTOC =
  StdOpus :: bool
  SID :: bool
  VAD :: bool
  SampleRate :: int
  FrameMs :: int
  Voiced :: bool
  Active :: bool
  Flag2 :: bool
  Flag0 :: bool

definition standardOpusFrameMs :: "u8 \<Rightarrow> int go" where
  "standardOpusFrameMs b =
     (let config = drop_bit 3 b in
      if config < 12 then idx [10, 20, 40, 60] (unat (config AND 3))
      else if config < 16 then idx [10, 20] (unat ((config - 12) AND 1))
      else if config AND 3 = 0 then Some 3
      else if config AND 3 = 1 then Some 5
      else if config AND 3 = 2 then Some 10
      else Some 20)"

definition IsStandardOpusFrame :: "u8 \<Rightarrow> bool" where
  "IsStandardOpusFrame b \<longleftrightarrow> b AND 0xC0 = 0xC0"

definition ParseSmplTOC :: "u8 \<Rightarrow> SmplTOC go" where
  "ParseSmplTOC b =
     (if IsStandardOpusFrame b then do {
        ms \<leftarrow> standardOpusFrameMs b;
        Some \<lparr>StdOpus = True, SID = False, VAD = False, SampleRate = 16000, FrameMs = ms, Voiced = False, Active = False,
              Flag2 = False, Flag0 = False\<rparr> }
      else do {
        let bit1 = (drop_bit 1 b AND 1 \<noteq> 0);
        let vad = (drop_bit 6 b AND 1 \<noteq> 0);
        ms \<leftarrow> idx [10, 20, 60, 120] (unat (drop_bit 3 b AND 3));
        Some \<lparr>StdOpus = False, SID = (drop_bit 7 b \<noteq> 0), VAD = vad, SampleRate = (if b AND 0x20 \<noteq> 0 then 32000 else 16000),
              FrameMs = ms, Voiced = (vad \<and> bit1), Active = (vad \<or> bit1), Flag2 = (drop_bit 2 b AND 1 \<noteq> 0),
              Flag0 = (b AND 1 \<noteq> 0)\<rparr> })"

section \<open>SplitRed packets\<close>

record MlowFrame =
  mf_Data :: bytes
  mf_TimeCode :: u8
  mf_IsMain :: bool

datatype RedError = ErrPktSizeZero | ErrHeaderTooShort | ErrRedundantTooShort | ErrMainTooShort

text \<open>The header loop: the blocks read, \<open>cur\<close> and \<open>rem\<close> when it breaks.\<close>

function red_header :: "bytes \<Rightarrow> nat \<Rightarrow> nat \<Rightarrow> (u8 \<times> u8) list \<Rightarrow> (RedError + (u8 \<times> u8) list \<times> nat \<times> nat) go" where
  "red_header p cur rem red =
     (if rem = 0 then Some (Inl ErrHeaderTooShort)
      else do {
        b0 \<leftarrow> idx p cur;
        if b0 < 0x80 then
          (if rem \<le> 1 then Some (Inl ErrMainTooShort) else Some (Inr (red, cur, rem)))
        else if rem \<le> 2 then Some (Inl ErrRedundantTooShort)
        else do {
          sz \<leftarrow> idx p (cur + 1);
          if unat sz + 2 \<ge> rem then Some (Inl ErrRedundantTooShort)
          else red_header p (cur + 2) (rem - (unat sz + 2)) (red @ [(b0 AND 0x7f, sz)]) } })"
  by pat_completeness auto
termination by (relation "measure (\<lambda>(_, _, rem, _). rem)") auto

declare red_header.simps [simp del]

fun red_frames :: "bytes \<Rightarrow> nat \<Rightarrow> (u8 \<times> u8) list \<Rightarrow> (MlowFrame list \<times> nat) go" where
  "red_frames p cur [] = Some ([], cur)"
| "red_frames p cur ((code, sz) # red) = do {
     dat \<leftarrow> slice p cur (cur + unat sz);
     (fs, cur) \<leftarrow> red_frames p (cur + unat sz) red;
     Some (\<lparr>mf_Data = dat, mf_TimeCode = code, mf_IsMain = False\<rparr> # fs, cur) }"

definition DepackSplitRed :: "bytes \<Rightarrow> (RedError + MlowFrame list) go" where
  "DepackSplitRed p =
     (if length p = 0 then Some (Inl ErrPktSizeZero)
      else do {
        h \<leftarrow> red_header p 0 (length p) [];
        (case h of
           Inl e \<Rightarrow> Some (Inl e)
         | Inr (red, cur, rem) \<Rightarrow> do {
             mc \<leftarrow> idx p cur;
             (fs, cur) \<leftarrow> red_frames p (cur + 1) red;
             dat \<leftarrow> slice p cur (cur + (rem - 1));
             Some (Inr (fs @ [\<lparr>mf_Data = dat, mf_TimeCode = mc AND 0x7f, mf_IsMain = True\<rparr>])) }) })"

section \<open>The multi-frame container\<close>

fun container_frames :: "bytes \<Rightarrow> nat \<Rightarrow> nat \<Rightarrow> (bytes list \<times> nat) option go" where
  "container_frames p 0 off = Some (Some ([], off))"
| "container_frames p (Suc n) off =
     (if off \<ge> length p then Some None
      else do {
        b \<leftarrow> idx p off;
        let flen = unat b;
        let off = off + 1;
        if off + flen > length p then Some None
        else do {
          f \<leftarrow> slice p off (off + flen);
          r \<leftarrow> container_frames p n (off + flen);
          Some (map_option (\<lambda>(fs, off). (f # fs, off)) r) } })"

text \<open>\<open>Some None\<close> is \<open>ok = false\<close>: not a container.\<close>

definition splitContainer :: "bytes \<Rightarrow> bytes list option go" where
  "splitContainer p =
     (if length p < 3 \<or> p ! 0 \<noteq> 0x92 then Some None
      else do {
        b \<leftarrow> idx p 1;
        let count = unat b;
        if count < 2 \<or> count > 8 then Some None
        else do {
          r \<leftarrow> container_frames p (count - 1) 2;
          (case r of
             None \<Rightarrow> Some None
           | Some (fs, off) \<Rightarrow> if off \<ge> length p then Some None else do { f \<leftarrow> slice_from p off; Some (Some (fs @ [f])) }) } })"

section \<open>Cutting a byte string\<close>

fun cut_up :: "'a list \<Rightarrow> nat list \<Rightarrow> 'a list list" where
  "cut_up xs [] = []"
| "cut_up xs (n # ns) = take n xs # cut_up (drop n xs) ns"

lemma length_cut_up [simp]: "length (cut_up xs ns) = length ns"
  by (induction xs ns rule: cut_up.induct) auto

lemma concat_cut_up: "concat (cut_up xs ns) = take (sum_list ns) xs"
  by (induction xs ns rule: cut_up.induct) (simp_all add: take_add)

lemma cut_up_lengths: "sum_list ns \<le> length xs \<Longrightarrow> map length (cut_up xs ns) = ns"
  by (induction xs ns rule: cut_up.induct) auto

lemma cut_up_concat: "cut_up (concat ds @ ys) (map length ds) = ds"
  by (induction ds) auto

section \<open>What a SplitRed packet is\<close>

text \<open>The layout: the headers of the redundant blocks, the main code, the redundant frames, the main frame.\<close>

definition red_headers :: "(u8 \<times> u8) list \<Rightarrow> bytes" where
  "red_headers hs = concat (map (\<lambda>(c, s). [c OR 0x80, s]) hs)"

definition red_layout :: "(u8 \<times> bytes) list \<Rightarrow> u8 \<Rightarrow> bytes \<Rightarrow> bytes" where
  "red_layout rs mc md = red_headers (map (\<lambda>(c, d). (c, of_nat (length d))) rs) @ mc # concat (map snd rs) @ md"

definition red_valid :: "(u8 \<times> bytes) list \<Rightarrow> u8 \<Rightarrow> bytes \<Rightarrow> bool" where
  "red_valid rs mc md \<longleftrightarrow> (\<forall>(c, d) \<in> set rs. c < 0x80 \<and> length d < 256) \<and> mc < 0x80 \<and> md \<noteq> []"

definition red_result :: "(u8 \<times> bytes) list \<Rightarrow> u8 \<Rightarrow> bytes \<Rightarrow> MlowFrame list" where
  "red_result rs mc md = map (\<lambda>(c, d). \<lparr>mf_Data = d, mf_TimeCode = c, mf_IsMain = False\<rparr>) rs @
     [\<lparr>mf_Data = md, mf_TimeCode = mc, mf_IsMain = True\<rparr>]"

definition red_sizes :: "(u8 \<times> u8) list \<Rightarrow> nat list" where
  "red_sizes hs = map (\<lambda>(c, s). unat s) hs"

lemma u8_less_128: "b < 0x80 \<longleftrightarrow> \<not> bit b 7" for b :: u8
proof -
  have "unat b < 256"
    using unsigned_less [of b, where ?'a = nat] by simp
  moreover have "bit b 7 \<longleftrightarrow> odd (unat b div 128)"
    using bit_unsigned_iff [of b 7, where ?'a = nat] by (simp add: bit_iff_odd)
  moreover have "unat b div 128 = (if unat b < 128 then 0 else 1)"
    using calculation by auto
  ultimately show ?thesis
    by (simp add: word_less_nat_alt)
qed

lemma u8_code:
  fixes b :: u8
  shows "\<not> b < 0x80 \<Longrightarrow> (b AND 0x7f) OR 0x80 = b" "b AND 0x7f < 0x80" "b < 0x80 \<Longrightarrow> b AND 0x7f = b"
    "\<not> (b OR 0x80) < 0x80" "b < 0x80 \<Longrightarrow> (b OR 0x80) AND 0x7f = b"
  unfolding u8_less_128
  by (auto simp: bit_simps less_Suc_eq numeral_eq_Suc intro!: bit_word_eqI)

lemma length_red_headers [simp]: "length (red_headers hs) = 2 * length hs"
  by (induction hs) (auto simp: red_headers_def)

lemma red_headers_Cons [simp]: "red_headers ((c, s) # hs) = (c OR 0x80) # s # red_headers hs"
  by (simp add: red_headers_def)

lemma red_headers_Nil [simp]: "red_headers [] = []"
  by (simp add: red_headers_def)

lemma red_sizes_Cons [simp]: "red_sizes ((c, s) # hs) = unat s # red_sizes hs" "red_sizes [] = []"
  by (simp_all add: red_sizes_def)

text \<open>The header loop on a packet, and what a header that was read looks like.\<close>

lemma red_header_layout:
  assumes "drop cur p = red_headers hs @ mc # rest" "\<forall>(c, s) \<in> set hs. c < 0x80" "mc < 0x80" "m \<noteq> 0"
    "rem = sum_list (red_sizes hs) + 2 * length hs + 1 + m"
  shows "red_header p cur rem red = Some (Inr (red @ hs, cur + 2 * length hs, 1 + m))"
  using assms
proof (induction hs arbitrary: cur rem red)
  case Nil
  then have "cur < length p" "p ! cur = mc"
    by (auto simp: nth_via_drop intro: ccontr)
  then show ?case
    using Nil by (subst red_header.simps) (simp add: idx_def)
next
  case (Cons h hs)
  obtain c s where h: "h = (c, s)"
    by (cases h)
  have d: "drop cur p = (c OR 0x80) # s # red_headers hs @ mc # rest"
    using Cons.prems h by simp
  then have l: "cur + 1 < length p"
    by (auto dest: arg_cong [where f = length])
  have i: "p ! cur = c OR 0x80" "p ! (cur + 1) = s" "drop (cur + 2) p = red_headers hs @ mc # rest"
    using l d nth_drop [of cur p 0] nth_drop [of cur p 1] drop_drop [of 2 cur p] by (simp_all add: add.commute)
  have r: "red_header p (cur + 2) (rem - (unat s + 2)) (red @ [(c, s)]) = Some (Inr ((red @ [(c, s)]) @ hs, cur + 2 + 2 * length hs, 1 + m))"
    using Cons.prems h i(3) by (intro Cons.IH) auto
  have "red_header p cur rem red = red_header p (cur + 2) (rem - (unat s + 2)) (red @ [(c, s)])"
    using Cons.prems h i l by (subst red_header.simps) (simp add: idx_def u8_code)
  then show ?case
    using r h by simp
qed

lemma red_header_read:
  assumes "cur + rem \<le> length p"
  obtains e where "red_header p cur rem red = Some (Inl e)"
  | hs m mc rest where "red_header p cur rem red = Some (Inr (red @ hs, cur + 2 * length hs, 1 + m))"
    "drop cur p = red_headers hs @ mc # rest" "\<forall>(c, s) \<in> set hs. c < 0x80" "mc < 0x80" "m \<noteq> 0"
    "rem = sum_list (red_sizes hs) + 2 * length hs + 1 + m"
  using assms
proof (induction p cur rem red arbitrary: thesis rule: red_header.induct)
  case (1 p cur rem red)
  show ?case
  proof (cases "rem = 0")
    case True
    then show ?thesis
      by (intro 1(2) [of ErrHeaderTooShort], subst red_header.simps) simp
  next
    case False
    then have cur: "cur < length p"
      using 1(4) by simp
    show ?thesis
    proof (cases "p ! cur < 0x80")
      case small: True
      show ?thesis
      proof (cases "rem \<le> 1")
        case True
        then show ?thesis
          using False small cur by (intro 1(2) [of ErrMainTooShort], subst red_header.simps) (simp add: idx_def)
      next
        case big: False
        then show ?thesis
          using False small cur
          by (intro 1(3) [of "[]" "rem - 1" "p ! cur" "drop (Suc cur) p"], subst red_header.simps)
            (simp_all add: idx_def Cons_nth_drop_Suc)
      qed
    next
      case large: False
      show ?thesis
      proof (cases "rem \<le> 2 \<or> rem \<le> unat (p ! (cur + 1)) + 2")
        case True
        then show ?thesis
          using 1(4) False large cur by (intro 1(2) [of ErrRedundantTooShort], subst red_header.simps) (auto simp: idx_def)
      next
        case ok: False
        define s where "s = p ! (cur + 1)"
        define c where "c = p ! cur AND 0x7f"
        have i: "idx p cur = Some (p ! cur)" "idx p (cur + 1) = Some s"
          using ok 1(4) by (simp_all add: idx_def s_def)
        have step: "red_header p cur rem red = red_header p (cur + 2) (rem - (unat s + 2)) (red @ [(c, s)])"
          using False large ok by (subst red_header.simps) (simp add: i i(2) [simplified] c_def s_def [simplified, symmetric])
        have d: "drop cur p = (c OR 0x80) # s # drop (cur + 2) p"
          using ok 1(4) large u8_code(1) [of "p ! cur"] Cons_nth_drop_Suc [of cur p] Cons_nth_drop_Suc [of "cur + 1" p]
          by (simp add: s_def c_def)
        show ?thesis
        proof (rule 1(1) [OF False i(1) large _ i(2)])
          show "\<not> rem \<le> 2" "\<not> rem \<le> unat s + 2" "cur + 2 + (rem - (unat s + 2)) \<le> length p"
            using ok 1(4) by (auto simp: s_def)
        next
          fix e assume "red_header p (cur + 2) (rem - (unat s + 2)) (red @ [(p ! cur AND 0x7f, s)]) = Some (Inl e)"
          then show ?thesis
            using 1(2) step by (simp add: c_def)
        next
          fix hs m mc rest
          assume "red_header p (cur + 2) (rem - (unat s + 2)) (red @ [(p ! cur AND 0x7f, s)]) = Some (Inr ((red @ [(p ! cur AND 0x7f, s)]) @ hs, cur + 2 + 2 * length hs, 1 + m))"
            "drop (cur + 2) p = red_headers hs @ mc # rest" "\<forall>(c, s) \<in> set hs. c < 0x80" "mc < 0x80" "m \<noteq> 0"
            "rem - (unat s + 2) = sum_list (red_sizes hs) + 2 * length hs + 1 + m"
          moreover from this have "rem = sum_list (red_sizes ((c, s) # hs)) + 2 * length ((c, s) # hs) + 1 + m"
            using ok by (simp add: s_def)
          ultimately show ?thesis
            using 1(3) [of "(c, s) # hs" m mc rest] step d u8_code(2) [of "p ! cur"] by (simp add: c_def)
        qed
      qed
    qed
  qed
qed

lemma red_frames_cut:
  "cur + sum_list (red_sizes hs) \<le> length p \<Longrightarrow>
   red_frames p cur hs = Some (map2 (\<lambda>(c, s) d. \<lparr>mf_Data = d, mf_TimeCode = c, mf_IsMain = False\<rparr>) hs (cut_up (drop cur p) (red_sizes hs)),
     cur + sum_list (red_sizes hs))"
proof (induction hs arbitrary: cur)
  case (Cons h hs)
  obtain c s where h: "h = (c, s)"
    by (cases h)
  show ?case
    using Cons.prems Cons.IH [of "cur + unat s"] h by (simp add: slice_def add.assoc add.commute [of cur])
qed simp

lemma DepackSplitRed_layout:
  assumes "red_valid rs mc md"
  shows "DepackSplitRed (red_layout rs mc md) = Some (Inr (red_result rs mc md))"
proof -
  define hs where "hs = map (\<lambda>(c, d). (c, of_nat (length d) :: u8)) rs"
  define p where "p = red_layout rs mc md"
  have len: "unat (of_nat (length d) :: u8) = length d" if "(c, d) \<in> set rs" for c d
    using assms that by (auto simp: red_valid_def unat_of_nat take_bit_nat_eq_self)
  have sz: "red_sizes hs = map (length \<circ> snd) rs"
    using len by (auto simp: red_sizes_def hs_def)
  have p: "p = red_headers hs @ mc # concat (map snd rs) @ md"
    by (simp add: p_def red_layout_def hs_def)
  have lp: "length p = sum_list (red_sizes hs) + 2 * length hs + 1 + length md"
    by (simp add: p sz length_concat comp_def)
  have h: "red_header p 0 (length p) [] = Some (Inr ([] @ hs, 0 + 2 * length hs, 1 + length md))"
    using assms by (intro red_header_layout [where mc = mc and rest = "concat (map snd rs) @ md"])
      (auto simp: lp, auto simp: p hs_def red_valid_def)
  have dr: "drop (2 * length hs + 1) p = concat (map snd rs) @ md"
    by (simp add: p)
  have f: "red_frames p (2 * length hs + 1) hs = Some (map2 (\<lambda>(c, s) d. \<lparr>mf_Data = d, mf_TimeCode = c, mf_IsMain = False\<rparr>) hs (map snd rs),
      2 * length hs + 1 + sum_list (red_sizes hs))"
    using cut_up_concat [of "map snd rs" md] by (subst red_frames_cut) (simp_all add: lp dr [simplified] sz comp_def)
  have m: "map2 (\<lambda>(c, s) d. \<lparr>mf_Data = d, mf_TimeCode = c, mf_IsMain = False\<rparr>) hs (map snd rs) =
      map (\<lambda>(c, d). \<lparr>mf_Data = d, mf_TimeCode = c, mf_IsMain = False\<rparr>) rs"
    by (simp add: hs_def zip_map1 zip_map2 zip_same_conv_map split_beta)
  have i: "idx p (2 * length hs) = Some mc"
    by (simp add: idx_def p nth_append)
  have sl: "slice p (2 * length hs + 1 + sum_list (red_sizes hs)) (2 * length hs + 1 + sum_list (red_sizes hs) + length md) = Some md"
    using slice_append_mid [of "2 * length hs + 1 + sum_list (red_sizes hs)" "red_headers hs @ mc # concat (map snd rs)" _ md "[]"]
    by (simp add: p sz length_concat comp_def)
  have "length p \<noteq> 0"
    by (simp add: p)
  then show ?thesis
    using assms h f i sl u8_code(3) [of mc]
    unfolding p_def [symmetric] by (simp add: DepackSplitRed_def m red_result_def red_valid_def)
qed

lemma DepackSplitRed_read:
  obtains e where "DepackSplitRed p = Some (Inl e)"
  | rs mc md where "red_valid rs mc md" "p = red_layout rs mc md"
proof (cases "length p = 0")
  case True
  then show ?thesis
    using that(1) by (simp add: DepackSplitRed_def)
next
  case False
  show ?thesis
  proof (rule red_header_read [of 0 "length p" p "[]"])
    fix e assume "red_header p 0 (length p) [] = Some (Inl e)"
    then show ?thesis
      using False that(1) by (simp add: DepackSplitRed_def)
  next
    fix hs m mc rest
    assume a: "drop 0 p = red_headers hs @ mc # rest" "\<forall>(c, s) \<in> set hs. c < 0x80" "mc < 0x80" "m \<noteq> 0"
      "length p = sum_list (red_sizes hs) + 2 * length hs + 1 + m"
    define ds where "ds = cut_up rest (red_sizes hs)"
    define rs where "rs = zip (map fst hs) ds"
    have lr: "length rest = sum_list (red_sizes hs) + m"
      using a(1,5) by simp
    have ld: "map length ds = red_sizes hs"
      unfolding ds_def by (rule cut_up_lengths) (simp add: lr)
    have lens: "length ds = length hs"
      by (simp add: ds_def red_sizes_def)
    have snds: "map snd rs = ds"
      by (simp add: rs_def lens)
    have nth: "length (ds ! i) = unat (snd (hs ! i))" if "i < length hs" for i
      using arg_cong [OF ld, of "\<lambda>xs. xs ! i"] that lens by (simp add: red_sizes_def split_beta)
    have hs: "map (\<lambda>(c, d). (c, of_nat (length d) :: u8)) rs = hs"
      by (rule nth_equalityI) (auto simp: rs_def lens nth)
    have "rest = concat ds @ drop (sum_list (red_sizes hs)) rest"
      by (simp add: ds_def concat_cut_up)
    then have "p = red_layout rs mc (drop (sum_list (red_sizes hs)) rest)"
      using a(1) by (simp add: red_layout_def hs snds)
    moreover have "red_valid rs mc (drop (sum_list (red_sizes hs)) rest)"
    proof -
      have "c < 0x80 \<and> length d < 256" if cd: "(c, d) \<in> set rs" for c d
      proof -
        obtain i where i: "i < length hs" "c = fst (hs ! i)" "d = ds ! i"
          using cd lens by (auto simp: rs_def set_zip)
        then show ?thesis
          using a(2) nth_mem [OF i(1)] nth [OF i(1)] unsigned_less [of "snd (hs ! i)", where ?'a = nat] by (auto simp: split_beta)
      qed
      then show ?thesis
        using a(3,4) lr by (auto simp: red_valid_def)
    qed
    ultimately show ?thesis
      using that(2) by blast
  qed simp
qed

text \<open>
  Claim C29. \<open>DepackSplitRed\<close> accepts exactly the SplitRed layout: it returns frames precisely when the payload is the
  headers of some redundant blocks, a main code, the blocks and a non-empty main frame, and then it returns these
  frames, the redundant ones in header order and the main one last; on every other payload it returns one of its errors,
  and it never panics.
\<close>

theorem DepackSplitRed_characterised:
  "(DepackSplitRed p = Some (Inr fs) \<longleftrightarrow> (\<exists>rs mc md. red_valid rs mc md \<and> p = red_layout rs mc md \<and> fs = red_result rs mc md)) \<and>
   DepackSplitRed p \<noteq> None"
proof (rule DepackSplitRed_read [of p])
  fix rs mc md assume *: "red_valid rs mc md" "p = red_layout rs mc md"
  then have "DepackSplitRed p = Some (Inr (red_result rs mc md))"
    by (simp add: DepackSplitRed_layout)
  with * show ?thesis
    using DepackSplitRed_layout by fastforce
qed (use DepackSplitRed_layout in fastforce)

section \<open>What a container is\<close>

definition container_body :: "bytes list \<Rightarrow> bytes" where
  "container_body fs = concat (map (\<lambda>f. of_nat (length f) # f) fs)"

definition container :: "bytes list \<Rightarrow> bytes \<Rightarrow> bytes" where
  "container fs l = 0x92 # of_nat (length fs + 1) # container_body fs @ l"

definition container_valid :: "bytes list \<Rightarrow> bytes \<Rightarrow> bool" where
  "container_valid fs l \<longleftrightarrow> 1 \<le> length fs \<and> length fs \<le> 7 \<and> (\<forall>f \<in> set fs. length f < 256) \<and> l \<noteq> []"

lemma container_body_Cons: "container_body (f # fs) = of_nat (length f) # f @ container_body fs" "container_body [] = []"
  by (simp_all add: container_body_def)

lemma unat_of_nat8: "n < 256 \<Longrightarrow> unat (of_nat n :: u8) = n"
  by (simp add: unat_of_nat take_bit_nat_eq_self)

lemma container_frames_read:
  obtains "container_frames p n off = Some None"
  | fs where "container_frames p n off = Some (Some (fs, off + length (container_body fs)))" "length fs = n"
    "\<forall>f \<in> set fs. length f < 256" "take (length (container_body fs)) (drop off p) = container_body fs"
    "off + length (container_body fs) \<le> max off (length p)"
proof (induction p n off arbitrary: thesis rule: container_frames.induct)
  case (1 p off)
  then show ?case
    using 1(2) [of "[]"] by (simp add: container_body_Cons)
next
  case (2 p n off)
  show ?case
  proof (cases "off \<ge> length p \<or> off + 1 + unat (p ! off) > length p")
    case True
    then show ?thesis
      by (intro 2(2)) (auto simp: idx_def Let_def)
  next
    case False
    define f where "f = take (unat (p ! off)) (drop (off + 1) p)"
    have lf: "length f = unat (p ! off)"
      using False by (simp add: f_def min_def) linarith
    have step: "container_frames p (Suc n) off = container_frames p n (off + 1 + length f) \<bind> (\<lambda>r. Some (map_option (\<lambda>(fs, off). (f # fs, off)) r))"
      using False by (simp add: idx_def slice_def Let_def lf) (simp add: f_def)
    have dr: "drop off p = p ! off # f @ drop (off + 1 + length f) p"
      using False Cons_nth_drop_Suc [of off p] append_take_drop_id [of "unat (p ! off)" "drop (Suc off) p"]
      unfolding lf by (simp add: f_def add.commute)
    show ?thesis
    proof (rule 2(1) [of "p ! off" "unat (p ! off)" "off + 1" f])
      assume "container_frames p n (off + 1 + unat (p ! off)) = Some None"
      then show ?thesis
        using 2(2) step lf by simp
    next
      fix fs
      assume a: "container_frames p n (off + 1 + unat (p ! off)) = Some (Some (fs, off + 1 + unat (p ! off) + length (container_body fs)))"
        "length fs = n" "\<forall>f \<in> set fs. length f < 256"
        "take (length (container_body fs)) (drop (off + 1 + unat (p ! off)) p) = container_body fs"
        "off + 1 + unat (p ! off) + length (container_body fs) \<le> max (off + 1 + unat (p ! off)) (length p)"
      have "length f < 256"
        using lf unsigned_less [of "p ! off", where ?'a = nat] by simp
      moreover have "of_nat (length f) = p ! off"
        by (simp add: lf)
      ultimately show ?thesis
        using a False lf by (intro 2(3) [of "f # fs"]) (simp_all add: step container_body_Cons dr del: container_frames.simps)
    qed (use False in \<open>auto simp: idx_def slice_def f_def\<close>)
  qed
qed

lemma container_frames_layout:
  assumes "drop off p = container_body fs @ l" "\<forall>f \<in> set fs. length f < 256" "off \<le> length p"
  shows "container_frames p (length fs) off = Some (Some (fs, off + length (container_body fs)))"
  using assms
proof (induction fs arbitrary: off)
  case (Cons f fs)
  have d: "drop off p = of_nat (length f) # f @ container_body fs @ l"
    using Cons.prems by (simp add: container_body_Cons)
  have lp: "length p = off + 1 + length f + length (container_body fs @ l)"
    using arg_cong [OF d, of length] Cons.prems(3) by simp
  have i: "idx p off = Some (of_nat (length f))"
    using lp nth_via_drop [OF d] by (simp add: idx_def)
  have d1: "drop (Suc off) p = f @ container_body fs @ l"
    using d drop_drop [of 1 off p] by simp
  have d2: "drop (Suc (off + length f)) p = container_body fs @ l"
    using d1 drop_drop [of "length f" "Suc off" p] by (simp add: add.commute)
  have "container_frames p (length fs) (Suc (off + length f)) = Some (Some (fs, Suc (off + length f) + length (container_body fs)))"
    using Cons.prems d2 lp by (intro Cons.IH) auto
  then show ?case
    using lp Cons.prems by (simp add: i unat_of_nat8 slice_def d1 container_body_Cons)
qed (simp add: container_body_Cons)

lemma splitContainer_layout:
  assumes "container_valid fs l"
  shows "splitContainer (container fs l) = Some (Some (fs @ [l]))"
proof -
  define p where "p = container fs l"
  have d: "drop 2 p = container_body fs @ l" "p ! 0 = 0x92" "idx p 1 = Some (of_nat (length fs + 1))"
    "length p = 2 + length (container_body fs) + length l"
    by (simp_all add: p_def container_def idx_def)
  have n: "unat (of_nat (length fs + 1) :: u8) = length fs + 1"
    using assms by (intro unat_of_nat8) (simp add: container_valid_def)
  have r: "container_frames p (length fs) 2 = Some (Some (fs, 2 + length (container_body fs)))"
    using assms d by (intro container_frames_layout [of _ _ _ l]) (auto simp: container_valid_def)
  have e: "drop (2 + length (container_body fs)) p = l"
    using d(1) drop_drop [of "length (container_body fs)" 2 p] by (simp add: add.commute)
  have "0 < length l"
    using assms by (simp add: container_valid_def)
  moreover have "1 \<le> length fs" "length fs \<le> 7" "fs \<noteq> []"
    using assms by (auto simp: container_valid_def)
  ultimately show ?thesis
    unfolding p_def [symmetric] splitContainer_def d(3) using d(2,4) n r e by (simp add: slice_from_def slice_def)
qed

lemma splitContainer_read:
  obtains "splitContainer p = Some None" | fs l where "container_valid fs l" "p = container fs l"
proof (cases "length p < 3 \<or> p ! 0 \<noteq> 0x92 \<or> unat (p ! 1) < 2 \<or> unat (p ! 1) > 8")
  case True
  then show ?thesis
    by (intro that(1)) (auto simp: splitContainer_def idx_def Let_def)
next
  case False
  define n where "n = unat (p ! 1) - 1"
  have n: "unat (p ! 1) = n + 1" "1 \<le> n" "n \<le> 7"
    using False by (auto simp: n_def)
  obtain x y r where p: "p = x # y # r"
    using False by (cases p; cases "tl p") auto
  have "y = of_nat (n + 1)"
    using arg_cong [OF n(1), of "of_nat :: nat \<Rightarrow> u8"] p by simp
  then have h: "p = 0x92 # of_nat (n + 1) # drop 2 p"
    using False p by simp
  have s: "splitContainer p = container_frames p n 2 \<bind> (\<lambda>r. case r of None \<Rightarrow> Some None
      | Some (fs, off) \<Rightarrow> if off \<ge> length p then Some None else do { f \<leftarrow> slice_from p off; Some (Some (fs @ [f])) })"
    using False n by (simp add: splitContainer_def idx_def Let_def)
  show ?thesis
  proof (rule container_frames_read [of p n 2])
    assume "container_frames p n 2 = Some None"
    then show ?thesis
      using that(1) s by simp
  next
    fix fs
    assume a: "container_frames p n 2 = Some (Some (fs, 2 + length (container_body fs)))" "length fs = n"
      "\<forall>f \<in> set fs. length f < 256" "take (length (container_body fs)) (drop 2 p) = container_body fs"
    show ?thesis
    proof (cases "2 + length (container_body fs) \<ge> length p")
      case True
      then show ?thesis
        using that(1) s a(1) by simp
    next
      case more: False
      define l where "l = drop (2 + length (container_body fs)) p"
      have "drop 2 p = container_body fs @ l"
        using append_take_drop_id [of "length (container_body fs)" "drop 2 p"] a(4) by (simp add: l_def add.commute)
      then have "p = container fs l"
        using h a(2) by (simp add: container_def)
      moreover have "container_valid fs l"
        using a n more by (simp add: container_valid_def l_def)
      ultimately show ?thesis
        using that(2) by blast
    qed
  qed
qed

text \<open>
  \<open>splitContainer\<close> recognises exactly the containers: it returns frames precisely when the payload is
  \<^verbatim>\<open>0x92\<close>, a count from 2 to 8, all frames but the last preceded by their length byte, and the last frame, not empty; the
  frames come back in order. On every other payload it answers that there is no container, and it never panics.
\<close>

theorem splitContainer_characterised:
  "(splitContainer p = Some (Some gs) \<longleftrightarrow> (\<exists>fs l. container_valid fs l \<and> p = container fs l \<and> gs = fs @ [l])) \<and>
   splitContainer p \<noteq> None"
proof (rule splitContainer_read [of p])
  fix fs l assume *: "container_valid fs l" "p = container fs l"
  then have "splitContainer p = Some (Some (fs @ [l]))"
    by (simp add: splitContainer_layout)
  with * show ?thesis
    by (metis option.distinct(1) option.inject splitContainer_layout)
next
  assume "splitContainer p = Some None"
  then show ?thesis
    by (metis option.distinct(1) option.inject splitContainer_layout)
qed

text \<open>A frame whose first byte is \<^verbatim>\<open>0x92\<close> is active, so a bare one can also read as a container.\<close>

lemma bare_frame_as_container:
  "map_option Active (ParseSmplTOC 0x92) = Some True" "map_option FrameMs (ParseSmplTOC 0x92) = Some 60"
  "splitContainer (0x92 # [2, 1, 7, 9, 9]) = Some (Some [[7], [9, 9]])"
proof -
  show "splitContainer (0x92 # [2, 1, 7, 9, 9]) = Some (Some [[7], [9, 9]])"
    using splitContainer_layout [of "[[7]]" "[9, 9]"] by (simp add: container_def container_body_def container_valid_def)
qed (simp_all add: ParseSmplTOC_def IsStandardOpusFrame_def idx_def)

end
