(* ===== verification/Mlow_Frame.thy ===== *)
theory Mlow_Frame
  imports Mlow_Pitch Mlow_Packet
begin

unbundle bit_operations_syntax

text \<open>
  Whole frames of the speech codec: \<open>EncodeSmplFrame\<close> of \<^verbatim>\<open>encoder.go\<close>, and the decoder of \<^verbatim>\<open>decoder.go\<close> and \<^verbatim>\<open>codec.go\<close>
  from the RTP payload to samples. Reconstruction and synthesis are floating-point routines; they enter as the record
  \<open>Synth\<close>, and samples have any type with a zero, a one, a sign and an order. Which bytes are read, in which order,
  with which state, and what is passed to the synthesis is modelled.
\<close>

section \<open>Encoding\<close>

record SmplInternalParams =
  ip_Lsf :: SmplLsfParams
  ip_Pulses :: SmplPulseParams
  ip_HasPitch :: bool
  ip_Pitch :: SmplPitchParams
  ip_Gains :: SmplGainParams

record SmplFrameParams =
  fp_TOC :: u8
  fp_Config :: int
  fp_Internal :: "SmplInternalParams list"

text \<open>The tables both sides load once.\<close>

record Tables =
  tb_lsf :: SmplTables
  tb_cc :: CcTables
  tb_pitch :: PitchTables
  tb_mem :: SmplMem

definition enc_internal :: "Tables \<Rightarrow> int \<Rightarrow> nat \<Rightarrow> SmplInternalParams \<Rightarrow> SmplLsfState \<Rightarrow> RangeEncoder \<Rightarrow> (SmplLsfState \<times> RangeEncoder) go" where
  "enc_internal tb config f ip st e = do {
     (st, e) \<leftarrow> encodeSmplLsf (tb_lsf tb) config (int f) (ip_Lsf ip) st e;
     e \<leftarrow> encodeSmplPulses (tb_cc tb) 320 4 1 config (lp_Stage1 (ip_Lsf ip)) (ip_Pulses ip) e;
     if lp_Stage1 (ip_Lsf ip) = 1 then encodeSmplPitch (tb_cc tb) (tb_pitch tb) 320 4 config (pp_Subfr (ip_Pulses ip)) (ip_Pitch ip) st e
     else do { e \<leftarrow> encodeSmplGains (tb_cc tb) 4 (pp_Subfr (ip_Pulses ip)) (ip_Gains ip) e; Some (st, e) } }"

fun enc_internals :: "Tables \<Rightarrow> int \<Rightarrow> nat \<Rightarrow> SmplInternalParams list \<Rightarrow> SmplLsfState \<Rightarrow> RangeEncoder \<Rightarrow> (SmplLsfState \<times> RangeEncoder) go" where
  "enc_internals tb config f [] st e = Some (st, e)"
| "enc_internals tb config f (ip # ips) st e = enc_internal tb config f ip st e \<bind> (\<lambda>(st, e). enc_internals tb config (f + 1) ips st e)"

definition SmplEncodeBufBytes :: nat where "SmplEncodeBufBytes = 512"

datatype EncodeError = ErrBufferOverflow | ErrFrameSize

text \<open>\<open>fp.Internal\<close> is an array of three.\<close>

definition EncodeSmplFrame :: "Tables \<Rightarrow> SmplFrameParams \<Rightarrow> (EncodeError + bytes) go" where
  "EncodeSmplFrame tb fp = do {
     (st, e) \<leftarrow> enc_internals tb (fp_Config fp) 0 (fp_Internal fp) zero_SmplLsfState (NewRangeEncoder (1 + SmplEncodeBufBytes));
     let e = Done e;
     if re_err e \<noteq> 0 then Some (Inl ErrBufferOverflow)
     else do {
       body \<leftarrow> slice (Bytes e) 0 (ConsumedLen e);
       Some (Inr (fp_TOC fp # body)) } }"

section \<open>Decoding the parameters\<close>

text \<open>
  What the synthesis gets. Block lags are half the decoded value plus 32, at most 320, which \<open>float32\<close> holds exactly; they
  are kept in half samples.
\<close>

record CelpDecParams =
  cp_Voiced :: bool
  cp_SfPulses :: "int list"
  cp_TotalPulses :: int
  cp_BlockLags2 :: "int list"
  cp_AcbgIdx :: "int list"
  cp_FcbgIdx :: "int list"
  cp_NrgresDbqQ14 :: "int list"

record InternalFrame =
  if_Lsf :: SmplLsfIndices
  if_Pulses :: "int list"
  if_Params :: CelpDecParams

definition voiced_params :: "SmplPulseResult \<Rightarrow> SmplPitchResult \<Rightarrow> CelpDecParams" where
  "voiced_params pu pr =
     \<lparr>cp_Voiced = True, cp_SfPulses = pr_Subfr pu, cp_TotalPulses = sum_list (pr_Subfr pu),
      cp_BlockLags2 = map (\<lambda>v. min (v + 64) 640) (pt_BlockLags pr), cp_AcbgIdx = pt_GainIdx pr,
      cp_FcbgIdx = map (\<lambda>fi. if fi > 0 then fi else 0) (pt_FiltIdx pr), cp_NrgresDbqQ14 = replicate 4 0\<rparr>"

definition unvoiced_params :: "SmplPulseResult \<Rightarrow> SmplGainResult \<Rightarrow> CelpDecParams" where
  "unvoiced_params pu g =
     \<lparr>cp_Voiced = False, cp_SfPulses = pr_Subfr pu, cp_TotalPulses = sum_list (pr_Subfr pu), cp_BlockLags2 = replicate 8 0,
      cp_AcbgIdx = replicate 4 0, cp_FcbgIdx = gr_NrgRes g, cp_NrgresDbqQ14 = gr_GainQ g\<rparr>"

definition decodeOne :: "Tables \<Rightarrow> int \<Rightarrow> nat \<Rightarrow> SmplLsfState \<Rightarrow> RangeDecoder \<Rightarrow> ((InternalFrame \<times> SmplLsfState) \<times> RangeDecoder) go" where
  "decodeOne tb config f st d = do {
     ((lsf, st), d) \<leftarrow> DecodeSmplLsf (tb_lsf tb) config (int f) st d;
     (pu, d) \<leftarrow> DecodeSmplPulses (tb_cc tb) 320 4 1 config (li_Stage1 lsf) d;
     if li_Stage1 lsf = 1 then do {
       ((pr, st), d) \<leftarrow> DecodeSmplPitch (tb_cc tb) (tb_mem tb) 320 4 config (pr_Subfr pu) st d;
       Some ((\<lparr>if_Lsf = lsf, if_Pulses = pr_Pulses pu, if_Params = voiced_params pu pr\<rparr>, st), d) }
     else do {
       (g, d) \<leftarrow> DecodeSmplGains (tb_cc tb) 4 (pr_Subfr pu) d;
       Some ((\<lparr>if_Lsf = lsf, if_Pulses = pr_Pulses pu, if_Params = unvoiced_params pu g\<rparr>, st), d) } }"

fun decode_internals :: "Tables \<Rightarrow> int \<Rightarrow> nat \<Rightarrow> nat \<Rightarrow> SmplLsfState \<Rightarrow> RangeDecoder \<Rightarrow> ((InternalFrame list \<times> SmplLsfState) \<times> RangeDecoder) go" where
  "decode_internals tb config f 0 st d = Some (([], st), d)"
| "decode_internals tb config f (Suc n) st d = do {
     ((x, st), d) \<leftarrow> decodeOne tb config f st d;
     ((xs, st), d) \<leftarrow> decode_internals tb config (f + 1) n st d;
     Some ((x # xs, st), d) }"

definition internalGroupSize :: nat where "internalGroupSize = 3"

definition toc_config :: "u8 \<Rightarrow> int" where
  "toc_config b = uint (drop_bit 2 b AND 1)"

section \<open>The decoder\<close>

text \<open>
  \<open>sy_frame\<close> is \<open>SmplReconstructNLSF\<close> and \<open>SynthFrame\<close>: sample by sample, with the state they keep. \<open>sy_post\<close> is the
  harmonic postfilter over the packet, given the lags and pulse totals of its frames.
\<close>

record ('s, 'f) Synth =
  sy_new :: 's
  sy_frame :: "'s \<Rightarrow> int \<Rightarrow> InternalFrame \<Rightarrow> (nat \<Rightarrow> 'f) \<times> 's"
  sy_post :: "'s \<Rightarrow> 'f list \<Rightarrow> int list \<Rightarrow> int list \<Rightarrow> (nat \<Rightarrow> 'f) \<times> 's"

record 's SmplDecoderState =
  ds_Lstate :: SmplLsfState
  ds_syn :: 's

record 's MlowDecoder =
  md_state :: "'s SmplDecoderState"
  md_redundancy :: int
  md_lastBodyLen :: nat
  md_lastConsumed :: nat
  md_lastWasRed :: bool
  md_lastRedBlocks :: nat
  md_lastMainToc :: u8

definition newSmplDecoderState :: "('s, 'f) Synth \<Rightarrow> 's SmplDecoderState" where
  "newSmplDecoderState S = \<lparr>ds_Lstate = zero_SmplLsfState, ds_syn = sy_new S\<rparr>"

definition NewMlowDecoder :: "('s, 'f) Synth \<Rightarrow> 's MlowDecoder" where
  "NewMlowDecoder S = \<lparr>md_state = newSmplDecoderState S, md_redundancy = 0, md_lastBodyLen = 0, md_lastConsumed = 0, md_lastWasRed = False,
     md_lastRedBlocks = 0, md_lastMainToc = 0\<rparr>"

definition SetRedundancy :: "int \<Rightarrow> 's MlowDecoder \<Rightarrow> 's MlowDecoder" where
  "SetRedundancy n dec = dec\<lparr>md_redundancy := s32 n\<rparr>"

definition dec_Reset :: "('s, 'f) Synth \<Rightarrow> 's MlowDecoder \<Rightarrow> 's MlowDecoder" where
  "dec_Reset S dec = dec\<lparr>md_state := newSmplDecoderState S\<rparr>"

definition LastDecodeStats :: "'s MlowDecoder \<Rightarrow> nat \<times> nat \<times> bool \<times> nat \<times> u8" where
  "LastDecodeStats dec = (md_lastBodyLen dec, md_lastConsumed dec, md_lastWasRed dec, md_lastRedBlocks dec, md_lastMainToc dec)"

definition opusFrameSamps :: nat where "opusFrameSamps = 960"
definition SmplIntfLen :: nat where "SmplIntfLen = 320"

fun synth_all :: "('s, 'f) Synth \<Rightarrow> int \<Rightarrow> InternalFrame list \<Rightarrow> 's \<Rightarrow> 'f list \<times> 's" where
  "synth_all S config [] s = ([], s)"
| "synth_all S config (x # xs) s =
     (let (sig, s) = sy_frame S s config x; (out, s) = synth_all S config xs s in (map sig [0..<SmplIntfLen] @ out, s))"

definition clamp :: "'f :: {zero, one, uminus, ord} \<Rightarrow> 'f" where
  "clamp v = (if v > 1 then 1 else if v < - 1 then - 1 else v)"

definition decodeActiveFrame ::
  "Tables \<Rightarrow> ('s, 'f :: {zero, one, uminus, ord}) Synth \<Rightarrow> bytes \<Rightarrow> 's MlowDecoder \<Rightarrow> ('f list \<times> 's MlowDecoder) go" where
  "decodeActiveFrame tb S frame dec = do {
     b \<leftarrow> idx frame 0;
     let config = toc_config b;
     body \<leftarrow> slice_from frame 1;
     d \<leftarrow> NewRangeDecoder body;
     let bodyLen = BodyLen d;
     ((xs, st), d) \<leftarrow> decode_internals tb config 0 internalGroupSize (ds_Lstate (md_state dec)) d;
     let (out, s) = synth_all S config xs (ds_syn (md_state dec));
     let (post, s) = sy_post S s out (concat (map (cp_BlockLags2 \<circ> if_Params) xs)) (map (cp_TotalPulses \<circ> if_Params) xs);
     Some (map (clamp \<circ> post) [0..<length out],
       dec\<lparr>md_state := \<lparr>ds_Lstate = st, ds_syn = s\<rparr>, md_lastBodyLen := bodyLen, md_lastConsumed := BytesConsumed d\<rparr>) }"

definition decodeFrame ::
  "Tables \<Rightarrow> ('s, 'f :: {zero, one, uminus, ord}) Synth \<Rightarrow> bytes \<Rightarrow> 's MlowDecoder \<Rightarrow> ('f list \<times> 's MlowDecoder) go" where
  "decodeFrame tb S frame dec =
     (if length frame = 0 then Some (replicate opusFrameSamps 0, dec)
      else do {
        b \<leftarrow> idx frame 0;
        toc \<leftarrow> ParseSmplTOC b;
        let outLen = 16000 div 1000 * FrameMs toc;
        let outLen = (if outLen \<le> 0 then int opusFrameSamps else outLen);
        if StdOpus toc \<or> \<not> Active toc \<or> SampleRate toc \<noteq> 16000 \<or> Flag2 toc \<or> FrameMs toc \<noteq> 60 then Some (replicate (nat outLen) 0, dec)
        else decodeActiveFrame tb S frame dec })"

fun decode_frames ::
  "Tables \<Rightarrow> ('s, 'f :: {zero, one, uminus, ord}) Synth \<Rightarrow> bytes list \<Rightarrow> 's MlowDecoder \<Rightarrow> ('f list \<times> 's MlowDecoder) go" where
  "decode_frames tb S [] dec = Some ([], dec)"
| "decode_frames tb S (f # fs) dec = do {
     (o1, dec) \<leftarrow> decodeFrame tb S f dec;
     (o2, dec) \<leftarrow> decode_frames tb S fs dec;
     Some (o1 @ o2, dec) }"

definition dec_Decode ::
  "Tables \<Rightarrow> ('s, 'f :: {zero, one, uminus, ord}) Synth \<Rightarrow> bytes \<Rightarrow> 's MlowDecoder \<Rightarrow> ('f list \<times> 's MlowDecoder) go" where
  "dec_Decode tb S payload dec =
     (if length payload = 0 then Some (replicate opusFrameSamps 0, dec)
      else do {
        let dec = dec\<lparr>md_lastWasRed := False, md_lastRedBlocks := 0, md_lastMainToc := 0\<rparr>;
        c \<leftarrow> splitContainer payload;
        (case c of
           Some subs \<Rightarrow> do {
             lst \<leftarrow> idx_int subs (int (length subs) - 1);
             b \<leftarrow> idx lst 0;
             decode_frames tb S subs (dec\<lparr>md_lastWasRed := True, md_lastRedBlocks := length subs - 1, md_lastMainToc := b\<rparr>) }
         | None \<Rightarrow> decodeFrame tb S payload dec) })"

section \<open>The codec\<close>

text \<open>
  The encoder's analysis is a parameter too: from its state and 960 samples to the parameters of a frame. \<open>is_nan\<close>
  tells which samples are not numbers.
\<close>

definition sanitize :: "('f :: {zero, one, uminus, ord} \<Rightarrow> bool) \<Rightarrow> 'f \<Rightarrow> 'f" where
  "sanitize is_nan s = (if is_nan s then 0 else if s < - 1 then - 1 else if s > 1 then 1 else s)"

definition enc_Encode ::
  "Tables \<Rightarrow> ('f :: {zero, one, uminus, ord} \<Rightarrow> bool) \<Rightarrow> ('a \<Rightarrow> 'f list \<Rightarrow> SmplFrameParams \<times> 'a) \<Rightarrow> 'f list \<Rightarrow> 'a \<Rightarrow> ((EncodeError + bytes) \<times> 'a) go" where
  "enc_Encode tb is_nan analyze pcm est =
     (if length pcm \<noteq> opusFrameSamps then Some (Inl ErrFrameSize, est)
      else do {
        let (fp, est) = analyze est (map (sanitize is_nan) pcm);
        r \<leftarrow> EncodeSmplFrame tb fp;
        Some (r, est) })"

record ('a, 's) mlowCodec =
  mc_enc :: 'a
  mc_dec :: "'s MlowDecoder"

definition NewMLowCodec :: "'a \<Rightarrow> ('s, 'f) Synth \<Rightarrow> ('a, 's) mlowCodec" where
  "NewMLowCodec est S = \<lparr>mc_enc = est, mc_dec = NewMlowDecoder S\<rparr>"

definition codec_Encode ::
  "Tables \<Rightarrow> ('f :: {zero, one, uminus, ord} \<Rightarrow> bool) \<Rightarrow> ('a \<Rightarrow> 'f list \<Rightarrow> SmplFrameParams \<times> 'a) \<Rightarrow> 'f list \<Rightarrow> ('a, 's) mlowCodec \<Rightarrow>
    ((EncodeError + bytes) \<times> ('a, 's) mlowCodec) go" where
  "codec_Encode tb is_nan analyze pcm c =
     (if length pcm = 0 then Some (Inr [], c)
      else do { (r, est) \<leftarrow> enc_Encode tb is_nan analyze pcm (mc_enc c); Some (r, c\<lparr>mc_enc := est\<rparr>) })"

definition codec_Decode ::
  "Tables \<Rightarrow> ('s, 'f :: {zero, one, uminus, ord}) Synth \<Rightarrow> bytes \<Rightarrow> ('a, 's) mlowCodec \<Rightarrow> ('f list \<times> ('a, 's) mlowCodec) go" where
  "codec_Decode tb S frame c = do { (pcm, dec) \<leftarrow> dec_Decode tb S frame (mc_dec c); Some (pcm, c\<lparr>mc_dec := dec\<rparr>) }"

end
