(* ===== verification/Mlow_Roundtrip.thy ===== *)
theory Mlow_Roundtrip
  imports Mlow_Pulses
begin

unbundle bit_operations_syntax

text \<open>
  The encoder and the decoder of one internal frame are inverse to each other on the range-coded stream, for
  the spectral indices, the pulses and the gains of an unvoiced frame.
\<close>

section \<open>Count of pulses\<close>

abbreviation tri :: "nat \<Rightarrow> u32" where
  "tri k \<equiv> triT 160 (of_nat k)"

lemma tri_steps: "list_all (\<lambda>k. tri k < tri (Suc k)) [0..<160]"
  by code_simp

lemma tri_less: "i < j \<Longrightarrow> j \<le> 160 \<Longrightarrow> tri i < tri j"
proof (induction j)
  case (Suc j)
  have "tri j < tri (Suc j)"
    using tri_steps Suc.prems(2) by (simp add: list_all_iff del: of_nat_Suc)
  then show ?case
    using Suc by (cases "i = j") (auto simp del: of_nat_Suc)
qed simp

lemma tri_ends: "unat (tri 160) = 13521" "0 < tri 0"
  by (simp_all add: triT_def)

definition tri_low :: "nat \<Rightarrow> u32" where
  "tri_low k = (if k = 0 then 0 else tri (k - 1))"

lemma tri_low_Suc [simp]: "tri_low (Suc k) = tri k"
  by (simp add: tri_low_def)

lemma tri_low_less: "k \<le> 160 \<Longrightarrow> tri_low k < tri k"
  using tri_ends(2) tri_less [of "k - 1" k] by (cases "k = 0") (simp_all add: tri_low_def)

lemma tri_search_hit:
  assumes "k \<le> s" "s \<le> 160" "tri_low s \<le> v" "v < tri s"
  shows "tri_search 160 ft v (tri_low k) k (161 - k) = (\<lambda>d. Update (tri_low s) (tri s) ft d \<bind> (\<lambda>d. Some (s, d)))"
  using assms(1)
proof (induction "s - k" arbitrary: k)
  case 0
  then have "161 - s = Suc (160 - s)" "k = s"
    using assms(2) by simp_all
  then show ?case
    using assms(3,4) by (simp add: Let_def)
next
  case (Suc n)
  then have k: "k < s" "161 - k = Suc (161 - Suc k)" "n = s - Suc k"
    using assms(2) by simp_all
  obtain s' where s': "s = Suc s'" "k \<le> s'"
    using k(1) by (cases s) auto
  then have "tri k \<le> tri_low s"
    using tri_less [of k s'] assms(2) by (cases "k = s'") simp_all
  then have "\<not> v < tri k"
    using assms(3) by simp
  then show ?case
    using Suc(1) [OF k(3)] k(1) by (simp add: k(2) Let_def del: of_nat_Suc)
qed

lemma codes_count:
  assumes "0 \<le> tot" "tot \<le> 160"
  shows "codes (Encode (if tot > 0 then triT 160 (of_int (tot - 1)) else 0) (triT 160 (of_int tot)) (tri_total 160))
    (decode_count cc 0 i 160) tot"
proof -
  define k where "k = nat tot"
  have k: "tot = int k" "k \<le> 160"
    using assms by (simp_all add: k_def)
  have fl: "(if tot > 0 then triT 160 (of_int (tot - 1)) else 0) = tri_low k"
    by (simp add: k(1) tri_low_def of_nat_diff)
  have ft: "tri_total 160 = tri 160"
    using tri_ends(1) by (auto simp: tri_total_def)
  have ok: "freq_ok (tri_low k) (tri k) (tri 160)"
    using tri_low_less [OF k(2)] tri_less [of k 160] k(2) tri_ends(1)
    by (cases "k = 160") (auto simp: freq_ok_def word_less_nat_alt)
  have "codes (Encode (tri_low k) (tri k) (tri 160)) (decode_count cc 0 i 160) tot"
  proof (rule codes_freq [OF ok])
    fix d fs d'
    assume *: "Decode (tri 160) d = (fs, d\<lparr>rd_ext := rd_rng d div tri 160\<rparr>)" "unat (tri_low k) \<le> unat fs" "unat fs < unat (tri k)"
      "Update (tri_low k) (tri k) (tri 160) (d\<lparr>rd_ext := rd_rng d div tri 160\<rparr>) = Some d'"
    have "tri_search 160 (tri 160) fs 0 0 161 = (\<lambda>d. Update (tri_low k) (tri k) (tri 160) d \<bind> (\<lambda>d. Some (k, d)))"
      using tri_search_hit [of 0 k fs "tri 160"] k(2) *(2,3) by (simp add: word_less_nat_alt word_le_nat_alt tri_low_def)
    moreover have "unat (160 + 1 :: u32) = 161"
      by simp
    ultimately show "decode_count cc 0 i 160 d = Some (tot, d')"
      using * k(1) by (simp add: decode_count_def ft Let_def)
  qed
  moreover have "triT 160 (of_int tot) = tri k"
    by (simp add: k(1))
  ultimately show ?thesis
    by (simp add: fl ft)
qed

section \<open>Split over the subframes\<close>

definition splits_ok :: "CcTables \<Rightarrow> bool" where
  "splits_ok cc \<longleftrightarrow> (\<forall>n. 1 \<le> n \<and> n \<le> 159 \<longrightarrow> cdf_table (nat (n - 2 * max (n - 80) 0 + 1)) (SplitCmf cc n))"

lemma codes_cong: "codes E D s \<Longrightarrow> (\<And>e. E' e = E e) \<Longrightarrow> (\<And>d. D' d = D d) \<Longrightarrow> codes E' D' s"
  by (simp add: codes_def coded_to_def)

lemma codes_then: "codes E D s \<Longrightarrow> codes E (\<lambda>d. D d \<bind> (\<lambda>(s, d). Some (f s, d))) (f s)"
  using codes_bind [OF _ codes_return, of E D s f] by simp

lemma codes_CDF_int: "cdf_ok cdf (nat k) \<Longrightarrow> 0 \<le> k \<Longrightarrow> codes (EncodeCDF k cdf) (DecodeCDF cdf) (nat k)"
  using codes_CDF [of cdf "nat k"] by simp

text \<open>A window of a strictly rising table codes each of its symbols.\<close>

lemma codes_window:
  assumes "sorted_wrt (<) base" "0 \<le> start" "start + n \<le> int (length base)" "0 \<le> k" "k + 1 < n"
  shows "\<exists>w. cdfWindow base start n = Some w \<and> codes (EncodeCDF k w) (DecodeCDF w) (nat k)"
proof -
  define w where "w = take (nat n) (drop (nat start) base)"
  have "0 \<le> n"
    using assms by linarith
  then have cw: "cdfWindow base start n = Some w"
    unfolding w_def by (intro cdfWindow_inside assms)
  have "length w = nat n"
    using assms \<open>0 \<le> n\<close> by (simp add: w_def)
  then have "Suc (nat k) < length w"
    using assms by simp
  moreover have "sorted_wrt (<) w"
    unfolding w_def by (intro sorted_wrt_take sorted_wrt_drop assms)
  ultimately have "cdf_ok w (nat k)"
    by (intro sorted_cdf_ok)
  then show ?thesis
    using cw codes_CDF_int assms(4) by blast
qed

lemma codes_split3537:
  assumes sp: "splits_ok cc" and c: "0 < count" "count \<le> 80" and s: "count - 40 \<le> s0" "0 \<le> s0" "s0 \<le> 40" "s0 \<le> count"
  shows "codes (encodeSplit3537 cc count 40 s0) (smplSplit3537 cc count 40) s0"
proof (cases "count = 80")
  case True
  then have "encodeSplit3537 cc count 40 s0 = Some" "smplSplit3537 cc count 40 = (\<lambda>d. Some (s0, d))"
    using s by (simp_all add: encodeSplit3537_def smplSplit3537_def fun_eq_iff)
  then show ?thesis
    by (simp add: codes_return)
next
  case False
  define lo ms where "lo = min 40 count" and "ms = max (count - 40) 0"
  have lm: "ms < lo" "0 \<le> ms" "lo \<le> count" "ms \<le> s0" "s0 \<le> lo"
    using c s False by (auto simp: lo_def ms_def min_def max_def)
  have "cdf_table (nat (count + 1)) (SplitCmf cc count)"
    using sp c by (auto simp: splits_ok_def dest: spec [of _ count])
  then have t: "sorted_wrt (<) (SplitCmf cc count)" "int (length (SplitCmf cc count)) = count + 2"
    using c by (simp_all add: cdf_table_def)
  obtain w where w: "cdfWindow (SplitCmf cc count) ms (lo - ms + 2) = Some w" "codes (EncodeCDF (s0 - ms) w) (DecodeCDF w) (nat (s0 - ms))"
    using codes_window [OF t(1), of ms "lo - ms + 2" "s0 - ms"] t(2) lm by auto
  have "codes (EncodeCDF (s0 - ms) w) (\<lambda>d. DecodeCDF w d \<bind> (\<lambda>(k, d). Some (int k + ms, d))) (int (nat (s0 - ms)) + ms)"
    by (rule codes_then [OF w(2)])
  then show ?thesis
    by (rule codes_cong [THEN back_subst [where P = "codes _ _"]])
      (use lm w(1) in \<open>auto simp: encodeSplit3537_def smplSplit3537_def Let_def lo_def [symmetric] ms_def [symmetric]\<close>)
qed

definition enc_half :: "CcTables \<Rightarrow> int \<Rightarrow> int \<Rightarrow> RangeEncoder \<Rightarrow> RangeEncoder go" where
  "enc_half cc count s0 = (if count > 0 then encodeSplit3537 cc count 40 s0 else Some)"

lemma codes_half:
  assumes "splits_ok cc" "0 \<le> a" "a \<le> 40" "0 \<le> b" "b \<le> 40"
  shows "codes (enc_half cc (a + b) a) (decode_half cc (a + b) 40) (a, b)"
proof (cases "0 < a + b")
  case True
  have "codes (encodeSplit3537 cc (a + b) 40 a) (\<lambda>d. smplSplit3537 cc (a + b) 40 d \<bind> (\<lambda>(s0, d). Some ((s0, a + b - s0), d))) (a, a + b - a)"
    using assms True by (intro codes_then [where f = "\<lambda>s0. (s0, a + b - s0)"] codes_split3537) simp_all
  then show ?thesis
    using True by (simp add: enc_half_def decode_half_def [abs_def])
next
  case False
  then have "a = 0" "b = 0"
    using assms by linarith+
  then show ?thesis
    by (simp add: enc_half_def decode_half_def [abs_def] codes_return)
qed

text \<open>The first sum of a split table with an entry for every split.\<close>

definition enc_first :: "CcTables \<Rightarrow> int \<Rightarrow> int \<Rightarrow> RangeEncoder \<Rightarrow> RangeEncoder go" where
  "enc_first cc tot finalSum e =
     (let sum0 = max (tot - 80) 0; lo = max (tot - 80) 0 in
      if sum0 < tot - lo then cdfWindow (SplitCmf cc tot) (sum0 - lo) (tot - lo - sum0 + 2) \<bind> (\<lambda>w. EncodeCDF (finalSum - sum0) w e)
      else Some e)"

definition decode_first :: "CcTables \<Rightarrow> int \<Rightarrow> RangeDecoder \<Rightarrow> (int \<times> RangeDecoder) go" where
  "decode_first cc tot d =
     (let sum0 = max (tot - 80) 0; lo = max (tot - 80) 0 in
      if sum0 < tot - lo then cdfWindow (SplitCmf cc tot) (sum0 - lo) (tot - lo - sum0 + 2) \<bind>
        (\<lambda>w. DecodeCDF w d \<bind> (\<lambda>(k, d). Some (sum0 + int k, d)))
      else Some (sum0, d))"

lemma codes_first:
  assumes sp: "splits_ok cc" and t: "0 < tot" "tot \<le> 160" and s: "tot - 80 \<le> s" "0 \<le> s" "s \<le> 80" "s \<le> tot"
  shows "codes (enc_first cc tot s) (decode_first cc tot) s"
proof (cases "tot = 160")
  case True
  then have "s = 80"
    using s by simp
  then show ?thesis
    using True codes_return [of "80 :: int"] by (simp add: enc_first_def [abs_def] decode_first_def [abs_def])
next
  case False
  define sum0 where "sum0 = max (tot - 80) 0"
  have lm: "sum0 < tot - sum0" "0 \<le> sum0" "sum0 \<le> s" "s \<le> tot - sum0"
    using t s False by (auto simp: sum0_def max_def)
  have "cdf_table (nat (tot - 2 * sum0 + 1)) (SplitCmf cc tot)"
    using sp t False by (auto simp: splits_ok_def sum0_def dest: spec [of _ tot])
  then have tb: "sorted_wrt (<) (SplitCmf cc tot)" "int (length (SplitCmf cc tot)) = tot - 2 * sum0 + 2"
    using lm by (simp_all add: cdf_table_def)
  obtain w where w: "cdfWindow (SplitCmf cc tot) 0 (tot - 2 * sum0 + 2) = Some w" "codes (EncodeCDF (s - sum0) w) (DecodeCDF w) (nat (s - sum0))"
    using codes_window [OF tb(1), of 0 "tot - 2 * sum0 + 2" "s - sum0"] tb(2) lm by auto
  have "codes (EncodeCDF (s - sum0) w) (\<lambda>d. DecodeCDF w d \<bind> (\<lambda>(k, d). Some (sum0 + int k, d))) (sum0 + int (nat (s - sum0)))"
    by (rule codes_then [OF w(2)])
  moreover have "tot - sum0 - sum0 + 2 = tot - 2 * sum0 + 2"
    by simp
  then have "enc_first cc tot s = EncodeCDF (s - sum0) w"
    "decode_first cc tot = (\<lambda>d. DecodeCDF w d \<bind> (\<lambda>(k, d). Some (sum0 + int k, d)))"
    unfolding enc_first_def decode_first_def Let_def sum0_def [symmetric] fun_eq_iff using lm w(1) by simp_all
  moreover have "sum0 + int (nat (s - sum0)) = s"
    using lm by simp
  ultimately show ?thesis
    by simp
qed

definition enc_split :: "CcTables \<Rightarrow> int \<Rightarrow> int list \<Rightarrow> RangeEncoder \<Rightarrow> RangeEncoder go" where
  "enc_split cc tot sub =
     (\<lambda>e. enc_first cc tot (sub ! 0 + sub ! 1) e \<bind> (\<lambda>e. enc_half cc (sub ! 0 + sub ! 1) (sub ! 0) e \<bind>
        enc_half cc (sub ! 2 + sub ! 3) (sub ! 2)))"

lemma decode_split_40:
  "0 < tot \<Longrightarrow> decode_split cc tot 40 = (\<lambda>d. decode_first cc tot d \<bind> (\<lambda>(s, d). decode_half cc s 40 d \<bind> (\<lambda>((a, b), d).
     (if s < tot then decode_half cc (tot - s) 40 d else Some ((0, 0), d)) \<bind>
     (\<lambda>((a', b'), d). Some (Some (if a = - 1 \<or> a' = - 1 then [0, 0, 0, 0] else [a, b, a', b']), d)))))"
  by (auto simp: decode_split_def decode_first_def Let_def fun_eq_iff max_def)

lemma codes_split:
  assumes sp: "splits_ok cc" and sub: "\<forall>x \<in> {a, b, c, f}. 0 \<le> x \<and> x \<le> 40" and t: "tot = a + b + c + f" "0 < tot"
  shows "codes (enc_split cc tot [a, b, c, f]) (decode_split cc tot 40) (Some [a, b, c, f])"
proof -
  have h: "codes (enc_half cc (c + f) c) (\<lambda>d. if a + b < tot then decode_half cc (tot - (a + b)) 40 d else Some ((0, 0), d)) (c, f)"
  proof (cases "a + b < tot")
    case True
    then show ?thesis
      using codes_half [OF sp, of c f] sub t by (simp add: algebra_simps)
  next
    case False
    then have "c = 0" "f = 0"
      using sub t by auto
    then show ?thesis
      using False t codes_return [of "(0 :: int, 0 :: int)"] by (simp add: enc_half_def)
  qed
  have "codes (\<lambda>e. enc_half cc (c + f) c e) (\<lambda>d. (if a + b < tot then decode_half cc (tot - (a + b)) 40 d else Some ((0, 0), d)) \<bind>
      (\<lambda>(x, d). Some ((\<lambda>(a', b'). Some (if a = - 1 \<or> a' = - 1 then [0, 0, 0, 0] else [a, b, a', b'])) x, d)))
      ((\<lambda>(a', b'). Some (if a = - 1 \<or> a' = - 1 then [0, 0, 0, 0] else [a, b, a', b'])) (c, f))"
    by (rule codes_then [OF h])
  moreover have "a \<noteq> - 1" "c \<noteq> - 1"
    using sub by auto
  ultimately have h2: "codes (enc_half cc (c + f) c) (\<lambda>d. (if a + b < tot then decode_half cc (tot - (a + b)) 40 d else Some ((0, 0), d)) \<bind>
      (\<lambda>((a', b'), d). Some (Some (if a = - 1 \<or> a' = - 1 then [0, 0, 0, 0] else [a, b, a', b']), d))) (Some [a, b, c, f])"
    by (simp add: case_prod_unfold)
  have h1: "codes (enc_half cc (a + b) a) (decode_half cc (a + b) 40) (a, b)"
    using codes_half [OF sp, of a b] sub by simp
  have h0: "codes (enc_first cc tot (a + b)) (decode_first cc tot) (a + b)"
    using codes_first [OF sp t(2), of "a + b"] sub t by simp
  have "codes (\<lambda>e. enc_first cc tot (a + b) e \<bind> (\<lambda>e. enc_half cc (a + b) a e \<bind> enc_half cc (c + f) c))
    (\<lambda>d. decode_first cc tot d \<bind> (\<lambda>(s, d). decode_half cc s 40 d \<bind> (\<lambda>(ab, d).
       (\<lambda>ab d. (if s < tot then decode_half cc (tot - s) 40 d else Some ((0, 0), d)) \<bind>
        (\<lambda>((a', b'), d). Some (Some (if fst ab = - 1 \<or> a' = - 1 then [0, 0, 0, 0] else [fst ab, snd ab, a', b']), d))) ab d)))
    (Some [a, b, c, f])"
    by (intro codes_bind [OF h0] codes_bind [OF h1]) (use h2 in \<open>simp only: fst_conv snd_conv\<close>)
  then show ?thesis
    using t(2) by (simp add: decode_split_40 enc_split_def case_prod_unfold)
qed

section \<open>Run lengths and signs\<close>

definition runs_ok :: "CcTables \<Rightarrow> bool" where
  "runs_ok cc \<longleftrightarrow> (\<forall>oct. 1 \<le> oct \<and> oct \<le> 20 \<longrightarrow> (\<exists>r. Runlen cc oct = Some r \<and> rl_maxSamples r = 8 * oct \<and>
     (\<forall>c. 1 \<le> c \<and> c \<le> 40 \<longrightarrow> (\<exists>cmf. rl_Cmf r c = Some cmf \<and> cdf_table (nat (8 * oct)) cmf))))"

text \<open>
  Run lengths fit when each is below what is left of the subframe; \<open>take_runs\<close> gives the number of pulse
  positions they make and the run lengths behind them.
\<close>

fun take_runs :: "nat \<Rightarrow> bool \<Rightarrow> int \<Rightarrow> int list \<Rightarrow> (nat \<times> int list) option" where
  "take_runs 0 first pos runs = Some (0, runs)"
| "take_runs (Suc n) first pos [] = None"
| "take_runs (Suc n) first pos (m # runs) =
     (if 0 \<le> m \<and> m < pos then
        (case take_runs n False (if m > 0 \<or> first then pos - m else pos) runs of
           None \<Rightarrow> None
         | Some (k, rest) \<Rightarrow> Some (if m > 0 \<or> first then Suc k else k, rest))
      else None)"

lemma codes_run_window:
  assumes rk: "runs_ok cc" and c: "1 \<le> c" "c \<le> 40" and p: "1 \<le> pos" "pos \<le> 80" and m: "0 \<le> m" "m < pos"
  shows "\<exists>w. run_window cc c pos = Some w \<and> codes (EncodeCDF m w) (DecodeCDF w) (nat m)"
proof -
  define oct where "oct = (pos + 7) sdiv 8"
  have "oct = (pos + 7) div 8"
    using p by (simp add: oct_def sdiv_nonneg)
  then have oc: "1 \<le> oct" "oct \<le> 20" "pos \<le> 8 * oct"
    using p by linarith+
  then obtain r where r: "Runlen cc oct = Some r" "rl_maxSamples r = 8 * oct" "\<And>c. 1 \<le> c \<Longrightarrow> c \<le> 40 \<Longrightarrow> \<exists>cmf. rl_Cmf r c = Some cmf \<and> cdf_table (nat (8 * oct)) cmf"
    using rk unfolding runs_ok_def by blast
  obtain cmf where cmf: "rl_Cmf r c = Some cmf" "cdf_table (nat (8 * oct)) cmf"
    using r(3) c by blast
  then have t: "sorted_wrt (<) cmf" "int (length cmf) = 8 * oct + 1"
    using oc by (simp_all add: cdf_table_def)
  obtain w where "cdfWindow cmf (8 * oct - pos) (pos + 1) = Some w" "codes (EncodeCDF m w) (DecodeCDF w) (nat m)"
    using codes_window [OF t(1), of "8 * oct - pos" "pos + 1" m] t(2) oc m by auto
  then show ?thesis
    using r cmf by (simp add: run_window_def oct_def [symmetric])
qed

text \<open>The pulse positions and magnitudes that run lengths describe.\<close>

fun place_runs :: "nat \<Rightarrow> bool \<Rightarrow> int \<Rightarrow> int list \<Rightarrow> MagState \<Rightarrow> MagState" where
  "place_runs (Suc n) first runPos (m # runs) ms = place_runs n False (if m > 0 \<or> first then runPos + m else runPos) runs (mag_add first m runPos ms)"
| "place_runs n first runPos runs ms = ms"

fun place_all :: "int \<Rightarrow> int list \<Rightarrow> int list \<Rightarrow> MagState \<Rightarrow> MagState" where
  "place_all sf [] runs ms = ms"
| "place_all sf (cnt # cnts) runs ms = place_all (sf + 1) cnts (drop (nat cnt) runs) (place_runs (nat cnt) True (80 * sf) runs ms)"

lemma codes_mag_loop:
  assumes rk: "runs_ok cc"
  shows "take_runs n first pos runs = Some (np, rest) \<Longrightarrow> 1 \<le> pos \<Longrightarrow> pos \<le> 80 \<Longrightarrow> n \<le> 40 \<Longrightarrow> c = int n \<Longrightarrow>
    length (ms_pos ms) = length (ms_mag ms) \<Longrightarrow>
    \<exists>ms'. codes (enc_mag_loop cc n first c pos runs) (mag_loop cc n first c pos runPos ms) ms' \<and>
      ms_runs ms' = ms_runs ms @ take n runs \<and> length (ms_mag ms') = length (ms_mag ms) + np \<and>
      length (ms_pos ms') = length (ms_mag ms') \<and> rest = drop n runs \<and> n \<le> length runs \<and> ms' = place_runs n first runPos runs ms"
proof (induction n arbitrary: first pos runs np rest c runPos ms)
  case 0
  then show ?case
    by (intro exI [of _ ms]) (simp add: codes_return)
next
  case (Suc n)
  obtain m runs' where runs: "runs = m # runs'"
    using Suc.prems(1) by (cases runs) auto
  have m: "0 \<le> m" "m < pos"
    using Suc.prems(1) by (auto simp: runs split: if_split_asm)
  define step where "step \<longleftrightarrow> m > 0 \<or> first"
  define pos' runPos' ms1 where "pos' = (if step then pos - m else pos)" and "runPos' = (if step then runPos + m else runPos)"
    and "ms1 = mag_add first m runPos ms"
  obtain k where k: "take_runs n False pos' runs' = Some (k, rest)" "np = (if step then Suc k else k)"
    using Suc.prems(1) m by (auto simp: runs step_def [symmetric] pos'_def split: option.split_asm prod.split_asm)
  have pos': "1 \<le> pos'" "pos' \<le> 80"
    using m Suc.prems by (auto simp: pos'_def)
  have ms1: "ms_runs ms1 = ms_runs ms @ [m]" "length (ms_mag ms1) = length (ms_mag ms) + (if step then 1 else 0)"
    "length (ms_pos ms1) = length (ms_mag ms1)"
    using Suc.prems(6) by (auto simp: ms1_def mag_add_def step_def Let_def)
  obtain w where w: "run_window cc c pos = Some w" "codes (EncodeCDF m w) (DecodeCDF w) (nat m)"
    using codes_run_window [OF rk, of c pos m] Suc.prems m by auto
  obtain ms' where ms': "codes (enc_mag_loop cc n False (c - 1) pos' runs') (mag_loop cc n False (c - 1) pos' runPos' ms1) ms'"
    "ms_runs ms' = ms_runs ms1 @ take n runs'" "length (ms_mag ms') = length (ms_mag ms1) + k"
    "length (ms_pos ms') = length (ms_mag ms')" "rest = drop n runs'" "n \<le> length runs'" "ms' = place_runs n False runPos' runs' ms1"
    using Suc.IH [OF k(1) pos', of "c - 1" ms1 runPos'] Suc.prems ms1(3) by auto
  have "codes (\<lambda>e. EncodeCDF m w e \<bind> enc_mag_loop cc n False (c - 1) pos' runs')
      (\<lambda>d. DecodeCDF w d \<bind> (\<lambda>(k, d). (\<lambda>k d. let m = int k; step = (m > 0 \<or> first)
        in mag_loop cc n False (c - 1) (if step then pos - m else pos) (if step then runPos + m else runPos) (mag_add first m runPos ms) d) k d)) ms'"
    by (rule codes_bind [OF w(2)]) (use m ms'(1) in \<open>simp add: Let_def step_def [symmetric] pos'_def runPos'_def ms1_def\<close>)
  then have "codes (enc_mag_loop cc (Suc n) first c pos runs) (mag_loop cc (Suc n) first c pos runPos ms) ms'"
    using w(1) Suc.prems(2) by (simp add: runs idx_def step_def [symmetric] pos'_def)
  then show ?case
    using ms'(1-6) ms1 k(2) ms'(7) by (intro exI [of _ ms']) (auto simp: runs step_def [symmetric] runPos'_def [symmetric] ms1_def [symmetric])
qed

fun take_all_runs :: "int list \<Rightarrow> int list \<Rightarrow> nat option" where
  "take_all_runs [] runs = (if runs = [] then Some 0 else None)"
| "take_all_runs (cnt # cnts) runs =
     (case take_runs (nat cnt) True 80 runs of None \<Rightarrow> None | Some (k, rest) \<Rightarrow> map_option ((+) k) (take_all_runs cnts rest))"

lemma codes_mag_all:
  assumes rk: "runs_ok cc"
  shows "take_all_runs cnts runs = Some np \<Longrightarrow> \<forall>x \<in> set cnts. 0 \<le> x \<and> x \<le> 40 \<Longrightarrow> length (ms_pos ms) = length (ms_mag ms) \<Longrightarrow>
    \<exists>ms'. codes (enc_mag_all cc 80 cnts runs) (mag_all cc 80 sf cnts ms) ms' \<and> ms_runs ms' = ms_runs ms @ runs \<and>
      length (ms_mag ms') = length (ms_mag ms) + np \<and> length (ms_pos ms') = length (ms_mag ms') \<and> ms' = place_all sf cnts runs ms"
proof (induction cnts arbitrary: runs np sf ms)
  case Nil
  then show ?case
    by (intro exI [of _ ms]) (auto simp: codes_return split: if_split_asm)
next
  case (Cons cnt cnts)
  obtain k rest j where k: "take_runs (nat cnt) True 80 runs = Some (k, rest)" "take_all_runs cnts rest = Some j" "np = k + j"
    using Cons.prems(1) by (auto split: option.split_asm)
  have cnt: "0 \<le> cnt" "cnt \<le> 40"
    using Cons.prems(2) by auto
  show ?case
  proof (cases "cnt = 0")
    case True
    then show ?thesis
      using Cons.IH [of rest j ms "sf + 1"] Cons.prems k by simp
  next
    case False
    obtain ms1 where ms1: "codes (enc_mag_loop cc (nat cnt) True cnt 80 runs) (mag_loop cc (nat cnt) True cnt 80 (80 * sf) ms) ms1"
      "ms_runs ms1 = ms_runs ms @ take (nat cnt) runs" "length (ms_mag ms1) = length (ms_mag ms) + k"
      "length (ms_pos ms1) = length (ms_mag ms1)" "rest = drop (nat cnt) runs" "ms1 = place_runs (nat cnt) True (80 * sf) runs ms"
      using codes_mag_loop [OF rk k(1), of cnt ms "80 * sf"] cnt Cons.prems(3) by auto
    obtain ms2 where ms2: "codes (enc_mag_all cc 80 cnts rest) (mag_all cc 80 (sf + 1) cnts ms1) ms2"
      "ms_runs ms2 = ms_runs ms1 @ rest" "length (ms_mag ms2) = length (ms_mag ms1) + j" "length (ms_pos ms2) = length (ms_mag ms2)"
      "ms2 = place_all (sf + 1) cnts rest ms1"
      using Cons.IH [OF k(2), of ms1 "sf + 1"] Cons.prems(2) ms1(4) by auto
    have "codes (\<lambda>e. enc_mag_loop cc (nat cnt) True cnt 80 runs e \<bind> enc_mag_all cc 80 cnts rest)
        (\<lambda>d. mag_loop cc (nat cnt) True cnt 80 (80 * sf) ms d \<bind> (\<lambda>(ms, d). mag_all cc 80 (sf + 1) cnts ms d)) ms2"
      by (rule codes_bind [OF ms1(1)]) (rule ms2(1))
    then show ?thesis
      using cnt False ms1 ms2 k(3) by (intro exI [of _ ms2]) simp
  qed
qed

text \<open>Raw sign symbols for \<open>n\<close> positions: chunks of at most fifteen bits.\<close>

fun sign_all :: "int list \<Rightarrow> (u32 \<times> nat) list \<Rightarrow> int list" where
  "sign_all mags [] = []"
| "sign_all mags ((s, nbits) # r) = apply_signs (push_bit (16 - nbits) s) (take nbits mags) @ sign_all (drop nbits mags) r"

fun signs_ok :: "nat \<Rightarrow> (u32 \<times> nat) list \<Rightarrow> bool" where
  "signs_ok n [] = (n = 0)"
| "signs_ok n ((s, nbits) # r) = (n \<noteq> 0 \<and> nbits = min n 15 \<and> unat s < 2 ^ nbits \<and> signs_ok (n - nbits) r)"

lemma codes_signs:
  "signs_ok (length mags) syms \<Longrightarrow> \<exists>mags'. codes (enc_signs syms) (sign_loop mags) (mags', syms) \<and> length mags' = length mags \<and> mags' = sign_all mags syms"
proof (induction syms arbitrary: mags)
  case Nil
  then have "sign_loop mags = (\<lambda>d. Some (([], []), d))"
    by (simp add: fun_eq_iff sign_loop.simps)
  then show ?case
    using Nil by (intro exI [of _ "[]"]) (simp add: codes_return)
next
  case (Cons x r)
  obtain s nbits where x: "x = (s, nbits)"
    by (cases x)
  have p: "mags \<noteq> []" "nbits = min (length mags) 15" "unat s < 2 ^ nbits" "signs_ok (length (drop nbits mags)) r"
    using Cons.prems by (auto simp: x)
  obtain rest where rest: "codes (enc_signs r) (sign_loop (drop nbits mags)) (rest, r)" "length rest = length (drop nbits mags)" "rest = sign_all (drop nbits mags) r"
    using Cons.IH [OF p(4)] by blast
  define f where "f = (\<lambda>s :: u32. \<lambda>(rest, syms). (apply_signs (push_bit (16 - nbits) s) (take nbits mags) @ rest, (s, nbits) # syms))"
  have "nbits \<le> 23"
    using p(2) by simp
  have "codes (\<lambda>e. EncodeRawSymbol s nbits e \<bind> enc_signs r)
      (\<lambda>d. DecodeRawSymbol nbits d \<bind> (\<lambda>(s, d). (\<lambda>s d. sign_loop (drop nbits mags) d \<bind> (\<lambda>(x, d). Some (f s x, d))) s d)) (f s (rest, r))"
    by (rule codes_bind [OF codes_RawSymbol [OF p(3) \<open>nbits \<le> 23\<close>]]) (rule codes_then [OF rest(1)])
  moreover have "sign_loop mags = (\<lambda>d. DecodeRawSymbol nbits d \<bind> (\<lambda>(s, d). sign_loop (drop nbits mags) d \<bind> (\<lambda>(x, d). Some (f s x, d))))"
    using p(1,2) by (simp add: fun_eq_iff sign_loop.simps [of mags] Let_def f_def case_prod_unfold)
  moreover have "length (apply_signs b ms) = length ms" for b ms
    by (induction b ms rule: apply_signs.induct) simp_all
  ultimately show ?case
    using rest(2,3) p(2) by (intro exI [of _ "fst (f s (rest, r))"]) (simp add: x f_def)
qed

section \<open>Pulses\<close>

text \<open>
  Pulse parameters the encoder can be given: four counts of at most forty that add up to the total, run lengths
  that fit the subframes and sign chunks for the positions they make.
\<close>

definition pulses_ok :: "SmplPulseParams \<Rightarrow> bool" where
  "pulses_ok pp \<longleftrightarrow> length (pp_Subfr pp) = 4 \<and> (\<forall>x \<in> set (pp_Subfr pp). 0 \<le> x \<and> x \<le> 40) \<and> pp_Total pp = sum_list (pp_Subfr pp) \<and>
     (case take_all_runs (pp_Subfr pp) (pp_MagRuns pp) of None \<Rightarrow> False | Some n \<Rightarrow> signs_ok n (pp_SignSyms pp))"

lemma frame_len4k_nb: "s1 = 0 \<or> s1 = 1 \<Longrightarrow> frame_len4k 320 1 0 s1 = 160"
  by (auto simp: frame_len4k_def Mem8Static_def smplPulseCountByte_def sdiv_nonneg)

definition dec_pulses_tail :: "CcTables \<Rightarrow> int list option \<Rightarrow> RangeDecoder \<Rightarrow> (SmplPulseResult \<times> RangeDecoder) go" where
  "dec_pulses_tail cc sp = (\<lambda>d.
     (case sp of
        None \<Rightarrow> Some (\<lparr>pr_Pulses = replicate 320 0, pr_Subfr = [0, 0, 0, 0], pr_MagRuns = [], pr_SignSyms = []\<rparr>, d)
      | Some split \<Rightarrow> slice_int (split @ [0, 0, 0, 0]) 0 4 \<bind> (\<lambda>cnts.
          mag_all cc 80 0 cnts \<lparr>ms_runs = [], ms_pos = [], ms_mag = []\<rparr> d \<bind> (\<lambda>(ms, d).
          sign_loop (ms_mag ms) d \<bind> (\<lambda>((mags, syms), d).
          Some (\<lparr>pr_Pulses = scatter (replicate 320 0) (zip (ms_pos ms) mags), pr_Subfr = take 4 split,
              pr_MagRuns = ms_runs ms, pr_SignSyms = syms\<rparr>, d))))))"

lemma DecodeSmplPulses_nb:
  "s1 = 0 \<or> s1 = 1 \<Longrightarrow> DecodeSmplPulses cc 320 4 1 0 s1 =
    (\<lambda>d. decode_count cc 0 (1 + s1) 160 d \<bind> (\<lambda>(tot, d). decode_split cc tot 40 d \<bind> (\<lambda>(sp, d). dec_pulses_tail cc sp d)))"
  by (simp add: fun_eq_iff DecodeSmplPulses_def frame_len4k_nb sdiv_nonneg Let_def dec_pulses_tail_def cong: option.case_cong)

definition enc_pulses_tail :: "CcTables \<Rightarrow> SmplPulseParams \<Rightarrow> RangeEncoder \<Rightarrow> RangeEncoder go" where
  "enc_pulses_tail cc pp =
     (if pp_Total pp = 0 then Some
      else (\<lambda>e. enc_split cc (pp_Total pp) (pp_Subfr pp) e \<bind> (\<lambda>e. enc_mag_all cc 80 (pp_Subfr pp) (pp_MagRuns pp) e \<bind>
        enc_signs (pp_SignSyms pp))))"

lemma list4: "length xs = 4 \<Longrightarrow> \<exists>a b c f. xs = [a, b, c, f]"
  by (clarsimp simp: numeral_eq_Suc length_Suc_conv)

lemma encodeSmplPulses_nb:
  assumes "s1 = 0 \<or> s1 = 1" and ok: "pulses_ok pp"
  shows "encodeSmplPulses cc 320 4 1 0 s1 pp =
    (\<lambda>e. Encode (if pp_Total pp > 0 then triT 160 (of_int (pp_Total pp - 1)) else 0) (triT 160 (of_int (pp_Total pp))) (tri_total 160) e \<bind>
      enc_pulses_tail cc pp)"
proof -
  obtain a b c f where s: "pp_Subfr pp = [a, b, c, f]"
    using ok list4 unfolding pulses_ok_def by blast
  have t: "pp_Total pp = a + b + c + f" "0 \<le> a" "0 \<le> b" "0 \<le> c" "0 \<le> f"
    using ok by (simp_all add: pulses_ok_def s)
  have nums: "slice_int [a, b, c, f] 0 4 = Some [a, b, c, f]" "max 4 0 = (4 :: int)" "320 sdiv 4 = (80 :: int)" "160 sdiv 4 = (40 :: int)"
    by (simp_all add: slice_int_def slice_def sdiv_nonneg)
  have lt: "(a + b < pp_Total pp) = (0 < c + f)" "pp_Total pp - (a + b) = c + f"
    using t(1) by simp_all
  have lo: "\<not> max (pp_Total pp - 40 * 2) 0 < max (pp_Total pp - 80) 0" "40 * 2 = (80 :: int)"
    by simp_all
  have id: "idx [a, b, c, f] 0 = Some a" "idx [a, b, c, f] 1 = Some b" "idx [a, b, c, f] 2 = Some c"
    by (simp_all add: idx_def)
  have nth: "[a, b, c, f] ! 0 = a" "[a, b, c, f] ! 1 = b" "[a, b, c, f] ! 2 = c" "[a, b, c, f] ! 3 = f"
    by simp_all
  show ?thesis
    unfolding fun_eq_iff encodeSmplPulses_def frame_len4k_nb [OF assms(1)] Let_def s nums id lt bind.bind_lunit if_not_P [OF lo(1)]
      enc_pulses_tail_def enc_split_def enc_first_def enc_half_def lo(2) nth
    by simp
qed

text \<open>The excitation vector of given parameters.\<close>

definition pulse_vector :: "SmplPulseParams \<Rightarrow> int list" where
  "pulse_vector pp =
     (let ms = place_all 0 (pp_Subfr pp) (pp_MagRuns pp) \<lparr>ms_runs = [], ms_pos = [], ms_mag = []\<rparr>
      in scatter (replicate 320 0) (zip (ms_pos ms) (sign_all (ms_mag ms) (pp_SignSyms pp))))"

lemma take_runs_0: "take_all_runs cnts runs = Some n \<Longrightarrow> \<forall>x \<in> set cnts. x = 0 \<Longrightarrow> n = 0 \<and> runs = []"
  by (induction cnts arbitrary: n) (auto split: if_split_asm)

lemma codes_pulses_tail:
  assumes sp: "splits_ok cc" and rk: "runs_ok cc" and ok: "pulses_ok pp"
  shows "\<exists>res. codes (enc_pulses_tail cc pp) (\<lambda>d. decode_split cc (pp_Total pp) 40 d \<bind> (\<lambda>(sp, d). dec_pulses_tail cc sp d)) res \<and>
    pr_Subfr res = pp_Subfr pp \<and> pr_MagRuns res = pp_MagRuns pp \<and> pr_SignSyms res = pp_SignSyms pp \<and> pr_Pulses res = pulse_vector pp"
proof -
  obtain a b c f where s: "pp_Subfr pp = [a, b, c, f]"
    using ok list4 unfolding pulses_ok_def by blast
  have t: "pp_Total pp = a + b + c + f" "\<forall>x \<in> {a, b, c, f}. 0 \<le> x \<and> x \<le> 40"
    using ok by (simp_all add: pulses_ok_def s)
  obtain n where n: "take_all_runs [a, b, c, f] (pp_MagRuns pp) = Some n" "signs_ok n (pp_SignSyms pp)"
    using ok by (auto simp: pulses_ok_def s split: option.split_asm)
  define ms0 where "ms0 = \<lparr>ms_runs = [], ms_pos = [], ms_mag = []\<rparr>"
  obtain ms where ms: "codes (enc_mag_all cc 80 [a, b, c, f] (pp_MagRuns pp)) (mag_all cc 80 0 [a, b, c, f] ms0) ms"
    "ms_runs ms = pp_MagRuns pp" "length (ms_mag ms) = n" "ms = place_all 0 [a, b, c, f] (pp_MagRuns pp) ms0"
    using codes_mag_all [OF rk n(1), of ms0 0] t(2) by (auto simp: ms0_def)
  obtain mags where mags: "codes (enc_signs (pp_SignSyms pp)) (sign_loop (ms_mag ms)) (mags, pp_SignSyms pp)"
    "mags = sign_all (ms_mag ms) (pp_SignSyms pp)"
    using codes_signs [of "ms_mag ms" "pp_SignSyms pp"] n(2) ms(3) by auto
  define g where "g = (\<lambda>(ms :: MagState) (mags, syms). \<lparr>pr_Pulses = scatter (replicate 320 0) (zip (ms_pos ms) mags), pr_Subfr = [a, b, c, f],
      pr_MagRuns = ms_runs ms, pr_SignSyms = syms\<rparr>)"
  have sl: "slice_int ([a, b, c, f] @ [0, 0, 0, 0]) 0 4 = Some [a, b, c, f]"
    by (simp add: slice_int_def slice_def)
  have tail: "dec_pulses_tail cc (Some [a, b, c, f]) = (\<lambda>d. mag_all cc 80 0 [a, b, c, f] ms0 d \<bind> (\<lambda>(ms, d).
      (\<lambda>ms d. sign_loop (ms_mag ms) d \<bind> (\<lambda>(x, d). Some (g ms x, d))) ms d))"
    using sl by (simp add: dec_pulses_tail_def fun_eq_iff ms0_def [symmetric] g_def case_prod_unfold)
  have ctail: "codes (\<lambda>e. enc_mag_all cc 80 [a, b, c, f] (pp_MagRuns pp) e \<bind> enc_signs (pp_SignSyms pp))
      (dec_pulses_tail cc (Some [a, b, c, f])) (g ms (mags, pp_SignSyms pp))"
    unfolding tail by (rule codes_bind [OF ms(1)]) (rule codes_then [OF mags(1)])
  have "codes (enc_pulses_tail cc pp) (\<lambda>d. decode_split cc (pp_Total pp) 40 d \<bind> (\<lambda>(sp, d). dec_pulses_tail cc sp d)) (g ms (mags, pp_SignSyms pp))"
  proof (cases "pp_Total pp = 0")
    case True
    then have z: "a = 0" "b = 0" "c = 0" "f = 0"
      using t by auto
    then have "n = 0" "pp_MagRuns pp = []"
      using take_runs_0 [OF n(1)] by auto
    moreover have "pp_SignSyms pp = []"
      using n(2) \<open>n = 0\<close> by (cases "pp_SignSyms pp") auto
    ultimately have "codes Some (dec_pulses_tail cc (Some [0, 0, 0, 0])) (g ms (mags, pp_SignSyms pp))"
      using ctail z by simp
    then show ?thesis
      using True by (simp add: enc_pulses_tail_def decode_split_def)
  next
    case False
    have "0 < a + b + c + f"
      using False t by auto
    then have "codes (enc_split cc (pp_Total pp) [a, b, c, f]) (decode_split cc (pp_Total pp) 40) (Some [a, b, c, f])"
      using codes_split [OF sp t(2), of "pp_Total pp"] t(1) by simp
    from codes_bind [OF this, of _ "dec_pulses_tail cc", OF ctail] show ?thesis
      using False by (simp add: enc_pulses_tail_def s)
  qed
  then show ?thesis
    by (intro exI [of _ "g ms (mags, pp_SignSyms pp)"]) (simp add: g_def s ms(2) mags(2) pulse_vector_def ms(4) [symmetric] Let_def ms0_def [symmetric] del: place_all.simps)
qed

lemma codes_pulses:
  assumes sp: "splits_ok cc" and rk: "runs_ok cc" and ok: "pulses_ok pp" and s1: "s1 = 0 \<or> s1 = 1"
  shows "\<exists>res. codes (encodeSmplPulses cc 320 4 1 0 s1 pp) (DecodeSmplPulses cc 320 4 1 0 s1) res \<and>
    pr_Subfr res = pp_Subfr pp \<and> pr_MagRuns res = pp_MagRuns pp \<and> pr_SignSyms res = pp_SignSyms pp \<and> pr_Pulses res = pulse_vector pp"
proof -
  obtain a b c f where s: "pp_Subfr pp = [a, b, c, f]"
    using ok list4 unfolding pulses_ok_def by blast
  have t: "0 \<le> pp_Total pp" "pp_Total pp \<le> 160"
    using ok by (simp_all add: pulses_ok_def s)
  obtain res where res: "codes (enc_pulses_tail cc pp) (\<lambda>d. decode_split cc (pp_Total pp) 40 d \<bind> (\<lambda>(sp, d). dec_pulses_tail cc sp d)) res"
    "pr_Subfr res = pp_Subfr pp \<and> pr_MagRuns res = pp_MagRuns pp \<and> pr_SignSyms res = pp_SignSyms pp \<and> pr_Pulses res = pulse_vector pp"
    using codes_pulses_tail [OF sp rk ok] by blast
  have "codes (encodeSmplPulses cc 320 4 1 0 s1 pp) (DecodeSmplPulses cc 320 4 1 0 s1) res"
    unfolding encodeSmplPulses_nb [OF s1 ok] DecodeSmplPulses_nb [OF s1]
    by (rule codes_bind [OF codes_count [OF t]]) (rule res(1))
  then show ?thesis
    using res(2) by blast
qed

section \<open>Spectral indices and gains\<close>

definition sym_of :: "u16 list \<Rightarrow> int \<Rightarrow> bool" where
  "sym_of cdf k \<longleftrightarrow> 0 \<le> k \<and> cdf_ok cdf (nat k)"

lemma codes_sym_of: "sym_of cdf k \<Longrightarrow> codes (EncodeCDF k cdf) (DecodeCDF cdf) (nat k)"
  by (simp add: sym_of_def codes_CDF_int)

lemma codes_each: "list_all2 sym_of cs ks \<Longrightarrow> codes (encode_each ks cs) (decode_each cs) ks"
proof (induction cs ks rule: list_all2_induct)
  case Nil
  then show ?case
    by (simp add: codes_return)
next
  case (Cons c cs k ks)
  have "codes (\<lambda>e. EncodeCDF k c e \<bind> encode_each ks cs)
      (\<lambda>d. DecodeCDF c d \<bind> (\<lambda>(k, d). (\<lambda>k d. decode_each cs d \<bind> (\<lambda>(ks, d). Some (int k # ks, d))) k d)) (int (nat k) # ks)"
    by (rule codes_bind [OF codes_sym_of [OF Cons.hyps(1)]]) (rule codes_then [OF Cons.IH])
  then show ?case
    using Cons.hyps(1) by (simp add: sym_of_def)
qed

definition lsf_ok :: "SmplTables \<Rightarrow> int \<Rightarrow> int \<Rightarrow> int \<Rightarrow> SmplLsfParams \<Rightarrow> bool" where
  "lsf_ok t config intf prev1 lsf =
     (case idx (LsfSel t) (if intf \<noteq> 0 then if prev1 \<noteq> 0 then 2 else 1 else 0) of
        None \<Rightarrow> False
      | Some selcdf \<Rightarrow>
          sym_of selcdf (lp_Stage1 lsf) \<and> sym_of (lsf_grid_cdf t (intf \<noteq> 0 \<and> lp_Stage1 lsf = prev1) (lp_Stage1 lsf)) (lp_Grid lsf) \<and>
          (case lsf_stage2_cdfs t (lp_Stage1 lsf) config (lp_Grid lsf) of None \<Rightarrow> False | Some st2 \<Rightarrow> list_all2 sym_of st2 (lp_Stage2 lsf)) \<and>
          sym_of (LsfExtra t) (lp_Extra lsf))"

definition enc_lsf_syms :: "SmplTables \<Rightarrow> int \<Rightarrow> int \<Rightarrow> SmplLsfParams \<Rightarrow> SmplLsfState \<Rightarrow> RangeEncoder \<Rightarrow> RangeEncoder go" where
  "enc_lsf_syms t config intf lsf st e = map_option snd (encodeSmplLsf t config intf lsf st e)"

lemma encodeSmplLsf_split:
  "encodeSmplLsf t config intf lsf st e = enc_lsf_syms t config intf lsf st e \<bind> (\<lambda>e. Some (SmplAdvanceLsfState intf (lp_Stage1 lsf) st, e))"
  by (auto simp: enc_lsf_syms_def encodeSmplLsf_def Let_def split: Option.bind_split)

lemma codes_lsf:
  assumes ok: "lsf_ok t config intf (PrevStage1 st) lsf" and st: "intf \<noteq> 0 \<Longrightarrow> PrevStage1 st' = PrevStage1 st"
  shows "\<exists>nr. codes (enc_lsf_syms t config intf lsf st) (DecodeSmplLsf t config intf st')
    (\<lparr>li_Stage1 = lp_Stage1 lsf, li_Grid = lp_Grid lsf, li_Stage2 = lp_Stage2 lsf, li_StageNraw = nr, li_Extra = lp_Extra lsf\<rparr>,
      dec_lsf_state intf (lp_Stage1 lsf) st')"
proof -
  define s1 g x where "s1 = lp_Stage1 lsf" and "g = lp_Grid lsf" and "x = lp_Extra lsf"
  define m where "m \<longleftrightarrow> intf \<noteq> 0 \<and> s1 = PrevStage1 st"
  obtain selcdf st2 where k: "idx (LsfSel t) (lsf_sel st intf) = Some selcdf" "sym_of selcdf s1"
    "sym_of (lsf_grid_cdf t m s1) g" "lsf_stage2_cdfs t s1 config g = Some st2" "list_all2 sym_of st2 (lp_Stage2 lsf)"
    "sym_of (LsfExtra t) x"
    using ok by (auto simp: lsf_ok_def lsf_sel_def s1_def g_def x_def m_def split: option.split_asm)
  have ls: "lsf_sel st' intf = lsf_sel st intf"
    by (simp add: lsf_sel_def st)
  have nn: "int (nat s1) = s1" "int (nat g) = g" "int (nat x) = x"
    using k by (simp_all add: sym_of_def)
  define fin where "fin = (\<lambda>s1 g ks x. (\<lparr>li_Stage1 = s1, li_Grid = g, li_Stage2 = ks,
      li_StageNraw = map (\<lambda>c. int (length c) - 2) st2, li_Extra = int x\<rparr>, dec_lsf_state intf s1 st'))"
  have E: "enc_lsf_syms t config intf lsf st = (\<lambda>e. EncodeCDF s1 selcdf e \<bind> (\<lambda>e. EncodeCDF g (lsf_grid_cdf t m s1) e \<bind>
      (\<lambda>e. encode_each (lp_Stage2 lsf) st2 e \<bind> EncodeCDF x (LsfExtra t))))"
    using k by (auto simp: enc_lsf_syms_def encodeSmplLsf_def fun_eq_iff s1_def [symmetric] g_def [symmetric] x_def [symmetric]
        m_def [symmetric] Let_def split: Option.bind_split)
  have tail: "codes (\<lambda>e. encode_each (lp_Stage2 lsf) st2 e \<bind> EncodeCDF x (LsfExtra t))
      (\<lambda>d. decode_each st2 d \<bind> (\<lambda>(ks, d). (\<lambda>ks d. DecodeCDF (LsfExtra t) d \<bind> (\<lambda>(y, d). Some (fin s1 g ks y, d))) ks d))
      (fin s1 g (lp_Stage2 lsf) (nat x))"
    by (rule codes_bind [OF codes_each [OF k(5)]]) (rule codes_then [OF codes_sym_of [OF k(6)]])
  have "codes (enc_lsf_syms t config intf lsf st)
      (\<lambda>d. DecodeCDF selcdf d \<bind> (\<lambda>(a, d). (\<lambda>a d. DecodeCDF (lsf_grid_cdf t (intf \<noteq> 0 \<and> int a = PrevStage1 st') (int a)) d \<bind>
        (\<lambda>(b, d). (\<lambda>b d. lsf_stage2_cdfs t (int a) config (int b) \<bind> (\<lambda>st2. decode_each st2 d \<bind> (\<lambda>(ks, d).
          DecodeCDF (LsfExtra t) d \<bind> (\<lambda>(y, d). Some ((\<lparr>li_Stage1 = int a, li_Grid = int b, li_Stage2 = ks,
            li_StageNraw = map (\<lambda>c. int (length c) - 2) st2, li_Extra = int y\<rparr>, dec_lsf_state intf (int a) st'), d))))) b d)) a d))
      (fin s1 g (lp_Stage2 lsf) (nat x))"
    unfolding E
  proof (rule codes_bind [OF codes_sym_of [OF k(2)]], rule codes_bind)
    show "codes (EncodeCDF g (lsf_grid_cdf t m s1))
        (DecodeCDF (lsf_grid_cdf t (intf \<noteq> 0 \<and> int (nat s1) = PrevStage1 st') (int (nat s1)))) (nat g)"
    proof -
      have "(intf \<noteq> 0 \<and> s1 = PrevStage1 st') = m"
        using st by (auto simp: m_def)
      then show ?thesis
        unfolding nn using codes_sym_of [OF k(3)] by simp
    qed
    show "codes (\<lambda>e. encode_each (lp_Stage2 lsf) st2 e \<bind> EncodeCDF x (LsfExtra t))
        (\<lambda>d. lsf_stage2_cdfs t (int (nat s1)) config (int (nat g)) \<bind> (\<lambda>st2. decode_each st2 d \<bind> (\<lambda>(ks, d).
          DecodeCDF (LsfExtra t) d \<bind> (\<lambda>(y, d). Some ((\<lparr>li_Stage1 = int (nat s1), li_Grid = int (nat g), li_Stage2 = ks,
            li_StageNraw = map (\<lambda>c. int (length c) - 2) st2, li_Extra = int y\<rparr>, dec_lsf_state intf (int (nat s1)) st'), d)))))
        (fin s1 g (lp_Stage2 lsf) (nat x))"
      unfolding nn k(4) using tail by (simp add: fin_def)
  qed
  moreover have "DecodeSmplLsf t config intf st' = (\<lambda>d. DecodeCDF selcdf d \<bind> (\<lambda>(a, d). (\<lambda>a d. DecodeCDF (lsf_grid_cdf t (intf \<noteq> 0 \<and> int a = PrevStage1 st') (int a)) d \<bind>
        (\<lambda>(b, d). (\<lambda>b d. lsf_stage2_cdfs t (int a) config (int b) \<bind> (\<lambda>st2. decode_each st2 d \<bind> (\<lambda>(ks, d).
          DecodeCDF (LsfExtra t) d \<bind> (\<lambda>(y, d). Some ((\<lparr>li_Stage1 = int a, li_Grid = int b, li_Stage2 = ks,
            li_StageNraw = map (\<lambda>c. int (length c) - 2) st2, li_Extra = int y\<rparr>, dec_lsf_state intf (int a) st'), d))))) b d)) a d))"
    using k(1) by (simp add: fun_eq_iff DecodeSmplLsf_def ls Let_def)
  moreover have "fin s1 g (lp_Stage2 lsf) (nat x) = (\<lparr>li_Stage1 = s1, li_Grid = g, li_Stage2 = lp_Stage2 lsf,
      li_StageNraw = map (\<lambda>c. int (length c) - 2) st2, li_Extra = x\<rparr>, dec_lsf_state intf s1 st')"
    unfolding fin_def nn ..
  ultimately have "codes (enc_lsf_syms t config intf lsf st) (DecodeSmplLsf t config intf st')
      (\<lparr>li_Stage1 = s1, li_Grid = g, li_Stage2 = lp_Stage2 lsf, li_StageNraw = map (\<lambda>c. int (length c) - 2) st2, li_Extra = x\<rparr>,
        dec_lsf_state intf s1 st')"
    by (simp only:)
  then show ?thesis
    unfolding s1_def g_def x_def by (rule exI)
qed

text \<open>The energy residuals: a subframe without pulses has none on the stream, and the decoder reads 0.\<close>

fun nrgres_ok :: "CcTables \<Rightarrow> int list \<Rightarrow> int list \<Rightarrow> int list \<Rightarrow> bool" where
  "nrgres_ok cc (q # qs) (cnt # cnts) (r # rs) =
     ((if cnt \<le> 0 then r = 0
       else case FcbgOffset cc 2 (nrgres_bucket cnt) (nrgres_offset q) of None \<Rightarrow> False | Some cdf \<Rightarrow> sym_of cdf r) \<and>
      nrgres_ok cc qs cnts rs)"
| "nrgres_ok cc [] [] [] = True"
| "nrgres_ok cc _ _ _ = False"

lemma codes_nrgres:
  "nrgres_ok cc qs cnts rs \<Longrightarrow> codes (encode_nrgres cc qs cnts rs) (decode_nrgres cc qs cnts) rs"
proof (induction cc qs cnts rs rule: nrgres_ok.induct)
  case (1 cc q qs cnt cnts r rs)
  have IH: "codes (encode_nrgres cc qs cnts rs) (decode_nrgres cc qs cnts) rs"
    using 1 by simp
  show ?case
  proof (cases "cnt \<le> 0")
    case True
    then show ?thesis
      using 1 codes_then [OF IH, of "\<lambda>rs. 0 # rs"] by simp
  next
    case False
    then obtain cdf where cdf: "FcbgOffset cc 2 (nrgres_bucket cnt) (nrgres_offset q) = Some cdf" "sym_of cdf r"
      using 1 by (auto split: option.split_asm)
    have "codes (\<lambda>e. EncodeCDF r cdf e \<bind> encode_nrgres cc qs cnts rs)
        (\<lambda>d. DecodeCDF cdf d \<bind> (\<lambda>(k, d). (\<lambda>k d. decode_nrgres cc qs cnts d \<bind> (\<lambda>(rs, d). Some (int k # rs, d))) k d)) (int (nat r) # rs)"
      by (rule codes_bind [OF codes_sym_of [OF cdf(2)]]) (rule codes_then [OF IH])
    then show ?thesis
      using False cdf by (simp add: sym_of_def)
  qed
qed (simp_all add: codes_return)

definition gains_ok :: "CcTables \<Rightarrow> int list \<Rightarrow> SmplGainParams \<Rightarrow> bool" where
  "gains_ok cc cnts gp \<longleftrightarrow> sym_of (nrgresGain4 cc) (gp_GainMain gp) \<and> sym_of (nrgresShape4 cc) (gp_GainDelta gp) \<and>
     nrgres_ok cc (map (gain_q cc 4 (gp_GainMain gp) (gp_GainDelta gp)) [0..3]) cnts (gp_NrgRes gp)"

lemma codes_gains:
  assumes ok: "gains_ok cc cnts gp"
  shows "codes (encodeSmplGains cc 4 cnts gp) (DecodeSmplGains cc 4 cnts)
    \<lparr>gr_GainQ = map (gain_q cc 4 (gp_GainMain gp) (gp_GainDelta gp)) [0..3], gr_NrgRes = gp_NrgRes gp,
      gr_GainMain = gp_GainMain gp, gr_GainDelta = gp_GainDelta gp\<rparr>"
proof -
  define gm gd where "gm = gp_GainMain gp" and "gd = gp_GainDelta gp"
  define fin where "fin = (\<lambda>gm gd rs. \<lparr>gr_GainQ = map (gain_q cc 4 gm gd) [0..3], gr_NrgRes = rs, gr_GainMain = gm, gr_GainDelta = gd\<rparr>)"
  have k: "sym_of (nrgresGain4 cc) gm" "sym_of (nrgresShape4 cc) gd" "nrgres_ok cc (map (gain_q cc 4 gm gd) [0..3]) cnts (gp_NrgRes gp)"
    using ok by (simp_all add: gains_ok_def gm_def gd_def)
  have nn: "int (nat gm) = gm" "int (nat gd) = gd"
    using k by (simp_all add: sym_of_def)
  have "codes (\<lambda>e. EncodeCDF gm (nrgresGain4 cc) e \<bind> (\<lambda>e. EncodeCDF gd (nrgresShape4 cc) e \<bind>
        encode_nrgres cc (map (gain_q cc 4 gm gd) [0..3]) cnts (gp_NrgRes gp)))
      (\<lambda>d. DecodeCDF (nrgresGain4 cc) d \<bind> (\<lambda>(a, d). (\<lambda>a d. DecodeCDF (nrgresShape4 cc) d \<bind> (\<lambda>(b, d). (\<lambda>b d.
        decode_nrgres cc (map (gain_q cc 4 (int a) (int b)) [0..3]) cnts d \<bind> (\<lambda>(rs, d). Some (fin (int a) (int b) rs, d))) b d)) a d))
      (fin (int (nat gm)) (int (nat gd)) (gp_NrgRes gp))"
    by (rule codes_bind [OF codes_sym_of [OF k(1)]], rule codes_bind [OF codes_sym_of [OF k(2)]], rule codes_then)
      (simp only: nn codes_nrgres [OF k(3)])
  moreover have "encodeSmplGains cc 4 cnts gp = (\<lambda>e. EncodeCDF gm (nrgresGain4 cc) e \<bind> (\<lambda>e. EncodeCDF gd (nrgresShape4 cc) e \<bind>
        encode_nrgres cc (map (gain_q cc 4 gm gd) [0..3]) cnts (gp_NrgRes gp)))"
    by (simp add: fun_eq_iff encodeSmplGains_def gm_def gd_def)
  moreover have "DecodeSmplGains cc 4 cnts = (\<lambda>d. DecodeCDF (nrgresGain4 cc) d \<bind> (\<lambda>(a, d). (\<lambda>a d. DecodeCDF (nrgresShape4 cc) d \<bind> (\<lambda>(b, d). (\<lambda>b d.
        decode_nrgres cc (map (gain_q cc 4 (int a) (int b)) [0..3]) cnts d \<bind> (\<lambda>(rs, d). Some (fin (int a) (int b) rs, d))) b d)) a d))"
    by (simp add: fun_eq_iff DecodeSmplGains_def fin_def Let_def)
  ultimately have "codes (encodeSmplGains cc 4 cnts gp) (DecodeSmplGains cc 4 cnts) (fin gm gd (gp_NrgRes gp))"
    by (simp only: nn)
  then show ?thesis
    by (simp only: fin_def gm_def gd_def)
qed

end
