(* ===== verification/Mlow_Window.thy ===== *)
theory Mlow_Window
  imports Mlow_Pitch
begin

unbundle bit_operations_syntax

text \<open>
  Reads of the heap window that \<open>buildSmplMemFromSeed\<close> lays out are lookups in the tables: the pointers the pitch
  decoder follows land on the entries the encoder uses. The parts of a window are assumed to have the sizes and the
  order that the codec's seed has.
\<close>

section \<open>What the parts have to satisfy\<close>

definition cmf_ok :: "nat \<Rightarrow> u32 list \<Rightarrow> bool" where
  "cmf_ok n t \<longleftrightarrow> length t = n \<and> sorted_wrt (<) t \<and> t ! 0 = 0 \<and> (\<forall>x \<in> set t. x < 65536)"

fun block_steps :: "nat list \<Rightarrow> bool" where
  "block_steps (a # b # r) \<longleftrightarrow> - 1 \<le> int b - int a \<and> int b - int a \<le> 2 \<and> block_steps (b # r)"
| "block_steps _ \<longleftrightarrow> True"

definition record_ok :: "nat list \<times> nat list \<Rightarrow> bool" where
  "record_ok rec \<longleftrightarrow> length (snd rec) = length (fst rec) \<and> 1 \<le> length (fst rec) \<and> length (fst rec) \<le> 8 \<and> sum_list (snd rec) = 8 \<and>
     list_all (\<lambda>s. 1 \<le> s) (snd rec) \<and> list_all (\<lambda>b. b < 9) (fst rec) \<and> block_steps (fst rec)"

definition first_ok :: "contourWindowParts \<Rightarrow> nat \<Rightarrow> bool" where
  "first_ok w i \<longleftrightarrow>
     (case cw_firstblockRange w ! (fst (cw_records w ! i) ! 0) of (lo, hi) \<Rightarrow>
        lo < unat (cw_contourMap w ! i) \<and> unat (cw_contourMap w ! i) \<le> hi + 1 \<and> hi \<le> 216)"

definition window_ok :: "contourWindowParts \<Rightarrow> bool" where
  "window_ok w \<longleftrightarrow> length (cw_records w) = 217 \<and> length (cw_contourMap w) = 217 \<and> length (cw_firstblockRange w) = 9 \<and>
     cmf_ok 218 (cw_lagCdf w) \<and> length (cw_fracCmfs w) = 3 \<and> (\<forall>t \<in> set (cw_fracCmfs w). cmf_ok 320 t) \<and>
     length (cw_deltaCmfs w) = 9 \<and> (\<forall>t \<in> set (cw_deltaCmfs w). cmf_ok 10 t) \<and> (\<forall>r \<in> set (cw_records w). record_ok r) \<and>
     distinct (cw_contourMap w) \<and> (\<forall>i < 217. 1 \<le> unat (cw_contourMap w ! i) \<and> unat (cw_contourMap w ! i) \<le> 217 \<and> first_ok w i)"

section \<open>Reading laid-out lists\<close>

lemma nth_concat_uniform:
  "(\<forall>xs \<in> set xss. length xs = k) \<Longrightarrow> i < length xss \<Longrightarrow> j < k \<Longrightarrow> concat xss ! (k * i + j) = xss ! i ! j"
proof (induction xss arbitrary: i)
  case (Cons xs xss)
  show ?case
  proof (cases i)
    case 0
    then show ?thesis
      using Cons.prems by (simp add: nth_append)
  next
    case (Suc i')
    then have "concat (xs # xss) ! (k * i + j) = concat xss ! (k * i' + j)"
      using Cons.prems by (simp add: nth_append)
    then show ?thesis
      using Cons.IH [of i'] Cons.prems Suc by simp
  qed
qed simp

lemma length_concat_uniform: "(\<forall>xs \<in> set xss. length xs = k) \<Longrightarrow> length (concat xss) = k * length xss"
  by (induction xss) auto

lemma drop_concat_uniform: "(\<forall>xs \<in> set xss. length xs = k) \<Longrightarrow> i < length xss \<Longrightarrow> drop (k * i) (concat xss) = xss ! i @ drop (k * Suc i) (concat xss)"
proof (induction xss arbitrary: i)
  case (Cons xs xss)
  then show ?case
    by (cases i) auto
qed simp

lemma le_uint16_at: "i < length v \<Longrightarrow> le_uint16 (u16Bytes v) (2 * i) = Some (ucast (v ! i))"
proof -
  assume i: "i < length v"
  have "drop (2 * i) (u16Bytes v) = le16 (ucast (v ! i)) @ drop (2 * Suc i) (u16Bytes v)"
    unfolding u16Bytes_def using drop_concat_uniform [of "map (\<lambda>x. le16 (ucast x)) v" 2 i] i by (simp add: le16_def be16_def)
  then show ?thesis
    by (simp add: le_uint16_def le16_def be16_def join16_split)
qed

lemma le_uint32_at: "i < length v \<Longrightarrow> le_uint32 (concat (map le32 v)) (4 * i) = Some (v ! i)"
proof -
  assume i: "i < length v"
  have "drop (4 * i) (concat (map le32 v)) = le32 (v ! i) @ drop (4 * Suc i) (concat (map le32 v))"
    using drop_concat_uniform [of "map le32 v" 4 i] i by (simp add: le32_def be32_def)
  then show ?thesis
    by (simp add: le_uint32_def le32_def be32_def join32_split)
qed

section \<open>Regions\<close>

lemma unat_base_add: "unat b + k < 4294967296 \<Longrightarrow> unat (b + of_nat k :: u32) = unat b + k"
  by (simp add: unat_add_small unat_of_nat take_bit_nat_eq_self)

lemma regionFor_skip:
  "unat addr < unat (mr_base r) \<or> unat (mr_base r) + length (mr_data r) \<le> unat addr \<Longrightarrow> 0 < n \<Longrightarrow> regionFor (r # rs) addr n = regionFor rs addr n"
  by (auto simp: word_le_nat_alt unat_sub_small)

lemma regionFor_hit:
  "unat addr = unat (mr_base r) + off \<Longrightarrow> off + n \<le> length (mr_data r) \<Longrightarrow> regionFor (r # rs) addr n = Some (mr_data r, off)"
  by (simp add: word_le_nat_alt unat_sub_small)

definition rec_words :: "nat list \<times> nat list \<Rightarrow> u32 list" where
  "rec_words rec = map of_nat (pad8 (fst rec) @ pad8 (snd rec) @ [length (fst rec)])"

definition head_words :: "u32 list" where
  "head_words = [187, memNumContours, memHdrContourMap, memHdrLagCdf, memHdrFracBase] @ memHdrUnused @ [memHdrDeltaCdf]"

definition mem_words :: "contourWindowParts \<Rightarrow> u32 list" where
  "mem_words w = concat (map rec_words (cw_records w)) @ head_words"

lemma first_region: "concat (map mem_record rs) @ mem_header = concat (map le32 (concat (map rec_words rs) @ head_words))"
proof -
  have "concat (map mem_record rs) = concat (map le32 (concat (map rec_words rs)))"
    by (induction rs) (simp_all add: mem_record_def rec_words_def comp_def)
  then show ?thesis
    by (simp add: mem_header_def head_words_def)
qed

lemma length_rec_words: "length (rec_words r) = 17"
  by (simp add: rec_words_def pad8_def)

lemma length_le32s: "length (concat (map le32 v)) = 4 * length v"
  using length_concat_uniform [of "map le32 v" 4] by (simp add: le32_def be32_def)

lemma length_u16Bytes: "length (u16Bytes v) = 2 * length v"
  unfolding u16Bytes_def using length_concat_uniform [of "map (\<lambda>x. le16 (ucast x)) v" 2] by (simp add: le16_def be16_def)

lemma length_mem_words: "window_ok w \<Longrightarrow> length (mem_words w) = 3698"
  using length_concat_uniform [of "map rec_words (cw_records w)" 17]
  by (auto simp: mem_words_def head_words_def memHdrUnused_def window_ok_def length_rec_words)

lemma length_pairs: "length (concat (map (\<lambda>(a, b). [of_nat a, of_nat b :: u8]) ps)) = 2 * length ps"
  by (induction ps) auto

lemma window_tables:
  assumes "window_ok w"
  shows "length (concat (cw_fracCmfs w)) = 960" "length (concat (cw_deltaCmfs w)) = 90" "length (cw_lagCdf w) = 218"
    "length (cw_contourMap w) = 217" "length (cw_firstblockRange w) = 9"
  using assms length_concat_uniform [of "cw_fracCmfs w" 320] length_concat_uniform [of "cw_deltaCmfs w" 10]
  by (auto simp: window_ok_def cmf_ok_def)

lemma mem_bases:
  "unat (memPcfg + 0x1d38) = 12217828" "unat memHdrLagCdf = 12232624" "unat memHdrFracBase = 12233150"
  "unat memHdrDeltaCdf = 12235070" "unat memHdrContourMap = 949264" "unat memDeltaBounds = 950000"
  by (simp_all add: memPcfg_def memGClk_def memHdrLagCdf_def memHdrFracBase_def memHdrDeltaCdf_def memHdrContourMap_def memDeltaBounds_def)

section \<open>Window reads are table lookups\<close>

lemmas window_layout = buildSmplMemFromSeed_def first_region mem_bases length_le32s length_u16Bytes length_pairs length_mem_words window_tables

lemma U32_word:
  assumes "window_ok w" "i < 3698"
  shows "U32 (buildSmplMemFromSeed w) (memPcfg + 0x1d38 + of_nat (4 * i)) = Some (mem_words w ! i)"
proof -
  have "unat (memPcfg + 0x1d38 + of_nat (4 * i)) = 12217828 + 4 * i"
    using assms unat_base_add [of "memPcfg + 0x1d38" "4 * i"] by (simp only: mem_bases)
  then show ?thesis
    using assms le_uint32_at [of i "mem_words w"] length_mem_words [OF assms(1)]
    by (simp add: U32_def window_layout regionFor_hit [where off = "4 * i"] flip: mem_words_def del: regionFor.simps of_nat_mult)
qed

lemma u16_read:
  assumes w: "window_ok w" and i: "i < length v"
    and a: "unat addr = b + 2 * i"
    and b: "b = 12232624 \<and> v = cw_lagCdf w \<or> b = 12233150 \<and> v = concat (cw_fracCmfs w) \<or> b = 12235070 \<and> v = concat (cw_deltaCmfs w)"
  shows "U16 (buildSmplMemFromSeed w) addr = Some (ucast (v ! i))"
proof -
  have l: "regionFor (sm_regions (buildSmplMemFromSeed w)) addr 2 = Some (u16Bytes v, 2 * i)"
    using b
  proof (elim disjE conjE)
    assume "b = 12232624" "v = cw_lagCdf w"
    then show ?thesis
      using a i w by (simp add: window_layout regionFor_skip regionFor_hit [where off = "2 * i"] flip: mem_words_def del: regionFor.simps)
  next
    assume "b = 12233150" "v = concat (cw_fracCmfs w)"
    then show ?thesis
      using a i w by (simp add: window_layout regionFor_skip regionFor_hit [where off = "2 * i"] flip: mem_words_def del: regionFor.simps)
  next
    assume "b = 12235070" "v = concat (cw_deltaCmfs w)"
    then show ?thesis
      using a i w by (simp add: window_layout regionFor_skip regionFor_hit [where off = "2 * i"] flip: mem_words_def del: regionFor.simps)
  qed
  then show ?thesis
    using le_uint16_at [OF i] by (simp add: U16_def)
qed

lemma u8_read:
  assumes w: "window_ok w" and i: "i < length v" and a: "unat addr = b + i"
    and b: "b = 949264 \<and> v = cw_contourMap w \<or> b = 950000 \<and> v = concat (map (\<lambda>(a, b). [of_nat a, of_nat b]) (cw_firstblockRange w)) @ [0, 0]"
  shows "U8 (buildSmplMemFromSeed w) addr = Some (v ! i)"
proof -
  have "regionFor (sm_regions (buildSmplMemFromSeed w)) addr 1 = Some (v, i)"
    using b
  proof (elim disjE conjE)
    assume "b = 949264" "v = cw_contourMap w"
    then show ?thesis
      using a i w by (simp add: window_layout regionFor_skip regionFor_hit [where off = i] flip: mem_words_def del: regionFor.simps)
  next
    assume "b = 950000" "v = concat (map (\<lambda>(a, b). [of_nat a, of_nat b]) (cw_firstblockRange w)) @ [0, 0]"
    then show ?thesis
      using a i w by (simp add: window_layout regionFor_skip regionFor_hit [where off = i] flip: mem_words_def del: regionFor.simps)
  qed
  then show ?thesis
    using i by (simp add: U8_def idx_def)
qed

lemma mem_words_rec: "window_ok w \<Longrightarrow> c < 217 \<Longrightarrow> j < 17 \<Longrightarrow> mem_words w ! (17 * c + j) = rec_words (cw_records w ! c) ! j"
proof -
  assume w: "window_ok w" and c: "c < 217" "j < 17"
  have l: "length (concat (map rec_words (cw_records w))) = 3689" and r: "length (cw_records w) = 217"
    using w length_concat_uniform [of "map rec_words (cw_records w)" 17] by (auto simp: window_ok_def length_rec_words)
  have "17 * c + j < 3689"
    using c by linarith
  then show ?thesis
    using nth_concat_uniform [of "map rec_words (cw_records w)" 17 c j] c by (simp add: mem_words_def nth_append l r length_rec_words)
qed

lemma mem_words_head: "window_ok w \<Longrightarrow> mem_words w ! (3689 + j) = head_words ! j"
  using length_concat_uniform [of "map rec_words (cw_records w)" 17] by (auto simp: mem_words_def nth_append window_ok_def length_rec_words)

lemma window_header:
  assumes "window_ok w"
  shows "I32 (buildSmplMemFromSeed w) (memPcfg + 22240) = Some 217" "U32 (buildSmplMemFromSeed w) (memPcfg + 22244) = Some memHdrContourMap"
    "U32 (buildSmplMemFromSeed w) (memPcfg + 22248) = Some memHdrLagCdf" "U32 (buildSmplMemFromSeed w) (memPcfg + 22252) = Some memHdrFracBase"
    "U32 (buildSmplMemFromSeed w) (memPcfg + 22268) = Some memHdrDeltaCdf"
  using U32_word [OF assms, of "3689 + 1"] U32_word [OF assms, of "3689 + 2"] U32_word [OF assms, of "3689 + 3"] U32_word [OF assms, of "3689 + 4"]
    U32_word [OF assms, of "3689 + 8"]
  unfolding mem_words_head [OF assms]
  by (simp_all add: I32_def head_words_def memHdrUnused_def memNumContours_def add.assoc)

lemma sint_of_nat32: "n < 2147483648 \<Longrightarrow> sint (of_nat n :: u32) = int n"
  by (simp add: signed_take_bit_int_eq_self_iff signed_of_nat)

text \<open>The contour records: blocks, segment lengths and the number of segments.\<close>

lemma window_record:
  assumes w: "window_ok w" and c: "c < 217" and r: "cw_records w ! c = (B, S)"
  shows "seg < length B \<Longrightarrow> I32 (buildSmplMemFromSeed w) (memPcfg + of_nat c * 0x44 + 0x1d38 + of_nat seg * 4) = Some (int (B ! seg))"
    "seg < length B \<Longrightarrow> I32 (buildSmplMemFromSeed w) (memPcfg + of_nat c * 0x44 + 0x1d58 + of_nat seg * 4) = Some (int (S ! seg))"
    "I32 (buildSmplMemFromSeed w) (memPcfg + of_nat c * 0x44 + 0x1d78) = Some (int (length B))"
proof -
  have rin: "(B, S) \<in> set (cw_records w)"
    using w c r nth_mem [of c "cw_records w"] by (simp add: window_ok_def)
  then have "record_ok (B, S)"
    using w by (simp add: window_ok_def)
  then have B: "length S = length B" "length B \<le> 8" "list_all (\<lambda>b. b < 9) B" "sum_list S = 8"
    by (simp_all add: record_ok_def)
  have read: "U32 (buildSmplMemFromSeed w) (memPcfg + of_nat c * 0x44 + 0x1d38 + of_nat (4 * j)) = Some (rec_words (B, S) ! j)" if "j < 17" for j
  proof -
    have a: "memPcfg + 0x1d38 + of_nat (4 * (17 * c + j)) = memPcfg + of_nat c * 0x44 + 0x1d38 + of_nat (4 * j)"
      by (simp add: algebra_simps)
    have "17 * c + j < 3698"
      using c that by linarith
    from U32_word [OF w this] show ?thesis
      unfolding a mem_words_rec [OF w c that] r .
  qed
  have B9: "B ! seg < 2147483648" if "seg < length B" for seg
    using that B(3) by (auto simp: list_all_length intro: order.strict_trans [of _ 9])
  have S: "S ! seg \<le> 8" if "seg < length B" for seg
    using that B elem_le_sum_list [of seg S] by simp
  show "seg < length B \<Longrightarrow> I32 (buildSmplMemFromSeed w) (memPcfg + of_nat c * 0x44 + 0x1d38 + of_nat seg * 4) = Some (int (B ! seg))"
    using read [of seg] B(1,2) B9 [of seg] by (simp add: I32_def rec_words_def pad8_def nth_append sint_of_nat32 mult.commute)
  show "seg < length B \<Longrightarrow> I32 (buildSmplMemFromSeed w) (memPcfg + of_nat c * 0x44 + 0x1d58 + of_nat seg * 4) = Some (int (S ! seg))"
    using read [of "8 + seg"] B S [of seg] by (simp add: I32_def rec_words_def pad8_def nth_append sint_of_nat32 algebra_simps)
  show "I32 (buildSmplMemFromSeed w) (memPcfg + of_nat c * 0x44 + 0x1d78) = Some (int (length B))"
    using read [of 16] B by (simp add: I32_def rec_words_def pad8_def nth_append sint_of_nat32 algebra_simps)
qed

text \<open>Cumulative tables.\<close>

lemma map_go_Some: "(\<And>x. x \<in> set xs \<Longrightarrow> f x = Some (g x)) \<Longrightarrow> map_go f xs = Some (map g xs)"
  by (induction xs) auto

definition cdf16 :: "u32 list \<Rightarrow> nat \<Rightarrow> nat \<Rightarrow> u16 list" where
  "cdf16 t a n = map (\<lambda>i. ucast (t ! (a + i))) [0..<n]"

lemma CDFAt_table:
  assumes w: "window_ok w" and n: "a + n \<le> length v" and adr: "unat addr = b + 2 * a" and b: "b + 2 * length v < 4294967296"
    and v: "b = 12232624 \<and> v = cw_lagCdf w \<or> b = 12233150 \<and> v = concat (cw_fracCmfs w) \<or> b = 12235070 \<and> v = concat (cw_deltaCmfs w)"
  shows "CDFAt (buildSmplMemFromSeed w) addr n = Some (cdf16 v a n)"
  unfolding CDFAt_def cdf16_def
proof (rule map_go_Some)
  fix i
  assume i: "i \<in> set [0..<n]"
  have "unat (addr + of_nat (2 * i)) = unat addr + 2 * i"
    using i n adr b by (intro unat_base_add) simp
  then have "unat (addr + of_nat i * 2) = b + 2 * (a + i)"
    using adr by (simp add: mult.commute)
  then show "U16 (buildSmplMemFromSeed w) (addr + of_nat i * 2) = Some (ucast (v ! (a + i)))"
    using i n by (intro u16_read [OF w _ _ v]) simp_all
qed

lemma CDFAt_lag:
  assumes w: "window_ok w" and n: "a + n \<le> 218"
  shows "CDFAt (buildSmplMemFromSeed w) (memHdrLagCdf + of_nat a * 2) n = Some (cdf16 (cw_lagCdf w) a n)"
proof (rule CDFAt_table [OF w])
  show "unat (memHdrLagCdf + of_nat a * 2) = 12232624 + 2 * a"
    using unat_base_add [of memHdrLagCdf "2 * a"] n by (simp add: mem_bases mult.commute)
qed (use n window_tables [OF w] in simp_all)

lemma nth_frac: "window_ok w \<Longrightarrow> md < 3 \<Longrightarrow> a + n \<le> 320 \<Longrightarrow> cdf16 (concat (cw_fracCmfs w)) (320 * md + a) n = cdf16 (cw_fracCmfs w ! md) a n"
  using nth_concat_uniform [of "cw_fracCmfs w" 320 md] by (auto simp: cdf16_def window_ok_def cmf_ok_def add.assoc)

lemma nth_delta: "window_ok w \<Longrightarrow> b < 9 \<Longrightarrow> cdf16 (concat (cw_deltaCmfs w)) (10 * b) 10 = cdf16 (cw_deltaCmfs w ! b) 0 10"
  using nth_concat_uniform [of "cw_deltaCmfs w" 10 b] by (auto simp: cdf16_def window_ok_def cmf_ok_def)

lemma CDFAt_frac:
  assumes w: "window_ok w" and md: "md < 3" and n: "a + n \<le> 320"
  shows "CDFAt (buildSmplMemFromSeed w) (memHdrFracBase + of_nat md * 0x280 + of_nat (2 * a)) n = Some (cdf16 (cw_fracCmfs w ! md) a n)"
  unfolding nth_frac [OF w md n, symmetric]
proof (rule CDFAt_table [OF w])
  have "memHdrFracBase + of_nat md * 0x280 + of_nat (2 * a) = memHdrFracBase + of_nat (2 * (320 * md + a))"
    by (simp add: algebra_simps)
  moreover have "12233150 + 2 * (320 * md + a) < 4294967296"
  proof -
    have "2 * (320 * md + a) \<le> 2 * (320 * 2 + 320)"
      using n md by (intro mult_le_mono add_le_mono) simp_all
    then show ?thesis
      by simp
  qed
  ultimately show "unat (memHdrFracBase + of_nat md * 0x280 + of_nat (2 * a)) = 12233150 + 2 * (320 * md + a)"
    using unat_base_add [of memHdrFracBase "2 * (320 * md + a)"] by (simp only: mem_bases)
  show "320 * md + a + n \<le> length (concat (cw_fracCmfs w))"
    using window_tables [OF w] md n by linarith
qed (use window_tables [OF w] in simp_all)

lemma CDFAt_delta:
  assumes w: "window_ok w" and b: "b < 9"
  shows "CDFAt (buildSmplMemFromSeed w) (memHdrDeltaCdf + of_nat b * 20) 10 = Some (cdf16 (cw_deltaCmfs w ! b) 0 10)"
  unfolding nth_delta [OF w b, symmetric]
proof (rule CDFAt_table [OF w])
  have "memHdrDeltaCdf + of_nat b * 20 = memHdrDeltaCdf + of_nat (2 * (10 * b))"
    by (simp add: algebra_simps)
  then show "unat (memHdrDeltaCdf + of_nat b * 20) = 12235070 + 2 * (10 * b)"
    using unat_base_add [of memHdrDeltaCdf "2 * (10 * b)"] b by (simp only: mem_bases)
qed (use window_tables [OF w] b in simp_all)

text \<open>The first-block bounds and the contour search.\<close>

lemma window_bounds:
  assumes w: "window_ok w" and b: "b < 9" and r: "cw_firstblockRange w ! b = (lo, hi)"
  shows "U8 (buildSmplMemFromSeed w) (0xe7ef0 + of_nat b * 2) = Some (of_nat lo)"
    "U8 (buildSmplMemFromSeed w) (0xe7ef0 + of_nat b * 2 + 1) = Some (of_nat hi)"
proof -
  define v where "v = concat (map (\<lambda>(a, b). [of_nat a, of_nat b :: u8]) (cw_firstblockRange w)) @ [0, 0]"
  have lv: "length v = 20" and l9: "length (cw_firstblockRange w) = 9"
    using window_tables [OF w] by (simp_all add: v_def length_pairs)
  have nth: "v ! (2 * b + j) = [of_nat lo, of_nat hi] ! j" if "j < 2" for j
    using nth_concat_uniform [of "map (\<lambda>(a, b). [of_nat a, of_nat b :: u8]) (cw_firstblockRange w)" 2 b j] b that r l9
    by (simp add: v_def nth_append length_pairs split: prod.split)
  have u: "unat (0xe7ef0 + of_nat (2 * b + j) :: u32) = 950000 + (2 * b + j)" if "j < 2" for j
    using unat_base_add [of "0xe7ef0" "2 * b + j"] that b by simp
  have "U8 (buildSmplMemFromSeed w) (0xe7ef0 + of_nat (2 * b + j)) = Some (v ! (2 * b + j))" if "j < 2" for j
    by (rule u8_read [OF w _ u [OF that]]) (use that b lv v_def in auto)
  from this [of 0] this [of 1] show "U8 (buildSmplMemFromSeed w) (0xe7ef0 + of_nat b * 2) = Some (of_nat lo)"
    "U8 (buildSmplMemFromSeed w) (0xe7ef0 + of_nat b * 2 + 1) = Some (of_nat hi)"
    using nth [of 0] nth [of 1] by (simp_all add: algebra_simps)
qed

lemma window_contour: "window_ok w \<Longrightarrow> i < 217 \<Longrightarrow> U8 (buildSmplMemFromSeed w) (memHdrContourMap + of_nat i) = Some (cw_contourMap w ! i)"
  using unat_base_add [of memHdrContourMap i] by (intro u8_read) (auto simp: mem_bases window_tables)

lemma find_contour_hit:
  assumes w: "window_ok w" and c: "c < 217"
  shows "find_contour (buildSmplMemFromSeed w) memHdrContourMap (uint (cw_contourMap w ! c)) [0..<217] = Some (int c)"
proof -
  have d: "cw_contourMap w ! i \<noteq> cw_contourMap w ! c" if "i < c" for i
    using w c that by (simp add: window_ok_def nth_eq_iff_index_eq)
  have "find_contour (buildSmplMemFromSeed w) memHdrContourMap (uint (cw_contourMap w ! c)) [k..<217] = Some (int c)" if "k \<le> c" for k
    using that
  proof (induction "c - k" arbitrary: k)
    case 0
    then have "[k..<217] = c # [Suc c..<217]"
      using c by (simp add: upt_conv_Cons)
    then show ?case
      using window_contour [OF w c] by simp
  next
    case (Suc n)
    then have k: "k < c" "k < 217"
      using c by auto
    then have "[k..<217] = k # [Suc k..<217]"
      by (simp add: upt_conv_Cons)
    moreover have "find_contour (buildSmplMemFromSeed w) memHdrContourMap (uint (cw_contourMap w ! c)) [Suc k..<217] = Some (int c)"
      using Suc k by (intro Suc.hyps(1)) auto
    ultimately show ?case
      using window_contour [OF w k(2)] d [OF k(1)] by (simp add: word_uint_eq_iff)
  qed
  then show ?thesis
    by simp
qed

end
