(* ===== verification/Mlow_Pitch_Roundtrip.thy ===== *)
theory Mlow_Pitch_Roundtrip
  imports Mlow_Roundtrip Mlow_Window
begin

unbundle bit_operations_syntax

text \<open>
  What \<open>encodeSmplPitch\<close> writes from the pitch tables, \<open>DecodeSmplPitch\<close> reads back through the heap window. Encoder and
  decoder keep their predictors in different fields of the state; \<open>in_sync\<close> relates them.
\<close>

section \<open>Encoders that return a value\<close>

definition pcodes :: "(RangeEncoder \<Rightarrow> ('b \<times> RangeEncoder) go) \<Rightarrow> (RangeDecoder \<Rightarrow> ('a \<times> RangeDecoder) go) \<Rightarrow> 'b \<Rightarrow> 'a \<Rightarrow> bool" where
  "pcodes E D b s \<longleftrightarrow> (\<exists>E'. codes E' D s \<and> (\<forall>e. E e = map_option (Pair b) (E' e)))"

lemma pcodesI: "codes E D s \<Longrightarrow> pcodes (\<lambda>e. E e \<bind> (\<lambda>e. Some (b, e))) D b s"
  unfolding pcodes_def by (rule exI [of _ E]) (auto split: Option.bind_split)

lemma pcodes_return: "pcodes (\<lambda>e. Some (b, e)) (\<lambda>d. Some (s, d)) b s"
  using pcodesI [OF codes_return] by simp

lemma pcodes_bind:
  assumes 1: "pcodes E1 D1 b1 s1" and 2: "pcodes (E2 b1) (D2 s1) b2 s2"
  shows "pcodes (\<lambda>e. E1 e \<bind> (\<lambda>(b, e). E2 b e)) (\<lambda>d. D1 d \<bind> (\<lambda>(s, d). D2 s d)) b2 s2"
proof -
  obtain F1 F2 where F: "codes F1 D1 s1" "\<And>e. E1 e = map_option (Pair b1) (F1 e)" "codes F2 (D2 s1) s2" "\<And>e. E2 b1 e = map_option (Pair b2) (F2 e)"
    using 1 2 unfolding pcodes_def by blast
  have "codes (\<lambda>e. F1 e \<bind> F2) (\<lambda>d. D1 d \<bind> (\<lambda>(s, d). D2 s d)) s2"
    by (rule codes_bind [OF F(1)]) (rule F(3))
  moreover have "E1 e \<bind> (\<lambda>(b, e). E2 b e) = map_option (Pair b2) (F1 e \<bind> F2)" for e
    by (cases "F1 e") (simp_all add: F)
  ultimately show ?thesis
    unfolding pcodes_def by blast
qed

lemma pcodes_seq: "codes E1 D1 s1 \<Longrightarrow> pcodes E2 (D2 s1) b s2 \<Longrightarrow> pcodes (\<lambda>e. E1 e \<bind> E2) (\<lambda>d. D1 d \<bind> (\<lambda>(s, d). D2 s d)) b s2"
  using pcodes_bind [OF pcodesI [of E1 D1 s1 "()"], of "\<lambda>_. E2" D2 b s2] by (simp add: bind_assoc [abs_def] cong: Option.bind_cong)

lemma pcodes_then: "pcodes E D b s \<Longrightarrow> pcodes (\<lambda>e. E e \<bind> (\<lambda>(b, e). Some (g b, e))) (\<lambda>d. D d \<bind> (\<lambda>(s, d). Some (f s, d))) (g b) (f s)"
  using pcodes_bind [OF _ pcodes_return, of E D b s "\<lambda>b. g b" "\<lambda>s. f s"] by simp

lemma pcodes_codes: "pcodes E D b s \<Longrightarrow> codes (\<lambda>e. E e \<bind> (\<lambda>(b, e). Some e)) D s"
proof -
  assume "pcodes E D b s"
  then obtain E' where "codes E' D s" "\<And>e. E e = map_option (Pair b) (E' e)"
    unfolding pcodes_def by blast
  then show ?thesis
    by (auto intro!: codes_cong [of E' D s] simp: map_option_case split: option.split)
qed

section \<open>Gains and filters\<close>

type_synonym gain_row = "int \<times> int \<times> int"

definition row_filt :: "gain_row \<Rightarrow> int \<Rightarrow> int" where
  "row_filt r prev = (case r of (cnt, gi, fi) \<Rightarrow> if cnt > 0 then fi else prev)"

fun rows_ok :: "CcTables \<Rightarrow> gain_row list \<Rightarrow> int \<Rightarrow> int \<Rightarrow> bool" where
  "rows_ok cc [] pg pf = True"
| "rows_ok cc ((cnt, gi, fi) # r) pg pf =
     ((case acb_row cc 0 pg of None \<Rightarrow> False | Some row \<Rightarrow> sym_of row gi) \<and> acb_weights cc 0 gi \<noteq> None \<and>
      (cnt > 0 \<longrightarrow> (case filt_cdf cc pf of None \<Rightarrow> False | Some cdf \<Rightarrow> sym_of cdf fi)) \<and>
      rows_ok cc r gi (row_filt (cnt, gi, fi) pf))"

fun rows_acc :: "CcTables \<Rightarrow> gain_row list \<Rightarrow> int \<Rightarrow> int" where
  "rows_acc cc [] acc = acc"
| "rows_acc cc ((cnt, gi, fi) # r) acc = rows_acc cc r (acc + (case acb_weights cc 0 gi of Some (w0, w2) \<Rightarrow> w0 + 2 * w2 | None \<Rightarrow> 0))"

fun rows_end :: "gain_row list \<Rightarrow> SmplLsfState \<Rightarrow> SmplLsfState" where
  "rows_end [] st = st"
| "rows_end ((cnt, gi, fi) # r) st = rows_end r (st\<lparr>PrevGainIdx := gi, PrevFiltIdx := row_filt (cnt, gi, fi) (PrevFiltIdx st)\<rparr>)"

definition gains_read :: "gain_row list \<Rightarrow> int list \<times> int list" where
  "gains_read rows = (map (\<lambda>(cnt, gi, fi). gi) rows, map (\<lambda>(cnt, gi, fi). if cnt > 0 then fi else - 1) rows)"

lemma pcodes_gains:
  assumes "rows_ok cc rows (PrevGainIdx se) (PrevFiltIdx se)" "PrevGainIdx sd = PrevGainIdx se" "PrevFiltIdx sd = PrevFiltIdx se"
  shows "pcodes (enc_gains cc 0 rows acc se) (dec_gains cc 0 (map fst rows) acc sd) (rows_acc cc rows acc, rows_end rows se)
    (fst (gains_read rows), snd (gains_read rows), rows_acc cc rows acc, rows_end rows sd)"
  using assms
proof (induction rows arbitrary: acc se sd)
  case Nil
  then show ?case
    using pcodes_return by (simp add: gains_read_def)
next
  case (Cons r rows)
  obtain cnt gi fi where r: "r = (cnt, gi, fi)"
    by (cases r)
  obtain row w0 w2 where k: "acb_row cc 0 (PrevGainIdx se) = Some row" "sym_of row gi" "acb_weights cc 0 gi = Some (w0, w2)"
    using Cons.prems(1) r by (auto split: option.split_asm)
  define te where "te = se\<lparr>PrevGainIdx := gi\<rparr>"
  define td where "td = sd\<lparr>PrevGainIdx := gi\<rparr>"
  define ue where "ue = te\<lparr>PrevFiltIdx := row_filt r (PrevFiltIdx se)\<rparr>"
  define ud where "ud = td\<lparr>PrevFiltIdx := row_filt r (PrevFiltIdx sd)\<rparr>"
  have gi: "int (nat gi) = gi"
    using k(2) by (simp add: sym_of_def)
  have filt: "pcodes (\<lambda>e. if cnt > 0 then filt_cdf cc (PrevFiltIdx te) \<bind> (\<lambda>cdf. EncodeCDF fi cdf e \<bind> (\<lambda>e. Some (te\<lparr>PrevFiltIdx := fi\<rparr>, e))) else Some (te, e))
      (\<lambda>d. (if cnt > 0 then filt_cdf cc (PrevFiltIdx td) \<bind> (\<lambda>cdf. DecodeCDF cdf d \<bind> (\<lambda>(f, d). Some (int f, td\<lparr>PrevFiltIdx := int f\<rparr>, d)))
        else Some (- 1, td, d)) \<bind> (\<lambda>(fi, st, d). Some ((fi, st), d))) ue ((if cnt > 0 then fi else - 1), ud)"
  proof (cases "cnt > 0")
    case True
    then obtain cdf where c: "filt_cdf cc (PrevFiltIdx se) = Some cdf" "sym_of cdf fi"
      using Cons.prems(1) r by (auto split: option.split_asm)
    have "int (nat fi) = fi"
      using c(2) by (simp add: sym_of_def)
    moreover have "pcodes (\<lambda>e. EncodeCDF fi cdf e \<bind> (\<lambda>e. Some (ue, e))) (\<lambda>d. DecodeCDF cdf d \<bind> (\<lambda>(f, d). Some ((int f, td\<lparr>PrevFiltIdx := int f\<rparr>), d))) ue
        (int (nat fi), td\<lparr>PrevFiltIdx := int (nat fi)\<rparr>)"
      by (rule pcodesI [OF codes_then [OF codes_sym_of [OF c(2)], of "\<lambda>f. (int f, td\<lparr>PrevFiltIdx := int f\<rparr>)"]])
    ultimately show ?thesis
      using True c Cons.prems(3) r by (simp add: te_def td_def ue_def ud_def row_filt_def split_def)
  next
    case False
    then show ?thesis
      using pcodes_return r by (simp add: te_def td_def ue_def ud_def row_filt_def)
  qed
  have IH: "pcodes (enc_gains cc 0 rows (acc + (w0 + 2 * w2)) ue) (dec_gains cc 0 (map fst rows) (acc + (w0 + 2 * w2)) ud)
      (rows_acc cc rows (acc + (w0 + 2 * w2)), rows_end rows ue)
      (fst (gains_read rows), snd (gains_read rows), rows_acc cc rows (acc + (w0 + 2 * w2)), rows_end rows ud)"
    using Cons.prems r k by (intro Cons.IH) (auto simp: te_def td_def ue_def ud_def row_filt_def)
  define D2 where "D2 = (\<lambda>k d. acb_weights cc 0 (int k) \<bind> (\<lambda>(w0, w2).
      (if cnt > 0 then filt_cdf cc (PrevFiltIdx sd) \<bind> (\<lambda>cdf. DecodeCDF cdf d \<bind> (\<lambda>(f, d). Some (int f, sd\<lparr>PrevGainIdx := int k, PrevFiltIdx := int f\<rparr>, d)))
        else Some (- 1, sd\<lparr>PrevGainIdx := int k\<rparr>, d)) \<bind> (\<lambda>(fi, st, d).
      dec_gains cc 0 (map fst rows) (acc + (w0 + 2 * w2)) st d \<bind> (\<lambda>((gis, fis, acc, st), d). Some ((int k # gis, fi # fis, acc, st), d)))))"
  have tail: "pcodes (\<lambda>e. (if cnt > 0 then filt_cdf cc (PrevFiltIdx te) \<bind> (\<lambda>cdf. EncodeCDF fi cdf e \<bind> (\<lambda>e. Some (te\<lparr>PrevFiltIdx := fi\<rparr>, e))) else Some (te, e)) \<bind>
        (\<lambda>(st, e). enc_gains cc 0 rows (acc + (w0 + 2 * w2)) st e))
      (D2 (nat gi)) (rows_acc cc rows (acc + (w0 + 2 * w2)), rows_end rows ue)
      (gi # fst (gains_read rows), (if cnt > 0 then fi else - 1) # snd (gains_read rows), rows_acc cc rows (acc + (w0 + 2 * w2)), rows_end rows ud)"
  proof -
    define D3 where "D3 = (\<lambda>(fi, st) d. dec_gains cc 0 (map fst rows) (acc + (w0 + 2 * w2)) st d \<bind>
        (\<lambda>((gis, fis, acc, st), d). Some ((gi # gis, fi # fis, acc, st), d)))"
    have 3: "pcodes (enc_gains cc 0 rows (acc + (w0 + 2 * w2)) ue) (D3 ((if cnt > 0 then fi else - 1), ud))
        (rows_acc cc rows (acc + (w0 + 2 * w2)), rows_end rows ue)
        (gi # fst (gains_read rows), (if cnt > 0 then fi else - 1) # snd (gains_read rows), rows_acc cc rows (acc + (w0 + 2 * w2)), rows_end rows ud)"
      using pcodes_then [OF IH, of "\<lambda>x. x" "\<lambda>(gis, fis, acc, st). (gi # gis, (if cnt > 0 then fi else - 1) # fis, acc, st)"]
      by (simp add: D3_def split_def)
    have 2: "D2 (nat gi) = (\<lambda>d. ((if cnt > 0 then filt_cdf cc (PrevFiltIdx td) \<bind> (\<lambda>cdf. DecodeCDF cdf d \<bind> (\<lambda>(f, d). Some (int f, td\<lparr>PrevFiltIdx := int f\<rparr>, d)))
        else Some (- 1, td, d)) \<bind> (\<lambda>(fi, st, d). Some ((fi, st), d))) \<bind> (\<lambda>(s, d). D3 s d))"
      unfolding D2_def D3_def gi k(3) by (rule ext) (simp add: td_def split_def)
    show ?thesis
      unfolding 2 by (rule pcodes_bind [OF filt]) (rule 3)
  qed
  have "pcodes (\<lambda>e. EncodeCDF gi row e \<bind> (\<lambda>e. (if cnt > 0 then filt_cdf cc (PrevFiltIdx te) \<bind> (\<lambda>cdf. EncodeCDF fi cdf e \<bind> (\<lambda>e. Some (te\<lparr>PrevFiltIdx := fi\<rparr>, e))) else Some (te, e)) \<bind>
        (\<lambda>(st, e). enc_gains cc 0 rows (acc + (w0 + 2 * w2)) st e)))
      (\<lambda>d. DecodeCDF row d \<bind> (\<lambda>(k, d). D2 k d)) (rows_acc cc rows (acc + (w0 + 2 * w2)), rows_end rows ue)
      (gi # fst (gains_read rows), (if cnt > 0 then fi else - 1) # snd (gains_read rows), rows_acc cc rows (acc + (w0 + 2 * w2)), rows_end rows ud)"
    by (rule pcodes_seq [OF codes_sym_of [OF k(2)]]) (rule tail)
  then show ?case
    using k Cons.prems(2,3) by (simp add: r gains_read_def D2_def te_def td_def ue_def ud_def row_filt_def Let_def cong: if_cong)
qed

section \<open>Cumulative tables of either width\<close>

lemma ucast_ucast16: "x < 65536 \<Longrightarrow> ucast (ucast x :: u16) = x" for x :: u32
proof -
  assume "x < 65536"
  then have "take_bit 16 x = x"
    by (intro take_bit_word_small) (simp add: word_less_nat_alt)
  moreover have "ucast (ucast x :: u16) = take_bit 16 x"
    by (rule bit_word_eqI) (auto simp: bit_simps)
  ultimately show ?thesis
    by simp
qed

lemma cdf16_nth: "cmf_ok N t \<Longrightarrow> a + n \<le> N \<Longrightarrow> i < n \<Longrightarrow> ucast (cdf16 t a n ! i) = t ! (a + i)"
  by (simp add: cdf16_def cmf_ok_def ucast_ucast16)

lemma cdf16_sorted:
  assumes t: "cmf_ok N t" and n: "a + n \<le> N"
  shows "sorted_wrt (<) (cdf16 t a n)"
  unfolding sorted_wrt_iff_nth_less
proof (intro allI impI)
  fix i j
  assume ij: "i < j" "j < length (cdf16 t a n)"
  then have j: "j < n"
    by (simp add: cdf16_def)
  have "t ! (a + i) < t ! (a + j)"
    using t n ij j by (intro sorted_wrt_nth_less) (auto simp: cmf_ok_def)
  then have "(ucast (cdf16 t a n ! i) :: u32) < ucast (cdf16 t a n ! j)"
    using cdf16_nth [OF t n] ij j by simp
  then show "cdf16 t a n ! i < cdf16 t a n ! j"
    by (simp add: word_less_nat_alt unat_ucast16)
qed

text \<open>A window of a 32-bit table on the encoder's side is the same 16-bit table on the decoder's.\<close>

lemma codes_table:
  assumes t: "cmf_ok N t" and n: "a + n \<le> N" and k: "k + 1 < n"
  shows "codes (Encode (t ! (a + k) - t ! a) (t ! (a + k + 1) - t ! a) (t ! (a + n - 1) - t ! a)) (DecodeCDF (cdf16 t a n)) k"
proof -
  have l: "length (cdf16 t a n) = n"
    by (simp add: cdf16_def)
  have c: "codes (EncodeCDF (int k) (cdf16 t a n)) (DecodeCDF (cdf16 t a n)) k"
    using k l by (intro codes_CDF sorted_cdf_ok cdf16_sorted [OF t n]) simp
  have h: "hd (cdf16 t a n) = cdf16 t a n ! 0" "last (cdf16 t a n) = cdf16 t a n ! (n - 1)"
    using k l by (simp_all add: hd_conv_nth last_conv_nth flip: length_greater_0_conv)
  have "t ! a < t ! (a + n - 1)"
    using t n k sorted_wrt_nth_less [of "(<)" t a "a + n - 1"] by (auto simp: cmf_ok_def)
  then have "\<not> t ! (a + n - 1) \<le> t ! a" "a + n - 1 = a + (n - 1)"
    using k by auto
  then have "EncodeCDF (int k) (cdf16 t a n) e =
      Encode (t ! (a + k) - t ! a) (t ! (a + k + 1) - t ! a) (t ! (a + n - 1) - t ! a) e" for e
    using k l cdf16_nth [OF t n, of 0] cdf16_nth [OF t n, of k] cdf16_nth [OF t n, of "Suc k"] cdf16_nth [OF t n, of "n - 1"]
    by (simp add: EncodeCDF_def h Let_def nat_add_distrib)
  then show ?thesis
    using c by (auto intro: codes_cong)
qed

lemma codes_table0:
  assumes t: "cmf_ok N t" and n: "n \<le> N" and k: "k + 1 < n"
  shows "codes (Encode (t ! k) (t ! (k + 1)) (t ! (n - 1))) (DecodeCDF (cdf16 t 0 n)) k"
  using codes_table [OF t, of 0 n k] assms by (simp add: cmf_ok_def)

section \<open>Which table set belongs to a window\<close>

definition tables_of :: "contourWindowParts \<Rightarrow> PitchTables \<Rightarrow> bool" where
  "tables_of w tab \<longleftrightarrow> Blocksegs tab = map (\<lambda>(B, S). \<lparr>bs_Nblocks = length B, bs_Blocks = B, bs_Seglens = S\<rparr>) (cw_records w) \<and>
     Blocksegs2idx tab = map unat (cw_contourMap w) \<and> BlocksegIdxCmf tab = cw_lagCdf w \<and> DeltaLagCmfs tab = cw_fracCmfs w \<and>
     FirstblockRange tab = cw_firstblockRange w \<and> BlockTransitionCmf tab = cw_deltaCmfs w"

lemma decode_pairs_length: "decode_pairs n d = Some (ps, d') \<Longrightarrow> length ps = n"
  by (induction n arbitrary: d ps) (auto split: Option.bind_split_asm)

lemma decodeBlockseg_lengths: "decodeBlockseg d = Some (b, d') \<Longrightarrow> bs_Nblocks b = length (bs_Blocks b)"
  by (auto simp: decodeBlockseg_def Let_def dest!: decode_pairs_length split: Option.bind_split_asm)

lemma decode_blocksegs_lengths: "decode_blocksegs n d = Some bs \<Longrightarrow> \<forall>b \<in> set bs. bs_Nblocks b = length (bs_Blocks b)"
proof (induction n arbitrary: d bs)
  case (Suc n)
  then show ?case
    by (auto dest!: decodeBlockseg_lengths split: Option.bind_split_asm)
qed simp

lemma tables_of_seed:
  assumes "buildContourWindow s = Some w" "buildPitchTablesFromSeed s = Some tab"
  shows "tables_of w tab"
proof -
  obtain d bs where d: "NewRangeDecoder (ps_blocksegsBitstream s) = Some d" "decode_blocksegs pitchNumBlocksegs d = Some bs"
    using assms by (auto simp: buildContourWindow_def split: Option.bind_split_asm)
  have "b = \<lparr>bs_Nblocks = length (bs_Blocks b), bs_Blocks = bs_Blocks b, bs_Seglens = bs_Seglens b\<rparr>" if "b \<in> set bs" for b
    using decode_blocksegs_lengths [OF d(2)] that by simp
  then have "map (\<lambda>b. \<lparr>bs_Nblocks = length (bs_Blocks b), bs_Blocks = bs_Blocks b, bs_Seglens = bs_Seglens b\<rparr>) bs = bs"
    by (intro map_idI) simp
  then show ?thesis
    using assms d by (auto simp: tables_of_def buildContourWindow_def buildPitchTablesFromSeed_def comp_def Let_def split: Option.bind_split_asm)
qed

section \<open>Lags\<close>

text \<open>The lag indices are constant along each segment and lie in the segment's block.\<close>

fun seg_lags :: "nat list \<Rightarrow> nat list \<Rightarrow> int list \<Rightarrow> bool" where
  "seg_lags (b # B) (s # S) ls \<longleftrightarrow> 1 \<le> s \<and> s \<le> length ls \<and> take s ls = replicate s (hd ls) \<and> 64 * int b \<le> hd ls \<and> hd ls < 64 * int b + 64 \<and>
     seg_lags B S (drop s ls)"
| "seg_lags [] [] ls \<longleftrightarrow> ls = []"
| "seg_lags _ _ _ \<longleftrightarrow> False"

lemma put_lags_w: "lo_w (put_lags s v out) = lo_w out + s"
  by (induction s v out rule: put_lags.induct) simp_all

lemma put_lags_blk:
  "lo_w out + s \<le> length (lo_blk out) \<Longrightarrow> lo_blk (put_lags s v out) = take (lo_w out) (lo_blk out) @ replicate s v @ drop (lo_w out + s) (lo_blk out)"
proof (induction s v out rule: put_lags.induct)
  case (2 n v out)
  have "take (Suc (lo_w out)) ((lo_blk out)[lo_w out := v]) = take (lo_w out) (lo_blk out) @ [v]"
    using 2(2) by (simp add: take_Suc_conv_app_nth)
  then show ?case
    using 2 by simp
qed simp

lemma enc_segs_Suc:
  assumes "idx (bs_Blocks seg) k = Some b" "idx laginds lix = Some l" "idx (bs_Seglens seg) k = Some s"
    "length cmf = 320" "- 127 \<le> 64 * int b - pi" "64 * int b - pi \<le> 128" "64 * int b \<le> l" "l < 64 * int b + 64" "a = nat (64 * int b - pi + 127)"
  shows "enc_segs cmf seg laginds (Suc n) k lix pb pi =
    (\<lambda>e. Encode (cmf ! (a + nat (l - 64 * int b)) - cmf ! a) (cmf ! (a + nat (l - 64 * int b) + 1) - cmf ! a) (cmf ! (a + 65 - 1) - cmf ! a) e \<bind>
      enc_segs cmf seg laginds n (k + 1) (lix + s) (int b) l)"
proof -
  have i: "idx_int cmf (int a + j) = Some (cmf ! (a + nat j))" if "0 \<le> j" "j \<le> 64" for j
    using assms that by (auto simp: idx_int_def idx_def nat_add_distrib)
  have a: "int a = 64 * int b - pi + 127"
    using assms by simp
  have n1: "nat (1 + l - int b * 64) = Suc (nat (l - 64 * int b))"
    using assms(7) by linarith
  have r: "idx_int cmf (127 + int b * 64 - pi) = Some (cmf ! a)" "idx_int cmf (l + 127 - pi) = Some (cmf ! (a + nat (l - 64 * int b)))"
    "idx_int cmf (l + 128 - pi) = Some (cmf ! Suc (a + nat (l - 64 * int b)))" "idx_int cmf (191 + int b * 64 - pi) = Some (cmf ! (a + 64))"
    using assms(7,8) i [of 0] i [of "l - 64 * int b"] i [of "l - 64 * int b + 1"] i [of 64] n1 by (simp_all add: a algebra_simps)
  show ?thesis
    using assms(1-3) by (rule_tac ext) (simp add: Let_def pitchBlocksize_def algebra_simps r [simplified algebra_simps])
qed

lemma window_of_record:
  assumes "window_ok w" "c < 217" "cw_records w ! c = (B, S)"
  shows "record_ok (B, S)"
  using assms nth_mem [of c "cw_records w"] by (auto simp: window_ok_def)

lemma frac_cmf_ok: "window_ok w \<Longrightarrow> md < 3 \<Longrightarrow> cmf_ok 320 (cw_fracCmfs w ! md)"
  by (simp add: window_ok_def)

definition seg_next :: "nat \<Rightarrow> nat \<Rightarrow> nat \<Rightarrow> int \<Rightarrow> FracState \<Rightarrow> FracState" where
  "seg_next seg b s l f = \<lparr>fs_l2 = int b, fs_l3 = l, fs_out = put_lags s l (fs_out f), fs_samp = (fs_samp f)[seg := l],
     fs_st = (fs_st f)\<lparr>PrevFracLag := l, PrevLag := int b\<rparr>\<rparr>"

lemma dec_segs_Suc:
  assumes w: "window_ok w" and c: "c < 217" "cw_records w ! c = (B, S)" and md: "md < 3" and k: "k < length B"
    and f: "fs_l3 f = pi" "PrevFracLag (fs_st f) = pi" and r: "- 127 \<le> 64 * int (B ! k) - pi" "64 * int (B ! k) - pi \<le> 128"
    and a: "a = nat (64 * int (B ! k) - pi + 127)"
  shows "dec_segs (buildSmplMemFromSeed w) (memPcfg + of_nat c * 0x44) (memHdrFracBase + of_nat md * 0x280) (Suc n) k f =
    (\<lambda>d. DecodeCDF (cdf16 (cw_fracCmfs w ! md) a 65) d \<bind> (\<lambda>(i, d).
      dec_segs (buildSmplMemFromSeed w) (memPcfg + of_nat c * 0x44) (memHdrFracBase + of_nat md * 0x280) n (k + 1)
        (seg_next k (B ! k) (S ! k) (64 * int (B ! k) + int i) f) d))"
proof -
  have nl: "push_bit 6 (fs_l2 f) - pi + push_bit 6 (int (B ! k) - fs_l2 f) = 64 * int (B ! k) - pi"
    by (simp add: push_bit_eq_mult algebra_simps)
  have "of_int ((64 * int (B ! k) - pi) * 2) + 0xfe = (of_int (int (2 * a)) :: u32)"
  proof -
    have "int (2 * a) = (64 * int (B ! k) - pi) * 2 + 0xfe"
      using a r by simp
    then show ?thesis
      by (simp only: of_int_add) simp
  qed
  then have adr: "memHdrFracBase + of_nat md * 0x280 + of_int ((64 * int (B ! k) - pi) * 2) + 0xfe = memHdrFracBase + of_nat md * 0x280 + of_nat (2 * a)"
    by (simp only: add.assoc of_int_of_nat_eq)
  have "a + 65 \<le> 320"
    using a r by linarith
  then have cdf: "CDFAt (buildSmplMemFromSeed w) (memHdrFracBase + of_nat md * 0x280 + of_int ((64 * int (B ! k) - pi) * 2) + 0xfe) 65 =
      Some (cdf16 (cw_fracCmfs w ! md) a 65)"
    unfolding adr by (rule CDFAt_frac [OF w md])
  have l: "int i + pi + (64 * int (B ! k) - pi) = 64 * int (B ! k) + int i" for i
    by simp
  show ?thesis
    unfolding dec_segs.simps window_record(1) [OF w c k] window_record(2) [OF w c k] Option.bind.bind_lunit Let_def f nl cdf seg_next_def l nat_int
    by (rule ext) simp
qed

lemma block_steps_drop: "block_steps B \<Longrightarrow> Suc k < length B \<Longrightarrow> - 1 \<le> int (B ! Suc k) - int (B ! k) \<and> int (B ! Suc k) - int (B ! k) \<le> 2"
proof (induction B arbitrary: k rule: block_steps.induct)
  case (1 a b r)
  then show ?case
    by (cases k) auto
qed auto

lemma take_replicate_step:
  assumes "take m blk = take m ls" "take s (drop m ls) = replicate s l" "m + s \<le> length ls" "length blk = length ls"
  shows "take (m + s) (take m blk @ replicate s l @ drop (m + s) blk) = take (m + s) ls"
  using assms by (simp add: take_add)

lemma codes_segs:
  assumes w: "window_ok w" and c: "c < 217" "cw_records w ! c = (B, S)" and md: "md < 3" and seg: "bs_Blocks seg = B" "bs_Seglens seg = S"
    and len: "length laginds = 8"
  shows "k + n = length B \<Longrightarrow> seg_lags (drop k B) (drop k S) (drop lix laginds) \<Longrightarrow> lix \<le> 8 \<Longrightarrow>
    64 * pb \<le> pi \<Longrightarrow> pi < 64 * pb + 64 \<Longrightarrow> (0 < n \<longrightarrow> - 1 \<le> int (B ! k) - pb \<and> int (B ! k) - pb \<le> 2) \<Longrightarrow>
    (0 < k \<longrightarrow> pb = int (B ! (k - 1)) \<and> PrevLag (fs_st f) = pb \<and> 0 < lix \<and> pi = laginds ! (lix - 1)) \<Longrightarrow>
    fs_l3 f = pi \<Longrightarrow> PrevFracLag (fs_st f) = pi \<Longrightarrow> lo_w (fs_out f) = lix \<Longrightarrow> length (lo_blk (fs_out f)) = 8 \<Longrightarrow>
    take lix (lo_blk (fs_out f)) = take lix laginds \<Longrightarrow>
    \<exists>f'. codes (enc_segs (cw_fracCmfs w ! md) seg laginds n k lix pb pi)
        (dec_segs (buildSmplMemFromSeed w) (memPcfg + of_nat c * 0x44) (memHdrFracBase + of_nat md * 0x280) n k f) f' \<and>
      lo_blk (fs_out f') = laginds \<and> fs_st f' = (fs_st f)\<lparr>PrevFracLag := laginds ! 7, PrevLag := int (last B)\<rparr>"
proof (induction n arbitrary: k lix pb pi f)
  case 0
  have k: "k = length B" "0 < k"
    using 0(1) window_of_record [OF w c] by (auto simp: record_ok_def)
  have "length S = length B"
    using window_of_record [OF w c] by (simp add: record_ok_def)
  then have "lix = 8"
    using 0(2,3) k len by simp
  moreover have "last B = B ! (k - 1)"
    using k by (simp add: last_conv_nth)
  ultimately show ?case
    using 0 k len codes_return by (intro exI [of _ f]) (auto simp: enc_segs.simps(1) [abs_def] dec_segs.simps(1) [abs_def])
next
  case (Suc n)
  define b s where "b = B ! k" and "s = S ! k"
  have k: "k < length B" "k < length S"
    using Suc.prems(1) window_of_record [OF w c] by (simp_all add: record_ok_def)
  have dB: "drop k B = b # drop (Suc k) B" "drop k S = s # drop (Suc k) S"
    using k by (simp_all add: b_def s_def Cons_nth_drop_Suc)
  have sl: "1 \<le> s" "s \<le> length (drop lix laginds)" "take s (drop lix laginds) = replicate s (hd (drop lix laginds))"
    "64 * int b \<le> hd (drop lix laginds)" "hd (drop lix laginds) < 64 * int b + 64" "seg_lags (drop (Suc k) B) (drop (Suc k) S) (drop (lix + s) laginds)"
    using Suc.prems(2) unfolding dB by (simp_all add: add.commute)
  define l where "l = laginds ! lix"
  have lix: "lix < 8" "lix + s \<le> 8"
    using sl(1,2) len by auto
  have hd: "hd (drop lix laginds) = l"
    using lix len by (simp add: hd_drop_conv_nth l_def)
  have r: "- 127 \<le> 64 * int b - pi" "64 * int b - pi \<le> 128"
    using Suc.prems(4,5,6) by (auto simp: b_def)
  define a where "a = nat (64 * int b - pi + 127)"
  define i where "i = nat (l - 64 * int b)"
  have i: "64 * int b + int i = l" "i + 1 < 65"
    using sl(4,5) by (simp_all add: i_def hd)
  have lrange: "64 * int b \<le> l" "l < 64 * int b + 64"
    using sl(4,5) hd by simp_all
  have a65: "a + 65 \<le> 320"
    using r by (simp add: a_def)
  have cl: "length (cw_fracCmfs w ! md) = 320"
    using frac_cmf_ok [OF w md] by (simp add: cmf_ok_def)
  have E: "enc_segs (cw_fracCmfs w ! md) seg laginds (Suc n) k lix pb pi =
      (\<lambda>e. Encode (cw_fracCmfs w ! md ! (a + i) - cw_fracCmfs w ! md ! a) (cw_fracCmfs w ! md ! (a + i + 1) - cw_fracCmfs w ! md ! a)
        (cw_fracCmfs w ! md ! (a + 65 - 1) - cw_fracCmfs w ! md ! a) e \<bind> enc_segs (cw_fracCmfs w ! md) seg laginds n (k + 1) (lix + s) (int b) l)"
    unfolding i_def using k lix len seg by (intro enc_segs_Suc cl r lrange a_def) (simp_all add: idx_def b_def s_def l_def)
  have D: "dec_segs (buildSmplMemFromSeed w) (memPcfg + of_nat c * 0x44) (memHdrFracBase + of_nat md * 0x280) (Suc n) k f =
    (\<lambda>d. DecodeCDF (cdf16 (cw_fracCmfs w ! md) a 65) d \<bind> (\<lambda>(i, d).
      dec_segs (buildSmplMemFromSeed w) (memPcfg + of_nat c * 0x44) (memHdrFracBase + of_nat md * 0x280) n (k + 1)
        (seg_next k b s (64 * int b + int i) f) d))"
    unfolding b_def s_def using r k Suc.prems(8,9) by (intro dec_segs_Suc w c md) (simp_all add: a_def b_def)
  define g where "g = seg_next k b s l f"
  have g: "fs_l3 g = l" "PrevFracLag (fs_st g) = l" "PrevLag (fs_st g) = int b" "lo_w (fs_out g) = lix + s"
    "fs_st g = (fs_st f)\<lparr>PrevFracLag := l, PrevLag := int b\<rparr>"
    "lo_blk (fs_out g) = take lix (lo_blk (fs_out f)) @ replicate s l @ drop (lix + s) (lo_blk (fs_out f))"
    using Suc.prems(10,11) lix by (simp_all add: g_def seg_next_def put_lags_w put_lags_blk)
  have tk: "take (lix + s) (lo_blk (fs_out g)) = take (lix + s) laginds"
    unfolding g(6) using Suc.prems(11,12) sl(3) lix len hd by (intro take_replicate_step) auto
  have "laginds ! (lix + s - 1) = take s (drop lix laginds) ! (s - 1)"
    using sl(1) lix len by simp
  then have lst: "l = laginds ! (lix + s - 1)"
    using sl(1,3) hd by simp
  have "\<exists>f'. codes (enc_segs (cw_fracCmfs w ! md) seg laginds n (k + 1) (lix + s) (int b) l)
        (dec_segs (buildSmplMemFromSeed w) (memPcfg + of_nat c * 0x44) (memHdrFracBase + of_nat md * 0x280) n (k + 1) g) f' \<and>
      lo_blk (fs_out f') = laginds \<and> fs_st f' = (fs_st g)\<lparr>PrevFracLag := laginds ! 7, PrevLag := int (last B)\<rparr>"
  proof (rule Suc.IH)
    show "0 < n \<longrightarrow> - 1 \<le> int (B ! (k + 1)) - int b \<and> int (B ! (k + 1)) - int b \<le> 2"
      using block_steps_drop [of B k] window_of_record [OF w c] Suc.prems(1) by (auto simp: record_ok_def b_def)
  qed (use Suc.prems lrange sl lix g tk lst b_def in auto)
  then obtain f' where f': "codes (enc_segs (cw_fracCmfs w ! md) seg laginds n (k + 1) (lix + s) (int b) l)
        (dec_segs (buildSmplMemFromSeed w) (memPcfg + of_nat c * 0x44) (memHdrFracBase + of_nat md * 0x280) n (k + 1) (seg_next k b s (64 * int b + int i) f)) f'"
    "lo_blk (fs_out f') = laginds" "fs_st f' = (fs_st f)\<lparr>PrevFracLag := laginds ! 7, PrevLag := int (last B)\<rparr>"
    unfolding i(1) g_def [symmetric] g(5) by auto
  show ?case
    unfolding E D using f'(2,3)
    by (intro exI [of _ f'] conjI codes_bind [OF codes_table [OF frac_cmf_ok [OF w md] a65 i(2)]] f'(1))
qed

text \<open>The selector of the segmentation: the lag it is read as is one less than the index of the contour.\<close>

lemma codes_blockseg:
  assumes w: "window_ok w" and tab: "tables_of w tab" and c: "c < 217" "cw_records w ! c = (B, S)" and seg: "bs_Blocks seg = B" and pb: "pb < 9"
  shows "codes (enc_blockseg tab (unat (cw_contourMap w ! c)) seg pb) (dec_lag (buildSmplMemFromSeed w) pb 217 memHdrLagCdf memHdrDeltaCdf)
    (Some (uint (cw_contourMap w ! c) - 1))"
proof -
  define ix where "ix = unat (cw_contourMap w ! c)"
  have ix: "1 \<le> ix" "ix \<le> 217" "uint (cw_contourMap w ! c) = int ix" and fst_ok: "first_ok w c"
    using w c(1) by (simp_all add: window_ok_def ix_def)
  have lag: "cmf_ok 218 (cw_lagCdf w)" "length (cw_lagCdf w) = 218"
    using w by (simp_all add: window_ok_def cmf_ok_def)
  have T: "BlocksegIdxCmf tab = cw_lagCdf w" "length (Blocksegs tab) = 217" "FirstblockRange tab = cw_firstblockRange w" "BlockTransitionCmf tab = cw_deltaCmfs w"
    using tab w by (simp_all add: tables_of_def window_ok_def)
  show ?thesis
  proof (cases "pb < 0")
    case True
    have E: "enc_blockseg tab ix seg pb = Encode (cw_lagCdf w ! (ix - 1)) (cw_lagCdf w ! (ix - 1 + 1)) (cw_lagCdf w ! (218 - 1))"
    proof -
      have "idx_int (cw_lagCdf w) (int ix - 1) = Some (cw_lagCdf w ! (ix - 1))" "ix < 218"
        using ix lag by (auto simp: idx_int_def idx_def nat_diff_distrib)
      then show ?thesis
        using True ix lag by (intro ext) (simp add: enc_blockseg_def T idx_def)
    qed
    have "CDFAt (buildSmplMemFromSeed w) memHdrLagCdf 218 = Some (cdf16 (cw_lagCdf w) 0 218)"
      using CDFAt_lag [OF w, of 0 218] by simp
    then have D: "dec_lag (buildSmplMemFromSeed w) pb 217 memHdrLagCdf memHdrDeltaCdf =
        (\<lambda>d. DecodeCDF (cdf16 (cw_lagCdf w) 0 218) d \<bind> (\<lambda>(k, d). Some (Some (int k), d)))"
      using True by (intro ext) (simp add: dec_lag_def)
    have "codes (Encode (cw_lagCdf w ! (ix - 1)) (cw_lagCdf w ! (ix - 1 + 1)) (cw_lagCdf w ! (218 - 1))) (DecodeCDF (cdf16 (cw_lagCdf w) 0 218)) (ix - 1)"
      using ix by (intro codes_table0 [OF lag(1)]) simp_all
    from codes_then [OF this, of "\<lambda>k. Some (int k)"] show ?thesis
      unfolding ix_def [symmetric] E D using ix by (simp add: of_nat_diff)
  next
    case False
    define b0 where "b0 = B ! 0"
    define p where "p = nat pb"
    obtain lo hi where lh: "cw_firstblockRange w ! b0 = (lo, hi)"
      by (cases "cw_firstblockRange w ! b0")
    have b: "0 < length B"
      using window_of_record [OF w c] by (auto simp: record_ok_def)
    moreover have "b0 < 9"
      using window_of_record [OF w c] b by (auto simp: record_ok_def b0_def list_all_length)
    ultimately have b: "0 < length B" "b0 < 9" .
    have bd: "lo < ix" "ix \<le> hi + 1" "hi \<le> 216" "length (cw_firstblockRange w) = 9"
      using fst_ok lh c w by (simp_all add: first_ok_def ix_def b0_def window_ok_def)
    have dl: "cmf_ok 10 (cw_deltaCmfs w ! p)" "length (cw_deltaCmfs w) = 9" "length (cw_deltaCmfs w ! p) = 10" and p: "p < 9" "pb = int p"
      using w False pb by (auto simp: window_ok_def p_def cmf_ok_def)
    define n where "n = hi - lo + 2"
    define i where "i = ix - 1 - lo"
    have n: "lo + n \<le> 218" "i + 1 < n" "lo + i = ix - 1" "2 \<le> n"
      using bd by (simp_all add: n_def i_def)
    have e1: "idx_int (cw_deltaCmfs w) pb = Some (cw_deltaCmfs w ! p)"
      using p dl by (simp add: idx_int_def idx_def)
    have e2: "slice_from (cw_lagCdf w) lo = Some (drop lo (cw_lagCdf w))" "idx (drop lo (cw_lagCdf w)) 0 = Some (cw_lagCdf w ! lo)"
      using n lag by (simp_all add: slice_from_Some idx_def)
    have e3: "idx_int (drop lo (cw_lagCdf w)) (int ix - int lo - 1) = Some (cw_lagCdf w ! (lo + i))"
      "idx_int (drop lo (cw_lagCdf w)) (int ix - int lo) = Some (cw_lagCdf w ! (lo + i + 1))"
      "idx_int (drop lo (cw_lagCdf w)) (int hi - int lo + 1) = Some (cw_lagCdf w ! (lo + n - 1))"
      using bd lag n by (auto simp: idx_int_def idx_def nat_diff_distrib i_def n_def nat_add_distrib)
    have E: "enc_blockseg tab ix seg pb = (\<lambda>e. Encode (cw_deltaCmfs w ! p ! b0) (cw_deltaCmfs w ! p ! (b0 + 1)) (cw_deltaCmfs w ! p ! (10 - 1)) e \<bind>
        Encode (cw_lagCdf w ! (lo + i) - cw_lagCdf w ! lo) (cw_lagCdf w ! (lo + i + 1) - cw_lagCdf w ! lo) (cw_lagCdf w ! (lo + n - 1) - cw_lagCdf w ! lo))"
      using False b dl bd lh seg lag(2) n by (intro ext) (simp add: enc_blockseg_def T e1 e2 e3 idx_def pitchNumBlocks_def b0_def Let_def)
    have l8: "uint (of_nat lo :: u8) = int lo" "uint (of_nat hi :: u8) = int hi" "ucast (of_nat lo :: u8) = (of_nat lo :: u32)"
      using bd by (simp_all add: unsigned_of_nat take_bit_nat_eq_self word_unat_eq_iff unsigned_ucast_eq)
    define D2 where "D2 = (\<lambda>di d. U8 (buildSmplMemFromSeed w) (0xe7ef0 + of_nat di * 2) \<bind> (\<lambda>lo. U8 (buildSmplMemFromSeed w) (0xe7ef0 + of_nat di * 2 + 1) \<bind> (\<lambda>hi.
        if uint hi - uint lo + 2 < 2 then Some (None, d)
        else CDFAt (buildSmplMemFromSeed w) (memHdrLagCdf + ucast lo * 2) (nat (uint hi - uint lo + 2)) \<bind> (\<lambda>cdf. DecodeCDF cdf d \<bind>
          (\<lambda>(k, d). Some (Some (int k + uint lo), d))))))"
    have D: "dec_lag (buildSmplMemFromSeed w) pb 217 memHdrLagCdf memHdrDeltaCdf = (\<lambda>d. DecodeCDF (cdf16 (cw_deltaCmfs w ! p) 0 10) d \<bind> (\<lambda>(di, d). D2 di d))"
      using False CDFAt_delta [OF w p(1)] p(2) by (intro ext) (simp add: dec_lag_def D2_def Let_def)
    have "int hi - int lo + 2 = int n"
      using bd by (simp add: n_def of_nat_diff)
    then have D2: "D2 b0 = (\<lambda>d. DecodeCDF (cdf16 (cw_lagCdf w) lo n) d \<bind> (\<lambda>(k, d). Some (Some (int k + int lo), d)))"
      unfolding D2_def window_bounds [OF w b(2) lh] Option.bind.bind_lunit l8 using n CDFAt_lag [OF w n(1)] by (intro ext) simp
    have "codes (Encode (cw_lagCdf w ! (lo + i) - cw_lagCdf w ! lo) (cw_lagCdf w ! (lo + i + 1) - cw_lagCdf w ! lo) (cw_lagCdf w ! (lo + n - 1) - cw_lagCdf w ! lo))
        (D2 b0) (Some (int i + int lo))"
      unfolding D2 by (rule codes_then [OF codes_table [OF lag(1) n(1,2)]])
    moreover have "int i + int lo = int ix - 1"
      using bd by (simp add: i_def of_nat_diff)
    ultimately have 2: "codes (Encode (cw_lagCdf w ! (lo + i) - cw_lagCdf w ! lo) (cw_lagCdf w ! (lo + i + 1) - cw_lagCdf w ! lo)
        (cw_lagCdf w ! (lo + n - 1) - cw_lagCdf w ! lo)) (D2 b0) (Some (int ix - 1))"
      by simp
    have 1: "codes (Encode (cw_deltaCmfs w ! p ! b0) (cw_deltaCmfs w ! p ! (b0 + 1)) (cw_deltaCmfs w ! p ! (10 - 1))) (DecodeCDF (cdf16 (cw_deltaCmfs w ! p) 0 10)) b0"
      using b by (intro codes_table0 [OF dl(1)]) simp_all
    show ?thesis
      unfolding ix_def [symmetric] ix(3) E D by (rule codes_bind [OF 1]) (rule 2)
  qed
qed

text \<open>The lags behind the selector.\<close>

definition enc_lags :: "u32 list \<Rightarrow> pitchBlockSeg \<Rightarrow> int list \<Rightarrow> int \<Rightarrow> int \<Rightarrow> RangeEncoder \<Rightarrow> RangeEncoder go" where
  "enc_lags cmf seg laginds pb pi =
     (let b = int (bs_Blocks seg ! 0) in
      if read_fine pb b then
        (\<lambda>e. Encode64FineSym (laginds ! 0 - 64 * b) e \<bind> enc_segs cmf seg laginds (bs_Nblocks seg - 1) 1 (bs_Seglens seg ! 0) b (laginds ! 0))
      else enc_segs cmf seg laginds (bs_Nblocks seg) 0 0 pb pi)"

lemma encodeLagsWire_split:
  assumes "idx_int (Blocksegs2idx tab) bx = Some ixj" "idx_int (Blocksegs tab) bx = Some seg" "0 < length (bs_Blocks seg)" "0 < length (bs_Seglens seg)"
    "length laginds = 8" "idx (DeltaLagCmfs tab) md = Some cmf"
  shows "encodeLagsWire tab bx laginds pb pi md = (\<lambda>e. enc_blockseg tab ixj seg pb e \<bind> enc_lags cmf seg laginds pb pi)"
proof -
  have r: "read_fine pb (int (bs_Blocks seg ! 0)) \<longleftrightarrow> pb \<le> - 1 \<or> int (bs_Blocks seg ! 0) - pb < - 1 \<or> int (bs_Blocks seg ! 0) - pb > 2"
    by (auto simp: read_fine_def)
  have "idx laginds 0 = Some (laginds ! 0)" "idx (bs_Blocks seg) 0 = Some (bs_Blocks seg ! 0)" "idx (bs_Seglens seg) 0 = Some (bs_Seglens seg ! 0)"
    using assms by (auto simp: idx_def)
  then show ?thesis
    using assms(1,2,6) by (rule_tac ext)
      (auto simp: encodeLagsWire_def enc_lags_def r Let_def pitchBlocksize_def Encode64FineSym_def mult.commute intro!: Option.bind_cong [OF refl])
qed

lemma codes_contour:
  assumes w: "window_ok w" and c: "c < 217" "cw_records w ! c = (B, S)" and md: "md < 3"
    and seg: "seg = \<lparr>bs_Nblocks = length B, bs_Blocks = B, bs_Seglens = S\<rparr>"
    and len: "length laginds = 8" and sl: "seg_lags B S laginds" and pl: "0 \<le> PrevLag st \<longrightarrow> 64 * PrevLag st \<le> PrevFracLag st \<and> PrevFracLag st < 64 * PrevLag st + 64"
  shows "\<exists>f. codes (enc_lags (cw_fracCmfs w ! md) seg laginds (PrevLag st) (PrevFracLag st))
      (dec_contour (buildSmplMemFromSeed w) (memPcfg + of_nat c * 0x44) (memHdrFracBase + of_nat md * 0x280) st) (f, int (length B)) \<and>
    lo_blk (fs_out f) = laginds \<and> fs_st f = st\<lparr>PrevFracLag := laginds ! 7, PrevLag := int (last B)\<rparr>"
proof -
  define m ctr fr where "m = buildSmplMemFromSeed w" and "ctr = memPcfg + of_nat c * 0x44" and "fr = memHdrFracBase + of_nat md * 0x280"
  define b s l out where "b = B ! 0" and "s = S ! 0" and "l = laginds ! 0" and "out = \<lparr>lo_w = 0, lo_int = replicate 4 (0 :: int), lo_blk = replicate 8 0\<rparr>"
  have rec: "length S = length B" "0 < length B" "block_steps B"
    using window_of_record [OF w c] by (auto simp: record_ok_def)
  have B: "B = b # drop 1 B" "S = s # drop 1 S"
    using rec by (cases B; cases S; auto simp: b_def s_def)+
  have hd: "hd laginds = l"
    using len by (simp add: l_def hd_conv_nth flip: length_greater_0_conv)
  have s1: "1 \<le> s" "s \<le> 8" "take s laginds = replicate s l" "64 * int b \<le> l" "l < 64 * int b + 64" "seg_lags (drop 1 B) (drop 1 S) (drop s laginds)"
  proof -
    have "seg_lags (b # drop 1 B) (s # drop 1 S) laginds"
      using sl B by metis
    then show "1 \<le> s" "s \<le> 8" "take s laginds = replicate s l" "64 * int b \<le> l" "l < 64 * int b + 64" "seg_lags (drop 1 B) (drop 1 S) (drop s laginds)"
      using len hd by simp_all
  qed
  have reads: "I32 m (ctr + 0x1d38) = Some (int b)" "I32 m (ctr + 0x1d58) = Some (int s)" "I32 m (ctr + 0x1d78) = Some (int (length B))"
    using window_record(1,2) [OF w c, of 0] window_record(3) [OF w c] rec by (simp_all add: m_def ctr_def b_def s_def)
  show ?thesis
  proof (cases "read_fine (PrevLag st) (int b)")
    case True
    define f0 where "f0 = (\<lambda>l. \<lparr>fs_l2 = l, fs_l3 = l, fs_out = put_trailing l (put_lags s l out), fs_samp = replicate 8 0,
        fs_st = st\<lparr>PrevFracLag := l, PrevLag := int b\<rparr>\<rparr>)"
    have D: "dec_contour m ctr fr st = (\<lambda>d. Decode64FineSym d \<bind> (\<lambda>(sym, d).
        dec_segs m ctr fr (length B - 1) 1 (f0 (64 * int b + sym)) d \<bind> (\<lambda>(f, d). Some ((f, int (length B)), d))))"
    proof -
      have "nat (int (length B) - 1) = length B - 1"
        by simp
      then show ?thesis
        using True by (intro ext) (simp add: dec_contour_def reads Let_def f0_def out_def push_bit_eq_mult mult.commute split_def)
    qed
    have blk: "lo_blk (put_lags s l out) = replicate s l @ replicate (8 - s) 0"
      using s1(2) put_lags_blk [of out s l] by (simp add: out_def)
    have "\<exists>f. codes (enc_segs (cw_fracCmfs w ! md) seg laginds (length B - 1) 1 s (int b) l)
        (dec_segs (buildSmplMemFromSeed w) (memPcfg + of_nat c * 0x44) (memHdrFracBase + of_nat md * 0x280) (length B - 1) 1 (f0 l)) f \<and>
        lo_blk (fs_out f) = laginds \<and> fs_st f = (fs_st (f0 l))\<lparr>PrevFracLag := laginds ! 7, PrevLag := int (last B)\<rparr>"
    proof (rule codes_segs [OF w c md _ _ len])
      show "0 < length B - 1 \<longrightarrow> - 1 \<le> int (B ! 1) - int b \<and> int (B ! 1) - int b \<le> 2"
        using block_steps_drop [OF rec(3), of 0] by (auto simp: b_def)
      have "l = take s laginds ! (s - 1)"
        using s1(1,3) by simp
      then have "l = laginds ! (s - 1)"
        using s1(1,2) by simp
      then show "0 < (1 :: nat) \<longrightarrow> int b = int (B ! (1 - 1)) \<and> PrevLag (fs_st (f0 l)) = int b \<and> 0 < s \<and> l = laginds ! (s - 1)"
        using s1(1) by (simp add: f0_def b_def)
      show "take s (lo_blk (fs_out (f0 l))) = take s laginds"
        using s1(1,2,3) blk by (simp add: f0_def put_trailing_def put_lags_w out_def)
    qed (use rec s1 blk in \<open>auto simp: seg f0_def put_trailing_def put_lags_w out_def\<close>)
    then obtain f where f: "codes (enc_segs (cw_fracCmfs w ! md) seg laginds (length B - 1) 1 s (int b) l) (dec_segs m ctr fr (length B - 1) 1 (f0 l)) f"
      "lo_blk (fs_out f) = laginds" "fs_st f = st\<lparr>PrevFracLag := laginds ! 7, PrevLag := int (last B)\<rparr>"
      unfolding m_def ctr_def fr_def by (auto simp: f0_def)
    have "codes (\<lambda>e. Encode64FineSym (l - 64 * int b) e \<bind> enc_segs (cw_fracCmfs w ! md) seg laginds (length B - 1) 1 s (int b) l)
        (dec_contour m ctr fr st) (f, int (length B))"
      unfolding D
    proof (rule codes_bind [OF codes_64Fine])
      have "64 * int b + (l - 64 * int b) = l"
        by simp
      then show "codes (enc_segs (cw_fracCmfs w ! md) seg laginds (length B - 1) 1 s (int b) l)
          (\<lambda>d. dec_segs m ctr fr (length B - 1) 1 (f0 (64 * int b + (l - 64 * int b))) d \<bind> (\<lambda>(f, d). Some ((f, int (length B)), d))) (f, int (length B))"
        using codes_then [OF f(1), of "\<lambda>f. (f, int (length B))"] by simp
    qed (use s1 in auto)
    moreover have "enc_lags (cw_fracCmfs w ! md) seg laginds (PrevLag st) (PrevFracLag st) =
        (\<lambda>e. Encode64FineSym (l - 64 * int b) e \<bind> enc_segs (cw_fracCmfs w ! md) seg laginds (length B - 1) 1 s (int b) l)"
      using True by (simp add: enc_lags_def seg b_def s_def l_def Let_def)
    ultimately show ?thesis
      using f(2,3) unfolding m_def ctr_def fr_def by auto
  next
    case False
    define f0 where "f0 = \<lparr>fs_l2 = int b, fs_l3 = PrevFracLag st, fs_out = out, fs_samp = replicate 8 0, fs_st = st\<rparr>"
    have D: "dec_contour m ctr fr st = (\<lambda>d. dec_segs m ctr fr (length B) 0 f0 d \<bind> (\<lambda>(f, d). Some ((f, int (length B)), d)))"
      using False by (intro ext) (simp add: dec_contour_def reads Let_def f0_def out_def)
    have p: "0 \<le> PrevLag st" "- 1 \<le> int b - PrevLag st" "int b - PrevLag st \<le> 2"
      using False by (auto simp: read_fine_def)
    have "\<exists>f. codes (enc_segs (cw_fracCmfs w ! md) seg laginds (length B) 0 0 (PrevLag st) (PrevFracLag st))
        (dec_segs (buildSmplMemFromSeed w) (memPcfg + of_nat c * 0x44) (memHdrFracBase + of_nat md * 0x280) (length B) 0 f0) f \<and>
        lo_blk (fs_out f) = laginds \<and> fs_st f = (fs_st f0)\<lparr>PrevFracLag := laginds ! 7, PrevLag := int (last B)\<rparr>"
      by (rule codes_segs [OF w c md _ _ len]) (use p pl sl in \<open>auto simp: seg f0_def out_def b_def\<close>)
    then obtain f where f: "codes (enc_segs (cw_fracCmfs w ! md) seg laginds (length B) 0 0 (PrevLag st) (PrevFracLag st)) (dec_segs m ctr fr (length B) 0 f0) f"
      "lo_blk (fs_out f) = laginds" "fs_st f = st\<lparr>PrevFracLag := laginds ! 7, PrevLag := int (last B)\<rparr>"
      unfolding m_def ctr_def fr_def by (auto simp: f0_def)
    have "codes (enc_lags (cw_fracCmfs w ! md) seg laginds (PrevLag st) (PrevFracLag st)) (dec_contour m ctr fr st) (f, int (length B))"
      unfolding D using False codes_then [OF f(1), of "\<lambda>f. (f, int (length B))"] by (simp add: enc_lags_def seg b_def Let_def)
    then show ?thesis
      using f(2,3) unfolding m_def ctr_def fr_def by auto
  qed
qed

section \<open>A voiced frame's pitch block\<close>

definition in_sync :: "SmplLsfState \<Rightarrow> SmplLsfState \<Rightarrow> bool" where
  "in_sync se sd \<longleftrightarrow> PrevStage1 sd = PrevStage1 se \<and> PrevGainIdx sd = PrevGainIdx se \<and> PrevFiltIdx sd = PrevFiltIdx se \<and>
     PrevLag sd = PrevLagblk se \<and> PrevFracLag sd = PrevLagidx se \<and> PrevLag sd < 9 \<and>
     (0 \<le> PrevLag sd \<longrightarrow> 64 * PrevLag sd \<le> PrevFracLag sd \<and> PrevFracLag sd < 64 * PrevLag sd + 64)"

definition pitch_rows :: "int list \<Rightarrow> SmplPitchParams \<Rightarrow> gain_row list" where
  "pitch_rows cnts pp = zip cnts (zip (ep_GainIdx pp) (ep_FiltIdx pp))"

definition pitch_ok :: "CcTables \<Rightarrow> contourWindowParts \<Rightarrow> int list \<Rightarrow> SmplPitchParams \<Rightarrow> SmplLsfState \<Rightarrow> bool" where
  "pitch_ok cc w cnts pp st \<longleftrightarrow> length cnts = 4 \<and> length (ep_GainIdx pp) = 4 \<and> length (ep_FiltIdx pp) = 4 \<and>
     rows_ok cc (pitch_rows cnts pp) (PrevGainIdx st) (PrevFiltIdx st) \<and>
     0 \<le> ep_BlocksegIdx pp \<and> ep_BlocksegIdx pp < 217 \<and> length (ep_Laginds pp) = 8 \<and>
     (case cw_records w ! nat (ep_BlocksegIdx pp) of (B, S) \<Rightarrow> seg_lags B S (ep_Laginds pp))"

definition pitch_next :: "contourWindowParts \<Rightarrow> int list \<Rightarrow> SmplPitchParams \<Rightarrow> SmplLsfState \<Rightarrow> SmplLsfState" where
  "pitch_next w cnts pp st =
     (rows_end (pitch_rows cnts pp) st)\<lparr>PrevLagblk := int (last (fst (cw_records w ! nat (ep_BlocksegIdx pp)))), PrevLagidx := ep_Laginds pp ! 7\<rparr>"

definition pitch_read :: "int list \<Rightarrow> SmplPitchParams \<Rightarrow> SmplPitchResult \<Rightarrow> bool" where
  "pitch_read cnts pp r \<longleftrightarrow> pt_GainIdx r = ep_GainIdx pp \<and>
     pt_FiltIdx r = map (\<lambda>(cnt, fi). if cnt > 0 then fi else - 1) (zip cnts (ep_FiltIdx pp)) \<and> pt_BlockLags r = ep_Laginds pp"

lemma rows_end_simps:
  "PrevStage1 (rows_end rows st) = PrevStage1 st" "PrevLag (rows_end rows st) = PrevLag st" "PrevFracLag (rows_end rows st) = PrevFracLag st"
  "PrevLagblk (rows_end rows st) = PrevLagblk st" "PrevLagidx (rows_end rows st) = PrevLagidx st"
  by (induction rows st rule: rows_end.induct) simp_all

lemma rows_end_preds:
  assumes "PrevGainIdx sd = PrevGainIdx se" "PrevFiltIdx sd = PrevFiltIdx se"
  shows "PrevGainIdx (rows_end rows sd) = PrevGainIdx (rows_end rows se) \<and> PrevFiltIdx (rows_end rows sd) = PrevFiltIdx (rows_end rows se)"
  using assms
proof (induction rows arbitrary: se sd)
  case (Cons r rows)
  obtain cnt gi fi where r: "r = (cnt, gi, fi)"
    by (cases r)
  show ?case
    unfolding r rows_end.simps by (rule Cons.IH) (simp_all add: row_filt_def Cons.prems(2))
qed simp

lemma rows_end_sync: "in_sync se sd \<Longrightarrow> in_sync (rows_end rows se) (rows_end rows sd)"
  using rows_end_preds [of sd se rows] by (auto simp: in_sync_def rows_end_simps)

lemma seg_lags_last: "seg_lags B S ls \<Longrightarrow> B \<noteq> [] \<Longrightarrow> 64 * int (last B) \<le> last ls \<and> last ls < 64 * int (last B) + 64 \<and> ls \<noteq> []"
proof (induction B S ls rule: seg_lags.induct)
  case (1 b B s S ls)
  have ne: "ls \<noteq> []"
    using 1(2) by auto
  show ?case
  proof (cases "B = []")
    case True
    have "drop s ls = []"
      using 1(2) True by (cases S) auto
    then have "ls = replicate s (hd ls)"
      using 1(2) by (metis append_Nil2 append_take_drop_id seg_lags.simps(1))
    then have "last ls = hd ls"
      using ne by (metis last_replicate replicate_empty)
    then show ?thesis
      using 1(2) True ne by simp
  next
    case False
    then have IH: "64 * int (last B) \<le> last (drop s ls)" "last (drop s ls) < 64 * int (last B) + 64" "drop s ls \<noteq> []"
      using 1 by (simp_all del: last_drop)
    have "last (drop s ls) = last ls"
      using IH(3) by (simp add: last_drop)
    then show ?thesis
      using IH False ne by simp
  qed
qed auto

lemma lag_mode_less: "lag_mode x < 3"
  by (simp add: lag_mode_def)

lemma gains_read_rows:
  assumes "length cnts = 4" "length (ep_GainIdx pp) = 4" "length (ep_FiltIdx pp) = 4"
  shows "gains_read (pitch_rows cnts pp) = (ep_GainIdx pp, map (\<lambda>(cnt, fi). if cnt > 0 then fi else - 1) (zip cnts (ep_FiltIdx pp)))"
    "map fst (pitch_rows cnts pp) = cnts" "length (pitch_rows cnts pp) = 4"
  using assms list4 [of cnts] list4 [of "ep_GainIdx pp"] list4 [of "ep_FiltIdx pp"] by (auto simp: gains_read_def pitch_rows_def)

lemma pcodes_pitch:
  assumes w: "window_ok w" and tab: "tables_of w tab" and ok: "pitch_ok cc w cnts pp se" and sync: "in_sync se sd"
  shows "\<exists>r sd'. pcodes (encodeSmplPitch cc tab 320 4 0 cnts pp se) (DecodeSmplPitch cc (buildSmplMemFromSeed w) 320 4 0 cnts sd)
      (pitch_next w cnts pp se) (r, sd') \<and>
    pitch_read cnts pp r \<and> in_sync (pitch_next w cnts pp se) sd'"
proof -
  define c where "c = nat (ep_BlocksegIdx pp)"
  obtain B S where BS: "cw_records w ! c = (B, S)"
    by (cases "cw_records w ! c")
  define seg where "seg = \<lparr>bs_Nblocks = length B, bs_Blocks = B, bs_Seglens = S\<rparr>"
  have k: "length cnts = 4" "length (ep_GainIdx pp) = 4" "length (ep_FiltIdx pp) = 4" "rows_ok cc (pitch_rows cnts pp) (PrevGainIdx se) (PrevFiltIdx se)"
    "c < 217" "ep_BlocksegIdx pp = int c" "length (ep_Laginds pp) = 8" "seg_lags B S (ep_Laginds pp)"
    using ok BS by (auto simp: pitch_ok_def c_def)
  note c = k(5) BS
  have rec: "length S = length B" "0 < length B"
    using window_of_record [OF w c] by (auto simp: record_ok_def)
  define rows where "rows = pitch_rows cnts pp"
  define acc md te td where "acc = rows_acc cc rows 0" and "md = lag_mode (acc sdiv 4)" and "te = rows_end rows se" and "td = rows_end rows sd"
  have s1: "in_sync te td"
    unfolding te_def td_def by (rule rows_end_sync [OF sync])
  then have ts: "PrevLagblk te = PrevLag td" "PrevLagidx te = PrevFracLag td" "PrevLag td < 9"
    "0 \<le> PrevLag td \<longrightarrow> 64 * PrevLag td \<le> PrevFracLag td \<and> PrevFracLag td < 64 * PrevLag td + 64"
    by (auto simp: in_sync_def)
  have md: "md < 3"
    by (simp add: md_def lag_mode_less)
  have T: "idx_int (Blocksegs2idx tab) (int c) = Some (unat (cw_contourMap w ! c))" "idx_int (Blocksegs tab) (int c) = Some seg"
    "idx (DeltaLagCmfs tab) md = Some (cw_fracCmfs w ! md)"
    using tab w c md by (simp_all add: tables_of_def window_ok_def idx_int_def idx_def seg_def)
  define ue where "ue = te\<lparr>PrevLagblk := int (last B), PrevLagidx := ep_Laginds pp ! 7\<rparr>"
  define ud where "ud = td\<lparr>PrevFracLag := ep_Laginds pp ! 7, PrevLag := int (last B)\<rparr>"
  have "last (ep_Laginds pp) = ep_Laginds pp ! 7"
    using k(7) by (simp add: last_conv_nth flip: length_greater_0_conv)
  moreover have "last B < 9"
    using window_of_record [OF w c] rec by (auto simp: record_ok_def list_all_iff)
  ultimately have s2: "in_sync ue ud"
    using s1 seg_lags_last [OF k(8)] rec by (auto simp: in_sync_def ue_def ud_def)
  obtain f where f: "codes (enc_lags (cw_fracCmfs w ! md) seg (ep_Laginds pp) (PrevLag td) (PrevFracLag td))
      (dec_contour (buildSmplMemFromSeed w) (memPcfg + of_nat c * 0x44) (memHdrFracBase + of_nat md * 0x280) td) (f, int (length B))"
    "lo_blk (fs_out f) = ep_Laginds pp" "fs_st f = ud"
    using codes_contour [OF w c md seg_def k(7,8) ts(4)] unfolding ud_def by blast
  define r0 where "r0 = \<lparr>pt_GainIdx = fst (gains_read rows), pt_FiltIdx = snd (gains_read rows), pt_Lag = 0, pt_Contour = 0,
      pt_SampleLagQ6 = replicate 8 0, pt_NumSeg = 0, pt_IntLagQ6 = replicate 4 0, pt_BlockLags = replicate 8 0, pt_NumSubfr = 0\<rparr>"
  define r1 where "r1 = r0\<lparr>pt_Lag := uint (cw_contourMap w ! c) - 1, pt_Contour := int c\<rparr>"
  define r where "r = r1\<lparr>pt_SampleLagQ6 := fs_samp f, pt_NumSeg := int (length B), pt_IntLagQ6 := lo_int (fs_out f),
      pt_BlockLags := lo_blk (fs_out f), pt_NumSubfr := lo_w (fs_out f)\<rparr>"
  define m where "m = buildSmplMemFromSeed w"
  define D3 where "D3 = (\<lambda>(fc :: FracState \<times> int) d. Some ((r1\<lparr>pt_SampleLagQ6 := fs_samp (fst fc), pt_NumSeg := snd fc, pt_IntLagQ6 := lo_int (fs_out (fst fc)),
      pt_BlockLags := lo_blk (fs_out (fst fc)), pt_NumSubfr := lo_w (fs_out (fst fc))\<rparr>, fs_st (fst fc)), d :: RangeDecoder))"
  have 3: "codes (enc_lags (cw_fracCmfs w ! md) seg (ep_Laginds pp) (PrevLag td) (PrevFracLag td))
      (\<lambda>d. dec_contour m (memPcfg + of_nat c * 0x44) (memHdrFracBase + of_nat md * 0x280) td d \<bind> (\<lambda>(s, d). D3 s d)) (r, ud)"
    using codes_then [OF f(1), of "\<lambda>fc. (r1\<lparr>pt_SampleLagQ6 := fs_samp (fst fc), pt_NumSeg := snd fc, pt_IntLagQ6 := lo_int (fs_out (fst fc)),
      pt_BlockLags := lo_blk (fs_out (fst fc)), pt_NumSubfr := lo_w (fs_out (fst fc))\<rparr>, fs_st (fst fc))"] f(3)
    by (simp add: D3_def m_def r_def)
  define DL where "DL = (\<lambda>st acc (gis, fis) l d. case l of None \<Rightarrow> Some ((r0\<lparr>pt_GainIdx := gis, pt_FiltIdx := fis, pt_Lag := - 1\<rparr>, st), d)
      | Some lag \<Rightarrow> find_contour m memHdrContourMap (lag + 1) [0..<217] \<bind> (\<lambda>contour.
          if contour < 0 \<or> contour \<ge> 217 then Some ((r0\<lparr>pt_GainIdx := gis, pt_FiltIdx := fis, pt_Lag := lag, pt_Contour := contour\<rparr>, st), d)
          else dec_contour m (memPcfg + of_int contour * 0x44) (memHdrFracBase + of_nat (lag_mode (acc sdiv 4)) * 0x280) st d \<bind> (\<lambda>((f, cnt2), d).
            Some ((r0\<lparr>pt_GainIdx := gis, pt_FiltIdx := fis, pt_Lag := lag, pt_Contour := contour, pt_SampleLagQ6 := fs_samp f, pt_NumSeg := cnt2,
              pt_IntLagQ6 := lo_int (fs_out f), pt_BlockLags := lo_blk (fs_out f), pt_NumSubfr := lo_w (fs_out f)\<rparr>, fs_st f), d))))"
  have DL: "DL td acc (gains_read rows) (Some (uint (cw_contourMap w ! c) - 1)) =
      (\<lambda>d. dec_contour m (memPcfg + of_nat c * 0x44) (memHdrFracBase + of_nat md * 0x280) td d \<bind> (\<lambda>(s, d). D3 s d))"
    using find_contour_hit [OF w k(5)] k(5) by (intro ext) (simp add: DL_def D3_def m_def r1_def r0_def md_def split_def)
  have 2: "codes (\<lambda>e. enc_blockseg tab (unat (cw_contourMap w ! c)) seg (PrevLag td) e \<bind> enc_lags (cw_fracCmfs w ! md) seg (ep_Laginds pp) (PrevLag td) (PrevFracLag td))
      (\<lambda>d. dec_lag m (PrevLag td) 217 memHdrLagCdf memHdrDeltaCdf d \<bind> (\<lambda>(l, d). DL td acc (gains_read rows) l d)) (r, ud)"
  proof -
    have 1: "codes (enc_blockseg tab (unat (cw_contourMap w ! c)) seg (PrevLag td)) (dec_lag m (PrevLag td) 217 memHdrLagCdf memHdrDeltaCdf)
        (Some (uint (cw_contourMap w ! c) - 1))"
      unfolding m_def by (rule codes_blockseg [OF w tab c _ ts(3)]) (simp add: seg_def)
    show ?thesis
      by (rule codes_bind [OF 1]) (unfold DL, rule 3)
  qed
  define D2 where "D2 = (\<lambda>(gis, fis, acc, st) d. dec_lag m (PrevLag st) 217 memHdrLagCdf memHdrDeltaCdf d \<bind> (\<lambda>(l, d). DL st acc (gis, fis) l d))"
  define E2 where "E2 = (\<lambda>(acc, st :: SmplLsfState) e. encodeLagsWire tab (ep_BlocksegIdx pp) (ep_Laginds pp) (PrevLagblk st) (PrevLagidx st) (lag_mode (acc sdiv 4)) e \<bind>
      (\<lambda>e. smplLagsPredictorAfter tab (ep_BlocksegIdx pp) (ep_Laginds pp) \<bind> (\<lambda>(nblk, nidx). Some (st\<lparr>PrevLagblk := nblk, PrevLagidx := nidx\<rparr>, e))))"
  have P: "smplLagsPredictorAfter tab (int c) (ep_Laginds pp) = Some (int (last B), ep_Laginds pp ! 7)"
  proof -
    have "idx_int B (int (length B) - 1) = Some (last B)"
      using rec(2) by (cases B rule: rev_cases) (auto simp: idx_int_def idx_def)
    then show ?thesis
      using T(2) k(7) by (simp add: smplLagsPredictorAfter_def seg_def idx_def)
  qed
  have "encodeLagsWire tab (int c) (ep_Laginds pp) (PrevLag td) (PrevFracLag td) md = (\<lambda>e. enc_blockseg tab (unat (cw_contourMap w ! c)) seg (PrevLag td) e \<bind>
      enc_lags (cw_fracCmfs w ! md) seg (ep_Laginds pp) (PrevLag td) (PrevFracLag td))"
    using rec by (intro encodeLagsWire_split T k(7)) (simp_all add: seg_def)
  then have E2: "E2 (acc, te) = (\<lambda>e. (enc_blockseg tab (unat (cw_contourMap w ! c)) seg (PrevLag td) e \<bind>
      enc_lags (cw_fracCmfs w ! md) seg (ep_Laginds pp) (PrevLag td) (PrevFracLag td)) \<bind> (\<lambda>e. Some (ue, e)))"
    by (intro ext) (simp add: E2_def k(6) ts md_def [symmetric] P ue_def)
  have G: "pcodes (enc_gains cc 0 rows 0 se) (dec_gains cc 0 cnts 0 sd) (acc, te) (fst (gains_read rows), snd (gains_read rows), acc, td)"
    using pcodes_gains [OF k(4), of sd 0] sync gains_read_rows(2) [OF k(1-3)] by (simp add: in_sync_def rows_def acc_def te_def td_def)
  have D2: "D2 (fst (gains_read rows), snd (gains_read rows), acc, td) =
      (\<lambda>d. dec_lag m (PrevLag td) 217 memHdrLagCdf memHdrDeltaCdf d \<bind> (\<lambda>(l, d). DL td acc (gains_read rows) l d))"
    by (simp add: D2_def)
  have "pcodes (\<lambda>e. enc_gains cc 0 rows 0 se e \<bind> (\<lambda>(b, e). E2 b e)) (\<lambda>d. dec_gains cc 0 cnts 0 sd d \<bind> (\<lambda>(s, d). D2 s d)) ue (r, ud)"
    by (rule pcodes_bind [OF G]) (unfold E2 D2, rule pcodesI [OF 2])
  moreover have "encodeSmplPitch cc tab 320 4 0 cnts pp se = (\<lambda>e. enc_gains cc 0 rows 0 se e \<bind> (\<lambda>(b, e). E2 b e))"
    using gains_read_rows(3) [OF k(1-3)] by (intro ext) (simp add: encodeSmplPitch_def E2_def rows_def pitch_rows_def Let_def split_def)
  moreover have "DecodeSmplPitch cc m 320 4 0 cnts sd = (\<lambda>d. dec_gains cc 0 cnts 0 sd d \<bind> (\<lambda>(s, d). D2 s d))"
  proof -
    have g: "GClk m + 0x5704 = memPcfg"
      by (simp add: m_def buildSmplMemFromSeed_def memPcfg_def)
    show ?thesis
      using k(1) by (intro ext) (simp add: DecodeSmplPitch_def g window_header [OF w, folded m_def] D2_def DL_def r0_def Let_def split_def cong: option.case_cong if_cong)
  qed
  ultimately have "pcodes (encodeSmplPitch cc tab 320 4 0 cnts pp se) (DecodeSmplPitch cc (buildSmplMemFromSeed w) 320 4 0 cnts sd) ue (r, ud)"
    by (simp add: m_def)
  moreover have "pitch_read cnts pp r"
    using gains_read_rows(1) [OF k(1-3)] f(2) by (simp add: pitch_read_def r_def r1_def r0_def rows_def)
  moreover have "ue = pitch_next w cnts pp se"
    using BS by (simp add: ue_def te_def pitch_next_def rows_def c_def)
  ultimately show ?thesis
    using s2 by blast
qed

end
