(* ===== verification/Range_Capacity.thy ===== *)
theory Range_Capacity
  imports Range_Total
begin

text \<open>
  How many bytes the range encoder writes. \<open>pend\<close> counts the bytes written and those held back for a carry; a symbol
  adds at most three, whatever the table and the symbol are, and \<open>Done\<close> at most five.
\<close>

definition pend :: "RangeEncoder \<Rightarrow> nat" where
  "pend e = re_offs e + re_ext e + (if 0 \<le> re_rem e then 1 else 0)"

definition grows :: "nat \<Rightarrow> (RangeEncoder \<Rightarrow> RangeEncoder go) \<Rightarrow> bool" where
  "grows n E \<longleftrightarrow> (\<forall>e e'. E e = Some e' \<longrightarrow> pend e' \<le> pend e + n)"

definition pgrows :: "nat \<Rightarrow> (RangeEncoder \<Rightarrow> ('b \<times> RangeEncoder) go) \<Rightarrow> bool" where
  "pgrows n E \<longleftrightarrow> (\<forall>e b e'. E e = Some (b, e') \<longrightarrow> pend e' \<le> pend e + n)"

lemma grows_mono: "grows m E \<Longrightarrow> m \<le> n \<Longrightarrow> grows n E"
  unfolding grows_def by (meson add_left_mono order_trans)

lemma grows_return: "grows n Some" "pgrows n (\<lambda>e. Some (b, e))"
  by (simp_all add: grows_def pgrows_def)

lemma grows_bind: "grows m E \<Longrightarrow> grows n F \<Longrightarrow> m + n \<le> k \<Longrightarrow> grows k (\<lambda>e. E e \<bind> F)"
  unfolding grows_def by (fastforce split: Option.bind_split_asm)

lemma pgrows_bind: "pgrows m E \<Longrightarrow> (\<And>b. pgrows n (F b)) \<Longrightarrow> m + n \<le> k \<Longrightarrow> pgrows k (\<lambda>e. E e \<bind> (\<lambda>(b, e). F b e))"
  unfolding pgrows_def by (fastforce split: Option.bind_split_asm)

lemma grows_pgrows: "grows m E \<Longrightarrow> pgrows n F \<Longrightarrow> m + n \<le> k \<Longrightarrow> pgrows k (\<lambda>e. E e \<bind> F)"
  unfolding grows_def pgrows_def by (fastforce split: Option.bind_split_asm)

lemma grows_look: "(\<And>x. y = Some x \<Longrightarrow> grows n (E x)) \<Longrightarrow> grows n (\<lambda>e. y \<bind> (\<lambda>x. E x e))"
  unfolding grows_def by (auto split: Option.bind_split_asm)

lemma pgrows_look: "(\<And>x. y = Some x \<Longrightarrow> pgrows n (E x)) \<Longrightarrow> pgrows n (\<lambda>e. y \<bind> (\<lambda>x. E x e))"
  unfolding pgrows_def by (auto split: Option.bind_split_asm)

lemma grows_if: "(c \<Longrightarrow> grows n E) \<Longrightarrow> (\<not> c \<Longrightarrow> grows n F) \<Longrightarrow> grows n (\<lambda>e. if c then E e else F e)"
  by (simp add: grows_def)

section \<open>Symbols\<close>

lemma pend_writeByte: "re_offs (writeByte b e) \<le> re_offs e + 1" "re_ext (writeByte b e) = re_ext e" "re_rem (writeByte b e) = re_rem e"
  by (simp_all add: writeByte_def)

lemma pend_writeBytes: "re_offs ((writeByte b ^^ n) e) \<le> re_offs e + n"
  by (induction n) (auto intro: order_trans [OF pend_writeByte(1)])

lemma pend_carryOut: "pend (carryOut c e) \<le> pend e + 1"
proof (cases "of_int c = (ecSymMax :: u32)")
  case False
  define k where "k = drop_bit ecSymBits c"
  define a where "a = (if re_rem e \<ge> 0 then writeByte (of_int (re_rem e + k)) e else e)"
  define b where "b = (if re_ext a > 0 then (writeByte (of_int ((255 + k) AND 255)) ^^ re_ext a) a\<lparr>re_ext := 0\<rparr> else a)"
  have c: "carryOut c e = b\<lparr>re_rem := c AND 255\<rparr>"
    using False by (simp add: carryOut_def Let_def a_def b_def k_def)
  have "re_offs a \<le> re_offs e + (if 0 \<le> re_rem e then 1 else 0)" "re_ext a = re_ext e"
    using pend_writeByte [of _ e] by (simp_all add: a_def)
  moreover have "re_offs b \<le> re_offs a + re_ext a" "re_ext b = 0"
    using pend_writeBytes [of "re_ext a" _ a] by (auto simp: b_def)
  ultimately show ?thesis
    unfolding c by (simp add: pend_def)
qed (simp add: carryOut_def pend_def)

lemma pend_enc_shift: "pend (enc_shift e) \<le> pend e + 1"
  using pend_carryOut [of "uint (drop_bit ecCodeShift (re_val e))" e] by (simp add: enc_shift_def Let_def pend_def)

text \<open>A range that is not zero is normal after three shifts; a zero range never is.\<close>

lemma enc_normalize_shifts:
  assumes "enc_normalize e = Some e'" "8388608 < unat (re_rng e) * 256 ^ n"
  shows "pend e' \<le> pend e + n"
  using assms
proof (induction n arbitrary: e)
  case 0
  then show ?case
    by (simp add: enc_normalize.simps [of e] word_le_nat_alt ecCodeBot_def)
next
  case (Suc n)
  show ?case
  proof (cases "unat (re_rng e) \<le> 8388608")
    case True
    then have "enc_normalize (enc_shift e) = Some e'"
      using Suc.prems(1) by (simp add: enc_normalize.simps [of e] word_le_nat_alt)
    moreover have "8388608 < unat (re_rng (enc_shift e)) * 256 ^ n"
      using Suc.prems(2) enc_shift_rng [OF True] by (simp add: mult.assoc mult.left_commute)
    ultimately show ?thesis
      using Suc.IH pend_enc_shift [of e] by fastforce
  next
    case False
    then show ?thesis
      using Suc.prems(1) by (simp add: enc_normalize.simps [of e] word_le_nat_alt)
  qed
qed

lemma enc_normalize_zero:
  assumes "enc_normalize e = Some e'"
  shows "0 < unat (re_rng e)"
proof (rule enc_normalize.raw_induct [OF _ assms, where P = "\<lambda>e e'. 0 < unat (re_rng e)"])
  fix rec e e'
  assume 1: "\<And>e e'. rec e = Some e' \<Longrightarrow> 0 < unat (re_rng e)" "(if re_rng e \<le> ecCodeBot then rec (enc_shift e) else Some e) = Some e'"
  show "0 < unat (re_rng e)"
  proof (cases "unat (re_rng e) \<le> 8388608")
    case True
    then have "rec (enc_shift e) = Some e'"
      using 1(2) by (simp add: word_le_nat_alt)
    from 1(1) [OF this] show ?thesis
      using enc_shift_rng [OF True] by simp
  qed simp
qed

lemma pend_normalize: "enc_normalize e = Some e' \<Longrightarrow> pend e' \<le> pend e + 3"
  using enc_normalize_shifts [of e e' 3] enc_normalize_zero [of e e'] by simp

lemma grows_Encode: "grows 3 (Encode fl fh ft)"
  unfolding grows_def Encode_def Let_def by (auto dest!: pend_normalize simp: pend_def split: if_split_asm)

lemma grows_EncodeCDF: "grows 3 (EncodeCDF s cdf)"
  unfolding grows_def EncodeCDF_def Let_def using grows_Encode
  by (auto simp: grows_def pend_def split: if_split_asm)

lemma grows_EncodeRawSymbol: "grows 3 (EncodeRawSymbol s nbits)"
  unfolding EncodeRawSymbol_def [abs_def] by (rule grows_Encode)

lemma grows_Encode64FineSym: "grows 3 (Encode64FineSym s)"
  unfolding Encode64FineSym_def [abs_def] by (rule grows_Encode)

section \<open>The end of a frame\<close>

lemma pend_done_range: "l \<le> 8 * int n \<Longrightarrow> pend (done_range l fin e) \<le> pend e + n"
proof (induction n arbitrary: l fin e)
  case 0
  then show ?case
    by (simp add: done_range.simps)
next
  case (Suc n)
  show ?case
  proof (cases "0 < l")
    case True
    have "pend (done_range (l - 8) f (carryOut c e)) \<le> pend (carryOut c e) + n" for f c
      using Suc.prems by (intro Suc.IH) simp
    then show ?thesis
      using True pend_carryOut [of _ e] by (subst done_range.simps) (fastforce simp: ecSymBits_def intro: order_trans)
  qed (simp add: done_range.simps)
qed

lemma Done_room:
  assumes "re_nendBits e = 0" "0 < re_rng e"
  shows "re_offs (Done e) \<le> pend e + 6"
proof -
  obtain l fin where de: "done_end e = (l, fin)"
    by fastforce
  have "l \<le> 8 * int 5"
    using de by (auto simp: done_end_def Let_def ecCodeBits_def split: if_split_asm)
  from pend_done_range [OF this, of fin e]
  have "pend (done_range l fin e) \<le> pend e + 5" .
  define e2 where "e2 = flush_pending (done_range l fin e)"
  have f: "fills e e2"
    unfolding e2_def flush_pending_def by (auto intro: fills_trans [OF fills_done_range] fills_carryOut fills_done_range)
  then have "re_nendBits e2 = 0"
    using assms by (simp add: fills_def)
  then have "re_offs (Done e) = re_offs e2"
    by (simp add: Done_split de e2_def [symmetric] done_bits.simps ecSymBits_def finish_bits_def Let_def)
  moreover have "pend e2 \<le> pend (done_range l fin e) + 1"
    unfolding e2_def flush_pending_def using pend_carryOut by simp
  ultimately show ?thesis
    using \<open>pend (done_range l fin e) \<le> pend e + 5\<close> by (simp add: pend_def)
qed

text \<open>Operations that write symbols and add at most \<open>k\<close> bytes do not fill a buffer with six bytes more.\<close>

lemma codes_room:
  assumes "codes E D s" "grows k E" "k + 6 < n" "E (NewRangeEncoder n) = Some e"
  shows "re_err (Done e) = 0"
proof -
  have "re_err (Done e) \<noteq> 0 \<longrightarrow> n \<le> ConsumedLen (Done e)"
    using codes_roundtrip [OF assms(1), of n] assms(4) by auto
  moreover have f: "fills (NewRangeEncoder n) e" "rng_ok e"
    using assms(1,4) enc_inv_rng_ok [OF enc_inv_init [of n]] unfolding codes_def by auto
  then have z: "re_nendBits e = 0" "re_endOffs e = 0"
    by (simp_all add: fills_def NewRangeEncoder_def)
  then have "re_endOffs (Done e) = 0"
    using fills_Done [OF z(1)] by (simp add: fills_def)
  moreover have "re_offs (Done e) \<le> pend e + 6"
    using f(2) by (intro Done_room z) (simp add: rng_ok_def word_less_nat_alt)
  moreover have "pend e \<le> k"
    using assms(2,4) by (fastforce simp: grows_def pend_def NewRangeEncoder_def)
  ultimately show ?thesis
    using assms(3) by (auto simp: ConsumedLen_def)
qed

end
