(* ===== verification/Mlow_Capacity.thy ===== *)
theory Mlow_Capacity
  imports Mlow_Frame Mlow_Pitch_Roundtrip Range_Capacity
begin

text \<open>
  How many bytes the parts of a frame take at most, at three bytes a symbol: 57 for the spectral indices, 12 and three
  per pulse and sign chunk for the pulses, 18 for the gains of an unvoiced frame, 24, 9 and three per segment for the
  pitch of a voiced one.
\<close>

lemmas pend_dests = grows_EncodeCDF [unfolded grows_def, rule_format] grows_Encode [unfolded grows_def, rule_format]
  grows_EncodeRawSymbol [unfolded grows_def, rule_format]

section \<open>Spectral indices and gains\<close>

lemma pend_encode_each: "encode_each ks cs e = Some e' \<Longrightarrow> pend e' \<le> pend e + 3 * length cs"
proof (induction cs arbitrary: ks e)
  case (Cons c cs)
  then show ?case
    by (cases ks) (auto dest!: pend_dests simp: bind_eq_Some_conv, fastforce)
qed (auto elim: encode_each.elims)

lemma pend_lsf: "encodeSmplLsf t config intf lsf st e = Some (st', e') \<Longrightarrow> pend e' \<le> pend e + 57"
  by (auto simp: encodeSmplLsf_def lsf_stage2_cdfs_def slice_def Let_def bind_eq_Some_conv split: if_split_asm dest!: pend_dests pend_encode_each)

lemma pend_nrgres: "encode_nrgres cc qs cnts rs e = Some e' \<Longrightarrow> pend e' \<le> pend e + 3 * length qs"
proof (induction qs arbitrary: cnts rs e)
  case (Cons q qs)
  show ?case
  proof (cases cnts; cases rs)
    fix cnt cnts' r rs'
    assume *: "cnts = cnt # cnts'" "rs = r # rs'"
    then obtain e1 where "encode_nrgres cc qs cnts' rs' e1 = Some e'" "pend e1 \<le> pend e + 3"
      using Cons.prems by (auto simp: bind_eq_Some_conv split: if_split_asm dest!: pend_dests)
    then show ?thesis
      using Cons.IH by fastforce
  qed (use Cons.prems in \<open>auto elim: encode_nrgres.elims\<close>)
qed simp

lemma pend_gains: "encodeSmplGains cc 4 cnts gp e = Some e' \<Longrightarrow> pend e' \<le> pend e + 18"
  by (fastforce simp: encodeSmplGains_def bind_eq_Some_conv dest!: pend_dests pend_nrgres)

section \<open>Pulses\<close>

lemma pend_mag_loop: "enc_mag_loop cc n first c pos runs e = Some e' \<Longrightarrow> pend e' \<le> pend e + 3 * n"
proof (induction n arbitrary: first c pos runs e)
  case (Suc n)
  then show ?case
    by (fastforce dest!: pend_dests simp: bind_eq_Some_conv split: if_split_asm)
qed simp

lemma pend_mag_all: "enc_mag_all cc posPer cnts runs e = Some e' \<Longrightarrow> pend e' \<le> pend e + 3 * (\<Sum>c \<leftarrow> cnts. nat c)"
proof (induction cnts arbitrary: runs e)
  case (Cons c cnts)
  then show ?case
    by (fastforce dest!: pend_mag_loop simp: bind_eq_Some_conv split: if_split_asm)
qed simp

lemma pend_signs: "enc_signs syms e = Some e' \<Longrightarrow> pend e' \<le> pend e + 3 * length syms"
proof (induction syms arbitrary: e)
  case (Cons x r)
  then show ?case
    by (cases x) (auto dest!: pend_dests simp: bind_eq_Some_conv, fastforce)
qed simp

lemma pend_split3537: "encodeSplit3537 cc n g s e = Some e' \<Longrightarrow> pend e' \<le> pend e + 3"
  by (auto simp: encodeSplit3537_def Let_def bind_eq_Some_conv split: if_split_asm dest!: pend_dests)

lemma pend_split: "enc_split cc tot sub e = Some e' \<Longrightarrow> pend e' \<le> pend e + 9"
  by (fastforce simp: enc_split_def enc_first_def enc_half_def Let_def bind_eq_Some_conv split: if_split_asm dest!: pend_dests pend_split3537)

lemma signs_chunks: "signs_ok n syms \<Longrightarrow> 15 * length syms \<le> n + 14"
proof (induction syms arbitrary: n)
  case (Cons x r)
  obtain s nbits where x: "x = (s, nbits)"
    by (cases x)
  have "r = []" if "n \<le> 15"
    using Cons.prems that by (cases r) (auto simp: x)
  then show ?case
    using Cons.prems Cons.IH [of "n - 15"] by (cases "n \<le> 15") (auto simp: x min_def)
qed simp

lemma take_runs_count: "take_runs n first pos runs = Some (k, rest) \<Longrightarrow> k \<le> n"
proof (induction n first pos runs arbitrary: k rule: take_runs.induct)
  case (3 n first pos m runs)
  then show ?case
    by (auto split: if_split_asm option.split_asm)
qed simp_all

lemma take_all_runs_count: "take_all_runs cnts runs = Some n \<Longrightarrow> n \<le> (\<Sum>c \<leftarrow> cnts. nat c)"
proof (induction cnts arbitrary: runs n)
  case (Cons c cnts)
  obtain k rest m where k: "take_runs (nat c) True 80 runs = Some (k, rest)" "take_all_runs cnts rest = Some m" "n = k + m"
    using Cons.prems by (auto split: option.split_asm)
  show ?case
    using take_runs_count [OF k(1)] Cons.IH [OF k(2)] k(3) by simp
qed (simp split: if_split_asm)

lemma pend_pulses:
  assumes "s1 = 0 \<or> s1 = 1" and ok: "pulses_ok pp" and "encodeSmplPulses cc 320 4 1 0 s1 pp e = Some e'"
  shows "5 * pend e' \<le> 5 * pend e + 74 + 16 * nat (pp_Total pp)"
proof -
  obtain n where n: "take_all_runs (pp_Subfr pp) (pp_MagRuns pp) = Some n" "signs_ok n (pp_SignSyms pp)"
    using ok by (auto simp: pulses_ok_def split: option.split_asm)
  have t: "(\<Sum>c \<leftarrow> pp_Subfr pp. nat c) = nat (pp_Total pp)"
  proof -
    have "(\<Sum>c \<leftarrow> xs. nat c) = nat (sum_list xs)" if "\<forall>x \<in> set xs. 0 \<le> x" for xs :: "int list"
      using that by (induction xs) (simp_all add: nat_add_distrib sum_list_nonneg)
    then show ?thesis
      using ok by (simp add: pulses_ok_def)
  qed
  have len: "15 * length (pp_SignSyms pp) \<le> nat (pp_Total pp) + 14"
    using signs_chunks [OF n(2)] take_all_runs_count [OF n(1)] t by linarith
  have "pend e' \<le> pend e + 12 + 3 * nat (pp_Total pp) + 3 * length (pp_SignSyms pp)"
    using assms(3) unfolding t [symmetric]
    by (auto simp: encodeSmplPulses_nb [OF assms(1) ok] enc_pulses_tail_def bind_eq_Some_conv split: if_split_asm
      dest!: pend_dests pend_split pend_mag_all pend_signs)
  then show ?thesis
    using len by linarith
qed

section \<open>Pitch\<close>

lemma pend_enc_gains: "enc_gains cc p6 rows acc st e = Some (r, e') \<Longrightarrow> pend e' \<le> pend e + 6 * length rows"
proof (induction rows arbitrary: acc st e)
  case (Cons row rows)
  obtain cnt gi fi where row: "row = (cnt, gi, fi)"
    by (cases row)
  obtain acc' st' e1 where "enc_gains cc p6 rows acc' st' e1 = Some (r, e')" "pend e1 \<le> pend e + 6"
    using Cons.prems by (fastforce simp: row Let_def bind_eq_Some_conv split: if_split_asm dest!: pend_dests)
  then show ?case
    using Cons.IH by fastforce
qed simp

lemma pend_enc_segs: "enc_segs cmf seg laginds n k lix pb pi e = Some e' \<Longrightarrow> pend e' \<le> pend e + 3 * n"
proof (induction n arbitrary: k lix pb pi e)
  case (Suc n)
  then obtain k' lix' pb' pi' e1 where "enc_segs cmf seg laginds n k' lix' pb' pi' e1 = Some e'" "pend e1 \<le> pend e + 3"
    by (fastforce simp: Let_def bind_eq_Some_conv dest!: pend_dests)
  then show ?case
    using Suc.IH by fastforce
qed simp

lemma pend_blockseg: "enc_blockseg tab ix seg pb e = Some e' \<Longrightarrow> pend e' \<le> pend e + 6"
  by (auto simp: enc_blockseg_def Let_def bind_eq_Some_conv split: if_split_asm dest!: pend_dests)

lemma pend_lags:
  assumes "encodeLagsWire tab bx laginds pb pi md e = Some e'" "idx_int (Blocksegs tab) bx = Some seg" "0 < bs_Nblocks seg"
  shows "pend e' \<le> pend e + 6 + 3 * bs_Nblocks seg"
  using assms by (auto simp: encodeLagsWire_def Let_def bind_eq_Some_conv split: if_split_asm dest!: pend_dests pend_blockseg pend_enc_segs)

lemma pend_pitch:
  assumes w: "window_ok w" "tables_of w tab" and ok: "pitch_ok cc w cnts pp st0" and e: "encodeSmplPitch cc tab 320 4 0 cnts pp st e = Some (st', e')"
  shows "pend e' \<le> pend e + 54"
proof -
  define c where "c = nat (ep_BlocksegIdx pp)"
  obtain B S where BS: "cw_records w ! c = (B, S)"
    by (cases "cw_records w ! c")
  have c: "c < 217" "ep_BlocksegIdx pp = int c" "length cnts = 4"
    using ok by (auto simp: pitch_ok_def c_def)
  have B: "0 < length B" "length B \<le> 8"
    using window_of_record [OF w(1) c(1) BS] by (auto simp: record_ok_def)
  have seg: "idx_int (Blocksegs tab) (int c) = Some \<lparr>bs_Nblocks = length B, bs_Blocks = B, bs_Seglens = S\<rparr>"
    using w c(1) BS by (simp add: tables_of_def window_ok_def idx_int_def idx_def)
  have "pend e' \<le> pend e + 24 + 6 + 3 * length B"
    using e B(1) by (fastforce simp: encodeSmplPitch_def Let_def c(2) bind_eq_Some_conv split: prod.split_asm
      dest!: pend_enc_gains pend_lags [OF _ seg])
  then show ?thesis
    using B(2) by linarith
qed

end
