(* ===== verification/Mlow_Frame_Roundtrip.thy ===== *)
theory Mlow_Frame_Roundtrip
  imports Mlow_Frame Mlow_Pitch_Roundtrip Mlow_Capacity
begin

unbundle bit_operations_syntax

text \<open>
  The frame \<open>EncodeSmplFrame\<close> makes carries its parameters: whatever state the decoder is in, it reads the spectral indices,
  pulses, gains and lags of all three internal frames back.
\<close>

section \<open>Parameters the encoder can be given\<close>

definition internal_ok :: "Tables \<Rightarrow> contourWindowParts \<Rightarrow> nat \<Rightarrow> SmplInternalParams \<Rightarrow> SmplLsfState \<Rightarrow> bool" where
  "internal_ok tb w f ip st \<longleftrightarrow>
     (lp_Stage1 (ip_Lsf ip) = 0 \<or> lp_Stage1 (ip_Lsf ip) = 1) \<and> lsf_ok (tb_lsf tb) 0 (int f) (PrevStage1 st) (ip_Lsf ip) \<and> pulses_ok (ip_Pulses ip) \<and>
     (if lp_Stage1 (ip_Lsf ip) = 1
      then pitch_ok (tb_cc tb) w (pp_Subfr (ip_Pulses ip)) (ip_Pitch ip) (SmplAdvanceLsfState (int f) (lp_Stage1 (ip_Lsf ip)) st)
      else gains_ok (tb_cc tb) (pp_Subfr (ip_Pulses ip)) (ip_Gains ip))"

definition internal_next :: "contourWindowParts \<Rightarrow> nat \<Rightarrow> SmplInternalParams \<Rightarrow> SmplLsfState \<Rightarrow> SmplLsfState" where
  "internal_next w f ip st =
     (let st = SmplAdvanceLsfState (int f) (lp_Stage1 (ip_Lsf ip)) st
      in if lp_Stage1 (ip_Lsf ip) = 1 then pitch_next w (pp_Subfr (ip_Pulses ip)) (ip_Pitch ip) st else st)"

fun internals_ok :: "Tables \<Rightarrow> contourWindowParts \<Rightarrow> nat \<Rightarrow> SmplInternalParams list \<Rightarrow> SmplLsfState \<Rightarrow> bool" where
  "internals_ok tb w f [] st \<longleftrightarrow> True"
| "internals_ok tb w f (ip # ips) st \<longleftrightarrow> internal_ok tb w f ip st \<and> internals_ok tb w (f + 1) ips (internal_next w f ip st)"

text \<open>The tables: cumulative tables that rise, and a heap window laid out from the same parts as the pitch tables.\<close>

definition frame_tables :: "Tables \<Rightarrow> contourWindowParts \<Rightarrow> bool" where
  "frame_tables tb w \<longleftrightarrow> splits_ok (tb_cc tb) \<and> runs_ok (tb_cc tb) \<and> window_ok w \<and> tables_of w (tb_pitch tb) \<and> tb_mem tb = buildSmplMemFromSeed w"

section \<open>What is read back\<close>

definition internal_read :: "CcTables \<Rightarrow> SmplInternalParams \<Rightarrow> InternalFrame \<Rightarrow> bool" where
  "internal_read cc ip x \<longleftrightarrow>
     li_Stage1 (if_Lsf x) = lp_Stage1 (ip_Lsf ip) \<and> li_Grid (if_Lsf x) = lp_Grid (ip_Lsf ip) \<and> li_Stage2 (if_Lsf x) = lp_Stage2 (ip_Lsf ip) \<and>
     li_Extra (if_Lsf x) = lp_Extra (ip_Lsf ip) \<and> if_Pulses x = pulse_vector (ip_Pulses ip) \<and> cp_SfPulses (if_Params x) = pp_Subfr (ip_Pulses ip) \<and>
     cp_TotalPulses (if_Params x) = pp_Total (ip_Pulses ip) \<and> (cp_Voiced (if_Params x) \<longleftrightarrow> lp_Stage1 (ip_Lsf ip) = 1) \<and>
     (if lp_Stage1 (ip_Lsf ip) = 1
      then cp_AcbgIdx (if_Params x) = ep_GainIdx (ip_Pitch ip) \<and> cp_BlockLags2 (if_Params x) = map (\<lambda>v. min (v + 64) 640) (ep_Laginds (ip_Pitch ip)) \<and>
        cp_FcbgIdx (if_Params x) = map (\<lambda>(cnt, fi). if cnt > 0 \<and> fi > 0 then fi else 0) (zip (pp_Subfr (ip_Pulses ip)) (ep_FiltIdx (ip_Pitch ip)))
      else cp_FcbgIdx (if_Params x) = gp_NrgRes (ip_Gains ip) \<and>
        cp_NrgresDbqQ14 (if_Params x) = map (gain_q cc 4 (gp_GainMain (ip_Gains ip)) (gp_GainDelta (ip_Gains ip))) [0..3])"

section \<open>One internal frame\<close>

lemma pcodes_lsf:
  assumes "lsf_ok t 0 intf (PrevStage1 se) lsf" "intf \<noteq> 0 \<Longrightarrow> PrevStage1 sd = PrevStage1 se"
  shows "\<exists>nr. pcodes (encodeSmplLsf t 0 intf lsf se) (DecodeSmplLsf t 0 intf sd) (SmplAdvanceLsfState intf (lp_Stage1 lsf) se)
    (\<lparr>li_Stage1 = lp_Stage1 lsf, li_Grid = lp_Grid lsf, li_Stage2 = lp_Stage2 lsf, li_StageNraw = nr, li_Extra = lp_Extra lsf\<rparr>,
      dec_lsf_state intf (lp_Stage1 lsf) sd)"
proof -
  obtain nr where "codes (enc_lsf_syms t 0 intf lsf se) (DecodeSmplLsf t 0 intf sd)
      (\<lparr>li_Stage1 = lp_Stage1 lsf, li_Grid = lp_Grid lsf, li_Stage2 = lp_Stage2 lsf, li_StageNraw = nr, li_Extra = lp_Extra lsf\<rparr>,
        dec_lsf_state intf (lp_Stage1 lsf) sd)"
    using codes_lsf [OF assms(1), of sd] assms(2) by blast
  from pcodesI [OF this, of "SmplAdvanceLsfState intf (lp_Stage1 lsf) se"] show ?thesis
    unfolding encodeSmplLsf_split [abs_def] by blast
qed

lemma lsf_sync:
  assumes "intf \<noteq> 0 \<Longrightarrow> in_sync se sd"
  shows "in_sync (SmplAdvanceLsfState intf s1 se) (dec_lsf_state intf s1 sd)"
  using assms by (auto simp: in_sync_def SmplAdvanceLsfState_def dec_lsf_state_def Let_def)

lemma pcodes_internal:
  assumes tb: "frame_tables tb w" and ok: "internal_ok tb w f ip se" and sync: "f \<noteq> 0 \<Longrightarrow> in_sync se sd"
  shows "\<exists>x sd'. pcodes (enc_internal tb 0 f ip se) (decodeOne tb 0 f sd) (internal_next w f ip se) (x, sd') \<and>
    internal_read (tb_cc tb) ip x \<and> in_sync (internal_next w f ip se) sd'"
proof -
  define cc s1 te td where "cc = tb_cc tb" and "s1 = lp_Stage1 (ip_Lsf ip)" and "te = SmplAdvanceLsfState (int f) s1 se"
    and "td = dec_lsf_state (int f) s1 sd"
  have T: "splits_ok cc" "runs_ok cc" "window_ok w" "tables_of w (tb_pitch tb)" "tb_mem tb = buildSmplMemFromSeed w"
    using tb by (simp_all add: frame_tables_def cc_def)
  have k: "s1 = 0 \<or> s1 = 1" "lsf_ok (tb_lsf tb) 0 (int f) (PrevStage1 se) (ip_Lsf ip)" "pulses_ok (ip_Pulses ip)"
    using ok by (simp_all add: internal_ok_def s1_def)
  have ts: "in_sync te td"
    unfolding te_def td_def by (rule lsf_sync) (simp add: sync)
  obtain nr where L: "pcodes (encodeSmplLsf (tb_lsf tb) 0 (int f) (ip_Lsf ip) se) (DecodeSmplLsf (tb_lsf tb) 0 (int f) sd) te
      (\<lparr>li_Stage1 = s1, li_Grid = lp_Grid (ip_Lsf ip), li_Stage2 = lp_Stage2 (ip_Lsf ip), li_StageNraw = nr, li_Extra = lp_Extra (ip_Lsf ip)\<rparr>, td)"
    using pcodes_lsf [OF k(2), of sd] sync unfolding s1_def te_def td_def by (auto simp: in_sync_def)
  define lsf where "lsf = \<lparr>li_Stage1 = s1, li_Grid = lp_Grid (ip_Lsf ip), li_Stage2 = lp_Stage2 (ip_Lsf ip), li_StageNraw = nr, li_Extra = lp_Extra (ip_Lsf ip)\<rparr>"
  obtain pu where P: "codes (encodeSmplPulses cc 320 4 1 0 s1 (ip_Pulses ip)) (DecodeSmplPulses cc 320 4 1 0 s1) pu"
    "pr_Subfr pu = pp_Subfr (ip_Pulses ip)" "pr_Pulses pu = pulse_vector (ip_Pulses ip)"
    using codes_pulses [OF T(1,2) k(3,1)] by blast
  have tot: "pp_Total (ip_Pulses ip) = sum_list (pp_Subfr (ip_Pulses ip))"
    using k(3) by (simp add: pulses_ok_def)
  define D3 where "D3 = (\<lambda>(lsf, st) pu d. if li_Stage1 lsf = 1
      then DecodeSmplPitch cc (tb_mem tb) 320 4 0 (pr_Subfr pu) st d \<bind> (\<lambda>((pr, st), d).
        Some ((\<lparr>if_Lsf = lsf, if_Pulses = pr_Pulses pu, if_Params = voiced_params pu pr\<rparr>, st), d))
      else DecodeSmplGains cc 4 (pr_Subfr pu) d \<bind> (\<lambda>(g, d).
        Some ((\<lparr>if_Lsf = lsf, if_Pulses = pr_Pulses pu, if_Params = unvoiced_params pu g\<rparr>, st), d)))"
  define E3 where "E3 = (\<lambda>st e. if s1 = 1 then encodeSmplPitch cc (tb_pitch tb) 320 4 0 (pp_Subfr (ip_Pulses ip)) (ip_Pitch ip) st e
      else encodeSmplGains cc 4 (pp_Subfr (ip_Pulses ip)) (ip_Gains ip) e \<bind> (\<lambda>e. Some (st, e)))"
  have 3: "\<exists>x sd'. pcodes (E3 te) (D3 (lsf, td) pu) (internal_next w f ip se) (x, sd') \<and>
      internal_read cc ip x \<and> in_sync (internal_next w f ip se) sd'"
  proof (cases "s1 = 1")
    case True
    have "pitch_ok cc w (pp_Subfr (ip_Pulses ip)) (ip_Pitch ip) te"
      using ok True by (simp add: internal_ok_def s1_def te_def cc_def)
    then obtain r sd' where r: "pcodes (encodeSmplPitch cc (tb_pitch tb) 320 4 0 (pp_Subfr (ip_Pulses ip)) (ip_Pitch ip) te)
        (DecodeSmplPitch cc (buildSmplMemFromSeed w) 320 4 0 (pp_Subfr (ip_Pulses ip)) td) (pitch_next w (pp_Subfr (ip_Pulses ip)) (ip_Pitch ip) te) (r, sd')"
      "pitch_read (pp_Subfr (ip_Pulses ip)) (ip_Pitch ip) r" "in_sync (pitch_next w (pp_Subfr (ip_Pulses ip)) (ip_Pitch ip) te) sd'"
      using pcodes_pitch [OF T(3,4) _ ts] by blast
    have nx: "internal_next w f ip se = pitch_next w (pp_Subfr (ip_Pulses ip)) (ip_Pitch ip) te"
      using True by (simp add: internal_next_def s1_def te_def)
    define x where "x = \<lparr>if_Lsf = lsf, if_Pulses = pr_Pulses pu, if_Params = voiced_params pu r\<rparr>"
    have "pcodes (E3 te) (D3 (lsf, td) pu) (internal_next w f ip se) (x, sd')"
      using pcodes_then [OF r(1), of "\<lambda>x. x" "\<lambda>(pr, st). (\<lparr>if_Lsf = lsf, if_Pulses = pr_Pulses pu, if_Params = voiced_params pu pr\<rparr>, st)"] True
      by (simp add: E3_def D3_def nx x_def lsf_def P(2) T(5) split_def)
    moreover have "internal_read cc ip x"
      using r(2) True P tot
      by (auto simp: internal_read_def x_def lsf_def voiced_params_def pitch_read_def s1_def split_def intro!: map_cong)
    ultimately show ?thesis
      using r(3) nx by auto
  next
    case False
    have g: "gains_ok cc (pp_Subfr (ip_Pulses ip)) (ip_Gains ip)"
      using ok False by (simp add: internal_ok_def s1_def cc_def)
    define gr where "gr = \<lparr>gr_GainQ = map (gain_q cc 4 (gp_GainMain (ip_Gains ip)) (gp_GainDelta (ip_Gains ip))) [0..3], gr_NrgRes = gp_NrgRes (ip_Gains ip),
        gr_GainMain = gp_GainMain (ip_Gains ip), gr_GainDelta = gp_GainDelta (ip_Gains ip)\<rparr>"
    define x where "x = \<lparr>if_Lsf = lsf, if_Pulses = pr_Pulses pu, if_Params = unvoiced_params pu gr\<rparr>"
    have nx: "internal_next w f ip se = te"
      using False by (simp add: internal_next_def s1_def te_def)
    have "codes (encodeSmplGains cc 4 (pp_Subfr (ip_Pulses ip)) (ip_Gains ip)) (DecodeSmplGains cc 4 (pp_Subfr (ip_Pulses ip))) gr"
      unfolding gr_def by (rule codes_gains [OF g])
    from pcodesI [OF codes_then [OF this, of "\<lambda>g. (\<lparr>if_Lsf = lsf, if_Pulses = pr_Pulses pu, if_Params = unvoiced_params pu g\<rparr>, td)"], of te]
    have "pcodes (E3 te) (D3 (lsf, td) pu) (internal_next w f ip se) (x, td)"
      using False by (simp add: E3_def D3_def nx x_def lsf_def P(2))
    moreover have "internal_read cc ip x"
      using False P tot by (simp add: internal_read_def x_def lsf_def unvoiced_params_def gr_def s1_def)
    ultimately show ?thesis
      using ts nx by auto
  qed
  then obtain x sd' where x: "pcodes (E3 te) (D3 (lsf, td) pu) (internal_next w f ip se) (x, sd')"
    "internal_read cc ip x" "in_sync (internal_next w f ip se) sd'"
    by blast
  have 2: "pcodes (\<lambda>e. encodeSmplPulses cc 320 4 1 0 s1 (ip_Pulses ip) e \<bind> E3 te)
      (\<lambda>d. DecodeSmplPulses cc 320 4 1 0 s1 d \<bind> (\<lambda>(pu, d). D3 (lsf, td) pu d)) (internal_next w f ip se) (x, sd')"
    by (rule pcodes_seq [OF P(1)]) (rule x(1))
  define E2 where "E2 = (\<lambda>st e. encodeSmplPulses cc 320 4 1 0 s1 (ip_Pulses ip) e \<bind> E3 st)"
  define D2 where "D2 = (\<lambda>(lsf, st) d. DecodeSmplPulses cc 320 4 1 0 (li_Stage1 lsf) d \<bind> (\<lambda>(pu, d). D3 (lsf, st) pu d))"
  have "pcodes (\<lambda>e. encodeSmplLsf (tb_lsf tb) 0 (int f) (ip_Lsf ip) se e \<bind> (\<lambda>(st, e). E2 st e))
      (\<lambda>d. DecodeSmplLsf (tb_lsf tb) 0 (int f) sd d \<bind> (\<lambda>(s, d). D2 s d)) (internal_next w f ip se) (x, sd')"
    by (rule pcodes_bind [OF L]) (use 2 in \<open>simp add: E2_def D2_def lsf_def\<close>)
  moreover have "enc_internal tb 0 f ip se = (\<lambda>e. encodeSmplLsf (tb_lsf tb) 0 (int f) (ip_Lsf ip) se e \<bind> (\<lambda>(st, e). E2 st e))"
    by (intro ext) (simp add: enc_internal_def E2_def E3_def cc_def s1_def cong: if_cong)
  moreover have "decodeOne tb 0 f sd = (\<lambda>d. DecodeSmplLsf (tb_lsf tb) 0 (int f) sd d \<bind> (\<lambda>(s, d). D2 s d))"
    unfolding decodeOne_def [abs_def] D2_def D3_def cc_def by (simp add: prod.case_eq_if split_def cong: if_cong)
  ultimately show ?thesis
    using x(2,3) by (auto simp: cc_def)
qed

section \<open>The three internal frames\<close>

lemma pcodes_internals:
  assumes "frame_tables tb w" "internals_ok tb w f ips se" "f \<noteq> 0 \<Longrightarrow> in_sync se sd"
  shows "\<exists>b xs sd'. pcodes (enc_internals tb 0 f ips se) (decode_internals tb 0 f (length ips) sd) b (xs, sd') \<and>
    list_all2 (internal_read (tb_cc tb)) ips xs"
  using assms(2,3)
proof (induction ips arbitrary: f se sd)
  case Nil
  then show ?case
    using pcodes_return [of se "([], sd)"] by (intro exI [of _ se] exI [of _ "[]"] exI [of _ sd]) simp
next
  case (Cons ip ips)
  obtain x sd1 where x: "pcodes (enc_internal tb 0 f ip se) (decodeOne tb 0 f sd) (internal_next w f ip se) (x, sd1)"
    "internal_read (tb_cc tb) ip x" "in_sync (internal_next w f ip se) sd1"
    using pcodes_internal [OF assms(1), of f ip se sd] Cons.prems by auto
  obtain b xs sd' where xs: "pcodes (enc_internals tb 0 (f + 1) ips (internal_next w f ip se)) (decode_internals tb 0 (f + 1) (length ips) sd1) b (xs, sd')"
    "list_all2 (internal_read (tb_cc tb)) ips xs"
    using Cons.IH [of "f + 1" "internal_next w f ip se" sd1] Cons.prems(1) x(3) by auto
  define D where "D = (\<lambda>(x, st) d. decode_internals tb 0 (f + 1) (length ips) st d \<bind> (\<lambda>((xs, st), d). Some ((x # xs, st), d)))"
  have "pcodes (enc_internals tb 0 (f + 1) ips (internal_next w f ip se)) (D (x, sd1)) b (x # xs, sd')"
    using pcodes_then [OF xs(1), of "\<lambda>x. x" "\<lambda>(xs, st). (x # xs, st)"] by (simp add: D_def split_def)
  with x(1) have "pcodes (\<lambda>e. enc_internal tb 0 f ip se e \<bind> (\<lambda>(st, e). enc_internals tb 0 (f + 1) ips st e))
      (\<lambda>d. decodeOne tb 0 f sd d \<bind> (\<lambda>(s, d). D s d)) b (x # xs, sd')"
    by (rule pcodes_bind)
  moreover have "decode_internals tb 0 f (length (ip # ips)) sd = (\<lambda>d. decodeOne tb 0 f sd d \<bind> (\<lambda>(s, d). D s d))"
    by (intro ext) (simp add: D_def split_def)
  moreover have "enc_internals tb 0 f (ip # ips) se = (\<lambda>e. enc_internal tb 0 f ip se e \<bind> (\<lambda>(st, e). enc_internals tb 0 (f + 1) ips st e))"
    by (intro ext) simp
  ultimately show ?case
    using x(2) xs(2) by (metis list_all2_Cons)
qed

section \<open>A frame\<close>

text \<open>What the decoder makes of the internal frames it read: the samples, and its state.\<close>

definition spoken :: "('s, 'f :: {zero, one, uminus, ord}) Synth \<Rightarrow> 's \<Rightarrow> InternalFrame list \<Rightarrow> 'f list" where
  "spoken S s xs = (let (out, s) = synth_all S 0 xs s
     in map (clamp \<circ> fst (sy_post S s out (concat (map (cp_BlockLags2 \<circ> if_Params) xs)) (map (cp_TotalPulses \<circ> if_Params) xs))) [0..<length out])"

lemma length_synth_all: "length (fst (synth_all S c xs s)) = 320 * length xs"
  by (induction xs arbitrary: s) (simp_all add: split_def Let_def SmplIntfLen_def)

lemma length_spoken: "length (spoken S s xs) = 320 * length xs"
  by (simp add: spoken_def split_def Let_def length_synth_all)

lemma decodeActiveFrame_spoken:
  assumes "toc_config b = 0" "NewRangeDecoder body = Some d" "decode_internals tb 0 0 3 (ds_Lstate (md_state dec)) d = Some ((xs, st), d')"
  shows "\<exists>dec'. decodeActiveFrame tb S (b # body) dec = Some (spoken S (ds_syn (md_state dec)) xs, dec') \<and> ds_Lstate (md_state dec') = st"
  using assms by (simp add: decodeActiveFrame_def idx_def slice_from_def slice_def internalGroupSize_def spoken_def split_def Let_def)

lemma toc_50: "toc_config 0x50 = 0" "decodeFrame tb S (0x50 # body) dec = decodeActiveFrame tb S (0x50 # body) dec"
  by (simp_all add: toc_config_def decodeFrame_def ParseSmplTOC_def IsStandardOpusFrame_def idx_def)

text \<open>The pulses of a frame, and the room they leave in the buffer.\<close>

definition frame_pulses :: "SmplInternalParams list \<Rightarrow> nat" where
  "frame_pulses ips = (\<Sum>ip \<leftarrow> ips. nat (pp_Total (ip_Pulses ip)))"

lemma pend_internal:
  assumes tb: "frame_tables tb w" and ok: "internal_ok tb w f0 ip st0" and e: "enc_internal tb 0 f ip st e = Some (st', e')"
  shows "5 * pend e' \<le> 5 * pend e + 629 + 16 * nat (pp_Total (ip_Pulses ip))"
proof -
  define s1 where "s1 = lp_Stage1 (ip_Lsf ip)"
  have k: "s1 = 0 \<or> s1 = 1" "pulses_ok (ip_Pulses ip)"
    using ok by (simp_all add: internal_ok_def s1_def)
  obtain st1 e1 e2 where e1: "encodeSmplLsf (tb_lsf tb) 0 (int f) (ip_Lsf ip) st e = Some (st1, e1)"
    "encodeSmplPulses (tb_cc tb) 320 4 1 0 s1 (ip_Pulses ip) e1 = Some e2"
    "(if s1 = 1 then encodeSmplPitch (tb_cc tb) (tb_pitch tb) 320 4 0 (pp_Subfr (ip_Pulses ip)) (ip_Pitch ip) st1 e2
      else encodeSmplGains (tb_cc tb) 4 (pp_Subfr (ip_Pulses ip)) (ip_Gains ip) e2 \<bind> (\<lambda>e. Some (st1, e))) = Some (st', e')"
    using e by (auto simp: enc_internal_def s1_def bind_eq_Some_conv)
  have "pend e' \<le> pend e2 + 54"
  proof (cases "s1 = 1")
    case True
    then show ?thesis
      using e1(3) ok tb by (intro pend_pitch [of w "tb_pitch tb" "tb_cc tb"]) (auto simp: internal_ok_def frame_tables_def s1_def)
  next
    case False
    then show ?thesis
      using e1(3) by (auto simp: bind_eq_Some_conv dest!: pend_gains)
  qed
  then show ?thesis
    using pend_lsf [OF e1(1)] pend_pulses [OF k e1(2)] by linarith
qed

lemma pend_internals:
  assumes tb: "frame_tables tb w"
  shows "internals_ok tb w f0 ips st0 \<Longrightarrow> enc_internals tb 0 f ips st e = Some (st', e') \<Longrightarrow>
    5 * pend e' \<le> 5 * pend e + 629 * length ips + 16 * frame_pulses ips"
proof (induction ips arbitrary: f0 f st0 st e)
  case (Cons ip ips)
  obtain st1 e1 where e1: "enc_internal tb 0 f ip st e = Some (st1, e1)" "enc_internals tb 0 (f + 1) ips st1 e1 = Some (st', e')"
    using Cons.prems(2) by (auto simp: bind_eq_Some_conv)
  have i: "internal_ok tb w f0 ip st0" "internals_ok tb w (f0 + 1) ips (internal_next w f0 ip st0)"
    using Cons.prems(1) by simp_all
  show ?case
    using pend_internal [OF tb i(1) e1(1)] Cons.IH [OF i(2) e1(2)] by (simp add: frame_pulses_def)
qed simp

lemma EncodeSmplFrame_codes:
  assumes "frame_tables tb w" "internals_ok tb w 0 (fp_Internal fp) zero_SmplLsfState" "fp_Config fp = 0" "length (fp_Internal fp) = 3"
  shows "40 < frame_pulses (fp_Internal fp) \<and> EncodeSmplFrame tb fp = Some (Inl ErrBufferOverflow) \<or> (\<exists>body. EncodeSmplFrame tb fp = Some (Inr (fp_TOC fp # body)) \<and>
    (\<forall>sd. \<exists>d xs sd' d'. NewRangeDecoder body = Some d \<and> decode_internals tb 0 0 (length (fp_Internal fp)) sd d = Some ((xs, sd'), d') \<and>
      list_all2 (internal_read (tb_cc tb)) (fp_Internal fp) xs))"
proof -
  define E where "E = (\<lambda>e. enc_internals tb 0 0 (fp_Internal fp) zero_SmplLsfState e \<bind> (\<lambda>(b, e). Some e))"
  have pc: "\<exists>b xs sd'. pcodes (enc_internals tb 0 0 (fp_Internal fp) zero_SmplLsfState) (decode_internals tb 0 0 (length (fp_Internal fp)) sd) b (xs, sd') \<and>
      list_all2 (internal_read (tb_cc tb)) (fp_Internal fp) xs" for sd
    using pcodes_internals [OF assms(1,2)] by blast
  have gr: "grows 505 E" if "frame_pulses (fp_Internal fp) \<le> 40"
    unfolding grows_def E_def
  proof (intro allI impI)
    fix e e'
    assume "enc_internals tb 0 0 (fp_Internal fp) zero_SmplLsfState e \<bind> (\<lambda>(b, e). Some e) = Some e'"
    then obtain st where "enc_internals tb 0 0 (fp_Internal fp) zero_SmplLsfState e = Some (st, e')"
      by (auto simp: bind_eq_Some_conv)
    from pend_internals [OF assms(1,2) this] show "pend e' \<le> pend e + 505"
      using that assms(4) by linarith
  qed
  have rd: "\<exists>xs sd'. codes E (decode_internals tb 0 0 (length (fp_Internal fp)) sd) (xs, sd') \<and>
      list_all2 (internal_read (tb_cc tb)) (fp_Internal fp) xs" for sd
  proof -
    obtain b xs sd' where "pcodes (enc_internals tb 0 0 (fp_Internal fp) zero_SmplLsfState) (decode_internals tb 0 0 (length (fp_Internal fp)) sd) b (xs, sd')"
      "list_all2 (internal_read (tb_cc tb)) (fp_Internal fp) xs"
      using pc by blast
    with pcodes_codes [OF this(1)] show ?thesis
      unfolding E_def by blast
  qed
  define F where "F = Done (the (E (NewRangeEncoder (1 + SmplEncodeBufBytes))))"
  have E: "E (NewRangeEncoder (1 + SmplEncodeBufBytes)) \<noteq> None" "re_err F = 0 \<Longrightarrow> ConsumedLen F \<le> length (Bytes F)"
    "re_err F = 0 \<Longrightarrow> \<exists>d xs sd' d'. NewRangeDecoder (take (ConsumedLen F) (Bytes F)) = Some d \<and>
      decode_internals tb 0 0 (length (fp_Internal fp)) sd d = Some ((xs, sd'), d') \<and> list_all2 (internal_read (tb_cc tb)) (fp_Internal fp) xs" for sd
  proof -
    obtain xs sd' where c: "codes E (decode_internals tb 0 0 (length (fp_Internal fp)) sd) (xs, sd')"
      "list_all2 (internal_read (tb_cc tb)) (fp_Internal fp) xs"
      using rd by blast
    obtain e where e: "E (NewRangeEncoder (1 + SmplEncodeBufBytes)) = Some e" "re_err F = 0 \<Longrightarrow> ConsumedLen F \<le> length (Bytes F)"
      "\<And>bs. re_err F = 0 \<Longrightarrow> take (re_offs F) bs = take (re_offs F) (Bytes F) \<Longrightarrow> re_offs F \<le> length bs \<Longrightarrow>
        \<exists>d d'. NewRangeDecoder bs = Some d \<and> decode_internals tb 0 0 (length (fp_Internal fp)) sd d = Some ((xs, sd'), d')"
      using codes_roundtrip [OF c(1), of "1 + SmplEncodeBufBytes"] unfolding F_def by auto
    show "E (NewRangeEncoder (1 + SmplEncodeBufBytes)) \<noteq> None" "re_err F = 0 \<Longrightarrow> ConsumedLen F \<le> length (Bytes F)"
      using e(1,2) by simp_all
    assume er: "re_err F = 0"
    have "take (re_offs F) (take (ConsumedLen F) (Bytes F)) = take (re_offs F) (Bytes F)" "re_offs F \<le> length (take (ConsumedLen F) (Bytes F))"
      using e(2) [OF er] by (simp_all add: ConsumedLen_def)
    from e(3) [OF er this] c(2) show "\<exists>d xs sd' d'. NewRangeDecoder (take (ConsumedLen F) (Bytes F)) = Some d \<and>
      decode_internals tb 0 0 (length (fp_Internal fp)) sd d = Some ((xs, sd'), d') \<and> list_all2 (internal_read (tb_cc tb)) (fp_Internal fp) xs"
      by blast
  qed
  have "EncodeSmplFrame tb fp = E (NewRangeEncoder (1 + SmplEncodeBufBytes)) \<bind> (\<lambda>e. let e = Done e in
      if re_err e \<noteq> 0 then Some (Inl ErrBufferOverflow) else slice (Bytes e) 0 (ConsumedLen e) \<bind> (\<lambda>body. Some (Inr (fp_TOC fp # body))))"
    by (simp add: EncodeSmplFrame_def E_def assms(3) split_def)
  with E(1) have enc: "EncodeSmplFrame tb fp = (if re_err F \<noteq> 0 then Some (Inl ErrBufferOverflow)
      else slice (Bytes F) 0 (ConsumedLen F) \<bind> (\<lambda>body. Some (Inr (fp_TOC fp # body))))"
    by (auto simp: F_def Let_def)
  have "40 < frame_pulses (fp_Internal fp)" if "re_err F \<noteq> 0"
    using that rd [of undefined] codes_room [of E _ _ 505 "1 + SmplEncodeBufBytes"] gr E(1) by (fastforce simp: F_def SmplEncodeBufBytes_def)
  then show ?thesis
  proof (cases "re_err F = 0")
    case True
    with E(2) have "EncodeSmplFrame tb fp = Some (Inr (fp_TOC fp # take (ConsumedLen F) (Bytes F)))"
      by (simp add: enc slice_def)
    with E(3) [OF True] show ?thesis
      by blast
  qed (simp add: enc)
qed

section \<open>A sample frame\<close>

definition ramp :: "nat \<Rightarrow> u16 list" where
  "ramp n = map of_nat [0..<Suc n]"

definition sample_cc :: CcTables where
  "sample_cc = \<lparr>nrgresGain4 = ramp 4, nrgresShape4 = ramp 4, fcbgOffset = replicate 12 (ramp 176), acbgainsHr = concat (replicate 17 (ramp 16)), acbgainsLr = [],
     fcbgainsV = ramp 34, fcbgainsVDelta = ramp 67, acbgainsCbHrQ14 = replicate 48 0, acbgainsCbLrQ14 = [], gainRecon_tab = [], gainReconBase = 0,
     nPulseCmfs = [], splitCmfs = map (\<lambda>n. ramp (nat (n - 2 * max (n - 80) 0 + 1))) [1..159],
     runlen_tab = map (\<lambda>oct. \<lparr>rl_maxSamples = 8 * oct, rl_cmfs = replicate 40 (ramp (nat (8 * oct)))\<rparr>) [1..20]\<rparr>"

definition sample_lsf :: SmplTables where
  "sample_lsf = \<lparr>LsfSel = replicate 3 (ramp 2), LsfGrids = \<lparr>lg_Match1 = ramp 2, lg_Match1Alt = ramp 2, lg_Match0 = ramp 2, lg_Match0Alt = ramp 2\<rparr>,
     LsfStage2 = replicate 2 [replicate 2 (replicate 16 (ramp 8))], LsfExtra = ramp 3\<rparr>"

definition ramp32 :: "nat \<Rightarrow> u32 list" where
  "ramp32 n = map of_nat [0..<n]"

definition sample_window :: contourWindowParts where
  "sample_window = \<lparr>cw_records = replicate 217 ([0, 1], [3, 5]), cw_contourMap = map of_nat [1..<218],
     cw_firstblockRange = replicate 9 (0, 216), cw_lagCdf = ramp32 218, cw_fracCmfs = replicate 3 (ramp32 320), cw_deltaCmfs = replicate 9 (ramp32 10)\<rparr>"

definition sample_pitch :: PitchTables where
  "sample_pitch = \<lparr>Blocksegs = map (\<lambda>(B, S). \<lparr>bs_Nblocks = length B, bs_Blocks = B, bs_Seglens = S\<rparr>) (cw_records sample_window),
     Blocktracks = [], Blocksegs2idx = map unat (cw_contourMap sample_window), BlocksegIdxCmf = cw_lagCdf sample_window,
     DeltaLagCmfs = cw_fracCmfs sample_window, BlocksegsIx = [], FirstblockRange = cw_firstblockRange sample_window, BlockTransitionCmf = cw_deltaCmfs sample_window\<rparr>"

definition sample_tables :: Tables where
  "sample_tables = \<lparr>tb_lsf = sample_lsf, tb_cc = sample_cc, tb_pitch = sample_pitch, tb_mem = buildSmplMemFromSeed sample_window\<rparr>"

definition sample_pulses :: "int \<Rightarrow> SmplPulseParams" where
  "sample_pulses n = (if n = 0 then \<lparr>pp_Total = 0, pp_Subfr = [0, 0, 0, 0], pp_MagRuns = [], pp_SignSyms = []\<rparr>
     else \<lparr>pp_Total = 2, pp_Subfr = [0, 2, 0, 0], pp_MagRuns = [13, 30], pp_SignSyms = [(2, 2)]\<rparr>)"

definition sample_internal :: "int \<Rightarrow> int \<Rightarrow> SmplInternalParams" where
  "sample_internal s1 n = \<lparr>ip_Lsf = \<lparr>lp_Stage1 = s1, lp_Grid = 1, lp_Stage2 = [7, 0, 3, 4, 5, 1, 2, 6, 0, 0, 7, 7, 3, 2, 1, 5], lp_Extra = 2\<rparr>,
     ip_Pulses = sample_pulses n, ip_HasPitch = (s1 = 1), ip_Pitch = \<lparr>ep_GainIdx = [3, 1, 0, 15], ep_FiltIdx = [0, 20, 0, 0],
     ep_BlocksegIdx = 100, ep_Laginds = [40, 40, 40, 70, 70, 70, 70, 70]\<rparr>, ip_Gains = \<lparr>gp_GainMain = 2, gp_GainDelta = 3, gp_NrgRes = [0, 0, 0, 0]\<rparr>\<rparr>"

definition sample_frame :: SmplFrameParams where
  "sample_frame = \<lparr>fp_TOC = 0x50, fp_Config = 0, fp_Internal = [sample_internal 0 0, sample_internal 1 2, sample_internal 1 0]\<rparr>"

lemma cdf_table_ramp: "n \<le> 32767 \<Longrightarrow> cdf_table n (ramp n)"
  by (auto simp: cdf_table_def ramp_def sorted_wrt_map sorted_wrt_iff_nth_less word_less_nat_alt unsigned_of_nat take_bit_nat_eq_self hd_map
      last_map simp del: upt_Suc)

lemma sorted_ramp: "n \<le> 65535 \<Longrightarrow> sorted_wrt (<) (ramp n)"
  by (auto simp: ramp_def sorted_wrt_map sorted_wrt_iff_nth_less word_less_nat_alt unsigned_of_nat take_bit_nat_eq_self simp del: upt_Suc)

lemma sym_of_ramp: "0 \<le> k \<Longrightarrow> k < int n \<Longrightarrow> n \<le> 65535 \<Longrightarrow> sym_of (ramp n) k"
  unfolding sym_of_def by (intro conjI sorted_cdf_ok sorted_ramp) (simp_all add: ramp_def)

lemma cmf_ok_ramp32: "0 < n \<Longrightarrow> n \<le> 65536 \<Longrightarrow> cmf_ok n (ramp32 n)"
  by (auto simp: cmf_ok_def ramp32_def sorted_wrt_map sorted_wrt_iff_nth_less word_less_nat_alt unsigned_of_nat take_bit_nat_eq_self)

lemma sample_splits: "splits_ok sample_cc"
  by (auto simp: splits_ok_def SplitCmf_def sample_cc_def Let_def max_def intro!: cdf_table_ramp)

lemma sample_runs: "runs_ok sample_cc"
  by (auto simp: runs_ok_def Runlen_def rl_Cmf_def idx_int_def idx_def sample_cc_def intro!: cdf_table_ramp)

lemma sample_window_ok: "window_ok sample_window"
proof -
  have "distinct (map of_nat [1..<218] :: u8 list)"
    by (auto simp: distinct_map inj_on_def word_of_nat_eq_iff take_bit_nat_eq_self)
  then show ?thesis
    by (auto simp: window_ok_def sample_window_def cmf_ok_ramp32 record_ok_def first_ok_def unsigned_of_nat take_bit_nat_eq_self
        simp del: upt_Suc of_nat_Suc of_nat_add)
qed

lemma sample_frame_tables: "frame_tables sample_tables sample_window"
  using sample_splits sample_runs sample_window_ok
  by (simp add: frame_tables_def sample_tables_def tables_of_def sample_pitch_def)

lemma list_all2_replicate: "length ks = n \<Longrightarrow> (\<forall>k \<in> set ks. P c k) \<Longrightarrow> list_all2 P (replicate n c) ks"
  by (simp add: list_all2_conv_all_nth)

lemma sample_lsf_ok:
  assumes "s1 = 0 \<or> s1 = 1"
  shows "lsf_ok sample_lsf 0 f prev (ip_Lsf (sample_internal s1 n))"
proof -
  define ks :: "int list" where "ks = [7, 0, 3, 4, 5, 1, 2, 6, 0, 0, 7, 7, 3, 2, 1, 5]"
  have "idx (LsfSel sample_lsf) (if f \<noteq> 0 then if prev \<noteq> 0 then 2 else 1 else 0) = Some (ramp 2)"
    by (simp add: sample_lsf_def idx_def)
  moreover have "lsf_grid_cdf sample_lsf b s1 = ramp 2" for b
    by (simp add: lsf_grid_cdf_def sample_lsf_def)
  moreover have "lsf_stage2_cdfs sample_lsf s1 0 1 = Some (replicate 16 (ramp 8))"
    using assms by (auto simp: lsf_stage2_cdfs_def sample_lsf_def idx_int_def idx_def slice_def)
  moreover have "list_all2 sym_of (replicate 16 (ramp 8)) ks"
    by (intro list_all2_replicate) (simp_all add: ks_def sym_of_ramp)
  moreover have "sym_of (ramp 2) s1" "sym_of (ramp 2) 1" "sym_of (LsfExtra sample_lsf) 2"
    using assms by (auto simp: sample_lsf_def intro!: sym_of_ramp)
  ultimately show ?thesis
    by (simp add: lsf_ok_def sample_internal_def ks_def [symmetric] del: One_nat_def)
qed

lemma sample_pulses_ok: "pulses_ok (sample_pulses 0)" "pulses_ok (sample_pulses 2)"
proof -
  have "take_runs 2 True 80 [13, 30] = Some (2, [])"
    by (simp add: numeral_2_eq_2)
  then show "pulses_ok (sample_pulses 2)"
    by (simp add: pulses_ok_def sample_pulses_def)
qed (simp add: pulses_ok_def sample_pulses_def)

lemma sample_row: "pg \<in> {- 1..15} \<Longrightarrow> acb_row sample_cc 0 pg = Some (ramp 16)"
proof -
  have row: "slice (concat (replicate 17 (ramp 16))) (17 * n) (17 * n + 17) = Some (ramp 16)" if "n < 17" for n
    using drop_concat_uniform [of "replicate 17 (ramp 16)" 17 n] that
    by (simp add: slice_def length_concat_uniform [of _ 17] ramp_def del: upt_Suc)
  show "acb_row sample_cc 0 pg = Some (ramp 16)" if "pg \<in> {- 1..15}"
  proof -
    have "nat ((pg + 1) * 17) = 17 * nat (pg + 1)" "nat ((pg + 1) * 17 + 17) = 17 * nat (pg + 1) + 17" "nat (pg + 1) < 17"
      using that by auto
    then show ?thesis
      using that row [of "nat (pg + 1)"] by (simp add: acb_row_def AcbgainRow_def slice_int_def sample_cc_def)
  qed
qed

lemma sample_weights: "0 \<le> gi \<Longrightarrow> gi < 24 \<Longrightarrow> acb_weights sample_cc 0 gi = Some (0, 0)"
proof -
  assume "0 \<le> gi" "gi < 24"
  then have "nat (gi * 2) < 48" "nat (gi * 2 + 1) < 48"
    by linarith+
  with \<open>0 \<le> gi\<close> show ?thesis
    by (simp add: acb_weights_def AcbgainWeights_def sample_cc_def idx_int_def idx_def)
qed

lemma sample_lags: "cw_records sample_window ! 100 = ([0, 1], [3, 5])" "seg_lags [0, 1] [3, 5] [40, 40, 40, 70, 70, 70, 70, 70]"
  by (simp_all add: sample_window_def eval_nat_numeral)

lemma sample_pitch_ok:
  assumes "PrevGainIdx st \<in> {- 1, 15}" "n = 0 \<or> PrevFiltIdx st = - 1"
  shows "pitch_ok sample_cc sample_window (pp_Subfr (sample_pulses n)) (ip_Pitch (sample_internal 1 m)) st"
proof -
  have "sym_of (fcbgainsV sample_cc) 20"
    by (simp add: sample_cc_def sym_of_ramp)
  moreover have "acb_row sample_cc 0 (PrevGainIdx st) = Some (ramp 16)"
    using assms(1) by (intro sample_row) auto
  ultimately have "rows_ok sample_cc (pitch_rows (pp_Subfr (sample_pulses n)) (ip_Pitch (sample_internal 1 m))) (PrevGainIdx st) (PrevFiltIdx st)"
    using assms(2) by (auto simp: pitch_rows_def sample_pulses_def sample_internal_def sample_row sample_weights filt_cdf_def row_filt_def sym_of_ramp)
  then show ?thesis
    using sample_lags by (simp add: pitch_ok_def sample_pulses_def sample_internal_def)
qed

lemma sample_internals_ok: "internals_ok sample_tables sample_window 0 (fp_Internal sample_frame) zero_SmplLsfState"
proof -
  have g: "gains_ok sample_cc (pp_Subfr (sample_pulses 0)) (ip_Gains (sample_internal 0 0))"
    by (simp add: gains_ok_def sample_internal_def sample_pulses_def sym_of_ramp upto_rec1) (simp add: sample_cc_def sym_of_ramp)
  have tb: "tb_lsf sample_tables = sample_lsf" "tb_cc sample_tables = sample_cc"
    by (simp_all add: sample_tables_def)
  have ip: "lp_Stage1 (ip_Lsf (sample_internal s1 n)) = s1" "ip_Pulses (sample_internal s1 n) = sample_pulses n" for s1 n
    by (simp_all add: sample_internal_def)
  have next3: "PrevGainIdx (SmplAdvanceLsfState f 1 (pitch_next sample_window (pp_Subfr (sample_pulses 2)) (ip_Pitch (sample_internal 1 2)) st)) \<in> {- 1, 15}" for f st
    by (simp add: SmplAdvanceLsfState_def pitch_next_def pitch_rows_def sample_pulses_def sample_internal_def Let_def)
  show ?thesis
    unfolding sample_frame_def SmplFrameParams.simps internals_ok.simps internal_ok_def internal_next_def ip tb Let_def
    using next3 by (simp add: sample_lsf_ok sample_pulses_ok g sample_pitch_ok) (simp add: sample_pitch_ok SmplAdvanceLsfState_def zero_SmplLsfState_def)
qed

text \<open>
  Claim C14. A frame carries its parameters: from tables whose pitch part and heap window come from the same data, the
  encoder returns for every frame of three internal frames whose indices the tables have, with at most 40 pulses always a frame,
  above that perhaps the overflow error, and the payload decodes to 960 samples, in whatever state the decoder is, synthesised from internal
  frames with exactly the spectral indices, pulse vector, gains, filters and lags that went in.
\<close>

theorem frame_roundtrip:
  assumes "frame_tables tb w" "internals_ok tb w 0 (fp_Internal fp) zero_SmplLsfState" "fp_TOC fp = 0x50" "fp_Config fp = 0" "length (fp_Internal fp) = 3"
  shows "40 < frame_pulses (fp_Internal fp) \<and> EncodeSmplFrame tb fp = Some (Inl ErrBufferOverflow) \<or>
    (\<exists>payload. EncodeSmplFrame tb fp = Some (Inr payload) \<and> (\<forall>dec. \<exists>xs dec'. list_all2 (internal_read (tb_cc tb)) (fp_Internal fp) xs \<and>
       dec_Decode tb S payload dec = Some (spoken S (ds_syn (md_state dec)) xs, dec') \<and> length (spoken S (ds_syn (md_state dec)) xs) = 960))"
proof -
  have "\<exists>xs dec'. list_all2 (internal_read (tb_cc tb)) (fp_Internal fp) xs \<and>
      dec_Decode tb S (fp_TOC fp # body) dec = Some (spoken S (ds_syn (md_state dec)) xs, dec') \<and> length (spoken S (ds_syn (md_state dec)) xs) = 960"
    if body: "\<forall>sd. \<exists>d xs sd' d'. NewRangeDecoder body = Some d \<and> decode_internals tb 0 0 (length (fp_Internal fp)) sd d = Some ((xs, sd'), d') \<and>
      list_all2 (internal_read (tb_cc tb)) (fp_Internal fp) xs" for body and dec :: "'a MlowDecoder"
  proof -
    define dec1 where "dec1 = dec\<lparr>md_lastWasRed := False, md_lastRedBlocks := 0, md_lastMainToc := 0\<rparr>"
    obtain d xs sd' d' where d: "NewRangeDecoder body = Some d" "decode_internals tb 0 0 3 (ds_Lstate (md_state dec1)) d = Some ((xs, sd'), d')"
      "list_all2 (internal_read (tb_cc tb)) (fp_Internal fp) xs"
      using body assms(5) by metis
    have "length xs = 3"
      using list_all2_lengthD [OF d(3)] assms(5) by simp
    moreover have "splitContainer (0x50 # body) = Some None"
      by (simp add: splitContainer_def)
    then have "dec_Decode tb S (0x50 # body) dec = decodeActiveFrame tb S (0x50 # body) dec1"
      by (simp add: dec_Decode_def toc_50 dec1_def)
    ultimately show ?thesis
      using decodeActiveFrame_spoken [OF toc_50(1) d(1,2), of S] d(3) assms(3) by (auto simp: length_spoken dec1_def)
  qed
  then show ?thesis
    using EncodeSmplFrame_codes [OF assms(1,2,4,5)] by blast
qed

definition silent_synth :: "(unit, int) Synth" where
  "silent_synth = \<lparr>sy_new = (), sy_frame = (\<lambda>s c x. (\<lambda>i. if_Pulses x ! i, s)), sy_post = (\<lambda>s out lags tot. (\<lambda>i. out ! i, s))\<rparr>"

text \<open>An unvoiced frame, a voiced one with two pulses and a voiced one that continues its lags.\<close>

theorem frame_roundtrip_witness:
  "\<exists>payload xs dec'. EncodeSmplFrame sample_tables sample_frame = Some (Inr payload) \<and>
     list_all2 (internal_read sample_cc) (fp_Internal sample_frame) xs \<and>
     dec_Decode sample_tables silent_synth payload (NewMlowDecoder silent_synth) = Some (spoken silent_synth () xs, dec') \<and>
     length (spoken silent_synth () xs) = 960"
proof -
  have "frame_pulses (fp_Internal sample_frame) = 2" "fp_TOC sample_frame = 0x50" "fp_Config sample_frame = 0" "length (fp_Internal sample_frame) = 3"
    by (simp_all add: frame_pulses_def sample_frame_def sample_internal_def sample_pulses_def)
  then show ?thesis
    using frame_roundtrip [OF sample_frame_tables sample_internals_ok, of silent_synth] by (fastforce simp: sample_tables_def)
qed

end
