(* ===== verification/Mlow_Decoder_Total.thy ===== *)
theory Mlow_Decoder_Total
  imports Mlow_Frame_Roundtrip
begin

unbundle bit_operations_syntax

text \<open>
  The decoder on arbitrary payloads. With tables that have an entry for every symbol that can be read, no payload
  makes it panic or loop, in any state it can be in.
\<close>

section \<open>Reading\<close>

definition cdf_full :: "nat \<Rightarrow> u16 list \<Rightarrow> bool" where
  "cdf_full n cdf \<longleftrightarrow> 1 \<le> n \<and> length cdf = Suc n \<and> cdf_bounded cdf"

lemma reads_full: "cdf_full n cdf \<Longrightarrow> reads (DecodeCDF cdf) (\<lambda>k. k < n)"
  by (rule reads_mono [OF reads_CDF]) (auto simp: cdf_full_def cdf_sym_def)

lemma reads_any: "cdf_bounded cdf \<Longrightarrow> reads (DecodeCDF cdf) (\<lambda>k. True)"
  by (rule reads_mono [OF reads_CDF]) simp_all

lemma full_sorted: "sorted_wrt (<) cdf \<Longrightarrow> length cdf = Suc n \<Longrightarrow> 1 \<le> n \<Longrightarrow> cdf_full n cdf"
  using sorted_cdf_bounded [OF strict_sorted_imp_sorted] by (simp add: cdf_full_def)

lemma reads_look: "y = Some x \<Longrightarrow> reads (E x) P \<Longrightarrow> reads (\<lambda>d. y \<bind> (\<lambda>x. E x d)) P"
  by simp

lemma reads_then: "reads D P \<Longrightarrow> (\<And>s. P s \<Longrightarrow> Q (f s)) \<Longrightarrow> reads (\<lambda>d. D d \<bind> (\<lambda>(s, d). Some (f s, d))) Q"
  by (erule reads_bind) (auto intro: reads_return)

section \<open>Tables and states\<close>

definition full_lsf :: "SmplTables \<Rightarrow> bool" where
  "full_lsf t \<longleftrightarrow> length (LsfSel t) = 3 \<and> (\<forall>c \<in> set (LsfSel t). cdf_full 2 c) \<and> cdf_bounded (LsfExtra t) \<and>
     (\<forall>m. \<forall>s1 \<in> {0, 1}. \<exists>n. cdf_full n (lsf_grid_cdf t m s1) \<and>
        (\<forall>g < n. \<exists>cs. lsf_stage2_cdfs t s1 0 (int g) = Some cs \<and> (\<forall>c \<in> set cs. cdf_bounded c)))"

definition full_cc :: "CcTables \<Rightarrow> bool" where
  "full_cc cc \<longleftrightarrow> splits_ok cc \<and> runs_ok cc \<and> cdf_bounded (nrgresGain4 cc) \<and> cdf_bounded (nrgresShape4 cc) \<and>
     (\<forall>b \<in> {0..3}. \<forall>off \<in> {0..85}. \<exists>cdf. FcbgOffset cc 2 b off = Some cdf \<and> cdf_bounded cdf) \<and>
     (\<forall>pg \<in> {- 1..15}. \<exists>row. AcbgainRow cc pg = Some row \<and> cdf_full 16 row) \<and> (\<forall>gi \<in> {0..15}. AcbgainWeights cc gi \<noteq> None) \<and>
     cdf_full 34 (fcbgainsV cc) \<and> (\<forall>pf \<in> {0..33}. \<exists>cdf. FcbgainVDelta cc pf = Some cdf \<and> cdf_full 34 cdf)"

definition full_tables :: "Tables \<Rightarrow> contourWindowParts \<Rightarrow> bool" where
  "full_tables tb w \<longleftrightarrow> full_lsf (tb_lsf tb) \<and> full_cc (tb_cc tb) \<and> window_ok w \<and> (\<forall>(lo, hi) \<in> set (cw_firstblockRange w). lo \<le> 255 \<and> hi \<le> 216) \<and>
     tb_mem tb = buildSmplMemFromSeed w"

definition state_ok :: "SmplLsfState \<Rightarrow> bool" where
  "state_ok st \<longleftrightarrow> PrevGainIdx st \<in> {- 1..15} \<and> PrevFiltIdx st \<in> {- 1..33} \<and> PrevLag st < 9 \<and>
     (0 \<le> PrevLag st \<longrightarrow> 64 * PrevLag st \<le> PrevFracLag st \<and> PrevFracLag st < 64 * PrevLag st + 64)"

lemma state_ok_zero: "state_ok zero_SmplLsfState"
  by (simp add: state_ok_def zero_SmplLsfState_def)

lemma state_ok_lsf: "state_ok st \<Longrightarrow> state_ok (dec_lsf_state f s1 st)"
  by (auto simp: state_ok_def dec_lsf_state_def Let_def)

section \<open>Spectral indices and gains\<close>

lemma reads_each: "\<forall>c \<in> set cs. cdf_bounded c \<Longrightarrow> reads (decode_each cs) (\<lambda>ks. True)"
proof (induction cs)
  case (Cons c cs)
  show ?case
    unfolding decode_each.simps by (rule reads_bind [OF reads_any]) (use Cons in \<open>auto intro: reads_then\<close>)
qed (simp add: reads_return)

lemma reads_lsf:
  assumes t: "full_lsf t" and st: "state_ok st"
  shows "reads (DecodeSmplLsf t 0 f st) (\<lambda>(lsf, st'). (li_Stage1 lsf = 0 \<or> li_Stage1 lsf = 1) \<and> state_ok st')"
proof -
  have "lsf_sel st f < 3"
    by (simp add: lsf_sel_def)
  then obtain sel where sel: "idx (LsfSel t) (lsf_sel st f) = Some sel" "cdf_full 2 sel"
    using t by (auto simp: full_lsf_def idx_def)
  have grid: "\<exists>n. cdf_full n (lsf_grid_cdf t m (int k)) \<and>
      (\<forall>g < n. \<exists>cs. lsf_stage2_cdfs t (int k) 0 (int g) = Some cs \<and> (\<forall>c \<in> set cs. cdf_bounded c))" if "k < 2" for m k
  proof -
    have "int k \<in> {0, 1}"
      using that by auto
    then show ?thesis
      using t unfolding full_lsf_def by blast
  qed
  show ?thesis
    unfolding DecodeSmplLsf_def [abs_def] Let_def
  proof (rule reads_look [OF sel(1)], rule reads_bind [OF reads_full [OF sel(2)]])
    fix k :: nat
    assume k: "k < 2"
    define m where "m \<longleftrightarrow> f \<noteq> 0 \<and> int k = PrevStage1 st"
    obtain n where n: "cdf_full n (lsf_grid_cdf t m (int k))"
      "\<And>g. g < n \<Longrightarrow> \<exists>cs. lsf_stage2_cdfs t (int k) 0 (int g) = Some cs \<and> (\<forall>c \<in> set cs. cdf_bounded c)"
      using grid [OF k] by blast
    show "reads (\<lambda>d. DecodeCDF (lsf_grid_cdf t (f \<noteq> 0 \<and> int k = PrevStage1 st) (int k)) d \<bind> (\<lambda>(g, d). lsf_stage2_cdfs t (int k) 0 (int g) \<bind> (\<lambda>st2.
        decode_each st2 d \<bind> (\<lambda>(ks, d). DecodeCDF (LsfExtra t) d \<bind> (\<lambda>(x, d). Some ((\<lparr>li_Stage1 = int k, li_Grid = int g, li_Stage2 = ks,
          li_StageNraw = map (\<lambda>c. int (length c) - 2) st2, li_Extra = int x\<rparr>, dec_lsf_state f (int k) st), d))))))
      (\<lambda>(lsf, st'). (li_Stage1 lsf = 0 \<or> li_Stage1 lsf = 1) \<and> state_ok st')"
      unfolding m_def [symmetric]
    proof (rule reads_bind [OF reads_full [OF n(1)]])
      fix g
      assume "g < n"
      from n(2) [OF this] obtain cs where cs: "lsf_stage2_cdfs t (int k) 0 (int g) = Some cs" "\<forall>c \<in> set cs. cdf_bounded c"
        by blast
      show "reads (\<lambda>d. lsf_stage2_cdfs t (int k) 0 (int g) \<bind> (\<lambda>st2.
          decode_each st2 d \<bind> (\<lambda>(ks, d). DecodeCDF (LsfExtra t) d \<bind> (\<lambda>(x, d). Some ((\<lparr>li_Stage1 = int k, li_Grid = int g, li_Stage2 = ks,
            li_StageNraw = map (\<lambda>c. int (length c) - 2) st2, li_Extra = int x\<rparr>, dec_lsf_state f (int k) st), d)))))
        (\<lambda>(lsf, st'). (li_Stage1 lsf = 0 \<or> li_Stage1 lsf = 1) \<and> state_ok st')"
        by (rule reads_look [OF cs(1)], rule reads_bind [OF reads_each [OF cs(2)]], rule reads_then [OF reads_any])
          (use t k state_ok_lsf [OF st] in \<open>auto simp: full_lsf_def\<close>)
    qed
  qed
qed

lemma and_mask_int: "(x :: int) AND 0xffff = x mod 65536"
  using take_bit_eq_mask [of 16 x] by (simp add: mask_eq_exp_minus_1 take_bit_eq_mod)

lemma nrgres_offset_range: "nrgres_offset q \<in> {0..85}"
proof -
  have "(let g = max g (- 85); n = (if g < 0 then g else 0) in - n) \<in> {0..85}" for g :: int
    by (auto simp: Let_def max_def)
  then show ?thesis
    unfolding nrgres_offset_def .
qed

lemma reads_nrgres:
  assumes cc: "full_cc cc"
  shows "\<forall>c \<in> set cnts. c \<le> 40 \<Longrightarrow> reads (decode_nrgres cc qs cnts) (\<lambda>rs. True)"
proof (induction qs arbitrary: cnts)
  case (Cons q qs)
  show ?case
  proof (cases cnts)
    case Nil
    then show ?thesis
      by (simp add: reads_return)
  next
    case c: (Cons cnt cnts')
    have IH: "reads (decode_nrgres cc qs cnts') (\<lambda>rs. True)"
      using Cons c by simp
    have b: "nrgres_bucket cnt \<in> {0..3}" "nrgres_offset q \<in> {0..85}" if "0 < cnt"
    proof -
      have "(cnt AND 0xffff) sdiv 10 \<in> {0..2}" if "cnt < 30"
      proof -
        have "cnt AND 0xffff = cnt"
          using \<open>0 < cnt\<close> that by (subst and_mask_int) simp_all
        then show ?thesis
          using \<open>0 < cnt\<close> that by (simp add: sdiv_nonneg div_le_mono) linarith
      qed
      then show "nrgres_bucket cnt \<in> {0..3}"
        by (auto simp: nrgres_bucket_def)
      show "nrgres_offset q \<in> {0..85}"
        by (rule nrgres_offset_range)
    qed
    show ?thesis
    proof (cases "cnt \<le> 0")
      case True
      then show ?thesis
        using reads_then [OF IH, of "\<lambda>rs. True" "\<lambda>rs. 0 # rs"] by (simp add: c)
    next
      case False
      then obtain cdf where cdf: "FcbgOffset cc 2 (nrgres_bucket cnt) (nrgres_offset q) = Some cdf" "cdf_bounded cdf"
        using b cc unfolding full_cc_def by (meson not_le)
      have "reads (\<lambda>d. DecodeCDF cdf d \<bind> (\<lambda>(k, d). decode_nrgres cc qs cnts' d \<bind> (\<lambda>(rs, d). Some (int k # rs, d)))) (\<lambda>rs. True)"
        by (rule reads_bind [OF reads_any [OF cdf(2)]]) (rule reads_then [OF IH], simp)
      then show ?thesis
        using False cdf(1) by (simp add: c)
    qed
  qed
qed (simp add: reads_return)

lemma reads_gains: "full_cc cc \<Longrightarrow> \<forall>c \<in> set cnts. c \<le> 40 \<Longrightarrow> reads (DecodeSmplGains cc 4 cnts) (\<lambda>g. True)"
  unfolding DecodeSmplGains_def [abs_def] Let_def
  by (rule reads_bind [OF reads_any], simp add: full_cc_def, rule reads_bind [OF reads_any], simp add: full_cc_def, rule reads_then [OF reads_nrgres]) simp_all

section \<open>Pulses\<close>

lemma tri_search_range:
  assumes "k + n = 161" "v < tri 160" "tri_low k \<le> v"
  shows "\<exists>j. k \<le> j \<and> j \<le> 160 \<and> tri_low j \<le> v \<and> v < tri j \<and>
    tri_search 160 (tri 160) v (tri_low k) k n = (\<lambda>d. Update (tri_low j) (tri j) (tri 160) d \<bind> (\<lambda>d. Some (j, d)))"
  using assms
proof (induction n arbitrary: k)
  case 0
  then have "tri_low k = tri 160"
    by (simp add: tri_low_Suc [of 160, simplified])
  with 0 show ?case
    by simp
next
  case (Suc n)
  show ?case
  proof (cases "v < tri k")
    case True
    then show ?thesis
      using Suc.prems by (intro exI [of _ k]) (auto simp: Let_def)
  next
    case False
    then obtain j where "Suc k \<le> j \<and> j \<le> 160 \<and> tri_low j \<le> v \<and> v < tri j \<and>
        tri_search 160 (tri 160) v (tri_low (Suc k)) (Suc k) n = (\<lambda>d. Update (tri_low j) (tri j) (tri 160) d \<bind> (\<lambda>d. Some (j, d)))"
      using Suc.IH [of "Suc k"] Suc.prems by (auto simp: not_less)
    then show ?thesis
      using False by (intro exI [of _ j]) (auto simp: Let_def)
  qed
qed

lemma reads_count: "reads (decode_count cc 0 i 160) (\<lambda>tot. 0 \<le> tot \<and> tot \<le> 160)"
  unfolding reads_def
proof (intro allI impI)
  fix d
  assume good: "dec_good d"
  have ft: "tri_total 160 = tri 160" "tri 160 \<noteq> 0" "unat (tri 160) \<le> 8388608"
    using tri_ends by (auto simp: tri_total_def)
  obtain v where v: "Decode (tri 160) d = (v, d\<lparr>rd_ext := rd_rng d div tri 160\<rparr>)" "unat v < unat (tri 160)"
    using Decode_value [OF good ft(2,3)] by blast
  obtain j where j: "j \<le> 160" "tri_low j \<le> v" "v < tri j"
    "tri_search 160 (tri 160) v (tri_low 0) 0 161 = (\<lambda>d. Update (tri_low j) (tri j) (tri 160) d \<bind> (\<lambda>d. Some (j, d)))"
    using tri_search_range [of 0 161 v] v(2) by (auto simp: word_less_nat_alt tri_low_def)
  have "freq_ok (tri_low j) (tri j) (tri 160)"
    using tri_low_less [OF j(1)] tri_less [of j 160] j(1) tri_ends(1)
    by (cases "j = 160") (auto simp: freq_ok_def word_less_nat_alt)
  from Update_good [OF good this v(1)] j(2,3)
  obtain d' where "Update (tri_low j) (tri j) (tri 160) (d\<lparr>rd_ext := rd_rng d div tri 160\<rparr>) = Some d'" "dec_good d'"
    by (auto simp: word_less_nat_alt word_le_nat_alt)
  then show "\<exists>s d'. decode_count cc 0 i 160 d = Some (s, d') \<and> (0 \<le> s \<and> s \<le> 160) \<and> dec_good d'"
    using j(1,4) v(1) by (simp add: decode_count_def ft(1) Let_def tri_low_def)
qed

lemma reads_window:
  assumes "sorted_wrt (<) base" "0 \<le> start" "start + n + 2 \<le> int (length base)" "0 \<le> n"
  shows "\<exists>w. cdfWindow base start (n + 2) = Some w \<and> reads (DecodeCDF w) (\<lambda>k. int k \<le> n)"
proof -
  define w where "w = take (nat (n + 2)) (drop (nat start) base)"
  have cw: "cdfWindow base start (n + 2) = Some w"
    unfolding w_def using assms by (intro cdfWindow_inside) simp_all
  have "length w = nat (n + 2)"
    using assms by (simp add: w_def)
  moreover have "sorted_wrt (<) w"
    unfolding w_def by (intro sorted_wrt_take sorted_wrt_drop assms)
  ultimately have "cdf_full (nat (n + 1)) w"
    using assms(4) by (intro full_sorted) (simp_all add: nat_add_distrib)
  from reads_mono [OF reads_full [OF this]] cw show ?thesis
    using assms(4) by auto
qed

lemma reads_split3537:
  assumes sp: "splits_ok cc" and c: "0 < count" "count \<le> 80"
  shows "reads (smplSplit3537 cc count 40) (\<lambda>s. 0 \<le> s \<and> s \<le> 40 \<and> s \<le> count \<and> count - s \<le> 40)"
proof -
  define lo ms where "lo = min 40 count" and "ms = max (count - 40) 0"
  have lm: "ms \<le> lo" "0 \<le> ms" "lo \<le> count" "lo \<le> 40" "count - ms \<le> 40"
    using c by (auto simp: lo_def ms_def)
  show ?thesis
  proof (cases "ms = lo")
    case True
    then have "smplSplit3537 cc count 40 = (\<lambda>d. Some (ms, d))"
      by (intro ext) (simp add: smplSplit3537_def Let_def lo_def [symmetric] ms_def [symmetric])
    then show ?thesis
      using lm True by (auto intro: reads_return)
  next
    case False
    have "cdf_table (nat (count + 1)) (SplitCmf cc count)"
      using sp c by (auto simp: splits_ok_def dest: spec [of _ count])
    then have t: "sorted_wrt (<) (SplitCmf cc count)" "int (length (SplitCmf cc count)) = count + 2"
      using c by (simp_all add: cdf_table_def)
    obtain w where w: "cdfWindow (SplitCmf cc count) ms (lo - ms + 2) = Some w" "reads (DecodeCDF w) (\<lambda>k. int k \<le> lo - ms)"
      using reads_window [OF t(1), of ms "lo - ms"] t(2) lm by auto
    have "smplSplit3537 cc count 40 = (\<lambda>d. DecodeCDF w d \<bind> (\<lambda>(k, d). Some (int k + ms, d)))"
      using False lm w(1) by (intro ext) (simp add: smplSplit3537_def Let_def lo_def [symmetric] ms_def [symmetric])
    then show ?thesis
      using reads_then [OF w(2), of _ "\<lambda>k. int k + ms"] lm by auto
  qed
qed

lemma reads_half:
  "splits_ok cc \<Longrightarrow> 0 \<le> n \<Longrightarrow> n \<le> 80 \<Longrightarrow> reads (decode_half cc n 40) (\<lambda>(a, b). 0 \<le> a \<and> a \<le> 40 \<and> 0 \<le> b \<and> b \<le> 40)"
  unfolding decode_half_def [abs_def]
  by (cases "0 < n") (auto intro!: reads_return reads_then [OF reads_split3537])

lemma reads_first:
  assumes sp: "splits_ok cc" and t: "0 < tot" "tot \<le> 160"
  shows "reads (decode_first cc tot) (\<lambda>s. 0 \<le> s \<and> s \<le> 80 \<and> 0 \<le> tot - s \<and> tot - s \<le> 80)"
proof -
  define sum0 where "sum0 = max (tot - 80) 0"
  have lm: "sum0 \<le> tot - sum0" "0 \<le> sum0" "tot - sum0 \<le> 80"
    using t by (auto simp: sum0_def)
  show ?thesis
  proof (cases "sum0 < tot - sum0")
    case True
    then have "cdf_table (nat (tot - 2 * sum0 + 1)) (SplitCmf cc tot)"
      using sp t by (auto simp: splits_ok_def sum0_def dest: spec [of _ tot])
    then have tb: "sorted_wrt (<) (SplitCmf cc tot)" "int (length (SplitCmf cc tot)) = tot - 2 * sum0 + 2"
      using lm by (simp_all add: cdf_table_def)
    obtain w where w: "cdfWindow (SplitCmf cc tot) 0 (tot - sum0 - sum0 + 2) = Some w" "reads (DecodeCDF w) (\<lambda>k. int k \<le> tot - sum0 - sum0)"
      using reads_window [OF tb(1), of 0 "tot - sum0 - sum0"] tb(2) lm by auto
    have "decode_first cc tot = (\<lambda>d. DecodeCDF w d \<bind> (\<lambda>(k, d). Some (sum0 + int k, d)))"
      unfolding decode_first_def Let_def sum0_def [symmetric] fun_eq_iff using True w(1) by simp
    then show ?thesis
      using reads_then [OF w(2), of _ "\<lambda>k. sum0 + int k"] lm by auto
  next
    case False
    then have "decode_first cc tot = (\<lambda>d. Some (sum0, d))"
      unfolding decode_first_def Let_def sum0_def [symmetric] fun_eq_iff by simp
    then show ?thesis
      using lm False by (auto intro: reads_return)
  qed
qed

definition counts_ok :: "int list \<Rightarrow> bool" where
  "counts_ok cnts \<longleftrightarrow> length cnts = 4 \<and> (\<forall>c \<in> set cnts. 0 \<le> c \<and> c \<le> 40)"

lemma reads_split:
  assumes sp: "splits_ok cc" and t: "0 \<le> tot" "tot \<le> 160"
  shows "reads (decode_split cc tot 40) (\<lambda>s. \<exists>cnts. s = Some cnts \<and> counts_ok cnts)"
proof (cases "tot = 0")
  case True
  then show ?thesis
    by (simp add: decode_split_def [abs_def] reads_return counts_ok_def)
next
  case False
  then have "0 < tot"
    using t by simp
  show ?thesis
    unfolding decode_split_40 [OF \<open>0 < tot\<close>]
  proof (rule reads_bind [OF reads_first [OF sp \<open>0 < tot\<close> t(2)]])
    fix s
    assume s: "0 \<le> s \<and> s \<le> 80 \<and> 0 \<le> tot - s \<and> tot - s \<le> 80"
    have h: "reads (\<lambda>d. if s < tot then decode_half cc (tot - s) 40 d else Some ((0, 0), d)) (\<lambda>(a, b). 0 \<le> a \<and> a \<le> 40 \<and> 0 \<le> b \<and> b \<le> 40)"
      using reads_half [OF sp, of "tot - s"] s by (cases "s < tot") (auto intro: reads_return)
    have "reads (\<lambda>d. decode_half cc s 40 d \<bind> (\<lambda>(ab, d). (if s < tot then decode_half cc (tot - s) 40 d else Some ((0, 0), d)) \<bind>
        (\<lambda>(x, d). Some (Some (if fst ab = - 1 \<or> fst x = - 1 then [0, 0, 0, 0] else [fst ab, snd ab, fst x, snd x]), d))))
      (\<lambda>s. \<exists>cnts. s = Some cnts \<and> counts_ok cnts)"
      by (rule reads_bind [OF reads_half [OF sp]], simp add: s, simp add: s, rule reads_then [OF h]) (auto simp: counts_ok_def)
    then show "reads (\<lambda>d. decode_half cc s 40 d \<bind> (\<lambda>((a, b), d). (if s < tot then decode_half cc (tot - s) 40 d else Some ((0, 0), d)) \<bind>
        (\<lambda>((a', b'), d). Some (Some (if a = - 1 \<or> a' = - 1 then [0, 0, 0, 0] else [a, b, a', b']), d))))
      (\<lambda>s. \<exists>cnts. s = Some cnts \<and> counts_ok cnts)"
      by (simp add: case_prod_unfold)
  qed
qed

lemma reads_run_window:
  assumes rk: "runs_ok cc" and c: "1 \<le> c" "c \<le> 40" and p: "1 \<le> pos" "pos \<le> 80"
  shows "\<exists>w. run_window cc c pos = Some w \<and> reads (DecodeCDF w) (\<lambda>k. int k < pos)"
proof -
  define oct where "oct = (pos + 7) sdiv 8"
  have "oct = (pos + 7) div 8"
    using p by (simp add: oct_def sdiv_nonneg)
  then have oc: "1 \<le> oct" "oct \<le> 20" "pos \<le> 8 * oct"
    using p by linarith+
  then obtain r where r: "Runlen cc oct = Some r" "rl_maxSamples r = 8 * oct" "\<And>c. 1 \<le> c \<Longrightarrow> c \<le> 40 \<Longrightarrow> \<exists>cmf. rl_Cmf r c = Some cmf \<and> cdf_table (nat (8 * oct)) cmf"
    using rk unfolding runs_ok_def by blast
  obtain cmf where cmf: "rl_Cmf r c = Some cmf" "cdf_table (nat (8 * oct)) cmf"
    using r(3) c by blast
  then have t: "sorted_wrt (<) cmf" "int (length cmf) = 8 * oct + 1"
    using oc by (simp_all add: cdf_table_def)
  obtain w where w: "cdfWindow cmf (8 * oct - pos) (pos - 1 + 2) = Some w" "reads (DecodeCDF w) (\<lambda>k. int k \<le> pos - 1)"
    using reads_window [OF t(1), of "8 * oct - pos" "pos - 1"] t(2) oc p by auto
  have "pos - 1 + 2 = pos + 1"
    by simp
  with w(1) have "run_window cc c pos = Some w"
    using r cmf by (simp add: run_window_def oct_def [symmetric])
  moreover have "reads (DecodeCDF w) (\<lambda>k. int k < pos)"
    using w(2) by (rule reads_mono) simp
  ultimately show ?thesis
    by blast
qed

lemma reads_mag_loop:
  assumes rk: "runs_ok cc"
  shows "1 \<le> pos \<Longrightarrow> pos \<le> 80 \<Longrightarrow> n \<le> 40 \<Longrightarrow> c = int n \<Longrightarrow> reads (mag_loop cc n first c pos runPos ms) (\<lambda>ms. True)"
proof (induction n arbitrary: first pos c runPos ms)
  case (Suc n)
  obtain w where w: "run_window cc c pos = Some w" "reads (DecodeCDF w) (\<lambda>k. int k < pos)"
    using reads_run_window [OF rk, of c pos] Suc.prems by auto
  have "reads (\<lambda>d. DecodeCDF w d \<bind> (\<lambda>(k, d). (\<lambda>k d. let m = int k; step = (m > 0 \<or> first)
        in mag_loop cc n False (c - 1) (if step then pos - m else pos) (if step then runPos + m else runPos) (mag_add first m runPos ms) d) k d)) (\<lambda>ms. True)"
    by (rule reads_bind [OF w(2)]) (use Suc.prems in \<open>auto simp: Let_def intro!: Suc.IH\<close>)
  then show ?case
    using w(1) Suc.prems(1) by simp
qed (simp add: reads_return)

lemma reads_mag_all:
  assumes rk: "runs_ok cc"
  shows "\<forall>c \<in> set cnts. c \<le> 40 \<Longrightarrow> reads (mag_all cc 80 sf cnts ms) (\<lambda>ms. True)"
proof (induction cnts arbitrary: sf ms)
  case (Cons cnt cnts)
  show ?case
  proof (cases "cnt \<le> 0")
    case False
    then have "mag_all cc 80 sf (cnt # cnts) ms = (\<lambda>d. mag_loop cc (nat cnt) True cnt 80 (80 * sf) ms d \<bind> (\<lambda>(ms, d). mag_all cc 80 (sf + 1) cnts ms d))"
      by (simp add: fun_eq_iff)
    then show ?thesis
      using reads_bind [OF reads_mag_loop [OF rk, of 80 "nat cnt" cnt True "80 * sf" ms], of "mag_all cc 80 (sf + 1) cnts" "\<lambda>ms. True"] Cons False
      by (simp add: nat_le_iff)
  qed (use Cons in simp)
qed (simp add: reads_return)

lemma reads_signs: "reads (sign_loop mags) (\<lambda>s. True)"
proof (induction mags rule: length_induct)
  case (1 mags)
  show ?case
  proof (cases "mags = []")
    case True
    then show ?thesis
      by (simp add: sign_loop.simps [abs_def] reads_return)
  next
    case False
    define n where "n = min (length mags) 15"
    have IH: "reads (sign_loop (drop n mags)) (\<lambda>s. True)"
      using 1 False by (simp add: n_def)
    have "sign_loop mags = (\<lambda>d. DecodeRawSymbol n d \<bind> (\<lambda>(s, d). sign_loop (drop n mags) d \<bind>
        (\<lambda>(x, d). Some ((apply_signs (push_bit (16 - n) s) (take n mags) @ fst x, (s, n) # snd x), d))))"
      using False by (simp add: fun_eq_iff sign_loop.simps [of mags] Let_def n_def case_prod_unfold)
    moreover have "reads \<dots> (\<lambda>s. True)"
      by (rule reads_bind [OF reads_RawSymbol], simp add: n_def, rule reads_then [OF IH]) simp
    ultimately show ?thesis
      by simp
  qed
qed

lemma reads_pulses:
  assumes cc: "full_cc cc" and s1: "s1 = 0 \<or> s1 = 1"
  shows "reads (DecodeSmplPulses cc 320 4 1 0 s1) (\<lambda>pu. counts_ok (pr_Subfr pu))"
proof -
  have k: "splits_ok cc" "runs_ok cc"
    using cc by (simp_all add: full_cc_def)
  show ?thesis
    unfolding DecodeSmplPulses_nb [OF s1]
  proof (rule reads_bind [OF reads_count], rule reads_bind [OF reads_split [OF k(1)]])
    fix sp :: "int list option"
    assume "\<exists>cnts. sp = Some cnts \<and> counts_ok cnts"
    then obtain cnts where c: "sp = Some cnts" "counts_ok cnts"
      by blast
    have "slice_int (cnts @ [0, 0, 0, 0]) 0 4 = Some cnts"
      using c(2) by (simp add: slice_int_def slice_def counts_ok_def)
    then have tail: "dec_pulses_tail cc sp = (\<lambda>d. mag_all cc 80 0 cnts \<lparr>ms_runs = [], ms_pos = [], ms_mag = []\<rparr> d \<bind> (\<lambda>(ms, d). sign_loop (ms_mag ms) d \<bind>
        (\<lambda>(x, d). Some (\<lparr>pr_Pulses = scatter (replicate 320 0) (zip (ms_pos ms) (fst x)), pr_Subfr = cnts, pr_MagRuns = ms_runs ms, pr_SignSyms = snd x\<rparr>, d))))"
      using c by (simp add: dec_pulses_tail_def fun_eq_iff case_prod_unfold counts_ok_def)
    show "reads (dec_pulses_tail cc sp) (\<lambda>pu. counts_ok (pr_Subfr pu))"
      unfolding tail
      by (rule reads_bind [OF reads_mag_all [OF k(2)]], use c(2) in \<open>simp add: counts_ok_def\<close>, rule reads_then [OF reads_signs]) (simp add: c(2))
  qed simp_all
qed

section \<open>Pitch\<close>

lemma full_row: "full_cc cc \<Longrightarrow> state_ok st \<Longrightarrow> \<exists>row. acb_row cc 0 (PrevGainIdx st) = Some row \<and> cdf_full 16 row"
  by (simp add: full_cc_def state_ok_def acb_row_def)

lemma full_filt: "full_cc cc \<Longrightarrow> state_ok st \<Longrightarrow> \<exists>cdf. filt_cdf cc (PrevFiltIdx st) = Some cdf \<and> cdf_full 34 cdf"
  by (cases "PrevFiltIdx st = - 1") (simp_all add: full_cc_def state_ok_def filt_cdf_def)

lemma full_weights: "full_cc cc \<Longrightarrow> k < 16 \<Longrightarrow> \<exists>w. acb_weights cc 0 (int k) = Some w"
proof -
  assume "full_cc cc" "k < 16"
  then have "AcbgainWeights cc (int k) \<noteq> None"
    by (simp add: full_cc_def)
  then show ?thesis
    by (auto simp: acb_weights_def)
qed

lemma reads_dec_gains:
  assumes cc: "full_cc cc"
  shows "state_ok st \<Longrightarrow> reads (dec_gains cc 0 cnts acc st) (\<lambda>(gis, fis, acc, st'). length gis = length cnts \<and> length fis = length cnts \<and> state_ok st')"
proof (induction cnts arbitrary: acc st)
  case (Cons cnt cnts)
  define Q where "Q = (\<lambda>(gis :: int list, fis :: int list, acc :: int, st'). length gis = length (cnt # cnts) \<and> length fis = length (cnt # cnts) \<and> state_ok st')"
  obtain row where row: "acb_row cc 0 (PrevGainIdx st) = Some row" "cdf_full 16 row"
    using full_row [OF cc Cons.prems] by blast
  define D where "D = (\<lambda>k w (x :: int \<times> SmplLsfState) d. dec_gains cc 0 cnts (acc + w) (snd x) d \<bind>
      (\<lambda>(r, d). Some ((\<lambda>(gis, fis, acc, st'). (int k # gis, fst x # fis, acc, st')) r, d)))"
  have D: "reads (D k w (fi, st')) Q" if "state_ok st'" for k w fi st'
    unfolding D_def by (rule reads_then [OF Cons.IH]) (use that in \<open>auto simp: Q_def\<close>)
  define F where "F = (\<lambda>(st :: SmplLsfState) d. if cnt > 0 then filt_cdf cc (PrevFiltIdx st) \<bind> (\<lambda>cdf. DecodeCDF cdf d \<bind> (\<lambda>(f, d). Some ((int f, st\<lparr>PrevFiltIdx := int f\<rparr>), d)))
      else Some ((- 1, st), d))"
  have F: "reads (F st1) (\<lambda>(fi, st'). state_ok st')" if st1: "state_ok st1" for st1
  proof (cases "cnt > 0")
    case True
    obtain cdf where cdf: "filt_cdf cc (PrevFiltIdx st1) = Some cdf" "cdf_full 34 cdf"
      using full_filt [OF cc st1] by blast
    have "reads (\<lambda>d. DecodeCDF cdf d \<bind> (\<lambda>(f, d). Some ((int f, st1\<lparr>PrevFiltIdx := int f\<rparr>), d))) (\<lambda>(fi, st'). state_ok st')"
      by (rule reads_then [OF reads_full [OF cdf(2)]]) (use st1 in \<open>auto simp: state_ok_def\<close>)
    then show ?thesis
      using True cdf(1) by (simp add: F_def)
  qed (use st1 in \<open>simp add: F_def reads_return\<close>)
  have "reads (\<lambda>d. DecodeCDF row d \<bind> (\<lambda>(k, d). acb_weights cc 0 (int k) \<bind> (\<lambda>w. F (st\<lparr>PrevGainIdx := int k\<rparr>) d \<bind> (\<lambda>(x, d). D k (fst w + 2 * snd w) x d)))) Q"
  proof (rule reads_bind [OF reads_full [OF row(2)]])
    fix k :: nat
    assume k: "k < 16"
    then obtain w where w: "acb_weights cc 0 (int k) = Some w"
      using full_weights [OF cc] by blast
    have "state_ok (st\<lparr>PrevGainIdx := int k\<rparr>)"
      using Cons.prems k by (simp add: state_ok_def)
    then show "reads (\<lambda>d. acb_weights cc 0 (int k) \<bind> (\<lambda>w. F (st\<lparr>PrevGainIdx := int k\<rparr>) d \<bind> (\<lambda>(x, d). D k (fst w + 2 * snd w) x d))) Q"
      unfolding w using reads_bind [OF F, of _ "D k (fst w + 2 * snd w)" Q] D by auto
  qed
  moreover have "dec_gains cc 0 (cnt # cnts) acc st = (\<lambda>d. DecodeCDF row d \<bind> (\<lambda>(k, d). acb_weights cc 0 (int k) \<bind>
      (\<lambda>w. F (st\<lparr>PrevGainIdx := int k\<rparr>) d \<bind> (\<lambda>(x, d). D k (fst w + 2 * snd w) x d))))"
    using row(1) by (intro ext, cases "0 < cnt") (simp_all add: D_def F_def Let_def case_prod_unfold)
  ultimately show ?case
    unfolding Q_def by simp
qed (simp add: reads_def)

lemma cdf16_full: "cmf_ok N t \<Longrightarrow> a + Suc n \<le> N \<Longrightarrow> 1 \<le> n \<Longrightarrow> cdf_full n (cdf16 t a (Suc n))"
  by (intro full_sorted cdf16_sorted) (simp_all add: cdf16_def)

lemma reads_lag:
  assumes w: "window_ok w" "\<forall>(lo, hi) \<in> set (cw_firstblockRange w). lo \<le> 255 \<and> hi \<le> 216" and pl: "pl < 9"
  shows "reads (dec_lag (buildSmplMemFromSeed w) pl 217 memHdrLagCdf memHdrDeltaCdf) (\<lambda>l. True)"
proof (cases "pl < 0")
  case True
  have "CDFAt (buildSmplMemFromSeed w) memHdrLagCdf 218 = Some (cdf16 (cw_lagCdf w) 0 218)"
    using CDFAt_lag [OF w(1), of 0 218] by simp
  moreover have "cdf_full 217 (cdf16 (cw_lagCdf w) 0 218)"
    using cdf16_full [of 218 "cw_lagCdf w" 0 217] w(1) by (simp add: window_ok_def)
  ultimately show ?thesis
    using True reads_then [OF reads_full, of 217 "cdf16 (cw_lagCdf w) 0 218" "\<lambda>l. True" "\<lambda>k. Some (int k)"] by (simp add: dec_lag_def [abs_def])
next
  case False
  define b where "b = nat pl"
  have b: "b < 9" "pl = int b"
    using False pl by (simp_all add: b_def)
  define m where "m = buildSmplMemFromSeed w"
  have "reads (\<lambda>d. DecodeCDF (cdf16 (cw_deltaCmfs w ! b) 0 10) d \<bind> (\<lambda>(di, d). U8 m (0xe7ef0 + of_nat di * 2) \<bind> (\<lambda>lo. U8 m (0xe7ef0 + of_nat di * 2 + 1) \<bind> (\<lambda>hi.
      if uint hi - uint lo + 2 < 2 then Some (None, d)
      else CDFAt m (memHdrLagCdf + ucast lo * 2) (nat (uint hi - uint lo + 2)) \<bind> (\<lambda>cdf. DecodeCDF cdf d \<bind> (\<lambda>(k, d). Some (Some (int k + uint lo), d))))))) (\<lambda>l. True)"
  proof (rule reads_bind [OF reads_full])
    show "cdf_full 9 (cdf16 (cw_deltaCmfs w ! b) 0 10)"
      using cdf16_full [of 10 "cw_deltaCmfs w ! b" 0 9] w(1) b(1) by (simp add: window_ok_def)
    fix di :: nat
    assume di: "di < 9"
    obtain lo hi where r: "cw_firstblockRange w ! di = (lo, hi)"
      by (cases "cw_firstblockRange w ! di")
    have "(lo, hi) \<in> set (cw_firstblockRange w)"
      using w(1) di r nth_mem [of di "cw_firstblockRange w"] by (simp add: window_ok_def)
    then have lh: "lo \<le> 255" "hi \<le> 216"
      using w(2) by auto
    have u: "uint (of_nat lo :: u8) = int lo" "uint (of_nat hi :: u8) = int hi" "(ucast (of_nat lo :: u8) :: u32) = of_nat lo"
      using lh by (simp_all add: unsigned_of_nat take_bit_nat_eq_self)
    have "cdf_full (hi - lo + 1) (cdf16 (cw_lagCdf w) lo (Suc (hi - lo + 1)))" "CDFAt m (memHdrLagCdf + of_nat lo * 2) (Suc (hi - lo + 1)) = Some (cdf16 (cw_lagCdf w) lo (Suc (hi - lo + 1)))"
      if "lo \<le> hi"
      unfolding m_def using that lh w(1) by (auto intro!: cdf16_full [of 218] CDFAt_lag simp: window_ok_def)
    moreover have "nat (int hi - int lo + 2) = Suc (hi - lo + 1)" if "lo \<le> hi"
      using that by simp
    ultimately show "reads (\<lambda>d. U8 m (0xe7ef0 + of_nat di * 2) \<bind> (\<lambda>lo. U8 m (0xe7ef0 + of_nat di * 2 + 1) \<bind> (\<lambda>hi.
      if uint hi - uint lo + 2 < 2 then Some (None, d)
      else CDFAt m (memHdrLagCdf + ucast lo * 2) (nat (uint hi - uint lo + 2)) \<bind> (\<lambda>cdf. DecodeCDF cdf d \<bind> (\<lambda>(k, d). Some (Some (int k + uint lo), d)))))) (\<lambda>l. True)"
      unfolding window_bounds [OF w(1) di r, folded m_def] Option.bind.bind_lunit u
      using reads_then [OF reads_full [of "hi - lo + 1" "cdf16 (cw_lagCdf w) lo (Suc (hi - lo + 1))"], of "\<lambda>l. True" "\<lambda>k. Some (int k + int lo)"]
      by (cases "lo \<le> hi") (auto intro: reads_return)
  qed
  then show ?thesis
    using b CDFAt_delta [OF w(1) b(1)] by (simp add: dec_lag_def [abs_def] Let_def m_def cong: if_cong)
qed

lemma put_lags_len: "length (lo_blk (put_lags s v out)) = length (lo_blk out)"
  by (induction s v out rule: put_lags.induct) simp_all

lemma find_contour_total:
  "window_ok w \<Longrightarrow> \<forall>i \<in> set is. i < 217 \<Longrightarrow> \<exists>c. find_contour (buildSmplMemFromSeed w) memHdrContourMap t is = Some c \<and> c < 217"
proof (induction "is")
  case (Cons i "is")
  then show ?case
    by (auto simp: window_contour)
qed simp

lemma reads_segs:
  assumes w: "window_ok w" and c: "c < 217" "cw_records w ! c = (B, S)" and md: "md < 3"
  shows "k + n = length B \<Longrightarrow> state_ok (fs_st f) \<Longrightarrow> fs_l3 f = PrevFracLag (fs_st f) \<Longrightarrow> 64 * pb \<le> fs_l3 f \<Longrightarrow> fs_l3 f < 64 * pb + 64 \<Longrightarrow>
    (0 < n \<longrightarrow> - 1 \<le> int (B ! k) - pb \<and> int (B ! k) - pb \<le> 2) \<Longrightarrow> (0 < k \<longrightarrow> pb = int (B ! (k - 1))) \<Longrightarrow> length (lo_blk (fs_out f)) = 8 \<Longrightarrow>
    reads (dec_segs (buildSmplMemFromSeed w) (memPcfg + of_nat c * 0x44) (memHdrFracBase + of_nat md * 0x280) n k f)
      (\<lambda>f'. state_ok (fs_st f') \<and> length (lo_blk (fs_out f')) = 8)"
proof (induction n arbitrary: k f pb)
  case 0
  then show ?case
    by (simp add: reads_def)
next
  case (Suc n)
  define a where "a = nat (64 * int (B ! k) - fs_l3 f + 127)"
  have rec: "length S = length B" "list_all (\<lambda>b. b < 9) B" "block_steps B"
    using window_of_record [OF w c] by (auto simp: record_ok_def)
  have k: "k < length B"
    using Suc.prems(1) by simp
  then have bk: "B ! k < 9"
    using rec(2) by (simp add: list_all_length)
  have r: "- 127 \<le> 64 * int (B ! k) - fs_l3 f" "64 * int (B ! k) - fs_l3 f \<le> 128"
    using Suc.prems(4-6) by linarith+
  have full: "cdf_full 64 (cdf16 (cw_fracCmfs w ! md) a 65)"
    using cdf16_full [OF frac_cmf_ok [OF w md], of a 64] r by (simp add: a_def)
  show ?case
    unfolding dec_segs_Suc [OF w c md k refl Suc.prems(3) [symmetric] r a_def]
  proof (rule reads_bind [OF reads_full [OF full]])
    fix i :: nat
    assume i: "i < 64"
    define f' where "f' = seg_next k (B ! k) (S ! k) (64 * int (B ! k) + int i) f"
    have f': "state_ok (fs_st f')" "fs_l3 f' = PrevFracLag (fs_st f')" "64 * int (B ! k) \<le> fs_l3 f'" "fs_l3 f' < 64 * int (B ! k) + 64"
      "length (lo_blk (fs_out f')) = 8"
      using Suc.prems(2,8) bk i by (simp_all add: f'_def seg_next_def state_ok_def put_lags_len)
    have "- 1 \<le> int (B ! Suc k) - int (B ! k) \<and> int (B ! Suc k) - int (B ! k) \<le> 2" if "0 < n"
      using block_steps_drop [OF rec(3)] Suc.prems(1) that by simp
    then show "reads (dec_segs (buildSmplMemFromSeed w) (memPcfg + of_nat c * 0x44) (memHdrFracBase + of_nat md * 0x280) n (k + 1) f')
        (\<lambda>f'. state_ok (fs_st f') \<and> length (lo_blk (fs_out f')) = 8)"
      using Suc.prems(1) f' by (intro Suc.IH [of "k + 1" f' "int (B ! k)"]) simp_all
  qed
qed

lemma reads_contour:
  assumes w: "window_ok w" and c: "c < 217" and md: "md < 3" and st: "state_ok st"
  shows "reads (dec_contour (buildSmplMemFromSeed w) (memPcfg + of_nat c * 0x44) (memHdrFracBase + of_nat md * 0x280) st)
    (\<lambda>(f, cnt2). state_ok (fs_st f) \<and> length (lo_blk (fs_out f)) = 8)"
proof -
  obtain B S where BS: "cw_records w ! c = (B, S)"
    by (cases "cw_records w ! c")
  define m ctr fr where "m = buildSmplMemFromSeed w" and "ctr = memPcfg + of_nat c * 0x44" and "fr = memHdrFracBase + of_nat md * 0x280"
  define b s where "b = B ! 0" and "s = S ! 0"
  define out where "out = \<lparr>lo_w = 0, lo_int = replicate 4 (0 :: int), lo_blk = replicate 8 0\<rparr>"
  have rec: "0 < length B" "b < 9" "block_steps B"
    using window_of_record [OF w c BS] unfolding record_ok_def list_all_length b_def by (fastforce, fastforce, simp)
  have read: "I32 m (ctr + 0x1d38) = Some (int b)" "I32 m (ctr + 0x1d58) = Some (int s)" "I32 m (ctr + 0x1d78) = Some (int (length B))"
    using window_record(1,2) [OF w c BS rec(1)] window_record(3) [OF w c BS] by (simp_all add: m_def ctr_def b_def s_def)
  note segs = reads_segs [OF w c BS md, folded m_def ctr_def fr_def]
  show ?thesis
    unfolding m_def [symmetric] ctr_def [symmetric] fr_def [symmetric]
  proof (cases "read_fine (PrevLag st) (int b)")
    case True
    define F where "F = (\<lambda>l. \<lparr>fs_l2 = l, fs_l3 = l, fs_out = put_trailing l (put_lags s l out), fs_samp = replicate 8 0,
        fs_st = st\<lparr>PrevFracLag := l, PrevLag := int b\<rparr>\<rparr>)"
    have "dec_contour m ctr fr st = (\<lambda>d. Decode64FineSym d \<bind> (\<lambda>(sym, d). (\<lambda>sym d. dec_segs m ctr fr (length B - 1) 1 (F (64 * int b + sym)) d \<bind>
        (\<lambda>(f, d). Some ((f, int (length B)), d))) sym d))"
    proof -
      have "nat (int (length B) - 1) = length B - 1"
        using rec(1) by linarith
      then show ?thesis
        using True by (intro ext) (simp add: dec_contour_def read Let_def F_def out_def push_bit_eq_mult mult.commute split_def)
    qed
    moreover have "reads \<dots> (\<lambda>(f, cnt2). state_ok (fs_st f) \<and> length (lo_blk (fs_out f)) = 8)"
    proof (rule reads_bind [OF reads_64Fine])
      fix sym :: int
      assume sym: "0 \<le> sym \<and> sym < 64"
      have "- 1 \<le> int (B ! 1) - int b \<and> int (B ! 1) - int b \<le> 2" if "0 < length B - 1"
        using block_steps_drop [OF rec(3), of 0] that by (simp add: b_def)
      then have "reads (dec_segs m ctr fr (length B - 1) 1 (F (64 * int b + sym))) (\<lambda>f'. state_ok (fs_st f') \<and> length (lo_blk (fs_out f')) = 8)"
        using st sym rec by (intro segs [of 1 "length B - 1" _ "int b"]) (auto simp: F_def state_ok_def put_lags_len put_trailing_def out_def b_def)
      then show "reads (\<lambda>d. dec_segs m ctr fr (length B - 1) 1 (F (64 * int b + sym)) d \<bind> (\<lambda>(f, d). Some ((f, int (length B)), d)))
          (\<lambda>(f, cnt2). state_ok (fs_st f) \<and> length (lo_blk (fs_out f)) = 8)"
        by (rule reads_then [where f = "\<lambda>f. (f, int (length B))"]) simp
    qed
    ultimately show "reads (dec_contour m ctr fr st) (\<lambda>(f, cnt2). state_ok (fs_st f) \<and> length (lo_blk (fs_out f)) = 8)"
      by simp
  next
    case False
    define F where "F = \<lparr>fs_l2 = int b, fs_l3 = PrevFracLag st, fs_out = out, fs_samp = replicate 8 0, fs_st = st\<rparr>"
    have "dec_contour m ctr fr st = (\<lambda>d. dec_segs m ctr fr (length B) 0 F d \<bind> (\<lambda>(f, d). Some ((f, int (length B)), d)))"
      using False by (intro ext) (simp add: dec_contour_def read Let_def F_def out_def)
    moreover have "reads (dec_segs m ctr fr (length B) 0 F) (\<lambda>f'. state_ok (fs_st f') \<and> length (lo_blk (fs_out f')) = 8)"
      using st False by (intro segs [of 0 "length B" _ "PrevLag st"]) (auto simp: F_def state_ok_def out_def read_fine_def b_def)
    ultimately show "reads (dec_contour m ctr fr st) (\<lambda>(f, cnt2). state_ok (fs_st f) \<and> length (lo_blk (fs_out f)) = 8)"
      using reads_then [of _ "\<lambda>f'. state_ok (fs_st f') \<and> length (lo_blk (fs_out f')) = 8" "\<lambda>(f, cnt2). state_ok (fs_st f) \<and> length (lo_blk (fs_out f)) = 8"
        "\<lambda>f. (f, int (length B))"] by simp
  qed
qed

lemma reads_pitch:
  assumes tb: "full_tables tb w" and cnts: "length cnts = 4" and st: "state_ok st"
  shows "reads (DecodeSmplPitch (tb_cc tb) (tb_mem tb) 320 4 0 cnts st) (\<lambda>(r, st'). length (pt_BlockLags r) = 8 \<and> state_ok st')"
proof -
  have T: "full_cc (tb_cc tb)" "window_ok w" "\<forall>(lo, hi) \<in> set (cw_firstblockRange w). lo \<le> 255 \<and> hi \<le> 216" "tb_mem tb = buildSmplMemFromSeed w"
    using tb by (simp_all add: full_tables_def)
  define m where "m = buildSmplMemFromSeed w"
  have g: "GClk m + 0x5704 = memPcfg"
    by (simp add: m_def buildSmplMemFromSeed_def memPcfg_def)
  define res where "res = (\<lambda>(gis, fis). \<lparr>pt_GainIdx = gis, pt_FiltIdx = fis, pt_Lag = 0, pt_Contour = 0,
      pt_SampleLagQ6 = replicate 8 0, pt_NumSeg = 0, pt_IntLagQ6 = replicate 4 0, pt_BlockLags = replicate 8 0, pt_NumSubfr = 0\<rparr>)"
  define L where "L = (\<lambda>st acc gf l d. case l of None \<Rightarrow> Some ((res gf\<lparr>pt_Lag := - 1\<rparr>, st), d)
      | Some lag \<Rightarrow> find_contour m memHdrContourMap (lag + 1) [0..<217] \<bind> (\<lambda>contour.
          if contour < 0 \<or> contour \<ge> 217 then Some ((res gf\<lparr>pt_Lag := lag, pt_Contour := contour\<rparr>, st), d)
          else dec_contour m (memPcfg + of_int contour * 0x44) (memHdrFracBase + of_nat (lag_mode (acc sdiv 4)) * 0x280) st d \<bind> (\<lambda>(fc, d).
            Some ((res gf\<lparr>pt_Lag := lag, pt_Contour := contour, pt_SampleLagQ6 := fs_samp (fst fc), pt_NumSeg := snd fc,
              pt_IntLagQ6 := lo_int (fs_out (fst fc)), pt_BlockLags := lo_blk (fs_out (fst fc)), pt_NumSubfr := lo_w (fs_out (fst fc))\<rparr>, fs_st (fst fc)), d))))"
  have L: "reads (L st acc gf l) (\<lambda>(r, st'). length (pt_BlockLags r) = 8 \<and> state_ok st')" if st: "state_ok st" for st acc gf l
  proof (cases l)
    case None
    then show ?thesis
      using st by (auto simp: L_def res_def split_def intro!: reads_return)
  next
    case (Some lag)
    obtain c where c: "find_contour m memHdrContourMap (lag + 1) [0..<217] = Some c" "c < 217"
      using find_contour_total [OF T(2), of "[0..<217]" "lag + 1"] by (auto simp: m_def)
    show ?thesis
    proof (cases "c < 0")
      case True
      then show ?thesis
        using st c Some by (auto simp: L_def res_def split_def intro!: reads_return)
    next
      case False
      define k where "k = nat c"
      have k: "c = int k" "k < 217"
        using False c(2) by (simp_all add: k_def)
      have "reads (dec_contour m (memPcfg + of_int c * 0x44) (memHdrFracBase + of_nat (lag_mode (acc sdiv 4)) * 0x280) st)
          (\<lambda>(f, cnt2). state_ok (fs_st f) \<and> length (lo_blk (fs_out f)) = 8)"
        using reads_contour [OF T(2) k(2) lag_mode_less st] by (simp add: m_def k(1))
      from reads_then [OF this, of "\<lambda>(r, st'). length (pt_BlockLags r) = 8 \<and> state_ok st'" "\<lambda>fc. (res gf\<lparr>pt_Lag := lag, pt_Contour := c,
          pt_SampleLagQ6 := fs_samp (fst fc), pt_NumSeg := snd fc, pt_IntLagQ6 := lo_int (fs_out (fst fc)), pt_BlockLags := lo_blk (fs_out (fst fc)),
          pt_NumSubfr := lo_w (fs_out (fst fc))\<rparr>, fs_st (fst fc))"]
      show ?thesis
        using False c Some by (auto simp: L_def)
    qed
  qed
  have "reads (\<lambda>d. dec_gains (tb_cc tb) 0 cnts 0 st d \<bind> (\<lambda>(r, d). (\<lambda>(gis, fis, acc, st) d. dec_lag m (PrevLag st) 217 memHdrLagCdf memHdrDeltaCdf d \<bind>
      (\<lambda>(l, d). L st acc (gis, fis) l d)) r d)) (\<lambda>(r, st'). length (pt_BlockLags r) = 8 \<and> state_ok st')"
  proof (rule reads_bind [OF reads_dec_gains [OF T(1) st]])
    fix r :: "int list \<times> int list \<times> int \<times> SmplLsfState"
    assume r: "case r of (gis, fis, acc, st') \<Rightarrow> length gis = length cnts \<and> length fis = length cnts \<and> state_ok st'"
    obtain gis fis acc st' where r': "r = (gis, fis, acc, st')"
      by (metis prod_cases4)
    have "state_ok st'" "PrevLag st' < 9"
      using r by (simp_all add: r' state_ok_def)
    then show "reads ((\<lambda>(gis, fis, acc, st) d. dec_lag m (PrevLag st) 217 memHdrLagCdf memHdrDeltaCdf d \<bind> (\<lambda>(l, d). L st acc (gis, fis) l d)) r)
        (\<lambda>(r, st'). length (pt_BlockLags r) = 8 \<and> state_ok st')"
      unfolding r' prod.case m_def by (intro reads_bind [OF reads_lag [OF T(2,3)]] L)
  qed
  moreover have "DecodeSmplPitch (tb_cc tb) m 320 4 0 cnts st = (\<lambda>d. dec_gains (tb_cc tb) 0 cnts 0 st d \<bind> (\<lambda>(r, d). (\<lambda>(gis, fis, acc, st) d.
      dec_lag m (PrevLag st) 217 memHdrLagCdf memHdrDeltaCdf d \<bind> (\<lambda>(l, d). L st acc (gis, fis) l d)) r d))"
    using cnts by (intro ext) (simp add: DecodeSmplPitch_def g window_header [OF T(2), folded m_def] L_def res_def Let_def split_def cong: option.case_cong if_cong)
  ultimately show ?thesis
    by (simp add: T(4) m_def)
qed

section \<open>Frames and payloads\<close>

lemma reads_one:
  assumes tb: "full_tables tb w" and st: "state_ok st"
  shows "reads (decodeOne tb 0 f st) (\<lambda>(x, st'). state_ok st')"
proof -
  have T: "full_lsf (tb_lsf tb)" "full_cc (tb_cc tb)"
    using tb by (simp_all add: full_tables_def)
  define D where "D = (\<lambda>(lsf, st) pu d. if li_Stage1 lsf = 1
      then DecodeSmplPitch (tb_cc tb) (tb_mem tb) 320 4 0 (pr_Subfr pu) st d \<bind> (\<lambda>(r, d).
        Some ((\<lparr>if_Lsf = lsf, if_Pulses = pr_Pulses pu, if_Params = voiced_params pu (fst r)\<rparr>, snd r), d))
      else DecodeSmplGains (tb_cc tb) 4 (pr_Subfr pu) d \<bind> (\<lambda>(g, d).
        Some ((\<lparr>if_Lsf = lsf, if_Pulses = pr_Pulses pu, if_Params = unvoiced_params pu g\<rparr>, st), d)))"
  have D: "reads (D (lsf, st) pu) (\<lambda>(x, st'). state_ok st')" if "state_ok st" "counts_ok (pr_Subfr pu)" for lsf st pu
  proof (cases "li_Stage1 lsf = 1")
    case True
    have "reads (DecodeSmplPitch (tb_cc tb) (tb_mem tb) 320 4 0 (pr_Subfr pu) st) (\<lambda>(r, st'). length (pt_BlockLags r) = 8 \<and> state_ok st')"
      using that by (intro reads_pitch [OF tb]) (simp_all add: counts_ok_def)
    from reads_then [OF this, of "\<lambda>(x, st'). state_ok st'" "\<lambda>r. (\<lparr>if_Lsf = lsf, if_Pulses = pr_Pulses pu, if_Params = voiced_params pu (fst r)\<rparr>, snd r)"]
    show ?thesis
      using True by (simp add: D_def split_def)
  next
    case False
    have "reads (DecodeSmplGains (tb_cc tb) 4 (pr_Subfr pu)) (\<lambda>g. True)"
      using that(2) by (intro reads_gains T) (simp add: counts_ok_def)
    from reads_then [OF this, of "\<lambda>(x, st'). state_ok st'" "\<lambda>g. (\<lparr>if_Lsf = lsf, if_Pulses = pr_Pulses pu, if_Params = unvoiced_params pu g\<rparr>, st)"]
    show ?thesis
      using False that(1) by (simp add: D_def)
  qed
  have "reads (\<lambda>d. DecodeSmplLsf (tb_lsf tb) 0 (int f) st d \<bind> (\<lambda>(ls, d). DecodeSmplPulses (tb_cc tb) 320 4 1 0 (li_Stage1 (fst ls)) d \<bind>
      (\<lambda>(pu, d). D ls pu d))) (\<lambda>(x, st'). state_ok st')"
  proof (rule reads_bind [OF reads_lsf [OF T(1) st]])
    fix ls :: "SmplLsfIndices \<times> SmplLsfState"
    assume ls: "case ls of (lsf, st') \<Rightarrow> (li_Stage1 lsf = 0 \<or> li_Stage1 lsf = 1) \<and> state_ok st'"
    obtain lsf st' where l: "ls = (lsf, st')"
      by (cases ls)
    show "reads (\<lambda>d. DecodeSmplPulses (tb_cc tb) 320 4 1 0 (li_Stage1 (fst ls)) d \<bind> (\<lambda>(pu, d). D ls pu d)) (\<lambda>(x, st'). state_ok st')"
      using ls unfolding l by (intro reads_bind [OF reads_pulses [OF T(2)]] D) auto
  qed
  moreover have "decodeOne tb 0 f st = (\<lambda>d. DecodeSmplLsf (tb_lsf tb) 0 (int f) st d \<bind> (\<lambda>(ls, d). DecodeSmplPulses (tb_cc tb) 320 4 1 0 (li_Stage1 (fst ls)) d \<bind>
      (\<lambda>(pu, d). D ls pu d)))"
    by (intro ext) (simp add: decodeOne_def D_def split_def cong: if_cong)
  ultimately show ?thesis
    by simp
qed

lemma reads_internals:
  assumes tb: "full_tables tb w"
  shows "state_ok st \<Longrightarrow> reads (decode_internals tb 0 f n st) (\<lambda>(xs, st'). length xs = n \<and> state_ok st')"
proof (induction n arbitrary: f st)
  case (Suc n)
  define D where "D = (\<lambda>(x, st) d. decode_internals tb 0 (f + 1) n st d \<bind> (\<lambda>(r, d). Some ((x # fst r, snd r), d)))"
  have "reads (\<lambda>d. decodeOne tb 0 f st d \<bind> (\<lambda>(s, d). D s d)) (\<lambda>(xs, st'). length xs = Suc n \<and> state_ok st')"
    by (rule reads_bind [OF reads_one [OF tb Suc.prems]]) (auto simp: D_def intro!: reads_then [OF Suc.IH])
  moreover have "decode_internals tb 0 f (Suc n) st = (\<lambda>d. decodeOne tb 0 f st d \<bind> (\<lambda>(s, d). D s d))"
    by (intro ext) (simp add: D_def split_def)
  ultimately show ?case
    by simp
qed (simp add: reads_def)

definition in_range :: "'f :: linordered_idom list \<Rightarrow> bool" where
  "in_range pcm \<longleftrightarrow> pcm \<noteq> [] \<and> length pcm \<le> 15360 \<and> (\<forall>x \<in> set pcm. - 1 \<le> x \<and> x \<le> 1)"

definition decoder_ok :: "'s MlowDecoder \<Rightarrow> bool" where
  "decoder_ok dec \<longleftrightarrow> state_ok (ds_Lstate (md_state dec))"

lemma clamp_range: "- 1 \<le> clamp x \<and> clamp x \<le> (1 :: 'f :: linordered_idom)"
  by (auto simp: clamp_def)

lemma length_synth: "length (fst (synth_all S c xs s)) = 320 * length xs"
  by (induction xs arbitrary: s) (simp_all add: split_def Let_def SmplIntfLen_def)

text \<open>What a frame leaves: at most 1920 samples.\<close>

definition frame_out :: "'f :: linordered_idom list \<Rightarrow> bool" where
  "frame_out pcm \<longleftrightarrow> pcm \<noteq> [] \<and> length pcm \<le> 1920 \<and> (\<forall>x \<in> set pcm. - 1 \<le> x \<and> x \<le> 1)"

lemma silence_out: "0 < n \<Longrightarrow> n \<le> 1920 \<Longrightarrow> frame_out (replicate n 0)"
  by (auto simp: frame_out_def)

lemma active_total:
  assumes tb: "full_tables tb w" and dec: "decoder_ok dec" and b: "toc_config b = 0"
  shows "\<exists>pcm dec'. decodeActiveFrame tb S (b # body) dec = Some (pcm, dec') \<and> frame_out pcm \<and> decoder_ok dec'"
proof -
  obtain d where d: "NewRangeDecoder body = Some d" "dec_good d"
    using NewRangeDecoder_good by blast
  obtain xs st d' where r: "decode_internals tb 0 0 3 (ds_Lstate (md_state dec)) d = Some ((xs, st), d')" "length xs = 3" "state_ok st"
    using reads_internals [OF tb, of "ds_Lstate (md_state dec)" 0 3] dec d(2) unfolding reads_def decoder_ok_def by fastforce
  show ?thesis
    using d(1) r b length_synth [of S 0 xs "ds_syn (md_state dec)"]
    by (auto simp: decodeActiveFrame_def idx_def slice_from_def slice_def internalGroupSize_def split_def Let_def frame_out_def decoder_ok_def clamp_range)
qed

lemma unat_and3: "unat (x AND 3 :: u8) < 4"
proof -
  have "x AND 3 \<le> 3"
    by (rule word_and_le1)
  then show ?thesis
    by (simp add: word_le_nat_alt)
qed

lemma unat_and1: "unat (x AND 1 :: u8) < 2"
proof -
  have "x AND 1 \<le> 1"
    by (rule word_and_le1)
  then show ?thesis
    by (simp add: word_le_nat_alt)
qed

lemma idx_list: "i < length xs \<Longrightarrow> list_all P xs \<Longrightarrow> \<exists>x. idx xs i = Some x \<and> P x"
  by (auto simp: idx_def list_all_length)

lemma toc_total:
  "\<exists>t. ParseSmplTOC b = Some t \<and> FrameMs t \<le> 120 \<and> (\<not> StdOpus t \<and> \<not> Flag2 t \<longrightarrow> toc_config b = 0)"
proof (cases "IsStandardOpusFrame b")
  case True
  have "\<exists>ms. standardOpusFrameMs b = Some ms \<and> ms \<le> 120"
    unfolding standardOpusFrameMs_def Let_def
    using idx_list [of "unat (drop_bit 3 b AND 3)" "[10, 20, 40, 60]" "\<lambda>ms :: int. ms \<le> 120"] unat_and3 [of "drop_bit 3 b"]
      idx_list [of "unat ((drop_bit 3 b - 12) AND 1)" "[10, 20]" "\<lambda>ms :: int. ms \<le> 120"] unat_and1 [of "drop_bit 3 b - 12"] by auto
  then show ?thesis
    using True by (auto simp: ParseSmplTOC_def)
next
  case False
  obtain ms :: int where "idx [10, 20, 60, 120] (unat (drop_bit 3 b AND 3)) = Some ms" "ms \<le> 120"
    using idx_list [of "unat (drop_bit 3 b AND 3)" "[10, 20, 60, 120]" "\<lambda>ms :: int. ms \<le> 120"] unat_and3 [of "drop_bit 3 b"] by auto
  then show ?thesis
    using False by (simp add: ParseSmplTOC_def toc_config_def Let_def)
qed

lemma frame_total:
  assumes tb: "full_tables tb w" and dec: "decoder_ok dec"
  shows "\<exists>pcm dec'. decodeFrame tb S p dec = Some (pcm, dec') \<and> frame_out pcm \<and> decoder_ok dec'"
proof (cases p)
  case Nil
  then show ?thesis
    using dec silence_out [of opusFrameSamps] by (simp add: decodeFrame_def opusFrameSamps_def)
next
  case (Cons b body)
  obtain t where t: "ParseSmplTOC b = Some t" "FrameMs t \<le> 120" "\<not> StdOpus t \<and> \<not> Flag2 t \<longrightarrow> toc_config b = 0"
    using toc_total by blast
  define n where "n = (if 16 * FrameMs t \<le> 0 then int opusFrameSamps else 16 * FrameMs t)"
  have n: "0 < nat n" "nat n \<le> 1920"
    using t(2) by (auto simp: n_def opusFrameSamps_def)
  show ?thesis
  proof (cases "StdOpus t \<or> \<not> Active t \<or> SampleRate t \<noteq> 16000 \<or> Flag2 t \<or> FrameMs t \<noteq> 60")
    case True
    then show ?thesis
      using dec silence_out [OF n] t(1) by (simp add: decodeFrame_def Cons idx_def Let_def n_def)
  next
    case False
    then show ?thesis
      using active_total [OF tb dec, of b S body] t by (simp add: decodeFrame_def Cons idx_def Let_def)
  qed
qed

lemma frames_total:
  assumes tb: "full_tables tb w"
  shows "decoder_ok dec \<Longrightarrow> \<exists>pcm dec'. decode_frames tb S fs dec = Some (pcm, dec') \<and> (fs \<noteq> [] \<longrightarrow> pcm \<noteq> []) \<and> length pcm \<le> 1920 * length fs \<and>
    (\<forall>x \<in> set pcm. - 1 \<le> x \<and> x \<le> (1 :: 'f :: linordered_idom)) \<and> decoder_ok dec'"
proof (induction fs arbitrary: dec)
  case (Cons f fs)
  obtain p1 dec1 where 1: "decodeFrame tb S f dec = Some (p1, dec1)" "frame_out p1" "decoder_ok dec1"
    using frame_total [OF tb Cons.prems] by blast
  obtain p2 dec2 where 2: "decode_frames tb S fs dec1 = Some (p2, dec2)" "length p2 \<le> 1920 * length fs" "\<forall>x \<in> set p2. - 1 \<le> x \<and> x \<le> 1" "decoder_ok dec2"
    using Cons.IH [OF 1(3)] by blast
  show ?case
    using 1 2 by (auto simp: frame_out_def)
qed simp

text \<open>Every payload: silence, one frame, or the two to eight frames of a container.\<close>

lemma Decode_total:
  assumes tb: "full_tables tb w" and dec: "decoder_ok dec"
  shows "\<exists>pcm dec'. dec_Decode tb S p dec = Some (pcm, dec') \<and> in_range pcm \<and> decoder_ok dec'"
proof (cases "p = []")
  case True
  then show ?thesis
    using dec silence_out [of opusFrameSamps] by (auto simp: dec_Decode_def opusFrameSamps_def in_range_def)
next
  case False
  define dec1 where "dec1 = dec\<lparr>md_lastWasRed := False, md_lastRedBlocks := 0, md_lastMainToc := 0\<rparr>"
  have d1: "decoder_ok dec1"
    using dec by (simp add: dec1_def decoder_ok_def)
  show ?thesis
  proof (rule splitContainer_read [of p])
    assume "splitContainer p = Some None"
    then show ?thesis
      using False frame_total [OF tb d1, of S p] by (auto simp: dec_Decode_def dec1_def frame_out_def in_range_def)
  next
    fix fs l
    assume fl: "container_valid fs l" "p = container fs l"
    then have s: "splitContainer p = Some (Some (fs @ [l]))" "l \<noteq> []" "length fs \<le> 7"
      using splitContainer_layout [of fs l] by (simp_all add: container_valid_def)
    define dec2 where "dec2 = dec1\<lparr>md_lastWasRed := True, md_lastRedBlocks := length fs, md_lastMainToc := l ! 0\<rparr>"
    have d2: "decoder_ok dec2"
      using d1 by (simp add: dec2_def decoder_ok_def)
    have "dec_Decode tb S p dec = decode_frames tb S (fs @ [l]) dec2"
      using False s by (simp add: dec_Decode_def idx_int_def idx_def dec2_def dec1_def)
    then show ?thesis
      using frames_total [OF tb d2, of S "fs @ [l]"] s(3) by (fastforce simp: in_range_def)
  qed
qed

fun decode_calls :: "Tables \<Rightarrow> ('s, 'f :: linordered_idom) Synth \<Rightarrow> bytes list \<Rightarrow> 's MlowDecoder \<Rightarrow> ('f list list \<times> 's MlowDecoder) go" where
  "decode_calls tb S [] dec = Some ([], dec)"
| "decode_calls tb S (p # ps) dec = do {
     (pcm, dec) \<leftarrow> dec_Decode tb S p dec;
     (pcms, dec) \<leftarrow> decode_calls tb S ps dec;
     Some (pcm # pcms, dec) }"

lemma calls_total:
  assumes tb: "full_tables tb w"
  shows "decoder_ok dec \<Longrightarrow> \<exists>pcms dec'. decode_calls tb S ps dec = Some (pcms, dec') \<and> length pcms = length ps \<and> (\<forall>pcm \<in> set pcms. in_range pcm)"
proof (induction ps arbitrary: dec)
  case (Cons p ps)
  obtain pcm dec1 where 1: "dec_Decode tb S p dec = Some (pcm, dec1)" "in_range pcm" "decoder_ok dec1"
    using Decode_total [OF tb Cons.prems] by blast
  then show ?case
    using Cons.IH [OF 1(3)] by auto
qed simp


section \<open>Tables that are full\<close>

lemma ramp_slice: "i + n \<le> m + 1 \<Longrightarrow> m \<le> 65535 \<Longrightarrow> 2 \<le> n \<Longrightarrow> \<exists>c. slice (ramp m) i (i + n) = Some c \<and> cdf_full (n - 1) c"
proof -
  assume *: "i + n \<le> m + 1" "m \<le> 65535" "2 \<le> n"
  have l: "length (ramp m) = m + 1"
    by (simp add: ramp_def)
  have "cdf_full (n - 1) (take n (drop i (ramp m)))"
    using * l by (intro full_sorted sorted_wrt_take sorted_wrt_drop sorted_ramp) simp_all
  then show ?thesis
    using * l by (simp add: slice_def)
qed

lemma full_ramp: "1 \<le> n \<Longrightarrow> n \<le> 65535 \<Longrightarrow> cdf_full n (ramp n)"
  by (intro full_sorted sorted_ramp) (simp_all add: ramp_def)

lemma sample_full_lsf: "full_lsf sample_lsf"
proof -
  have g: "lsf_grid_cdf sample_lsf m s1 = ramp 2" for m s1
    by (simp add: lsf_grid_cdf_def sample_lsf_def)
  have st2: "lsf_stage2_cdfs sample_lsf s1 0 (int g) = Some (replicate 16 (ramp 8))" if "g < 2" "s1 \<in> {0, 1}" for g s1
    using that by (auto simp: lsf_stage2_cdfs_def sample_lsf_def idx_int_def idx_def slice_def)
  have b: "cdf_bounded (ramp 8)" "cdf_bounded (ramp 3)"
    using full_ramp [of 8] full_ramp [of 3] by (simp_all add: cdf_full_def)
  have "\<exists>n. cdf_full n (lsf_grid_cdf sample_lsf m s1) \<and>
      (\<forall>g < n. \<exists>cs. lsf_stage2_cdfs sample_lsf s1 0 (int g) = Some cs \<and> (\<forall>c \<in> set cs. cdf_bounded c))" if "s1 \<in> {0, 1}" for m s1
    unfolding g by (rule exI [of _ 2]) (simp add: full_ramp st2 [OF _ that] b)
  then show ?thesis
    using b by (simp add: full_lsf_def full_ramp sample_lsf_def)
qed

lemma sample_full_cc: "full_cc sample_cc"
proof -
  have "\<exists>cdf. FcbgOffset sample_cc 2 b off = Some cdf \<and> cdf_bounded cdf" if "b \<in> {0..3}" "off \<in> {0..85}" for b off
  proof -
    have "nat b < 4" "nat off + 92 \<le> 177" "nat (off + 92) = nat off + 92"
      using that by auto
    then show ?thesis
      using that ramp_slice [of "nat off" 92 176]
      by (auto simp: FcbgOffset_def sample_cc_def ccFcbgOffsetBuckets_def idx_int_def idx_def slice_int_def cdf_full_def nat_add_distrib)
  qed
  moreover have "\<exists>row. AcbgainRow sample_cc pg = Some row \<and> cdf_full 16 row" if "pg \<in> {- 1..15}" for pg
    using sample_row [of pg] that full_ramp [of 16] by (simp add: acb_row_def)
  moreover have "AcbgainWeights sample_cc gi \<noteq> None" if "gi \<in> {0..15}" for gi
    using sample_weights [of gi] that by (simp add: acb_weights_def)
  moreover have "\<exists>cdf. FcbgainVDelta sample_cc pf = Some cdf \<and> cdf_full 34 cdf" if "pf \<in> {0..33}" for pf
  proof -
    have "nat (33 - pf) + 35 \<le> 68" "nat (33 - pf + 35) = nat (33 - pf) + 35"
      using that by auto
    then show ?thesis
      using that ramp_slice [of "nat (33 - pf)" 35 67] by (auto simp: FcbgainVDelta_def ccFcbgVN_def sample_cc_def slice_int_def)
  qed
  moreover have "cdf_full 34 (fcbgainsV sample_cc)" "cdf_bounded (nrgresGain4 sample_cc)" "cdf_bounded (nrgresShape4 sample_cc)"
    using full_ramp [of 34] full_ramp [of 4] by (simp_all add: sample_cc_def cdf_full_def)
  ultimately show ?thesis
    unfolding full_cc_def using sample_splits sample_runs by blast
qed

lemma sample_full_tables: "full_tables sample_tables sample_window"
  using sample_full_lsf sample_full_cc sample_window_ok by (simp add: full_tables_def sample_tables_def) (simp add: sample_window_def)


end
