(* ===== verification/Float32.thy ===== *)
theory Float32
  imports Prelude Complex_Main
begin

text \<open>
  Go's \<open>float32\<close> and \<open>float64\<close> as far as the sample paths use them. A value is a rational number, an infinity or NaN; the
  two zeros are one value, which the sources cannot tell apart since they never divide by a sample. An operation computes
  the exact result and rounds it to nearest, ties to even, at the precision of its type (24 or 53 bits, with the least
  positive value \<open>2^-149\<close> or \<open>2^-1074\<close>); results past the largest finite value are infinite.
\<close>

section \<open>Rounding\<close>

definition rne :: "rat \<Rightarrow> int" where
  "rne x = (let n = \<lfloor>x\<rfloor>; d = x - of_int n in
     if d < 1 / 2 then n else if 1 / 2 < d then n + 1 else if even n then n else n + 1)"

text \<open>The number of fractional bits kept of \<open>x\<close>: enough to bring it to \<open>t\<close>, at most \<open>k\<close>.\<close>

fun fracbits :: "nat \<Rightarrow> rat \<Rightarrow> rat \<Rightarrow> nat" where
  "fracbits 0 t x = 0"
| "fracbits (Suc k) t x = (if t \<le> \<bar>x\<bar> then 0 else Suc (fracbits k t (2 * x)))"

text \<open>The number of low integer bits dropped of \<open>x\<close>: enough to bring it below \<open>2 t\<close>.\<close>

fun intbits :: "nat \<Rightarrow> rat \<Rightarrow> rat \<Rightarrow> nat" where
  "intbits 0 t x = 0"
| "intbits (Suc k) t x = (if \<bar>x\<bar> < 2 * t then 0 else Suc (intbits k t (x / 2)))"

definition round_bits :: "nat \<Rightarrow> nat \<Rightarrow> nat \<Rightarrow> rat \<Rightarrow> rat" where
  "round_bits p sub ib x = (let t = 2 ^ (p - 1) in
     if \<bar>x\<bar> < 2 * t then let j = fracbits sub t x in of_int (rne (x * 2 ^ j)) / 2 ^ j
     else let k = intbits ib t x in of_int (rne (x / 2 ^ k)) * 2 ^ k)"

section \<open>Values and operations\<close>

datatype flt = NaN | PInf | NInf | Fin rat

text \<open>A format rounds an exact result. The exact results of an addition or a multiplication stay below the squares of the
  largest values, hence the bound on the dropped integer bits.\<close>

definition f32 :: "rat \<Rightarrow> flt" where
  "f32 x = (let r = round_bits 24 149 256 x in if 2 ^ 128 \<le> r then PInf else if r \<le> - (2 ^ 128) then NInf else Fin r)"

definition f64 :: "rat \<Rightarrow> flt" where
  "f64 x = (let r = round_bits 53 1074 2048 x in if 2 ^ 1024 \<le> r then PInf else if r \<le> - (2 ^ 1024) then NInf else Fin r)"

definition sgn_inf :: "bool \<Rightarrow> flt" where
  "sgn_inf neg = (if neg then NInf else PInf)"

fun fneg :: "flt \<Rightarrow> flt" where
  "fneg NaN = NaN" | "fneg PInf = NInf" | "fneg NInf = PInf" | "fneg (Fin x) = Fin (- x)"

fun fadd :: "(rat \<Rightarrow> flt) \<Rightarrow> flt \<Rightarrow> flt \<Rightarrow> flt" where
  "fadd r NaN b = NaN"
| "fadd r a NaN = NaN"
| "fadd r PInf NInf = NaN"
| "fadd r NInf PInf = NaN"
| "fadd r PInf b = PInf"
| "fadd r NInf b = NInf"
| "fadd r a PInf = PInf"
| "fadd r a NInf = NInf"
| "fadd r (Fin x) (Fin y) = r (x + y)"

fun fneg_sign :: "flt \<Rightarrow> bool" where
  "fneg_sign NaN = False" | "fneg_sign PInf = False" | "fneg_sign NInf = True" | "fneg_sign (Fin x) = (x < 0)"

definition fmul :: "(rat \<Rightarrow> flt) \<Rightarrow> flt \<Rightarrow> flt \<Rightarrow> flt" where
  "fmul r a b =
     (case (a, b) of
        (Fin x, Fin y) \<Rightarrow> r (x * y)
      | _ \<Rightarrow> if a = NaN \<or> b = NaN \<or> a = Fin 0 \<or> b = Fin 0 then NaN else sgn_inf (fneg_sign a \<noteq> fneg_sign b))"

definition fsub :: "(rat \<Rightarrow> flt) \<Rightarrow> flt \<Rightarrow> flt \<Rightarrow> flt" where
  "fsub r a b = fadd r a (fneg b)"

text \<open>Division by a positive finite number; the sources divide by nothing else.\<close>

fun fdiv_pos :: "(rat \<Rightarrow> flt) \<Rightarrow> flt \<Rightarrow> rat \<Rightarrow> flt" where
  "fdiv_pos r (Fin x) c = r (x / c)"
| "fdiv_pos r a c = a"

fun fge :: "flt \<Rightarrow> rat \<Rightarrow> bool" where
  "fge NaN c = False" | "fge PInf c = True" | "fge NInf c = False" | "fge (Fin x) c = (c \<le> x)"

fun fle :: "flt \<Rightarrow> rat \<Rightarrow> bool" where
  "fle NaN c = False" | "fle PInf c = False" | "fle NInf c = True" | "fle (Fin x) c = (x \<le> c)"

text \<open>Conversion to an integer type truncates towards zero. For values the type cannot hold the result is
  implementation-defined; the sources convert none.\<close>

definition trunc :: "rat \<Rightarrow> int" where
  "trunc x = (if 0 \<le> x then \<lfloor>x\<rfloor> else \<lceil>x\<rceil>)"

fun fint :: "flt \<Rightarrow> int" where
  "fint (Fin x) = trunc x"
| "fint a = 0"

section \<open>Rounding lemmas\<close>

lemma rne_of_int [simp]: "rne (of_int n) = n"
  by (simp add: rne_def)

lemma rne_bounds: "\<lfloor>x\<rfloor> \<le> rne x" "rne x \<le> \<lceil>x\<rceil>"
proof -
  show "\<lfloor>x\<rfloor> \<le> rne x" by (simp add: rne_def Let_def)
  show "rne x \<le> \<lceil>x\<rceil>"
  proof (cases "x = of_int \<lfloor>x\<rfloor>")
    case True
    then show ?thesis by (metis ceiling_of_int order_refl rne_of_int)
  next
    case False
    then have "of_int \<lfloor>x\<rfloor> < x" using of_int_floor_le [of x] by linarith
    then have "\<lfloor>x\<rfloor> + 1 \<le> \<lceil>x\<rceil>" using less_ceiling_iff [of "\<lfloor>x\<rfloor>" x] by linarith
    then show ?thesis unfolding rne_def Let_def by (smt (verit) floor_le_ceiling)
  qed
qed

lemma rne_mono_int: "of_int a \<le> x \<Longrightarrow> a \<le> rne x" "x \<le> of_int b \<Longrightarrow> rne x \<le> b"
  using rne_bounds [of x] le_floor_iff [of a x] ceiling_le_iff [of x b] by linarith+

lemma fracbits_le: "fracbits k t x \<le> k"
  by (induction k t x rule: fracbits.induct) auto

lemma fracbits_ge: "\<bar>x\<bar> * 2 ^ n < 2 * t \<Longrightarrow> n \<le> k \<Longrightarrow> n \<le> fracbits k t x"
proof (induction k t x arbitrary: n rule: fracbits.induct)
  case (2 k t x)
  show ?case
  proof (cases n)
    case (Suc m)
    have "\<bar>x\<bar> * 2 ^ m < t" using 2(2) Suc by simp
    moreover have "\<bar>x\<bar> \<le> \<bar>x\<bar> * 2 ^ m" by (simp add: mult_le_cancel_left1)
    ultimately have less: "\<not> t \<le> \<bar>x\<bar>" by linarith
    have "m \<le> fracbits k t (2 * x)"
      by (rule 2(1) [OF less]) (use 2 Suc in \<open>auto simp: abs_mult\<close>)
    then show ?thesis using Suc less by simp
  qed simp
qed simp

text \<open>A value of the precision is kept.\<close>

lemma round_bits_exact:
  assumes "x = of_int m / 2 ^ n" "\<bar>m\<bar> < 2 ^ p" "n \<le> sub" "0 < p"
  shows "round_bits p sub ib x = x"
proof -
  have p: "2 * 2 ^ (p - 1) = (2 :: rat) ^ p" using assms(4) by (cases p) auto
  have xm: "\<bar>x\<bar> * 2 ^ n = of_int \<bar>m\<bar>" using assms(1) by (simp add: abs_mult)
  have m: "of_int \<bar>m\<bar> < (2 :: rat) ^ p" using assms(2) by (metis of_int_less_iff of_int_numeral of_int_power)
  have "\<bar>x\<bar> \<le> \<bar>x\<bar> * 2 ^ n" by (simp add: mult_le_cancel_left1)
  with xm m have small: "\<bar>x\<bar> < 2 * 2 ^ (p - 1)" unfolding p by linarith
  define j where "j = fracbits sub (2 ^ (p - 1)) x"
  have "n \<le> j" unfolding j_def by (rule fracbits_ge) (use xm m p assms(3) in auto)
  then have j: "(2 :: rat) ^ j = 2 ^ n * 2 ^ (j - n)" by (simp flip: power_add)
  have "x * 2 ^ j = of_int (m * 2 ^ (j - n))" unfolding j using assms(1) by simp
  then have "of_int (rne (x * 2 ^ j)) / 2 ^ j = x" by (metis rne_of_int nonzero_mult_div_cancel_right power_not_zero zero_neq_numeral)
  with small show ?thesis by (simp add: round_bits_def j_def Let_def)
qed

text \<open>Integers are values up to the precision, so rounding does not cross one.\<close>

lemma round_bits_between:
  assumes "\<bar>x\<bar> < 2 ^ p" "0 < p"
  shows "of_int \<lfloor>x\<rfloor> \<le> round_bits p sub ib x" "round_bits p sub ib x \<le> of_int \<lceil>x\<rceil>"
proof -
  have p: "2 * 2 ^ (p - 1) = (2 :: rat) ^ p" using assms(2) by (cases p) auto
  define j where "j = fracbits sub (2 ^ (p - 1)) x"
  have r: "round_bits p sub ib x = of_int (rne (x * 2 ^ j)) / 2 ^ j"
    using assms(1) p by (simp add: round_bits_def j_def Let_def)
  have "of_int (\<lfloor>x\<rfloor> * 2 ^ j) \<le> x * 2 ^ j" by simp
  then have "\<lfloor>x\<rfloor> * 2 ^ j \<le> rne (x * 2 ^ j)" by (rule rne_mono_int)
  then have "(of_int (\<lfloor>x\<rfloor> * 2 ^ j) :: rat) \<le> of_int (rne (x * 2 ^ j))" by (simp only: of_int_le_iff)
  then show "of_int \<lfloor>x\<rfloor> \<le> round_bits p sub ib x" unfolding r by (simp add: field_simps)
  have "x * 2 ^ j \<le> of_int (\<lceil>x\<rceil> * 2 ^ j)" by simp
  then have "rne (x * 2 ^ j) \<le> \<lceil>x\<rceil> * 2 ^ j" by (rule rne_mono_int)
  then have "(of_int (rne (x * 2 ^ j)) :: rat) \<le> of_int (\<lceil>x\<rceil> * 2 ^ j)" by (simp only: of_int_le_iff)
  then show "round_bits p sub ib x \<le> of_int \<lceil>x\<rceil>" unfolding r by (simp add: field_simps)
qed

lemma f32_exact:
  assumes "x = of_int m / 2 ^ n" "\<bar>m\<bar> < 2 ^ 24" "n \<le> 149"
  shows "f32 x = Fin x"
proof -
  have r: "round_bits 24 149 256 x = x" by (rule round_bits_exact [OF assms(1) assms(2) assms(3)]) simp
  have "\<bar>x\<bar> \<le> \<bar>of_int m\<bar>" using assms(1) by (simp add: abs_divide divide_le_eq mult_le_cancel_left1)
  moreover have "of_int \<bar>m\<bar> < (2 :: rat) ^ 24" using assms(2) by (metis of_int_less_iff of_int_numeral of_int_power)
  ultimately have "\<bar>x\<bar> < 2 ^ 24" by simp
  moreover have "(2 :: rat) ^ 24 \<le> 2 ^ 128" by simp
  ultimately have "x < 2 ^ 128" "- (2 ^ 128) < x" by linarith+
  then show ?thesis by (simp add: f32_def r Let_def)
qed

lemma f32_between:
  assumes "\<bar>x\<bar> < 2 ^ 24"
  obtains r where "f32 x = Fin r" "of_int \<lfloor>x\<rfloor> \<le> r" "r \<le> of_int \<lceil>x\<rceil>"
proof -
  define r where "r = round_bits 24 149 256 x"
  note b = round_bits_between [OF assms, of 149 256, folded r_def]
  have "\<lceil>x\<rceil> \<le> 2 ^ 24" "- (2 ^ 24) \<le> \<lfloor>x\<rfloor>"
    using assms by (simp_all add: ceiling_le_iff le_floor_iff)
  then have "(of_int \<lceil>x\<rceil> :: rat) \<le> of_int (2 ^ 24)" "of_int (- (2 ^ 24)) \<le> (of_int \<lfloor>x\<rfloor> :: rat)"
    by (simp_all only: of_int_le_iff)
  then have "r \<le> 2 ^ 24" "- (2 ^ 24) \<le> r" using b by (simp_all only: of_int_power of_int_numeral of_int_minus) linarith+
  then have "r < 2 ^ 128" "- (2 ^ 128) < r" by simp_all
  then have "f32 x = Fin r" by (simp add: f32_def r_def Let_def)
  with b that show thesis by simp
qed

lemma trunc_between: "of_int a \<le> x \<Longrightarrow> x \<le> of_int b \<Longrightarrow> a \<le> trunc x \<and> trunc x \<le> b"
  unfolding trunc_def by (auto simp: le_floor_iff ceiling_le_iff le_ceiling_iff floor_le_iff)

end
