(* ===== verification/Wav.thy ===== *)
theory Wav
  imports Float32
begin

text \<open>
  Sample files: conversion between samples and 16-bit words (\<^verbatim>\<open>media/pcm.go\<close>, \<^verbatim>\<open>media/resample.go\<close>) and the two readers,
  the normalisation to 16 kHz mono and the writer of WAV files (\<^verbatim>\<open>media/wavparse.go\<close>, the header of
  \<^verbatim>\<open>media/wavrecorder.go\<close>). Everything written is read back by both readers, within two quantisation steps of the
  samples.
\<close>

section \<open>Samples and 16-bit words\<close>

type_synonym pcm = "flt list"

definition floatToInt16 :: "flt \<Rightarrow> u16" where
  "floatToInt16 s =
     (if s = NaN then 0
      else if fge s 1 then 32767
      else if fle s (- 1) then word_of_int (- 32768)
      else word_of_int (fint (fmul f32 s (Fin 32767))))"

definition PCMFloat32ToInt16LE :: "pcm \<Rightarrow> bytes" where
  "PCMFloat32ToInt16LE p = concat (map (\<lambda>s. le16 (floatToInt16 s)) p)"

definition int16ToFloat :: "u16 \<Rightarrow> flt" where
  "int16ToFloat v = fdiv_pos f32 (f32 (of_int (sint v))) 32768"

fun PCMInt16LEToFloat32 :: "bytes \<Rightarrow> pcm" where
  "PCMInt16LEToFloat32 (a # b # r) = int16ToFloat (join16 b a) # PCMInt16LEToFloat32 r"
| "PCMInt16LEToFloat32 _ = []"

definition NormalizeFrame :: "pcm \<Rightarrow> nat \<Rightarrow> pcm go" where
  "NormalizeFrame p n = (if length p = n then Some p else copy_at (replicate n (Fin 0)) 0 p)"

section \<open>The lenient reader\<close>

datatype WavError =
    ErrUnexpectedEOF
  | NotRiff
  | ChunkTooLong bytes nat nat
  | FmtTooShort nat
  | NotPCM u16
  | NoFmt
  | BadDepth nat
  | BadChannels nat
  | BadRate nat
  | NoSamples

definition tag_RIFF :: bytes where "tag_RIFF = [0x52, 0x49, 0x46, 0x46]"
definition tag_WAVE :: bytes where "tag_WAVE = [0x57, 0x41, 0x56, 0x45]"
definition tag_fmt :: bytes where "tag_fmt = [0x66, 0x6d, 0x74, 0x20]"
definition tag_data :: bytes where "tag_data = [0x64, 0x61, 0x74, 0x61]"

text \<open>The scan for the data chunk, from \<open>idx\<close>.\<close>

function find_data :: "bytes \<Rightarrow> nat \<Rightarrow> pcm go" where
  "find_data raw i =
     (if i < length raw - 8 then do {
        t \<leftarrow> slice raw i (i + 4);
        if t = tag_data then do {
          dataLen \<leftarrow> le_uint32 raw (i + 4);
          let start = i + 8;
          let en = start + unat dataLen;
          let en = (if length raw < en then length raw else en);
          d \<leftarrow> slice raw start en;
          Some (PCMInt16LEToFloat32 d)
        } else find_data raw (i + 1)
      } else do {
        d \<leftarrow> slice_from raw 44;
        Some (PCMInt16LEToFloat32 d) })"
  by auto
termination by (relation "measure (\<lambda>(raw, i). length raw - i)") auto

declare find_data.simps [simp del]

definition ReadWavFloat32FromBytes :: "bytes \<Rightarrow> (WavError + pcm) go" where
  "ReadWavFloat32FromBytes raw =
     (if length raw < 44 then Some (Inl ErrUnexpectedEOF)
      else do { p \<leftarrow> find_data raw 36; Some (Inr p) })"

text \<open>\<open>os.ReadFile\<close> is the argument: the bytes of the file, or its error.\<close>

definition ReadWavFloat32 :: "('e + bytes) \<Rightarrow> (('e + WavError) + pcm) go" where
  "ReadWavFloat32 file =
     (case file of
        Inl e \<Rightarrow> Some (Inl (Inl e))
      | Inr raw \<Rightarrow> map_option (map_sum Inr id) (ReadWavFloat32FromBytes raw))"

section \<open>The strict reader\<close>

record WavInfo =
  wi_Channels :: nat
  wi_SampleRate :: nat
  wi_BitDepth :: nat
  wi_Samples :: pcm

definition zero_WavInfo :: WavInfo where
  "zero_WavInfo = \<lparr> wi_Channels = 0, wi_SampleRate = 0, wi_BitDepth = 0, wi_Samples = [] \<rparr>"

definition wavFormatPCM :: u16 where "wavFormatPCM = 1"
definition wavFormatExtensible :: u16 where "wavFormatExtensible = 0xFFFE"

text \<open>The format chunk whose \<open>csize\<close> bytes start at \<open>body\<close>.\<close>

definition wav_fmt :: "bytes \<Rightarrow> nat \<Rightarrow> nat \<Rightarrow> WavInfo \<Rightarrow> (WavError + WavInfo) go" where
  "wav_fmt raw body csize info =
     (if csize < 16 then Some (Inl (FmtTooShort csize))
      else do {
        format \<leftarrow> le_uint16 raw body;
        format \<leftarrow> (if format = wavFormatExtensible \<and> 40 \<le> csize then le_uint16 raw (body + 24) else Some format);
        if format \<noteq> wavFormatPCM then Some (Inl (NotPCM format))
        else do {
          ch \<leftarrow> le_uint16 raw (body + 2);
          rate \<leftarrow> le_uint32 raw (body + 4);
          depth \<leftarrow> le_uint16 raw (body + 14);
          Some (Inr (info\<lparr> wi_Channels := unat ch, wi_SampleRate := unat rate, wi_BitDepth := unat depth \<rparr>)) } })"

text \<open>The walk over the chunks from \<open>off\<close>, with the format found so far, whether there was one, and the last data
  chunk.\<close>

function wav_chunks :: "bytes \<Rightarrow> nat \<Rightarrow> WavInfo \<Rightarrow> bool \<Rightarrow> bytes \<Rightarrow> (WavError + WavInfo \<times> bool \<times> bytes) go" where
  "wav_chunks raw off info haveFmt dat =
     (if off + 8 \<le> length raw then do {
        cid \<leftarrow> slice raw off (off + 4);
        let body = off + 8;
        sz \<leftarrow> le_uint32 raw (off + 4);
        let csize = unat sz;
        if length raw < body + csize then Some (Inl (ChunkTooLong cid csize (length raw - body)))
        else go_try
          (if cid = tag_fmt then go_try (wav_fmt raw body csize info) (\<lambda>info. Some (Inr (info, True, dat)))
           else if cid = tag_data then do { d \<leftarrow> slice raw body (body + csize); Some (Inr (info, haveFmt, d)) }
           else Some (Inr (info, haveFmt, dat)))
          (\<lambda>(info, haveFmt, dat). wav_chunks raw (body + csize + csize mod 2) info haveFmt dat)
      } else Some (Inr (info, haveFmt, dat)))"
  by auto
termination by (relation "measure (\<lambda>(raw, off, _). length raw - off)") auto

declare wav_chunks.simps [simp del]

definition ParseWavStrict :: "bytes \<Rightarrow> (WavError + WavInfo) go" where
  "ParseWavStrict raw =
     (if length raw < 12 \<or> slice raw 0 4 \<noteq> Some tag_RIFF \<or> slice raw 8 12 \<noteq> Some tag_WAVE then Some (Inl NotRiff)
      else go_try (wav_chunks raw 12 zero_WavInfo False []) (\<lambda>(info, haveFmt, dat).
        if \<not> haveFmt then Some (Inl NoFmt)
        else if wi_BitDepth info \<noteq> 16 then Some (Inl (BadDepth (wi_BitDepth info)))
        else if wi_Channels info < 1 \<or> 2 < wi_Channels info then Some (Inl (BadChannels (wi_Channels info)))
        else if wi_SampleRate info < 8000 \<or> 48000 < wi_SampleRate info then Some (Inl (BadRate (wi_SampleRate info)))
        else if length dat < 2 * wi_Channels info then Some (Inl NoSamples)
        else Some (Inr (info\<lparr> wi_Samples := PCMInt16LEToFloat32 dat \<rparr>))))"

section \<open>Normalisation to 16 kHz mono\<close>

definition recSampleRate :: nat where "recSampleRate = 16000"

text \<open>\<open>sum\<close> starts at zero and adds the samples at the indices in turn.\<close>

fun sum_at :: "pcm \<Rightarrow> nat list \<Rightarrow> flt \<Rightarrow> flt go" where
  "sum_at p [] s = Some s"
| "sum_at p (i # is) s = do { x \<leftarrow> idx p i; sum_at p is (fadd f32 s x) }"

definition downmix :: "pcm \<Rightarrow> nat \<Rightarrow> pcm go" where
  "downmix p channels =
     (if channels \<le> 1 then Some p
      else those (map (\<lambda>i. map_option (\<lambda>s. fdiv_pos f32 s (of_nat channels))
                 (sum_at p [i * channels..<i * channels + channels] (Fin 0))) [0..<length p div channels]))"

definition boxAverage :: "pcm \<Rightarrow> nat \<Rightarrow> pcm go" where
  "boxAverage p width =
     (if width < 2 \<or> length p = 0 then Some p
      else those (map (\<lambda>i. map_option (\<lambda>s. fdiv_pos f32 s (of_nat (min (i + width) (length p) - i)))
                 (sum_at p [i..<min (i + width) (length p)] (Fin 0))) [0..<length p]))"

definition resample_at :: "pcm \<Rightarrow> flt \<Rightarrow> nat \<Rightarrow> flt go" where
  "resample_at p ratio i = (let
     pos = fmul f64 (f64 (of_nat i)) ratio;
     j = fint pos in
     if int (length p) \<le> j + 1 then idx p (length p - 1)
     else if j < 0 then None
     else do {
       let frac = (case fsub f64 pos (f64 (of_int j)) of Fin x \<Rightarrow> f32 x | a \<Rightarrow> a);
       x \<leftarrow> idx p (nat j);
       y \<leftarrow> idx p (nat (j + 1));
       Some (fadd f32 (fmul f32 x (fsub f32 (Fin 1) frac)) (fmul f32 y frac)) })"

definition resampleLinear :: "pcm \<Rightarrow> nat \<Rightarrow> nat \<Rightarrow> pcm go" where
  "resampleLinear p srcRate dstRate =
     (if srcRate = dstRate \<or> length p = 0 \<or> srcRate \<le> 0 \<or> dstRate \<le> 0 then Some p
      else let outLen = length p * dstRate div srcRate;
               ratio = fdiv_pos f64 (f64 (of_nat srcRate)) (of_nat dstRate)
           in those (map (resample_at p ratio) [0..<outLen]))"

definition Mono16k :: "WavInfo \<Rightarrow> pcm go" where
  "Mono16k w = do {
     mono \<leftarrow> (if 1 < wi_Channels w then downmix (wi_Samples w) (wi_Channels w) else Some (wi_Samples w));
     if wi_SampleRate w = recSampleRate then Some mono
     else do {
       mono \<leftarrow> (if recSampleRate < wi_SampleRate w then boxAverage mono (wi_SampleRate w div recSampleRate) else Some mono);
       resampleLinear mono (wi_SampleRate w) recSampleRate } }"

section \<open>The writer\<close>

definition wavHeaderLen :: nat where "wavHeaderLen = 44"

text \<open>The fields are stored at increasing offsets without gaps.\<close>

definition wavHeader16kMono :: "u32 \<Rightarrow> bytes" where
  "wavHeader16kMono dataLen =
     tag_RIFF @ le32 (36 + dataLen) @ tag_WAVE @
     tag_fmt @ le32 16 @ le16 wavFormatPCM @ le16 1 @ le32 (of_nat recSampleRate) @ le32 (of_nat (recSampleRate * 2)) @
     le16 2 @ le16 16 @
     tag_data @ le32 dataLen"

definition EncodeWav16kMono :: "pcm \<Rightarrow> bytes" where
  "EncodeWav16kMono p = (let body = PCMFloat32ToInt16LE p in wavHeader16kMono (of_nat (length body)) @ body)"

section \<open>Quantisation\<close>

lemma sint_word_of_int16: "- 32768 \<le> n \<Longrightarrow> n < 32768 \<Longrightarrow> sint (word_of_int n :: u16) = n"
  by (simp add: sint_sbintrunc' signed_take_bit_int_eq_self)

lemma sint16_bounds: "- 32768 \<le> sint v" "sint v < 32768" for v :: u16
  using sint_ge [of v] sint_less [of v] by simp_all

lemma int16ToFloat_exact: "int16ToFloat v = Fin (of_int (sint v) / 32768)"
proof -
  have b: "\<bar>sint v\<bar> < 2 ^ 24" using sint16_bounds [of v] by simp
  have "f32 (of_int (sint v)) = Fin (of_int (sint v))" by (rule f32_exact [of _ "sint v" 0]) (use b in simp_all)
  moreover have "f32 (of_int (sint v) / 32768) = Fin (of_int (sint v) / 32768)"
    by (rule f32_exact [of _ "sint v" 15]) (use b in simp_all)
  ultimately show ?thesis by (simp add: int16ToFloat_def)
qed

text \<open>What is stored of a sample in range differs from 32767 times it by at most one.\<close>

lemma floatToInt16_inner:
  assumes "- 1 < x" "x < 1"
  shows "\<bar>of_int (sint (floatToInt16 (Fin x))) - x * 32767\<bar> \<le> 1"
proof -
  have b: "- 32767 < x * 32767" "x * 32767 < 32767" using assms by linarith+
  then have "\<bar>x * 32767\<bar> < 2 ^ 24" by simp
  then obtain r where r: "f32 (x * 32767) = Fin r" "of_int \<lfloor>x * 32767\<rfloor> \<le> r" "r \<le> of_int \<lceil>x * 32767\<rceil>"
    by (rule f32_between)
  have t: "\<lfloor>x * 32767\<rfloor> \<le> trunc r" "trunc r \<le> \<lceil>x * 32767\<rceil>" using trunc_between [OF r(2,3)] by auto
  have "- 32767 \<le> \<lfloor>x * 32767\<rfloor>" "\<lceil>x * 32767\<rceil> \<le> 32767" using b by (simp_all add: le_floor_iff ceiling_le_iff)
  with t have "- 32768 \<le> trunc r" "trunc r < 32768" by linarith+
  then have s: "sint (floatToInt16 (Fin x)) = trunc r"
    using assms r(1) by (simp add: floatToInt16_def fmul_def sint_word_of_int16)
  have "(of_int \<lfloor>x * 32767\<rfloor> :: rat) \<le> of_int (trunc r)" "(of_int (trunc r) :: rat) \<le> of_int \<lceil>x * 32767\<rceil>"
    using t by (simp_all only: of_int_le_iff)
  then show ?thesis unfolding s by linarith
qed

lemma sample_quantised:
  assumes "- 1 \<le> x" "x \<le> 1"
  shows "\<exists>y. int16ToFloat (floatToInt16 (Fin x)) = Fin y \<and> \<bar>y - x\<bar> \<le> 2 / 32768"
proof -
  consider "x = 1" | "x = - 1" | "- 1 < x" "x < 1" using assms by linarith
  then have "\<bar>of_int (sint (floatToInt16 (Fin x))) / 32768 - x\<bar> \<le> 2 / 32768"
  proof cases
    case 3
    from floatToInt16_inner [OF this] 3 show ?thesis by (simp add: abs_le_iff field_simps)
  qed (simp_all add: floatToInt16_def)
  with int16ToFloat_exact [of "floatToInt16 (Fin x)"] show ?thesis by blast
qed

section \<open>Reading back what was written\<close>

lemma pcm_cycle: "PCMInt16LEToFloat32 (PCMFloat32ToInt16LE p) = map (\<lambda>s. int16ToFloat (floatToInt16 s)) p"
  by (induction p) (simp_all add: PCMFloat32ToInt16LE_def le16_def be16_def join16_split)

lemma length_pcm_bytes [simp]: "length (PCMFloat32ToInt16LE p) = 2 * length p"
  by (induction p) (simp_all add: PCMFloat32ToInt16LE_def)

lemma length_pcm_words: "length (PCMInt16LEToFloat32 b) = length b div 2"
  by (induction b rule: PCMInt16LEToFloat32.induct) simp_all

lemma pcm_bytes_append: "PCMFloat32ToInt16LE (p @ q) = PCMFloat32ToInt16LE p @ PCMFloat32ToInt16LE q"
  by (simp add: PCMFloat32ToInt16LE_def)

lemmas wav_tags = tag_RIFF_def tag_WAVE_def tag_fmt_def tag_data_def

lemma length_wav_tags [simp]: "length tag_RIFF = 4" "length tag_WAVE = 4" "length tag_fmt = 4" "length tag_data = 4"
  by (simp_all add: wav_tags)

lemma length_wavHeader [simp]: "length (wavHeader16kMono n) = 44"
  by (simp add: wavHeader16kMono_def)

text \<open>The two chunks of the header.\<close>

lemma wavHeader_drops:
  "drop 8 (wavHeader16kMono n) = tag_WAVE @ drop 12 (wavHeader16kMono n)"
  "drop 12 (wavHeader16kMono n) = tag_fmt @ drop 16 (wavHeader16kMono n)"
  "drop 16 (wavHeader16kMono n) = le32 16 @ drop 20 (wavHeader16kMono n)"
  "drop 20 (wavHeader16kMono n) = le16 1 @ drop 22 (wavHeader16kMono n)"
  "drop 22 (wavHeader16kMono n) = le16 1 @ drop 24 (wavHeader16kMono n)"
  "drop 24 (wavHeader16kMono n) = le32 16000 @ drop 28 (wavHeader16kMono n)"
  "drop 34 (wavHeader16kMono n) = le16 16 @ drop 36 (wavHeader16kMono n)"
  "drop 36 (wavHeader16kMono n) = tag_data @ drop 40 (wavHeader16kMono n)"
  "drop 40 (wavHeader16kMono n) = le32 n"
  by (simp_all add: wavHeader16kMono_def recSampleRate_def wavFormatPCM_def)

lemma slice4_at: "drop i xs = t @ r \<Longrightarrow> i \<le> length xs \<Longrightarrow> length t = 4 \<Longrightarrow> slice (xs @ ys) i (i + 4) = Some t"
proof -
  assume "drop i xs = t @ r" "i \<le> length xs" "length t = 4"
  moreover from this have "length xs = i + 4 + length r" by (metis add.assoc append_take_drop_id length_append length_take min.absorb2)
  ultimately show ?thesis by (simp add: slice_def)
qed

lemma le_uint32_within: "drop i xs = le32 w @ r \<Longrightarrow> i \<le> length xs \<Longrightarrow> le_uint32 (xs @ ys) i = Some w"
  by (subst le_uint32_drop) (simp add: le_uint32_le32)

lemma le_uint16_within: "drop i xs = le16 w @ r \<Longrightarrow> i \<le> length xs \<Longrightarrow> le_uint16 (xs @ ys) i = Some w"
  by (subst le_uint16_drop) (simp add: le_uint16_le16)

text \<open>Fewer than eight bytes behind the last chunk are not looked at.\<close>

lemma wav_chunks_header:
  assumes "length body = unat n" "length tail < 8"
  shows "wav_chunks (wavHeader16kMono n @ body @ tail) 12 zero_WavInfo False [] =
    Some (Inr (\<lparr> wi_Channels = 1, wi_SampleRate = 16000, wi_BitDepth = 16, wi_Samples = [] \<rparr>, True, body))"
    (is "wav_chunks ?raw _ _ _ _ = _")
proof -
  note d = wavHeader_drops [of n]
  let ?h = "wavHeader16kMono n"
  have s: "slice ?raw 12 16 = Some tag_fmt" "slice ?raw 36 40 = Some tag_data"
    using slice4_at [OF d(2), of "body @ tail"] slice4_at [OF d(8), of "body @ tail"] by simp_all
  have w: "le_uint32 ?raw 16 = Some 16" "le_uint32 ?raw 40 = Some n" "le_uint32 ?raw 24 = Some 16000"
    by (rule le_uint32_within [OF d(3)], simp, rule le_uint32_within [of 40 ?h n "[]"], simp add: d(9), simp, rule le_uint32_within [OF d(6)], simp)
  have h: "le_uint16 ?raw 20 = Some 1" "le_uint16 ?raw 22 = Some 1" "le_uint16 ?raw 34 = Some 16"
    by (rule le_uint16_within [OF d(4)], simp, rule le_uint16_within [OF d(5)], simp, rule le_uint16_within [OF d(7)], simp)
  have b: "slice ?raw 44 (44 + unat n) = Some body" using assms by (simp add: slice_def)
  have neq: "tag_data \<noteq> tag_fmt" by (simp add: wav_tags)
  have short: "\<not> 44 + unat n + unat n mod 2 + 8 \<le> length ?raw" using assms by simp
  have "wav_chunks ?raw (44 + unat n + unat n mod 2) info True body = Some (Inr (info, True, body))" for info
    unfolding wav_chunks.simps [of ?raw "44 + unat n + unat n mod 2"] using short by (simp only: if_False)
  then have "wav_chunks ?raw 36 info True [] = Some (Inr (info, True, body))" for info
    by (subst wav_chunks.simps) (simp add: assms s w b neq)
  then show ?thesis
    by (subst wav_chunks.simps) (simp add: assms s w h wav_fmt_def wavFormatExtensible_def wavFormatPCM_def zero_WavInfo_def)
qed

lemma ParseWavStrict_header:
  assumes "length body = unat n" "2 \<le> length body" "length tail < 8"
  shows "ParseWavStrict (wavHeader16kMono n @ body @ tail) =
    Some (Inr \<lparr> wi_Channels = 1, wi_SampleRate = 16000, wi_BitDepth = 16, wi_Samples = PCMInt16LEToFloat32 body \<rparr>)"
proof -
  have "slice (wavHeader16kMono n @ body @ tail) 8 12 = Some tag_WAVE" using slice4_at [OF wavHeader_drops(1), of n "body @ tail"] by simp
  moreover have "slice (wavHeader16kMono n @ body @ tail) 0 4 = Some tag_RIFF" by (simp add: slice_def wavHeader16kMono_def)
  ultimately show ?thesis using assms by (simp add: ParseWavStrict_def wav_chunks_header)
qed

lemma ReadWav_header:
  assumes "length body = unat n"
  shows "ReadWavFloat32FromBytes (wavHeader16kMono n @ body) = Some (Inr (PCMInt16LEToFloat32 body))"
proof -
  let ?raw = "wavHeader16kMono n @ body"
  have s: "slice ?raw 36 40 = Some tag_data" using slice4_at [OF wavHeader_drops(8), of n body] by simp
  have w: "le_uint32 ?raw 40 = Some n" by (rule le_uint32_within [of 40 _ n "[]"]) (simp_all add: wavHeader_drops)
  have b: "slice ?raw 44 (44 + unat n) = Some body" "slice_from ?raw 44 = Some body"
    using assms by (simp_all add: slice_def slice_from_def)
  have "find_data ?raw 36 = Some (PCMInt16LEToFloat32 body)"
    by (subst find_data.simps) (simp add: s w b assms)
  then show ?thesis using assms by (simp add: ReadWavFloat32FromBytes_def)
qed

section \<open>No run-time panic on an upload\<close>

lemma wav_fmt_safe: "body + csize \<le> length raw \<Longrightarrow> wav_fmt raw body csize info \<noteq> None"
  by (auto simp: wav_fmt_def le_uint16_nth le_uint32_nth)

lemma wav_chunks_safe: "wav_chunks raw off info haveFmt dat \<noteq> None"
proof (induction raw off info haveFmt dat rule: wav_chunks.induct)
  case (1 raw off info haveFmt dat)
  show ?case
  proof (cases "off + 8 \<le> length raw")
    case True
    then obtain cid sz where r: "slice raw off (off + 4) = Some cid" "le_uint32 raw (off + 4) = Some sz"
      by (simp add: slice_Some le_uint32_nth)
    show ?thesis
    proof (cases "length raw < off + 8 + unat sz")
      case False
      note IH = 1 [OF True r(1) refl r(2) refl False]
      have "slice raw (off + 8) (off + 8 + unat sz) = Some (take (unat sz) (drop (off + 8) raw))"
        using False by (simp add: slice_Some)
      moreover have "wav_fmt raw (off + 8) (unat sz) info \<noteq> None" using False by (intro wav_fmt_safe) simp
      ultimately have step: "(if cid = tag_fmt then go_try (wav_fmt raw (off + 8) (unat sz) info) (\<lambda>info. Some (Inr (info, True, dat)))
         else if cid = tag_data then slice raw (off + 8) (off + 8 + unat sz) \<bind> (\<lambda>d. Some (Inr (info, haveFmt, d)))
         else Some (Inr (info, haveFmt, dat))) \<noteq> None"
        by (simp only: go_try_eq_None_iff split: if_split) simp
      have "go_try (if cid = tag_fmt then go_try (wav_fmt raw (off + 8) (unat sz) info) (\<lambda>info. Some (Inr (info, True, dat)))
         else if cid = tag_data then slice raw (off + 8) (off + 8 + unat sz) \<bind> (\<lambda>d. Some (Inr (info, haveFmt, d)))
         else Some (Inr (info, haveFmt, dat)))
         (\<lambda>(info, haveFmt, dat). wav_chunks raw (off + 8 + unat sz + unat sz mod 2) info haveFmt dat) \<noteq> None"
        using step IH by (simp only: go_try_eq_None_iff) (auto simp only: case_prod_beta)
      then show ?thesis unfolding wav_chunks.simps [of raw off] using True r False
        by (simp only: if_True Option.bind.bind_lunit Let_def if_False simp_thms)
    qed (subst wav_chunks.simps, simp add: True r)
  qed (subst wav_chunks.simps, simp)
qed

lemma ParseWavStrict_safe: "ParseWavStrict raw \<noteq> None"
  unfolding ParseWavStrict_def by (simp only: if_distribR if_distrib [of "\<lambda>x. x = None"] go_try_eq_None_iff wav_chunks_safe) (auto split: if_splits)

lemma ParseWavStrict_accepts:
  assumes "ParseWavStrict raw = Some (Inr w)"
  shows "wi_BitDepth w = 16" "wi_Channels w \<in> {1, 2}" "8000 \<le> wi_SampleRate w" "wi_SampleRate w \<le> 48000"
    "wi_Channels w \<le> length (wi_Samples w)"
proof -
  obtain info dat where w: "wi_BitDepth info = 16" "\<not> (wi_Channels info < 1 \<or> 2 < wi_Channels info)"
    "\<not> (wi_SampleRate info < 8000 \<or> 48000 < wi_SampleRate info)" "\<not> length dat < 2 * wi_Channels info"
    "w = info\<lparr> wi_Samples := PCMInt16LEToFloat32 dat \<rparr>"
    using assms by (auto simp: ParseWavStrict_def go_try_eq_Inr_iff split: if_splits)
  from w show "wi_BitDepth w = 16" "wi_Channels w \<in> {1, 2}" "8000 \<le> wi_SampleRate w" "wi_SampleRate w \<le> 48000"
    "wi_Channels w \<le> length (wi_Samples w)"
    by (auto simp: length_pcm_words)
qed

lemma sum_at_safe: "\<forall>i \<in> set is. i < length p \<Longrightarrow> \<exists>s'. sum_at p is s = Some s'"
  by (induction "is" arbitrary: s) (auto simp: idx_Some)

lemma those_map_safe:
  "\<forall>x \<in> set xs. \<exists>y. f x = Some y \<Longrightarrow> \<exists>ys. those (map f xs) = Some ys \<and> length ys = length xs"
  by (induction xs) auto

lemma downmix_safe:
  assumes "1 \<le> ch"
  shows "\<exists>q. downmix p ch = Some q \<and> length q = length p div ch"
proof (cases "ch \<le> 1")
  case False
  have "\<exists>y. sum_at p [i * ch..<i * ch + ch] (Fin 0) = Some y" if "i < length p div ch" for i
  proof (rule sum_at_safe)
    have "Suc i * ch \<le> length p" using that assms by (metis Suc_leI div_times_less_eq_dividend le_trans mult_le_mono1)
    then show "\<forall>k \<in> set [i * ch..<i * ch + ch]. k < length p" by auto
  qed
  then show ?thesis unfolding downmix_def using False
    by (auto simp del: upt_Suc intro!: those_map_safe [of "[0..<length p div ch]", simplified])
next
  case True
  with assms have "ch = 1" by simp
  then show ?thesis by (simp add: downmix_def)
qed

lemma boxAverage_safe: "\<exists>q. boxAverage p width = Some q \<and> length q = length p"
proof -
  have "\<exists>y. sum_at p [i..<min (i + width) (length p)] (Fin 0) = Some y" for i
    by (rule sum_at_safe) auto
  then show ?thesis unfolding boxAverage_def
    by (auto simp del: upt_Suc intro!: those_map_safe [of "[0..<length p]", simplified])
qed

text \<open>Positions in the resampler are not negative.\<close>

fun fnonneg :: "flt \<Rightarrow> bool" where
  "fnonneg (Fin x) = (0 \<le> x)"
| "fnonneg NInf = False"
| "fnonneg a = True"

lemma round_bits_nonneg: "0 \<le> x \<Longrightarrow> 0 \<le> round_bits p sub ib x"
proof -
  assume x: "0 \<le> x"
  then have "0 \<le> rne (x * 2 ^ j)" "0 \<le> rne (x / 2 ^ k)" for j k by (intro rne_mono_int; simp)+
  then show ?thesis by (simp add: round_bits_def Let_def)
qed

lemma f64_nonneg: "0 \<le> x \<Longrightarrow> fnonneg (f64 x)"
proof -
  assume "0 \<le> x"
  from round_bits_nonneg [OF this, of 53 1074 2048] have "\<not> round_bits 53 1074 2048 x \<le> - (2 ^ 1024)" by simp
  with round_bits_nonneg [OF \<open>0 \<le> x\<close>, of 53 1074 2048] show ?thesis unfolding f64_def Let_def by simp
qed

lemma fdiv_pos_nonneg: "fnonneg a \<Longrightarrow> 0 < c \<Longrightarrow> fnonneg (fdiv_pos f64 a c)"
  by (cases a) (simp_all add: f64_nonneg)

lemma fmul_nonneg: "fnonneg a \<Longrightarrow> fnonneg b \<Longrightarrow> fnonneg (fmul f64 a b)"
  by (cases a; cases b) (simp_all add: fmul_def f64_nonneg sgn_inf_def)

lemma fint_nonneg: "fnonneg a \<Longrightarrow> 0 \<le> fint a"
  by (cases a) (simp_all add: trunc_def)

lemma resample_at_safe: "fnonneg ratio \<Longrightarrow> p \<noteq> [] \<Longrightarrow> \<exists>y. resample_at p ratio i = Some y"
  using fint_nonneg [OF fmul_nonneg [OF f64_nonneg [of "of_nat i"], of ratio]] unfolding resample_at_def Let_def
  by (auto simp: idx_Some nat_less_iff split: flt.splits)

lemma resampleLinear_safe:
  assumes "0 < src" "0 < dst"
  shows "\<exists>q. resampleLinear p src dst = Some q \<and> length q = length p * dst div src"
proof (cases "src = dst \<or> p = []")
  case False
  have "fnonneg (fdiv_pos f64 (f64 (of_nat src)) (of_nat dst))"
    by (intro fdiv_pos_nonneg f64_nonneg) (use assms in simp_all)
  then have "\<exists>y. resample_at p (fdiv_pos f64 (f64 (of_nat src)) (of_nat dst)) i = Some y" for i
    using resample_at_safe False by blast
  then show ?thesis unfolding resampleLinear_def Let_def using False assms
    by (auto simp del: upt_Suc intro!: those_map_safe [of "[0..<length p * dst div src]", simplified])
qed (use assms in \<open>auto simp: resampleLinear_def\<close>)

lemma Mono16k_safe:
  assumes "1 \<le> wi_Channels w" "0 < wi_SampleRate w"
  shows "\<exists>q. Mono16k w = Some q \<and> length q = length (wi_Samples w) div wi_Channels w * 16000 div wi_SampleRate w"
proof -
  obtain m where m: "(if 1 < wi_Channels w then downmix (wi_Samples w) (wi_Channels w) else Some (wi_Samples w)) = Some m"
    "length m = length (wi_Samples w) div wi_Channels w"
  proof (cases "1 < wi_Channels w")
    case False
    with assms(1) have "wi_Channels w = 1" by simp
    with that show thesis by simp
  qed (use downmix_safe [OF assms(1), of "wi_Samples w"] in auto)
  obtain b where b: "boxAverage m (wi_SampleRate w div 16000) = Some b" "length b = length m" using boxAverage_safe by blast
  show ?thesis unfolding Mono16k_def m(1) recSampleRate_def
    using resampleLinear_safe [OF assms(2), of 16000 m] resampleLinear_safe [OF assms(2), of 16000 b] b m(2)
    by (auto split: if_splits)
qed

section \<open>The theorems\<close>

definition quantised :: "flt \<Rightarrow> flt" where
  "quantised s = int16ToFloat (floatToInt16 s)"

lemma EncodeWav_parses:
  assumes "p \<noteq> []" "2 * length p < 2 ^ 32" "length tail < 8"
  shows "ParseWavStrict (EncodeWav16kMono p @ tail) =
    Some (Inr \<lparr> wi_Channels = 1, wi_SampleRate = 16000, wi_BitDepth = 16, wi_Samples = map quantised p \<rparr>)"
proof -
  have n: "unat (of_nat (2 * length p) :: u32) = 2 * length p" by (rule unat_of_nat32) (use assms in simp)
  have two: "2 \<le> 2 * length p" using assms(1) by (cases p) auto
  have "ParseWavStrict (wavHeader16kMono (of_nat (2 * length p)) @ PCMFloat32ToInt16LE p @ tail) =
    Some (Inr \<lparr> wi_Channels = 1, wi_SampleRate = 16000, wi_BitDepth = 16, wi_Samples = PCMInt16LEToFloat32 (PCMFloat32ToInt16LE p) \<rparr>)"
    by (rule ParseWavStrict_header) (use n two assms(3) in simp_all)
  then show ?thesis by (simp add: EncodeWav16kMono_def Let_def pcm_cycle quantised_def [abs_def])
qed

lemma EncodeWav_reads:
  assumes "2 * length p < 2 ^ 32"
  shows "ReadWavFloat32FromBytes (EncodeWav16kMono p) = Some (Inr (map quantised p))"
proof -
  have n: "unat (of_nat (2 * length p) :: u32) = 2 * length p" by (rule unat_of_nat32) (use assms in simp)
  have "ReadWavFloat32FromBytes (wavHeader16kMono (of_nat (2 * length p)) @ PCMFloat32ToInt16LE p) =
    Some (Inr (PCMInt16LEToFloat32 (PCMFloat32ToInt16LE p)))"
    by (rule ReadWav_header) (use n in simp)
  then show ?thesis by (simp add: EncodeWav16kMono_def Let_def pcm_cycle quantised_def [abs_def])
qed

lemma quantised_range: "\<exists>y. quantised s = Fin y \<and> - 1 \<le> y \<and> y < 1"
proof -
  have "(of_int (- 32768) :: rat) \<le> of_int (sint (floatToInt16 s))" "(of_int (sint (floatToInt16 s)) :: rat) < of_int 32768"
    using sint16_bounds [of "floatToInt16 s"] by (simp_all only: of_int_le_iff of_int_less_iff)
  then have "- 1 \<le> (of_int (sint (floatToInt16 s)) :: rat) / 32768" "(of_int (sint (floatToInt16 s)) :: rat) / 32768 < 1"
    by linarith+
  then show ?thesis unfolding quantised_def int16ToFloat_exact by blast
qed

lemma quantised_close: "\<bar>x\<bar> \<le> 1 \<Longrightarrow> \<exists>y. quantised (Fin x) = Fin y \<and> \<bar>y - x\<bar> \<le> 2 / 32768"
  unfolding quantised_def using sample_quantised by (simp add: abs_le_iff)

text \<open>
  Claim C19. Every sample sequence that fits a WAV file, once written by \<open>EncodeWav16kMono\<close>, is read back by the strict and by
  the lenient reader as the same sequence of quantised samples, 16 kHz mono with 16 bits; a sample between -1 and 1
  comes back within two steps of 1/32768, and every other sample, NaN included, as a number in that range.
\<close>

theorem wav_roundtrip:
  assumes "p \<noteq> []" "2 * length p < 2 ^ 32"
  shows "ParseWavStrict (EncodeWav16kMono p) =
      Some (Inr \<lparr> wi_Channels = 1, wi_SampleRate = 16000, wi_BitDepth = 16, wi_Samples = map quantised p \<rparr>) \<and>
    ReadWavFloat32FromBytes (EncodeWav16kMono p) = Some (Inr (map quantised p)) \<and>
    (\<forall>s. \<exists>y. quantised s = Fin y \<and> - 1 \<le> y \<and> y < 1) \<and>
    (\<forall>x. \<bar>x\<bar> \<le> 1 \<longrightarrow> (\<exists>y. quantised (Fin x) = Fin y \<and> \<bar>y - x\<bar> \<le> 2 / 32768))"
  using EncodeWav_parses [OF assms, of "[]"] EncodeWav_reads [OF assms(2)] quantised_range quantised_close by simp

theorem wav_roundtrip_witness:
  "ReadWavFloat32FromBytes (EncodeWav16kMono [Fin 2, Fin (- 1), NaN]) = Some (Inr [Fin (32767 / 32768), Fin (- 1), Fin 0])
   \<and> (\<exists>y. quantised (Fin (1 / 2)) = Fin y \<and> \<bar>y - 1 / 2\<bar> \<le> 2 / 32768)"
proof -
  have p: "[Fin 2, Fin (- 1), NaN] \<noteq> []" "2 * length [Fin 2, Fin (- 1), NaN] < 2 ^ 32" by simp_all
  have "quantised (Fin 2) = Fin (32767 / 32768)" "quantised (Fin (- 1)) = Fin (- 1)" "quantised NaN = Fin 0"
    by (simp_all add: quantised_def int16ToFloat_exact floatToInt16_def)
  then have q: "map quantised [Fin 2, Fin (- 1), NaN] = [Fin (32767 / 32768), Fin (- 1), Fin 0]" by simp
  have half: "\<bar>1 / 2 :: rat\<bar> \<le> 1" by simp
  show ?thesis using wav_roundtrip [OF p] half unfolding q by blast
qed

text \<open>
  Claim C21. No byte sequence makes the strict reader or the normalisation of what it accepts panic. What it accepts is 16-bit
  mono or stereo between 8 and 48 kHz with at least one sample per channel, and its normalisation to 16 kHz mono has
  the length that the ratio of the rates gives.
\<close>

theorem upload_normalised:
  "ParseWavStrict raw \<noteq> None \<and>
   (\<forall>w. ParseWavStrict raw = Some (Inr w) \<longrightarrow>
     wi_BitDepth w = 16 \<and> wi_Channels w \<in> {1, 2} \<and> 8000 \<le> wi_SampleRate w \<and> wi_SampleRate w \<le> 48000 \<and>
     wi_Channels w \<le> length (wi_Samples w) \<and>
     (\<exists>q. Mono16k w = Some q \<and> length q = length (wi_Samples w) div wi_Channels w * 16000 div wi_SampleRate w))"
proof (intro conjI allI impI)
  show "ParseWavStrict raw \<noteq> None" by (rule ParseWavStrict_safe)
  fix w assume w: "ParseWavStrict raw = Some (Inr w)"
  note a = ParseWavStrict_accepts [OF w]
  then show "wi_BitDepth w = 16" "wi_Channels w \<in> {1, 2}" "8000 \<le> wi_SampleRate w" "wi_SampleRate w \<le> 48000"
    "wi_Channels w \<le> length (wi_Samples w)" by auto
  show "\<exists>q. Mono16k w = Some q \<and> length q = length (wi_Samples w) div wi_Channels w * 16000 div wi_SampleRate w"
    by (rule Mono16k_safe) (use a in auto)
qed

theorem upload_normalised_witness:
  "\<exists>w q. ParseWavStrict (EncodeWav16kMono [NaN, Fin 2]) = Some (Inr w) \<and> Mono16k w = Some q \<and> length q = 2"
proof -
  define w where "w = \<lparr> wi_Channels = 1, wi_SampleRate = 16000, wi_BitDepth = 16, wi_Samples = map quantised [NaN, Fin 2] \<rparr>"
  have "ParseWavStrict (EncodeWav16kMono [NaN, Fin 2]) = Some (Inr w)"
    using EncodeWav_parses [of "[NaN, Fin 2]" "[]"] by (simp add: w_def)
  then obtain q where "Mono16k w = Some q" "length q = length (wi_Samples w) div wi_Channels w * 16000 div wi_SampleRate w"
    using upload_normalised [of "EncodeWav16kMono [NaN, Fin 2]"] by blast
  then have "Mono16k w = Some q" "length q = 2" by (simp_all add: w_def)
  with \<open>ParseWavStrict (EncodeWav16kMono [NaN, Fin 2]) = Some (Inr w)\<close> show ?thesis by blast
qed

text \<open>Bytes behind the last chunk are accepted although nothing accounts for them.\<close>

lemma strict_reader_ignores_tail:
  assumes "p \<noteq> []" "2 * length p < 2 ^ 32" "length tail < 8"
  shows "ParseWavStrict (EncodeWav16kMono p @ tail) = ParseWavStrict (EncodeWav16kMono p)"
  using EncodeWav_parses [OF assms] EncodeWav_parses [OF assms(1,2), of "[]"] by simp

end
