(* ===== verification/Wav_Recorder.thy ===== *)
theory Wav_Recorder
  imports Wav
begin

text \<open>
  The call recorder of \<^verbatim>\<open>media/wavrecorder.go\<close>: two legs are buffered as their audio arrives, a pump mixes them on a 20 ms
  grid into a file, and closing flushes the rest and patches the header. The goroutines interleave at the mutex, so a
  run is any sequence of the steps below. The operating system decides the outcome of every call on the file.
\<close>

section \<open>The file\<close>

text \<open>The outcome of the \<open>n\<close>-th call on the file: \<open>None\<close> is success, \<open>Some k\<close> an error, a write having stored \<open>k\<close> bytes.\<close>

type_synonym os = "nat \<Rightarrow> nat option"

record File =
  f_data :: bytes
  f_pos :: nat
  f_calls :: nat

definition overwrite :: "bytes \<Rightarrow> nat \<Rightarrow> bytes \<Rightarrow> bytes" where
  "overwrite d pos b = take pos d @ b @ drop (pos + length b) d"

definition file_write :: "os \<Rightarrow> File \<Rightarrow> bytes \<Rightarrow> bool \<times> File" where
  "file_write os f b = (let
     b' = (case os (f_calls f) of None \<Rightarrow> b | Some k \<Rightarrow> take k b) in
     (os (f_calls f) = None,
      f\<lparr> f_data := overwrite (f_data f) (f_pos f) b', f_pos := f_pos f + length b', f_calls := f_calls f + 1 \<rparr>))"

definition file_seek0 :: "os \<Rightarrow> File \<Rightarrow> bool \<times> File" where
  "file_seek0 os f =
     (if os (f_calls f) = None then (True, f\<lparr> f_pos := 0, f_calls := f_calls f + 1 \<rparr>)
      else (False, f\<lparr> f_calls := f_calls f + 1 \<rparr>))"

definition file_close :: "os \<Rightarrow> File \<Rightarrow> bool \<times> File" where
  "file_close os f = (os (f_calls f) = None, f\<lparr> f_calls := f_calls f + 1 \<rparr>)"

definition writeWavHeader :: "os \<Rightarrow> File \<Rightarrow> u32 \<Rightarrow> bool \<times> File" where
  "writeWavHeader os f dataLen =
     (case file_seek0 os f of
        (False, f) \<Rightarrow> (False, f)
      | (True, f) \<Rightarrow> file_write os f (wavHeader16kMono dataLen))"

section \<open>The recorder\<close>

text \<open>\<open>wr_stop\<close> and \<open>wr_done\<close> say whether the channels of those names are closed; \<open>wr_result\<close> is what the call of
  \<open>Close\<close> that did the work returned.\<close>

record WavRecorder =
  wr_f :: File
  wr_peerBuf :: pcm
  wr_opBuf :: pcm
  wr_dataLen :: u32
  wr_stopped :: bool
  wr_writeErr :: bool
  wr_stop :: bool
  wr_done :: bool
  wr_result :: "bool option"

definition recFrameSamples :: nat where "recFrameSamples = recSampleRate div 50"
definition recMaxBuffered :: nat where "recMaxBuffered = recSampleRate * 2"

text \<open>\<open>os.Create\<close> is the first call on the file; a created file is empty.\<close>

definition NewWavRecorder :: "os \<Rightarrow> WavRecorder option" where
  "NewWavRecorder os =
     (if os 0 \<noteq> None then None
      else case writeWavHeader os \<lparr> f_data = [], f_pos = 0, f_calls = 1 \<rparr> 0 of
        (False, _) \<Rightarrow> None
      | (True, f) \<Rightarrow> Some \<lparr> wr_f = f, wr_peerBuf = [], wr_opBuf = [], wr_dataLen = 0, wr_stopped = False,
                        wr_writeErr = False, wr_stop = False, wr_done = False, wr_result = None \<rparr>)"

definition feed :: "WavRecorder \<Rightarrow> pcm \<Rightarrow> pcm \<Rightarrow> pcm" where
  "feed r dst p =
     (if length p = 0 then dst
      else if wr_stopped r then dst
      else let dst = dst @ p in
        if recMaxBuffered < length dst then drop (length dst - recMaxBuffered) dst else dst)"

definition WritePeer :: "pcm \<Rightarrow> WavRecorder \<Rightarrow> WavRecorder" where
  "WritePeer p r = r\<lparr> wr_peerBuf := feed r (wr_peerBuf r) p \<rparr>"

definition WriteOperator :: "pcm \<Rightarrow> WavRecorder \<Rightarrow> WavRecorder" where
  "WriteOperator p r = r\<lparr> wr_opBuf := feed r (wr_opBuf r) p \<rparr>"

definition takeSamples :: "pcm \<Rightarrow> nat \<Rightarrow> pcm \<times> pcm" where
  "takeSamples buf n =
     (if length buf = 0 then ([], buf)
      else let n = (if length buf < n then length buf else n) in (take n buf, drop n buf))"

definition mix_sample :: "pcm \<Rightarrow> pcm \<Rightarrow> nat \<Rightarrow> flt" where
  "mix_sample peer op i = (let
     s = Fin 0;
     s = (if i < length peer then fadd f32 s (peer ! i) else s) in
     if i < length op then fadd f32 s (op ! i) else s)"

definition mix :: "pcm \<Rightarrow> pcm \<Rightarrow> pcm" where
  "mix peer op = map (mix_sample peer op) [0..<max (length peer) (length op)]"

definition writeMixLocked :: "os \<Rightarrow> pcm \<Rightarrow> pcm \<Rightarrow> WavRecorder \<Rightarrow> WavRecorder" where
  "writeMixLocked os peer op r = (let
     n = (if length peer < length op then length op else length peer) in
     if n = 0 \<or> wr_writeErr r then r
     else case file_write os (wr_f r) (PCMFloat32ToInt16LE (mix peer op)) of
       (False, f) \<Rightarrow> r\<lparr> wr_f := f, wr_writeErr := True \<rparr>
     | (True, f) \<Rightarrow> r\<lparr> wr_f := f, wr_dataLen := wr_dataLen r + of_nat (n * 2) \<rparr>)"

text \<open>One frame: the common part of \<open>tick\<close> and of the loop of \<open>drain\<close>.\<close>

definition write_frame :: "os \<Rightarrow> WavRecorder \<Rightarrow> WavRecorder" where
  "write_frame os r =
     (case takeSamples (wr_peerBuf r) recFrameSamples of (peer, pb) \<Rightarrow>
      case takeSamples (wr_opBuf r) recFrameSamples of (op, ob) \<Rightarrow>
        writeMixLocked os peer op (r\<lparr> wr_peerBuf := pb, wr_opBuf := ob \<rparr>))"

definition tick :: "os \<Rightarrow> WavRecorder \<Rightarrow> WavRecorder" where
  "tick os r = (if length (wr_peerBuf r) = 0 \<and> length (wr_opBuf r) = 0 then r else write_frame os r)"

lemma writeMixLocked_keeps [simp]:
  "wr_peerBuf (writeMixLocked os a b r) = wr_peerBuf r" "wr_opBuf (writeMixLocked os a b r) = wr_opBuf r"
  "wr_stopped (writeMixLocked os a b r) = wr_stopped r" "wr_stop (writeMixLocked os a b r) = wr_stop r"
  "wr_done (writeMixLocked os a b r) = wr_done r" "wr_result (writeMixLocked os a b r) = wr_result r"
  by (auto simp: writeMixLocked_def Let_def split: prod.splits bool.splits)

lemma takeSamples_eq: "takeSamples buf n = (take n buf, drop n buf)"
  by (auto simp: takeSamples_def Let_def)

lemma write_frame_eq:
  "write_frame os r = writeMixLocked os (take recFrameSamples (wr_peerBuf r)) (take recFrameSamples (wr_opBuf r))
     (r\<lparr> wr_peerBuf := drop recFrameSamples (wr_peerBuf r), wr_opBuf := drop recFrameSamples (wr_opBuf r) \<rparr>)"
  by (simp add: write_frame_def takeSamples_eq)

lemma write_frame_keeps [simp]:
  "wr_peerBuf (write_frame os r) = drop recFrameSamples (wr_peerBuf r)"
  "wr_opBuf (write_frame os r) = drop recFrameSamples (wr_opBuf r)"
  "wr_stopped (write_frame os r) = wr_stopped r" "wr_stop (write_frame os r) = wr_stop r"
  "wr_done (write_frame os r) = wr_done r" "wr_result (write_frame os r) = wr_result r"
  by (simp_all add: write_frame_eq)

lemma frames_shrink: "xs \<noteq> [] \<or> ys \<noteq> [] \<Longrightarrow> length xs - recFrameSamples + (length ys - recFrameSamples) < length xs + length ys"
  by (cases xs; cases ys) (auto simp: recFrameSamples_def recSampleRate_def)

function drain :: "os \<Rightarrow> WavRecorder \<Rightarrow> WavRecorder" where
  "drain os r = (if 0 < length (wr_peerBuf r) \<or> 0 < length (wr_opBuf r) then drain os (write_frame os r) else r)"
  by auto
termination
  by (relation "measure (\<lambda>(os, r). length (wr_peerBuf r) + length (wr_opBuf r))")
    (auto simp: frames_shrink)

declare drain.simps [simp del]

text \<open>The pump when it finds the stop channel closed, and \<open>Close\<close> around its wait for the pump.\<close>

definition pump_stop :: "os \<Rightarrow> WavRecorder \<Rightarrow> WavRecorder" where
  "pump_stop os r = (drain os r)\<lparr> wr_done := True \<rparr>"

definition Close_begin :: "WavRecorder \<Rightarrow> WavRecorder" where
  "Close_begin r = (if wr_stopped r then r else r\<lparr> wr_stopped := True, wr_stop := True \<rparr>)"

definition Close_finish :: "os \<Rightarrow> WavRecorder \<Rightarrow> WavRecorder" where
  "Close_finish os r =
     (if wr_writeErr r then r\<lparr> wr_f := snd (file_close os (wr_f r)), wr_result := Some False \<rparr>
      else case writeWavHeader os (wr_f r) (wr_dataLen r) of
        (False, f) \<Rightarrow> r\<lparr> wr_f := snd (file_close os f), wr_result := Some False \<rparr>
      | (True, f) \<Rightarrow> (case file_close os f of (ok, f) \<Rightarrow> r\<lparr> wr_f := f, wr_result := Some ok \<rparr>))"

section \<open>Runs\<close>

text \<open>
  \<open>rec_run os r p q d\<close>: the recorder can be in state \<open>r\<close> after taking the samples \<open>p\<close> from the peer and \<open>q\<close> from the
  operator, \<open>d\<close> of which it dropped to stay within its buffers. Samples that arrive after the stop are not taken.
\<close>

definition taken :: "WavRecorder \<Rightarrow> pcm \<Rightarrow> pcm" where
  "taken r x = (if wr_stopped r then [] else x)"

inductive rec_run :: "os \<Rightarrow> WavRecorder \<Rightarrow> pcm \<Rightarrow> pcm \<Rightarrow> nat \<Rightarrow> bool" for os :: os where
  new: "NewWavRecorder os = Some r \<Longrightarrow> rec_run os r [] [] 0"
| peer: "rec_run os r p q d \<Longrightarrow>
    rec_run os (WritePeer x r) (p @ taken r x) q (d + (length (wr_peerBuf r @ taken r x) - recMaxBuffered))"
| operator: "rec_run os r p q d \<Longrightarrow>
    rec_run os (WriteOperator x r) p (q @ taken r x) (d + (length (wr_opBuf r @ taken r x) - recMaxBuffered))"
| pump_tick: "rec_run os r p q d \<Longrightarrow> \<not> wr_done r \<Longrightarrow> rec_run os (tick os r) p q d"
| close: "rec_run os r p q d \<Longrightarrow> rec_run os (Close_begin r) p q d"
| pump_end: "rec_run os r p q d \<Longrightarrow> wr_stop r \<Longrightarrow> \<not> wr_done r \<Longrightarrow> rec_run os (pump_stop os r) p q d"
| close_end: "rec_run os r p q d \<Longrightarrow> wr_done r \<Longrightarrow> wr_result r = None \<Longrightarrow> rec_run os (Close_finish os r) p q d"

section \<open>What the file holds\<close>

definition mixed :: "(pcm \<times> pcm) list \<Rightarrow> pcm" where
  "mixed fs = concat (map (\<lambda>(a, b). mix a b) fs)"

text \<open>The frames written so far, under a header with length \<open>h\<close>. As long as nothing was dropped, they and the buffers
  hold the two legs in full.\<close>

definition logged :: "u32 \<Rightarrow> WavRecorder \<Rightarrow> pcm \<Rightarrow> pcm \<Rightarrow> nat \<Rightarrow> (pcm \<times> pcm) list \<Rightarrow> bool" where
  "logged h r p q d fs \<longleftrightarrow>
     (\<forall>(a, b) \<in> set fs. length a \<le> recFrameSamples \<and> length b \<le> recFrameSamples) \<and>
     f_data (wr_f r) = wavHeader16kMono h @ PCMFloat32ToInt16LE (mixed fs) \<and>
     wr_dataLen r = of_nat (2 * length (mixed fs)) \<and>
     (d = 0 \<longrightarrow> concat (map fst fs) @ wr_peerBuf r = p \<and> concat (map snd fs) @ wr_opBuf r = q)"

definition live :: "WavRecorder \<Rightarrow> pcm \<Rightarrow> pcm \<Rightarrow> nat \<Rightarrow> bool" where
  "live r p q d \<longleftrightarrow>
     length (wr_peerBuf r) \<le> recMaxBuffered \<and> length (wr_opBuf r) \<le> recMaxBuffered \<and>
     (wr_writeErr r \<or> f_pos (wr_f r) = length (f_data (wr_f r)) \<and> (\<exists>fs. logged 0 r p q d fs))"

definition rec_inv :: "WavRecorder \<Rightarrow> pcm \<Rightarrow> pcm \<Rightarrow> nat \<Rightarrow> bool" where
  "rec_inv r p q d \<longleftrightarrow>
     (wr_stop r \<longrightarrow> wr_stopped r) \<and>
     (wr_done r \<longrightarrow> wr_stop r \<and> wr_peerBuf r = [] \<and> wr_opBuf r = []) \<and>
     (case wr_result r of
        None \<Rightarrow> live r p q d
      | Some ok \<Rightarrow> wr_done r \<and> (ok \<longrightarrow> (\<exists>fs. logged (wr_dataLen r) r p q d fs)))"

lemma length_mix [simp]: "length (mix a b) = max (length a) (length b)"
  by (simp add: mix_def)

lemma mixed_snoc: "mixed (fs @ [(a, b)]) = mixed fs @ mix a b"
  by (simp add: mixed_def)

text \<open>A write at the end of the file that the system carries out appends.\<close>

lemma file_write_end:
  assumes "f_pos f = length (f_data f)" "os (f_calls f) = None"
  shows "file_write os f b = (True, \<lparr> f_data = f_data f @ b, f_pos = length (f_data f @ b), f_calls = f_calls f + 1 \<rparr>)"
  using assms by (cases f) (simp add: file_write_def overwrite_def)

lemma file_write_fails: "os (f_calls f) \<noteq> None \<Longrightarrow> fst (file_write os f b) = False"
  by (auto simp: file_write_def Let_def)

lemma writeMixLocked_err: "wr_writeErr r \<Longrightarrow> writeMixLocked os a b r = r"
  by (simp add: writeMixLocked_def Let_def)

lemma writeMixLocked_fails:
  assumes "\<not> wr_writeErr r" "os (f_calls (wr_f r)) \<noteq> None" "a \<noteq> [] \<or> b \<noteq> []"
  shows "wr_writeErr (writeMixLocked os a b r)"
  using assms file_write_fails [of os "wr_f r" "PCMFloat32ToInt16LE (mix a b)"] by (auto simp: writeMixLocked_def Let_def split: prod.splits bool.splits)

lemma writeMixLocked_ok:
  assumes "\<not> wr_writeErr r" "os (f_calls (wr_f r)) = None" "f_pos (wr_f r) = length (f_data (wr_f r))" "a \<noteq> [] \<or> b \<noteq> []"
  shows "writeMixLocked os a b r = r\<lparr>
    wr_f := \<lparr> f_data = f_data (wr_f r) @ PCMFloat32ToInt16LE (mix a b),
             f_pos = length (f_data (wr_f r) @ PCMFloat32ToInt16LE (mix a b)), f_calls = f_calls (wr_f r) + 1 \<rparr>,
    wr_dataLen := wr_dataLen r + of_nat (2 * length (mix a b)) \<rparr>"
  using assms(1,4) file_write_end [of "wr_f r" os, OF assms(3,2)]
  by (auto simp: writeMixLocked_def Let_def max_def mult.commute)

lemma write_frame_live:
  assumes "live r p q d" "wr_peerBuf r \<noteq> [] \<or> wr_opBuf r \<noteq> []"
  shows "live (write_frame os r) p q d"
proof -
  let ?a = "take recFrameSamples (wr_peerBuf r)" and ?b = "take recFrameSamples (wr_opBuf r)"
  let ?r = "r\<lparr> wr_peerBuf := drop recFrameSamples (wr_peerBuf r), wr_opBuf := drop recFrameSamples (wr_opBuf r) \<rparr>"
  have ne: "?a \<noteq> [] \<or> ?b \<noteq> []" using assms(2) by (simp add: recFrameSamples_def recSampleRate_def)
  have bounds: "length (wr_peerBuf (write_frame os r)) \<le> recMaxBuffered" "length (wr_opBuf (write_frame os r)) \<le> recMaxBuffered"
    using assms(1) by (auto simp: live_def)
  consider "wr_writeErr r" | "\<not> wr_writeErr r" "os (f_calls (wr_f r)) \<noteq> None" | "\<not> wr_writeErr r" "os (f_calls (wr_f r)) = None"
    by blast
  then show ?thesis
  proof cases
    case 1
    then have "wr_writeErr (write_frame os r)" by (simp add: write_frame_eq writeMixLocked_err)
    with bounds show ?thesis by (simp add: live_def)
  next
    case 2
    then have "wr_writeErr (write_frame os r)" unfolding write_frame_eq by (intro writeMixLocked_fails) (use ne in simp_all)
    with bounds show ?thesis by (simp add: live_def)
  next
    case 3
    then obtain fs where fs: "logged 0 r p q d fs" and pos: "f_pos (wr_f r) = length (f_data (wr_f r))"
      using assms(1) by (auto simp: live_def)
    have w: "write_frame os r = ?r\<lparr>
      wr_f := \<lparr> f_data = f_data (wr_f r) @ PCMFloat32ToInt16LE (mix ?a ?b),
               f_pos = length (f_data (wr_f r) @ PCMFloat32ToInt16LE (mix ?a ?b)), f_calls = f_calls (wr_f r) + 1 \<rparr>,
      wr_dataLen := wr_dataLen r + of_nat (2 * length (mix ?a ?b)) \<rparr>"
      unfolding write_frame_eq using writeMixLocked_ok [of ?r os, OF _ _ _ ne] 3 pos by simp
    have "logged 0 (write_frame os r) p q d (fs @ [(?a, ?b)])"
      using fs unfolding logged_def mixed_snoc w by (auto simp: pcm_bytes_append distrib_left)
    moreover have "f_pos (wr_f (write_frame os r)) = length (f_data (wr_f (write_frame os r)))" unfolding w by simp
    ultimately show ?thesis using bounds unfolding live_def by blast
  qed
qed

lemma tick_live: "live r p q d \<Longrightarrow> live (tick os r) p q d"
  using write_frame_live by (auto simp: tick_def)

lemma tick_keeps [simp]:
  "wr_stopped (tick os r) = wr_stopped r" "wr_stop (tick os r) = wr_stop r" "wr_done (tick os r) = wr_done r"
  "wr_result (tick os r) = wr_result r"
  by (simp_all add: tick_def)

lemma drain_keeps:
  "wr_stopped (drain os r) = wr_stopped r \<and> wr_stop (drain os r) = wr_stop r \<and> wr_done (drain os r) = wr_done r \<and>
   wr_result (drain os r) = wr_result r \<and> wr_peerBuf (drain os r) = [] \<and> wr_opBuf (drain os r) = []"
proof (induction os r rule: drain.induct)
  case (1 os r)
  then show ?case by (subst (1 2 3 4 5 6) drain.simps) auto
qed

lemma drain_live: "live r p q d \<Longrightarrow> live (drain os r) p q d"
proof (induction os r rule: drain.induct)
  case (1 os r)
  then show ?case by (subst drain.simps) (auto intro: write_frame_live)
qed


text \<open>Without an error of the system there is none of the recorder.\<close>

lemma drain_no_err: "\<forall>n. os n = None \<Longrightarrow> wr_writeErr (drain os r) = wr_writeErr r"
proof (induction os r rule: drain.induct)
  case (1 os r)
  have "wr_writeErr (write_frame os r) = wr_writeErr r" using 1(2)
    by (simp add: write_frame_eq writeMixLocked_def Let_def file_write_def)
  moreover have "wr_writeErr (drain os (write_frame os r)) = wr_writeErr (write_frame os r)"
    if "0 < length (wr_peerBuf r) \<or> 0 < length (wr_opBuf r)" using 1 that by blast
  ultimately show ?case by (simp only: drain.simps [of os r] split: if_split) blast
qed

section \<open>The invariant\<close>

lemma new_inv:
  assumes "NewWavRecorder os = Some r"
  shows "rec_inv r [] [] 0"
proof -
  have "f_data (wr_f r) = wavHeader16kMono 0 \<and> f_pos (wr_f r) = 44 \<and> wr_peerBuf r = [] \<and> wr_opBuf r = [] \<and> wr_dataLen r = 0 \<and>
    \<not> wr_stop r \<and> \<not> wr_done r \<and> wr_result r = None"
    using assms by (auto simp: NewWavRecorder_def writeWavHeader_def file_seek0_def file_write_def overwrite_def Let_def
        split: if_splits bool.splits prod.splits)
  then have "logged 0 r [] [] 0 []" "f_pos (wr_f r) = length (f_data (wr_f r))" "\<not> wr_stop r" "\<not> wr_done r"
    "wr_result r = None" "wr_peerBuf r = []" "wr_opBuf r = []"
    by (simp_all add: logged_def mixed_def PCMFloat32ToInt16LE_def)
  then show ?thesis unfolding rec_inv_def live_def by auto
qed

text \<open>Feeding a leg keeps the end of what it holds; what it loses is counted.\<close>

lemma feed_eq:
  "feed r buf x = drop (length (buf @ taken r x) - recMaxBuffered) (buf @ taken r x) \<or> wr_stopped r \<and> feed r buf x = buf
    \<or> x = [] \<and> feed r buf x = buf"
  by (auto simp: feed_def taken_def Let_def)

lemma feed_full: "length buf \<le> recMaxBuffered \<Longrightarrow> feed r buf x = drop (length (buf @ taken r x) - recMaxBuffered) (buf @ taken r x)"
  using feed_eq [of r buf x] by (auto simp: taken_def)

lemma logged_dropped: "logged h r p q d fs \<Longrightarrow> 0 < e \<Longrightarrow> logged h (r\<lparr> wr_peerBuf := b, wr_opBuf := c \<rparr>) p' q' (d + e) fs"
  by (auto simp: logged_def)

lemma peer_live:
  assumes "live r p q d"
  shows "live (WritePeer x r) (p @ taken r x) q (d + (length (wr_peerBuf r @ taken r x) - recMaxBuffered))"
proof -
  let ?e = "length (wr_peerBuf r @ taken r x) - recMaxBuffered"
  have f: "feed r (wr_peerBuf r) x = drop ?e (wr_peerBuf r @ taken r x)" using assms by (intro feed_full) (simp add: live_def)
  have "logged 0 (WritePeer x r) (p @ taken r x) q (d + ?e) fs" if "logged 0 r p q d fs" for fs
    using that unfolding logged_def WritePeer_def f by auto
  moreover have "length (wr_peerBuf (WritePeer x r)) \<le> recMaxBuffered" by (simp add: WritePeer_def f)
  ultimately show ?thesis using assms unfolding live_def by (auto simp: WritePeer_def)
qed

lemma operator_live:
  assumes "live r p q d"
  shows "live (WriteOperator x r) p (q @ taken r x) (d + (length (wr_opBuf r @ taken r x) - recMaxBuffered))"
proof -
  let ?e = "length (wr_opBuf r @ taken r x) - recMaxBuffered"
  have f: "feed r (wr_opBuf r) x = drop ?e (wr_opBuf r @ taken r x)" using assms by (intro feed_full) (simp add: live_def)
  have "logged 0 (WriteOperator x r) p (q @ taken r x) (d + ?e) fs" if "logged 0 r p q d fs" for fs
    using that unfolding logged_def WriteOperator_def f by auto
  moreover have "length (wr_opBuf (WriteOperator x r)) \<le> recMaxBuffered" by (simp add: WriteOperator_def f)
  ultimately show ?thesis using assms unfolding live_def by (auto simp: WriteOperator_def)
qed

lemma feed_stopped: "wr_stopped r \<Longrightarrow> WritePeer x r = r \<and> WriteOperator x r = r \<and> taken r x = []"
  by (simp add: WritePeer_def WriteOperator_def feed_def taken_def)

text \<open>Patching the header leaves the samples.\<close>

lemma writeWavHeader_patches:
  assumes "writeWavHeader os f n = (True, f')" "f_data f = wavHeader16kMono h @ b"
  shows "f_data f' = wavHeader16kMono n @ b"
  using assms by (auto simp: writeWavHeader_def file_seek0_def file_write_def overwrite_def Let_def split: if_splits)

lemma Close_finish_logged:
  assumes "live r p q d" "wr_result (Close_finish os r) = Some True"
  shows "\<exists>fs. logged (wr_dataLen (Close_finish os r)) (Close_finish os r) p q d fs"
proof -
  have e: "\<not> wr_writeErr r" using assms(2) by (auto simp: Close_finish_def)
  obtain f ok where w: "writeWavHeader os (wr_f r) (wr_dataLen r) = (ok, f)" by fastforce
  have ok: "ok = True" using assms(2) e w by (cases ok) (auto simp: Close_finish_def)
  obtain fs where fs: "logged 0 r p q d fs" using assms(1) e by (auto simp: live_def)
  have "f_data f = wavHeader16kMono (wr_dataLen r) @ PCMFloat32ToInt16LE (mixed fs)"
    by (rule writeWavHeader_patches [OF w [unfolded ok]]) (use fs in \<open>simp add: logged_def\<close>)
  then have "logged (wr_dataLen (Close_finish os r)) (Close_finish os r) p q d fs"
    using fs e w ok by (auto simp: logged_def Close_finish_def file_close_def)
  then show ?thesis ..
qed

lemma Close_finish_keeps [simp]:
  "wr_stopped (Close_finish os r) = wr_stopped r" "wr_stop (Close_finish os r) = wr_stop r" "wr_done (Close_finish os r) = wr_done r"
  "wr_peerBuf (Close_finish os r) = wr_peerBuf r" "wr_opBuf (Close_finish os r) = wr_opBuf r" "wr_result (Close_finish os r) \<noteq> None"
  by (auto simp: Close_finish_def split: prod.splits bool.splits)

lemma rec_run_inv: "rec_run os r p q d \<Longrightarrow> rec_inv r p q d"
proof (induction rule: rec_run.induct)
  case (new r)
  then show ?case by (rule new_inv)
next
  case (peer r p q d x)
  show ?case
  proof (cases "wr_stopped r")
    case True
    with peer feed_stopped [OF True, of x] show ?thesis
      by (cases "wr_result r") (auto simp: rec_inv_def live_def)
  next
    case False
    with peer have "wr_result r = None" "live r p q d" "\<not> wr_stop r" "\<not> wr_done r" by (auto simp: rec_inv_def split: option.splits)
    with peer_live [OF this(2), of x] show ?thesis by (simp add: rec_inv_def WritePeer_def)
  qed
next
  case (operator r p q d x)
  show ?case
  proof (cases "wr_stopped r")
    case True
    with operator feed_stopped [OF True, of x] show ?thesis
      by (cases "wr_result r") (auto simp: rec_inv_def live_def)
  next
    case False
    with operator have "wr_result r = None" "live r p q d" "\<not> wr_stop r" "\<not> wr_done r" by (auto simp: rec_inv_def split: option.splits)
    with operator_live [OF this(2), of x] show ?thesis by (simp add: rec_inv_def WriteOperator_def)
  qed
next
  case (pump_tick r p q d)
  then have "wr_result r = None" "live r p q d" by (auto simp: rec_inv_def split: option.splits)
  with pump_tick tick_live [OF this(2), of os] show ?case by (simp add: rec_inv_def)
next
  case (close r p q d)
  then show ?case by (cases "wr_result r") (auto simp: rec_inv_def Close_begin_def live_def logged_def)
next
  case (pump_end r p q d)
  then have "wr_result r = None" "live r p q d" by (auto simp: rec_inv_def split: option.splits)
  with pump_end drain_live [OF this(2), of os] drain_keeps [of os r] show ?case
    by (simp add: rec_inv_def pump_stop_def live_def logged_def)
next
  case (close_end r p q d)
  then have l: "live r p q d" by (simp add: rec_inv_def)
  obtain ok where ok: "wr_result (Close_finish os r) = Some ok"
    using Close_finish_keeps(6) [of os r] by (cases "wr_result (Close_finish os r)") auto
  show ?case using close_end Close_finish_logged [OF l, of os] ok by (auto simp: rec_inv_def)
qed

lemma finished_recording:
  assumes "rec_run os r p q d" "wr_result r = Some True"
  shows "\<exists>fs. (\<forall>(a, b) \<in> set fs. length a \<le> recFrameSamples \<and> length b \<le> recFrameSamples) \<and>
    f_data (wr_f r) = EncodeWav16kMono (mixed fs) \<and>
    (d = 0 \<longrightarrow> concat (map fst fs) = p \<and> concat (map snd fs) = q)"
proof -
  from rec_run_inv [OF assms(1)] assms(2) obtain fs where
    fs: "logged (wr_dataLen r) r p q d fs" "wr_peerBuf r = []" "wr_opBuf r = []" by (auto simp: rec_inv_def)
  then have "f_data (wr_f r) = EncodeWav16kMono (mixed fs)" by (simp add: logged_def EncodeWav16kMono_def Let_def)
  with fs show ?thesis by (auto simp: logged_def)
qed

text \<open>
  Claim C18. At no point of a run do the buffers exceed two seconds per leg. When \<open>Close\<close> succeeds the file is
  \<open>EncodeWav16kMono\<close> of a sequence of mixed frames of at most 20 ms. If no buffer overflowed, the frames hold every sample
  taken from the peer and every sample taken from the operator, in order, exactly once. If there is any and the length
  fits the header, the strict reader gets back the mix.
\<close>

theorem recording_reads_back:
  assumes "rec_run os r p q d"
  shows "length (wr_peerBuf r) \<le> recMaxBuffered \<and> length (wr_opBuf r) \<le> recMaxBuffered \<and>
    (wr_result r = Some True \<longrightarrow> (\<exists>fs.
      (\<forall>(a, b) \<in> set fs. length a \<le> recFrameSamples \<and> length b \<le> recFrameSamples) \<and>
      f_data (wr_f r) = EncodeWav16kMono (mixed fs) \<and>
      (d = 0 \<longrightarrow> concat (map fst fs) = p \<and> concat (map snd fs) = q) \<and>
      (mixed fs \<noteq> [] \<and> 2 * length (mixed fs) < 2 ^ 32 \<longrightarrow>
         ParseWavStrict (f_data (wr_f r)) = Some (Inr \<lparr> wi_Channels = 1, wi_SampleRate = 16000, wi_BitDepth = 16,
           wi_Samples = map quantised (mixed fs) \<rparr>))))"
proof (intro conjI impI)
  show "length (wr_peerBuf r) \<le> recMaxBuffered" "length (wr_opBuf r) \<le> recMaxBuffered"
    using rec_run_inv [OF assms] by (auto simp: rec_inv_def live_def split: option.splits)
  assume "wr_result r = Some True"
  from finished_recording [OF assms this] obtain fs where
    fs: "\<forall>(a, b) \<in> set fs. length a \<le> recFrameSamples \<and> length b \<le> recFrameSamples"
      "f_data (wr_f r) = EncodeWav16kMono (mixed fs)" "d = 0 \<longrightarrow> concat (map fst fs) = p \<and> concat (map snd fs) = q"
    by blast
  moreover have "mixed fs \<noteq> [] \<and> 2 * length (mixed fs) < 2 ^ 32 \<longrightarrow>
       ParseWavStrict (f_data (wr_f r)) = Some (Inr \<lparr> wi_Channels = 1, wi_SampleRate = 16000, wi_BitDepth = 16,
         wi_Samples = map quantised (mixed fs) \<rparr>)"
    using EncodeWav_parses [of "mixed fs" "[]"] unfolding fs(2) by simp
  ultimately show "\<exists>fs. (\<forall>(a, b) \<in> set fs. length a \<le> recFrameSamples \<and> length b \<le> recFrameSamples) \<and>
      f_data (wr_f r) = EncodeWav16kMono (mixed fs) \<and>
      (d = 0 \<longrightarrow> concat (map fst fs) = p \<and> concat (map snd fs) = q) \<and>
      (mixed fs \<noteq> [] \<and> 2 * length (mixed fs) < 2 ^ 32 \<longrightarrow>
         ParseWavStrict (f_data (wr_f r)) = Some (Inr \<lparr> wi_Channels = 1, wi_SampleRate = 16000, wi_BitDepth = 16,
           wi_Samples = map quantised (mixed fs) \<rparr>))" by blast
qed

theorem recording_reads_back_witness:
  "\<exists>r. rec_run (\<lambda>_. None) r [Fin 2, NaN] [Fin 0] 0 \<and>
     (\<exists>fs. f_data (wr_f r) = EncodeWav16kMono (mixed fs) \<and> concat (map fst fs) = [Fin 2, NaN] \<and> concat (map snd fs) = [Fin 0])"
proof -
  let ?os = "\<lambda>_. None :: nat option"
  obtain r0 where r0: "NewWavRecorder ?os = Some r0" and n0: "\<not> wr_stopped r0" "wr_peerBuf r0 = []" "wr_opBuf r0 = []"
      "\<not> wr_writeErr r0" "\<not> wr_done r0" "wr_result r0 = None" "\<not> wr_stop r0"
    by (auto simp: NewWavRecorder_def writeWavHeader_def file_seek0_def file_write_def)
  define r1 where "r1 = WritePeer [Fin 2, NaN] r0"
  define r2 where "r2 = WriteOperator [Fin 0] r1"
  define r3 where "r3 = pump_stop ?os (Close_begin r2)"
  have s1: "rec_run ?os r1 [Fin 2, NaN] [] 0" using rec_run.peer [OF rec_run.new [OF r0], of "[Fin 2, NaN]"] n0
    by (simp add: r1_def taken_def recMaxBuffered_def recSampleRate_def)
  have n1: "\<not> wr_stopped r1" "wr_opBuf r1 = []" "\<not> wr_done r1" "wr_result r1 = None" using n0 by (simp_all add: r1_def WritePeer_def)
  have s2: "rec_run ?os r2 [Fin 2, NaN] [Fin 0] 0" using rec_run.operator [OF s1, of "[Fin 0]"] n1
    by (simp add: r2_def taken_def recMaxBuffered_def recSampleRate_def)
  have n2: "\<not> wr_stopped r2" "\<not> wr_done r2" "wr_result r2 = None" using n1 by (simp_all add: r2_def WriteOperator_def)
  have s3: "rec_run ?os r3 [Fin 2, NaN] [Fin 0] 0" unfolding r3_def
    by (rule rec_run.pump_end [OF rec_run.close [OF s2]]) (use n2 in \<open>simp_all add: Close_begin_def\<close>)
  have n3: "wr_done r3" "wr_result r3 = None" unfolding r3_def pump_stop_def
    using n2 drain_keeps [of ?os "Close_begin r2"] by (simp_all add: Close_begin_def)
  have s4: "rec_run ?os (Close_finish ?os r3) [Fin 2, NaN] [Fin 0] 0" by (rule rec_run.close_end [OF s3 n3])
  have e: "\<not> wr_writeErr r3" unfolding r3_def pump_stop_def using drain_no_err [of ?os "Close_begin r2"] n0(4)
    by (simp add: r2_def r1_def WriteOperator_def WritePeer_def Close_begin_def)
  have "wr_result (Close_finish ?os r3) = Some True" using e
    by (simp add: Close_finish_def writeWavHeader_def file_seek0_def file_write_def file_close_def)
  with recording_reads_back [OF s4] s4 show ?thesis by blast
qed

end
