(* ===== verification/Spec2Isabelle.thy ===== *)
theory Spec2Isabelle
  imports Call_Limits Call_Client Relay_Transport Mlow_Decoder_Total Wav_Recorder
begin

text \<open>
  Verification of WaCalls, a Go server that places and answers WhatsApp voice and video calls.

  \<^bold>\<open>The program.\<close> The core is \<^verbatim>\<open>internal/voip\<close>. A call manager (\<^verbatim>\<open>call/\<close>) drives one call: it
  exchanges call stanzas with the peer over the messaging socket (\<^verbatim>\<open>signaling/\<close>, \<^verbatim>\<open>wanode/\<close>), learns relay
  addresses and keys from them, dials relays (\<^verbatim>\<open>transport/\<close>), and exchanges SRTP and SRTCP packets
  (\<^verbatim>\<open>media/\<close>, \<^verbatim>\<open>engine/\<close>) with the peer through them. Audio and video extensions turn payloads into
  samples and frames. \<^verbatim>\<open>internal/app\<close> wraps this in a server.

  \<^bold>\<open>Theories and sources.\<close>
  \<^item> \<open>Prelude\<close>: machine types, Go slices with their panics, byte codecs, transition systems.
  \<^item> \<open>Core_Types\<close>: \<^verbatim>\<open>core/types.go\<close>.
  \<^item> \<open>Call_State\<close>: \<^verbatim>\<open>call/callstate.go\<close> and the deadlines of \<^verbatim>\<open>call/callmanager_timeout.go\<close>.
  \<^item> \<open>Rtp\<close>, \<open>Srtp\<close>, \<open>Srtcp\<close>, \<open>Rtcp\<close>, \<open>Rtcp_Receiver\<close>, \<open>H264\<close>, \<open>Keying\<close>: the files of \<^verbatim>\<open>media/\<close> with these
    names, \<^verbatim>\<open>media/ssrc.go\<close> and \<^verbatim>\<open>media/encryption.go\<close>; \<open>Crypto\<close>: the standard library's ciphers and hashes.
  \<^item> \<open>Srtp_Manager\<close>: \<^verbatim>\<open>engine/srtpmanager.go\<close>.
  \<^item> \<open>Stun\<close>, \<open>Subscriptions\<close>: \<^verbatim>\<open>transport/stun.go\<close>, \<^verbatim>\<open>transport/stunbuild.go\<close>, \<^verbatim>\<open>transport/subscriptions.go\<close>.
  \<^item> \<open>Text_Format\<close>, \<open>Wanode\<close>, \<open>Relay_Ack\<close>, \<open>Signaling\<close>: decimal and hexadecimal text, \<^verbatim>\<open>wanode/\<close> and
    \<^verbatim>\<open>signaling/\<close>.
  \<^item> \<open>Call_Manager\<close> (state and shared operations), \<open>Call_Rx\<close> (datagrams from relays), \<open>Call_Tx\<close> (audio,
    video and RTCP out), \<open>Call_Control\<close> (every other handler): \<^verbatim>\<open>call/callmanager*.go\<close>, \<^verbatim>\<open>call/helpers.go\<close>.
  \<^item> \<open>Call_Client\<close>: \<^verbatim>\<open>call/client.go\<close>, the registry of the calls of one account.
  \<^item> \<open>Relay_Transport\<close>: \<^verbatim>\<open>transport/sctprelay.go\<close>, the pool of relay connections.
  \<^item> \<open>Range_Coder\<close>: \<^verbatim>\<open>codec/mlow/rangecoder.go\<close>; \<open>Range_Roundtrip\<close>, \<open>Range_Flush\<close>, \<open>Range_Total\<close>,
    \<open>Range_Capacity\<close>: its proofs.
  \<^item> \<open>Mlow_Tables\<close>: \<^verbatim>\<open>codec/mlow/cc_tables.go\<close>; \<open>Mlow_Bitstream\<close>, \<open>Mlow_Pulses\<close>: \<^verbatim>\<open>lsf.go\<close>, \<^verbatim>\<open>gains.go\<close>, \<^verbatim>\<open>pulse.go\<close> and
    the writers of \<^verbatim>\<open>encoder.go\<close>; \<open>Mlow_Roundtrip\<close>: that readers and writers agree; \<open>Mlow_Packet\<close>: \<^verbatim>\<open>toc.go\<close>,
    \<^verbatim>\<open>red.go\<close> and the container parser of \<^verbatim>\<open>decoder.go\<close>.
  \<^item> \<open>Mlow_Pitch\<close>: \<^verbatim>\<open>pitch_seed.go\<close>, \<^verbatim>\<open>mem.go\<close>, the coding half of \<^verbatim>\<open>pitch.go\<close>; \<open>Mlow_Window\<close>, \<open>Mlow_Pitch_Roundtrip\<close>: its
    proofs; \<open>Mlow_Frame\<close>: \<open>EncodeSmplFrame\<close>, \<^verbatim>\<open>decoder.go\<close>, \<^verbatim>\<open>codec.go\<close>; \<open>Mlow_Capacity\<close>, \<open>Mlow_Frame_Roundtrip\<close>,
    \<open>Mlow_Decoder_Total\<close>: its proofs.
  \<^item> \<open>Float32\<close>: Go's floating-point numbers with their rounding; \<open>Wav\<close>: \<^verbatim>\<open>media/pcm.go\<close>, \<^verbatim>\<open>media/resample.go\<close>, \<^verbatim>\<open>media/wavparse.go\<close>;
    \<open>Wav_Recorder\<close>: \<^verbatim>\<open>media/wavrecorder.go\<close>, the call recorder as a transition system over a file.
  \<^item> \<open>Call_Invariant\<close>, \<open>Call_System\<close>, \<open>Call_Limits\<close>: no code of their own; the handlers as one
    transition system, and its properties.

  \<^bold>\<open>State and effects.\<close> A Go struct is a record, a method a function from the record to the record it
  leaves. A run-time panic is \<open>None\<close>, a returned error \<open>Inl\<close>. What a call manager does to its socket, its
  relay, its observer and its callbacks is a list of effects, \<open>cm_out\<close>; what it reads from outside (the
  socket's answers, the clock, random draws, whether a relay is connected) is the argument \<open>env\<close>. The
  address type of the messaging library is a type parameter with its operations in a record; so are the
  floating-point operations of the reception statistics, and the codec's synthesis and analysis; the samples of
  recordings are rationals, infinities or NaN, rounded as the type rounds. A section under the manager's lock is one step.
  Handlers that release the lock in the middle are given as their locked sections, or take what happens
  meanwhile as an argument.

  \<^bold>\<open>What is shown.\<close>
  \<^item> Call manager: on every manager reachable by any events no handler panics; the observer hears of
    the end of a call at most once and its memory accounting is exact; the current call moves only
    along the life cycle; the first answering device owns the call; the watchdog ends overdue calls;
    an ended call is silent; a teardown during an accept stays one; the keys after an accept.
  \<^item> Media in: one peer stream at a time; the duplicate filter is a sliding window of 512 packets.
  \<^item> Media out: every RTCP report is sent once, under an index of its own, and readable by the peer;
    hold music is read cyclically.
  \<^item> SRTP and SRTCP: stream round trip across sequence number roll-over and loss; no packet index is
    accepted twice; a rejected datagram leaves no trace; counter blocks do not repeat; streams of
    different sources do not influence each other.
  \<^item> Codecs (RTP, RTCP, H.264, STUN, subscription lists, relay acknowledgements, offers, latency
    probes): round trips, bounds and the inputs on which a decoder panics.
  \<^item> Client: its registry invariant, calls that do not influence each other, and which offers are admitted.
  \<^item> Relay pool: its invariant, and which relays are dialled.
  \<^item> Speech codec: whatever symbols the range coder is given come back from its bytes, also when they are cut to the
    consumed length; the decoder returns on every byte string; run-length tables are usable at every window; packet
    parsers accept exactly their layouts. A frame decodes to the parameters it was encoded from, voiced and unvoiced,
    whatever the decoder heard before, and up to 40 pulses it fits the buffer. No sequence of payloads makes the decoder panic.
  \<^item> Recordings: samples written to a WAV file come back from both readers within two quantisation steps; no upload makes
    the strict reader or the normalisation panic; a closed recording is the file of the mixed frames and, if no buffer
    overflowed, these hold both legs in full.
  \<^item> Call life cycle: its invariant, final states, and which phases have a deadline.

  \<^bold>\<open>Interfaces.\<close> \<open>invariant_system\<close> (\<open>Prelude\<close>) is interpreted by the call life cycle, the SRTP
  manager, the call manager, the client and the relay pool; \<open>block_cipher\<close> (\<open>Crypto\<close>) by AES; \<open>replay_guard\<close> (\<open>Srtp\<close>) by the replay
  window; \<open>sliding_window\<close> (\<open>Call_Rx\<close>) by the ring and map of the duplicate filter.

  \<^bold>\<open>Bounds.\<close> No fuel is used: every loop of the modelled code recurses structurally or with a measure, but for the
  normalisation loops of the range coder, which are partial functions and proved to return.
  Machine integers keep their width; lengths of slices in memory are natural numbers.
  Instants are integers in nanoseconds.

  \<^bold>\<open>Not modelled.\<close> The synthesis and analysis of the MLow codec are floating-point signal processing, the Opus codec is
  a third-party library. The session descriptions of \<^verbatim>\<open>transport/sctprelay.go\<close> are rewritten by regular expressions. The
  server, its stores, sessions and web interface are glue around libraries. Logging is left out.
\<close>

end
